(* ===== verification/Py_Strings.thy ===== *)
theory Py_Strings
  imports Main "HOL-Library.Sublist"
begin

text \<open>
  The string functions of Python's standard library that the modelled sources call, on
  \<^typ>\<open>string\<close> (a list of 8-bit characters). A character stands for the Unicode code point
  of the same number, so the functions below agree with Python on every string of code points
  below 256 (white space, line separators, case folding and \<open>repr\<close> escapes included). Byte
  strings use the same type.
\<close>

subsection \<open>White space, case, stripping\<close>

definition is_space :: "char \<Rightarrow> bool" where
  "is_space c = (let n = (of_char c :: nat) in
     9 \<le> n \<and> n \<le> 13 \<or> 28 \<le> n \<and> n \<le> 32 \<or> n = 133 \<or> n = 160)"

definition py_lower_char :: "char \<Rightarrow> char" where
  "py_lower_char c = (let n = (of_char c :: nat) in
     if 65 \<le> n \<and> n \<le> 90 \<or> 192 \<le> n \<and> n \<le> 214 \<or> 216 \<le> n \<and> n \<le> 222
     then char_of (n + 32) else c)"

definition py_lower :: "string \<Rightarrow> string" where
  "py_lower = map py_lower_char"

definition py_lstrip :: "string \<Rightarrow> string" where
  "py_lstrip = dropWhile is_space"

definition py_rstrip :: "string \<Rightarrow> string" where
  "py_rstrip s = rev (dropWhile is_space (rev s))"

definition py_strip :: "string \<Rightarrow> string" where
  "py_strip s = py_rstrip (py_lstrip s)"

definition startswith :: "string \<Rightarrow> string \<Rightarrow> bool" where
  "startswith s p = (take (length p) s = p)"

lemma startswith_prefix: "startswith s p \<longleftrightarrow> prefix p s"
  by (metis startswith_def append_eq_conv_conj append_take_drop_id prefix_def)

lemma startswith_append [simp]: "startswith (p @ s) p"
  by (simp add: startswith_def)

lemma startswith_Nil [simp]: "startswith s []"
  by (simp add: startswith_def)

lemma startswith_of_Nil [simp]: "startswith [] p \<longleftrightarrow> p = []"
  by (auto simp: startswith_def)

lemma startswith_Cons [simp]: "startswith (c # s) (d # p) \<longleftrightarrow> c = d \<and> startswith s p"
  by (auto simp: startswith_def)

lemma py_lower_char_idem: "py_lower_char (py_lower_char c) = py_lower_char c"
proof -
  have lt: "(of_char c :: nat) < 256" by simp
  show ?thesis
    using lt by (auto simp: py_lower_char_def Let_def)
qed

lemma py_lower_idem [simp]: "py_lower (py_lower s) = py_lower s"
  by (simp add: py_lower_def py_lower_char_idem)

lemma dropWhile_rev_dropWhile_hd:
  "xs \<noteq> [] \<Longrightarrow> \<not> P (hd xs) \<Longrightarrow> dropWhile P (rev (dropWhile P (rev xs))) = rev (dropWhile P (rev xs))"
proof (induction xs rule: rev_induct)
  case Nil
  then show ?case by simp
next
  case (snoc x xs)
  then show ?case by (cases xs) auto
qed

lemma py_strip_idem [simp]: "py_strip (py_strip s) = py_strip s"
proof (cases "dropWhile is_space s")
  case Nil
  from Nil have e: "py_strip s = []"
    by (simp only: py_strip_def py_lstrip_def py_rstrip_def Nil rev.simps dropWhile.simps)
  have "py_strip [] = []"
    by (simp add: py_strip_def py_lstrip_def py_rstrip_def)
  then show ?thesis by (simp only: e)
next
  case (Cons c cs)
  then have hd: "\<not> is_space c"
    by (metis dropWhile_eq_Cons_conv)
  have "py_lstrip (py_strip s) = py_strip s"
    unfolding py_strip_def py_lstrip_def py_rstrip_def Cons
    by (rule dropWhile_rev_dropWhile_hd) (simp_all add: hd)
  then show ?thesis
    by (simp add: py_strip_def py_rstrip_def)
qed

subsection \<open>Splitting and joining\<close>

fun split_on :: "char \<Rightarrow> string \<Rightarrow> string list" where
  "split_on d [] = [[]]"
| "split_on d (c # cs) =
     (if c = d then [] # split_on d cs
      else (case split_on d cs of [] \<Rightarrow> [[c]] | w # ws \<Rightarrow> (c # w) # ws))"

fun py_join :: "string \<Rightarrow> string list \<Rightarrow> string" where
  "py_join sep [] = []"
| "py_join sep [x] = x"
| "py_join sep (x # y # ys) = x @ sep @ py_join sep (y # ys)"

lemma split_on_nonempty [simp]: "split_on d s \<noteq> []"
  by (induction s) (auto split: list.splits)

lemma split_on_no_sep: "w \<in> set (split_on d s) \<Longrightarrow> d \<notin> set w"
  by (induction s arbitrary: w) (auto split: if_splits list.splits)

lemma split_on_word: "d \<notin> set w \<Longrightarrow> split_on d w = [w]"
  by (induction w) auto

lemma split_on_append_sep: "d \<notin> set w \<Longrightarrow> split_on d (w @ d # s) = w # split_on d s"
  by (induction w) auto

lemma split_on_join:
  "xs \<noteq> [] \<Longrightarrow> (\<And>x. x \<in> set xs \<Longrightarrow> d \<notin> set x) \<Longrightarrow> split_on d (py_join [d] xs) = xs"
  by (induction "[d]" xs rule: py_join.induct)
     (simp_all add: split_on_word split_on_append_sep)

lemma py_join_Cons: "py_join sep (x # xs) = (if xs = [] then x else x @ sep @ py_join sep xs)"
  by (cases xs) simp_all

lemma join_split_on: "py_join [d] (split_on d s) = s"
proof (induction s)
  case Nil
  then show ?case by simp
next
  case (Cons c cs)
  then show ?case
    by (cases "split_on d cs") (auto simp: py_join_Cons)
qed

text \<open>\<open>s.split()\<close> with no argument: the maximal runs of non-space characters.\<close>

fun py_words_aux :: "string \<Rightarrow> string \<Rightarrow> string list" where
  "py_words_aux [] cur = (if cur = [] then [] else [rev cur])"
| "py_words_aux (c # cs) cur =
     (if is_space c then (if cur = [] then py_words_aux cs [] else rev cur # py_words_aux cs [])
      else py_words_aux cs (c # cur))"

definition py_words :: "string \<Rightarrow> string list" where
  "py_words s = py_words_aux s []"

text \<open>\<open>s.splitlines()\<close>.\<close>

definition is_linesep :: "char \<Rightarrow> bool" where
  "is_linesep c = (let n = (of_char c :: nat) in
     10 \<le> n \<and> n \<le> 13 \<or> 28 \<le> n \<and> n \<le> 30 \<or> n = 133)"

fun splitlines_aux :: "string \<Rightarrow> string \<Rightarrow> string list" where
  "splitlines_aux [] cur = (if cur = [] then [] else [rev cur])"
| "splitlines_aux [c] cur = (if is_linesep c then [rev cur] else [rev (c # cur)])"
| "splitlines_aux (c # d # cs) cur =
     (if is_linesep c then
        rev cur # (if (of_char c :: nat) = 13 \<and> (of_char d :: nat) = 10 then splitlines_aux cs []
                   else splitlines_aux (d # cs) [])
      else splitlines_aux (d # cs) (c # cur))"

definition splitlines :: "string \<Rightarrow> string list" where
  "splitlines s = splitlines_aux s []"

text \<open>\<open>s.partition(sep)\<close> for a non-empty \<open>sep\<close>: \<open>None\<close> when \<open>sep\<close> does not occur.\<close>

fun py_partition :: "string \<Rightarrow> string \<Rightarrow> (string \<times> string) option" where
  "py_partition sep [] = (if sep = [] then Some ([], []) else None)"
| "py_partition sep (c # cs) =
     (if startswith (c # cs) sep then Some ([], drop (length sep) (c # cs))
      else map_option (\<lambda>(a, b). (c # a, b)) (py_partition sep cs))"

lemma py_partition_Some: "py_partition sep s = Some (a, b) \<Longrightarrow> s = a @ sep @ b"
proof (induction sep s arbitrary: a b rule: py_partition.induct)
  case (1 sep)
  then show ?case by (auto split: if_splits)
next
  case (2 sep c cs)
  show ?case
  proof (cases "startswith (c # cs) sep")
    case True
    then show ?thesis using "2.prems"
      by (auto simp: startswith_def) (metis append_take_drop_id)
  next
    case False
    then show ?thesis using "2" by auto
  qed
qed

text \<open>\<open>sub in s\<close> on strings, \<open>s.rfind(c)\<close> for one character (\<open>-1\<close> when absent) and
  \<open>s.replace(c, d)\<close> for one character.\<close>

definition py_contains :: "string \<Rightarrow> string \<Rightarrow> bool" where
  "py_contains sub s = (sub = [] \<or> py_partition sub s \<noteq> None)"

definition rfind_char :: "char \<Rightarrow> string \<Rightarrow> int" where
  "rfind_char c s = (if c \<in> set s
     then int (length s) - 1 - int (length (takeWhile (\<lambda>x. x \<noteq> c) (rev s))) else -1)"

definition replace_char :: "char \<Rightarrow> char \<Rightarrow> string \<Rightarrow> string" where
  "replace_char a b = map (\<lambda>c. if c = a then b else c)"

lemma rfind_char_append: "c \<notin> set t \<Longrightarrow> rfind_char c (s @ c # t) = int (length s)"
proof -
  assume "c \<notin> set t"
  then have "takeWhile (\<lambda>x. x \<noteq> c) (rev t @ c # rev s) = rev t"
    by (subst takeWhile_append2) auto
  then have "takeWhile (\<lambda>x. x \<noteq> c) (rev (s @ c # t)) = rev t"
    by simp
  then show ?thesis by (simp add: rfind_char_def)
qed

lemma rfind_char_less: "rfind_char c s < int (length s)"
  by (simp add: rfind_char_def)

lemma rfind_char_absent: "c \<notin> set s \<Longrightarrow> rfind_char c s = -1"
  by (simp add: rfind_char_def)

subsection \<open>Numbers and \<open>repr\<close>\<close>

fun show_nat :: "nat \<Rightarrow> string" where
  "show_nat n = (if n < 10 then [char_of (48 + n)]
                 else show_nat (n div 10) @ [char_of (48 + n mod 10)])"

declare show_nat.simps [simp del]

definition show_int :: "int \<Rightarrow> string" where
  "show_int i = (if i < 0 then ''-'' @ show_nat (nat (- i)) else show_nat (nat i))"

definition hex_digit :: "nat \<Rightarrow> char" where
  "hex_digit n = (if n < 10 then char_of (48 + n) else char_of (87 + n))"

definition repr_char :: "char \<Rightarrow> char \<Rightarrow> string" where
  "repr_char q c = (let n = (of_char c :: nat) in
     if c = q \<or> n = 92 then [char_of (92::nat), c]
     else if n = 9 then [char_of (92::nat), CHR ''t'']
     else if n = 10 then [char_of (92::nat), CHR ''n'']
     else if n = 13 then [char_of (92::nat), CHR ''r'']
     else if n < 32 \<or> 127 \<le> n \<and> n \<le> 160 \<or> n = 173
       then [char_of (92::nat), CHR ''x'', hex_digit (n div 16), hex_digit (n mod 16)]
     else [c])"

definition py_repr :: "string \<Rightarrow> string" where
  "py_repr s = (let sq = char_of (39::nat); dq = char_of (34::nat);
                    q = (if sq \<in> set s \<and> dq \<notin> set s then dq else sq)
                in [q] @ concat (map (repr_char q) s) @ [q])"

subsection \<open>Bytes\<close>

text \<open>\<open>str.encode("utf-8")\<close> of a string of Latin-1 characters.\<close>

definition utf8_bytes :: "string \<Rightarrow> string" where
  "utf8_bytes s = concat (map (\<lambda>c. let n = (of_char c :: nat) in
     if n < 128 then [c] else [char_of (192 + n div 64), char_of (128 + n mod 64)]) s)"

text \<open>\<open>bytes.decode("utf-8", errors="replace")\<close>: as strings are Latin-1 here, every byte of a longer character and
  every malformed byte becomes a question mark.\<close>

function utf8_decode :: "string \<Rightarrow> string" where
  "utf8_decode [] = []"
| "utf8_decode (b # bs) = (let n = (of_char b :: nat) in
     if n < 128 then b # utf8_decode bs
     else (case bs of [] \<Rightarrow> ''?''
       | c # cs \<Rightarrow> let m = (of_char c :: nat) in
           if (n = 194 \<or> n = 195) \<and> 128 \<le> m \<and> m < 192 then char_of ((n - 192) * 64 + (m - 128)) # utf8_decode cs
           else CHR ''?'' # utf8_decode bs))"
  by pat_completeness auto
termination by (relation "measure length") auto

lemma utf8_roundtrip: "utf8_decode (utf8_bytes s) = s"
proof (induction s)
  case Nil
  then show ?case by (simp add: utf8_bytes_def)
next
  case (Cons c s)
  let ?n = "of_char c :: nat"
  have n: "?n < 256" by simp
  have bytes: "utf8_bytes (c # s) = (if ?n < 128 then [c] else [char_of (192 + ?n div 64), char_of (128 + ?n mod 64)]) @ utf8_bytes s"
    by (simp add: utf8_bytes_def Let_def)
  show ?case
  proof (cases "?n < 128")
    case True
    with Cons bytes show ?thesis by (simp add: Let_def)
  next
    case False
    then have d: "?n div 64 = 2 \<or> ?n div 64 = 3" using n by linarith
    have m: "?n mod 64 < 64" by simp
    have k1: "(of_char (char_of (192 + ?n div 64) :: char) :: nat) = 192 + ?n div 64" using d by auto
    have k2: "(of_char (char_of (128 + ?n mod 64) :: char) :: nat) = 128 + ?n mod 64" using m by simp
    have "char_of (?n div 64 * 64 + ?n mod 64) = c" by (simp del: of_char_mod_256)
    with False Cons bytes d m k1 k2 show ?thesis by (auto simp: Let_def)
  qed
qed

subsection \<open>SQL patterns\<close>

text \<open>\<open>LIKE\<close> of SQLite: \<open>%\<close> is any text, \<open>_\<close> any character, and ASCII letters match in either case.\<close>

definition ascii_lower :: "char \<Rightarrow> char" where
  "ascii_lower c = (let n = (of_char c :: nat) in if 65 \<le> n \<and> n \<le> 90 then char_of (n + 32) else c)"

fun sql_like :: "string \<Rightarrow> string \<Rightarrow> bool" where
  "sql_like [] t = (t = [])"
| "sql_like (c # p) [] = (c = CHR ''%'' \<and> sql_like p [])"
| "sql_like (c # p) (d # t) = (if c = CHR ''%'' then sql_like p (d # t) \<or> sql_like (c # p) t
     else (c = CHR ''_'' \<or> ascii_lower c = ascii_lower d) \<and> sql_like p t)"

end
