(* ===== verification/Anima_Prelude.thy ===== *)
theory Anima_Prelude
  imports Main Py_Strings
begin

text \<open>
  What every component of the development shares: the exceptions of the sources, effectful
  Python code as functions that pass a state and return a value or an exception, the shape of
  \<open>subprocess\<close> calls, and the collections of facts the proofs use.
\<close>

subsection \<open>Collections\<close>

named_theorems act_simps \<open>the equations of effectful code, unfolded to case distinctions\<close>
named_theorems opdefs \<open>the definitions of the modelled operations\<close>

subsection \<open>Exceptions\<close>

text \<open>
  One constructor for each exception class of the sources. The message of an exception is not
  modelled; what a handler or a caller can observe is its class. \<open>ExternalError\<close> is any other
  exception that a call into the operating system or into a library raises.
\<close>

datatype exn =
    OperatorError
  | ServiceOperatorRefusalError
  | FileOperatorRefusalError
  | UnitTopologyError
  | UnitTopologyUnsupportedError
  | UnitTopologyRefusalError
  | PamRefusalError
  | PamInstallError
  | FrontDoorInstallError
  | ReversibleApplyError
  | SandboxError
  | SelfReloadRefusalError
  | SelfReloadPreflightError
  | SelfReloadStateError
  | VenvPreflightError
  | VenvStateError
  | OwnedResourceRefusalError
  | BpfLsmError
  | BpfLsmUnsupportedError
  | BpfLsmIntegrityError
  | LandlockError
  | LandlockUnsupportedError
  | PyFileNotFoundError
  | PyFileExistsError
  | PyOSError
  | PyValueError
  | PyPermissionError
  | PyNotImplementedError
  | PyKeyError
  | SqlIntegrityError
  | TimeoutExpired
  | CalledProcessError
  | QuotaExceeded
  | AuthError
  | ExternalError string

definition type_error :: exn where
  "type_error = ExternalError ''TypeError''"

subsection \<open>Effectful code\<close>

text \<open>
  Code that reads and writes a state \<open>'s\<close> and returns an \<open>'a\<close> or raises. The effects that
  precede an exception are kept: an exception is returned together with the state it leaves.
\<close>

type_synonym ('s, 'a) act = "'s \<Rightarrow> (exn + 'a) \<times> 's"

definition act_return :: "'a \<Rightarrow> ('s, 'a) act" where
  "act_return x = (\<lambda>s. (Inr x, s))"

definition act_raise :: "exn \<Rightarrow> ('s, 'a) act" where
  "act_raise e = (\<lambda>s. (Inl e, s))"

definition act_bind :: "('s, 'a) act \<Rightarrow> ('a \<Rightarrow> ('s, 'b) act) \<Rightarrow> ('s, 'b) act" where
  "act_bind m k = (\<lambda>s. case m s of (Inl e, s') \<Rightarrow> (Inl e, s') | (Inr x, s') \<Rightarrow> k x s')"

definition act_then :: "('s, 'a) act \<Rightarrow> ('s, 'b) act \<Rightarrow> ('s, 'b) act" where
  "act_then m k = act_bind m (\<lambda>_. k)"

text \<open>\<open>try: m except Exception as e: h e\<close>\<close>

definition act_catch :: "('s, 'a) act \<Rightarrow> (exn \<Rightarrow> ('s, 'a) act) \<Rightarrow> ('s, 'a) act" where
  "act_catch m h = (\<lambda>s. case m s of (Inl e, s') \<Rightarrow> h e s' | (Inr x, s') \<Rightarrow> (Inr x, s'))"

text \<open>\<open>try: m finally: f\<close>\<close>

definition act_finally :: "('s, 'a) act \<Rightarrow> ('s, unit) act \<Rightarrow> ('s, 'a) act" where
  "act_finally m f = (\<lambda>s. case m s of (r, s') \<Rightarrow>
     (case f s' of (Inl e, s'') \<Rightarrow> (Inl e, s'') | (Inr _, s'') \<Rightarrow> (r, s'')))"

definition act_get :: "('s \<Rightarrow> 'a) \<Rightarrow> ('s, 'a) act" where
  "act_get f = (\<lambda>s. (Inr (f s), s))"

definition act_modify :: "('s \<Rightarrow> 's) \<Rightarrow> ('s, unit) act" where
  "act_modify f = (\<lambda>s. (Inr (), f s))"

lemma act_return_apply [act_simps, simp]: "act_return x s = (Inr x, s)"
  by (simp add: act_return_def)

lemma act_raise_apply [act_simps, simp]: "act_raise e s = (Inl e, s)"
  by (simp add: act_raise_def)

lemma act_bind_apply [act_simps]:
  "act_bind m k s = (case m s of (Inl e, s') \<Rightarrow> (Inl e, s') | (Inr x, s') \<Rightarrow> k x s')"
  by (simp add: act_bind_def)

lemma act_then_apply [act_simps]:
  "act_then m k s = (case m s of (Inl e, s') \<Rightarrow> (Inl e, s') | (Inr x, s') \<Rightarrow> k s')"
  by (simp add: act_then_def act_bind_def)

lemma act_catch_apply [act_simps]:
  "act_catch m h s = (case m s of (Inl e, s') \<Rightarrow> h e s' | (Inr x, s') \<Rightarrow> (Inr x, s'))"
  by (simp add: act_catch_def)

lemma act_finally_apply [act_simps]:
  "act_finally m f s = (case m s of (r, s') \<Rightarrow>
     (case f s' of (Inl e, s'') \<Rightarrow> (Inl e, s'') | (Inr _, s'') \<Rightarrow> (r, s'')))"
  by (simp add: act_finally_def)

lemma act_get_apply [act_simps, simp]: "act_get f s = (Inr (f s), s)"
  by (simp add: act_get_def)

lemma act_modify_apply [act_simps, simp]: "act_modify f s = (Inr (), f s)"
  by (simp add: act_modify_def)

lemma act_bind_Inr: "m s = (Inr x, s') \<Longrightarrow> act_bind m k s = k x s'"
  by (simp add: act_bind_apply)

lemma act_bind_Inl: "m s = (Inl e, s') \<Longrightarrow> act_bind m k s = (Inl e, s')"
  by (simp add: act_bind_apply)

lemma act_then_Inr: "m s = (Inr x, s') \<Longrightarrow> act_then m k s = k s'"
  by (simp add: act_then_apply)

lemma act_then_Inl: "m s = (Inl e, s') \<Longrightarrow> act_then m k s = (Inl e, s')"
  by (simp add: act_then_apply)

lemma act_catch_Inr: "m s = (Inr x, s') \<Longrightarrow> act_catch m h s = (Inr x, s')"
  by (simp add: act_catch_apply)

lemma act_catch_Inl: "m s = (Inl e, s') \<Longrightarrow> act_catch m h s = h e s'"
  by (simp add: act_catch_apply)

lemmas act_steps = act_bind_Inr act_bind_Inl act_then_Inr act_then_Inl act_catch_Inr act_catch_Inl

lemma act_bind_InrE:
  assumes "act_bind m k s = (Inr y, t)"
  obtains x s' where "m s = (Inr x, s')" and "k x s' = (Inr y, t)"
  using assms by (auto simp: act_bind_apply split: prod.splits sum.splits)

lemma act_then_InrE:
  assumes "act_then m k s = (Inr y, t)"
  obtains x s' where "m s = (Inr x, s')" and "k s' = (Inr y, t)"
  using assms by (auto simp: act_then_apply split: prod.splits sum.splits)

lemma act_bind_assoc: "act_bind (act_bind m f) g = act_bind m (\<lambda>x. act_bind (f x) g)"
  by (rule ext) (simp add: act_bind_apply split: prod.splits sum.splits)

lemma act_bind_return [simp]: "act_bind m act_return = m"
  by (rule ext) (simp add: act_bind_apply split: prod.splits sum.splits)

text \<open>
  \<open>kept P m\<close>: the code \<open>m\<close> keeps the state predicate \<open>P\<close>, whether it returns or raises.
\<close>

definition kept :: "('s \<Rightarrow> bool) \<Rightarrow> ('s, 'a) act \<Rightarrow> bool" where
  "kept P m \<longleftrightarrow> (\<forall>s. P s \<longrightarrow> P (snd (m s)))"

lemma keptI: "(\<And>s r s'. P s \<Longrightarrow> m s = (r, s') \<Longrightarrow> P s') \<Longrightarrow> kept P m"
  by (simp add: kept_def) (metis prod.collapse)

lemma keptD: "kept P m \<Longrightarrow> P s \<Longrightarrow> m s = (r, s') \<Longrightarrow> P s'"
  by (force simp: kept_def)

lemma kept_return [intro!]: "kept P (act_return x)"
  by (simp add: kept_def)

lemma kept_raise [intro!]: "kept P (act_raise e)"
  by (simp add: kept_def)

lemma kept_get [intro!]: "kept P (act_get f)"
  by (simp add: kept_def)

lemma kept_bind [intro]: "kept P m \<Longrightarrow> (\<And>x. kept P (k x)) \<Longrightarrow> kept P (act_bind m k)"
  by (rule keptI) (auto simp: act_bind_apply dest: keptD split: prod.splits sum.splits)

lemma kept_then [intro]: "kept P m \<Longrightarrow> kept P k \<Longrightarrow> kept P (act_then m k)"
  by (simp add: act_then_def kept_bind)

lemma kept_catch [intro]: "kept P m \<Longrightarrow> (\<And>e. kept P (h e)) \<Longrightarrow> kept P (act_catch m h)"
  by (rule keptI) (auto simp: act_catch_apply dest: keptD split: prod.splits sum.splits)

lemma kept_if [intro]: "(b \<Longrightarrow> kept P m) \<Longrightarrow> (\<not> b \<Longrightarrow> kept P n) \<Longrightarrow> kept P (if b then m else n)"
  by simp

lemma if_cases: "(b \<Longrightarrow> P) \<Longrightarrow> (\<not> b \<Longrightarrow> Q) \<Longrightarrow> if b then P else Q"
  by simp

subsection \<open>Subprocesses\<close>

text \<open>
  A finished \<open>subprocess.run\<close>: its return code and output. A \<open>shell\<close> is the operating system
  as the code sees it: an argument vector and the state give a finished process or an
  exception (missing program, timeout), and a new state. It is a parameter wherever it is used.
\<close>

record proc =
  returncode :: int
  stdout :: string
  stderr :: string

type_synonym 'w shell = "string list \<Rightarrow> ('w, proc) act"

text \<open>A command that only reports (\<open>systemctl is-active\<close>, \<open>git rev-parse\<close>) is a \<open>query\<close>: it
  does not change the state.\<close>

type_synonym 'w query = "string list \<Rightarrow> 'w \<Rightarrow> exn + proc"

definition ask :: "'w query \<Rightarrow> string list \<Rightarrow> ('w, proc) act" where
  "ask ctl argv = (\<lambda>w. (ctl argv w, w))"

definition ask_check :: "'w query \<Rightarrow> string list \<Rightarrow> ('w, proc) act" where
  "ask_check ctl argv = act_bind (ask ctl argv) (\<lambda>p.
     if returncode p = 0 then act_return p else act_raise CalledProcessError)"

lemma ask_apply [act_simps, simp]: "ask ctl argv w = (ctl argv w, w)"
  by (simp add: ask_def)

lemma ask_check_state: "ask_check ctl argv w = (r, w') \<Longrightarrow> w' = w"
  by (auto simp: ask_check_def act_bind_apply split: sum.splits if_splits)

text \<open>\<open>subprocess.run(..., check=True)\<close> raises on a non-zero return code.\<close>

definition run_check :: "'w shell \<Rightarrow> string list \<Rightarrow> ('w, proc) act" where
  "run_check sh argv = act_bind (sh argv) (\<lambda>p.
     if returncode p = 0 then act_return p else act_raise CalledProcessError)"

end
