(* ===== verification/Py_Paths.thy ===== *)
theory Py_Paths
  imports Anima_Prelude
begin

text \<open>
  \<open>os.path\<close> and \<open>pathlib\<close> on POSIX, as far as the sources use them, and the file system as a
  map from absolute path strings to nodes with the operations the sources call. Which paths the
  operating system refuses to open (permissions, a full disk, a missing parent) is the state's
  own predicate \<open>io_fault\<close>, so every operation has its error branch.
\<close>

subsection \<open>Path strings\<close>

abbreviation slash :: char where "slash \<equiv> CHR ''/''"

definition path_join :: "string \<Rightarrow> string \<Rightarrow> string" where
  "path_join a b = (if startswith b ''/'' then b
     else if a = [] \<or> last a = slash then a @ b else a @ ''/'' @ b)"

text \<open>\<open>os.path.normpath\<close>: exactly two leading slashes are kept, as POSIX allows.\<close>

definition initial_slashes :: "string \<Rightarrow> nat" where
  "initial_slashes p = (if startswith p ''//'' \<and> \<not> startswith p ''///'' then 2
     else if startswith p ''/'' then 1 else 0)"

fun norm_comps :: "bool \<Rightarrow> string list \<Rightarrow> string list \<Rightarrow> string list" where
  "norm_comps rooted [] acc = rev acc"
| "norm_comps rooted (c # cs) acc =
     (if c = [] \<or> c = ''.'' then norm_comps rooted cs acc
      else if c \<noteq> ''..'' \<or> (\<not> rooted \<and> acc = []) \<or> (acc \<noteq> [] \<and> hd acc = ''..'')
        then norm_comps rooted cs (c # acc)
      else norm_comps rooted cs (tl acc))"

definition normpath :: "string \<Rightarrow> string" where
  "normpath p = (if p = [] then ''.'' else
     let n = initial_slashes p;
         q = replicate n slash @ py_join ''/'' (norm_comps (n \<noteq> 0) (split_on slash p) [])
     in if q = [] then ''.'' else q)"

text \<open>\<open>str(Path(p))\<close>, \<open>Path(p).parts\<close>, \<open>Path(p).name\<close> and \<open>Path(a) / b\<close>.\<close>

definition path_comps :: "string \<Rightarrow> string list" where
  "path_comps p = filter (\<lambda>c. c \<noteq> [] \<and> c \<noteq> ''.'') (split_on slash p)"

definition path_parts :: "string \<Rightarrow> string list" where
  "path_parts p = (if initial_slashes p = 0 then [] else [replicate (initial_slashes p) slash])
     @ path_comps p"

definition path_str :: "string \<Rightarrow> string" where
  "path_str p = (let q = replicate (initial_slashes p) slash @ py_join ''/'' (path_comps p)
     in if q = [] then ''.'' else q)"

definition path_name :: "string \<Rightarrow> string" where
  "path_name p = (case rev (path_comps p) of [] \<Rightarrow> [] | c # _ \<Rightarrow> c)"

definition path_div :: "string \<Rightarrow> string \<Rightarrow> string" where
  "path_div a b = (if startswith b ''/'' \<or> a = [] then path_str b else path_str (a @ ''/'' @ b))"

text \<open>\<open>inside root p\<close>: the test \<open>p == root or p.startswith(root + os.sep)\<close> of the sources.\<close>

definition inside :: "string \<Rightarrow> string \<Rightarrow> bool" where
  "inside root p \<longleftrightarrow> p = root \<or> startswith p (root @ ''/'')"

lemma inside_refl [simp]: "inside r r"
  by (simp add: inside_def)

lemma inside_child [simp]: "inside r (r @ ''/'' @ x)"
  by (simp add: inside_def startswith_def)

lemma inside_trans: "inside r p \<Longrightarrow> inside p q \<Longrightarrow> inside r q"
  unfolding inside_def startswith_prefix
  by (metis prefix_order.trans append_assoc prefix_def)

lemma apart_trees: "inside a x \<Longrightarrow> inside b x \<Longrightarrow> inside a b \<or> inside b a"
  unfolding inside_def startswith_prefix by (auto dest: prefix_same_cases simp: prefix_snoc)

lemma norm_comps_clean:
  "c \<in> set (norm_comps a cs acc) \<Longrightarrow> (\<forall>x \<in> set acc. x \<noteq> [] \<and> x \<noteq> ''.'') \<Longrightarrow> c \<noteq> [] \<and> c \<noteq> ''.''"
proof (induction a cs acc rule: norm_comps.induct)
  case (1 rooted acc)
  then show ?case by simp
next
  case (2 rooted c' cs acc)
  have tl: "\<forall>x \<in> set (tl acc). x \<noteq> [] \<and> x \<noteq> ''.''"
    using "2.prems"(2) by (cases acc) auto
  show ?case
    using 2 tl by (auto split: if_splits)
qed

text \<open>An absolute path has no \<open>..\<close> left: the stack never holds one.\<close>

lemma norm_comps_abs_no_dotdot:
  "''..'' \<notin> set acc \<Longrightarrow> ''..'' \<notin> set (norm_comps True cs acc)"
proof (induction True cs acc rule: norm_comps.induct)
  case (1 acc)
  then show ?case by simp
next
  case (2 c cs acc)
  have "acc \<noteq> [] \<Longrightarrow> hd acc \<noteq> ''..''" using "2.prems" by (metis hd_in_set)
  moreover have "''..'' \<notin> set (tl acc)" using "2.prems" by (cases acc) auto
  ultimately show ?case using 2 by auto
qed

subsection \<open>The file system\<close>

text \<open>
  The operating system resolves a path to a node. Symbolic links are not modelled, so the node is
  named by the lexical normal form, in which extra leading slashes mean nothing: \<open>//etc/x\<close> and
  \<open>/etc/x\<close> are one file.
\<close>

definition fs_key :: "string \<Rightarrow> string" where
  "fs_key p = (if startswith p ''/'' then ''/'' @ py_join ''/'' (norm_comps True (split_on slash p) [])
     else py_join ''/'' (norm_comps False (split_on slash p) []))"

lemma fs_key_normpath:
  "initial_slashes p = 1 \<Longrightarrow> fs_key p = normpath p"
  by (auto simp: fs_key_def normpath_def initial_slashes_def Let_def split: if_splits)

datatype node = Regular string | Directory

text \<open>\<open>io_fault\<close> holds of the nodes on which the operating system fails an operation
  (permissions, a full disk, an input/output error).\<close>

record host =
  files :: "string \<Rightarrow> node option"
  io_fault :: "string \<Rightarrow> bool"

text \<open>\<open>Path(p).parent\<close>. A file can be created only in a directory; the root and the working
  directory always are one.\<close>

definition path_parent :: "string \<Rightarrow> string" where
  "path_parent p = (let q = replicate (initial_slashes p) slash @ py_join ''/'' (butlast (path_comps p))
     in if q = [] then ''.'' else q)"

definition parent_ok :: "string \<Rightarrow> 'm host_scheme \<Rightarrow> bool" where
  "parent_ok p h \<longleftrightarrow> path_parent p \<in> {''/'', ''//'', ''.''}
     \<or> files h (fs_key (path_parent p)) = Some Directory"

text \<open>\<open>Path.exists\<close>, \<open>Path.read_bytes\<close> / \<open>open().read()\<close>, \<open>Path.write_bytes\<close>,
  \<open>Path.unlink\<close>, \<open>os.mkdir\<close>.\<close>

definition fs_exists :: "string \<Rightarrow> 'm host_scheme \<Rightarrow> bool" where
  "fs_exists p h = (files h (fs_key p) \<noteq> None)"

definition fs_read :: "string \<Rightarrow> ('m host_scheme, string) act" where
  "fs_read p = (\<lambda>h. case files h (fs_key p) of
       None \<Rightarrow> (Inl PyFileNotFoundError, h)
     | Some Directory \<Rightarrow> (Inl PyOSError, h)
     | Some (Regular c) \<Rightarrow> (if io_fault h (fs_key p) then Inl PyOSError else Inr c, h))"

definition fs_write :: "string \<Rightarrow> string \<Rightarrow> ('m host_scheme, unit) act" where
  "fs_write p c = (\<lambda>h. if \<not> parent_ok p h then
       (Inl (if files h (fs_key (path_parent p)) = None then PyFileNotFoundError else PyOSError), h)
     else if io_fault h (fs_key p) \<or> files h (fs_key p) = Some Directory then (Inl PyOSError, h)
     else (Inr (), h\<lparr>files := (files h)(fs_key p \<mapsto> Regular c)\<rparr>))"

text \<open>\<open>open(p, "a").write(c)\<close> and \<open>shutil.copy2(a, b)\<close>.\<close>

definition fs_append :: "string \<Rightarrow> string \<Rightarrow> ('m host_scheme, unit) act" where
  "fs_append p c = (\<lambda>h. fs_write p
     (case files h (fs_key p) of Some (Regular d) \<Rightarrow> d @ c | _ \<Rightarrow> c) h)"

definition fs_copy :: "string \<Rightarrow> string \<Rightarrow> ('m host_scheme, unit) act" where
  "fs_copy a b = act_bind (fs_read a) (fs_write b)"

definition fs_unlink :: "string \<Rightarrow> ('m host_scheme, unit) act" where
  "fs_unlink p = (\<lambda>h. case files h (fs_key p) of
       None \<Rightarrow> (Inl PyFileNotFoundError, h)
     | Some Directory \<Rightarrow> (Inl PyOSError, h)
     | Some (Regular c) \<Rightarrow>
         if io_fault h (fs_key p) then (Inl PyOSError, h)
         else (Inr (), h\<lparr>files := (files h)(fs_key p := None)\<rparr>))"

text \<open>\<open>unlink(missing_ok=True)\<close> and \<open>try: unlink() except FileNotFoundError: pass\<close>.\<close>

definition fs_unlink_missing_ok :: "string \<Rightarrow> ('m host_scheme, unit) act" where
  "fs_unlink_missing_ok p = act_catch (fs_unlink p)
     (\<lambda>e. if e = PyFileNotFoundError then act_return () else act_raise e)"

definition fs_mkdir :: "string \<Rightarrow> ('m host_scheme, unit) act" where
  "fs_mkdir p = (\<lambda>h. case files h (fs_key p) of
       Some Directory \<Rightarrow> (Inr (), h)
     | Some (Regular c) \<Rightarrow> (Inl PyFileExistsError, h)
     | None \<Rightarrow> if io_fault h (fs_key p) then (Inl PyOSError, h)
               else (Inr (), h\<lparr>files := (files h)(fs_key p \<mapsto> Directory)\<rparr>))"

text \<open>
  \<open>Path(p).mkdir(parents=True, exist_ok=True)\<close>: the missing ancestors from the top down. A
  regular file in the place of an ancestor is \<open>NotADirectoryError\<close>, in the last place
  \<open>FileExistsError\<close>. \<open>path_chain\<close> gives the ancestors of \<open>p\<close> below the root, \<open>p\<close> included.
\<close>

definition path_chain :: "string \<Rightarrow> string list" where
  "path_chain p = map (\<lambda>n. replicate (initial_slashes p) slash @ py_join ''/'' (take n (path_comps p)))
     [1..<Suc (length (path_comps p))]"

fun fs_mkdirs :: "string list \<Rightarrow> ('m host_scheme, unit) act" where
  "fs_mkdirs [] = act_return ()"
| "fs_mkdirs [d] = fs_mkdir d"
| "fs_mkdirs (d # e # ds) =
     act_then (act_catch (fs_mkdir d) (\<lambda>_. act_raise PyOSError)) (fs_mkdirs (e # ds))"

definition fs_makedirs :: "string \<Rightarrow> ('m host_scheme, unit) act" where
  "fs_makedirs p = fs_mkdirs (path_chain p)"

text \<open>
  \<open>os.rename\<close> of a node and everything below it, \<open>shutil.move\<close> on one file system (into the
  destination when that is a directory) and \<open>shutil.rmtree(..., ignore_errors=True)\<close>. A rename onto
  an existing node is refused here (the sources rename onto fresh names only).
\<close>

definition fs_rename :: "string \<Rightarrow> string \<Rightarrow> ('m host_scheme, unit) act" where
  "fs_rename p q = (\<lambda>h. let a = fs_key p; b = fs_key q in
     if files h a = None \<or> \<not> parent_ok q h then (Inl PyFileNotFoundError, h)
     else if io_fault h a \<or> io_fault h b \<or> files h b \<noteq> None \<or> inside a b then (Inl PyOSError, h)
     else (Inr (), h\<lparr>files := (\<lambda>x.
        if inside b x then files h (a @ drop (length b) x)
        else if inside a x then None else files h x)\<rparr>))"

definition fs_move :: "string \<Rightarrow> string \<Rightarrow> ('m host_scheme, unit) act" where
  "fs_move src dst = (\<lambda>h.
     if files h (fs_key dst) = Some Directory then
       (if fs_key src = fs_key dst then (Inr (), h)
        else let real_dst = path_join dst (path_name src) in
          if fs_exists real_dst h then (Inl PyOSError, h) else fs_rename src real_dst h)
     else fs_rename src dst h)"

definition fs_rmtree :: "string \<Rightarrow> 'm host_scheme \<Rightarrow> 'm host_scheme" where
  "fs_rmtree p h = h\<lparr>files := (\<lambda>x. if inside (fs_key p) x \<and> \<not> io_fault h x then None else files h x)\<rparr>"

lemmas fs_defs = fs_exists_def fs_read_def fs_write_def fs_append_def fs_copy_def fs_unlink_def fs_unlink_missing_ok_def
  fs_mkdir_def fs_makedirs_def fs_rename_def fs_move_def fs_rmtree_def

lemma fs_read_state [simp]: "snd (fs_read p h) = h"
  by (simp add: fs_read_def split: option.splits node.splits)

lemma fs_read_keeps: "fs_read p h = (r, h') \<Longrightarrow> h' = h"
  by (metis fs_read_state snd_conv)

lemma fs_read_Inr:
  "fs_read p h = (Inr c, h') \<longleftrightarrow>
     h' = h \<and> files h (fs_key p) = Some (Regular c) \<and> \<not> io_fault h (fs_key p)"
  by (auto simp: fs_read_def split: option.splits node.splits if_splits)

lemma fs_write_Inr:
  "fs_write p c h = (Inr u, h') \<longleftrightarrow> parent_ok p h \<and> \<not> io_fault h (fs_key p) \<and> files h (fs_key p) \<noteq> Some Directory
     \<and> h' = h\<lparr>files := (files h)(fs_key p \<mapsto> Regular c)\<rparr>"
  by (auto simp: fs_write_def)

lemma fs_write_Inl: "fs_write p c h = (Inl e, h') \<Longrightarrow> h' = h"
  by (auto simp: fs_write_def split: if_splits)

lemma fs_write_frame:
  "fs_write p c h = (r, h') \<Longrightarrow> q \<noteq> fs_key p \<Longrightarrow> files h' q = files h q"
  by (auto simp: fs_write_def split: if_splits)

lemma fs_unlink_missing_ok_eq:
  "fs_unlink_missing_ok p h =
    (if files h (fs_key p) = None then (Inr (), h)
     else if files h (fs_key p) = Some Directory \<or> io_fault h (fs_key p) then (Inl PyOSError, h)
     else (Inr (), h\<lparr>files := (files h)(fs_key p := None)\<rparr>))"
  by (auto simp: fs_unlink_missing_ok_def fs_unlink_def act_catch_apply split: option.splits node.splits)

lemma fs_unlink_frame:
  "fs_unlink_missing_ok p h = (r, h') \<Longrightarrow> q \<noteq> fs_key p \<Longrightarrow> files h' q = files h q"
  by (auto simp: fs_unlink_missing_ok_eq split: if_splits)

text \<open>Making directories never removes or changes a node that was there.\<close>

lemma fs_mkdir_grows: "fs_mkdir d h = (r, h') \<Longrightarrow> files h \<subseteq>\<^sub>m files h' \<and> io_fault h' = io_fault h"
  by (auto simp: fs_mkdir_def map_le_def split: option.splits node.splits if_splits)

lemma fs_mkdirs_grows: "fs_mkdirs ds h = (r, h') \<Longrightarrow> files h \<subseteq>\<^sub>m files h' \<and> io_fault h' = io_fault h"
proof (induction ds arbitrary: h r rule: fs_mkdirs.induct)
  case 1
  then show ?case by simp
next
  case (2 d)
  then show ?case by (simp add: fs_mkdir_grows)
next
  case (3 d e ds)
  obtain r1 h1 where one: "fs_mkdir d h = (r1, h1)" by (cases "fs_mkdir d h")
  note g = fs_mkdir_grows [OF one]
  show ?case
  proof (cases r1)
    case (Inl x)
    with 3 one g show ?thesis by (simp add: act_simps)
  next
    case (Inr x)
    with "3.prems" one have "fs_mkdirs (e # ds) h1 = (r, h')" by (simp add: act_simps)
    from "3.IH" [OF this] g show ?thesis by (auto intro: map_le_trans)
  qed
qed

lemma fs_makedirs_grows: "fs_makedirs p h = (r, h') \<Longrightarrow> files h \<subseteq>\<^sub>m files h' \<and> io_fault h' = io_fault h"
  by (simp add: fs_makedirs_def fs_mkdirs_grows)

lemma fs_mkdir_only: "fs_mkdir d h = (r, h') \<Longrightarrow> x \<noteq> fs_key d \<Longrightarrow> files h' x = files h x"
  by (auto simp: fs_mkdir_def split: option.splits node.splits if_splits)

lemma fs_mkdirs_only: "fs_mkdirs ds h = (r, h') \<Longrightarrow> x \<notin> fs_key ` set ds \<Longrightarrow> files h' x = files h x"
proof (induction ds arbitrary: h r rule: fs_mkdirs.induct)
  case 1
  then show ?case by simp
next
  case (2 d)
  then show ?case by (simp add: fs_mkdir_only)
next
  case (3 d e ds)
  obtain r1 h1 where one: "fs_mkdir d h = (r1, h1)" by (cases "fs_mkdir d h")
  have same: "files h1 x = files h x" using fs_mkdir_only [OF one] "3.prems"(2) by simp
  show ?case
  proof (cases r1)
    case (Inl y)
    with 3 one same show ?thesis by (simp add: act_simps)
  next
    case (Inr y)
    with "3.prems" one have "fs_mkdirs (e # ds) h1 = (r, h')" by (simp add: act_simps)
    from "3.IH" [OF this] "3.prems"(2) same show ?thesis by simp
  qed
qed

lemma fs_makedirs_only: "fs_makedirs p h = (r, h') \<Longrightarrow> x \<notin> fs_key ` set (path_chain p) \<Longrightarrow> files h' x = files h x"
  by (simp add: fs_makedirs_def fs_mkdirs_only)

lemma fs_mkdirs_exist:
  "(\<And>d. d \<in> set ds \<Longrightarrow> files h (fs_key d) = Some Directory) \<Longrightarrow> fs_mkdirs ds h = (Inr (), h)"
  by (induction ds rule: fs_mkdirs.induct) (simp_all add: act_simps fs_mkdir_def)

definition dirs_exist :: "string \<Rightarrow> 'm host_scheme \<Rightarrow> bool" where
  "dirs_exist p h = list_all (\<lambda>d. files h (fs_key d) = Some Directory) (path_chain p)"

lemma fs_makedirs_exist: "dirs_exist p h \<Longrightarrow> fs_makedirs p h = (Inr (), h)"
  by (simp add: fs_makedirs_def dirs_exist_def list_all_iff fs_mkdirs_exist)

lemma fs_rename_Inr:
  "fs_rename p q h = (Inr u, h') \<longleftrightarrow> files h (fs_key p) \<noteq> None \<and> parent_ok q h
     \<and> \<not> io_fault h (fs_key p) \<and> \<not> io_fault h (fs_key q) \<and> files h (fs_key q) = None
     \<and> \<not> inside (fs_key p) (fs_key q)
     \<and> h' = h\<lparr>files := (\<lambda>x. if inside (fs_key q) x then files h (fs_key p @ drop (length (fs_key q)) x)
          else if inside (fs_key p) x then None else files h x)\<rparr>"
  by (auto simp: fs_rename_def Let_def)

lemma inside_split: "inside a x \<Longrightarrow> x = a @ drop (length a) x"
  unfolding inside_def startswith_prefix by (auto simp: prefix_def)

lemma inside_shift: "inside a x \<Longrightarrow> inside b (b @ drop (length a) x)"
  unfolding inside_def startswith_prefix by (auto simp: prefix_def)

lemma fs_rename_moves:
  assumes "fs_rename p q h = (Inr u, h')"
  shows "x = [] \<or> hd x = slash \<Longrightarrow> files h' (fs_key q @ x) = files h (fs_key p @ x)"
  using assms
  by (cases x) (auto simp: fs_rename_def inside_def startswith_def Let_def split: if_splits)

end
