(* ===== verification/Track_Record.thy ===== *)
theory Track_Record
  imports Anima_Prelude
begin

text \<open>
  The earned-autonomy ladder: \<open>anima/kernel/track_record.py\<close> and the operator half of it in
  \<open>anima/db/__init__.py\<close> (\<open>get_operator_track_record\<close>, \<open>update_operator_track_record\<close>). The
  SQL tables are maps from the primary key to a row; SQLite's own failures are not modelled.
  The interface of a track-record store is the locale \<open>track_store\<close>, interpreted on both tables.
\<close>

subsection \<open>The state and its transition\<close>

definition GRADUATION_THRESHOLD :: int where "GRADUATION_THRESHOLD = 3"

record TrackRecordState =
  verified_successes :: int
  graduated :: bool
  last_outcome :: "string option"
  last_fix_branch :: "string option"
  last_fix_sha :: "string option"
  pending_since :: "int option"

definition fresh_track :: TrackRecordState where
  "fresh_track = \<lparr>verified_successes = 0, graduated = False, last_outcome = None,
     last_fix_branch = None, last_fix_sha = None, pending_since = None\<rparr>"

record cycle =
  anomaly_present :: bool
  branch_merged :: bool
  fix_branch :: "string option"
  fix_sha :: "string option"
  cycle_now :: int

definition advance_state :: "TrackRecordState \<Rightarrow> cycle \<Rightarrow> TrackRecordState" where
  "advance_state state c =
     (if \<not> branch_merged c then state
      else if anomaly_present c then
        state\<lparr>pending_since := None, last_outcome := Some ''merged_regressed'',
              last_fix_branch := fix_branch c, last_fix_sha := fix_sha c\<rparr>
      else if pending_since state = None \<or> last_fix_branch state \<noteq> fix_branch c then
        state\<lparr>pending_since := Some (cycle_now c), last_fix_branch := fix_branch c,
              last_fix_sha := fix_sha c, last_outcome := Some ''merged_pending_stability''\<rparr>
      else
        let verified = verified_successes state + 1 in
        state\<lparr>verified_successes := verified,
              graduated := graduated state \<or> verified \<ge> GRADUATION_THRESHOLD,
              pending_since := None, last_outcome := Some ''merged_resolved''\<rparr>)"

lemma advance_state_cases:
  obtains (unmerged) "\<not> branch_merged c" "advance_state s c = s"
    | (regressed) "branch_merged c" "anomaly_present c"
        "verified_successes (advance_state s c) = verified_successes s"
        "graduated (advance_state s c) = graduated s"
        "pending_since (advance_state s c) = None"
    | (waiting) "branch_merged c" "\<not> anomaly_present c"
        "pending_since s = None \<or> last_fix_branch s \<noteq> fix_branch c"
        "verified_successes (advance_state s c) = verified_successes s"
        "graduated (advance_state s c) = graduated s"
        "pending_since (advance_state s c) = Some (cycle_now c)"
    | (credited) "branch_merged c" "\<not> anomaly_present c" "pending_since s \<noteq> None"
        "last_fix_branch s = fix_branch c"
        "verified_successes (advance_state s c) = verified_successes s + 1"
        "graduated (advance_state s c) = (graduated s \<or> verified_successes s + 1 \<ge> 3)"
        "pending_since (advance_state s c) = None"
  by (cases "branch_merged c"; cases "anomaly_present c";
      cases "pending_since s = None \<or> last_fix_branch s \<noteq> fix_branch c")
     (auto simp: advance_state_def GRADUATION_THRESHOLD_def Let_def)

lemma advance_state_graduated: "graduated s \<Longrightarrow> graduated (advance_state s c)"
  by (cases rule: advance_state_cases [of c s]) auto

lemma advance_state_verified_mono: "verified_successes s \<le> verified_successes (advance_state s c)"
  by (cases rule: advance_state_cases [of c s]) auto

subsection \<open>The rows of the two tables\<close>

record track_row =
  row_verified_successes :: int
  row_graduated :: int
  row_last_outcome :: "string option"
  row_last_fix_branch :: "string option"
  row_last_fix_sha :: "string option"
  row_pending_since :: "int option"
  row_updated_at :: int

definition row_to_state :: "track_row \<Rightarrow> TrackRecordState" where
  "row_to_state r = \<lparr>verified_successes = row_verified_successes r,
     graduated = (row_graduated r \<noteq> 0), last_outcome = row_last_outcome r,
     last_fix_branch = row_last_fix_branch r, last_fix_sha = row_last_fix_sha r,
     pending_since = row_pending_since r\<rparr>"

definition state_to_row :: "TrackRecordState \<Rightarrow> int \<Rightarrow> track_row" where
  "state_to_row s now = \<lparr>row_verified_successes = verified_successes s,
     row_graduated = (if graduated s then 1 else 0), row_last_outcome = last_outcome s,
     row_last_fix_branch = last_fix_branch s, row_last_fix_sha = last_fix_sha s,
     row_pending_since = pending_since s, row_updated_at = now\<rparr>"

lemma row_roundtrip [simp]: "row_to_state (state_to_row s now) = s"
  by (cases s) (simp add: row_to_state_def state_to_row_def)

type_synonym track_key = "string \<times> string \<times> string"
type_synonym track_table = "track_key \<Rightarrow> track_row option"

definition get_track_record :: "track_key \<Rightarrow> track_table \<Rightarrow> TrackRecordState" where
  "get_track_record k t = (case t k of None \<Rightarrow> fresh_track | Some r \<Rightarrow> row_to_state r)"

definition update_track_record :: "track_key \<Rightarrow> cycle \<Rightarrow> track_table \<Rightarrow> TrackRecordState \<times> track_table" where
  "update_track_record k c t =
     (let current = get_track_record k t; new = advance_state current c
      in if new = current then (new, t)
         else (new, t(k \<mapsto> state_to_row new (cycle_now c))))"

text \<open>
  The operator table has no branch column: \<open>last_fix_branch\<close> is read back as \<open>None\<close>, and the
  cycle of an operation outcome always has \<open>branch_merged=True\<close>, \<open>fix_branch=None\<close>.
\<close>

definition get_operator_track_record :: "track_key \<Rightarrow> track_table \<Rightarrow> TrackRecordState" where
  "get_operator_track_record k t = (case t k of None \<Rightarrow> fresh_track
     | Some r \<Rightarrow> (row_to_state r)\<lparr>last_fix_branch := None\<rparr>)"

definition operator_cycle :: "bool \<Rightarrow> int \<Rightarrow> cycle" where
  "operator_cycle verified now = \<lparr>anomaly_present = \<not> verified, branch_merged = True,
     fix_branch = None, fix_sha = None, cycle_now = now\<rparr>"

lemma operator_cycle_sel [simp]:
  "anomaly_present (operator_cycle v n) = (\<not> v)" "branch_merged (operator_cycle v n)"
  "fix_branch (operator_cycle v n) = None" "fix_sha (operator_cycle v n) = None"
  "cycle_now (operator_cycle v n) = n"
  by (simp_all add: operator_cycle_def)

definition update_operator_track_record ::
    "track_key \<Rightarrow> bool \<times> int \<Rightarrow> track_table \<Rightarrow> TrackRecordState \<times> track_table" where
  "update_operator_track_record k vn t =
     (let current = get_operator_track_record k t;
          new = advance_state current (operator_cycle (fst vn) (snd vn))
      in if new = current then (new, t)
         else (new, t(k \<mapsto> (state_to_row new (snd vn))\<lparr>row_last_fix_branch := None\<rparr>)))"

subsection \<open>The interface of a track-record store\<close>

locale track_store =
  fixes get :: "'k \<Rightarrow> 't \<Rightarrow> TrackRecordState"
    and upd :: "'k \<Rightarrow> 'e \<Rightarrow> 't \<Rightarrow> TrackRecordState \<times> 't"
    and event :: "'e \<Rightarrow> cycle"
  assumes upd_returns: "fst (upd k e t) = advance_state (get k t) (event e)"
    and get_upd_same: "get k (snd (upd k e t)) = advance_state (get k t) (event e)"
    and get_upd_other: "k' \<noteq> k \<Longrightarrow> get k' (snd (upd k e t)) = get k' t"
begin

lemma get_upds:
  "get k (fold (\<lambda>(j, e) t. snd (upd j e t)) es t) =
     foldl advance_state (get k t) (map (\<lambda>(j, e). event e) (filter (\<lambda>(j, e). j = k) es))"
proof (induction es arbitrary: t)
  case Nil
  then show ?case by simp
next
  case (Cons je es)
  obtain j e where je: "je = (j, e)" by (cases je)
  show ?case
    by (cases "j = k") (simp_all add: je Cons.IH get_upd_same get_upd_other)
qed

lemma graduated_kept: "graduated (get k t) \<Longrightarrow> graduated (get k (snd (upd j e t)))"
  by (cases "j = k") (simp_all add: get_upd_same get_upd_other advance_state_graduated)

lemma graduated_needs_update:
  "\<not> graduated (get k t) \<Longrightarrow> graduated (get k (snd (upd j e t))) \<Longrightarrow>
     j = k \<and> branch_merged (event e) \<and> \<not> anomaly_present (event e)
       \<and> pending_since (get k t) \<noteq> None \<and> last_fix_branch (get k t) = fix_branch (event e)
       \<and> verified_successes (get k t) \<ge> 2"
  by (cases "j = k"; cases rule: advance_state_cases [of "event e" "get k t"])
     (auto simp: get_upd_same get_upd_other)

end

interpretation autonomy: track_store get_track_record update_track_record "\<lambda>c. c"
  by unfold_locales (auto simp: update_track_record_def get_track_record_def Let_def)

lemma get_operator_branch [simp]: "last_fix_branch (get_operator_track_record k t) = None"
  by (simp add: get_operator_track_record_def fresh_track_def split: option.split)

lemma advance_operator_branch:
  "last_fix_branch s = None \<Longrightarrow> last_fix_branch (advance_state s (operator_cycle v n)) = None"
  by (simp add: advance_state_def operator_cycle_def Let_def)

lemma operator_row_roundtrip:
  "last_fix_branch s = None \<Longrightarrow>
     (row_to_state ((state_to_row s n)\<lparr>row_last_fix_branch := None\<rparr>))\<lparr>last_fix_branch := None\<rparr> = s"
  by (cases s) (simp add: row_to_state_def state_to_row_def)

interpretation operator_ledger: track_store get_operator_track_record update_operator_track_record
  "\<lambda>(v, n). operator_cycle v n"
proof unfold_locales
  fix k and e :: "bool \<times> int" and t
  obtain v n where e: "e = (v, n)" by (cases e)
  show "fst (update_operator_track_record k e t) =
      advance_state (get_operator_track_record k t) (case e of (v, n) \<Rightarrow> operator_cycle v n)"
    by (simp add: update_operator_track_record_def Let_def e)
  have "last_fix_branch (advance_state (get_operator_track_record k t) (operator_cycle v n)) = None"
    by (simp add: advance_operator_branch)
  from operator_row_roundtrip [OF this]
  have "get_operator_track_record k (t(k \<mapsto> (state_to_row (advance_state (get_operator_track_record k t)
      (operator_cycle v n)) n)\<lparr>row_last_fix_branch := None\<rparr>)) =
    advance_state (get_operator_track_record k t) (operator_cycle v n)"
    by (simp add: get_operator_track_record_def)
  then show "get_operator_track_record k (snd (update_operator_track_record k e t)) =
      advance_state (get_operator_track_record k t) (case e of (v, n) \<Rightarrow> operator_cycle v n)"
    by (simp add: update_operator_track_record_def Let_def e)
next
  fix k k' :: track_key and e :: "bool \<times> int" and t
  assume "k' \<noteq> k"
  then show "get_operator_track_record k' (snd (update_operator_track_record k e t)) =
      get_operator_track_record k' t"
    by (simp add: update_operator_track_record_def get_operator_track_record_def Let_def)
qed

subsection \<open>What graduation means\<close>

text \<open>
  The specification of the operator ladder: a list of outcomes earns one credit for every two
  consecutive successes, counted without overlap inside each maximal run of successes.
\<close>

fun success_runs :: "bool list \<Rightarrow> nat list" where
  "success_runs [] = [0]"
| "success_runs (v # vs) =
     (if v then Suc (hd (success_runs vs)) # tl (success_runs vs) else 0 # success_runs vs)"

definition credits :: "bool list \<Rightarrow> nat" where
  "credits vs = sum_list (map (\<lambda>n. n div 2) (success_runs vs))"

fun credits_from :: "bool \<Rightarrow> bool list \<Rightarrow> nat" where
  "credits_from p [] = 0"
| "credits_from p (v # vs) =
     (if \<not> v then credits_from False vs
      else if p then Suc (credits_from False vs) else credits_from True vs)"

lemma success_runs_nonempty [simp]: "success_runs vs \<noteq> []"
  by (cases vs) auto

lemma credits_from_eq:
  "credits_from p vs =
     sum_list (map (\<lambda>n. n div 2) ((if p then Suc (hd (success_runs vs)) else hd (success_runs vs))
       # tl (success_runs vs)))"
proof (induction vs arbitrary: p)
  case Nil
  then show ?case by simp
next
  case (Cons v vs)
  obtain r rs where r: "success_runs vs = r # rs" by (cases "success_runs vs") auto
  show ?case
    using Cons.IH [of True] Cons.IH [of False] by (auto simp: r)
qed

lemma credits_eq: "credits vs = credits_from False vs"
  by (cases "success_runs vs") (simp_all add: credits_def credits_from_eq)

lemma advance_operator_fold:
  assumes "last_fix_branch s = None"
  shows "verified_successes (foldl advance_state s (map (\<lambda>(v, n). operator_cycle v n) es)) =
           verified_successes s + int (credits_from (pending_since s \<noteq> None) (map fst es))"
    and "graduated (foldl advance_state s (map (\<lambda>(v, n). operator_cycle v n) es)) \<longleftrightarrow>
           graduated s \<or> (credits_from (pending_since s \<noteq> None) (map fst es) > 0 \<and>
             verified_successes s + int (credits_from (pending_since s \<noteq> None) (map fst es)) \<ge> 3)"
  using assms
proof (induction es arbitrary: s)
  case Nil
  { case 1 then show ?case by simp }
  { case 2 then show ?case by simp }
next
  case (Cons e es)
  obtain v n where e: "e = (v, n)" by (cases e)
  { case (1 s)
    show ?case
      using Cons.IH(1) [OF advance_operator_branch [OF 1]] 1
      by (cases rule: advance_state_cases [of "operator_cycle v n" s]) (simp_all add: e) }
  { case (2 s)
    show ?case
      using Cons.IH(2) [OF advance_operator_branch [OF 2]] 2
      by (cases rule: advance_state_cases [of "operator_cycle v n" s]) (auto simp add: e) }
qed

lemma fresh_operator: "t k = None \<Longrightarrow> get_operator_track_record k t = fresh_track"
  by (simp add: get_operator_track_record_def)

subsection \<open>The branch probe\<close>

text \<open>
  \<open>is_branch_merged\<close>: \<open>run_bash\<close> (the sandboxed shell of \<open>anima/kernel/sandbox.py\<close>) is a
  parameter; only its \<open>SandboxError\<close> is caught.
\<close>

definition sandbox_or_false :: "('w, proc) act \<Rightarrow> (proc \<Rightarrow> ('w, bool) act) \<Rightarrow> ('w, bool) act" where
  "sandbox_or_false m k = (\<lambda>w. case m w of
       (Inl e, w') \<Rightarrow> (if e = SandboxError then Inr False else Inl e, w')
     | (Inr p, w') \<Rightarrow> k p w')"

definition is_branch_merged ::
    "(string \<Rightarrow> string \<Rightarrow> ('w, proc) act) \<Rightarrow> string \<Rightarrow> string \<Rightarrow> ('w, bool) act" where
  "is_branch_merged run_bash repo_path sha =
     sandbox_or_false (run_bash ''git rev-parse --abbrev-ref origin/HEAD'' repo_path) (\<lambda>default.
       if returncode default \<noteq> 0 then act_return False
       else let default_ref = py_strip (stdout default) in
         if default_ref = [] then act_return False
         else sandbox_or_false
           (run_bash (''git merge-base --is-ancestor '' @ sha @ '' '' @ default_ref) repo_path)
           (\<lambda>result. act_return (returncode result = 0)))"

subsection \<open>Properties\<close>

text \<open>C4: The operator ladder, for every history of operation outcomes over all classes and targets: a
  class has exactly the credits its own outcomes earned (one for every two consecutive verified
  successes, a failure in between losing the first), and it is graduated exactly when it has earned
  three. Outcomes of other classes or targets never count, and later failures never revoke it.\<close>

theorem operator_graduation:
  fixes es :: "(track_key \<times> (bool \<times> int)) list" and k :: track_key
  defines "final \<equiv> get_operator_track_record k
    (fold (\<lambda>(j, e) t. snd (update_operator_track_record j e t)) es Map.empty)"
  shows "verified_successes final = int (credits [v. (j, v, n) \<leftarrow> es, j = k])
    \<and> (graduated final \<longleftrightarrow> 3 \<le> credits [v. (j, v, n) \<leftarrow> es, j = k])"
proof -
  have es: "map (\<lambda>(j, e). (\<lambda>(v, n). operator_cycle v n) e) (filter (\<lambda>(j, e). j = k) es) =
      map (\<lambda>(v, n). operator_cycle v n) (map snd (filter (\<lambda>(j, e). j = k) es))"
    by (auto simp: case_prod_unfold)
  have fst_es: "map fst (map snd (filter (\<lambda>(j, e). j = k) es)) = [v. (j, v, n) \<leftarrow> es, j = k]"
    by (induction es) auto
  have "final = foldl advance_state fresh_track
      (map (\<lambda>(v, n). operator_cycle v n) (map snd (filter (\<lambda>(j, e). j = k) es)))"
    unfolding final_def es [symmetric]
    by (subst operator_ledger.get_upds) (simp add: get_operator_track_record_def)
  moreover have "last_fix_branch fresh_track = None" by (simp add: fresh_track_def)
  note advance_operator_fold [OF this, of "map snd (filter (\<lambda>(j, e). j = k) es)"]
  ultimately show ?thesis
    unfolding fst_es by (auto simp: fresh_track_def credits_eq)
qed

text \<open>A graduated autonomy class got there by a merged fix: the update that graduates a class was
  for that very key, its branch was merged, no anomaly was seen, the same branch had been seen merged
  and quiet in an earlier cycle, and two credits had been earned before.\<close>

theorem autonomy_graduation_step:
  assumes "\<not> graduated (get_track_record k t)"
    and "graduated (get_track_record k (snd (update_track_record j c t)))"
  shows "j = k \<and> branch_merged c \<and> \<not> anomaly_present c \<and> pending_since (get_track_record k t) \<noteq> None
    \<and> last_fix_branch (get_track_record k t) = fix_branch c \<and> verified_successes (get_track_record k t) \<ge> 2"
  by (rule autonomy.graduated_needs_update [OF assms])

theorem autonomy_graduation_step_witness:
  "verified_successes (get_track_record (''u'', ''disk'', ''/'') [(''u'', ''disk'', ''/'') \<mapsto>
     \<lparr>row_verified_successes = 2, row_graduated = 0, row_last_outcome = None, row_last_fix_branch = Some ''b'',
      row_last_fix_sha = None, row_pending_since = Some 5, row_updated_at = 5\<rparr>]) \<ge> 2"
proof -
  let ?t = "[(''u'', ''disk'', ''/'') \<mapsto>
     \<lparr>row_verified_successes = 2, row_graduated = 0, row_last_outcome = None, row_last_fix_branch = Some ''b'',
      row_last_fix_sha = None, row_pending_since = Some 5, row_updated_at = 5\<rparr>] :: track_table"
  let ?k = "(''u'', ''disk'', ''/'')"
  let ?c = "\<lparr>anomaly_present = False, branch_merged = True, fix_branch = Some ''b'', fix_sha = None, cycle_now = 9\<rparr>"
  have a: "\<not> graduated (get_track_record ?k ?t)" by code_simp
  have b: "graduated (get_track_record ?k (snd (update_track_record ?k ?c ?t)))" by code_simp
  from autonomy_graduation_step [OF a b] show ?thesis by blast
qed

end
