(* ===== verification/Kernel_DB.thy ===== *)
theory Kernel_DB
  imports Track_Record "HOL-Library.AList"
begin

text \<open>
  The kernel's tables of \<open>anima/db/__init__.py\<close>: the owner's allowlists
  (\<open>managed_{file,service,pam,unit}_targets\<close>), the outcome ledgers of self-reload, owned
  resources and the virtual environment with the CHECK constraints of their migrations, and the
  query for the workspaces that active intents hold. A table with a primary key is an association
  list in insertion order; a ledger is the list of its rows, oldest first.
\<close>

subsection \<open>The tables\<close>

record command_target =
  validator_cmd :: string
  created_at :: int

record self_reload_row =
  sr_old_sha :: string
  sr_new_sha :: string
  sr_outcome :: string
  sr_autonomous :: bool

record owned_row =
  or_op_type :: string
  or_target_summary :: string
  or_outcome :: string
  or_autonomous :: bool
  or_trash_ref :: "string option"

record venv_row =
  vr_op_type :: string
  vr_hash_before :: string
  vr_hash_after :: string
  vr_outcome :: string
  vr_autonomous :: bool
  vr_deadman_unit :: "string option"

record project_row =
  project_id :: string
  workdir :: "string option"

record intent_row =
  intent_project :: string
  intent_status :: string

type_synonym target_key = "string \<times> string"

record kernel_db =
  operator_tracks :: track_table
  autonomy_tracks :: track_table
  managed_file_targets :: "(target_key \<times> command_target) list"
  managed_service_targets :: "(target_key \<times> command_target) list"
  managed_pam_targets :: "(target_key \<times> int) list"
  managed_unit_targets :: "(target_key \<times> int) list"
  self_reload_ledger :: "self_reload_row list"
  owned_ledger :: "owned_row list"
  venv_ledger :: "venv_row list"
  projects :: "project_row list"
  intents :: "intent_row list"

definition empty_db :: kernel_db where
  "empty_db = \<lparr>operator_tracks = Map.empty, autonomy_tracks = Map.empty, managed_file_targets = [],
     managed_service_targets = [], managed_pam_targets = [], managed_unit_targets = [],
     self_reload_ledger = [], owned_ledger = [], venv_ledger = [], projects = [], intents = []\<rparr>"

subsection \<open>Allowlists\<close>

text \<open>
  The four allowlists are two shapes of upsert: one with a validator command, which a second
  registration replaces (\<open>created_at\<close> is kept), and one without, where it does nothing.
\<close>

definition upsert_command ::
    "string \<Rightarrow> string \<Rightarrow> string \<Rightarrow> int \<Rightarrow> (target_key \<times> command_target) list \<Rightarrow> (target_key \<times> command_target) list" where
  "upsert_command u k cmd now t = (case map_of t (u, k) of
       None \<Rightarrow> AList.update (u, k) \<lparr>validator_cmd = cmd, created_at = now\<rparr> t
     | Some r \<Rightarrow> AList.update (u, k) (r\<lparr>validator_cmd := cmd\<rparr>) t)"

definition insert_ignore :: "string \<Rightarrow> string \<Rightarrow> int \<Rightarrow> (target_key \<times> int) list \<Rightarrow> (target_key \<times> int) list" where
  "insert_ignore u k now t = (case map_of t (u, k) of
       None \<Rightarrow> AList.update (u, k) now t | Some r \<Rightarrow> t)"

definition rows_of :: "string \<Rightarrow> (target_key \<times> 'r) list \<Rightarrow> (string \<times> 'r) list" where
  "rows_of u t = map (\<lambda>((u', k), r). (k, r)) (filter (\<lambda>((u', k), r). u' = u) t)"

definition get_managed_file_target :: "string \<Rightarrow> string \<Rightarrow> kernel_db \<Rightarrow> command_target option" where
  "get_managed_file_target u p db = map_of (managed_file_targets db) (u, p)"

definition list_managed_file_targets :: "string \<Rightarrow> kernel_db \<Rightarrow> (string \<times> command_target) list" where
  "list_managed_file_targets u db = rows_of u (managed_file_targets db)"

definition add_managed_file_target :: "string \<Rightarrow> string \<Rightarrow> string \<times> int \<Rightarrow> kernel_db \<Rightarrow> kernel_db" where
  "add_managed_file_target u p cn db =
     db\<lparr>managed_file_targets := upsert_command u p (fst cn) (snd cn) (managed_file_targets db)\<rparr>"

definition remove_managed_file_target :: "string \<Rightarrow> string \<Rightarrow> kernel_db \<Rightarrow> kernel_db" where
  "remove_managed_file_target u p db =
     db\<lparr>managed_file_targets := AList.delete (u, p) (managed_file_targets db)\<rparr>"

definition get_managed_service_target :: "string \<Rightarrow> string \<Rightarrow> kernel_db \<Rightarrow> command_target option" where
  "get_managed_service_target u n db = map_of (managed_service_targets db) (u, n)"

definition list_managed_service_targets :: "string \<Rightarrow> kernel_db \<Rightarrow> (string \<times> command_target) list" where
  "list_managed_service_targets u db = rows_of u (managed_service_targets db)"

definition add_managed_service_target :: "string \<Rightarrow> string \<Rightarrow> string \<times> int \<Rightarrow> kernel_db \<Rightarrow> kernel_db" where
  "add_managed_service_target u n cn db =
     db\<lparr>managed_service_targets := upsert_command u n (fst cn) (snd cn) (managed_service_targets db)\<rparr>"

definition remove_managed_service_target :: "string \<Rightarrow> string \<Rightarrow> kernel_db \<Rightarrow> kernel_db" where
  "remove_managed_service_target u n db =
     db\<lparr>managed_service_targets := AList.delete (u, n) (managed_service_targets db)\<rparr>"

definition get_managed_pam_target :: "string \<Rightarrow> string \<Rightarrow> kernel_db \<Rightarrow> int option" where
  "get_managed_pam_target u f db = map_of (managed_pam_targets db) (u, f)"

definition list_managed_pam_targets :: "string \<Rightarrow> kernel_db \<Rightarrow> (string \<times> int) list" where
  "list_managed_pam_targets u db = rows_of u (managed_pam_targets db)"

definition add_managed_pam_target :: "string \<Rightarrow> string \<Rightarrow> int \<Rightarrow> kernel_db \<Rightarrow> kernel_db" where
  "add_managed_pam_target u f now db =
     db\<lparr>managed_pam_targets := insert_ignore u f now (managed_pam_targets db)\<rparr>"

definition remove_managed_pam_target :: "string \<Rightarrow> string \<Rightarrow> kernel_db \<Rightarrow> kernel_db" where
  "remove_managed_pam_target u f db =
     db\<lparr>managed_pam_targets := AList.delete (u, f) (managed_pam_targets db)\<rparr>"

definition get_managed_unit_target :: "string \<Rightarrow> string \<Rightarrow> kernel_db \<Rightarrow> int option" where
  "get_managed_unit_target u n db = map_of (managed_unit_targets db) (u, n)"

definition list_managed_unit_targets :: "string \<Rightarrow> kernel_db \<Rightarrow> (string \<times> int) list" where
  "list_managed_unit_targets u db = rows_of u (managed_unit_targets db)"

definition add_managed_unit_target :: "string \<Rightarrow> string \<Rightarrow> int \<Rightarrow> kernel_db \<Rightarrow> kernel_db" where
  "add_managed_unit_target u n now db =
     db\<lparr>managed_unit_targets := insert_ignore u n now (managed_unit_targets db)\<rparr>"

definition remove_managed_unit_target :: "string \<Rightarrow> string \<Rightarrow> kernel_db \<Rightarrow> kernel_db" where
  "remove_managed_unit_target u n db =
     db\<lparr>managed_unit_targets := AList.delete (u, n) (managed_unit_targets db)\<rparr>"

lemmas allowlist_defs =
  get_managed_file_target_def list_managed_file_targets_def add_managed_file_target_def
  remove_managed_file_target_def get_managed_service_target_def list_managed_service_targets_def
  add_managed_service_target_def remove_managed_service_target_def get_managed_pam_target_def
  list_managed_pam_targets_def add_managed_pam_target_def remove_managed_pam_target_def
  get_managed_unit_target_def list_managed_unit_targets_def add_managed_unit_target_def
  remove_managed_unit_target_def

text \<open>The primary keys are unique.\<close>

definition db_keys_ok :: "kernel_db \<Rightarrow> bool" where
  "db_keys_ok db \<longleftrightarrow> distinct (map fst (managed_file_targets db))
     \<and> distinct (map fst (managed_service_targets db))
     \<and> distinct (map fst (managed_pam_targets db)) \<and> distinct (map fst (managed_unit_targets db))"

lemma db_keys_ok_empty [simp]: "db_keys_ok empty_db"
  by (simp add: db_keys_ok_def empty_db_def)

lemma map_of_upsert_command:
  "map_of (upsert_command u k cmd now t) = (map_of t)((u, k) \<mapsto>
     (case map_of t (u, k) of None \<Rightarrow> \<lparr>validator_cmd = cmd, created_at = now\<rparr>
      | Some r \<Rightarrow> r\<lparr>validator_cmd := cmd\<rparr>))"
  by (simp add: upsert_command_def update_conv' split: option.split)

lemma map_of_insert_ignore:
  "map_of (insert_ignore u k now t) = (map_of t)((u, k) \<mapsto>
     (case map_of t (u, k) of None \<Rightarrow> now | Some r \<Rightarrow> r))"
  by (auto simp: insert_ignore_def update_conv' fun_eq_iff split: option.split)

lemma distinct_upsert_command: "distinct (map fst t) \<Longrightarrow> distinct (map fst (upsert_command u k cmd now t))"
  by (simp add: upsert_command_def distinct_update split: option.split)

lemma distinct_insert_ignore: "distinct (map fst t) \<Longrightarrow> distinct (map fst (insert_ignore u k now t))"
  by (simp add: insert_ignore_def distinct_update split: option.split)

lemmas table_laws = map_of_upsert_command map_of_insert_ignore delete_conv'
  distinct_upsert_command distinct_insert_ignore distinct_delete

lemma set_rows_of:
  "distinct (map fst t) \<Longrightarrow> (k, r) \<in> set (rows_of u t) \<longleftrightarrow> map_of t (u, k) = Some r"
  by (force simp: rows_of_def)

subsection \<open>The interface of an allowlist\<close>

datatype ('u, 'k, 'a) allow_op = Allow 'u 'k 'a | Disallow 'u 'k

fun allow_step :: "('u \<Rightarrow> 'k \<Rightarrow> 'a \<Rightarrow> 't \<Rightarrow> 't) \<Rightarrow> ('u \<Rightarrow> 'k \<Rightarrow> 't \<Rightarrow> 't) \<Rightarrow> ('u, 'k, 'a) allow_op \<Rightarrow> 't \<Rightarrow> 't" where
  "allow_step add remove (Allow u k a) t = add u k a t"
| "allow_step add remove (Disallow u k) t = remove u k t"

fun concerns :: "'u \<Rightarrow> 'k \<Rightarrow> ('u, 'k, 'a) allow_op \<Rightarrow> bool" where
  "concerns u k (Allow u' k' a) = (u' = u \<and> k' = k)"
| "concerns u k (Disallow u' k') = (u' = u \<and> k' = k)"

fun allows :: "('u, 'k, 'a) allow_op \<Rightarrow> bool" where
  "allows (Allow u k a) = True"
| "allows (Disallow u k) = False"

locale allowlist =
  fixes get :: "'u \<Rightarrow> 'k \<Rightarrow> 't \<Rightarrow> 'r option"
    and listing :: "'u \<Rightarrow> 't \<Rightarrow> ('k \<times> 'r) list"
    and add :: "'u \<Rightarrow> 'k \<Rightarrow> 'a \<Rightarrow> 't \<Rightarrow> 't"
    and remove :: "'u \<Rightarrow> 'k \<Rightarrow> 't \<Rightarrow> 't"
    and invar :: "'t \<Rightarrow> bool"
  assumes get_add_same: "get u k (add u k a t) \<noteq> None"
    and get_add_other: "(u', k') \<noteq> (u, k) \<Longrightarrow> get u' k' (add u k a t) = get u' k' t"
    and get_remove_same: "get u k (remove u k t) = None"
    and get_remove_other: "(u', k') \<noteq> (u, k) \<Longrightarrow> get u' k' (remove u k t) = get u' k' t"
    and listing: "invar t \<Longrightarrow> (k, r) \<in> set (listing u t) \<longleftrightarrow> get u k t = Some r"
    and invar_add: "invar t \<Longrightarrow> invar (add u k a t)"
    and invar_remove: "invar t \<Longrightarrow> invar (remove u k t)"
begin

lemma invar_step: "invar t \<Longrightarrow> invar (allow_step add remove x t)"
  by (cases x) (simp_all add: invar_add invar_remove)

lemma invar_history: "invar t \<Longrightarrow> invar (fold (allow_step add remove) xs t)"
  by (induction xs arbitrary: t) (simp_all add: invar_step)

text \<open>A key is allowed after a history iff the last operation that concerns it allowed it.\<close>

lemma get_history:
  "get u k (fold (allow_step add remove) xs t) \<noteq> None \<longleftrightarrow>
     (case rev (filter (concerns u k) xs) of [] \<Rightarrow> get u k t \<noteq> None | x # _ \<Rightarrow> allows x)"
proof (induction xs rule: rev_induct)
  case Nil
  then show ?case by simp
next
  case (snoc x xs)
  show ?case
  proof (cases x)
    case (Allow u' k' a)
    then show ?thesis using snoc.IH get_add_same get_add_other
      by (cases "u' = u \<and> k' = k") (auto simp: Allow)
  next
    case (Disallow u' k')
    then show ?thesis using snoc.IH get_remove_same get_remove_other
      by (cases "u' = u \<and> k' = k") (auto simp: Disallow)
  qed
qed

lemma listing_history:
  "invar t \<Longrightarrow> (\<exists>r. (k, r) \<in> set (listing u (fold (allow_step add remove) xs t))) \<longleftrightarrow>
     (case rev (filter (concerns u k) xs) of [] \<Rightarrow> get u k t \<noteq> None | x # _ \<Rightarrow> allows x)"
  using get_history [of u k xs t] by (simp add: listing invar_history)

end

interpretation file_targets: allowlist get_managed_file_target list_managed_file_targets
  add_managed_file_target remove_managed_file_target db_keys_ok
  by unfold_locales (auto simp: allowlist_defs db_keys_ok_def table_laws set_rows_of)

interpretation service_targets: allowlist get_managed_service_target list_managed_service_targets
  add_managed_service_target remove_managed_service_target db_keys_ok
  by unfold_locales (auto simp: allowlist_defs db_keys_ok_def table_laws set_rows_of)

interpretation pam_targets: allowlist get_managed_pam_target list_managed_pam_targets
  add_managed_pam_target remove_managed_pam_target db_keys_ok
  by unfold_locales (auto simp: allowlist_defs db_keys_ok_def table_laws set_rows_of)

interpretation unit_targets: allowlist get_managed_unit_target list_managed_unit_targets
  add_managed_unit_target remove_managed_unit_target db_keys_ok
  by unfold_locales (auto simp: allowlist_defs db_keys_ok_def table_laws set_rows_of)

subsection \<open>Outcome ledgers\<close>

text \<open>\<open>ORDER BY rowid DESC LIMIT n\<close>: newest first; a negative limit is no limit in SQLite.\<close>

definition newest_first :: "int \<Rightarrow> 'r list \<Rightarrow> 'r list" where
  "newest_first limit rows = (if limit < 0 then rev rows else take (nat limit) (rev rows))"

definition record_self_reload_outcome ::
    "string \<Rightarrow> string \<Rightarrow> string \<Rightarrow> bool \<Rightarrow> (kernel_db, unit) act" where
  "record_self_reload_outcome old_sha new_sha outcome autonomous = (\<lambda>db.
     if outcome \<in> {''committed'', ''resurrected'', ''liveness_failed''}
     then (Inr (), db\<lparr>self_reload_ledger := self_reload_ledger db @
        [\<lparr>sr_old_sha = old_sha, sr_new_sha = new_sha, sr_outcome = outcome, sr_autonomous = autonomous\<rparr>]\<rparr>)
     else (Inl SqlIntegrityError, db))"

definition list_self_reload_history :: "int \<Rightarrow> kernel_db \<Rightarrow> self_reload_row list" where
  "list_self_reload_history limit db = newest_first limit (self_reload_ledger db)"

definition record_owned_op_outcome ::
    "string \<Rightarrow> string \<Rightarrow> string \<Rightarrow> bool \<Rightarrow> string option \<Rightarrow> (kernel_db, unit) act" where
  "record_owned_op_outcome op_type target_summary outcome autonomous trash_ref = (\<lambda>db.
     if outcome \<in> {''applied'', ''proposed'', ''refused'', ''failed''}
     then (Inr (), db\<lparr>owned_ledger := owned_ledger db @
        [\<lparr>or_op_type = op_type, or_target_summary = target_summary, or_outcome = outcome,
          or_autonomous = autonomous, or_trash_ref = trash_ref\<rparr>]\<rparr>)
     else (Inl SqlIntegrityError, db))"

definition list_owned_resource_history :: "int \<Rightarrow> kernel_db \<Rightarrow> owned_row list" where
  "list_owned_resource_history limit db = newest_first limit (owned_ledger db)"

definition record_venv_op_outcome ::
    "string \<Rightarrow> string \<Rightarrow> string \<Rightarrow> string \<Rightarrow> bool \<Rightarrow> string option \<Rightarrow> (kernel_db, unit) act" where
  "record_venv_op_outcome op_type hash_before hash_after outcome autonomous deadman_unit = (\<lambda>db.
     if outcome \<in> {''applied'', ''proposed'', ''liveness_failed'', ''preflight_failed''}
     then (Inr (), db\<lparr>venv_ledger := venv_ledger db @
        [\<lparr>vr_op_type = op_type, vr_hash_before = hash_before, vr_hash_after = hash_after,
          vr_outcome = outcome, vr_autonomous = autonomous, vr_deadman_unit = deadman_unit\<rparr>]\<rparr>)
     else (Inl SqlIntegrityError, db))"

definition list_venv_op_history :: "int \<Rightarrow> kernel_db \<Rightarrow> venv_row list" where
  "list_venv_op_history limit db = newest_first limit (venv_ledger db)"

lemma newest_first_snoc: "0 < n \<Longrightarrow> newest_first n (rows @ [r]) = r # newest_first (n - 1) rows"
proof -
  assume "0 < n"
  then obtain m where n: "n = int (Suc m)" by (metis Suc_pred' zero_less_imp_eq_int)
  have "nat n = Suc m" and "nat (n - 1) = m" using n by simp_all
  with n show ?thesis by (simp add: newest_first_def)
qed

subsection \<open>Workspaces of active intents\<close>

definition active_statuses :: "string set" where
  "active_statuses = {''executing'', ''pending'', ''routing''}"

definition get_active_workspace_dirs :: "kernel_db \<Rightarrow> string list" where
  "get_active_workspace_dirs db = remdups (concat (map (\<lambda>p.
     case workdir p of None \<Rightarrow> []
     | Some d \<Rightarrow> (if d \<noteq> [] \<and> (\<exists>i \<in> set (intents db). intent_project i = project_id p
           \<and> intent_status i \<in> active_statuses) then [d] else [])) (projects db)))"

lemma active_workspace_dirs_iff:
  "d \<in> set (get_active_workspace_dirs db) \<longleftrightarrow> d \<noteq> [] \<and>
     (\<exists>p \<in> set (projects db). workdir p = Some d \<and>
       (\<exists>i \<in> set (intents db). intent_project i = project_id p \<and> intent_status i \<in> active_statuses))"
proof -
  have part: "d \<in> set (case workdir p of None \<Rightarrow> []
     | Some d \<Rightarrow> (if d \<noteq> [] \<and> (\<exists>i \<in> set (intents db). intent_project i = project_id p
           \<and> intent_status i \<in> active_statuses) then [d] else [])) \<longleftrightarrow>
     d \<noteq> [] \<and> workdir p = Some d \<and>
       (\<exists>i \<in> set (intents db). intent_project i = project_id p \<and> intent_status i \<in> active_statuses)" for p
    by (cases "workdir p") auto
  show ?thesis
    unfolding get_active_workspace_dirs_def set_remdups set_concat set_map image_image UN_iff part
    by blast
qed

subsection \<open>Properties\<close>

text \<open>The owner's word is final on every allowlist: after any history of registrations and removals
  by all users, a file (or unit) target is on a user's list, as the lookup and as the listing see it,
  exactly when the last call that named this user and target was a registration.\<close>

theorem allowlist_follows_owner:
  fixes xs :: "(string, string, string \<times> int) allow_op list"
    and ys :: "(string, string, int) allow_op list"
  shows "(get_managed_file_target u k (fold (allow_step add_managed_file_target remove_managed_file_target) xs empty_db) \<noteq> None \<longleftrightarrow>
      (case rev (filter (concerns u k) xs) of [] \<Rightarrow> False | x # _ \<Rightarrow> allows x))
    \<and> ((\<exists>r. (k, r) \<in> set (list_managed_unit_targets u (fold (allow_step add_managed_unit_target remove_managed_unit_target) ys empty_db))) \<longleftrightarrow>
      (case rev (filter (concerns u k) ys) of [] \<Rightarrow> False | y # _ \<Rightarrow> allows y))"
proof -
  have "get_managed_file_target u k empty_db = None" and "get_managed_unit_target u k empty_db = None"
    by (simp_all add: get_managed_file_target_def get_managed_unit_target_def empty_db_def)
  with file_targets.get_history [of u k xs empty_db]
    unit_targets.listing_history [OF db_keys_ok_empty, of k u ys]
  show ?thesis by (simp split: list.split)
qed

text \<open>A ledger takes an outcome exactly when the outcome is one the table's CHECK constraint names,
  and then the row is the first the history lists; otherwise nothing is written and the insert fails.\<close>

theorem venv_ledger_check:
  assumes "0 < n"
  shows "case record_venv_op_outcome ot hb ha outcome auto du db of
      (Inr _, db') \<Rightarrow> outcome \<in> {''applied'', ''proposed'', ''liveness_failed'', ''preflight_failed''}
        \<and> list_venv_op_history n db' = \<lparr>vr_op_type = ot, vr_hash_before = hb, vr_hash_after = ha,
            vr_outcome = outcome, vr_autonomous = auto, vr_deadman_unit = du\<rparr> # list_venv_op_history (n - 1) db
    | (Inl e, db') \<Rightarrow> outcome \<notin> {''applied'', ''proposed'', ''liveness_failed'', ''preflight_failed''}
        \<and> e = SqlIntegrityError \<and> db' = db"
  using assms
  by (simp add: record_venv_op_outcome_def list_venv_op_history_def newest_first_snoc)

theorem venv_ledger_check_witness:
  "case record_venv_op_outcome ''install'' ''a'' ''b'' ''committed'' False None empty_db of
     (Inr _, db') \<Rightarrow> False | (Inl e, db') \<Rightarrow> e = SqlIntegrityError \<and> db' = empty_db"
  using venv_ledger_check [where n = 1 and ot = "''install''" and ha = "''b''" and hb = "''a''"
      and outcome = "''committed''" and auto = False and du = None and db = empty_db]
  by (simp split: prod.splits sum.splits)

text \<open>The workspaces that garbage collection must leave alone are exactly the non-empty workspace
  directories of projects with an intent that is executing, pending or routing.\<close>

theorem active_workspaces_exact:
  "d \<in> set (get_active_workspace_dirs db) \<longleftrightarrow> d \<noteq> [] \<and>
     (\<exists>p \<in> set (projects db). workdir p = Some d \<and>
       (\<exists>i \<in> set (intents db). intent_project i = project_id p
          \<and> intent_status i \<in> {''executing'', ''pending'', ''routing''}))"
  by (simp add: active_workspace_dirs_iff active_statuses_def)

end
