(* ===== verification/Reversible_Operation.thy ===== *)
theory Reversible_Operation
  imports Kernel_DB
begin

text \<open>
  The contract of \<open>anima/kernel/operator.py\<close>: the \<open>ReversibleOperation\<close> protocol, its runner
  \<open>run_reversible_operation\<close> and the validator oracle \<open>run_validator\<close>. The protocol's laws are
  the locale \<open>reversible_contract\<close>, which every operation of the development interprets; the
  runner's guarantees are proved once inside it.
\<close>

subsection \<open>The validator\<close>

record ValidatorResult =
  passed :: bool
  validator_output :: string

text \<open>\<open>subprocess.run(cmd, shell=True)\<close> is the shell on \<open>sh -c cmd\<close>. A timeout is caught;
  every other exception propagates.\<close>

definition run_validator :: "'w shell \<Rightarrow> string \<Rightarrow> ('w, ValidatorResult) act" where
  "run_validator sh cmd = (\<lambda>w.
     case sh [''/bin/sh'', ''-c'', cmd] w of
       (Inl e, w') \<Rightarrow> (if e = TimeoutExpired
          then Inr \<lparr>passed = False, validator_output = ''validator timed out''\<rparr> else Inl e, w')
     | (Inr result, w') \<Rightarrow>
         (Inr (if returncode result = 0 then \<lparr>passed = True, validator_output = []\<rparr>
               else \<lparr>passed = False, validator_output = stdout result @ stderr result\<rparr>), w'))"

lemma run_validator_passed:
  "run_validator sh cmd w = (Inr v, w') \<Longrightarrow> passed v \<longleftrightarrow>
     (\<exists>p. sh [''/bin/sh'', ''-c'', cmd] w = (Inr p, w') \<and> returncode p = 0)"
  by (auto simp: run_validator_def split: prod.splits sum.splits if_splits)

subsection \<open>Operations and their runner\<close>

text \<open>
  An operation over a world \<open>'w\<close> with snapshots \<open>'snap\<close>. \<open>capture\<close> and \<open>restore\<close> are optional:
  the runner tests for them with \<open>hasattr\<close>.
\<close>

record ('w, 'snap) reversible_operation =
  op_capture :: "('w, 'snap) act option"
  op_apply :: "('w, unit) act"
  op_verify :: "('w, bool) act"
  op_restore :: "('snap \<Rightarrow> ('w, unit) act) option"

record OperationResult =
  applied :: bool
  verified :: bool
  restored :: bool
  detail :: string

definition kept_result :: OperationResult where
  "kept_result = \<lparr>applied = True, verified = True, restored = False, detail = ''applied and verified''\<rparr>"

definition restored_result :: OperationResult where
  "restored_result = \<lparr>applied = True, verified = False, restored = True,
     detail = ''verify failed'' @ '' -- '' @ ''restored to pre-apply state''\<rparr>"

definition run_reversible_operation ::
    "('w, 'snap) reversible_operation \<Rightarrow> ('w, OperationResult) act" where
  "run_reversible_operation operation =
     (case (op_capture operation, op_restore operation) of
        (Some capture, Some restore) \<Rightarrow>
          act_bind capture (\<lambda>snapshot.
          act_then (op_apply operation)
          (act_bind (act_catch (op_verify operation) (\<lambda>_. act_return False)) (\<lambda>verified.
             if verified then act_return kept_result
             else act_then (restore snapshot) (act_return restored_result))))
      | _ \<Rightarrow> act_raise OperatorError)"

lemma result_simps [simp]:
  "applied kept_result" "verified kept_result" "\<not> restored kept_result"
  "applied restored_result" "\<not> verified restored_result" "restored restored_result"
  "kept_result \<noteq> restored_result" "restored_result \<noteq> kept_result"
  by (simp_all add: kept_result_def restored_result_def)

subsection \<open>The laws of the protocol\<close>

text \<open>
  \<open>observe w\<close> is the part of the world the operation manages, \<open>content s\<close> what a snapshot says it
  was. \<open>willing w\<close> says that no call \<open>restore\<close> makes from \<open>w\<close> raises, \<open>faithful w\<close> that the host does
  what these calls tell it (a service manager that starts what it is told to start).
\<close>

locale reversible_contract =
  fixes oper :: "('w, 'snap) reversible_operation"
    and capture :: "('w, 'snap) act"
    and restore :: "'snap \<Rightarrow> ('w, unit) act"
    and observe :: "'w \<Rightarrow> 'o"
    and content :: "'snap \<Rightarrow> 'o"
    and willing :: "'w \<Rightarrow> bool"
    and faithful :: "'w \<Rightarrow> bool"
  assumes is_capture: "op_capture oper = Some capture"
    and is_restore: "op_restore oper = Some restore"
    and capture_frame: "capture w = (r, w') \<Longrightarrow> observe w' = observe w"
    and capture_content: "capture w = (Inr s, w') \<Longrightarrow> content s = observe w"
    and restore_total: "capture w0 = (Inr s, w1) \<Longrightarrow> willing w \<Longrightarrow> \<exists>w'. restore s w = (Inr (), w')"
    and restore_content: "capture w0 = (Inr s, w1) \<Longrightarrow> faithful w \<Longrightarrow> restore s w = (Inr u, w') \<Longrightarrow>
      observe w' = content s"
begin

lemma run_unfold:
  "run_reversible_operation oper = act_bind capture (\<lambda>snapshot. act_then (op_apply oper)
     (act_bind (act_catch (op_verify oper) (\<lambda>_. act_return False)) (\<lambda>verified.
        if verified then act_return kept_result
        else act_then (restore snapshot) (act_return restored_result))))"
  by (simp add: run_reversible_operation_def is_capture is_restore)

text \<open>The runner keeps a change only if the verifier returned \<open>True\<close>, in the state it left.\<close>

lemma kept_only_if_verified:
  assumes "run_reversible_operation oper w = (Inr res, w')" and "verified res"
  shows "\<exists>w2. op_verify oper w2 = (Inr True, w')"
  using assms unfolding run_unfold
  by (auto simp: act_simps split: prod.splits sum.splits if_splits)

lemma outcome_exhaustive:
  "run_reversible_operation oper w = (Inr res, w') \<Longrightarrow> res = kept_result \<or> res = restored_result"
  unfolding run_unfold by (auto simp: act_simps split: prod.splits sum.splits if_splits)

text \<open>
  When the verdict is negative (or the verifier raised), the runner returns and the managed part
  of the world is what it was, provided the host obeys \<open>restore\<close> from the state the verifier left.
\<close>

lemma rejected_is_undone:
  assumes cap: "capture w = (Inr s, w1)"
    and app: "op_apply oper w1 = (Inr (), w2)"
    and ver: "op_verify oper w2 = (v, w3)" "v \<noteq> Inr True"
    and good: "willing w3" "faithful w3"
  shows "\<exists>w4. run_reversible_operation oper w = (Inr restored_result, w4) \<and> observe w4 = observe w"
proof -
  have v: "act_catch (op_verify oper) (\<lambda>_. act_return False) w2 = (Inr False, w3)"
    using ver by (cases v) (auto simp: act_catch_apply)
  obtain w4 where w4: "restore s w3 = (Inr (), w4)"
    using restore_total [OF cap good(1)] by blast
  have "observe w4 = observe w"
    using restore_content [OF cap good(2) w4] capture_content [OF cap] by simp
  with cap app v w4 show ?thesis
    by (simp add: run_unfold act_simps)
qed

text \<open>A result that says \<open>restored\<close> is true to the managed state, whatever happened between.\<close>

lemma restored_means_undone:
  assumes run: "run_reversible_operation oper w = (Inr res, w')" and "\<not> verified res"
    and obeys: "\<And>w3. faithful w3"
  shows "observe w' = observe w"
proof -
  from run assms(2) obtain s w1 w3 where cap: "capture w = (Inr s, w1)"
    and res: "restore s w3 = (Inr (), w')"
    unfolding run_unfold
    by (auto simp: act_simps split: prod.splits sum.splits if_splits)
  from restore_content [OF cap obeys res] capture_content [OF cap] show ?thesis by simp
qed

end

text \<open>The irreversible floor: an operation without \<open>capture\<close> or \<open>restore\<close> is never run.\<close>

lemma irreversible_refused:
  "op_capture oper = None \<or> op_restore oper = None \<Longrightarrow>
     run_reversible_operation oper w = (Inl OperatorError, w)"
  by (auto simp: run_reversible_operation_def split: option.splits)

subsection \<open>Gates over a database and a world\<close>

text \<open>
  The entry points of the operators run in a state of the database and the world. \<open>on_world\<close>
  and \<open>on_db\<close> run code of one part in the pair.
\<close>

record 'w kernel_state =
  db :: kernel_db
  world :: 'w

definition on_world :: "('w, 'a) act \<Rightarrow> ('w kernel_state, 'a) act" where
  "on_world m = (\<lambda>st. case m (world st) of (r, w') \<Rightarrow> (r, st\<lparr>world := w'\<rparr>))"

definition on_db :: "(kernel_db, 'a) act \<Rightarrow> ('w kernel_state, 'a) act" where
  "on_db m = (\<lambda>st. case m (db st) of (r, d') \<Rightarrow> (r, st\<lparr>db := d'\<rparr>))"

definition db_update_operator_track_record ::
    "track_key \<Rightarrow> bool \<Rightarrow> int \<Rightarrow> (kernel_db, TrackRecordState) act" where
  "db_update_operator_track_record k ok now = (\<lambda>d.
     case update_operator_track_record k (ok, now) (operator_tracks d) of
       (s, t) \<Rightarrow> (Inr s, d\<lparr>operator_tracks := t\<rparr>))"

definition db_get_operator_track_record :: "track_key \<Rightarrow> kernel_db \<Rightarrow> TrackRecordState" where
  "db_get_operator_track_record k d = get_operator_track_record k (operator_tracks d)"

lemma on_world_apply [act_simps]:
  "on_world m st = (case m (world st) of (r, w') \<Rightarrow> (r, st\<lparr>world := w'\<rparr>))"
  by (simp add: on_world_def)

lemma on_db_apply [act_simps]:
  "on_db m st = (case m (db st) of (r, d') \<Rightarrow> (r, st\<lparr>db := d'\<rparr>))"
  by (simp add: on_db_def)

text \<open>The common tail of every gate: run the operation, then record its verdict.\<close>

definition run_and_record ::
    "('w, 'snap) reversible_operation \<Rightarrow> track_key \<Rightarrow> int \<Rightarrow> ('w kernel_state, OperationResult) act" where
  "run_and_record operation k now =
     act_bind (on_world (run_reversible_operation operation)) (\<lambda>result.
     act_then (on_db (db_update_operator_track_record k (verified result) now))
     (act_return result))"

lemma run_and_record_Inr:
  assumes "run_reversible_operation oper (world st) = (Inr res, w')"
  shows "run_and_record oper k now st = (Inr res, st\<lparr>world := w', db := (db st)\<lparr>operator_tracks :=
    snd (update_operator_track_record k (verified res, now) (operator_tracks (db st)))\<rparr>\<rparr>)"
  using assms
  by (simp add: run_and_record_def act_simps db_update_operator_track_record_def split: prod.split)

lemma run_and_record_Inl:
  assumes "run_reversible_operation oper (world st) = (Inl e, w')"
  shows "run_and_record oper k now st = (Inl e, st\<lparr>world := w'\<rparr>)"
  using assms by (simp add: run_and_record_def act_simps)

text \<open>A graduated class is a fact about the database alone.\<close>

lemma run_and_record_tracks:
  "run_and_record oper k now st = (r, st') \<Longrightarrow>
     operator_tracks (db st') = operator_tracks (db st) \<or>
     (\<exists>v. operator_tracks (db st') =
        snd (update_operator_track_record k (v, now) (operator_tracks (db st))))"
  by (cases "run_reversible_operation oper (world st)"; cases "fst (run_reversible_operation oper (world st))")
     (auto simp: run_and_record_Inr run_and_record_Inl)

subsection \<open>Properties\<close>

text \<open>The irreversible floor: the runner refuses an operation that cannot be captured or restored,
  before any effect.\<close>

theorem irreversible_floor:
  assumes "op_capture oper = None \<or> op_restore oper = None"
  shows "run_reversible_operation oper w = (Inl OperatorError, w)"
  by (rule irreversible_refused [OF assms])

theorem irreversible_floor_witness:
  "run_reversible_operation \<lparr>op_capture = None, op_apply = act_modify Suc,
     op_verify = act_return True, op_restore = Some (\<lambda>(). act_return ())\<rparr> 0 = (Inl OperatorError, 0)"
  by (rule irreversible_floor) simp

end
