(* ===== verification/Anima_Config.thy ===== *)
theory Anima_Config
  imports Main
begin

text \<open>
  The settings of \<open>anima/config.py\<close> that the modelled components read, with their defaults. The
  sources read one global \<open>settings\<close> object; here it is an argument of what reads it.
\<close>

record Settings =
  rawos_source_root :: string
  self_reload_state_dir :: string
  workspaces_root :: string
  worktree_root :: string
  rate_limit_auth_rpm :: int
  rate_limit_intent_rpm :: int
  rate_limit_api_rpm :: int
  operator_enabled :: bool
  operator_service_enabled :: bool
  operator_pam_enabled :: bool
  self_reload_enabled :: bool
  self_reload_autonomous_enabled :: bool
  operator_owned_enabled :: bool
  owned_workspace_min_age_days :: int
  owned_trash_retention_days :: int
  operator_venv_enabled :: bool
  venv_deadman_delay_s :: int
  venv_staging_root :: string
  operator_unit_topology_enabled :: bool
  autonomy_auto_apply_enabled :: bool
  operator_scan_enabled :: bool
  telegram_owner_email :: string

definition default_settings :: Settings where
  "default_settings = \<lparr>rawos_source_root = ''/root/rawos'',
     self_reload_state_dir = ''/root/.anima-selfreload'', workspaces_root = ''/root/rawos/workspaces'',
     worktree_root = ''/root/.anima-worktrees'',
     rate_limit_auth_rpm = 5, rate_limit_intent_rpm = 10, rate_limit_api_rpm = 120,
     operator_enabled = False, operator_service_enabled = False, operator_pam_enabled = False,
     self_reload_enabled = False, self_reload_autonomous_enabled = False,
     operator_owned_enabled = True, owned_workspace_min_age_days = 7, owned_trash_retention_days = 30,
     operator_venv_enabled = False, venv_deadman_delay_s = 300, venv_staging_root = ''/root/rawos'',
     operator_unit_topology_enabled = True, autonomy_auto_apply_enabled = False,
     operator_scan_enabled = False, telegram_owner_email = []\<rparr>"

end
