(* ===== verification/Unit_Floor.thy ===== *)
theory Unit_Floor
  imports Anima_Prelude
begin

text \<open>
  The floor of unit topology authorship (\<open>anima/kernel/unit_topology.py\<close>): the seed of units that
  must never be touched, the closure computed from the output of \<open>systemctl list-dependencies\<close>, and
  the test \<open>is_floor_protected\<close>. That output holds tree-drawing characters outside 8 bits, so it
  is a list of code points here; unit names are ASCII (systemd allows nothing else), and a parsed name
  with another character is dropped. Which code points from 128 on count as word characters
  (\<open>\w\<close> of \<open>re\<close>) is the parameter \<open>uword\<close>.
\<close>

subsection \<open>The seed\<close>

definition FLOOR_UNIT_SEED :: "string set" where
  "FLOOR_UNIT_SEED = {
     ''sshd.service'', ''sshd'', ''ssh.service'', ''ssh'', ''systemd'', ''init'',
     ''systemd-networkd.service'', ''systemd-networkd'', ''NetworkManager.service'',
     ''NetworkManager'', ''network.target'', ''network'', ''network-online.target'',
     ''network-online'', ''anima.service'', ''anima'', ''rawos-bpf-lsm-holder.service'',
     ''rawos-bpf-lsm-holder'', ''rawos-bpf-lsm-revert.service'', ''rawos-bpf-lsm-revert'',
     ''anima-pam-revert.service'', ''anima-pam-revert'', ''anima-unit-topology-revert.service'',
     ''anima-unit-topology-revert'', ''rawos-venv-revert.service'', ''rawos-venv-revert'',
     ''systemd-logind.service'', ''systemd-logind'', ''getty@.service'', ''getty@tty1.service'',
     ''getty@'', ''anima-frontdoor.service'', ''anima-frontdoor'', ''basic.target'',
     ''sysinit.target'', ''multi-user.target'', ''default.target'', ''graphical.target'',
     ''dbus.service'', ''dbus'', ''systemd-journald.service'', ''systemd-journald''}"

definition ALLOWED_DEFAULT_TARGETS :: "string set" where
  "ALLOWED_DEFAULT_TARGETS = {''multi-user.target'', ''graphical.target''}"

subsection \<open>Parsing the dependency tree\<close>

definition u_space :: "int \<Rightarrow> bool" where
  "u_space n \<longleftrightarrow> 9 \<le> n \<and> n \<le> 13 \<or> 28 \<le> n \<and> n \<le> 32
     \<or> n \<in> {133, 160, 5760, 8232, 8233, 8239, 8287, 12288} \<or> 8192 \<le> n \<and> n \<le> 8202"

definition u_linesep :: "int \<Rightarrow> bool" where
  "u_linesep n \<longleftrightarrow> 10 \<le> n \<and> n \<le> 13 \<or> 28 \<le> n \<and> n \<le> 30 \<or> n \<in> {133, 8232, 8233}"

text \<open>Bullet, branch, line, corner, bar and dot.\<close>

definition tree_char :: "int \<Rightarrow> bool" where
  "tree_char n \<longleftrightarrow> u_space n \<or> n \<in> {9679, 9500, 9472, 9492, 9474, 8226}"

fun u_splitlines :: "int list \<Rightarrow> int list \<Rightarrow> int list list" where
  "u_splitlines [] cur = (if cur = [] then [] else [rev cur])"
| "u_splitlines (c # cs) cur =
     (if u_linesep c then rev cur # u_splitlines (if c = 13 \<and> cs \<noteq> [] \<and> hd cs = 10 then tl cs else cs) []
      else u_splitlines cs (c # cur))"

definition strip_tree_prefix :: "int list \<Rightarrow> int list" where
  "strip_tree_prefix line =
     rev (dropWhile u_space (rev (dropWhile u_space (dropWhile tree_char line))))"

definition u_lower :: "int \<Rightarrow> bool" where
  "u_lower n \<longleftrightarrow> 97 \<le> n \<and> n \<le> 122"

text \<open>The character class \<open>[\w@:\\/._-]\<close>.\<close>

definition name_char :: "(int \<Rightarrow> bool) \<Rightarrow> int \<Rightarrow> bool" where
  "name_char uword n \<longleftrightarrow> 48 \<le> n \<and> n \<le> 57 \<or> 65 \<le> n \<and> n \<le> 90 \<or> u_lower n
     \<or> n \<in> {95, 64, 58, 92, 47, 46, 45} \<or> 128 \<le> n \<and> uword n"

text \<open>\<open>^([\w@:\\/._-]+\.[a-z]+)\<close>: the greedy first part backtracks to the last dot that has a
  character before it and a lower-case letter after it.\<close>

definition unit_match :: "(int \<Rightarrow> bool) \<Rightarrow> int list \<Rightarrow> int list option" where
  "unit_match uword s = (let p = takeWhile (name_char uword) s;
     dots = filter (\<lambda>i. p ! i = 46 \<and> i + 1 < length p \<and> u_lower (p ! (i + 1))) [1..<length p]
   in if dots = [] then None
      else Some (take (last dots + 1) p @ takeWhile u_lower (drop (last dots + 1) p)))"

definition ascii_name :: "int list \<Rightarrow> string option" where
  "ascii_name s = (if list_all (\<lambda>n. n < 128) s then Some (map char_of s) else None)"

definition line_unit :: "(int \<Rightarrow> bool) \<Rightarrow> int list \<Rightarrow> string option" where
  "line_unit uword line = Option.bind (unit_match uword (strip_tree_prefix line)) ascii_name"

subsection \<open>The closure\<close>

definition bare_name :: "string \<Rightarrow> string option" where
  "bare_name u = (let dot_pos = rfind_char (CHR ''.'') u
     in if dot_pos > 0 then Some (take (nat dot_pos) u) else None)"

definition with_bare_names :: "string set \<Rightarrow> string set" where
  "with_bare_names us = us \<union> {b. \<exists>u \<in> us. bare_name u = Some b}"

fun add_lines :: "(int \<Rightarrow> bool) \<Rightarrow> int list list \<Rightarrow> string set \<Rightarrow> string set" where
  "add_lines uword [] acc = acc"
| "add_lines uword (line # lines) acc = add_lines uword lines (case line_unit uword line of
       None \<Rightarrow> acc
     | Some u \<Rightarrow> (case bare_name u of None \<Rightarrow> insert u acc | Some b \<Rightarrow> insert b (insert u acc)))"

definition compute_floor_closure :: "(int \<Rightarrow> bool) \<Rightarrow> int list \<Rightarrow> string set" where
  "compute_floor_closure uword list_deps_output =
     with_bare_names (add_lines uword (u_splitlines list_deps_output []) FLOOR_UNIT_SEED)"

definition is_floor_protected :: "string \<Rightarrow> string set \<Rightarrow> bool" where
  "is_floor_protected unit_name floor \<longleftrightarrow> unit_name \<in> floor
     \<or> (case bare_name unit_name of None \<Rightarrow> False | Some b \<Rightarrow> b \<in> floor)
     \<or> (CHR ''.'' \<notin> set unit_name \<and> unit_name @ ''.service'' \<in> floor)"

lemma with_bare_names_code [code]:
  "with_bare_names us = us \<union> (\<Union>u \<in> us. case bare_name u of None \<Rightarrow> {} | Some b \<Rightarrow> {b})"
  by (auto simp: with_bare_names_def split: option.splits)

lemma add_lines_mono: "acc \<subseteq> add_lines uword lines acc"
proof (induction lines arbitrary: acc)
  case Nil
  then show ?case by simp
next
  case (Cons l ls)
  let ?acc = "case line_unit uword l of None \<Rightarrow> acc
     | Some u \<Rightarrow> (case bare_name u of None \<Rightarrow> insert u acc | Some b \<Rightarrow> insert b (insert u acc))"
  have "acc \<subseteq> ?acc" by (auto split: option.split)
  also have "?acc \<subseteq> add_lines uword ls ?acc" by (rule Cons.IH)
  finally show ?case by simp
qed

lemma add_lines_unit: "line \<in> set lines \<Longrightarrow> line_unit uword line = Some u \<Longrightarrow> u \<in> add_lines uword lines acc"
proof (induction lines arbitrary: acc)
  case Nil
  then show ?case by simp
next
  case (Cons l ls)
  show ?case
  proof (cases "line = l")
    case True
    have "u \<in> add_lines uword ls (case bare_name u of None \<Rightarrow> insert u acc | Some b \<Rightarrow> insert b (insert u acc))"
      by (rule subsetD [OF add_lines_mono]) (auto split: option.split)
    with True Cons.prems show ?thesis by simp
  next
    case False
    with Cons show ?thesis by simp
  qed
qed

lemma add_lines_source:
  "u \<in> add_lines uword lines acc \<Longrightarrow> u \<in> acc \<or>
     (\<exists>line \<in> set lines. \<exists>v. line_unit uword line = Some v \<and> (u = v \<or> bare_name v = Some u))"
  by (induction lines arbitrary: acc) (fastforce split: option.splits)+

subsection \<open>Properties\<close>

text \<open>The floor closure protects what it must and nothing it has no reason to protect: it holds
  the seed, every unit named on a line of the dependency listing, and the bare name of each of these;
  and every member is one of them (or a bare name's bare name). Hence each listed unit and its bare
  name are floor-protected.\<close>

theorem floor_closure_exact:
  fixes deps :: "int list" and uword :: "int \<Rightarrow> bool"
  defines "listed \<equiv> {u. \<exists>line \<in> set (u_splitlines deps []). line_unit uword line = Some u}"
  shows "compute_floor_closure uword deps =
      (let base = FLOOR_UNIT_SEED \<union> listed; once = base \<union> {b. \<exists>u \<in> listed. bare_name u = Some b}
       in once \<union> {b. \<exists>u \<in> once. bare_name u = Some b})
    \<and> (\<forall>u \<in> FLOOR_UNIT_SEED \<union> listed. is_floor_protected u (compute_floor_closure uword deps)
        \<and> (\<forall>b. bare_name u = Some b \<longrightarrow> is_floor_protected b (compute_floor_closure uword deps)))"
proof -
  have once: "add_lines uword (u_splitlines deps []) FLOOR_UNIT_SEED =
      FLOOR_UNIT_SEED \<union> listed \<union> {b. \<exists>u \<in> listed. bare_name u = Some b}"
  proof
    show "add_lines uword (u_splitlines deps []) FLOOR_UNIT_SEED \<subseteq>
        FLOOR_UNIT_SEED \<union> listed \<union> {b. \<exists>u \<in> listed. bare_name u = Some b}"
      using add_lines_source by (fastforce simp: listed_def)
    have "b \<in> add_lines uword lines acc"
      if "line \<in> set lines" "line_unit uword line = Some u" "bare_name u = Some b" for b u line lines acc
      using that
    proof (induction lines arbitrary: acc)
      case Nil
      then show ?case by simp
    next
      case (Cons l ls)
      show ?case
      proof (cases "line = l")
        case True
        have "b \<in> add_lines uword ls (insert b (insert u acc))"
          by (rule subsetD [OF add_lines_mono]) simp
        with True Cons.prems show ?thesis by simp
      qed (use Cons in simp)
    qed
    then show "FLOOR_UNIT_SEED \<union> listed \<union> {b. \<exists>u \<in> listed. bare_name u = Some b}
        \<subseteq> add_lines uword (u_splitlines deps []) FLOOR_UNIT_SEED"
      using add_lines_mono add_lines_unit by (fastforce simp: listed_def)
  qed
  show ?thesis
    unfolding compute_floor_closure_def once with_bare_names_def Let_def is_floor_protected_def
    by blast
qed

theorem floor_closure_exact_witness:
  "is_floor_protected ''ssh.socket'' (compute_floor_closure (\<lambda>_. False)
     (map of_char ''  docker.service'' @ [10, 9679, 32, 9500, 9472] @ map of_char ''postgresql.service''))
   \<and> is_floor_protected ''postgresql'' (compute_floor_closure (\<lambda>_. False)
     (map of_char ''  docker.service'' @ [10, 9679, 32, 9500, 9472] @ map of_char ''postgresql.service''))"
proof -
  let ?deps = "map of_char ''  docker.service'' @ [10, 9679, 32, 9500, 9472] @ map of_char ''postgresql.service'' :: int list"
  have lines: "u_splitlines ?deps [] = [map of_char ''  docker.service'',
      [9679, 32, 9500, 9472] @ map of_char ''postgresql.service'']" by code_simp
  have unit: "line_unit (\<lambda>_. False) ([9679, 32, 9500, 9472] @ map of_char ''postgresql.service'') = Some ''postgresql.service''"
    by code_simp
  have bare: "bare_name ''postgresql.service'' = Some ''postgresql''" "bare_name ''ssh.socket'' = Some ''ssh''"
    by code_simp+
  have seed: "''ssh'' \<in> FLOOR_UNIT_SEED" by (simp add: FLOOR_UNIT_SEED_def)
  have "is_floor_protected ''postgresql'' (compute_floor_closure (\<lambda>_. False) ?deps)"
  proof -
    from floor_closure_exact [of "\<lambda>_. False" ?deps] have
      "\<And>line u b. line \<in> set (u_splitlines ?deps []) \<Longrightarrow> line_unit (\<lambda>_. False) line = Some u \<Longrightarrow>
         bare_name u = Some b \<Longrightarrow> is_floor_protected b (compute_floor_closure (\<lambda>_. False) ?deps)"
      by blast
    from this [OF _ unit bare(1)] show ?thesis unfolding lines by simp
  qed
  moreover have "''ssh'' \<in> compute_floor_closure (\<lambda>_. False) ?deps"
    using conjunct1 [OF floor_closure_exact [of "\<lambda>_. False" ?deps]] seed unfolding Let_def by blast
  ultimately show ?thesis
    by (simp add: is_floor_protected_def bare)
qed

end
