(* ===== verification/Unit_Topology.thy ===== *)
theory Unit_Topology
  imports Py_Paths Reversible_Operation Anima_Config Unit_Floor "HOL-Library.List_Lexorder"
    "HOL-Library.Char_ord"
begin

text \<open>
  Unit topology authorship: \<open>LinuxUnitTopologyManager\<close> (\<open>anima/kernel/arch/linux.py\<close>),
  \<open>ReversibleUnitTopologyAction\<close>, the boot-time check and the deadman commands
  (\<open>anima/kernel/unit_topology.py\<close>), and the gate \<open>operate_on_unit_topology\<close> /
  \<open>execute_approved_unit_action\<close> (\<open>anima/kernel/operator.py\<close>). \<open>systemctl\<close> and
  \<open>systemd-analyze\<close> are a query and a shell, \<open>glob\<close> a parameter.
\<close>

subsection \<open>The manager\<close>

record 'w unit_manager =
  read_unit :: "string \<Rightarrow> ('w, string option) act"
  author_unit :: "string \<Rightarrow> string \<Rightarrow> ('w, unit) act"
  delete_unit :: "string \<Rightarrow> ('w, unit) act"
  unit_enable :: "string \<Rightarrow> ('w, unit) act"
  unit_disable :: "string \<Rightarrow> ('w, unit) act"
  is_enabled :: "string \<Rightarrow> ('w, bool) act"
  unit_set_default :: "string \<Rightarrow> ('w, unit) act"
  unit_get_default :: "('w, string) act"
  daemon_reload :: "('w, unit) act"
  analyze_verify :: "('w, bool \<times> string) act"

definition SYSTEMD_UNIT_DIR :: string where
  "SYSTEMD_UNIT_DIR = ''/etc/systemd/system''"

definition unit_path :: "string \<Rightarrow> string" where
  "unit_path unit_name = path_join SYSTEMD_UNIT_DIR unit_name"

definition linux_author_unit :: "string \<Rightarrow> string \<Rightarrow> ('m host_scheme, unit) act" where
  "linux_author_unit unit_name content = fs_write (unit_path unit_name) content"

definition linux_delete_unit :: "string \<Rightarrow> ('m host_scheme, unit) act" where
  "linux_delete_unit unit_name = fs_unlink_missing_ok (unit_path unit_name)"

definition linux_read_unit :: "string \<Rightarrow> ('m host_scheme, string option) act" where
  "linux_read_unit unit_name = act_catch
     (act_bind (fs_read (unit_path unit_name)) (\<lambda>c. act_return (Some c)))
     (\<lambda>e. if e = PyFileNotFoundError then act_return None else act_raise e)"

definition systemctl_check :: "'w shell \<Rightarrow> string list \<Rightarrow> ('w, unit) act" where
  "systemctl_check sh args = act_then (run_check sh (''systemctl'' # args)) (act_return ())"

definition linux_is_enabled :: "'w query \<Rightarrow> string \<Rightarrow> ('w, bool) act" where
  "linux_is_enabled ctl unit_name = act_bind (ask ctl [''systemctl'', ''is-enabled'', unit_name])
     (\<lambda>r. act_return (py_strip (stdout r) = ''enabled''))"

definition linux_get_default :: "'w query \<Rightarrow> ('w, string) act" where
  "linux_get_default ctl = act_bind (ask_check ctl [''systemctl'', ''get-default''])
     (\<lambda>r. act_return (py_strip (stdout r)))"

text \<open>\<open>os.path.splitext(f)[1]\<close>: from the last dot of the last component, leading dots excepted.\<close>

definition path_ext :: "string \<Rightarrow> string" where
  "path_ext f = (let base = last (split_on slash f); i = rfind_char (CHR ''.'') base
     in if i \<le> 0 \<or> set (take (nat i) base) \<subseteq> {CHR ''.''} then [] else drop (nat i) base)"

definition UNIT_EXTS :: "string set" where
  "UNIT_EXTS = {''.service'', ''.socket'', ''.timer'', ''.target'', ''.mount'', ''.automount'',
     ''.path'', ''.slice'', ''.scope'', ''.device'', ''.swap''}"

definition linux_analyze_verify ::
    "(string \<Rightarrow> 'm host_scheme \<Rightarrow> string list) \<Rightarrow> ('m host_scheme) query \<Rightarrow> ('m host_scheme, bool \<times> string) act" where
  "linux_analyze_verify glob ctl = (\<lambda>h.
     let all_entries = glob (path_join SYSTEMD_UNIT_DIR ''*'') h;
         unit_files = filter (\<lambda>f. files h (fs_key f) \<noteq> Some Directory \<and> path_ext f \<in> UNIT_EXTS) all_entries
     in if unit_files = [] then (Inr (True, []), h)
        else act_bind (ask ctl ([''systemd-analyze'', ''verify''] @ sort unit_files))
          (\<lambda>r. act_return (returncode r = 0, stdout r @ stderr r)) h)"

definition linux_unit_manager ::
    "(string \<Rightarrow> 'm host_scheme \<Rightarrow> string list) \<Rightarrow> ('m host_scheme) query \<Rightarrow> ('m host_scheme) shell
     \<Rightarrow> ('m host_scheme) unit_manager" where
  "linux_unit_manager glob ctl sh = \<lparr>read_unit = linux_read_unit, author_unit = linux_author_unit,
     delete_unit = linux_delete_unit,
     unit_enable = (\<lambda>u. systemctl_check sh [''enable'', u]),
     unit_disable = (\<lambda>u. systemctl_check sh [''disable'', u]),
     is_enabled = linux_is_enabled ctl,
     unit_set_default = (\<lambda>t. systemctl_check sh [''set-default'', t]),
     unit_get_default = linux_get_default ctl,
     daemon_reload = systemctl_check sh [''daemon-reload''],
     analyze_verify = linux_analyze_verify glob ctl\<rparr>"

definition is_system_running :: "'w query \<Rightarrow> ('w, bool) act" where
  "is_system_running ctl = act_bind (ask ctl [''systemctl'', ''is-system-running''])
     (\<lambda>r. act_return (py_strip (stdout r) \<notin> {''failed'', ''stopping''}))"

definition list_dependencies :: "'w query \<Rightarrow> string list \<Rightarrow> ('w, string) act" where
  "list_dependencies ctl unit_names =
     act_bind (ask ctl ([''systemctl'', ''list-dependencies'', ''--all''] @ unit_names))
     (\<lambda>r. act_return (stdout r))"

subsection \<open>Support and boot-time validation\<close>

text \<open>\<open>supported()\<close> keeps its answer in the module global \<open>_support_cache\<close>.\<close>

definition unit_supported :: "'m host_scheme query \<Rightarrow> (bool option \<times> 'm host_scheme, bool) act" where
  "unit_supported ctl = (\<lambda>(support_cache, h). case support_cache of
       Some b \<Rightarrow> (Inr b, (support_cache, h))
     | None \<Rightarrow> (case ctl [''systemctl'', ''--version''] h of
           Inl e \<Rightarrow> if e \<in> {PyFileNotFoundError, TimeoutExpired} then (Inr False, (Some False, h))
                    else (Inl e, (None, h))
         | Inr r \<Rightarrow> let b = (returncode r = 0 \<and> files h ''/run/systemd'' = Some Directory)
                    in (Inr b, (Some b, h))))"

definition validate_boot_config :: "'m host_scheme query \<Rightarrow> bool \<Rightarrow> (bool option \<times> 'm host_scheme, unit) act" where
  "validate_boot_config ctl enabled =
     (if \<not> enabled then act_return ()
      else act_bind (unit_supported ctl) (\<lambda>ok.
        if \<not> ok then act_raise UnitTopologyUnsupportedError
        else (\<lambda>(support_cache, h). case ctl [''systemctl'', ''get-default''] h of
            Inl e \<Rightarrow> (Inl e, (support_cache, h))
          | Inr r \<Rightarrow> (if py_strip (stdout r) \<notin> ALLOWED_DEFAULT_TARGETS then Inl UnitTopologyError else Inr (),
                     (support_cache, h)))))"

subsection \<open>\<open>ReversibleUnitTopologyAction\<close>\<close>

definition BOOT_GRAPH_OPS :: "string set" where
  "BOOT_GRAPH_OPS = {''enable'', ''disable'', ''set_default''}"

definition RUNTIME_OPS :: "string set" where
  "RUNTIME_OPS = {''author'', ''delete''}"

record UnitSnapshot =
  snap_unit :: string
  prior_content :: "string option"
  prior_enabled :: bool
  prior_default_target :: string

definition unit_capture :: "'w unit_manager \<Rightarrow> string \<Rightarrow> ('w, UnitSnapshot) act" where
  "unit_capture mgr unit_name =
     act_bind (read_unit mgr unit_name) (\<lambda>c.
     act_bind (is_enabled mgr unit_name) (\<lambda>en.
     act_bind (unit_get_default mgr) (\<lambda>d.
     act_return \<lparr>snap_unit = unit_name, prior_content = c, prior_enabled = en, prior_default_target = d\<rparr>)))"

definition unit_apply :: "'w unit_manager \<Rightarrow> string \<Rightarrow> string \<Rightarrow> string \<Rightarrow> string \<Rightarrow> ('w, unit) act" where
  "unit_apply mgr unit_name op_name unit_content effective_target =
     (if op_name = ''author'' then act_then (author_unit mgr unit_name unit_content) (daemon_reload mgr)
      else if op_name = ''delete'' then act_then (delete_unit mgr unit_name) (daemon_reload mgr)
      else if op_name = ''enable'' then unit_enable mgr unit_name
      else if op_name = ''disable'' then unit_disable mgr unit_name
      else if op_name = ''set_default'' then unit_set_default mgr effective_target
      else act_return ())"

definition unit_restore :: "'w unit_manager \<Rightarrow> string \<Rightarrow> string \<Rightarrow> UnitSnapshot \<Rightarrow> ('w, unit) act" where
  "unit_restore mgr unit_name op_name snapshot =
     (if op_name \<in> {''author'', ''delete''} then
        act_then (case prior_content snapshot of
            None \<Rightarrow> delete_unit mgr unit_name
          | Some c \<Rightarrow> author_unit mgr unit_name c) (daemon_reload mgr)
      else if op_name = ''enable'' then
        (if \<not> prior_enabled snapshot then unit_disable mgr unit_name else act_return ())
      else if op_name = ''disable'' then
        (if prior_enabled snapshot then unit_enable mgr unit_name else act_return ())
      else if op_name = ''set_default'' then unit_set_default mgr (prior_default_target snapshot)
      else act_return ())"

definition unit_action ::
    "'w unit_manager \<Rightarrow> string \<Rightarrow> string \<Rightarrow> string \<Rightarrow> string \<Rightarrow> ('w, UnitSnapshot) reversible_operation" where
  "unit_action mgr unit_name op_name unit_content effective_target = \<lparr>
     op_capture = Some (unit_capture mgr unit_name),
     op_apply = unit_apply mgr unit_name op_name unit_content effective_target,
     op_verify = act_bind (analyze_verify mgr) (\<lambda>(ok, out). act_return ok),
     op_restore = Some (unit_restore mgr unit_name op_name)\<rparr>"

text \<open>The constructor: \<open>None\<close> and the empty string are both false in \<open>target_name or unit_name\<close> and
  \<open>not unit_content\<close>.\<close>

definition nonempty :: "string option \<Rightarrow> bool" where
  "nonempty x = (case x of None \<Rightarrow> False | Some s \<Rightarrow> s \<noteq> [])"

definition ReversibleUnitTopologyAction ::
    "'w unit_manager \<Rightarrow> string \<Rightarrow> string \<Rightarrow> string set \<Rightarrow> string option \<Rightarrow> string option
     \<Rightarrow> exn + ('w, UnitSnapshot) reversible_operation" where
  "ReversibleUnitTopologyAction mgr unit_name op_name floor unit_content target_name =
     (let effective_target = (if op_name = ''set_default'' \<and> nonempty target_name then the target_name
                              else unit_name)
      in if op_name \<notin> BOOT_GRAPH_OPS \<union> RUNTIME_OPS then Inl UnitTopologyError
         else if op_name = ''set_default'' \<and> effective_target \<notin> ALLOWED_DEFAULT_TARGETS
           then Inl UnitTopologyRefusalError
         else if op_name \<noteq> ''set_default'' \<and> is_floor_protected unit_name floor
           then Inl UnitTopologyRefusalError
         else if op_name = ''author'' \<and> \<not> nonempty unit_content then Inl UnitTopologyError
         else Inr (unit_action mgr unit_name op_name (case unit_content of None \<Rightarrow> [] | Some c \<Rightarrow> c)
                effective_target))"

subsection \<open>Deadman commands\<close>

definition REVERT_UNIT_NAME :: string where
  "REVERT_UNIT_NAME = ''anima-unit-topology-revert''"

definition arm_boot_deadman :: "int \<Rightarrow> string \<Rightarrow> string \<Rightarrow> string list" where
  "arm_boot_deadman delay_s revert_cmd unit_name =
     [''systemd-run'', ''--on-active'', show_int delay_s, ''--unit='' @ unit_name, ''--''] @ py_words revert_cmd"

definition disarm_boot_deadman :: "string \<Rightarrow> string list" where
  "disarm_boot_deadman unit_name = [''systemctl'', ''stop'', ''--no-block'', unit_name]"

subsection \<open>The gate\<close>

record UnitTopologyOutcome =
  unit_auto_applied :: bool
  unit_proposed :: bool
  unit_operation_result :: "OperationResult option"
  proposed_op :: "string option"
  unit_reason :: string

definition propose_unit :: "string \<Rightarrow> string \<Rightarrow> UnitTopologyOutcome" where
  "propose_unit op_name why = \<lparr>unit_auto_applied = False, unit_proposed = True,
     unit_operation_result = None, proposed_op = Some op_name, unit_reason = why\<rparr>"

definition operate_on_unit_topology ::
    "Settings \<Rightarrow> 'w unit_manager \<Rightarrow> string \<Rightarrow> string \<Rightarrow> string \<Rightarrow> string set \<Rightarrow> string option \<Rightarrow> string option
     \<Rightarrow> int \<Rightarrow> ('w kernel_state, UnitTopologyOutcome) act" where
  "operate_on_unit_topology cfg mgr user_id unit_name op_name floor unit_content target_name now = (\<lambda>st.
     let operation_class = ''unit_topology_'' @ op_name in
     if op_name \<in> BOOT_GRAPH_OPS then
       (Inr (propose_unit op_name (''boot-graph op '' @ [CHR 0x27] @ op_name @ [CHR 0x27]
          @ '' is permanently propose-only (I-UT7); requires human-gated maintenance window'')), st)
     else case ReversibleUnitTopologyAction mgr unit_name op_name floor unit_content target_name of
         Inl e \<Rightarrow> (Inl e, st)
       | Inr action \<Rightarrow>
           if \<not> operator_unit_topology_enabled cfg
           then (Inr (propose_unit op_name ''operator_unit_topology_enabled=False''), st)
           else if get_managed_unit_target user_id unit_name (db st) = None
           then (Inr (propose_unit op_name (''unit '' @ py_repr unit_name
                   @ '' not in managed_unit_targets allowlist'')), st)
           else if \<not> graduated (db_get_operator_track_record (user_id, operation_class, unit_name) (db st))
           then (Inr (propose_unit op_name (''operation ('' @ operation_class @ '', '' @ py_repr unit_name
                   @ '') not yet graduated'')), st)
           else act_bind (run_and_record action (user_id, operation_class, unit_name) now) (\<lambda>result.
             act_return \<lparr>unit_auto_applied = True, unit_proposed = False,
               unit_operation_result = Some result, proposed_op = None, unit_reason = detail result\<rparr>) st)"

definition execute_approved_unit_action ::
    "'w unit_manager \<Rightarrow> string \<Rightarrow> string \<Rightarrow> string \<Rightarrow> string set \<Rightarrow> string option \<Rightarrow> string option
     \<Rightarrow> int \<Rightarrow> ('w kernel_state, OperationResult) act" where
  "execute_approved_unit_action mgr user_id unit_name op_name floor unit_content target_name now = (\<lambda>st.
     case ReversibleUnitTopologyAction mgr unit_name op_name floor unit_content target_name of
       Inl e \<Rightarrow> (Inl e, st)
     | Inr action \<Rightarrow> run_and_record action (user_id, ''unit_topology_'' @ op_name, unit_name) now st)"

subsection \<open>The contract\<close>

text \<open>The part of the machine an operation manages: the unit file, the unit's enablement, or the
  default target.\<close>

datatype unit_aspect = UnitFile "node option" | Enabled bool | DefaultTarget "string option" | NoAspect

definition unit_observe :: "'m host_scheme query \<Rightarrow> string \<Rightarrow> string \<Rightarrow> 'm host_scheme \<Rightarrow> unit_aspect" where
  "unit_observe ctl u op_name h =
     (if op_name \<in> {''author'', ''delete''} then UnitFile (files h (fs_key (unit_path u)))
      else if op_name \<in> {''enable'', ''disable''} then Enabled (fst (linux_is_enabled ctl u h) = Inr True)
      else if op_name = ''set_default'' then DefaultTarget (case fst (linux_get_default ctl h) of
          Inl e \<Rightarrow> None | Inr t \<Rightarrow> Some t)
      else NoAspect)"

definition unit_content :: "string \<Rightarrow> UnitSnapshot \<Rightarrow> unit_aspect" where
  "unit_content op_name s =
     (if op_name \<in> {''author'', ''delete''} then UnitFile (map_option Regular (prior_content s))
      else if op_name \<in> {''enable'', ''disable''} then Enabled (prior_enabled s)
      else if op_name = ''set_default'' then DefaultTarget (Some (prior_default_target s))
      else NoAspect)"

text \<open>\<open>unit_willing\<close>: no call of \<open>restore\<close> fails. \<open>unit_faithful\<close>: systemctl does what it is told,
  and \<open>daemon-reload\<close> leaves unit files alone.\<close>

definition unit_willing :: "'m host_scheme shell \<Rightarrow> string \<Rightarrow> string \<Rightarrow> 'm host_scheme \<Rightarrow> bool" where
  "unit_willing sh u op_name h \<longleftrightarrow>
     (op_name \<in> {''author'', ''delete''} \<longrightarrow> parent_ok (unit_path u) h \<and> \<not> io_fault h (fs_key (unit_path u))
        \<and> files h (fs_key (unit_path u)) \<noteq> Some Directory
        \<and> (\<forall>h. fst (systemctl_check sh [''daemon-reload''] h) = Inr ()))
     \<and> (op_name = ''enable'' \<longrightarrow> fst (systemctl_check sh [''disable'', u] h) = Inr ())
     \<and> (op_name = ''disable'' \<longrightarrow> fst (systemctl_check sh [''enable'', u] h) = Inr ())
     \<and> (op_name = ''set_default'' \<longrightarrow> (\<forall>t. fst (systemctl_check sh [''set-default'', t] h) = Inr ()))"

definition unit_faithful ::
    "'m host_scheme query \<Rightarrow> 'm host_scheme shell \<Rightarrow> string \<Rightarrow> string \<Rightarrow> 'm host_scheme \<Rightarrow> bool" where
  "unit_faithful ctl sh u op_name h \<longleftrightarrow>
     (op_name \<in> {''author'', ''delete''} \<longrightarrow> (\<forall>h. files (snd (systemctl_check sh [''daemon-reload''] h))
        (fs_key (unit_path u)) = files h (fs_key (unit_path u))))
     \<and> (op_name = ''enable'' \<longrightarrow> fst (linux_is_enabled ctl u h) = Inr True
        \<and> fst (linux_is_enabled ctl u (snd (systemctl_check sh [''disable'', u] h))) \<noteq> Inr True)
     \<and> (op_name = ''disable'' \<longrightarrow> fst (linux_is_enabled ctl u h) \<noteq> Inr True
        \<and> fst (linux_is_enabled ctl u (snd (systemctl_check sh [''enable'', u] h))) = Inr True)
     \<and> (op_name = ''set_default'' \<longrightarrow> (\<forall>t.
        fst (linux_get_default ctl (snd (systemctl_check sh [''set-default'', t] h))) = Inr t))"

lemma linux_read_unit_cases:
  "linux_read_unit u h = (r, h') \<Longrightarrow> h' = h \<and>
     (case r of Inl e \<Rightarrow> True | Inr c \<Rightarrow> map_option Regular c = files h (fs_key (unit_path u)))"
  by (auto simp: linux_read_unit_def fs_read_def act_simps split: option.splits node.splits if_splits)

lemma linux_query_state:
  "linux_is_enabled ctl u h = (r, h') \<Longrightarrow> h' = h" "linux_get_default ctl h = (r', h') \<Longrightarrow> h' = h"
  by (auto simp: linux_is_enabled_def linux_get_default_def ask_check_def act_simps
      split: sum.splits prod.splits if_splits)

lemma linux_manager_sel [simp]:
  "read_unit (linux_unit_manager glob ctl sh) = linux_read_unit"
  "author_unit (linux_unit_manager glob ctl sh) = linux_author_unit"
  "delete_unit (linux_unit_manager glob ctl sh) = linux_delete_unit"
  "is_enabled (linux_unit_manager glob ctl sh) = linux_is_enabled ctl"
  "unit_get_default (linux_unit_manager glob ctl sh) = linux_get_default ctl"
  "unit_enable (linux_unit_manager glob ctl sh) u = systemctl_check sh [''enable'', u]"
  "unit_disable (linux_unit_manager glob ctl sh) u = systemctl_check sh [''disable'', u]"
  "unit_set_default (linux_unit_manager glob ctl sh) u = systemctl_check sh [''set-default'', u]"
  "daemon_reload (linux_unit_manager glob ctl sh) = systemctl_check sh [''daemon-reload'']"
  "analyze_verify (linux_unit_manager glob ctl sh) = linux_analyze_verify glob ctl"
  by (simp_all add: linux_unit_manager_def)

lemma unit_capture_cases:
  assumes "unit_capture (linux_unit_manager glob ctl sh) u h = (r, h')"
  shows "h' = h" and "r = Inr s \<Longrightarrow> unit_content op_name s = unit_observe ctl u op_name h"
proof -
  obtain r1 h1 where 1: "linux_read_unit u h = (r1, h1)" by (cases "linux_read_unit u h")
  obtain r2 h2 where 2: "linux_is_enabled ctl u h = (r2, h2)" by (cases "linux_is_enabled ctl u h")
  obtain r3 h3 where 3: "linux_get_default ctl h = (r3, h3)" by (cases "linux_get_default ctl h")
  note c1 = linux_read_unit_cases [OF 1] and c2 = linux_query_state(1) [OF 2]
    and c3 = linux_query_state(2) [OF 3]
  show "h' = h"
    using assms 1 2 3 c1 c2 c3 by (auto simp: unit_capture_def act_simps split: sum.splits)
  assume r: "r = Inr s"
  have s: "r1 = Inr (prior_content s)" "r2 = Inr (prior_enabled s)" "r3 = Inr (prior_default_target s)"
    using assms 1 2 3 c1 c2 c3 r by (auto simp: unit_capture_def act_simps split: sum.splits)
  have "files h (fs_key (unit_path u)) = map_option Regular (prior_content s)"
    using c1 s(1) by simp
  then show "unit_content op_name s = unit_observe ctl u op_name h"
    by (simp only: unit_content_def unit_observe_def 2 3 s fst_conv sum.case sum.inject if_cancel eq_commute
        simp_thms split: if_split)
qed

lemma unit_restore_file:
  "op_name \<in> {''author'', ''delete''} \<Longrightarrow> unit_restore (linux_unit_manager glob ctl sh) u op_name s =
     act_then (case prior_content s of None \<Rightarrow> linux_delete_unit u | Some c \<Rightarrow> linux_author_unit u c)
       (systemctl_check sh [''daemon-reload''])"
  by (simp only: unit_restore_def if_True linux_manager_sel)

lemma put_back_unit:
  "(case c of None \<Rightarrow> linux_delete_unit u | Some t \<Rightarrow> linux_author_unit u t) h = (Inr x, h') \<Longrightarrow>
     files h' (fs_key (unit_path u)) = map_option Regular c"
  by (cases c) (auto simp: linux_delete_unit_def linux_author_unit_def fs_unlink_missing_ok_eq fs_write_Inr
      split: if_splits)

lemma put_back_unit_total:
  "parent_ok (unit_path u) h \<Longrightarrow> \<not> io_fault h (fs_key (unit_path u)) \<Longrightarrow>
     files h (fs_key (unit_path u)) \<noteq> Some Directory \<Longrightarrow> \<exists>h'. (case c of None \<Rightarrow> linux_delete_unit u | Some t \<Rightarrow> linux_author_unit u t) h = (Inr (), h')"
  by (cases c) (auto simp: linux_delete_unit_def linux_author_unit_def fs_unlink_missing_ok_eq fs_write_def)

lemma unit_restore_total:
  fixes h :: "'m host_scheme"
  assumes w: "unit_willing sh u op_name h"
  shows "\<exists>h'. unit_restore (linux_unit_manager glob ctl sh) u op_name s h = (Inr (), h')"
proof (cases "op_name \<in> {''author'', ''delete''}")
  case True
  with w obtain h1 where
    "(case prior_content s of None \<Rightarrow> linux_delete_unit u | Some t \<Rightarrow> linux_author_unit u t) h = (Inr (), h1)"
    unfolding unit_willing_def using put_back_unit_total [of u h "prior_content s"] by blast
  moreover have "\<exists>h'. systemctl_check sh [''daemon-reload''] h1 = (Inr (), h')"
    using w True unfolding unit_willing_def by (metis prod.collapse)
  ultimately show ?thesis unfolding unit_restore_file [OF True] by (auto simp: act_then_apply)
next
  case False
  have step: "fst (m h) = Inr () \<Longrightarrow> \<exists>h'. m h = (Inr (), h')" for m :: "('m host_scheme, unit) act"
    by (metis prod.collapse)
  consider "op_name = ''enable''" | "op_name = ''disable''" | "op_name = ''set_default''"
    | "op_name \<notin> {''author'', ''delete'', ''enable'', ''disable'', ''set_default''}"
    using False by auto
  then show ?thesis
    by cases (rule step, use w in \<open>simp add: unit_restore_def unit_willing_def\<close>)+
qed

lemma unit_restore_content:
  fixes h :: "'m host_scheme"
  assumes f: "unit_faithful ctl sh u op_name h"
    and r: "unit_restore (linux_unit_manager glob ctl sh) u op_name s h = (Inr x, h')"
  shows "unit_observe ctl u op_name h' = unit_content op_name s"
proof (cases "op_name \<in> {''author'', ''delete''}")
  case True
  from r obtain y h1 where one:
    "(case prior_content s of None \<Rightarrow> linux_delete_unit u | Some t \<Rightarrow> linux_author_unit u t) h = (Inr y, h1)"
    and two: "systemctl_check sh [''daemon-reload''] h1 = (Inr x, h')"
    unfolding unit_restore_file [OF True] by (rule act_then_InrE)
  have "files (snd (systemctl_check sh [''daemon-reload''] h1)) (fs_key (unit_path u)) =
      files h1 (fs_key (unit_path u))"
    using f True unfolding unit_faithful_def by blast
  with put_back_unit [OF one] two True show ?thesis
    by (simp only: unit_observe_def unit_content_def if_True snd_conv)
next
  case False
  have h': "h' = snd (unit_restore (linux_unit_manager glob ctl sh) u op_name s h)"
    using r by simp
  consider "op_name = ''enable''" | "op_name = ''disable''" | "op_name = ''set_default''"
    | "op_name \<notin> {''author'', ''delete'', ''enable'', ''disable'', ''set_default''}"
    using False by auto
  then show ?thesis
    by cases (use f h' in \<open>simp add: unit_restore_def unit_faithful_def unit_observe_def
      unit_content_def\<close>)+
qed

interpretation unit_action: reversible_contract
  "unit_action (linux_unit_manager glob ctl sh) u op_name text target"
  "unit_capture (linux_unit_manager glob ctl sh) u"
  "unit_restore (linux_unit_manager glob ctl sh) u op_name"
  "unit_observe ctl u op_name" "unit_content op_name"
  "unit_willing sh u op_name" "unit_faithful ctl sh u op_name"
  for glob and ctl :: "'m host_scheme query" and sh u op_name text target
proof unfold_locales
  show "op_capture (unit_action (linux_unit_manager glob ctl sh) u op_name text target) =
      Some (unit_capture (linux_unit_manager glob ctl sh) u)"
    and "op_restore (unit_action (linux_unit_manager glob ctl sh) u op_name text target) =
      Some (unit_restore (linux_unit_manager glob ctl sh) u op_name)"
    by (simp_all add: unit_action_def)
next
  fix w w' :: "'m host_scheme" and r
  assume "unit_capture (linux_unit_manager glob ctl sh) u w = (r, w')"
  from unit_capture_cases(1) [OF this] show "unit_observe ctl u op_name w' = unit_observe ctl u op_name w"
    by simp
next
  fix w w' :: "'m host_scheme" and s
  assume "unit_capture (linux_unit_manager glob ctl sh) u w = (Inr s, w')"
  from unit_capture_cases(2) [OF this refl] show "unit_content op_name s = unit_observe ctl u op_name w" .
next
  fix w :: "'m host_scheme" and s
  assume "unit_willing sh u op_name w"
  then show "\<exists>w'. unit_restore (linux_unit_manager glob ctl sh) u op_name s w = (Inr (), w')"
    by (rule unit_restore_total)
next
  fix w w' :: "'m host_scheme" and s and x :: unit
  assume "unit_faithful ctl sh u op_name w"
    and "unit_restore (linux_unit_manager glob ctl sh) u op_name s w = (Inr x, w')"
  then show "unit_observe ctl u op_name w' = unit_content op_name s" by (rule unit_restore_content)
qed

subsection \<open>Properties\<close>

lemma constructor_Inr:
  "ReversibleUnitTopologyAction mgr u op_name floor text target = Inr a \<Longrightarrow>
     op_name \<in> BOOT_GRAPH_OPS \<union> RUNTIME_OPS \<and> (op_name \<noteq> ''set_default'' \<longrightarrow> \<not> is_floor_protected u floor)
     \<and> (\<exists>c t. a = unit_action mgr u op_name c t \<and> (op_name = ''set_default'' \<longrightarrow> t \<in> ALLOWED_DEFAULT_TARGETS))"
  by (auto simp: ReversibleUnitTopologyAction_def Let_def split: if_splits)

definition sample_unit_host :: host where
  "sample_unit_host = \<lparr>files = [''/etc/systemd/system'' \<mapsto> Directory, ''/etc/systemd/system/sshd.service'' \<mapsto> Regular ''[Service]'',
     ''/etc/systemd/system/app.service'' \<mapsto> Regular ''old'', ''/run/systemd'' \<mapsto> Directory],
     io_fault = (\<lambda>_. False)\<rparr>"

definition sample_unit_ctl :: "int \<Rightarrow> host query" where
  "sample_unit_ctl rc argv h = Inr \<lparr>returncode = (if argv ! 0 = ''systemd-analyze'' then rc else 0),
     stdout = (if argv ! 1 = ''get-default'' then ''multi-user.target'' else ''disabled''), stderr = []\<rparr>"

definition quiet_shell :: "host shell" where
  "quiet_shell argv = act_return \<lparr>returncode = 0, stdout = [], stderr = []\<rparr>"

definition sample_glob :: "string \<Rightarrow> host \<Rightarrow> string list" where
  "sample_glob pattern h = [''/etc/systemd/system/app.service'']"

definition sample_unit_state :: "host kernel_state" where
  "sample_unit_state = \<lparr>db = empty_db, world = sample_unit_host\<rparr>"

text \<open>C24: A unit operation is applied without the owner only if it is a runtime operation (\<open>author\<close> or
  \<open>delete\<close>) on a unit outside the floor, with the flag on, the unit on the owner's list and the class
  graduated; a boot-graph operation never is. Whenever the gate returns without applying, it has
  proposed the operation and changed nothing.\<close>

theorem operate_on_unit_gate:
  assumes "operate_on_unit_topology cfg mgr user u op_name floor text target now st = (Inr out, st')"
  shows "if unit_auto_applied out
    then op_name \<in> RUNTIME_OPS \<and> op_name \<notin> BOOT_GRAPH_OPS \<and> \<not> is_floor_protected u floor
      \<and> operator_unit_topology_enabled cfg \<and> get_managed_unit_target user u (db st) \<noteq> None
      \<and> graduated (get_operator_track_record (user, ''unit_topology_'' @ op_name, u) (operator_tracks (db st)))
      \<and> (\<exists>res. unit_operation_result out = Some res
          \<and> execute_approved_unit_action mgr user u op_name floor text target now st = (Inr res, st'))
    else unit_proposed out \<and> proposed_op out = Some op_name \<and> st' = st"
proof (cases "op_name \<in> BOOT_GRAPH_OPS")
  case True
  with assms show ?thesis by (auto simp: operate_on_unit_topology_def propose_unit_def Let_def)
next
  case False
  with assms obtain a where a: "ReversibleUnitTopologyAction mgr u op_name floor text target = Inr a"
    by (auto simp: operate_on_unit_topology_def Let_def split: sum.splits)
  have "op_name \<noteq> ''set_default''" using False by (auto simp: BOOT_GRAPH_OPS_def)
  with constructor_Inr [OF a] False
  have c: "op_name \<in> RUNTIME_OPS" "\<not> is_floor_protected u floor" by simp_all
  show ?thesis
    using assms False a c
    by (auto simp: operate_on_unit_topology_def execute_approved_unit_action_def propose_unit_def
        db_get_operator_track_record_def Let_def act_simps split: if_splits prod.splits sum.splits)
qed

theorem operate_on_unit_gate_witness:
  "snd (operate_on_unit_topology default_settings (linux_unit_manager sample_glob (sample_unit_ctl 0) quiet_shell)
     ''u'' ''app.service'' ''enable'' FLOOR_UNIT_SEED None None 5 sample_unit_state) = sample_unit_state"
proof -
  let ?run = "operate_on_unit_topology default_settings (linux_unit_manager sample_glob (sample_unit_ctl 0) quiet_shell)
     ''u'' ''app.service'' ''enable'' FLOOR_UNIT_SEED None None 5 sample_unit_state"
  have boot: "''enable'' \<in> BOOT_GRAPH_OPS" by (simp add: BOOT_GRAPH_OPS_def)
  then obtain out where out: "fst ?run = Inr out"
    by (simp add: operate_on_unit_topology_def Let_def)
  have "?run = (Inr out, snd ?run)" using out by (metis prod.collapse)
  from operate_on_unit_gate [OF this] boot show ?thesis by (auto split: if_splits)
qed

text \<open>The floor is unconditional: neither entry point does anything to a unit the floor protects
  (its state is unchanged and an approved action is an error), and no entry point sets a default target
  outside the two allowed ones, whoever asked.\<close>

theorem unit_floor_refusal:
  assumes "if op_name = ''set_default''
    then (if nonempty target then the target else u) \<notin> ALLOWED_DEFAULT_TARGETS
    else is_floor_protected u floor"
  shows "snd (execute_approved_unit_action mgr user u op_name floor text target now st) = st
    \<and> isl (fst (execute_approved_unit_action mgr user u op_name floor text target now st))
    \<and> snd (operate_on_unit_topology cfg mgr user u op_name floor text target now st) = st
    \<and> (\<forall>out. fst (operate_on_unit_topology cfg mgr user u op_name floor text target now st) = Inr out
         \<longrightarrow> \<not> unit_auto_applied out)"
proof -
  have "isl (ReversibleUnitTopologyAction mgr u op_name floor text target)"
    using assms by (auto simp: ReversibleUnitTopologyAction_def Let_def split: if_splits)
  then obtain e where "ReversibleUnitTopologyAction mgr u op_name floor text target = Inl e"
    by (auto simp: isl_def)
  then show ?thesis
    by (simp add: execute_approved_unit_action_def operate_on_unit_topology_def propose_unit_def Let_def)
qed

theorem unit_floor_refusal_witness:
  "snd (execute_approved_unit_action (linux_unit_manager sample_glob (sample_unit_ctl 0) quiet_shell) ''u''
     ''sshd.socket'' ''author'' FLOOR_UNIT_SEED (Some ''x'') None 5 sample_unit_state) = sample_unit_state"
proof -
  have bare: "bare_name ''sshd.socket'' = Some ''sshd''" by code_simp
  have "if ''author'' = ''set_default'' then (if nonempty None then the None else ''sshd.socket'') \<notin> ALLOWED_DEFAULT_TARGETS
    else is_floor_protected ''sshd.socket'' FLOOR_UNIT_SEED"
    by (simp add: is_floor_protected_def bare FLOOR_UNIT_SEED_def)
  from unit_floor_refusal [OF this] show ?thesis by blast
qed

text \<open>If the configuration check does not pass after an approved unit operation that returns, the part
  of the machine the operation manages is as it was: the unit file for \<open>author\<close> and \<open>delete\<close>, the
  enablement for \<open>enable\<close> and \<open>disable\<close>, the default target for \<open>set_default\<close>.\<close>

theorem unit_rejected_is_undone:
  assumes run: "execute_approved_unit_action (linux_unit_manager glob ctl sh) user u op_name floor text target now st
      = (Inr res, st')"
    and no: "\<not> verified res" and host: "\<And>h. unit_faithful ctl sh u op_name h"
  shows "unit_observe ctl u op_name (world st') = unit_observe ctl u op_name (world st) \<and> restored res"
proof -
  from run obtain a where a: "ReversibleUnitTopologyAction (linux_unit_manager glob ctl sh) u op_name floor text target = Inr a"
    and rr: "run_and_record a (user, ''unit_topology_'' @ op_name, u) now st = (Inr res, st')"
    by (auto simp: execute_approved_unit_action_def split: sum.splits)
  obtain c t where act: "a = unit_action (linux_unit_manager glob ctl sh) u op_name c t"
    using constructor_Inr [OF a] by blast
  obtain r w where w: "run_reversible_operation a (world st) = (r, w)"
    by (cases "run_reversible_operation a (world st)")
  have r: "r = Inr res" and st': "world st' = w"
    using rr w by (cases r; auto simp: run_and_record_Inr run_and_record_Inl)+
  have "unit_observe ctl u op_name w = unit_observe ctl u op_name (world st)"
    using unit_action.restored_means_undone [OF w [unfolded r act] no host] .
  moreover have "restored res"
    using unit_action.outcome_exhaustive [OF w [unfolded r act]] no by auto
  ultimately show ?thesis by (simp add: st')
qed

theorem unit_rejected_is_undone_witness:
  "unit_observe (sample_unit_ctl 1) ''app.service'' ''author'' (world (snd (execute_approved_unit_action
     (linux_unit_manager sample_glob (sample_unit_ctl 1) quiet_shell) ''u'' ''app.service'' ''author''
     {} (Some ''new'') None 5 sample_unit_state))) = UnitFile (Some (Regular ''old''))"
proof -
  let ?run = "execute_approved_unit_action (linux_unit_manager sample_glob (sample_unit_ctl 1) quiet_shell)
     ''u'' ''app.service'' ''author'' {} (Some ''new'') None 5 sample_unit_state"
  have res: "fst ?run = Inr restored_result" by code_simp
  have "?run = (Inr restored_result, snd ?run)" using res by (metis prod.collapse)
  moreover have "unit_faithful (sample_unit_ctl 1) quiet_shell ''app.service'' ''author'' h" for h
    by (simp add: unit_faithful_def systemctl_check_def run_check_def quiet_shell_def act_simps)
  ultimately have "unit_observe (sample_unit_ctl 1) ''app.service'' ''author'' (world (snd ?run)) =
      unit_observe (sample_unit_ctl 1) ''app.service'' ''author'' (world sample_unit_state)"
    using unit_rejected_is_undone by fastforce
  moreover have "unit_observe (sample_unit_ctl 1) ''app.service'' ''author'' (world sample_unit_state)
      = UnitFile (Some (Regular ''old''))" by code_simp
  ultimately show ?thesis by simp
qed

text \<open>The floor compares names, not files: the unit name \<open>./sshd.service\<close> is not floor-protected,
  yet it names the file of \<open>sshd.service\<close>, which an approved \<open>author\<close> operation then overwrites
  (without any allowlist entry, which this entry point does not ask for).\<close>

theorem unit_floor_path_bypass:
  "is_floor_protected ''sshd.service'' FLOOR_UNIT_SEED \<and> \<not> is_floor_protected ''./sshd.service'' FLOOR_UNIT_SEED
   \<and> (case execute_approved_unit_action (linux_unit_manager sample_glob (sample_unit_ctl 0) quiet_shell) ''u''
          ''./sshd.service'' ''author'' FLOOR_UNIT_SEED (Some ''evil'') None 5 sample_unit_state of
        (r, st) \<Rightarrow> r = Inr kept_result
          \<and> files (world st) ''/etc/systemd/system/sshd.service'' = Some (Regular ''evil''))"
proof -
  have bare: "bare_name ''./sshd.service'' = Some ''./sshd''" "bare_name ''sshd.service'' = Some ''sshd''" by code_simp+
  have f: "is_floor_protected ''sshd.service'' FLOOR_UNIT_SEED" "\<not> is_floor_protected ''./sshd.service'' FLOOR_UNIT_SEED"
    by (simp_all add: is_floor_protected_def bare FLOOR_UNIT_SEED_def)
  then have a: "ReversibleUnitTopologyAction mgr ''./sshd.service'' ''author'' FLOOR_UNIT_SEED (Some ''evil'') None =
      Inr (unit_action mgr ''./sshd.service'' ''author'' ''evil'' ''./sshd.service'')" for mgr :: "host unit_manager"
    by (simp add: ReversibleUnitTopologyAction_def BOOT_GRAPH_OPS_def RUNTIME_OPS_def nonempty_def)
  have "fst (run_and_record (unit_action (linux_unit_manager sample_glob (sample_unit_ctl 0) quiet_shell)
      ''./sshd.service'' ''author'' ''evil'' ''./sshd.service'') (''u'', ''unit_topology_author'', ''./sshd.service'') 5
      sample_unit_state) = Inr kept_result"
    and "files (world (snd (run_and_record (unit_action (linux_unit_manager sample_glob (sample_unit_ctl 0) quiet_shell)
      ''./sshd.service'' ''author'' ''evil'' ''./sshd.service'') (''u'', ''unit_topology_author'', ''./sshd.service'') 5
      sample_unit_state))) ''/etc/systemd/system/sshd.service'' = Some (Regular ''evil'')"
    by code_simp+
  with f show ?thesis by (simp add: execute_approved_unit_action_def a case_prod_beta)
qed

text \<open>The boot-time check passes exactly when the feature is off, or systemd answers and is the
  running init and the current default target is one of the two allowed; being off, it asks nothing.\<close>

theorem boot_config_check:
  "fst (validate_boot_config ctl on_flag (None, h)) = Inr () \<longleftrightarrow> (on_flag \<longrightarrow>
     (case ctl [''systemctl'', ''--version''] h of Inl e \<Rightarrow> False
      | Inr r \<Rightarrow> returncode r = 0 \<and> files h ''/run/systemd'' = Some Directory)
     \<and> (case ctl [''systemctl'', ''get-default''] h of Inl e \<Rightarrow> False
        | Inr r \<Rightarrow> py_strip (stdout r) \<in> {''multi-user.target'', ''graphical.target''}))"
  by (auto simp: validate_boot_config_def unit_supported_def ALLOWED_DEFAULT_TARGETS_def act_simps Let_def
      split: sum.splits if_splits)

theorem boot_config_check_witness:
  "fst (validate_boot_config (sample_unit_ctl 0) True (None, sample_unit_host)) = Inr ()"
proof -
  have "py_strip ''multi-user.target'' = ''multi-user.target''" by code_simp
  then show ?thesis
    by (simp add: boot_config_check sample_unit_ctl_def sample_unit_host_def)
qed

end
