(* ===== verification/Deadman.thy ===== *)
theory Deadman
  imports Py_Paths
begin

text \<open>
  The revert timer that guards an edit of the login path (\<open>arm\<close>, \<open>disarm\<close>) and the shape of the
  guarded installers of \<open>anima/kernel/pam_operator.py\<close> and \<open>anima/kernel/frontdoor.py\<close>: disarm,
  restore and raise the installer's own error when the body fails. The timer is systemd's, hence a
  parameter; what is relied on of it is \<open>deadman_laws\<close>.
\<close>

subsection \<open>The deadman timer\<close>

record 'w deadman =
  dm_arm :: "string \<Rightarrow> int \<Rightarrow> string \<Rightarrow> ('w, unit) act"
  dm_disarm :: "string \<Rightarrow> ('w, unit) act"

text \<open>
  What systemd documents: a successful \<open>systemd-run\<close> leaves the timer pending, a finished
  \<open>systemctl stop\<close> leaves it not pending, and neither touches a file while it is pending.
  \<open>armed h\<close> says that the timer is pending; it does not depend on the files.
\<close>

definition deadman_laws :: "('m host_scheme \<Rightarrow> bool) \<Rightarrow> ('m host_scheme) deadman \<Rightarrow> bool" where
  "deadman_laws armed dm \<longleftrightarrow>
     (\<forall>u d c h. files (snd (dm_arm dm u d c h)) = files h
        \<and> (\<not> isl (fst (dm_arm dm u d c h)) \<longrightarrow> armed (snd (dm_arm dm u d c h))))
     \<and> (\<forall>u h. files (snd (dm_disarm dm u h)) = files h
        \<and> (\<not> isl (fst (dm_disarm dm u h)) \<longrightarrow> \<not> armed (snd (dm_disarm dm u h))))
     \<and> (\<forall>h f. armed (h\<lparr>files := f\<rparr>) = armed h)"

lemma deadman_armD:
  assumes "deadman_laws armed dm" "dm_arm dm u d c h = (r, h')"
  shows "files h' = files h" "r = Inr x \<Longrightarrow> armed h'"
proof -
  have "files (snd (dm_arm dm u d c h)) = files h
      \<and> (\<not> isl (fst (dm_arm dm u d c h)) \<longrightarrow> armed (snd (dm_arm dm u d c h)))"
    using assms(1) unfolding deadman_laws_def by blast
  then show "files h' = files h" "r = Inr x \<Longrightarrow> armed h'" using assms(2) by simp_all
qed

lemma deadman_disarmD:
  assumes "deadman_laws armed dm" "dm_disarm dm u h = (r, h')"
  shows "files h' = files h" "r = Inr x \<Longrightarrow> \<not> armed h'"
proof -
  have "files (snd (dm_disarm dm u h)) = files h
      \<and> (\<not> isl (fst (dm_disarm dm u h)) \<longrightarrow> \<not> armed (snd (dm_disarm dm u h)))"
    using assms(1) unfolding deadman_laws_def by blast
  then show "files h' = files h" "r = Inr x \<Longrightarrow> \<not> armed h'" using assms(2) by simp_all
qed

lemma deadman_files: "deadman_laws armed dm \<Longrightarrow> armed (h\<lparr>files := f\<rparr>) = armed h"
  unfolding deadman_laws_def by blast

text \<open>The shape of both installers: undo and re-raise as the installer's own error, unless the body
  raised that error itself.\<close>

definition undo :: "('w, unit) act \<Rightarrow> ('w, unit) act \<Rightarrow> exn \<Rightarrow> ('w, 'a) act" where
  "undo disarm put_back err = act_then disarm (act_then put_back (act_raise err))"

definition guarded :: "exn \<Rightarrow> ('w, unit) act \<Rightarrow> ('w, unit) act \<Rightarrow> ('w, unit) act \<Rightarrow> ('w, unit) act" where
  "guarded err disarm put_back body =
     act_catch body (\<lambda>e. if e = err then act_raise err else undo disarm put_back err)"

lemma undo_cases:
  assumes "undo disarm put_back err h = (r, h')"
  obtains (disarm_fails) e where "disarm h = (Inl e, h')" "r = Inl e"
  | (put_back_fails) e h1 x where "disarm h = (Inr x, h1)" "put_back h1 = (Inl e, h')" "r = Inl e"
  | (undone) h1 x y where "disarm h = (Inr x, h1)" "put_back h1 = (Inr y, h')" "r = Inl err"
  using assms by (auto simp: undo_def act_simps split: prod.splits sum.splits)

text \<open>
  What an installer's undo step relies on: \<open>intact\<close> says that the backup is readable as it was taken,
  \<open>undone\<close> that the target is what it was. \<open>body_result\<close> is what a body must establish.
\<close>

definition undo_laws ::
    "('w \<Rightarrow> bool) \<Rightarrow> ('w \<Rightarrow> bool) \<Rightarrow> ('w \<Rightarrow> bool) \<Rightarrow> exn \<Rightarrow> ('w, unit) act \<Rightarrow> ('w, unit) act \<Rightarrow> bool" where
  "undo_laws armed intact undone err disarm put_back \<longleftrightarrow>
     (\<forall>h. intact h \<longrightarrow> intact (snd (disarm h)) \<and> (\<not> isl (fst (disarm h)) \<longrightarrow> \<not> armed (snd (disarm h)))
        \<and> fst (disarm h) \<noteq> Inl err)
     \<and> (\<forall>h. intact h \<longrightarrow> armed (snd (put_back h)) = armed h \<and> fst (put_back h) \<noteq> Inl err
        \<and> (if isl (fst (put_back h)) then intact (snd (put_back h)) else undone (snd (put_back h))))"

definition body_result ::
    "('w \<Rightarrow> bool) \<Rightarrow> ('w \<Rightarrow> bool) \<Rightarrow> ('w \<Rightarrow> bool) \<Rightarrow> exn \<Rightarrow> ('w \<Rightarrow> bool) \<Rightarrow> (exn + unit) \<times> 'w \<Rightarrow> bool" where
  "body_result armed intact undone err good = (\<lambda>(r, h). case r of
       Inr _ \<Rightarrow> good h
     | Inl e \<Rightarrow> if e = err then \<not> armed h \<and> undone h else intact h)"

lemma undo_lawsI:
  assumes laws: "deadman_laws armed sd" and own: "\<And>u h. fst (dm_disarm sd u h) \<noteq> Inl err"
    and files: "\<And>h h'. files h = files h' \<Longrightarrow> intact h \<longleftrightarrow> intact h'"
    and put_back: "\<And>h r h'. put_back h = (r, h') \<Longrightarrow> intact h \<Longrightarrow> armed h' = armed h \<and> r \<noteq> Inl err
      \<and> (if isl r then intact h' else undone h')"
  shows "undo_laws armed intact undone err (dm_disarm sd u) put_back"
proof -
  have d: "files (snd (dm_disarm sd u h)) = files h
      \<and> (\<not> isl (fst (dm_disarm sd u h)) \<longrightarrow> \<not> armed (snd (dm_disarm sd u h)))" for h
    using laws unfolding deadman_laws_def by blast
  show ?thesis
    unfolding undo_laws_def
  proof (intro conjI allI impI)
    fix h
    assume i: "intact h"
    show "intact (snd (dm_disarm sd u h))" using d i files by blast
    show "\<not> isl (fst (dm_disarm sd u h)) \<Longrightarrow> \<not> armed (snd (dm_disarm sd u h))" using d by blast
    show "fst (dm_disarm sd u h) \<noteq> Inl err" by (rule own)
    obtain r h' where "put_back h = (r, h')" by (cases "put_back h")
    with put_back [OF this i] show "armed (snd (put_back h)) = armed h" "fst (put_back h) \<noteq> Inl err"
      "if isl (fst (put_back h)) then intact (snd (put_back h)) else undone (snd (put_back h))"
      by simp_all
  qed
qed

lemma undo_laws_disarm:
  assumes "undo_laws armed intact undone err disarm put_back" "intact h" "disarm h = (r, h')"
  shows "intact h' \<and> (\<not> isl r \<longrightarrow> \<not> armed h') \<and> r \<noteq> Inl err"
proof -
  have "intact (snd (disarm h)) \<and> (\<not> isl (fst (disarm h)) \<longrightarrow> \<not> armed (snd (disarm h)))
      \<and> fst (disarm h) \<noteq> Inl err"
    using assms(1,2) unfolding undo_laws_def by blast
  then show ?thesis by (simp add: assms(3))
qed

lemma undo_laws_put_back:
  assumes "undo_laws armed intact undone err disarm put_back" "intact h" "put_back h = (r, h')"
  shows "armed h' = armed h \<and> r \<noteq> Inl err \<and> (if isl r then intact h' else undone h')"
proof -
  have "armed (snd (put_back h)) = armed h \<and> fst (put_back h) \<noteq> Inl err
      \<and> (if isl (fst (put_back h)) then intact (snd (put_back h)) else undone (snd (put_back h)))"
    using assms(1,2) unfolding undo_laws_def by blast
  then show ?thesis unfolding assms(3) fst_conv snd_conv .
qed

lemma undo_result:
  assumes laws: "undo_laws armed intact undone err disarm put_back" and "intact h"
    and run: "undo disarm put_back err h = (r, h')"
  shows "(\<exists>e. r = Inl e) \<and> (if r = Inl err then \<not> armed h' \<and> undone h' else intact h')"
proof (rule undo_cases [OF run])
  fix e
  assume "disarm h = (Inl e, h')" "r = Inl e"
  with undo_laws_disarm [OF laws \<open>intact h\<close>] show ?thesis by auto
next
  fix e h1 x
  assume d: "disarm h = (Inr x, h1)" and p: "put_back h1 = (Inl e, h')" and r: "r = Inl e"
  from undo_laws_disarm [OF laws \<open>intact h\<close> d] have "intact h1" by simp
  from undo_laws_put_back [OF laws this p] r show ?thesis by auto
next
  fix h1 x y
  assume d: "disarm h = (Inr x, h1)" and p: "put_back h1 = (Inr y, h')" and r: "r = Inl err"
  from undo_laws_disarm [OF laws \<open>intact h\<close> d] have "intact h1" "\<not> armed h1" by simp_all
  with undo_laws_put_back [OF laws _ p] r show ?thesis by auto
qed

lemma guarded_result:
  assumes laws: "undo_laws armed intact undone err disarm put_back"
    and body: "body_result armed intact undone err good (body h)"
    and run: "guarded err disarm put_back body h = (r, h')"
  shows "(r = Inr x \<longrightarrow> good h') \<and> (r = Inl err \<longrightarrow> \<not> armed h' \<and> undone h')"
proof (cases "body h")
  case (Pair r1 h1)
  show ?thesis
  proof (cases r1)
    case (Inr u)
    with Pair body run show ?thesis by (auto simp: guarded_def act_simps body_result_def)
  next
    case (Inl e)
    show ?thesis
    proof (cases "e = err")
      case True
      with Inl Pair body run show ?thesis by (auto simp: guarded_def act_simps body_result_def)
    next
      case False
      with Inl Pair body run have "intact h1" and u: "undo disarm put_back err h1 = (r, h')"
        by (auto simp: guarded_def act_simps body_result_def)
      from undo_result [OF laws this] show ?thesis by auto
    qed
  qed
qed

text \<open>A host whose state holds a timer, on which the installers' properties are applied.\<close>

record timed_host = host +
  timer_on :: bool

definition sample_timer :: "timed_host deadman" where
  "sample_timer = \<lparr>dm_arm = (\<lambda>_ _ _. act_modify (\<lambda>h. h\<lparr>timer_on := True\<rparr>)),
     dm_disarm = (\<lambda>_. act_modify (\<lambda>h. h\<lparr>timer_on := False\<rparr>))\<rparr>"

lemma sample_timer_laws: "deadman_laws timer_on sample_timer"
  by (simp add: deadman_laws_def sample_timer_def)

end
