(* ===== verification/Pam_Operator.thy ===== *)
theory Pam_Operator
  imports Deadman Reversible_Operation
begin

text \<open>
  Edits of \<open>pam.d\<close> files under a deadman timer (\<open>anima/kernel/pam_operator.py\<close>).
  \<open>systemd-run\<close>, \<open>systemctl\<close> and the ssh probe are a shell parameter; what is relied on of the timer
  is \<open>deadman_laws\<close>.
\<close>

subsection \<open>The timer\<close>

definition pam_deadman_systemd :: "'w shell \<Rightarrow> 'w deadman" where
  "pam_deadman_systemd sh = \<lparr>
     dm_arm = (\<lambda>timer_unit delay_s revert_cmd. act_then
       (run_check sh ([''systemd-run'', ''--on-active='' @ show_int delay_s, ''--unit='' @ timer_unit, ''--'']
          @ py_words revert_cmd)) (act_return ())),
     dm_disarm = (\<lambda>timer_unit. act_then
       (sh [''systemctl'', ''stop'', timer_unit @ ''.timer'']) (act_return ()))\<rparr>"

subsection \<open>The edit\<close>

definition PAM_DIR :: string where "PAM_DIR = ''/etc/pam.d''"
definition PAM_BACKUP_DIR :: string where "PAM_BACKUP_DIR = ''/root/.anima-pam-backups''"
definition PROBE_KEY_PATH :: string where "PROBE_KEY_PATH = ''/root/.anima-pam-backups/probe_key''"
definition PROBE_HOST :: string where "PROBE_HOST = ''root@127.0.0.1''"
definition PROBE_TIMEOUT_S :: int where "PROBE_TIMEOUT_S = 10"
definition PAM_DEADMAN_UNIT :: string where "PAM_DEADMAN_UNIT = ''anima-pam-revert''"
definition PAM_DEADMAN_DELAY_S :: int where "PAM_DEADMAN_DELAY_S = 300"

definition SELF_PROTECTED_PAM_FILES :: "string set" where
  "SELF_PROTECTED_PAM_FILES = {''sshd'', ''common-auth'', ''common-account'', ''common-password'',
     ''common-session'', ''common-session-noninteractive'', ''su'', ''sudo'', ''sudo-i'', ''login'',
     ''runuser'', ''runuser-l'', ''chfn'', ''chpasswd'', ''chsh'', ''passwd'', ''newusers'', ''other'',
     ''atd'', ''cron'', ''vmtoolsd''}"

record PamSnapshot =
  pam_file :: string
  was_absent :: bool
  pam_prior_content :: string
  snapshot_id :: string
  backup_path :: string

definition run_ssh_probe :: "'w shell \<Rightarrow> string \<Rightarrow> string \<Rightarrow> int \<Rightarrow> ('w, bool) act" where
  "run_ssh_probe sh probe_key hostname timeout_s = act_catch
     (act_bind (sh [''ssh'', ''-i'', probe_key, ''-o'', ''ControlMaster=no'', ''-o'', ''ControlPath=none'',
        ''-o'', ''BatchMode=yes'', ''-o'', ''StrictHostKeyChecking=no'', ''-o'',
        ''ConnectTimeout='' @ show_int timeout_s, hostname, ''true''])
      (\<lambda>result. act_return (returncode result = 0)))
     (\<lambda>e. if e = TimeoutExpired then act_return False else act_raise e)"

text \<open>The object's fields that the methods read; \<open>probe_fn\<close> is the injected probe or the ssh probe.\<close>

record 'w pam_edit =
  edit_file :: string
  edit_content :: string
  edit_probe :: "('w, bool) act"
  edit_pam_dir :: string
  edit_backup_dir :: string

definition PamFileEdit :: "string \<Rightarrow> string \<Rightarrow> ('w, bool) act \<Rightarrow> string \<Rightarrow> string \<Rightarrow> exn + 'w pam_edit" where
  "PamFileEdit f new_content probe pam_dir backup_dir =
     (if f \<in> SELF_PROTECTED_PAM_FILES then Inl PamRefusalError
      else Inr \<lparr>edit_file = f, edit_content = new_content, edit_probe = probe,
                edit_pam_dir = pam_dir, edit_backup_dir = backup_dir\<rparr>)"

definition pam_target :: "'w pam_edit \<Rightarrow> string" where
  "pam_target op = path_div (edit_pam_dir op) (edit_file op)"

text \<open>\<open>uuid4()\<close> gives the identifier \<open>sid\<close>.\<close>

definition pam_capture :: "('m host_scheme) pam_edit \<Rightarrow> string \<Rightarrow> ('m host_scheme, PamSnapshot) act" where
  "pam_capture op sid = act_bind (act_get (fs_exists (pam_target op))) (\<lambda>there.
     act_bind (if there then fs_read (pam_target op) else act_return []) (\<lambda>prior.
     let backup = path_div (edit_backup_dir op) sid in
     act_then (fs_write backup prior)
       (act_return \<lparr>pam_file = edit_file op, was_absent = \<not> there, pam_prior_content = prior,
          snapshot_id = sid, backup_path = backup\<rparr>)))"

definition pam_apply :: "('m host_scheme) pam_edit \<Rightarrow> ('m host_scheme, unit) act" where
  "pam_apply op = fs_write (pam_target op) (edit_content op)"

definition pam_restore :: "('m host_scheme) pam_edit \<Rightarrow> PamSnapshot \<Rightarrow> ('m host_scheme, unit) act" where
  "pam_restore op snap =
     (let target = path_div (edit_pam_dir op) (pam_file snap) in
      act_bind (fs_read (backup_path snap)) (\<lambda>prior.
        if was_absent snap then fs_unlink_missing_ok target else fs_write target prior))"

subsection \<open>The installer and its gate\<close>

definition pam_body :: "('m host_scheme) pam_edit \<Rightarrow> PamSnapshot \<Rightarrow> ('m host_scheme) deadman \<Rightarrow> ('m host_scheme, unit) act" where
  "pam_body op snap sd = act_then (pam_apply op)
     (act_bind (edit_probe op) (\<lambda>ok.
        if ok then act_return ()
        else undo (dm_disarm sd PAM_DEADMAN_UNIT) (pam_restore op snap) PamInstallError))"

definition install_pam_edit_with_deadman ::
    "('m host_scheme) deadman \<Rightarrow> ('m host_scheme, bool) act \<Rightarrow> string \<Rightarrow> string \<Rightarrow> string
     \<Rightarrow> string \<Rightarrow> string \<Rightarrow> int \<Rightarrow> ('m host_scheme, string) act" where
  "install_pam_edit_with_deadman sd probe pam_dir backup_dir sid f new_content revert_after_s =
     (case PamFileEdit f new_content probe pam_dir backup_dir of
        Inl e \<Rightarrow> act_raise e
      | Inr op \<Rightarrow>
          act_bind (pam_capture op sid) (\<lambda>snap.
          act_then (dm_arm sd PAM_DEADMAN_UNIT revert_after_s
             (''/usr/local/bin/anima-pam-restore '' @ snapshot_id snap @ '' '' @ f))
          (act_then (guarded PamInstallError (dm_disarm sd PAM_DEADMAN_UNIT) (pam_restore op snap)
             (pam_body op snap sd))
          (act_return (snapshot_id snap)))))"

definition commit_pam_edit :: "'w deadman \<Rightarrow> ('w, unit) act" where
  "commit_pam_edit sd = dm_disarm sd PAM_DEADMAN_UNIT"

definition execute_approved_pam_edit ::
    "('m host_scheme) deadman \<Rightarrow> ('m host_scheme, bool) act \<Rightarrow> string \<Rightarrow> string \<Rightarrow> string
     \<Rightarrow> string \<Rightarrow> string \<Rightarrow> string \<Rightarrow> int \<Rightarrow> (('m host_scheme) kernel_state, string) act" where
  "execute_approved_pam_edit sd probe pam_dir backup_dir sid user_id f new_content revert_after_s = (\<lambda>st.
     case get_managed_pam_target user_id f (db st) of
       None \<Rightarrow> (Inl OperatorError, st)
     | Some managed \<Rightarrow> on_world (install_pam_edit_with_deadman sd probe pam_dir backup_dir sid f new_content
         revert_after_s) st)"

subsection \<open>The state the snapshot stands for\<close>

definition snap_node :: "PamSnapshot \<Rightarrow> node option" where
  "snap_node s = (if was_absent s then None else Some (Regular (pam_prior_content s)))"

definition backup_intact :: "PamSnapshot \<Rightarrow> 'm host_scheme \<Rightarrow> bool" where
  "backup_intact s h \<longleftrightarrow> files h (fs_key (backup_path s)) = Some (Regular (pam_prior_content s))"

lemma pam_capture_Inr:
  assumes "pam_capture op sid h = (Inr s, h1)"
    and "fs_key (pam_target op) \<noteq> fs_key (path_div (edit_backup_dir op) sid)"
  shows "snap_node s = files h (fs_key (pam_target op))" "backup_intact s h1" "\<exists>f. h1 = h\<lparr>files := f\<rparr>"
    "files h1 (fs_key (pam_target op)) = files h (fs_key (pam_target op))"
    "backup_path s = path_div (edit_backup_dir op) sid" "pam_file s = edit_file op" "snapshot_id s = sid"
  using assms
  by (auto simp: pam_capture_def act_simps fs_read_def fs_write_def fs_exists_def snap_node_def
      backup_intact_def Let_def split: prod.splits sum.splits if_splits option.splits node.splits)

lemma pam_capture_frame:
  assumes "pam_capture op sid h = (r, h1)"
    and "fs_key (pam_target op) \<noteq> fs_key (path_div (edit_backup_dir op) sid)"
  shows "files h1 (fs_key (pam_target op)) = files h (fs_key (pam_target op)) \<and> r \<noteq> Inl PamInstallError"
  using assms
  by (auto simp: pam_capture_def act_simps fs_read_def fs_write_def fs_exists_def
      Let_def split: prod.splits sum.splits if_splits option.splits node.splits)

lemma pam_restore_Inr:
  assumes "pam_restore op s h = (Inr u, h')" "backup_intact s h" "pam_file s = edit_file op"
  shows "files h' (fs_key (pam_target op)) = snap_node s" "\<exists>f. h' = h\<lparr>files := f\<rparr>"
proof -
  have "\<exists>f. h = h\<lparr>files := f\<rparr>" by (rule exI [of _ "files h"]) simp
  then show "files h' (fs_key (pam_target op)) = snap_node s" "\<exists>f. h' = h\<lparr>files := f\<rparr>"
    using assms
    by (auto simp: pam_restore_def pam_target_def act_simps fs_read_def fs_write_def fs_unlink_missing_ok_eq
        backup_intact_def snap_node_def Let_def split: prod.splits sum.splits if_splits option.splits node.splits)
qed

lemma pam_restore_Inl: "pam_restore op s h = (Inl e, h') \<Longrightarrow> e \<noteq> PamInstallError"
  by (auto simp: pam_restore_def act_simps fs_read_def fs_write_def fs_unlink_missing_ok_eq Let_def
      split: prod.splits sum.splits if_splits option.splits node.splits)

lemma pam_restore_Inl_files: "pam_restore op s h = (Inl e, h') \<Longrightarrow> files h' = files h \<and> h' = h"
  by (auto simp: pam_restore_def act_simps fs_read_def fs_write_def fs_unlink_missing_ok_eq Let_def
      split: prod.splits sum.splits if_splits option.splits node.splits)

text \<open>Restoring fits the guarded installer: it keeps the backup until it has put the target back.\<close>

lemma pam_undo_laws:
  assumes "deadman_laws armed sd" "\<And>u h. fst (dm_disarm sd u h) \<noteq> Inl PamInstallError"
    "pam_file s = edit_file op"
  shows "undo_laws armed (backup_intact s) (\<lambda>h. files h (fs_key (pam_target op)) = snap_node s) PamInstallError
    (dm_disarm sd PAM_DEADMAN_UNIT) (pam_restore op s)"
proof (rule undo_lawsI [OF assms(1,2)])
  fix h f :: "_ host_scheme"
  show "files h = files f \<Longrightarrow> backup_intact s h \<longleftrightarrow> backup_intact s f" by (simp add: backup_intact_def)
next
  fix h r h'
  assume run: "pam_restore op s h = (r, h')" and b: "backup_intact s h"
  show "armed h' = armed h \<and> r \<noteq> Inl PamInstallError
    \<and> (if isl r then backup_intact s h' else files h' (fs_key (pam_target op)) = snap_node s)"
  proof (cases r)
    case (Inl e)
    from pam_restore_Inl [OF run [unfolded Inl]] pam_restore_Inl_files [OF run [unfolded Inl]] b Inl
    show ?thesis by simp
  next
    case (Inr u)
    from pam_restore_Inr [OF run [unfolded Inr] b assms(3)] deadman_files [OF assms(1)] Inr
    show ?thesis by auto
  qed
qed

text \<open>A probe that only logs in: files and timer stay, and it does not raise the installer's error.\<close>

definition probe_laws :: "('m host_scheme \<Rightarrow> bool) \<Rightarrow> ('m host_scheme, bool) act \<Rightarrow> bool" where
  "probe_laws armed probe \<longleftrightarrow> (\<forall>h. files (snd (probe h)) = files h
     \<and> (armed h \<longrightarrow> armed (snd (probe h))) \<and> fst (probe h) \<noteq> Inl PamInstallError)"

lemma probe_lawsD:
  assumes "probe_laws armed probe" "probe h = (r, h')"
  shows "files h' = files h" "armed h \<Longrightarrow> armed h'" "r \<noteq> Inl PamInstallError"
proof -
  have "files (snd (probe h)) = files h \<and> (armed h \<longrightarrow> armed (snd (probe h))) \<and> fst (probe h) \<noteq> Inl PamInstallError"
    using assms(1) unfolding probe_laws_def by blast
  then show "files h' = files h" "armed h \<Longrightarrow> armed h'" "r \<noteq> Inl PamInstallError" using assms(2) by simp_all
qed

lemma pam_guarded_cases:
  assumes laws: "deadman_laws armed sd" and probe: "probe_laws armed (edit_probe op)"
    and own: "\<And>u h. fst (dm_disarm sd u h) \<noteq> Inl PamInstallError"
    and snap: "backup_intact s h" "pam_file s = edit_file op" "armed h"
    and distinct: "fs_key (pam_target op) \<noteq> fs_key (backup_path s)"
    and run: "guarded PamInstallError (dm_disarm sd PAM_DEADMAN_UNIT) (pam_restore op s) (pam_body op s sd) h = (r, h')"
  shows "r = Inr x \<Longrightarrow> armed h' \<and> files h' (fs_key (pam_target op)) = Some (Regular (edit_content op))"
    and "r = Inl PamInstallError \<Longrightarrow> \<not> armed h' \<and> files h' (fs_key (pam_target op)) = snap_node s"
proof -
  let ?undo = "undo (dm_disarm sd PAM_DEADMAN_UNIT) (pam_restore op s) PamInstallError :: (_, unit) act"
  note ul = pam_undo_laws [OF laws own snap(2)]
  obtain r1 h1 where one: "pam_apply op h = (r1, h1)" by (cases "pam_apply op h")
  have h1: "backup_intact s h1" "armed h1" "r1 \<noteq> Inl PamInstallError"
    "r1 = Inr () \<Longrightarrow> files h1 (fs_key (pam_target op)) = Some (Regular (edit_content op))"
    using one snap distinct deadman_files [OF laws]
    by (auto simp: pam_apply_def fs_write_def backup_intact_def split: if_splits)
  obtain r2 h2 where two: "edit_probe op h1 = (r2, h2)" by (cases "edit_probe op h1")
  have h2: "backup_intact s h2" "armed h2" "files h2 = files h1" "r2 \<noteq> Inl PamInstallError"
    using probe_lawsD [OF probe two] h1 by (simp_all add: backup_intact_def)
  obtain r3 h3 where three: "?undo h2 = (r3, h3)" by (cases "?undo h2")
  have "pam_body op s sd h = (case r1 of Inl e \<Rightarrow> (Inl e, h1) | Inr _ \<Rightarrow>
      (case r2 of Inl e \<Rightarrow> (Inl e, h2) | Inr ok \<Rightarrow> if ok then (Inr (), h2) else (r3, h3)))"
    using one two three by (auto simp: pam_body_def act_simps split: sum.splits)
  then have "body_result armed (backup_intact s) (\<lambda>h. files h (fs_key (pam_target op)) = snap_node s)
      PamInstallError (\<lambda>h. armed h \<and> files h (fs_key (pam_target op)) = Some (Regular (edit_content op)))
      (pam_body op s sd h)"
    using undo_result [OF ul h2(1) three] h1 h2 by (auto simp: body_result_def split: sum.splits if_splits)
  from guarded_result [OF ul this run]
  show "r = Inr x \<Longrightarrow> armed h' \<and> files h' (fs_key (pam_target op)) = Some (Regular (edit_content op))"
    and "r = Inl PamInstallError \<Longrightarrow> \<not> armed h' \<and> files h' (fs_key (pam_target op)) = snap_node s"
    by simp_all
qed

subsection \<open>Properties\<close>


definition sample_pam_host :: timed_host where
  "sample_pam_host = \<lparr>files = [''/etc/pam.d'' \<mapsto> Directory, ''/root/.anima-pam-backups'' \<mapsto> Directory,
     ''/etc/pam.d/vsftpd'' \<mapsto> Regular ''old''], io_fault = (\<lambda>_. False), timer_on = False\<rparr>"


text \<open>The PAM entry point refuses before any effect: a target that is not on the owner's list, and
  every file of the lockout-safety floor, listed or not. No backup is written and no timer armed.\<close>

theorem pam_floor_refusal:
  assumes "get_managed_pam_target u f (db st) = None \<or> f \<in> SELF_PROTECTED_PAM_FILES"
  shows "snd (execute_approved_pam_edit sd prb pam_dir backup_dir sid u f c delay st) = st
    \<and> fst (execute_approved_pam_edit sd prb pam_dir backup_dir sid u f c delay st) =
       Inl (if get_managed_pam_target u f (db st) = None then OperatorError else PamRefusalError)"
  using assms
  by (auto simp: execute_approved_pam_edit_def install_pam_edit_with_deadman_def PamFileEdit_def
      on_world_def split: option.splits)

theorem pam_floor_refusal_witness:
  "fst (execute_approved_pam_edit sample_timer (act_return True) PAM_DIR PAM_BACKUP_DIR ''id1'' ''u'' ''sshd''
     ''new'' 300 \<lparr>db = empty_db\<lparr>managed_pam_targets := [((''u'', ''sshd''), 0)]\<rparr>, world = sample_pam_host\<rparr>) =
   Inl PamRefusalError"
proof -
  let ?st = "\<lparr>db = empty_db\<lparr>managed_pam_targets := [((''u'', ''sshd''), 0)]\<rparr>, world = sample_pam_host\<rparr>"
  have l: "get_managed_pam_target ''u'' ''sshd'' (db ?st) \<noteq> None" by code_simp
  have "get_managed_pam_target ''u'' ''sshd'' (db ?st) = None \<or> ''sshd'' \<in> SELF_PROTECTED_PAM_FILES"
    by (simp add: SELF_PROTECTED_PAM_FILES_def)
  from pam_floor_refusal [OF this] l show ?thesis by simp
qed

text \<open>The PAM floor compares names, not files: the name \<open>./sshd\<close> is not in it, so an edit the owner
  approved under that name replaces \<open>/etc/pam.d/sshd\<close>, the file the floor exists for.\<close>

theorem pam_floor_path_bypass:
  "let h = sample_pam_host\<lparr>files := (files sample_pam_host)(''/etc/pam.d/sshd'' \<mapsto> Regular ''auth'')\<rparr>;
       st = \<lparr>db = empty_db\<lparr>managed_pam_targets := [((''u'', ''./sshd''), 0)]\<rparr>, world = h\<rparr>;
       out = execute_approved_pam_edit sample_timer (act_return True) PAM_DIR PAM_BACKUP_DIR ''id1'' ''u''
         ''./sshd'' ''evil'' 300 st
   in fst out = Inr ''id1'' \<and> files (world (snd out)) ''/etc/pam.d/sshd'' = Some (Regular ''evil'')"
  by code_simp

text \<open>Disarming comes before restoring, so if the restore fails (here the disk fails while the probe
  runs), the error is not \<open>PamInstallError\<close>, the rejected file stays in place and the timer that would
  have reverted it is already off.\<close>

theorem pam_disarm_before_restore:
  "let prb = act_then (act_modify (\<lambda>h. h\<lparr>io_fault := (\<lambda>p. p = ''/etc/pam.d/vsftpd'')\<rparr>)) (act_return False);
       out = install_pam_edit_with_deadman sample_timer prb PAM_DIR PAM_BACKUP_DIR ''id1''
         ''vsftpd'' ''broken'' 300 sample_pam_host
   in fst out = Inl PyOSError \<and> \<not> timer_on (snd out)
      \<and> files (snd out) ''/etc/pam.d/vsftpd'' = Some (Regular ''broken'')"
  by code_simp

end
