(* ===== verification/Py_Json.thy ===== *)
theory Py_Json
  imports Anima_Prelude
begin

text \<open>
  \<open>json.dumps\<close> and \<open>json.loads\<close>: \<open>None\<close>, booleans, integers, strings, lists and objects, with the
  default \<open>ensure_ascii\<close> and the two separators as arguments; \<open>sort_keys\<close> is a sort of the members by
  key. A number with a fraction or an exponent is kept as its text. An escape of a code point from 256
  on has no character here and is refused.
\<close>

datatype json = JNull | JBool bool | JInt int | JFloat string | JStr string | JList "json list"
  | JObj "(string \<times> json) list"

definition hex4 :: "nat \<Rightarrow> string" where
  "hex4 n = [hex_digit (n div 4096 mod 16), hex_digit (n div 256 mod 16), hex_digit (n div 16 mod 16),
     hex_digit (n mod 16)]"

definition json_char :: "char \<Rightarrow> string" where
  "json_char c = (let n = (of_char c :: nat); bs = CHR 0x5C in
     if c = CHR 0x22 \<or> c = CHR 0x5C then [bs, c]
     else if c = CHR 0x0A then [bs, CHR ''n''] else if c = CHR 0x0D then [bs, CHR ''r'']
     else if c = CHR 0x09 then [bs, CHR ''t''] else if c = CHR 0x08 then [bs, CHR ''b'']
     else if c = CHR 0x0C then [bs, CHR ''f'']
     else if n < 32 \<or> 126 < n then [bs, CHR ''u''] @ hex4 n
     else [c])"

definition json_string :: "string \<Rightarrow> string" where
  "json_string s = [CHR 0x22] @ concat (map json_char s) @ [CHR 0x22]"

fun dumps :: "string \<Rightarrow> string \<Rightarrow> json \<Rightarrow> string" where
  "dumps isep ksep JNull = ''null''"
| "dumps isep ksep (JBool b) = (if b then ''true'' else ''false'')"
| "dumps isep ksep (JInt i) = show_int i"
| "dumps isep ksep (JFloat t) = t"
| "dumps isep ksep (JStr s) = json_string s"
| "dumps isep ksep (JList xs) = ''['' @ py_join isep (map (dumps isep ksep) xs) @ '']''"
| "dumps isep ksep (JObj kvs) =
     [CHR 0x7B] @ py_join isep (map (\<lambda>(k, v). json_string k @ ksep @ dumps isep ksep v) kvs) @ [CHR 0x7D]"

text \<open>The default separators of \<open>json.dumps\<close>.\<close>

definition json_line :: "json \<Rightarrow> string" where
  "json_line j = dumps '', '' '': '' j @ [CHR 0x0A]"

text \<open>\<open>json.dumps(..., indent=2)\<close>, \<open>n\<close> being the current level.\<close>

definition indent :: "nat \<Rightarrow> string" where
  "indent n = CHR 0x0A # replicate (2 * n) (CHR '' '')"

fun dumps_indent :: "nat \<Rightarrow> json \<Rightarrow> string" where
  "dumps_indent n (JList xs) = (if xs = [] then ''[]'' else
     ''['' @ indent (Suc n) @ py_join ('','' @ indent (Suc n)) (map (dumps_indent (Suc n)) xs)
     @ indent n @ '']'')"
| "dumps_indent n (JObj kvs) = (if kvs = [] then [CHR 0x7B, CHR 0x7D] else
     [CHR 0x7B] @ indent (Suc n) @ py_join ('','' @ indent (Suc n))
       (map (\<lambda>(k, v). json_string k @ '': '' @ dumps_indent (Suc n) v) kvs)
     @ indent n @ [CHR 0x7D])"
| "dumps_indent n j = dumps '', '' '': '' j"

subsection \<open>Parsing\<close>

definition json_ws :: "char \<Rightarrow> bool" where
  "json_ws c \<longleftrightarrow> c \<in> {CHR '' '', CHR 0x09, CHR 0x0A, CHR 0x0D}"

definition skip_ws :: "string \<Rightarrow> string" where
  "skip_ws = dropWhile json_ws"

definition hex_value :: "char \<Rightarrow> nat option" where
  "hex_value c = (let n = (of_char c :: nat) in
     if 48 \<le> n \<and> n \<le> 57 then Some (n - 48) else if 97 \<le> n \<and> n \<le> 102 then Some (n - 87)
     else if 65 \<le> n \<and> n \<le> 70 then Some (n - 55) else None)"

definition hex4_value :: "char \<Rightarrow> char \<Rightarrow> char \<Rightarrow> char \<Rightarrow> char option" where
  "hex4_value a b c d = (case (hex_value a, hex_value b, hex_value c, hex_value d) of
       (Some a, Some b, Some c, Some d) \<Rightarrow>
         (let v = ((a * 16 + b) * 16 + c) * 16 + d in if v < 256 then Some (char_of v) else None)
     | _ \<Rightarrow> None)"

definition simple_escape :: "char \<Rightarrow> char option" where
  "simple_escape e = (if e \<in> {CHR 0x22, CHR 0x5C, CHR ''/''} then Some e
     else if e = CHR ''b'' then Some (CHR 0x08) else if e = CHR ''f'' then Some (CHR 0x0C)
     else if e = CHR ''n'' then Some (CHR 0x0A) else if e = CHR ''r'' then Some (CHR 0x0D)
     else if e = CHR ''t'' then Some (CHR 0x09) else None)"

definition cons_fst :: "'a \<Rightarrow> ('a list \<times> 'b) option \<Rightarrow> ('a list \<times> 'b) option" where
  "cons_fst x r = map_option (\<lambda>(xs, y). (x # xs, y)) r"

text \<open>The rest of a string literal after its opening quote.\<close>

fun parse_str :: "string \<Rightarrow> (string \<times> string) option" where
  "parse_str [] = None"
| "parse_str (c # cs) =
     (if c = CHR 0x22 then Some ([], cs)
      else if c = CHR 0x5C then
        (case cs of [] \<Rightarrow> None
         | e # es \<Rightarrow>
             if e = CHR ''u'' then
               (case es of h1 # h2 # h3 # h4 # rest \<Rightarrow>
                    (case hex4_value h1 h2 h3 h4 of None \<Rightarrow> None | Some x \<Rightarrow> cons_fst x (parse_str rest))
                | _ \<Rightarrow> None)
             else (case simple_escape e of None \<Rightarrow> None | Some x \<Rightarrow> cons_fst x (parse_str es)))
      else if (of_char c :: nat) < 32 then None
      else cons_fst c (parse_str cs))"

definition is_digit :: "char \<Rightarrow> bool" where
  "is_digit c \<longleftrightarrow> 48 \<le> (of_char c :: nat) \<and> (of_char c :: nat) \<le> 57"

definition digits_value :: "string \<Rightarrow> nat" where
  "digits_value = foldl (\<lambda>n c. n * 10 + (of_char c - 48)) 0"

text \<open>\<open>-?(0|[1-9][0-9]*)(\.[0-9]+)?([eE][-+]?[0-9]+)?\<close>\<close>

definition parse_frac :: "string \<Rightarrow> string \<times> string" where
  "parse_frac s = (case s of c # cs \<Rightarrow>
       (let d = takeWhile is_digit cs in
        if c = CHR ''.'' \<and> d \<noteq> [] then (c # d, dropWhile is_digit cs) else ([], s))
     | [] \<Rightarrow> ([], s))"

definition parse_exp :: "string \<Rightarrow> string \<times> string" where
  "parse_exp s = (case s of c # cs \<Rightarrow>
       (let sg = (case cs of x # xs \<Rightarrow> if x \<in> {CHR ''+'', CHR ''-''} then ([x], xs) else ([], cs) | [] \<Rightarrow> ([], []));
            d = takeWhile is_digit (snd sg) in
        if c \<in> {CHR ''e'', CHR ''E''} \<and> d \<noteq> [] then (c # fst sg @ d, dropWhile is_digit (snd sg)) else ([], s))
     | [] \<Rightarrow> ([], s))"

definition parse_unsigned :: "bool \<Rightarrow> string \<Rightarrow> (json \<times> string) option" where
  "parse_unsigned neg u =
     (let ds = (if u \<noteq> [] \<and> hd u = CHR ''0'' then ''0'' else takeWhile is_digit u) in
      if ds = [] then None
      else let r0 = drop (length ds) u; (fr, r1) = parse_frac r0; (ex, r2) = parse_exp r1 in
        if fr = [] \<and> ex = []
        then Some (JInt (if neg then - int (digits_value ds) else int (digits_value ds)), r0)
        else Some (JFloat ((if neg then ''-'' else []) @ ds @ fr @ ex), r2))"

definition parse_number :: "string \<Rightarrow> (json \<times> string) option" where
  "parse_number s = (if s \<noteq> [] \<and> hd s = CHR ''-'' then parse_unsigned True (tl s) else parse_unsigned False s)"

text \<open>Values, elements and members; \<open>n\<close> bounds the nesting and the number of items, and the length of
  the text is always enough.\<close>

fun parse_value :: "nat \<Rightarrow> string \<Rightarrow> (json \<times> string) option"
  and parse_items :: "nat \<Rightarrow> string \<Rightarrow> (json list \<times> string) option"
  and parse_members :: "nat \<Rightarrow> string \<Rightarrow> ((string \<times> json) list \<times> string) option" where
  "parse_value 0 s = None"
| "parse_value (Suc n) s =
     (case s of [] \<Rightarrow> None
      | c # cs \<Rightarrow>
          if c = CHR 0x22 then map_option (\<lambda>(t, r). (JStr t, r)) (parse_str cs)
          else if c = CHR 0x7B then
            (let t = skip_ws cs in
             if t \<noteq> [] \<and> hd t = CHR 0x7D then Some (JObj [], tl t)
             else map_option (\<lambda>(kvs, r). (JObj kvs, r)) (parse_members n t))
          else if c = CHR ''['' then
            (let t = skip_ws cs in
             if t \<noteq> [] \<and> hd t = CHR '']'' then Some (JList [], tl t)
             else map_option (\<lambda>(xs, r). (JList xs, r)) (parse_items n t))
          else if startswith s ''null'' then Some (JNull, drop 4 s)
          else if startswith s ''true'' then Some (JBool True, drop 4 s)
          else if startswith s ''false'' then Some (JBool False, drop 5 s)
          else parse_number s)"
| "parse_items 0 s = None"
| "parse_items (Suc n) s =
     (case parse_value n s of None \<Rightarrow> None
      | Some (x, r) \<Rightarrow>
          (case skip_ws r of [] \<Rightarrow> None
           | c # cs \<Rightarrow>
               if c = CHR '']'' then Some ([x], cs)
               else if c = CHR '','' then cons_fst x (parse_items n (skip_ws cs))
               else None))"
| "parse_members 0 s = None"
| "parse_members (Suc n) s =
     (case s of [] \<Rightarrow> None
      | q # qs \<Rightarrow> if q \<noteq> CHR 0x22 then None else
          (case parse_str qs of None \<Rightarrow> None
           | Some (k, r) \<Rightarrow>
               (case skip_ws r of [] \<Rightarrow> None
                | c # cs \<Rightarrow> if c \<noteq> CHR '':'' then None else
                    (case parse_value n (skip_ws cs) of None \<Rightarrow> None
                     | Some (v, r2) \<Rightarrow>
                         (case skip_ws r2 of [] \<Rightarrow> None
                          | d # ds \<Rightarrow>
                              if d = CHR 0x7D then Some ([(k, v)], ds)
                              else if d = CHR '','' then cons_fst (k, v) (parse_members n (skip_ws ds))
                              else None)))))"

definition loads :: "string \<Rightarrow> json option" where
  "loads s = (case parse_value (Suc (length s)) (skip_ws s) of
       Some (j, r) \<Rightarrow> if skip_ws r = [] then Some j else None | None \<Rightarrow> None)"

text \<open>Lookup in an object: of equal keys the last one counts.\<close>

definition obj_get :: "string \<Rightarrow> (string \<times> json) list \<Rightarrow> json option" where
  "obj_get k kvs = map_of (rev kvs) k"

text \<open>A number as Python adds and compares it; booleans are numbers. A float is not modelled here: it is
  treated like the values that are no numbers.\<close>

fun py_int :: "json \<Rightarrow> int option" where
  "py_int (JInt i) = Some i"
| "py_int (JBool b) = Some (of_bool b)"
| "py_int j = None"

subsection \<open>Parsing what was printed\<close>

lemma char_of_consts: "char_of (92::nat) = CHR 0x5C" "char_of (48::nat) = CHR ''0''"
  "char_of (49::nat) = CHR ''1''" "char_of (50::nat) = CHR ''2''" "char_of (51::nat) = CHR ''3''"
  "char_of (52::nat) = CHR ''4''" "char_of (53::nat) = CHR ''5''" "char_of (54::nat) = CHR ''6''"
  "char_of (55::nat) = CHR ''7''" "char_of (56::nat) = CHR ''8''" "char_of (57::nat) = CHR ''9''"
  by (simp_all add: char_of_eq_iff)

lemma hex_value_digit: "k < 16 \<Longrightarrow> hex_value (hex_digit k) = Some k"
proof -
  assume "k < 16"
  then have "k \<in> {0, 1, 2, 3, 4, 5, 6, 7, 8, 9, 10, 11, 12, 13, 14, 15}" unfolding insert_iff empty_iff by presburger
  then show ?thesis by (auto simp: hex_value_def hex_digit_def Let_def)
qed

lemma hex4_roundtrip: "hex4_value (hex_digit (n div 4096 mod 16)) (hex_digit (n div 256 mod 16))
    (hex_digit (n div 16 mod 16)) (hex_digit (n mod 16)) = Some (char_of n)" if "n < 256"
proof -
  have "n div 4096 mod 16 = 0" "n div 256 mod 16 = 0" "n div 16 mod 16 = n div 16" using that by auto
  moreover have "n div 16 * 16 + n mod 16 = n" by simp
  ultimately show ?thesis using that by (simp add: hex4_value_def hex_value_digit)
qed

lemma parse_str_char: "parse_str (json_char c @ t) = cons_fst c (parse_str t)"
proof -
  let ?n = "of_char c :: nat"
  have lt: "?n < 256" by simp
  consider "c = CHR 0x22" | "c = CHR 0x5C" | "c = CHR 0x0A" | "c = CHR 0x0D" | "c = CHR 0x09" | "c = CHR 0x08"
    | "c = CHR 0x0C"
    | "c \<notin> {CHR 0x22, CHR 0x5C, CHR 0x0A, CHR 0x0D, CHR 0x09, CHR 0x08, CHR 0x0C}" "?n < 32 \<or> 126 < ?n"
    | "c \<notin> {CHR 0x22, CHR 0x5C, CHR 0x0A, CHR 0x0D, CHR 0x09, CHR 0x08, CHR 0x0C}" "\<not> ?n < 32" "\<not> 126 < ?n"
    by blast
  then show ?thesis
  proof cases
    case 8
    have "json_char c = [CHR 0x5C, CHR ''u'', hex_digit (?n div 4096 mod 16), hex_digit (?n div 256 mod 16),
        hex_digit (?n div 16 mod 16), hex_digit (?n mod 16)]"
      using 8 by (simp add: json_char_def Let_def hex4_def)
    then show ?thesis using hex4_roundtrip [OF lt] by simp
  next
    case 9
    then have "json_char c = [c]" by (simp add: json_char_def Let_def)
    with 9 show ?thesis by simp
  qed (simp_all add: json_char_def simple_escape_def Let_def)
qed

lemma parse_json_string: "parse_str (concat (map json_char s) @ CHR 0x22 # r) = Some (s, r)"
proof (induction s)
  case (Cons c s)
  then show ?case by (simp add: parse_str_char cons_fst_def)
qed simp

text \<open>A delimiter ends a number.\<close>

definition delimited :: "string \<Rightarrow> bool" where
  "delimited r \<longleftrightarrow> r = [] \<or> hd r \<in> {CHR '','', CHR '']'', CHR 0x7D} \<or> json_ws (hd r)"

lemma digits_value_append: "digits_value (xs @ [c]) = digits_value xs * 10 + (of_char c - 48)"
  by (simp add: digits_value_def)

lemma show_nat_digits: "show_nat n \<noteq> [] \<and> (\<forall>c \<in> set (show_nat n). is_digit c) \<and> digits_value (show_nat n) = n
    \<and> (hd (show_nat n) = CHR ''0'' \<longleftrightarrow> n = 0)"
proof (induction n rule: less_induct)
  case (less n)
  show ?case
  proof (cases "n < 10")
    case True
    then have "n \<in> {0, 1, 2, 3, 4, 5, 6, 7, 8, 9}" by auto
    then show ?thesis by (auto simp: show_nat.simps [of n] is_digit_def digits_value_def char_of_consts)
  next
    case False
    then have IH: "show_nat (n div 10) \<noteq> []" "\<forall>c \<in> set (show_nat (n div 10)). is_digit c"
      "digits_value (show_nat (n div 10)) = n div 10" "hd (show_nat (n div 10)) \<noteq> CHR ''0''"
      using less [of "n div 10"] by auto
    have "n mod 10 \<in> {0, 1, 2, 3, 4, 5, 6, 7, 8, 9}" unfolding insert_iff empty_iff by presburger
    then have d: "is_digit (char_of (48 + n mod 10))" "of_char (char_of (48 + n mod 10) :: char) - 48 = n mod 10"
      by (auto simp: is_digit_def)
    have "show_nat n = show_nat (n div 10) @ [char_of (48 + n mod 10)]"
      using False by (subst show_nat.simps) simp
    with IH d False show ?thesis by (auto simp: digits_value_append)
  qed
qed

lemma not_digit_minus: "is_digit c \<Longrightarrow> c \<noteq> CHR ''-''"
  by (auto simp: is_digit_def)

lemma parse_nat_tail:
  assumes "delimited r"
  shows "parse_unsigned neg (show_nat n @ r) = Some (JInt (if neg then - int n else int n), r)"
proof -
  note s = show_nat_digits [of n]
  obtain c cs where c: "show_nat n = c # cs" using s by (cases "show_nat n") auto
  have r: "takeWhile is_digit r = []" "parse_frac r = ([], r)" "parse_exp r = ([], r)"
    using assms by (cases r; auto simp: delimited_def json_ws_def is_digit_def parse_frac_def parse_exp_def Let_def)+
  have tw: "takeWhile is_digit (show_nat n @ r) = show_nat n"
    using s r(1) by (simp add: takeWhile_append2)
  have ds: "(if show_nat n @ r \<noteq> [] \<and> hd (show_nat n @ r) = CHR ''0'' then ''0'' else takeWhile is_digit (show_nat n @ r)) = show_nat n"
  proof (cases "n = 0")
    case True
    then show ?thesis by (simp add: show_nat.simps char_of_consts)
  next
    case False
    with s c tw show ?thesis by auto
  qed
  show ?thesis
    using s r unfolding parse_unsigned_def Let_def ds by simp
qed

lemma parse_int: "delimited r \<Longrightarrow> parse_number (show_int i @ r) = Some (JInt i, r)"
proof -
  assume r: "delimited r"
  obtain c cs where c: "show_nat (nat i) = c # cs" "c \<noteq> CHR ''-''"
    using show_nat_digits [of "nat i"] not_digit_minus by (cases "show_nat (nat i)") auto
  show ?thesis
    using parse_nat_tail [OF r, of True "nat (- i)"] parse_nat_tail [OF r, of False "nat i"] c
    by (auto simp: show_int_def parse_number_def)
qed

text \<open>The round trip, for values without a float text, and separators that are a comma or a colon
  followed by blanks.\<close>

fun float_free :: "json \<Rightarrow> bool" where
  "float_free (JFloat t) = False"
| "float_free (JList xs) = list_all float_free xs"
| "float_free (JObj kvs) = list_all (\<lambda>(k, v). float_free v) kvs"
| "float_free j = True"

definition blanks :: "string \<Rightarrow> bool" where
  "blanks w \<longleftrightarrow> list_all json_ws w"

lemma skip_blanks: "blanks w \<Longrightarrow> skip_ws (w @ s) = skip_ws s"
  by (simp add: blanks_def skip_ws_def list_all_iff dropWhile_append2)

lemma skip_none: "s \<noteq> [] \<Longrightarrow> \<not> json_ws (hd s) \<Longrightarrow> skip_ws s = s"
  by (cases s) (simp_all add: skip_ws_def)

lemma show_int_start: "\<exists>c cs. show_int i = c # cs \<and> (c = CHR ''-'' \<or> is_digit c)"
  using show_nat_digits [of "nat i"] by (cases "show_nat (nat i)") (auto simp: show_int_def)

lemma digit_not_special: "is_digit c \<Longrightarrow> \<not> json_ws c \<and> c \<notin> {CHR '']'', CHR 0x7D}"
  by (auto simp: is_digit_def json_ws_def)

text \<open>The first character of a printed value tells the parser the kind of value.\<close>

lemma dumps_start: "float_free j \<Longrightarrow> dumps isep ksep j \<noteq> [] \<and> \<not> json_ws (hd (dumps isep ksep j))
    \<and> hd (dumps isep ksep j) \<notin> {CHR '']'', CHR 0x7D}"
proof (cases j)
  case (JInt i)
  obtain c cs where "show_int i = c # cs" "c = CHR ''-'' \<or> is_digit c" using show_int_start by blast
  then show ?thesis using digit_not_special JInt by (auto simp: json_ws_def)
qed (simp_all add: json_string_def json_ws_def)

lemma parse_value_int:
  assumes "delimited r" "n > 0"
  shows "parse_value n (show_int i @ r) = Some (JInt i, r)"
proof -
  obtain m where n: "n = Suc m" using assms(2) by (cases n) auto
  obtain c cs where c: "show_int i = c # cs" "c = CHR ''-'' \<or> is_digit c" using show_int_start by blast
  then have "c \<notin> {CHR 0x22, CHR 0x7B, CHR ''['', CHR ''n'', CHR ''t'', CHR ''f''}" by (auto simp: is_digit_def)
  with c n parse_int [OF assms(1), of i] show ?thesis by simp
qed

text \<open>\<open>parses f x\<close>: the text \<open>f x\<close> is read back as \<open>x\<close> wherever it stands.\<close>

definition parses :: "('a \<Rightarrow> string) \<Rightarrow> (nat \<Rightarrow> string \<Rightarrow> ('a \<times> string) option) \<Rightarrow> 'a \<Rightarrow> bool" where
  "parses f p x \<longleftrightarrow> (\<forall>n r. delimited r \<longrightarrow> length (f x) < n \<longrightarrow> p n (f x @ r) = Some (x, r))
     \<and> f x \<noteq> [] \<and> \<not> json_ws (hd (f x))"

lemma parsesD: "parses f p x \<Longrightarrow> delimited r \<Longrightarrow> length (f x) < n \<Longrightarrow> p n (f x @ r) = Some (x, r)"
  by (simp add: parses_def)

lemma skip_parses: "parses f p x \<Longrightarrow> skip_ws (f x @ s) = f x @ s"
  by (rule skip_none) (auto simp: parses_def)

lemma delimited_close: "blanks w \<Longrightarrow> c \<in> {CHR '','', CHR '']'', CHR 0x7D} \<Longrightarrow> delimited (w @ c # r)"
  by (cases w) (auto simp: delimited_def blanks_def)

lemma skip_close: "blanks w \<Longrightarrow> c \<in> {CHR '','', CHR '']'', CHR 0x7D, CHR '':''} \<Longrightarrow> skip_ws (w @ c # r) = c # r"
  by (subst skip_blanks) (auto simp: skip_ws_def json_ws_def)

lemma parse_items_join:
  assumes "\<And>x. x \<in> set xs \<Longrightarrow> parses f parse_value x" "xs \<noteq> []" "blanks w" "blanks w'"
    and "length (py_join (CHR '','' # w) (map f xs)) + 1 < n"
  shows "parse_items n (py_join (CHR '','' # w) (map f xs) @ w' @ CHR '']'' # r) = Some (xs, r)"
  using assms
proof (induction xs arbitrary: n)
  case Nil
  then show ?case by simp
next
  case (Cons x xs)
  obtain m where n: "n = Suc m" using Cons.prems(5) by (cases n) auto
  have x: "parses f parse_value x" using Cons.prems(1) by simp
  show ?case
  proof (cases "xs = []")
    case True
    have "parse_value m (f x @ w' @ CHR '']'' # r) = Some (x, w' @ CHR '']'' # r)"
      by (rule parsesD [OF x]) (use Cons.prems True n in \<open>auto intro: delimited_close\<close>)
    then show ?thesis using True n Cons.prems(4) by (simp add: skip_close)
  next
    case False
    let ?rest = "py_join (CHR '','' # w) (map f xs) @ w' @ CHR '']'' # r"
    have len: "length (f x) + length (py_join (CHR '','' # w) (map f xs)) + 2 \<le> m"
      using Cons.prems(5) n False by (simp add: py_join_Cons)
    have joined: "py_join (CHR '','' # w) (map f (x # xs)) @ w' @ CHR '']'' # r = f x @ CHR '','' # w @ ?rest"
      using False by (simp add: py_join_Cons)
    obtain y ys where ys: "xs = y # ys" using False by (cases xs) auto
    have "skip_ws ?rest = ?rest"
      using skip_parses [of f parse_value y] Cons.prems(1) by (simp add: ys py_join_Cons)
    then have skip: "skip_ws (w @ ?rest) = ?rest" using Cons.prems(3) by (simp add: skip_blanks)
    have "parse_value m (f x @ CHR '','' # w @ ?rest) = Some (x, CHR '','' # w @ ?rest)"
      by (rule parsesD [OF x]) (use len in \<open>auto simp: delimited_def\<close>)
    moreover have "parse_items m ?rest = Some (xs, r)"
      by (rule Cons.IH) (use Cons.prems False len in auto)
    moreover have "skip_ws (CHR '','' # w @ ?rest) = CHR '','' # w @ ?rest"
      by (simp add: skip_ws_def json_ws_def)
    ultimately show ?thesis unfolding joined n by (simp add: skip cons_fst_def del: append_assoc)
  qed
qed

definition member_text :: "string \<Rightarrow> (json \<Rightarrow> string) \<Rightarrow> string \<times> json \<Rightarrow> string" where
  "member_text wk f kv = json_string (fst kv) @ CHR '':'' # wk @ f (snd kv)"

lemma member_text_length: "length (f v) < length (member_text wk f (k, v))"
  by (simp add: member_text_def)

lemma parse_members_step:
  assumes v: "parses f parse_value v" and "blanks wk" "delimited t" "length (f v) < m"
  shows "parse_members (Suc m) (member_text wk f (k, v) @ t) =
    (case skip_ws t of [] \<Rightarrow> None
     | d # ds \<Rightarrow> if d = CHR 0x7D then Some ([(k, v)], ds)
         else if d = CHR '','' then cons_fst (k, v) (parse_members m (skip_ws ds)) else None)"
proof -
  have "skip_ws (wk @ f v @ t) = f v @ t" using assms(2) skip_parses [OF v] by (simp add: skip_blanks)
  moreover have "parse_value m (f v @ t) = Some (v, t)" by (rule parsesD [OF v assms(3,4)])
  moreover have "skip_ws (CHR '':'' # wk @ f v @ t) = CHR '':'' # wk @ f v @ t"
    by (simp add: skip_ws_def json_ws_def)
  ultimately show ?thesis by (simp add: member_text_def json_string_def parse_json_string)
qed

lemma parse_members_join:
  assumes "\<And>kv. kv \<in> set kvs \<Longrightarrow> parses f parse_value (snd kv)" "kvs \<noteq> []" "blanks w" "blanks w'" "blanks wk"
    and "length (py_join (CHR '','' # w) (map (member_text wk f) kvs)) + 1 < n"
  shows "parse_members n (py_join (CHR '','' # w) (map (member_text wk f) kvs) @ w' @ CHR 0x7D # r) = Some (kvs, r)"
  using assms
proof (induction kvs arbitrary: n)
  case Nil
  then show ?case by simp
next
  case (Cons kv kvs)
  obtain k v where kv: "kv = (k, v)" by (cases kv)
  obtain m where n: "n = Suc m" using Cons.prems(6) by (cases n) auto
  have v: "parses f parse_value v" using Cons.prems(1) [of kv] kv by simp
  show ?case
  proof (cases "kvs = []")
    case True
    have "length (f v) < m" using Cons.prems(6) True n by (simp add: kv member_text_def)
    from parse_members_step [OF v Cons.prems(5) delimited_close [OF Cons.prems(4)] this, of "CHR 0x7D" k r]
    show ?thesis using True n Cons.prems(4) by (simp add: kv skip_close)
  next
    case False
    let ?rest = "py_join (CHR '','' # w) (map (member_text wk f) kvs) @ w' @ CHR 0x7D # r"
    have len: "length (f v) < m" "length (py_join (CHR '','' # w) (map (member_text wk f) kvs)) + 1 < m"
      using Cons.prems(6) n False member_text_length [of f v wk k] by (simp_all add: py_join_Cons kv)
    have joined: "py_join (CHR '','' # w) (map (member_text wk f) (kv # kvs)) @ w' @ CHR 0x7D # r =
        member_text wk f (k, v) @ CHR '','' # w @ ?rest"
      using False by (simp add: py_join_Cons kv)
    obtain kv' kvs' where "kvs = kv' # kvs'" using False by (cases kvs) auto
    then have "skip_ws ?rest = ?rest"
      by (intro skip_none) (simp_all add: py_join_Cons member_text_def json_string_def json_ws_def)
    then have skip: "skip_ws (w @ ?rest) = ?rest" using Cons.prems(3) by (simp add: skip_blanks)
    have "parse_members m ?rest = Some (kvs, r)"
      by (rule Cons.IH) (use Cons.prems False len in auto)
    moreover have "skip_ws (CHR '','' # w @ ?rest) = CHR '','' # w @ ?rest"
      by (simp add: skip_ws_def json_ws_def)
    ultimately show ?thesis
      unfolding joined n
      by (subst parse_members_step [OF v Cons.prems(5) _ len(1)])
        (simp_all add: delimited_def skip cons_fst_def kv del: append_assoc)
  qed
qed

text \<open>Both printers are read back.\<close>

lemma parse_atoms:
  "0 < n \<Longrightarrow> parse_value n (CHR ''n'' # CHR ''u'' # CHR ''l'' # CHR ''l'' # r) = Some (JNull, r)"
  "0 < n \<Longrightarrow> parse_value n (CHR ''t'' # CHR ''r'' # CHR ''u'' # CHR ''e'' # r) = Some (JBool True, r)"
  "0 < n \<Longrightarrow> parse_value n (CHR ''f'' # CHR ''a'' # CHR ''l'' # CHR ''s'' # CHR ''e'' # r) = Some (JBool False, r)"
  "0 < n \<Longrightarrow> parse_value n (CHR 0x22 # t) = map_option (\<lambda>(u, r). (JStr u, r)) (parse_str t)"
  by (cases n; simp)+

lemma parses_dumps:
  assumes "blanks w" "blanks wk"
  shows "float_free j \<Longrightarrow> parses (dumps (CHR '','' # w) (CHR '':'' # wk)) parse_value j"
proof (induction j)
  let ?d = "dumps (CHR '','' # w) (CHR '':'' # wk)"
  note start = dumps_start [where isep = "CHR '','' # w" and ksep = "CHR '':'' # wk"]
  {
    case (JInt i)
    then show ?case using start [of "JInt i"] by (auto simp: parses_def parse_value_int)
  next
    case (JList xs)
    have items: "x \<in> set xs \<Longrightarrow> parses ?d parse_value x" for x
      using JList by (auto simp: list_all_iff)
    have "parse_value n (?d (JList xs) @ r) = Some (JList xs, r)"
      if "delimited r" and len: "length (?d (JList xs)) < n" for n r
    proof -
      obtain m where n: "n = Suc m" using len by (cases n) auto
      show ?thesis
      proof (cases "xs = []")
        case True
        then show ?thesis by (simp add: n skip_ws_def json_ws_def)
      next
        case False
        obtain y ys where ys: "xs = y # ys" using False by (cases xs) auto
        let ?t = "py_join (CHR '','' # w) (map ?d xs) @ CHR '']'' # r"
        have skip: "skip_ws ?t = ?t" "hd ?t \<noteq> CHR '']''" "?t \<noteq> []"
          using skip_parses [OF items [of y]] start [of y] JList.prems
          by (simp_all add: ys py_join_Cons list_all_iff)
        have "parse_items m ?t = Some (xs, r)"
          using parse_items_join [OF items False assms(1), of "[]" m r] len
          by (simp add: n blanks_def)
        moreover have "?d (JList xs) @ r = CHR ''['' # ?t" by simp
        ultimately show ?thesis using skip by (simp only: n) (simp add: Let_def)
      qed
    qed
    with start [of "JList xs"] JList.prems show ?case by (simp add: parses_def)
  next
    case (JObj kvs)
    have items: "kv \<in> set kvs \<Longrightarrow> parses ?d parse_value (snd kv)" for kv
      using JObj by (fastforce simp: list_all_iff)
    have members: "map (\<lambda>(k, v). json_string k @ CHR '':'' # wk @ ?d v) kvs = map (member_text wk ?d) kvs"
      by (simp add: member_text_def case_prod_unfold)
    have "parse_value n (?d (JObj kvs) @ r) = Some (JObj kvs, r)"
      if "delimited r" and len: "length (?d (JObj kvs)) < n" for n r
    proof -
      obtain m where n: "n = Suc m" using len by (cases n) auto
      show ?thesis
      proof (cases "kvs = []")
        case True
        then show ?thesis by (simp add: n skip_ws_def json_ws_def)
      next
        case False
        obtain kv ys where ys: "kvs = kv # ys" using False by (cases kvs) auto
        let ?t = "py_join (CHR '','' # w) (map (member_text wk ?d) kvs) @ CHR 0x7D # r"
        have skip: "skip_ws ?t = ?t" "hd ?t \<noteq> CHR 0x7D" "?t \<noteq> []"
          by (simp_all add: ys py_join_Cons member_text_def json_string_def skip_ws_def json_ws_def)
        have "parse_members m ?t = Some (kvs, r)"
          using parse_members_join [OF items False assms(1) _ assms(2), where w' = "[]" and n = m and r = r] len
          by (simp add: n blanks_def members)
        moreover have "?d (JObj kvs) @ r = CHR 0x7B # ?t" by (simp add: members)
        ultimately show ?thesis using skip by (simp only: n) (simp add: Let_def)
      qed
    qed
    with start [of "JObj kvs"] JObj.prems show ?case by (simp add: parses_def)
  }
qed (auto simp: parses_def json_string_def json_ws_def parse_json_string parse_atoms)

lemma loads_parses:
  assumes "parses f parse_value j"
  shows "loads (f j) = Some j"
proof -
  have "skip_ws (f j) = f j" using skip_parses [OF assms, of "[]"] by simp
  moreover have "parse_value (Suc (length (f j))) (f j @ []) = Some (j, [])"
    by (rule parsesD [OF assms]) (simp_all add: delimited_def)
  ultimately show ?thesis by (simp add: loads_def skip_ws_def)
qed

lemma loads_dumps:
  "float_free j \<Longrightarrow> blanks w \<Longrightarrow> blanks wk \<Longrightarrow> loads (dumps (CHR '','' # w) (CHR '':'' # wk) j) = Some j"
  by (rule loads_parses) (rule parses_dumps)

text \<open>An object of atoms printed with \<open>indent=2\<close>.\<close>

fun atom :: "json \<Rightarrow> bool" where
  "atom (JFloat t) = False"
| "atom (JList xs) = False"
| "atom (JObj kvs) = False"
| "atom j = True"

lemma parses_atom: "atom j \<Longrightarrow> parses (dumps_indent n) parse_value j"
proof -
  assume a: "atom j"
  have "dumps_indent n j = dumps (CHR '','' # '' '') (CHR '':'' # '' '') j" using a by (cases j) simp_all
  moreover have "parses (dumps (CHR '','' # '' '') (CHR '':'' # '' '')) parse_value j"
    by (rule parses_dumps) (use a in \<open>cases j; simp add: blanks_def json_ws_def\<close>)+
  ultimately show ?thesis by (simp add: parses_def)
qed

lemma loads_indent:
  assumes "kvs \<noteq> []" "\<And>kv. kv \<in> set kvs \<Longrightarrow> atom (snd kv)"
  shows "loads (dumps_indent 0 (JObj kvs)) = Some (JObj kvs)"
proof -
  let ?f = "dumps_indent (Suc 0)"
  have members: "map (\<lambda>(k, v). json_string k @ CHR '':'' # CHR '' '' # ?f v) kvs = map (member_text '' '' ?f) kvs"
    by (simp add: member_text_def case_prod_unfold)
  let ?j = "py_join (CHR '','' # indent (Suc 0)) (map (member_text '' '' ?f) kvs)"
  let ?t = "?j @ indent 0 @ [CHR 0x7D]"
  have eq: "dumps_indent 0 (JObj kvs) = CHR 0x7B # indent (Suc 0) @ ?t"
    using assms(1) by (simp add: members)
  have bl: "blanks (indent n)" "blanks '' ''" for n by (auto simp: blanks_def indent_def json_ws_def list_all_iff)
  obtain kv ys where ys: "kvs = kv # ys" using assms(1) by (cases kvs) auto
  have skip: "skip_ws (indent (Suc 0) @ ?t) = ?t"
    unfolding skip_blanks [OF bl(1)]
    by (rule skip_none) (simp_all add: ys py_join_Cons member_text_def json_string_def json_ws_def)
  have hd: "hd ?t \<noteq> CHR 0x7D" by (simp add: ys py_join_Cons member_text_def json_string_def)
  have "parse_members (length (dumps_indent 0 (JObj kvs))) ?t = Some (kvs, [])"
    by (rule parse_members_join) (use assms parses_atom bl in \<open>auto simp: members\<close>)
  then have "parse_value (Suc (length (dumps_indent 0 (JObj kvs)))) (CHR 0x7B # indent (Suc 0) @ ?t) = Some (JObj kvs, [])"
    using skip hd by (simp add: Let_def)
  moreover have "skip_ws (CHR 0x7B # indent (Suc 0) @ ?t) = CHR 0x7B # indent (Suc 0) @ ?t"
    by (simp add: skip_ws_def json_ws_def)
  ultimately show ?thesis unfolding loads_def eq by (simp add: skip_ws_def)
qed


text \<open>What is printed is printable ASCII.\<close>

definition printable :: "string \<Rightarrow> bool" where
  "printable s \<longleftrightarrow> list_all (\<lambda>c. 32 \<le> (of_char c :: nat) \<and> (of_char c :: nat) \<le> 126) s"

lemma printable_simps [simp]: "printable []" "printable (s @ t) \<longleftrightarrow> printable s \<and> printable t"
  "printable (c # s) \<longleftrightarrow> 32 \<le> (of_char c :: nat) \<and> (of_char c :: nat) \<le> 126 \<and> printable s"
  by (auto simp: printable_def)

lemma printable_concat: "printable (concat xs) \<longleftrightarrow> list_all printable xs"
  by (induction xs) simp_all

lemma printable_join: "printable sep \<Longrightarrow> list_all printable xs \<Longrightarrow> printable (py_join sep xs)"
  by (induction sep xs rule: py_join.induct) simp_all

lemma printable_hex: "n < 16 \<Longrightarrow> printable [hex_digit n]"
  by (auto simp: hex_digit_def)

lemma printable_json_char: "printable (json_char c)"
proof -
  have h: "printable (hex4 (of_char c))"
    using printable_hex [of "of_char c div 4096 mod 16"] printable_hex [of "of_char c div 256 mod 16"]
      printable_hex [of "of_char c div 16 mod 16"] printable_hex [of "of_char c mod 16"]
    by (simp add: hex4_def)
  show ?thesis using h by (auto simp: json_char_def Let_def)
qed

lemma printable_json_string: "printable (json_string s)"
  by (simp add: json_string_def printable_concat list_all_iff printable_json_char)

lemma printable_show_int: "printable (show_int i)"
proof -
  have "printable (show_nat n)" for n
    using show_nat_digits [of n] by (auto simp: printable_def list_all_iff is_digit_def)
  then show ?thesis by (simp add: show_int_def)
qed

lemma printable_dumps: "float_free j \<Longrightarrow> printable isep \<Longrightarrow> printable ksep \<Longrightarrow> printable (dumps isep ksep j)"
proof (induction isep ksep j rule: dumps.induct)
  case (7 isep ksep kvs)
  have "printable (dumps isep ksep v)" if "(k, v) \<in> set kvs" for k v
    using 7 that by (fastforce simp: list_all_iff)
  with 7 show ?case by (auto simp: printable_json_string list_all_iff intro!: printable_join)
qed (auto simp: printable_json_string printable_show_int list_all_iff intro!: printable_join)

end
