(* ===== verification/Frontdoor.thy ===== *)
theory Frontdoor
  imports Deadman Py_Json
begin

text \<open>
  The front door: the decision what an incoming login gets and the guarded installer
  (\<open>anima/kernel/frontdoor.py\<close>) with its Linux backend, an sshd drop-in
  (\<open>LinuxFrontDoor\<close> in \<open>anima/kernel/arch/linux.py\<close>). The em dash of the drop-in's comment line is
  written \<open>--\<close>.
\<close>

subsection \<open>The entry decision\<close>

record FrontDoorPolicy =
  fail_open :: bool
  health_url :: string
  audit_path :: string

datatype EntryActionKind = LAUNCH_CHAT | PASSTHROUGH | FAIL_OPEN_SHELL

record EntryAction =
  entry_kind :: EntryActionKind
  entry_command :: "string option"

text \<open>The login context; the dictionary defaults are an empty command and \<open>False\<close>.\<close>

record entry_ctx =
  ssh_original_command :: string
  anima_healthy :: bool
  has_token :: bool

definition audit_entry :: "string \<Rightarrow> json \<Rightarrow> ('m host_scheme, unit) act" where
  "audit_entry p r = act_catch (fs_append p (json_line r)) (\<lambda>_. act_return ())"

definition decide_entry :: "entry_ctx \<Rightarrow> FrontDoorPolicy \<Rightarrow> ('m host_scheme, EntryAction) act" where
  "decide_entry ctx policy =
     (let cmd = ssh_original_command ctx; healthy = anima_healthy ctx in
      if cmd \<noteq> [] then
        act_then (audit_entry (audit_path policy)
          (JObj [(''action'', JStr ''PASSTHROUGH''), (''command'', JStr cmd)]))
        (act_return \<lparr>entry_kind = PASSTHROUGH, entry_command = Some cmd\<rparr>)
      else if healthy \<and> has_token ctx then
        act_then (audit_entry (audit_path policy) (JObj [(''action'', JStr ''LAUNCH_CHAT'')]))
        (act_return \<lparr>entry_kind = LAUNCH_CHAT, entry_command = None\<rparr>)
      else
        act_then (audit_entry (audit_path policy) (JObj [(''action'', JStr ''FAIL_OPEN_SHELL''),
          (''reason'', JStr (if \<not> healthy then ''unhealthy'' else ''no_token''))]))
        (act_return \<lparr>entry_kind = FAIL_OPEN_SHELL, entry_command = None\<rparr>))"

subsection \<open>The Linux backend\<close>

definition MANAGED_COMMENT :: string where
  "MANAGED_COMMENT = ''# Managed by anima -- do not edit manually.'' @ [CHR 0x0A]"

definition ABSENT_SENTINEL :: string where "ABSENT_SENTINEL = ''ABSENT''"

definition dropin_content :: "string \<Rightarrow> string" where
  "dropin_content command = MANAGED_COMMENT @ ''Match User root'' @ [CHR 0x0A]
     @ ''    ForceCommand '' @ command @ [CHR 0x0A]"

definition fd_install :: "string \<Rightarrow> string \<Rightarrow> ('m host_scheme, unit) act" where
  "fd_install dropin command =
     act_then (fs_makedirs (path_parent dropin)) (fs_write dropin (dropin_content command))"

definition fd_uninstall :: "string \<Rightarrow> ('m host_scheme, unit) act" where
  "fd_uninstall dropin = fs_unlink_missing_ok dropin"

text \<open>\<open>stripped.split(None, 1)\<close>: the second part, when there is one.\<close>

definition split_once :: "string \<Rightarrow> string option" where
  "split_once s = (let rest = dropWhile is_space (dropWhile (\<lambda>c. \<not> is_space c) (dropWhile is_space s))
     in if rest = [] then None else Some rest)"

fun parse_force_command_lines :: "string list \<Rightarrow> string option" where
  "parse_force_command_lines [] = None"
| "parse_force_command_lines (line # lines) =
     (let stripped = py_strip line in
      if startswith (py_lower stripped) ''forcecommand'' then
        (case split_once stripped of Some c \<Rightarrow> Some c | None \<Rightarrow> parse_force_command_lines lines)
      else parse_force_command_lines lines)"

definition parse_force_command :: "string \<Rightarrow> string option" where
  "parse_force_command content = parse_force_command_lines (splitlines content)"

record FrontDoorState =
  installed :: bool
  state_command :: "string option"
  config_path :: "string option"

definition fd_state :: "string \<Rightarrow> ('m host_scheme, FrontDoorState) act" where
  "fd_state dropin = act_bind (act_get (fs_exists dropin)) (\<lambda>there.
     if \<not> there then act_return \<lparr>installed = False, state_command = None, config_path = None\<rparr>
     else act_bind (fs_read dropin) (\<lambda>content.
       act_return \<lparr>installed = True, state_command = parse_force_command content,
         config_path = Some dropin\<rparr>))"

text \<open>\<open>sshd_path\<close> is what \<open>shutil.which("sshd")\<close> finds.\<close>

definition fd_validate :: "string option \<Rightarrow> 'w shell \<Rightarrow> ('w, bool) act" where
  "fd_validate sshd_path sh = act_catch
     (act_bind (sh [case sshd_path of Some p \<Rightarrow> p | None \<Rightarrow> ''/usr/sbin/sshd'', ''-t''])
       (\<lambda>r. act_return (returncode r = 0)))
     (\<lambda>_. act_return False)"

definition fd_reload :: "'w shell \<Rightarrow> ('w, unit) act" where
  "fd_reload sh = act_then (sh [''systemctl'', ''reload'', ''ssh'']) (act_return ())"

text \<open>\<open>Path.with_suffix\<close> on the last component; \<open>now_ms\<close> is \<open>int(time.time() * 1000)\<close>.\<close>

definition with_suffix :: "string \<Rightarrow> string \<Rightarrow> string" where
  "with_suffix p suf = (let name = path_name p; i = rfind_char (CHR ''.'') name;
     stem = (if 0 < i \<and> i < int (length name) - 1 then take (nat i) name else name)
     in path_div (path_parent p) (stem @ suf))"

definition fd_snapshot :: "string \<Rightarrow> int \<Rightarrow> ('m host_scheme, string) act" where
  "fd_snapshot dropin now_ms = act_bind (act_get (fs_exists dropin)) (\<lambda>there.
     if \<not> there then act_return ABSENT_SENTINEL
     else let backup = with_suffix dropin (''.bak.'' @ show_int now_ms) in
       act_then (fs_copy dropin backup) (act_return backup))"

definition fd_restore :: "string \<Rightarrow> string \<Rightarrow> ('m host_scheme, unit) act" where
  "fd_restore dropin snapshot =
     (if snapshot = ABSENT_SENTINEL then fs_unlink_missing_ok dropin else fs_copy snapshot dropin)"

subsection \<open>The guarded installer\<close>

definition DEADMAN_UNIT :: string where "DEADMAN_UNIT = ''anima-frontdoor-revert''"

definition fd_deadman_systemd :: "'w shell \<Rightarrow> 'w deadman" where
  "fd_deadman_systemd sh = \<lparr>
     dm_arm = (\<lambda>timer_unit delay_s revert_cmd. act_then
       (run_check sh ([''systemd-run'', ''--on-active'', show_int delay_s, ''--unit='' @ timer_unit, ''--'']
          @ py_words revert_cmd)) (act_return ())),
     dm_disarm = (\<lambda>timer_unit. act_then
       (sh [''systemctl'', ''stop'', timer_unit @ ''.timer'']) (act_return ()))\<rparr>"

definition fd_body ::
    "string option \<Rightarrow> ('m host_scheme) shell \<Rightarrow> ('m host_scheme) deadman \<Rightarrow> string \<Rightarrow> string \<Rightarrow> string
     \<Rightarrow> ('m host_scheme, unit) act" where
  "fd_body sshd_path sh sd dropin command snap =
     act_then (fd_install dropin command)
     (act_then (act_bind (fd_validate sshd_path sh) (\<lambda>ok.
        if ok then act_return ()
        else undo (dm_disarm sd DEADMAN_UNIT) (fd_restore dropin snap) FrontDoorInstallError))
     (fd_reload sh))"

definition install_with_deadman ::
    "string option \<Rightarrow> ('m host_scheme) shell \<Rightarrow> ('m host_scheme) deadman \<Rightarrow> string \<Rightarrow> string \<Rightarrow> int \<Rightarrow> int
     \<Rightarrow> ('m host_scheme, unit) act" where
  "install_with_deadman sshd_path sh sd dropin command revert_after_s now_ms =
     act_bind (fd_snapshot dropin now_ms) (\<lambda>snap.
     act_then (dm_arm sd DEADMAN_UNIT revert_after_s (''anima frontdoor _revert '' @ snap))
     (guarded FrontDoorInstallError (dm_disarm sd DEADMAN_UNIT) (fd_restore dropin snap)
        (fd_body sshd_path sh sd dropin command snap)))"

definition fd_commit :: "'w deadman \<Rightarrow> ('w, unit) act" where
  "fd_commit sd = dm_disarm sd DEADMAN_UNIT"

subsection \<open>What the installer undoes\<close>

text \<open>The snapshot token stands for a node; the backup copy is intact while it holds that node.\<close>

definition fd_intact :: "string \<Rightarrow> node option \<Rightarrow> 'm host_scheme \<Rightarrow> bool" where
  "fd_intact snap old h \<longleftrightarrow> (if snap = ABSENT_SENTINEL then old = None
     else old \<noteq> None \<and> old \<noteq> Some Directory \<and> files h (fs_key snap) = old)"

lemma fd_snapshot_Inr:
  assumes "fd_snapshot dropin now_ms h = (Inr snap, h1)"
    and "with_suffix dropin (''.bak.'' @ show_int now_ms) \<noteq> ABSENT_SENTINEL"
    and "fs_key (with_suffix dropin (''.bak.'' @ show_int now_ms)) \<noteq> fs_key dropin"
  shows "fd_intact snap (files h (fs_key dropin)) h1" "files h1 (fs_key dropin) = files h (fs_key dropin)"
    "snap \<noteq> ABSENT_SENTINEL \<Longrightarrow> fs_key snap \<noteq> fs_key dropin" "\<exists>f. h1 = h\<lparr>files := f\<rparr>"
proof -
  have h: "\<exists>f. h = h\<lparr>files := f\<rparr>" by (rule exI [of _ "files h"]) simp
  show "fd_intact snap (files h (fs_key dropin)) h1" "files h1 (fs_key dropin) = files h (fs_key dropin)"
    "snap \<noteq> ABSENT_SENTINEL \<Longrightarrow> fs_key snap \<noteq> fs_key dropin" "\<exists>f. h1 = h\<lparr>files := f\<rparr>"
    using assms h
    by (auto simp: fd_snapshot_def fs_exists_def fs_copy_def fs_read_def fs_write_def fd_intact_def act_simps
        Let_def split: if_splits prod.splits sum.splits option.splits node.splits)
qed

lemma fd_snapshot_frame:
  assumes "fd_snapshot dropin now_ms h = (r, h1)"
    and "fs_key (with_suffix dropin (''.bak.'' @ show_int now_ms)) \<noteq> fs_key dropin"
  shows "files h1 (fs_key dropin) = files h (fs_key dropin) \<and> r \<noteq> Inl FrontDoorInstallError"
  using assms
  by (auto simp: fd_snapshot_def fs_exists_def fs_copy_def fs_read_def fs_write_def act_simps
      Let_def split: if_splits prod.splits sum.splits option.splits node.splits)

lemma fd_undo_laws:
  fixes armed :: "'m host_scheme \<Rightarrow> bool"
  assumes laws: "deadman_laws armed sd" and own: "\<And>u h. fst (dm_disarm sd u h) \<noteq> Inl FrontDoorInstallError"
    and snap: "snap \<noteq> ABSENT_SENTINEL \<Longrightarrow> fs_key snap \<noteq> fs_key dropin"
  shows "undo_laws armed (fd_intact snap old) (\<lambda>h. files h (fs_key dropin) = old) FrontDoorInstallError
    (dm_disarm sd DEADMAN_UNIT) (fd_restore dropin snap)"
proof (rule undo_lawsI [OF laws own])
  fix h f :: "'m host_scheme"
  show "files h = files f \<Longrightarrow> fd_intact snap old h \<longleftrightarrow> fd_intact snap old f" by (simp add: fd_intact_def)
next
  fix h h' :: "'m host_scheme" and r
  assume "fd_restore dropin snap h = (r, h')" "fd_intact snap old h"
  then show "armed h' = armed h \<and> r \<noteq> Inl FrontDoorInstallError
    \<and> (if isl r then fd_intact snap old h' else files h' (fs_key dropin) = old)"
    using deadman_files [OF laws]
    by (auto simp: fd_restore_def fs_copy_def fs_read_def fs_write_def fs_unlink_missing_ok_eq fd_intact_def act_simps
        split: if_splits prod.splits sum.splits option.splits node.splits)
qed

text \<open>\<open>sshd -t\<close> and the reload neither edit files nor touch the timer, and do not raise the
  installer's error.\<close>

definition sshd_laws :: "('m host_scheme \<Rightarrow> bool) \<Rightarrow> 'm host_scheme shell \<Rightarrow> bool" where
  "sshd_laws armed sh \<longleftrightarrow> (\<forall>argv h. files (snd (sh argv h)) = files h
     \<and> armed (snd (sh argv h)) = armed h \<and> fst (sh argv h) \<noteq> Inl FrontDoorInstallError)"

lemma sshd_lawsD:
  assumes "sshd_laws armed sh" "sh argv h = (r, h')"
  shows "files h' = files h" "armed h' = armed h" "r \<noteq> Inl FrontDoorInstallError"
proof -
  have "files (snd (sh argv h)) = files h \<and> armed (snd (sh argv h)) = armed h
      \<and> fst (sh argv h) \<noteq> Inl FrontDoorInstallError"
    using assms(1) unfolding sshd_laws_def by blast
  then show "files h' = files h" "armed h' = armed h" "r \<noteq> Inl FrontDoorInstallError"
    using assms(2) by simp_all
qed

lemma fd_guarded_cases:
  assumes laws: "deadman_laws armed sd" and sshd: "sshd_laws armed sh"
    and own: "\<And>u h. fst (dm_disarm sd u h) \<noteq> Inl FrontDoorInstallError"
    and snap: "snap \<noteq> ABSENT_SENTINEL \<Longrightarrow> fs_key snap \<noteq> fs_key dropin" "fd_intact snap old h" "armed h"
      "\<And>d. d \<in> set (path_chain (path_parent dropin)) \<Longrightarrow> files h (fs_key d) = Some Directory"
    and run: "guarded FrontDoorInstallError (dm_disarm sd DEADMAN_UNIT) (fd_restore dropin snap)
      (fd_body sshd_path sh sd dropin command snap) h = (r, h')"
  shows "r = Inr x \<Longrightarrow> armed h' \<and> files h' (fs_key dropin) = Some (Regular (dropin_content command))"
    and "r = Inl FrontDoorInstallError \<Longrightarrow> \<not> armed h' \<and> files h' (fs_key dropin) = old"
proof -
  let ?undo = "undo (dm_disarm sd DEADMAN_UNIT) (fd_restore dropin snap) FrontDoorInstallError :: (_, unit) act"
  note ul = fd_undo_laws [OF laws own snap(1), where old = old]
  have mk: "fs_makedirs (path_parent dropin) h = (Inr (), h)"
    using snap(4) by (simp add: fs_makedirs_def fs_mkdirs_exist)
  obtain r1 h1 where one: "fd_install dropin command h = (r1, h1)" by (cases "fd_install dropin command h")
  have h1: "fd_intact snap old h1" "armed h1" "r1 \<noteq> Inl FrontDoorInstallError"
    "r1 = Inr () \<Longrightarrow> files h1 (fs_key dropin) = Some (Regular (dropin_content command))"
    using one snap mk deadman_files [OF laws]
    by (auto simp: fd_install_def act_simps fs_write_def fd_intact_def split: if_splits)
  obtain r2 h2 where two: "fd_validate sshd_path sh h1 = (r2, h2)" by (cases "fd_validate sshd_path sh h1")
  have h2: "files h2 = files h1" "armed h2" "\<exists>ok. r2 = Inr ok"
    using two sshd_lawsD [OF sshd] h1(2)
    by (auto simp: fd_validate_def act_simps split: prod.splits sum.splits)
  have i2: "fd_intact snap old h2" using h1(1) h2(1) by (simp add: fd_intact_def)
  obtain r3 h3 where three: "?undo h2 = (r3, h3)" by (cases "?undo h2")
  obtain r4 h4 where four: "fd_reload sh h2 = (r4, h4)" by (cases "fd_reload sh h2")
  have h4: "files h4 = files h2" "armed h4" "r4 \<noteq> Inl FrontDoorInstallError"
    using four sshd_lawsD(1,2) [OF sshd] h2(2)
    by (auto simp: fd_reload_def act_simps split: prod.splits sum.splits dest: sshd_lawsD(3) [OF sshd])
  have i4: "fd_intact snap old h4" using i2 h4(1) by (simp add: fd_intact_def)
  have "fd_body sshd_path sh sd dropin command snap h = (case r1 of Inl e \<Rightarrow> (Inl e, h1) | Inr _ \<Rightarrow>
      (case r2 of Inl e \<Rightarrow> (Inl e, h2) | Inr ok \<Rightarrow> if ok then (r4, h4)
        else (case r3 of Inl e \<Rightarrow> (Inl e, h3) | Inr _ \<Rightarrow> fd_reload sh h3)))"
    using one two three four by (auto simp: fd_body_def act_simps split: sum.splits prod.splits)
  then have "body_result armed (fd_intact snap old) (\<lambda>h. files h (fs_key dropin) = old)
      FrontDoorInstallError (\<lambda>h. armed h \<and> files h (fs_key dropin) = Some (Regular (dropin_content command)))
      (fd_body sshd_path sh sd dropin command snap h)"
    using undo_result [OF ul i2 three] h1 h2 h4 i2 i4 by (auto simp: body_result_def split: sum.splits if_splits)
  from guarded_result [OF ul this run]
  show "r = Inr x \<Longrightarrow> armed h' \<and> files h' (fs_key dropin) = Some (Regular (dropin_content command))"
    and "r = Inl FrontDoorInstallError \<Longrightarrow> \<not> armed h' \<and> files h' (fs_key dropin) = old"
    by simp_all
qed

subsection \<open>The drop-in parses back\<close>

lemma splitlines_aux_line:
  "(\<And>c. c \<in> set w \<Longrightarrow> \<not> is_linesep c) \<Longrightarrow>
     splitlines_aux (w @ CHR 0x0A # rest) cur = (rev cur @ w) # splitlines_aux rest []"
proof (induction w arbitrary: cur)
  case Nil
  then show ?case by (cases rest) (simp_all add: is_linesep_def)
next
  case (Cons c w)
  have c: "\<not> is_linesep c" using Cons.prems by simp
  obtain d ds where d: "w @ CHR 0x0A # rest = d # ds" by (cases "w @ CHR 0x0A # rest") auto
  have "splitlines_aux ((c # w) @ CHR 0x0A # rest) cur = splitlines_aux (w @ CHR 0x0A # rest) (c # cur)"
    using c by (simp add: d)
  also have "\<dots> = (rev (c # cur) @ w) # splitlines_aux rest []"
    by (rule Cons.IH) (use Cons.prems in auto)
  finally show ?case by simp
qed

lemma splitlines_three:
  "\<forall>x \<in> set a. \<not> is_linesep x \<Longrightarrow> \<forall>x \<in> set b. \<not> is_linesep x \<Longrightarrow> \<forall>x \<in> set d. \<not> is_linesep x \<Longrightarrow>
     splitlines (a @ CHR 0x0A # b @ CHR 0x0A # d @ [CHR 0x0A]) = [a, b, d]"
  using splitlines_aux_line [of d "[]"] by (simp add: splitlines_def splitlines_aux_line)

lemma split_once_word:
  assumes "\<forall>x \<in> set w. \<not> is_space x" "w \<noteq> []" "is_space sp" "c \<noteq> []" "\<not> is_space (hd c)"
  shows "split_once (w @ sp # c) = Some c"
proof -
  have "dropWhile is_space (w @ sp # c) = w @ sp # c" using assms(1,2) by (cases w) auto
  moreover have "dropWhile (\<lambda>x. \<not> is_space x) (w @ sp # c) = sp # c"
    using assms(1,3) by (subst dropWhile_append2) auto
  moreover have "dropWhile is_space (sp # c) = c" using assms(3-5) by (cases c) auto
  ultimately show ?thesis using assms(4) by (simp only: split_once_def Let_def if_False simp_thms)
qed

lemma stripped_ends: "py_strip c = c \<Longrightarrow> c \<noteq> [] \<Longrightarrow> \<not> is_space (hd c) \<and> \<not> is_space (last c)"
proof -
  assume s: "py_strip c = c" and ne: "c \<noteq> []"
  have r: "c = rev (dropWhile is_space (rev (dropWhile is_space c)))"
    using s by (simp add: py_strip_def py_lstrip_def py_rstrip_def)
  have "length c \<le> length (dropWhile is_space c)"
    by (subst r) (metis length_dropWhile_le length_rev)
  then have l: "dropWhile is_space c = c"
    by (metis length_append le_add_same_cancel2 length_0_conv nat_le_iff_add takeWhile_dropWhile_id self_append_conv2 add_cancel_left_left le_antisym length_dropWhile_le)
  then have h: "\<not> is_space (hd c)" using ne by (metis hd_dropWhile)
  have "dropWhile is_space (rev c) = rev c" using r l by (metis rev_rev_ident)
  then have "\<not> is_space (hd (rev c))" using ne by (metis hd_dropWhile rev_is_Nil_conv)
  with h ne show ?thesis by (simp add: hd_rev)
qed

lemma strip_indented:
  assumes "\<And>x. x \<in> set p \<Longrightarrow> is_space x" "w \<noteq> []" "\<not> is_space (hd w)" "\<not> is_space (last w)"
  shows "py_strip (p @ w) = w"
proof -
  have "dropWhile is_space (p @ w) = dropWhile is_space w" using assms(1) by (simp add: dropWhile_append2)
  also have "\<dots> = w" using assms(2,3) by (cases w) auto
  finally have 1: "py_lstrip (p @ w) = w" by (simp add: py_lstrip_def)
  have "dropWhile is_space (rev w) = rev w" using assms(2,4) by (cases "rev w") (auto simp: hd_rev [symmetric])
  then show ?thesis by (simp add: py_strip_def 1 py_rstrip_def)
qed

subsection \<open>Properties\<close>

text \<open>What a login gets is decided by the context alone, and deciding never fails: a command is
  passed through as it is, an interactive login lands in the chat only if anima is healthy and holds a
  token, and in every other case in a plain shell (fail open), whether or not the audit line could be
  written; only the audit file changes.\<close>

theorem decide_entry_total:
  "fst (decide_entry ctx policy h) = Inr
     (if ssh_original_command ctx \<noteq> [] then \<lparr>entry_kind = PASSTHROUGH, entry_command = Some (ssh_original_command ctx)\<rparr>
      else if anima_healthy ctx \<and> has_token ctx then \<lparr>entry_kind = LAUNCH_CHAT, entry_command = None\<rparr>
      else \<lparr>entry_kind = FAIL_OPEN_SHELL, entry_command = None\<rparr>)
   \<and> files (snd (decide_entry ctx policy h)) \<in> {files h, (files h)(fs_key (audit_path policy) \<mapsto>
       Regular ((case files h (fs_key (audit_path policy)) of Some (Regular d) \<Rightarrow> d | _ \<Rightarrow> [])
         @ json_line (JObj (
           if ssh_original_command ctx \<noteq> []
             then [(''action'', JStr ''PASSTHROUGH''), (''command'', JStr (ssh_original_command ctx))]
           else if anima_healthy ctx \<and> has_token ctx then [(''action'', JStr ''LAUNCH_CHAT'')]
           else [(''action'', JStr ''FAIL_OPEN_SHELL''),
             (''reason'', JStr (if anima_healthy ctx then ''no_token'' else ''unhealthy''))]))))}"
proof -
  have audit: "fst (audit_entry p r h) = Inr () \<and> files (snd (audit_entry p r h)) \<in> {files h,
      (files h)(fs_key p \<mapsto> Regular ((case files h (fs_key p) of Some (Regular d) \<Rightarrow> d | _ \<Rightarrow> []) @ json_line r))}" for p r
    by (auto simp: audit_entry_def fs_append_def fs_write_def act_simps split: option.splits node.splits)
  have step: "act_then (audit_entry p r) (act_return x) h = (Inr x, snd (audit_entry p r h))"
    for p r and x :: EntryAction
    using audit [of p r] by (cases "audit_entry p r h") (simp add: act_then_apply)
  show ?thesis
    using audit by (simp add: decide_entry_def Let_def step)
qed

text \<open>The front door reads back what it wrote: after a successful install of a one-line entry command
  without surrounding white space, the state reports the door installed with exactly this command.\<close>

theorem frontdoor_roundtrip:
  assumes c: "c \<noteq> []" "py_strip c = c" "\<forall>x \<in> set c. \<not> is_linesep x"
    and inst: "fd_install dropin c h = (Inr (), h')" and io: "\<not> io_fault h' (fs_key dropin)"
  shows "fst (fd_state dropin h') = Inr \<lparr>installed = True, state_command = Some c, config_path = Some dropin\<rparr>"
proof -
  have f: "files h' (fs_key dropin) = Some (Regular (dropin_content c))"
    using inst by (auto simp: fd_install_def act_simps fs_write_Inr split: prod.splits sum.splits)
  let ?l1 = "''# Managed by anima -- do not edit manually.''" and ?l2 = "''Match User root''"
  let ?l3 = "''    ForceCommand '' @ c"
  have nl: "\<forall>x \<in> set ?l1. \<not> is_linesep x" "\<forall>x \<in> set ?l2. \<not> is_linesep x" "\<forall>x \<in> set ''    ForceCommand ''. \<not> is_linesep x"
    by (simp_all add: is_linesep_def Let_def)
  have d: "dropin_content c = ?l1 @ CHR 0x0A # ?l2 @ CHR 0x0A # ?l3 @ [CHR 0x0A]"
    by (simp add: dropin_content_def MANAGED_COMMENT_def)
  have "\<forall>x \<in> set ?l3. \<not> is_linesep x" using nl(3) c(3) by (simp only: set_append ball_Un)
  with nl have lines: "splitlines (dropin_content c) = [?l1, ?l2, ?l3]"
    unfolding d by (intro splitlines_three)
  have ends: "\<not> is_space (hd c)" "\<not> is_space (last c)" using stripped_ends [OF c(2,1)] by simp_all
  have strip3: "py_strip ?l3 = ''ForceCommand '' @ c"
  proof -
    have "py_strip (''    '' @ (''ForceCommand '' @ c)) = ''ForceCommand '' @ c"
      by (rule strip_indented) (use c(1) ends in \<open>auto simp: is_space_def Let_def\<close>)
    then show ?thesis by simp
  qed
  have once: "split_once (''ForceCommand '' @ c) = Some c"
  proof -
    have "split_once (''ForceCommand'' @ CHR '' '' # c) = Some c"
      by (rule split_once_word) (use c(1) ends in \<open>simp_all add: is_space_def\<close>)
    then show ?thesis by simp
  qed
  have low: "startswith (py_lower (''ForceCommand '' @ c)) ''forcecommand''"
  proof -
    have "py_lower (''ForceCommand '' @ c) = ''forcecommand'' @ '' '' @ py_lower c"
      by (simp only: py_lower_def map_append append_assoc [symmetric]) code_simp
    then show ?thesis by (simp only: startswith_append)
  qed
  have no12: "\<not> startswith (py_lower (py_strip ?l1)) ''forcecommand''" "\<not> startswith (py_lower (py_strip ?l2)) ''forcecommand''"
    by code_simp+
  have "parse_force_command (dropin_content c) = Some c"
    unfolding parse_force_command_def lines
    using no12 strip3 once low by (simp only: parse_force_command_lines.simps Let_def if_False if_True option.case)
  then show ?thesis
    using f io by (simp add: fd_state_def fs_exists_def fs_read_def act_simps)
qed

theorem frontdoor_roundtrip_witness:
  "fst (fd_state ''/etc/ssh/sshd_config.d/50-anima-frontdoor.conf''
     (snd (fd_install ''/etc/ssh/sshd_config.d/50-anima-frontdoor.conf'' ''anima entry''
       \<lparr>files = Map.empty, io_fault = (\<lambda>_. False)\<rparr>))) =
   Inr \<lparr>installed = True, state_command = Some ''anima entry'',
        config_path = Some ''/etc/ssh/sshd_config.d/50-anima-frontdoor.conf''\<rparr>"
proof -
  let ?p = "''/etc/ssh/sshd_config.d/50-anima-frontdoor.conf''"
  let ?h = "\<lparr>files = Map.empty, io_fault = (\<lambda>_. False)\<rparr> :: host"
  have a: "''anima entry'' \<noteq> []" by simp
  have b: "py_strip ''anima entry'' = ''anima entry''" by code_simp
  have c: "\<forall>x \<in> set ''anima entry''. \<not> is_linesep x" by code_simp
  have "fst (fd_install ?p ''anima entry'' ?h) = Inr ()" by code_simp
  then have d: "fd_install ?p ''anima entry'' ?h = (Inr (), snd (fd_install ?p ''anima entry'' ?h))"
    by (metis prod.collapse)
  have e: "\<not> io_fault (snd (fd_install ?p ''anima entry'' ?h)) (fs_key ?p)" by code_simp
  from frontdoor_roundtrip [OF a b c d e] show ?thesis .
qed


definition sample_door_host :: timed_host where
  "sample_door_host = \<lparr>files = [''/etc'' \<mapsto> Directory, ''/etc/ssh'' \<mapsto> Directory,
     ''/etc/ssh/sshd_config.d'' \<mapsto> Directory], io_fault = (\<lambda>_. False), timer_on = False\<rparr>"


end
