(* ===== verification/Owned_Resource.thy ===== *)
theory Owned_Resource
  imports Py_Paths Py_Json Reversible_Operation Anima_Config
begin

text \<open>
  The owned-resource operator (\<open>anima/kernel/owned_resource.py\<close>): the ownership boundary and the
  inner floor, garbage collection of workspaces into a trash with a manifest, restoring, reaping, and
  the two entry points. \<open>realpath\<close> is a parameter (\<open>None\<close> when it raises \<open>OSError\<close> or
  \<open>ValueError\<close>), since the file-system model has no symbolic links; the clock, the directory
  listing and SQLite are parameters, too.
\<close>

subsection \<open>Data\<close>

record OwnedOpSpec =
  op_type :: string
  target_path :: string
  trash_root :: "string option"

record GCResult =
  original_path :: string
  gc_trash_path :: string

record OwnedOpOutcome =
  own_auto_applied :: bool
  own_proposed :: bool
  own_reason :: string
  own_trash_path :: "string option"

record OwnedApplyResult =
  own_applied :: bool
  res_trash_path :: "string option"
  res_reason :: string

definition PROTECTED_DB_FILENAMES :: "string set" where
  "PROTECTED_DB_FILENAMES = {''rawos.db'', ''rawos.db-wal'', ''rawos.db-shm''}"

text \<open>A kernel: the real paths of its three roots.\<close>

record owned_kernel =
  k_workspaces_root :: string
  k_source_root :: string
  k_worktree_root :: string

definition owned_kernel_of :: "(string \<Rightarrow> string option) \<Rightarrow> Settings \<Rightarrow> owned_kernel option" where
  "owned_kernel_of rp cfg = (case (rp (workspaces_root cfg), rp (rawos_source_root cfg), rp (worktree_root cfg)) of
       (Some w, Some s, Some t) \<Rightarrow> Some \<lparr>k_workspaces_root = w, k_source_root = s, k_worktree_root = t\<rparr>
     | _ \<Rightarrow> None)"

definition owned_roots :: "owned_kernel \<Rightarrow> string list" where
  "owned_roots k = [k_workspaces_root k, k_source_root k, k_worktree_root k]"

subsection \<open>Boundary and inner floor\<close>

definition is_owned_path :: "owned_kernel \<Rightarrow> (string \<Rightarrow> string option) \<Rightarrow> string \<Rightarrow> bool" where
  "is_owned_path k rp p = (case rp p of None \<Rightarrow> False
     | Some real \<Rightarrow> list_ex (\<lambda>root. inside root real) (owned_roots k))"

text \<open>\<open>None\<close> when the path is not floored, else the reason.\<close>

definition inner_floor_check :: "owned_kernel \<Rightarrow> string \<Rightarrow> string list \<Rightarrow> string option" where
  "inner_floor_check k real_path active_workspace_dirs =
     (let data_dir = path_join (k_source_root k) ''data'' in
      if path_name real_path \<in> PROTECTED_DB_FILENAMES
        then Some (''protected: live DB file '' @ py_repr (path_name real_path))
      else if ''.git'' \<in> set (path_parts real_path) then Some ''protected: .git directory''
      else if inside (k_source_root k) real_path \<and> \<not> inside data_dir real_path
        then Some ''protected: anima source code (use R1/self-reload surfaces)''
      else if real_path \<in> set active_workspace_dirs
        then Some (''active intent bound to workspace '' @ ''--'' @ '' cannot GC'')
      else None)"

definition owned_and_not_floored ::
    "owned_kernel \<Rightarrow> (string \<Rightarrow> string option) \<Rightarrow> string \<Rightarrow> string list \<Rightarrow> bool" where
  "owned_and_not_floored k rp p active = (is_owned_path k rp p
     \<and> (case rp p of None \<Rightarrow> False | Some real \<Rightarrow> inner_floor_check k real active = None))"

definition assert_owned_and_not_floored ::
    "owned_kernel \<Rightarrow> (string \<Rightarrow> string option) \<Rightarrow> string \<Rightarrow> string list \<Rightarrow> ('w, unit) act" where
  "assert_owned_and_not_floored k rp p active =
     (if \<not> is_owned_path k rp p then act_raise OwnedResourceRefusalError
      else case rp p of
          None \<Rightarrow> act_raise PyOSError
        | Some real \<Rightarrow> (if inner_floor_check k real active \<noteq> None then act_raise OwnedResourceRefusalError
            else act_return ()))"

subsection \<open>Workspace garbage collection\<close>

definition default_trash_root :: "owned_kernel \<Rightarrow> string" where
  "default_trash_root k = path_div (path_div (k_source_root k) ''data'') ''.trash''"

definition or_default :: "string option \<Rightarrow> string \<Rightarrow> string" where
  "or_default x d = (case x of None \<Rightarrow> d | Some s \<Rightarrow> if s = [] then d else s)"

text \<open>The clock gives the formatted time \<open>ts\<close> and the seconds \<open>now\<close>.\<close>

definition trash_entry_of :: "owned_kernel \<Rightarrow> string option \<Rightarrow> string \<Rightarrow> string \<Rightarrow> string" where
  "trash_entry_of k trash ts ws = path_div (or_default trash (default_trash_root k)) (ts @ ''_'' @ path_name ws)"

definition manifest_of :: "string \<Rightarrow> int \<Rightarrow> json" where
  "manifest_of ws now = JObj [(''original_path'', JStr (path_str ws)), (''trashed_at'', JInt now),
     (''workspace_name'', JStr (path_name ws)), (''contents_dir'', JStr (path_name ws))]"

definition gc_workspace_to_trash ::
    "owned_kernel \<Rightarrow> string \<Rightarrow> int \<Rightarrow> string \<Rightarrow> string option \<Rightarrow> ('m host_scheme, GCResult) act" where
  "gc_workspace_to_trash k ts now ws trash =
     (let entry = trash_entry_of k trash ts ws in
      act_then (fs_makedirs entry)
      (act_then (fs_move (path_str ws) (path_div entry (path_name ws)))
      (act_then (fs_write (path_div entry ''manifest.json'') (dumps_indent 0 (manifest_of ws now)))
      (act_return \<lparr>original_path = path_str ws, gc_trash_path = entry\<rparr>))))"

text \<open>\<open>json.loads\<close> raises \<open>JSONDecodeError\<close>, a \<open>ValueError\<close>; subscripting or joining a value of the
  wrong type is a \<open>TypeError\<close>.\<close>

definition restore_to :: "string \<Rightarrow> string \<Rightarrow> string \<Rightarrow> ('m host_scheme, unit) act" where
  "restore_to entry contents_dir original =
     act_bind (act_get (fs_exists original)) (\<lambda>there.
       if there then act_raise PyFileExistsError
       else act_then (fs_move (path_div entry contents_dir) (path_str original))
         (act_modify (fs_rmtree entry)))"

definition restore_from_trash :: "string \<Rightarrow> ('m host_scheme, unit) act" where
  "restore_from_trash trash_entry_path =
     (let manifest_file = path_div trash_entry_path ''manifest.json'' in
      act_bind (act_get (fs_exists manifest_file)) (\<lambda>there.
      if \<not> there then act_raise PyFileNotFoundError
      else act_bind (fs_read manifest_file) (\<lambda>content.
      case loads content of
        None \<Rightarrow> act_raise PyValueError
      | Some (JObj manifest) \<Rightarrow>
          (case obj_get ''original_path'' manifest of
             None \<Rightarrow> act_raise PyKeyError
           | Some (JStr original) \<Rightarrow>
               (case obj_get ''contents_dir'' manifest of
                  Some (JStr contents_dir) \<Rightarrow> restore_to trash_entry_path contents_dir original
                | None \<Rightarrow> restore_to trash_entry_path (path_name original) original
                | Some _ \<Rightarrow> act_raise type_error)
           | Some _ \<Rightarrow> act_raise type_error)
      | Some _ \<Rightarrow> act_raise type_error)))"

text \<open>One entry of the trash: not a directory, kept, or reaped. An unreadable manifest counts as
  trashed at time 0.\<close>

definition trashed_at_of :: "(string \<Rightarrow> 'm host_scheme \<Rightarrow> exn + int) \<Rightarrow> string \<Rightarrow> 'm host_scheme \<Rightarrow> exn + int" where
  "trashed_at_of mtime entry h =
     (let manifest_file = path_div entry ''manifest.json'' in
      if fs_exists manifest_file h then
        (case fst (fs_read manifest_file h) of
           Inl e \<Rightarrow> Inr 0
         | Inr content \<Rightarrow> (case loads content of
             None \<Rightarrow> Inr 0
           | Some (JObj m) \<Rightarrow> (case obj_get ''trashed_at'' m of
                 None \<Rightarrow> Inr 0 | Some (JInt i) \<Rightarrow> Inr i | Some _ \<Rightarrow> Inl type_error)
           | Some _ \<Rightarrow> Inl (ExternalError ''AttributeError'')))
      else (case mtime entry h of Inl e \<Rightarrow> if e \<in> {PyOSError, PyFileNotFoundError} then Inr 0 else Inl e
            | Inr t \<Rightarrow> Inr t))"

fun reap_entries ::
    "(string \<Rightarrow> 'm host_scheme \<Rightarrow> exn + int) \<Rightarrow> int \<Rightarrow> string list \<Rightarrow> ('m host_scheme, string list) act" where
  "reap_entries mtime cutoff [] = act_return []"
| "reap_entries mtime cutoff (entry # entries) = (\<lambda>h.
     if files h (fs_key entry) \<noteq> Some Directory then reap_entries mtime cutoff entries h
     else case trashed_at_of mtime entry h of
         Inl e \<Rightarrow> (Inl e, h)
       | Inr trashed_at \<Rightarrow>
           if trashed_at < cutoff
           then act_bind (reap_entries mtime cutoff entries) (\<lambda>rest. act_return (entry # rest)) (fs_rmtree entry h)
           else reap_entries mtime cutoff entries h)"

definition reap_trash ::
    "owned_kernel \<Rightarrow> (string \<Rightarrow> 'm host_scheme \<Rightarrow> exn + int) \<Rightarrow> (string \<Rightarrow> 'm host_scheme \<Rightarrow> string list) \<Rightarrow> int
     \<Rightarrow> string option \<Rightarrow> int \<Rightarrow> ('m host_scheme, string list) act" where
  "reap_trash k mtime listdir now trash retention_days = (\<lambda>h.
     let trash_dir = or_default trash (default_trash_root k) in
     if \<not> fs_exists trash_dir h then (Inr [], h)
     else reap_entries mtime (now - retention_days * 86400) (listdir trash_dir h) h)"

subsection \<open>The gate\<close>

definition op_class_and_target :: "owned_kernel \<Rightarrow> OwnedOpSpec \<Rightarrow> exn + string \<times> string" where
  "op_class_and_target k spec =
     (if op_type spec = ''workspace_gc'' then Inr (''owned_workspace_gc'', k_workspaces_root k)
      else if op_type spec = ''db_vacuum'' then Inr (''owned_db_vacuum'', k_source_root k)
      else Inl PyValueError)"

definition apply_owned_op ::
    "owned_kernel \<Rightarrow> (string \<Rightarrow> ('m host_scheme, unit) act) \<Rightarrow> string \<Rightarrow> int \<Rightarrow> OwnedOpSpec
     \<Rightarrow> ('m host_scheme, OwnedApplyResult) act" where
  "apply_owned_op k vacuum ts now spec =
     (if op_type spec = ''workspace_gc'' then
        act_bind (gc_workspace_to_trash k ts now (target_path spec) (trash_root spec)) (\<lambda>result.
          act_return \<lparr>own_applied = True, res_trash_path = Some (gc_trash_path result), res_reason = []\<rparr>)
      else if op_type spec = ''db_vacuum'' then
        act_then (vacuum (target_path spec))
          (act_return \<lparr>own_applied = True, res_trash_path = None, res_reason = ''VACUUM+ANALYZE done''\<rparr>)
      else act_raise PyValueError)"

definition operate_on_owned_resource ::
    "Settings \<Rightarrow> owned_kernel \<Rightarrow> (string \<Rightarrow> string option) \<Rightarrow> (string \<Rightarrow> ('m host_scheme, unit) act) \<Rightarrow> string \<Rightarrow> int
     \<Rightarrow> string \<Rightarrow> OwnedOpSpec \<Rightarrow> string list \<Rightarrow> (('m host_scheme) kernel_state, OwnedOpOutcome) act" where
  "operate_on_owned_resource cfg k rp vacuum ts now user_id spec active =
     act_then (assert_owned_and_not_floored k rp (target_path spec) active) (\<lambda>st.
     if \<not> operator_owned_enabled cfg
     then (Inr \<lparr>own_auto_applied = False, own_proposed = True, own_reason = ''operator_owned_enabled=False'',
            own_trash_path = None\<rparr>, st)
     else case op_class_and_target k spec of
         Inl e \<Rightarrow> (Inl e, st)
       | Inr (op_class, track_target) \<Rightarrow>
           if \<not> graduated (db_get_operator_track_record (user_id, op_class, track_target) (db st))
           then (Inr \<lparr>own_auto_applied = False, own_proposed = True,
                  own_reason = op_class @ '' operation class not yet graduated'', own_trash_path = None\<rparr>, st)
           else act_bind (on_world (apply_owned_op k vacuum ts now spec)) (\<lambda>res.
             act_return \<lparr>own_auto_applied = True, own_proposed = False,
               own_reason = ''auto-applied (owned, enabled, graduated)'',
               own_trash_path = res_trash_path res\<rparr>) st)"

definition execute_approved_owned_op ::
    "owned_kernel \<Rightarrow> (string \<Rightarrow> string option) \<Rightarrow> (string \<Rightarrow> ('m host_scheme, unit) act) \<Rightarrow> string \<Rightarrow> int
     \<Rightarrow> OwnedOpSpec \<Rightarrow> string list \<Rightarrow> (('m host_scheme) kernel_state, OwnedApplyResult) act" where
  "execute_approved_owned_op k rp vacuum ts now spec active =
     act_then (assert_owned_and_not_floored k rp (target_path spec) active)
       (on_world (apply_owned_op k vacuum ts now spec))"

subsection \<open>Properties\<close>

lemma assert_cases:
  "assert_owned_and_not_floored k rp p active st =
     (if owned_and_not_floored k rp p active then Inr () else Inl OwnedResourceRefusalError, st)"
  by (auto simp: assert_owned_and_not_floored_def owned_and_not_floored_def is_owned_path_def split: option.splits)

text \<open>C19: No entry point acts beyond the boundary or on the inner floor: unless the real path of the target
  lies inside an owned root, is not a live database file, has no \<open>.git\<close> component, is not anima source
  code outside \<open>data\<close> and is not the workspace of a live intent, both entry points raise the refusal and
  leave the machine and the database as they were.\<close>

theorem owned_boundary_and_floor:
  assumes "\<And>real. rp (target_path spec) = Some real \<Longrightarrow>
     (\<exists>root \<in> set (owned_roots k). inside root real) \<Longrightarrow>
     path_name real \<in> PROTECTED_DB_FILENAMES \<or> ''.git'' \<in> set (path_parts real)
     \<or> inside (k_source_root k) real \<and> \<not> inside (path_join (k_source_root k) ''data'') real
     \<or> real \<in> set active"
  shows "operate_on_owned_resource cfg k rp vacuum ts now user spec active st = (Inl OwnedResourceRefusalError, st)
    \<and> execute_approved_owned_op k rp vacuum ts now spec active st = (Inl OwnedResourceRefusalError, st)"
proof -
  have "\<not> owned_and_not_floored k rp (target_path spec) active"
    using assms
    by (auto simp: owned_and_not_floored_def is_owned_path_def inner_floor_check_def list_ex_iff Let_def
        split: option.splits if_splits)
  then show ?thesis
    by (simp add: operate_on_owned_resource_def execute_approved_owned_op_def act_then_apply assert_cases)
qed

text \<open>The paths of a garbage collection lie apart: no trash directory is in the workspace or names its
  parent, and the manifest is not a part of the moved tree.\<close>

definition gc_layout :: "string \<Rightarrow> string \<Rightarrow> bool" where
  "gc_layout ws entry \<longleftrightarrow> path_str ws = ws
     \<and> list_all (\<lambda>c. \<not> inside (fs_key ws) (fs_key c) \<and> fs_key c \<noteq> fs_key (path_div entry (path_name ws)))
         (path_chain entry)
     \<and> \<not> inside (fs_key (path_div entry (path_name ws))) (fs_key ws)
     \<and> \<not> inside (fs_key ws) (fs_key (path_div entry (path_name ws)))
     \<and> \<not> inside (fs_key (path_div entry (path_name ws))) (fs_key (path_div entry ''manifest.json''))
     \<and> \<not> inside (fs_key ws) (fs_key (path_div entry ''manifest.json''))
     \<and> \<not> inside (fs_key entry) (fs_key ws)
     \<and> \<not> inside (fs_key ws) (fs_key entry)
     \<and> inside (fs_key entry) (fs_key (path_div entry (path_name ws)))
     \<and> inside (fs_key entry) (fs_key (path_div entry ''manifest.json''))
     \<and> \<not> inside (fs_key ws) (fs_key (path_parent ws)) \<and> \<not> inside (fs_key entry) (fs_key (path_parent ws))"

lemma parent_ok_keep:
  "parent_ok p h \<Longrightarrow> (files h (fs_key (path_parent p)) = Some Directory \<Longrightarrow>
     files h' (fs_key (path_parent p)) = Some Directory) \<Longrightarrow> parent_ok p h'"
  by (auto simp: parent_ok_def)

text \<open>What a garbage collection does: below a host \<open>h0\<close> in which the entry was made, the tree stands under
  the entry, its old place is empty, and the manifest is written.\<close>

lemma gc_effect:
  fixes h :: "'m host_scheme"
  assumes gc: "gc_workspace_to_trash k ts now ws trash h = (Inr res, h1)"
    and layout: "gc_layout ws (trash_entry_of k trash ts ws)"
    and fresh: "\<forall>x. inside (fs_key (trash_entry_of k trash ts ws)) x \<longrightarrow> files h x = None \<and> \<not> io_fault h x"
  obtains h0 :: "'m host_scheme" where "gc_trash_path res = trash_entry_of k trash ts ws" "files h \<subseteq>\<^sub>m files h0"
    "\<forall>x. x \<notin> fs_key ` set (path_chain (trash_entry_of k trash ts ws)) \<longrightarrow> files h0 x = files h x"
    "files h0 (fs_key ws) \<noteq> None" "\<not> io_fault h (fs_key ws)" "io_fault h1 = io_fault h"
    "\<forall>x. files h1 x =
       (if x = fs_key (path_div (trash_entry_of k trash ts ws) ''manifest.json'')
        then Some (Regular (dumps_indent 0 (manifest_of ws now)))
        else if inside (fs_key (path_div (trash_entry_of k trash ts ws) (path_name ws))) x
        then files h0 (fs_key ws @ drop (length (fs_key (path_div (trash_entry_of k trash ts ws) (path_name ws)))) x)
        else if inside (fs_key ws) x then None else files h0 x)"
proof -
  define entry where "entry = trash_entry_of k trash ts ws"
  define w where "w = fs_key ws"
  define e where "e = fs_key entry"
  define d where "d = fs_key (path_div entry (path_name ws))"
  define m where "m = fs_key (path_div entry ''manifest.json'')"
  define mtext where "mtext = dumps_indent 0 (manifest_of ws now)"
  note names = entry_def [symmetric] w_def [symmetric] e_def [symmetric] d_def [symmetric] m_def [symmetric]
    mtext_def [symmetric]
  note lay = layout [unfolded gc_layout_def names list_all_iff]
  obtain h0 h01 where mk: "fs_makedirs entry h = (Inr (), h0)"
    and mv: "fs_move ws (path_div entry (path_name ws)) h0 = (Inr (), h01)"
    and wr: "fs_write (path_div entry ''manifest.json'') mtext h01 = (Inr (), h1)"
    and res: "gc_trash_path res = entry"
    using gc lay by (auto simp: gc_workspace_to_trash_def act_simps Let_def names split: prod.splits sum.splits)
  have io0: "io_fault h0 = io_fault h" and grow: "files h \<subseteq>\<^sub>m files h0"
    using fs_makedirs_grows [OF mk] by simp_all
  note chain = fs_makedirs_only [OF mk]
  have "files h0 d = None" using chain [of d] fresh [THEN spec, of d] lay by (auto simp: names)
  then have "fs_rename ws (path_div entry (path_name ws)) h0 = (Inr (), h01)"
    using mv by (simp add: fs_move_def names)
  note rn = this [unfolded fs_rename_Inr names] and wr' = wr [unfolded fs_write_Inr names]
  show thesis
    by (rule that [of h0]) (use res grow chain rn wr' io0 in \<open>auto simp: names\<close>)
qed

text \<open>C25: Garbage collection is reversible: when a workspace has been moved to a fresh trash entry, the entry
  holds the whole tree and the workspace is gone; restoring that entry succeeds, puts every node of the
  workspace back, removes the entry, and apart from the trash directories nothing else has changed.\<close>

theorem gc_restore_roundtrip:
  fixes h :: "'m host_scheme"
  assumes gc: "gc_workspace_to_trash k ts now ws trash h = (Inr res, h1)"
    and layout: "gc_layout ws (trash_entry_of k trash ts ws)"
    and fresh: "\<And>x. inside (fs_key (trash_entry_of k trash ts ws)) x \<Longrightarrow> files h x = None \<and> \<not> io_fault h x"
    and parent: "parent_ok ws h"
  shows "(\<forall>x. inside (fs_key ws) x \<longrightarrow> files h1 x = None)
    \<and> (\<exists>h2. restore_from_trash (gc_trash_path res) h1 = (Inr (), h2)
      \<and> (\<forall>x. inside (fs_key ws) x \<longrightarrow> files h2 x = files h x)
      \<and> (\<forall>x. inside (fs_key (trash_entry_of k trash ts ws)) x \<longrightarrow> files h2 x = None)
      \<and> (\<forall>x. x \<notin> fs_key ` set (path_chain (trash_entry_of k trash ts ws)) \<longrightarrow> files h2 x = files h x))"
proof -
  define entry where "entry = trash_entry_of k trash ts ws"
  define w where "w = fs_key ws"
  define e where "e = fs_key entry"
  define d where "d = fs_key (path_div entry (path_name ws))"
  define m where "m = fs_key (path_div entry ''manifest.json'')"
  define mtext where "mtext = dumps_indent 0 (manifest_of ws now)"
  note names = entry_def [symmetric] w_def [symmetric] e_def [symmetric] d_def [symmetric] m_def [symmetric]
    mtext_def [symmetric]
  note lay = layout [unfolded gc_layout_def names list_all_iff]
  have all_fresh: "\<forall>x. inside (fs_key (trash_entry_of k trash ts ws)) x \<longrightarrow> files h x = None \<and> \<not> io_fault h x"
    using fresh by blast
  obtain h0 :: "'m host_scheme" where eff: "gc_trash_path res = entry" "files h \<subseteq>\<^sub>m files h0"
    "\<forall>x. x \<notin> fs_key ` set (path_chain entry) \<longrightarrow> files h0 x = files h x"
    "files h0 w \<noteq> None" "\<not> io_fault h w" "io_fault h1 = io_fault h"
    and f1: "\<forall>x. files h1 x = (if x = m then Some (Regular mtext) else if inside d x then files h0 (w @ drop (length d) x)
      else if inside w x then None else files h0 x)"
    by (rule gc_effect [OF gc layout all_fresh, unfolded names])
  have ws: "path_str ws = ws" using lay by simp
  note fresh' = fresh [unfolded names]
  have w0: "files h0 x = files h x" if "inside w x" for x
  proof (cases "x \<in> fs_key ` set (path_chain entry)")
    case True
    with lay that show ?thesis by auto
  qed (use eff(3) in simp)
  have gone: "files h1 x = None" if "inside w x" for x
  proof -
    have "\<not> inside d x" using apart_trees [OF that, of d] lay by blast
    then show ?thesis using that lay by (auto simp: f1)
  qed
  have manifest: "loads mtext = Some (manifest_of ws now)"
    unfolding mtext_def manifest_of_def by (rule loads_indent) auto
  have parent1: "parent_ok ws h1"
  proof (rule parent_ok_keep [OF parent])
    assume "files h (fs_key (path_parent ws)) = Some Directory"
    with eff(2) have "files h0 (fs_key (path_parent ws)) = Some Directory" by (auto simp: map_le_def dom_def)
    moreover have "\<not> inside d (fs_key (path_parent ws))" using lay inside_trans by blast
    ultimately show "files h1 (fs_key (path_parent ws)) = Some Directory" using lay by (auto simp: f1)
  qed
  define h2' where "h2' = h1\<lparr>files := (\<lambda>x. if inside w x then files h1 (d @ drop (length w) x)
      else if inside d x then None else files h1 x)\<rparr>"
  have moved_back: "fs_rename (path_div entry (path_name ws)) ws h1 = (Inr (), h2')"
    unfolding fs_rename_Inr names h2'_def
    using gone [of w] f1 [THEN spec, of d] eff(4-6) fresh' [of d] lay parent1 by auto
  have restore: "restore_from_trash (gc_trash_path res) h1 = (Inr (), fs_rmtree entry h2')"
    using f1 [THEN spec, of m] eff(6) fresh [of m] lay gone [of w] moved_back manifest
    by (simp add: restore_from_trash_def eff(1) act_simps fs_exists_def names Let_def fs_read_def manifest_of_def
        obj_get_def ws restore_to_def fs_move_def)
  have tree: "files (fs_rmtree entry h2') x = files h x" if "inside w x" for x
  proof -
    have "\<not> inside e x" using apart_trees [OF that, of e] lay by blast
    moreover have "inside d (d @ drop (length w) x)" by (rule inside_shift [OF that])
    moreover have "w @ drop (length w) x = x" using inside_split [OF that] by simp
    ultimately show ?thesis
      using that lay w0 [OF that] by (auto simp: fs_rmtree_def h2'_def f1 names)
  qed
  have gone2: "files (fs_rmtree entry h2') x = None" if "inside e x" for x
    using that fresh' [of x] eff(6) by (simp add: fs_rmtree_def h2'_def names)
  have rest: "files (fs_rmtree entry h2') x = files h x" if x: "x \<notin> fs_key ` set (path_chain entry)" for x
  proof -
    consider "inside w x" | "inside e x" | "\<not> inside w x" "\<not> inside e x" by blast
    then show ?thesis
    proof cases
      case 3
      have "\<not> inside d x" using 3 lay inside_trans by blast
      with 3 lay eff(3) [THEN spec, THEN mp, OF x] show ?thesis by (auto simp: fs_rmtree_def h2'_def f1 names)
    qed (use tree gone2 fresh' in \<open>simp_all add: names\<close>)
  qed
  show ?thesis
    unfolding names using gone restore tree gone2 rest by blast
qed

text \<open>A machine with one workspace outside the source tree.\<close>

definition sample_kernel :: owned_kernel where
  "sample_kernel = \<lparr>k_workspaces_root = ''/srv/ws'', k_source_root = ''/root/rawos'',
     k_worktree_root = ''/root/.anima-worktrees''\<rparr>"

definition sample_owned_host :: host where
  "sample_owned_host = \<lparr>files = [''/srv'' \<mapsto> Directory, ''/srv/ws'' \<mapsto> Directory, ''/srv/ws/p1'' \<mapsto> Directory,
     ''/srv/ws/p1/a'' \<mapsto> Regular ''data''], io_fault = (\<lambda>_. False)\<rparr>"

lemma sample_no_trash: "inside ''/srv/trash'' x \<Longrightarrow> files sample_owned_host x = None"
  by (auto simp: sample_owned_host_def inside_def startswith_def)

theorem gc_restore_roundtrip_witness:
  "\<exists>h2. restore_from_trash ''/srv/trash/T_p1'' (snd (gc_workspace_to_trash sample_kernel ''T'' 7 ''/srv/ws/p1''
      (Some ''/srv/trash'') sample_owned_host)) = (Inr (), h2)
    \<and> files h2 ''/srv/ws/p1/a'' = Some (Regular ''data'')"
proof -
  let ?gc = "gc_workspace_to_trash sample_kernel ''T'' 7 ''/srv/ws/p1'' (Some ''/srv/trash'') sample_owned_host"
  have entry: "trash_entry_of sample_kernel (Some ''/srv/trash'') ''T'' ''/srv/ws/p1'' = ''/srv/trash/T_p1''" by code_simp
  have keys: "fs_key ''/srv/trash/T_p1'' = ''/srv/trash/T_p1''" "fs_key ''/srv/ws/p1'' = ''/srv/ws/p1''" by code_simp+
  have r: "fst ?gc = Inr \<lparr>original_path = ''/srv/ws/p1'', gc_trash_path = ''/srv/trash/T_p1''\<rparr>" by code_simp
  have gc: "?gc = (Inr \<lparr>original_path = ''/srv/ws/p1'', gc_trash_path = ''/srv/trash/T_p1''\<rparr>, snd ?gc)"
    using r by (metis prod.collapse)
  have layout: "gc_layout ''/srv/ws/p1'' (trash_entry_of sample_kernel (Some ''/srv/trash'') ''T'' ''/srv/ws/p1'')"
    unfolding entry by code_simp
  have "inside ''/srv/trash'' x" if "inside ''/srv/trash/T_p1'' x" for x
  proof -
    have "inside ''/srv/trash'' ''/srv/trash/T_p1''" by code_simp
    then show ?thesis using that by (rule inside_trans)
  qed
  then have fresh: "files sample_owned_host x = None \<and> \<not> io_fault sample_owned_host x"
    if "inside (fs_key (trash_entry_of sample_kernel (Some ''/srv/trash'') ''T'' ''/srv/ws/p1'')) x" for x
    using that sample_no_trash unfolding entry keys by (auto simp: sample_owned_host_def)
  have parent: "parent_ok ''/srv/ws/p1'' sample_owned_host" by code_simp
  have inn: "inside (fs_key ''/srv/ws/p1'') ''/srv/ws/p1/a''" unfolding keys by code_simp
  have a: "files sample_owned_host ''/srv/ws/p1/a'' = Some (Regular ''data'')" by code_simp
  from gc_restore_roundtrip [OF gc layout fresh parent] inn a show ?thesis by fastforce
qed

text \<open>The inner floor protects a live workspace by its own path only: a collection of the directory that
  contains it passes the floor and moves it away with everything else.\<close>

theorem active_workspace_moved_with_parent:
  "let out = execute_approved_owned_op sample_kernel Some (\<lambda>_. act_return ()) ''T'' 7
         \<lparr>op_type = ''workspace_gc'', target_path = ''/srv/ws'', trash_root = Some ''/root/rawos/data/.trash''\<rparr>
         [''/srv/ws/p1''] \<lparr>db = empty_db, world = sample_owned_host\<rparr>
   in fst out = Inr \<lparr>own_applied = True, res_trash_path = Some ''/root/rawos/data/.trash/T_ws'', res_reason = []\<rparr>
      \<and> files (world (snd out)) ''/srv/ws/p1/a'' = None
      \<and> fst (execute_approved_owned_op sample_kernel Some (\<lambda>_. act_return ()) ''T'' 7
         \<lparr>op_type = ''workspace_gc'', target_path = ''/srv/ws/p1'', trash_root = None\<rparr>
         [''/srv/ws/p1''] \<lparr>db = empty_db, world = sample_owned_host\<rparr>) = Inl OwnedResourceRefusalError"
  by code_simp

text \<open>With the default settings no workspace can ever be collected: the workspaces root lies in the source
  root, so the floor takes every path in it for anima source code, and both entry points refuse it.\<close>

theorem default_workspaces_floored:
  assumes "owned_kernel_of rp default_settings = Some k" and "rp ''/root/rawos'' = Some ''/root/rawos''"
    and "rp (target_path spec) = Some real" and "inside ''/root/rawos/workspaces'' real"
  shows "operate_on_owned_resource cfg k rp vacuum ts now user spec active st = (Inl OwnedResourceRefusalError, st)
    \<and> execute_approved_owned_op k rp vacuum ts now spec active st = (Inl OwnedResourceRefusalError, st)"
proof -
  have k: "k_source_root k = ''/root/rawos''"
    using assms(1) by (auto simp: owned_kernel_of_def default_settings_def assms(2) split: option.splits)
  have join: "path_join ''/root/rawos'' ''data'' = ''/root/rawos/data''" by code_simp
  have src: "inside ''/root/rawos'' real"
    by (rule inside_trans [OF _ assms(4)]) code_simp
  have "\<not> inside ''/root/rawos/data'' real"
  proof
    assume "inside ''/root/rawos/data'' real"
    then have "inside ''/root/rawos/data'' ''/root/rawos/workspaces'' \<or> inside ''/root/rawos/workspaces'' ''/root/rawos/data''"
      using assms(4) by (rule apart_trees)
    moreover have "\<not> inside ''/root/rawos/data'' ''/root/rawos/workspaces''"
      "\<not> inside ''/root/rawos/workspaces'' ''/root/rawos/data''" by code_simp+
    ultimately show False by blast
  qed
  with src have "\<not> owned_and_not_floored k rp (target_path spec) active"
    by (simp add: owned_and_not_floored_def inner_floor_check_def assms(3) k join Let_def)
  then show ?thesis
    by (simp add: operate_on_owned_resource_def execute_approved_owned_op_def act_then_apply assert_cases)
qed

theorem default_workspaces_floored_witness:
  "execute_approved_owned_op \<lparr>k_workspaces_root = ''/root/rawos/workspaces'', k_source_root = ''/root/rawos'',
      k_worktree_root = ''/root/.anima-worktrees''\<rparr> Some (\<lambda>_. act_return ()) ''T'' 7
      \<lparr>op_type = ''workspace_gc'', target_path = ''/root/rawos/workspaces/old'', trash_root = None\<rparr> []
      \<lparr>db = empty_db, world = sample_owned_host\<rparr> =
    (Inl OwnedResourceRefusalError, \<lparr>db = empty_db, world = sample_owned_host\<rparr>)"
proof -
  let ?k = "\<lparr>k_workspaces_root = ''/root/rawos/workspaces'', k_source_root = ''/root/rawos'',
      k_worktree_root = ''/root/.anima-worktrees''\<rparr>"
  have k: "owned_kernel_of Some default_settings = Some ?k"
    by (simp add: owned_kernel_of_def default_settings_def)
  have i: "inside ''/root/rawos/workspaces'' ''/root/rawos/workspaces/old''" by code_simp
  show ?thesis
    by (rule default_workspaces_floored [OF k _ _ i, THEN conjunct2]) simp_all
qed

theorem owned_boundary_and_floor_witness:
  "execute_approved_owned_op sample_kernel Some (\<lambda>_. act_return ()) ''T'' 7
      \<lparr>op_type = ''workspace_gc'', target_path = ''/etc'', trash_root = None\<rparr> []
      \<lparr>db = empty_db, world = sample_owned_host\<rparr> =
    (Inl OwnedResourceRefusalError, \<lparr>db = empty_db, world = sample_owned_host\<rparr>)"
proof -
  have "\<not> (\<exists>root \<in> set (owned_roots sample_kernel). inside root ''/etc'')" by code_simp
  then show ?thesis
    by (intro owned_boundary_and_floor [THEN conjunct2]) auto
qed

end
