(* ===== verification/Audit_Chain.thy ===== *)
theory Audit_Chain
  imports Py_Paths Py_Json "HOL-Library.AList" "HOL-Library.List_Lexorder" "HOL-Library.Char_ord"
begin

text \<open>
  The audit log of \<open>anima/kernel/audit_chain.py\<close>: an append-only JSONL file of records that are chained
  by their hashes and signed, with \<open>append\<close>, \<open>read_all\<close> and \<open>verify\<close>. SHA-256, ECDSA, the PEM codec and
  the clock are parameters; what is shown holds for every hash without collisions on the records.
  A method holds the instance's lock from end to end, so it is one step here.
\<close>

subsection \<open>The parameters\<close>

text \<open>\<open>ec_sign\<close> takes the randomness of a signature as an argument.\<close>

record ('sk, 'pk) crypto =
  sha256_hex :: "string \<Rightarrow> string"
  ec_sign :: "'sk \<Rightarrow> nat \<Rightarrow> string \<Rightarrow> string"
  ec_verify :: "'pk \<Rightarrow> string \<Rightarrow> string \<Rightarrow> bool"
  public_of :: "'sk \<Rightarrow> 'pk"
  generate_key :: "nat \<Rightarrow> 'sk"
  load_pem :: "string \<Rightarrow> 'sk option"
  pem_private :: "'sk \<Rightarrow> string"
  pem_public :: "'pk \<Rightarrow> string"

text \<open>The documented behaviour of a signature scheme.\<close>

definition signatures_verify :: "('sk, 'pk) crypto \<Rightarrow> bool" where
  "signatures_verify cr \<longleftrightarrow> (\<forall>sk r msg. ec_verify cr (public_of cr sk) msg (ec_sign cr sk r msg))"

subsection \<open>Canonical JSON\<close>

text \<open>A Python dict built from pairs keeps the first position and the last value of a key.\<close>

definition py_dict :: "(string \<times> json) list \<Rightarrow> (string \<times> json) list" where
  "py_dict kvs = foldl (\<lambda>m (k, v). AList.update k v m) [] kvs"

text \<open>\<open>sort_keys=True\<close> sorts the members of every object by key.\<close>

fun json_sorted :: "json \<Rightarrow> json" where
  "json_sorted (JList xs) = JList (map json_sorted xs)"
| "json_sorted (JObj kvs) = JObj (sort_key fst (py_dict (map (\<lambda>(k, v). (k, json_sorted v)) kvs)))"
| "json_sorted j = j"

definition canonical :: "json \<Rightarrow> json \<Rightarrow> json \<Rightarrow> json \<Rightarrow> string" where
  "canonical seq ts_ms prev_hash payload = dumps '','' '':'' (json_sorted (JObj
     [(''seq'', seq), (''ts_ms'', ts_ms), (''prev_hash'', prev_hash), (''payload'', payload)]))"

text \<open>\<open>bytes.hex\<close> and \<open>bytes.fromhex\<close>, which skips white space between the bytes.\<close>

definition bytes_hex :: "string \<Rightarrow> string" where
  "bytes_hex bs = concat (map (\<lambda>c. let n = (of_char c :: nat) in [hex_digit (n div 16), hex_digit (n mod 16)]) bs)"

definition ascii_space :: "char \<Rightarrow> bool" where
  "ascii_space c \<longleftrightarrow> c \<in> {CHR '' '', CHR 0x09, CHR 0x0A, CHR 0x0B, CHR 0x0C, CHR 0x0D}"

fun bytes_fromhex :: "string \<Rightarrow> string option" where
  "bytes_fromhex [] = Some []"
| "bytes_fromhex (c # cs) =
     (if ascii_space c then bytes_fromhex cs
      else case cs of [] \<Rightarrow> None
       | d # ds \<Rightarrow> (case (hex_value c, hex_value d) of
             (Some a, Some b) \<Rightarrow> map_option ((#) (char_of (a * 16 + b))) (bytes_fromhex ds)
           | _ \<Rightarrow> None))"

subsection \<open>The chain\<close>

text \<open>What \<open>_load_chain_tail\<close> reads from the file is any JSON value, so the three fields are.\<close>

record ('sk, 'pk) audit_chain =
  private_key :: 'sk
  public_key :: 'pk
  last_hash :: json
  last_seq :: json
  last_ts_ms :: json

definition new_chain :: "'sk \<Rightarrow> 'pk \<Rightarrow> ('sk, 'pk) audit_chain" where
  "new_chain sk pk = \<lparr>private_key = sk, public_key = pk, last_hash = JStr [], last_seq = JInt 0, last_ts_ms = JInt 0\<rparr>"

definition create_keys :: "('sk, 'pk) crypto \<Rightarrow> nat \<Rightarrow> string \<Rightarrow> string \<Rightarrow> ('m host_scheme, 'sk \<times> 'pk) act" where
  "create_keys cr rnd key_path pub_path =
     (let sk = generate_key cr rnd; pk = public_of cr sk in
      act_then (fs_write key_path (pem_private cr sk))
      (act_then (if pub_path = [] then act_return () else fs_write pub_path (pem_public cr pk))
      (act_return (sk, pk))))"

definition load_or_create_keys ::
    "('sk, 'pk) crypto \<Rightarrow> nat \<Rightarrow> string \<Rightarrow> string \<Rightarrow> ('m host_scheme, 'sk \<times> 'pk) act" where
  "load_or_create_keys cr rnd key_path pub_path =
     act_bind (act_get (fs_exists key_path)) (\<lambda>there.
       if there then
         act_catch
           (act_bind (fs_read key_path) (\<lambda>pem. case load_pem cr pem of
              None \<Rightarrow> act_raise PyValueError | Some sk \<Rightarrow> act_return (sk, public_of cr sk)))
           (\<lambda>_. create_keys cr rnd key_path pub_path)
       else create_keys cr rnd key_path pub_path)"

text \<open>The lines of a file that are not blank, stripped. A text file is read with universal newlines, a
  binary one is split at line feeds only.\<close>

fun universal_newlines :: "string \<Rightarrow> string" where
  "universal_newlines [] = []"
| "universal_newlines (c # cs) =
     (if c = CHR 0x0D
      then CHR 0x0A # universal_newlines (if cs \<noteq> [] \<and> hd cs = CHR 0x0A then tl cs else cs)
      else c # universal_newlines cs)"

definition bytes_strip :: "string \<Rightarrow> string" where
  "bytes_strip s = rev (dropWhile ascii_space (rev (dropWhile ascii_space s)))"

definition binary_lines :: "string \<Rightarrow> string list" where
  "binary_lines t = filter (\<lambda>l. l \<noteq> []) (map bytes_strip (split_on (CHR 0x0A) t))"

definition text_lines :: "string \<Rightarrow> string list" where
  "text_lines t = filter (\<lambda>l. l \<noteq> []) (map py_strip (split_on (CHR 0x0A) (universal_newlines t)))"

text \<open>The fields are assigned one after the other: a record without \<open>seq\<close> leaves the hash set.\<close>

definition tail_fields :: "json \<Rightarrow> ('sk, 'pk) audit_chain \<Rightarrow> ('sk, 'pk) audit_chain" where
  "tail_fields rec c = (case rec of
       JObj kvs \<Rightarrow> (case obj_get ''hash'' kvs of None \<Rightarrow> c
         | Some hh \<Rightarrow> (let c1 = c\<lparr>last_hash := hh\<rparr> in case obj_get ''seq'' kvs of None \<Rightarrow> c1
           | Some s \<Rightarrow> (let c2 = c1\<lparr>last_seq := s\<rparr> in case obj_get ''ts_ms'' kvs of None \<Rightarrow> c2
             | Some t \<Rightarrow> c2\<lparr>last_ts_ms := t\<rparr>)))
     | _ \<Rightarrow> c)"

definition load_chain_tail :: "string \<Rightarrow> 'm host_scheme \<Rightarrow> ('sk, 'pk) audit_chain \<Rightarrow> ('sk, 'pk) audit_chain" where
  "load_chain_tail path h c =
     (if \<not> fs_exists path h then c
      else case fst (fs_read path h) of
        Inl _ \<Rightarrow> c
      | Inr t \<Rightarrow> (case binary_lines t of [] \<Rightarrow> c
          | l # ls \<Rightarrow> (case loads (last (l # ls)) of None \<Rightarrow> c | Some rec \<Rightarrow> tail_fields rec c)))"

definition audit_init ::
    "('sk, 'pk) crypto \<Rightarrow> nat \<Rightarrow> string \<Rightarrow> string \<Rightarrow> string \<Rightarrow> ('m host_scheme, ('sk, 'pk) audit_chain) act" where
  "audit_init cr rnd path key_path pub_path =
     act_then (fs_makedirs (path_parent path))
     (act_then (fs_makedirs (path_parent key_path))
     (act_bind (load_or_create_keys cr rnd key_path pub_path) (\<lambda>(sk, pk).
      act_get (\<lambda>h. load_chain_tail path h (new_chain sk pk)))))"

subsection \<open>Appending\<close>

text \<open>The state of an appending process: its chain instance and the disk.\<close>

record ('sk, 'pk, 'm) audit_state =
  chain :: "('sk, 'pk) audit_chain"
  disk :: "'m host_scheme"

definition full_payload :: "string \<Rightarrow> (string \<times> json) list \<Rightarrow> json" where
  "full_payload event_type payload = JObj (py_dict ((''type'', JStr event_type) # payload))"

definition chain_record :: "('sk, 'pk) crypto \<Rightarrow> 'sk \<Rightarrow> nat \<Rightarrow> int \<Rightarrow> int \<Rightarrow> json \<Rightarrow> json \<Rightarrow> (string \<times> json) list" where
  "chain_record cr sk rnd seq ts prev payload =
     (let can = canonical (JInt seq) (JInt ts) prev payload in
      [(''seq'', JInt seq), (''ts_ms'', JInt ts), (''prev_hash'', prev), (''payload'', payload),
       (''hash'', JStr (sha256_hex cr can)), (''sig'', JStr (bytes_hex (ec_sign cr sk rnd can)))])"

definition append_locked ::
    "('sk, 'pk) crypto \<Rightarrow> string \<Rightarrow> nat \<Rightarrow> int \<Rightarrow> string \<Rightarrow> (string \<times> json) list \<Rightarrow> (('sk, 'pk, 'm) audit_state, json) act" where
  "append_locked cr path rnd now event_type payload = (\<lambda>st.
     case py_int (last_seq (chain st)) of
       None \<Rightarrow> (Inl type_error, st)
     | Some n \<Rightarrow>
         (let seq = n + 1; full = full_payload event_type payload;
              can = canonical (JInt seq) (JInt now) (last_hash (chain st)) full;
              rec = JObj (chain_record cr (private_key (chain st)) rnd seq now (last_hash (chain st)) full)
          in case fs_append path (dumps '','' '':'' rec @ [CHR 0x0A]) (disk st) of
               (Inl e, h) \<Rightarrow> (Inl e, st\<lparr>disk := h\<rparr>)
             | (Inr _, h) \<Rightarrow> (Inr rec, st\<lparr>disk := h, chain := (chain st)\<lparr>last_hash := JStr (sha256_hex cr can),
                 last_seq := JInt seq, last_ts_ms := JInt now\<rparr>\<rparr>)))"

definition audit_append ::
    "('sk, 'pk) crypto \<Rightarrow> string \<Rightarrow> nat \<Rightarrow> int \<Rightarrow> string \<Rightarrow> (string \<times> json) list \<Rightarrow> (('sk, 'pk, 'm) audit_state, json) act" where
  "audit_append cr path rnd now event_type payload =
     act_catch (append_locked cr path rnd now event_type payload) (\<lambda>_. act_return (JObj []))"

subsection \<open>Reading and verifying\<close>

text \<open>A line that is no JSON ends the reading; what was read until then is returned.\<close>

fun parse_records :: "string list \<Rightarrow> json list" where
  "parse_records [] = []"
| "parse_records (l # ls) = (case loads l of None \<Rightarrow> [] | Some rec \<Rightarrow> rec # parse_records ls)"

definition read_all :: "string \<Rightarrow> 'm host_scheme \<Rightarrow> json list" where
  "read_all path h =
     (if \<not> fs_exists path h then []
      else case fst (fs_read path h) of Inl _ \<Rightarrow> [] | Inr t \<Rightarrow> parse_records (text_lines t))"

datatype verify_reason = EmptyChain | NoReason | MissingField | HashMismatch | ChainBreak | InvalidSig
  | SignatureInvalid | SeqGap

record VerifyResult =
  ok :: bool
  records_verified :: nat
  reason :: verify_reason

text \<open>The checks of one record, given the hash and the record before it: an exception that leaves
  \<open>verify\<close>, the reason of a negative result, or the record's hash.\<close>

definition seq_follows :: "json option \<Rightarrow> json \<Rightarrow> exn + bool" where
  "seq_follows prior seq = (case prior of None \<Rightarrow> Inr True
     | Some (JObj kvs) \<Rightarrow> (case obj_get ''seq'' kvs of None \<Rightarrow> Inl PyKeyError
         | Some s \<Rightarrow> (case py_int s of None \<Rightarrow> Inl type_error | Some n \<Rightarrow> Inr (py_int seq = Some (n + 1))))
     | Some _ \<Rightarrow> Inl type_error)"

definition check_sig :: "('sk, 'pk) crypto \<Rightarrow> 'pk \<Rightarrow> string \<Rightarrow> json option \<Rightarrow> exn + verify_reason option" where
  "check_sig cr pk can sig = (case sig of
       None \<Rightarrow> Inr (Some InvalidSig)
     | Some (JStr s) \<Rightarrow> (case bytes_fromhex s of None \<Rightarrow> Inr (Some InvalidSig)
         | Some bs \<Rightarrow> Inr (if ec_verify cr pk can bs then None else Some SignatureInvalid))
     | Some _ \<Rightarrow> Inl type_error)"

definition check_record ::
    "('sk, 'pk) crypto \<Rightarrow> 'pk \<Rightarrow> json \<Rightarrow> json option \<Rightarrow> json \<Rightarrow> exn + (verify_reason + json)" where
  "check_record cr pk prev prior rec = (case rec of
       JObj kvs \<Rightarrow> (case (obj_get ''seq'' kvs, obj_get ''ts_ms'' kvs, obj_get ''prev_hash'' kvs, obj_get ''payload'' kvs) of
         (Some seq, Some ts, Some ph, Some payload) \<Rightarrow>
           (let can = canonical seq ts ph payload in
            case obj_get ''hash'' kvs of None \<Rightarrow> Inl PyKeyError
            | Some hh \<Rightarrow>
              if hh \<noteq> JStr (sha256_hex cr can) then Inr (Inl HashMismatch)
              else if ph \<noteq> prev then Inr (Inl ChainBreak)
              else case check_sig cr pk can (obj_get ''sig'' kvs) of
                Inl e \<Rightarrow> Inl e
              | Inr (Some r) \<Rightarrow> Inr (Inl r)
              | Inr None \<Rightarrow> (case seq_follows prior seq of Inl e \<Rightarrow> Inl e
                  | Inr b \<Rightarrow> Inr (if b then Inr hh else Inl SeqGap)))
       | _ \<Rightarrow> Inr (Inl MissingField))
     | _ \<Rightarrow> Inl type_error)"

fun verify_from ::
    "('sk, 'pk) crypto \<Rightarrow> 'pk \<Rightarrow> nat \<Rightarrow> json \<Rightarrow> json option \<Rightarrow> json list \<Rightarrow> exn + VerifyResult" where
  "verify_from cr pk i prev prior [] = Inr \<lparr>ok = True, records_verified = i, reason = NoReason\<rparr>"
| "verify_from cr pk i prev prior (rec # recs) = (case check_record cr pk prev prior rec of
       Inl e \<Rightarrow> Inl e
     | Inr (Inl r) \<Rightarrow> Inr \<lparr>ok = False, records_verified = i, reason = r\<rparr>
     | Inr (Inr hh) \<Rightarrow> verify_from cr pk (i + 1) hh (Some rec) recs)"

definition audit_verify :: "('sk, 'pk) crypto \<Rightarrow> string \<Rightarrow> ('sk, 'pk, 'm) audit_state \<Rightarrow> exn + VerifyResult" where
  "audit_verify cr path st = (let records = read_all path (disk st) in
     if records = [] then Inr \<lparr>ok = True, records_verified = 0, reason = EmptyChain\<rparr>
     else verify_from cr (public_key (chain st)) 0 (JStr []) None records)"


subsection \<open>Canonical forms\<close>

lemma py_dict_subset: "set (py_dict kvs) \<subseteq> set kvs"
proof -
  have upd: "set (AList.update k v m) \<subseteq> insert (k, v) (set m)" for k :: string and v :: json and m
    by (induction m) auto
  have "set (foldl (\<lambda>m (k, v). AList.update k v m) m kvs) \<subseteq> set m \<union> set kvs" for m
  proof (induction kvs arbitrary: m)
    case (Cons kv kvs)
    obtain k v where "kv = (k, v)" by fastforce
    with Cons [of "AList.update k v m"] upd [of k v m] show ?case by auto
  qed simp
  from this [of "[]"] show ?thesis by (simp add: py_dict_def)
qed

lemma float_free_sorted: "float_free j \<Longrightarrow> float_free (json_sorted j)"
proof (induction j rule: json_sorted.induct)
  case (2 kvs)
  have "float_free v'" if kv: "(k, v') \<in> set (py_dict (map (\<lambda>(k, v). (k, json_sorted v)) kvs))" for k v'
  proof -
    have "(k, v') \<in> set (map (\<lambda>(k, v). (k, json_sorted v)) kvs)" using kv py_dict_subset by blast
    then obtain v where v: "(k, v) \<in> set kvs" "v' = json_sorted v" by auto
    from "2.IH" [OF v(1) refl] "2.prems" v show ?thesis by (auto simp: list_all_iff)
  qed
  then show ?case by (auto simp: list_all_iff)
qed (auto simp: list_all_iff)

lemma sorted_members: "json_sorted (JObj
     [(''seq'', s), (''ts_ms'', t), (''prev_hash'', p), (''payload'', d)]) =
   JObj [(''payload'', json_sorted d), (''prev_hash'', json_sorted p), (''seq'', json_sorted s), (''ts_ms'', json_sorted t)]"
  by (simp add: py_dict_def less_eq_char_def less_char_def)

text \<open>The canonical text determines what it stands for.\<close>

lemma canonical_inj:
  assumes "canonical s t p d = canonical s' t' p' d'"
    and "\<And>j. j \<in> {s, t, p, d, s', t', p', d'} \<Longrightarrow> float_free j"
  shows "json_sorted s = json_sorted s' \<and> json_sorted t = json_sorted t' \<and> json_sorted p = json_sorted p'
    \<and> json_sorted d = json_sorted d'"
proof -
  let ?j = "\<lambda>s t p d. JObj [(''payload'', json_sorted d), (''prev_hash'', json_sorted p), (''seq'', json_sorted s),
     (''ts_ms'', json_sorted t)]"
  have l: "loads (dumps '','' '':'' j) = Some j" if "float_free j" for j
    using loads_dumps [OF that, of "[]" "[]"] by (simp add: blanks_def)
  have "loads (dumps '','' '':'' (?j s t p d)) = loads (dumps '','' '':'' (?j s' t' p' d'))"
    using assms(1) unfolding canonical_def sorted_members by (rule arg_cong)
  moreover have "float_free (?j s t p d)" "float_free (?j s' t' p' d')"
    using assms(2) by (auto intro!: float_free_sorted)
  ultimately have "?j s t p d = ?j s' t' p' d'" using l by (metis option.inject)
  then show ?thesis by simp
qed

subsection \<open>Hexadecimal\<close>

lemma hex_digit_no_space: "n < 16 \<Longrightarrow> \<not> ascii_space (hex_digit n)"
proof -
  assume "n < 16"
  then have "n \<in> set [0..<16]" by simp
  moreover have "list_all (\<lambda>n. \<not> ascii_space (hex_digit n)) [0..<16]" by code_simp
  ultimately show ?thesis by (simp add: list_all_iff)
qed

lemma fromhex_hex: "bytes_fromhex (bytes_hex bs) = Some bs"
proof (induction bs)
  case (Cons c bs)
  have "(of_char c :: nat) < 256" by simp
  then have d: "(of_char c :: nat) div 16 < 16" by linarith
  have "char_of ((of_char c :: nat) div 16 * 16 + of_char c mod 16) = c" by simp
  with Cons d show ?case
    by (simp add: bytes_hex_def Let_def hex_digit_no_space hex_value_digit)
qed (simp add: bytes_hex_def)

subsection \<open>Lines\<close>

definition line_of :: "json \<Rightarrow> string" where
  "line_of rec = dumps '','' '':'' rec"

lemma printable_no_break: "printable s \<Longrightarrow> CHR 0x0A \<notin> set s \<and> CHR 0x0D \<notin> set s"
  by (auto simp: printable_def list_all_iff)

lemma universal_plain: "CHR 0x0D \<notin> set s \<Longrightarrow> universal_newlines (s @ t) = s @ universal_newlines t"
  by (induction s) auto

lemma universal_lines: "list_all printable ls \<Longrightarrow>
   universal_newlines (concat (map (\<lambda>l. l @ [CHR 0x0A]) ls)) = concat (map (\<lambda>l. l @ [CHR 0x0A]) ls)"
  by (induction ls) (simp_all add: printable_no_break universal_plain)

lemma split_lines: "list_all printable ls \<Longrightarrow>
   split_on (CHR 0x0A) (concat (map (\<lambda>l. l @ [CHR 0x0A]) ls)) = ls @ [[]]"
  by (induction ls) (simp_all add: printable_no_break split_on_append_sep)

text \<open>A record's line begins and ends with a brace, so stripping does not change it.\<close>

definition solid :: "string \<Rightarrow> bool" where
  "solid l \<longleftrightarrow> printable l \<and> l \<noteq> [] \<and> hd l = CHR 0x7B \<and> last l = CHR 0x7D"

lemma strip_solid: "solid l \<Longrightarrow> py_strip l = l \<and> bytes_strip l = l"
proof -
  assume l: "solid l"
  have sp: "\<not> is_space (CHR 0x7B)" "\<not> is_space (CHR 0x7D)" "\<not> ascii_space (CHR 0x7B)" "\<not> ascii_space (CHR 0x7D)"
    by (simp_all add: is_space_def ascii_space_def)
  have d: "dropWhile P s = s" if "s \<noteq> []" "\<not> P (hd s)" for P and s :: string using that by (cases s) auto
  show ?thesis
    using l sp by (simp add: solid_def py_strip_def py_lstrip_def py_rstrip_def bytes_strip_def d hd_rev)
qed

lemma lines_of_solid:
  assumes "list_all solid ls"
  shows "text_lines (concat (map (\<lambda>l. l @ [CHR 0x0A]) ls)) = ls"
    and "binary_lines (concat (map (\<lambda>l. l @ [CHR 0x0A]) ls)) = ls"
proof -
  have p: "list_all printable ls" using assms by (simp add: list_all_iff solid_def)
  have m: "map py_strip ls = ls" "map bytes_strip ls = ls" "filter (\<lambda>l. l \<noteq> []) ls = ls"
    using assms strip_solid by (simp_all add: list_all_iff map_idI solid_def)
  have e: "py_strip [] = []" "bytes_strip [] = []" by (simp_all add: py_strip_def py_lstrip_def py_rstrip_def bytes_strip_def)
  show "text_lines (concat (map (\<lambda>l. l @ [CHR 0x0A]) ls)) = ls"
    "binary_lines (concat (map (\<lambda>l. l @ [CHR 0x0A]) ls)) = ls"
    by (simp_all add: text_lines_def binary_lines_def universal_lines [OF p] split_lines [OF p] m e)
qed

lemma line_solid: "float_free (JObj kvs) \<Longrightarrow> solid (line_of (JObj kvs))"
  using printable_dumps [of "JObj kvs" "'',''" "'':''"] by (simp add: solid_def line_of_def)

lemma parse_lines: "list_all float_free recs \<Longrightarrow> parse_records (map line_of recs) = recs"
proof (induction recs)
  case (Cons r recs)
  have "loads (line_of r) = Some r"
    using loads_dumps [of r "[]" "[]"] Cons.prems by (simp add: blanks_def line_of_def)
  with Cons show ?case by simp
qed simp


subsection \<open>Signed chains\<close>

text \<open>The records one instance writes: \<open>signed_chain cr sk recs h n t\<close> says that the last hash is \<open>h\<close>,
  the last number \<open>n\<close> and the last time \<open>t\<close>.\<close>

inductive signed_chain :: "('sk, 'pk) crypto \<Rightarrow> 'sk \<Rightarrow> json list \<Rightarrow> string \<Rightarrow> int \<Rightarrow> int \<Rightarrow> bool"
  for cr sk where
  empty: "signed_chain cr sk [] [] 0 0"
| extend: "signed_chain cr sk recs h n t \<Longrightarrow> float_free payload \<Longrightarrow>
    signed_chain cr sk (recs @ [JObj (chain_record cr sk rnd (n + 1) now (JStr h) payload)])
      (sha256_hex cr (canonical (JInt (n + 1)) (JInt now) (JStr h) payload)) (n + 1) now"

inductive_cases signed_chain_NilE: "signed_chain cr sk [] h n t"

lemma record_fields:
  "obj_get ''seq'' (chain_record cr sk rnd n now p d) = Some (JInt n)"
  "obj_get ''ts_ms'' (chain_record cr sk rnd n now p d) = Some (JInt now)"
  "obj_get ''prev_hash'' (chain_record cr sk rnd n now p d) = Some p"
  "obj_get ''payload'' (chain_record cr sk rnd n now p d) = Some d"
  "obj_get ''hash'' (chain_record cr sk rnd n now p d) =
     Some (JStr (sha256_hex cr (canonical (JInt n) (JInt now) p d)))"
  "obj_get ''sig'' (chain_record cr sk rnd n now p d) =
     Some (JStr (bytes_hex (ec_sign cr sk rnd (canonical (JInt n) (JInt now) p d))))"
  by (simp_all add: chain_record_def obj_get_def Let_def)

lemma check_record_signed:
  assumes "signatures_verify cr" and "prior = None \<or> (\<exists>kvs m. prior = Some (JObj kvs) \<and>
    obj_get ''seq'' kvs = Some (JInt m) \<and> n = m + 1)"
  shows "check_record cr (public_of cr sk) p prior (JObj (chain_record cr sk rnd n now p d)) =
    Inr (Inr (JStr (sha256_hex cr (canonical (JInt n) (JInt now) p d))))"
  using assms by (auto simp: check_record_def record_fields check_sig_def fromhex_hex signatures_verify_def seq_follows_def Let_def)

text \<open>Verifying one record more. The hash and the record before it are those the loop ended with.\<close>

lemma verify_snoc:
  "verify_from cr pk i prev prior recs = Inr \<lparr>ok = True, records_verified = k, reason = NoReason\<rparr> \<Longrightarrow>
   check_record cr pk (if recs = [] then prev else JStr h) (if recs = [] then prior else Some (last recs)) r = Inr (Inr hh) \<Longrightarrow>
   (recs \<noteq> [] \<Longrightarrow> \<exists>kvs. last recs = JObj kvs \<and> obj_get ''hash'' kvs = Some (JStr h)) \<Longrightarrow>
   verify_from cr pk i prev prior (recs @ [r]) = Inr \<lparr>ok = True, records_verified = k + 1, reason = NoReason\<rparr>"
proof (induction recs arbitrary: i prev prior)
  case (Cons q recs)
  obtain hq where hq: "check_record cr pk prev prior q = Inr (Inr hq)"
    and rest: "verify_from cr pk (i + 1) hq (Some q) recs = Inr \<lparr>ok = True, records_verified = k, reason = NoReason\<rparr>"
    using Cons.prems(1) by (auto split: sum.splits)
  have own: "\<exists>kvs. q = JObj kvs \<and> obj_get ''hash'' kvs = Some hq"
    using hq by (auto simp: check_record_def Let_def split: json.splits option.splits if_splits sum.splits)
  have "verify_from cr pk (i + 1) hq (Some q) (recs @ [r]) =
      Inr \<lparr>ok = True, records_verified = k + 1, reason = NoReason\<rparr>"
  proof (rule Cons.IH [OF rest])
    show "check_record cr pk (if recs = [] then hq else JStr h) (if recs = [] then Some q else Some (last recs)) r = Inr (Inr hh)"
      using Cons.prems(2,3) own by (auto split: if_splits)
    show "recs \<noteq> [] \<Longrightarrow> \<exists>kvs. last recs = JObj kvs \<and> obj_get ''hash'' kvs = Some (JStr h)"
      using Cons.prems(3) by auto
  qed
  then show ?case by (simp add: hq)
qed simp

lemma signed_chain_facts:
  assumes "signed_chain cr sk recs h n t"
  shows "n = int (length recs) \<and> list_all float_free recs \<and> list_all (solid \<circ> line_of) recs
    \<and> (recs = [] \<longrightarrow> h = [] \<and> t = 0)
    \<and> (recs \<noteq> [] \<longrightarrow> (\<exists>kvs. last recs = JObj kvs \<and> obj_get ''hash'' kvs = Some (JStr h)
        \<and> obj_get ''seq'' kvs = Some (JInt n) \<and> obj_get ''ts_ms'' kvs = Some (JInt t)))"
  using assms
proof induction
  case (extend recs h n t payload rnd now)
  have "float_free (JObj (chain_record cr sk rnd (n + 1) now (JStr h) payload))"
    using extend.hyps(2) by (simp add: chain_record_def Let_def)
  with extend.IH line_solid [OF this] show ?case by (auto simp: record_fields)
qed simp

lemma signed_chain_verifies:
  assumes "signatures_verify cr" and "signed_chain cr sk recs h n t"
  shows "verify_from cr (public_of cr sk) 0 (JStr []) None recs =
    Inr \<lparr>ok = True, records_verified = length recs, reason = NoReason\<rparr>"
  using assms(2)
proof induction
  case (extend recs h n t payload rnd now)
  note facts = signed_chain_facts [OF extend.hyps(1)]
  have chk: "check_record cr (public_of cr sk) (if recs = [] then JStr [] else JStr h) (if recs = [] then None else Some (last recs))
     (JObj (chain_record cr sk rnd (n + 1) now (JStr h) payload)) =
     Inr (Inr (JStr (sha256_hex cr (canonical (JInt (n + 1)) (JInt now) (JStr h) payload))))"
    using check_record_signed [OF assms(1), of "if recs = [] then None else Some (last recs)" "n + 1" sk "JStr h" rnd now payload]
      facts by auto
  have "recs \<noteq> [] \<Longrightarrow> \<exists>kvs. last recs = JObj kvs \<and> obj_get ''hash'' kvs = Some (JStr h)" using facts by auto
  from verify_snoc [OF extend.IH chk this] show ?case by simp
qed simp

text \<open>The file of an instance that has written \<open>recs\<close>.\<close>

definition chain_file :: "json list \<Rightarrow> string" where
  "chain_file recs = concat (map (\<lambda>l. l @ [CHR 0x0A]) (map line_of recs))"

lemma chain_file_read:
  assumes "signed_chain cr sk recs h n t" and "files d (fs_key path) = Some (Regular (chain_file recs))" and "\<not> io_fault d (fs_key path)"
  shows "read_all path d = recs"
    and "load_chain_tail path d (new_chain sk pk) = (new_chain sk pk)\<lparr>last_hash := JStr h, last_seq := JInt n, last_ts_ms := JInt t\<rparr>"
proof -
  note facts = signed_chain_facts [OF assms(1)]
  then have solid: "list_all solid (map line_of recs)" by (simp add: list_all_iff)
  have rd: "fst (fs_read path d) = Inr (chain_file recs)" using assms(2,3) by (simp add: fs_read_def)
  note lines = lines_of_solid [OF solid, folded chain_file_def]
  show "read_all path d = recs"
    using facts assms(2) by (simp add: read_all_def rd fs_exists_def lines parse_lines)
  show "load_chain_tail path d (new_chain sk pk) = (new_chain sk pk)\<lparr>last_hash := JStr h, last_seq := JInt n, last_ts_ms := JInt t\<rparr>"
  proof (cases recs rule: rev_cases)
    case Nil
    with facts assms(2) lines(2) show ?thesis by (simp add: load_chain_tail_def rd fs_exists_def new_chain_def)
  next
    case (snoc rs r)
    then have "loads (line_of r) = Some r" using facts loads_dumps [of r "[]" "[]"] by (simp add: blanks_def line_of_def)
    moreover obtain l ls where "map line_of recs = l # ls" "last (l # ls) = line_of r" using snoc by (cases rs) auto
    ultimately show ?thesis
      using facts snoc assms(2) lines(2) by (auto simp: load_chain_tail_def rd fs_exists_def tail_fields_def Let_def)
  qed
qed

lemma append_signed:
  assumes "signed_chain cr sk recs h n t" and "float_free (JObj payload)"
    and "chain st = (new_chain sk pk)\<lparr>last_hash := JStr h, last_seq := JInt n, last_ts_ms := JInt t\<rparr>"
    and "files (disk st) (fs_key path) = (if recs = [] \<and> absent then None else Some (Regular (chain_file recs)))"
    and "parent_ok path (disk st)" "\<not> io_fault (disk st) (fs_key path)"
  shows "\<exists>rec h'. audit_append cr path rnd now ev payload st = (Inr rec,
      st\<lparr>disk := (disk st)\<lparr>files := (files (disk st))(fs_key path \<mapsto> Regular (chain_file (recs @ [rec])))\<rparr>,
         chain := (new_chain sk pk)\<lparr>last_hash := JStr h', last_seq := JInt (n + 1), last_ts_ms := JInt now\<rparr>\<rparr>)
    \<and> signed_chain cr sk (recs @ [rec]) h' (n + 1) now"
proof -
  have "float_free (full_payload ev payload)"
    using assms(2) py_dict_subset [of "(''type'', JStr ev) # payload"] by (fastforce simp: full_payload_def list_all_iff)
  note ext = signed_chain.extend [OF assms(1) this, of rnd now]
  have "audit_append cr path rnd now ev payload st = (Inr (JObj (chain_record cr sk rnd (n + 1) now (JStr h) (full_payload ev payload))),
      st\<lparr>disk := (disk st)\<lparr>files := (files (disk st))(fs_key path \<mapsto>
           Regular (chain_file (recs @ [JObj (chain_record cr sk rnd (n + 1) now (JStr h) (full_payload ev payload))])))\<rparr>,
         chain := (new_chain sk pk)\<lparr>last_hash := JStr (sha256_hex cr (canonical (JInt (n + 1)) (JInt now) (JStr h) (full_payload ev payload))),
           last_seq := JInt (n + 1), last_ts_ms := JInt now\<rparr>\<rparr>)"
    using assms(3-) by (simp add: audit_append_def append_locked_def act_simps fs_append_def fs_write_def new_chain_def
        chain_file_def line_of_def Let_def)
  with ext show ?thesis by blast
qed

text \<open>A run of events: the randomness, the clock, the type and the payload of each.\<close>

type_synonym event = "nat \<times> int \<times> string \<times> (string \<times> json) list"

definition run_appends :: "('sk, 'pk) crypto \<Rightarrow> string \<Rightarrow> event list \<Rightarrow> ('sk, 'pk, 'm) audit_state \<Rightarrow> ('sk, 'pk, 'm) audit_state" where
  "run_appends cr path evs st = fold (\<lambda>(rnd, now, ev, payload) st. snd (audit_append cr path rnd now ev payload st)) evs st"

definition event_free :: "event \<Rightarrow> bool" where
  "event_free e = float_free (JObj (snd (snd (snd e))))"

lemma parent_ok_mono: "parent_ok p h \<Longrightarrow> files h \<subseteq>\<^sub>m files h' \<Longrightarrow> parent_ok p h'"
  by (auto simp: parent_ok_def map_le_def dom_def)


lemma parent_ok_insert: "parent_ok p (h :: 'm host_scheme) \<Longrightarrow> parent_ok p (h\<lparr>files := (files h)(fs_key p \<mapsto> Regular c)\<rparr>)
    \<or> fs_key (path_parent p) = fs_key p"
  by (auto simp: parent_ok_def)

text \<open>The disk of a run stays a signed chain.\<close>

lemma run_appends_signed:
  assumes "\<forall>e \<in> set evs. event_free e" and "signed_chain cr sk recs h n t"
    and "chain st = (new_chain sk pk)\<lparr>last_hash := JStr h, last_seq := JInt n, last_ts_ms := JInt t\<rparr>"
    and "files (disk st) (fs_key path) = (if recs = [] \<and> absent then None else Some (Regular (chain_file recs)))"
    and "parent_ok path (disk st)" "\<not> io_fault (disk st) (fs_key path)" "fs_key (path_parent path) \<noteq> fs_key path"
  shows "\<exists>recs' h' n' t'. signed_chain cr sk recs' h' n' t' \<and> length recs' = length recs + length evs
    \<and> chain (run_appends cr path evs st) = (new_chain sk pk)\<lparr>last_hash := JStr h', last_seq := JInt n', last_ts_ms := JInt t'\<rparr>
    \<and> files (disk (run_appends cr path evs st)) (fs_key path) =
        (if recs' = [] \<and> absent then None else Some (Regular (chain_file recs')))
    \<and> \<not> io_fault (disk (run_appends cr path evs st)) (fs_key path)"
  using assms
proof (induction evs arbitrary: recs h n t st)
  case Nil
  then show ?case by (auto simp: run_appends_def)
next
  case (Cons e evs)
  obtain rnd now ev payload where e: "e = (rnd, now, ev, payload)" by (cases e) auto
  have free: "float_free (JObj payload)" using Cons.prems(1) by (simp add: e event_free_def)
  obtain rec h' where app: "audit_append cr path rnd now ev payload st = (Inr rec,
      st\<lparr>disk := (disk st)\<lparr>files := (files (disk st))(fs_key path \<mapsto> Regular (chain_file (recs @ [rec])))\<rparr>,
         chain := (new_chain sk pk)\<lparr>last_hash := JStr h', last_seq := JInt (n + 1), last_ts_ms := JInt now\<rparr>\<rparr>)"
    and ext: "signed_chain cr sk (recs @ [rec]) h' (n + 1) now"
    using append_signed [OF Cons.prems(2) free Cons.prems(3-6)] by blast
  let ?st = "snd (audit_append cr path rnd now ev payload st)"
  have run: "run_appends cr path (e # evs) st = run_appends cr path evs ?st" by (simp add: run_appends_def e)
  have "parent_ok path (disk ?st)"
    using parent_ok_insert [OF Cons.prems(5)] Cons.prems(7) by (auto simp: app)
  then show ?case
    using Cons.IH [OF _ ext, of ?st] Cons.prems(1,6,7) unfolding run by (simp add: app)
qed

subsection \<open>Properties\<close>

lemma audit_signed_run:
  assumes "signatures_verify cr" and "files (disk st) (fs_key path) = None" and "\<not> io_fault (disk st) (fs_key path)"
    and "parent_ok path (disk st)" and "fs_key (path_parent path) \<noteq> fs_key path"
    and "chain st = new_chain sk (public_of cr sk)" and "\<forall>e \<in> set evs. event_free e"
  shows "audit_verify cr path (run_appends cr path evs st) = Inr \<lparr>ok = True, records_verified = length evs,
      reason = if evs = [] then EmptyChain else NoReason\<rparr>
    \<and> load_chain_tail path (disk (run_appends cr path evs st)) (new_chain sk (public_of cr sk)) =
        chain (run_appends cr path evs st)"
proof -
  let ?st = "run_appends cr path evs st"
  obtain recs h n t where sc: "signed_chain cr sk recs h n t" "length recs = length evs"
    and st: "chain ?st = (new_chain sk (public_of cr sk))\<lparr>last_hash := JStr h, last_seq := JInt n, last_ts_ms := JInt t\<rparr>"
      "files (disk ?st) (fs_key path) = (if recs = [] then None else Some (Regular (chain_file recs)))"
      "\<not> io_fault (disk ?st) (fs_key path)"
    using run_appends_signed [OF assms(7) signed_chain.empty [of cr sk], where st = st
        and pk = "public_of cr sk" and path = path and absent = True] assms
    by (auto simp: new_chain_def)
  show ?thesis
  proof (cases "recs = []")
    case True
    moreover from this have "h = []" "n = 0" "t = 0" using signed_chain_facts [OF sc(1)] by auto
    ultimately show ?thesis
      using st sc(2) by (simp add: audit_verify_def read_all_def fs_exists_def load_chain_tail_def new_chain_def)
  next
    case False
    note rd = chain_file_read [OF sc(1) _ st(3), OF st(2) [unfolded if_not_P [OF False]]]
    have "public_key (chain ?st) = public_of cr sk" by (simp add: st(1) new_chain_def)
    moreover have "evs \<noteq> []" using False sc(2) by auto
    ultimately show ?thesis
      using rd False sc(2) signed_chain_verifies [OF assms(1) sc(1)] by (simp add: audit_verify_def st(1) Let_def)
  qed
qed

text \<open>C3: The audit log verifies and survives a restart: whatever events an instance appends to a file it
  created, \<open>verify\<close> accepts the file and counts exactly these events, and a process that starts on the
  file recovers the sequence number, the hash and the time of the last record, so that it can go on with
  the chain.\<close>

theorem audit_chain_sound:
  assumes "signatures_verify cr" and "files (disk st) (fs_key path) = None" and "\<not> io_fault (disk st) (fs_key path)"
    and "parent_ok path (disk st)" and "fs_key (path_parent path) \<noteq> fs_key path"
    and "chain st = new_chain sk (public_of cr sk)" and "\<forall>e \<in> set evs. event_free e"
  shows "audit_verify cr path (run_appends cr path evs st) = Inr \<lparr>ok = True, records_verified = length evs,
      reason = if evs = [] then EmptyChain else NoReason\<rparr>
    \<and> load_chain_tail path (disk (run_appends cr path evs st)) (new_chain sk (public_of cr sk)) =
        chain (run_appends cr path evs st)"
  by (rule audit_signed_run [OF assms])


text \<open>What a record says, in canonical order, and the hash it carries.\<close>

definition content_of :: "json \<Rightarrow> json option list" where
  "content_of rec = (case rec of
       JObj kvs \<Rightarrow> map (\<lambda>k. map_option json_sorted (obj_get k kvs)) [''seq'', ''ts_ms'', ''prev_hash'', ''payload'']
     | _ \<Rightarrow> [])"

definition hash_of :: "json \<Rightarrow> json option" where
  "hash_of rec = (case rec of JObj kvs \<Rightarrow> obj_get ''hash'' kvs | _ \<Rightarrow> None)"

definition canonical_of :: "json \<Rightarrow> string" where
  "canonical_of rec = (case rec of JObj kvs \<Rightarrow> canonical (the (obj_get ''seq'' kvs)) (the (obj_get ''ts_ms'' kvs))
     (the (obj_get ''prev_hash'' kvs)) (the (obj_get ''payload'' kvs)) | _ \<Rightarrow> [])"

text \<open>A list of records in which each carries its own hash and the hash of the one before.\<close>

fun linked :: "('sk, 'pk) crypto \<Rightarrow> json \<Rightarrow> json list \<Rightarrow> bool" where
  "linked cr prev [] = True"
| "linked cr prev (rec # recs) \<longleftrightarrow> (\<exists>kvs seq ts payload. rec = JObj kvs \<and> obj_get ''seq'' kvs = Some seq
     \<and> obj_get ''ts_ms'' kvs = Some ts \<and> obj_get ''prev_hash'' kvs = Some prev \<and> obj_get ''payload'' kvs = Some payload)
     \<and> hash_of rec = Some (JStr (sha256_hex cr (canonical_of rec)))
     \<and> linked cr (JStr (sha256_hex cr (canonical_of rec))) recs"

lemma check_record_linked:
  assumes "check_record cr pk prev prior rec = Inr (Inr hh)"
  shows "linked cr prev [rec] \<and> hh = JStr (sha256_hex cr (canonical_of rec))"
proof (cases rec)
  case (JObj kvs)
  with assms show ?thesis
    by (auto simp: check_record_def canonical_of_def hash_of_def Let_def split: option.splits if_splits sum.splits)
qed (use assms in \<open>simp_all add: check_record_def\<close>)

lemma verified_linked:
  "verify_from cr pk i prev prior recs = Inr r \<Longrightarrow> ok r \<Longrightarrow> linked cr prev recs"
proof (induction recs arbitrary: i prev prior)
  case (Cons q recs)
  from Cons.prems obtain hh where hh: "check_record cr pk prev prior q = Inr (Inr hh)"
    and rest: "verify_from cr pk (i + 1) hh (Some q) recs = Inr r"
    by (auto split: sum.splits)
  from check_record_linked [OF hh] Cons.IH [OF rest Cons.prems(2)] show ?case by simp
qed simp

lemma linked_snoc:
  "linked cr prev (recs @ [q]) \<longleftrightarrow> linked cr prev recs
     \<and> linked cr (if recs = [] then prev else JStr (sha256_hex cr (canonical_of (last recs)))) [q]"
  by (induction cr prev recs rule: linked.induct) auto

text \<open>Two linked lists with one head hash say the same, record by record.\<close>

lemma linked_unique:
  assumes "linked cr (JStr []) xs" "linked cr (JStr []) ys" "xs \<noteq> []" "ys \<noteq> []"
    and "hash_of (last xs) = hash_of (last ys)"
    and "inj_on (sha256_hex cr) (canonical_of ` (set xs \<union> set ys))" and "\<And>m. sha256_hex cr m \<noteq> []"
    and "list_all float_free xs" "list_all float_free ys"
  shows "map content_of xs = map content_of ys"
  using assms
proof (induction xs arbitrary: ys rule: rev_induct)
  case (snoc x xs)
  obtain zs y where ys: "ys = zs @ [y]" using snoc.prems(4) by (cases ys rule: rev_cases) auto
  let ?p = "\<lambda>xs. if xs = [] then JStr [] else JStr (sha256_hex cr (canonical_of (last xs)))"
  have lx: "linked cr (?p xs) [x]" and ly: "linked cr (?p zs) [y]" and l: "linked cr (JStr []) xs" "linked cr (JStr []) zs"
    using snoc.prems(1,2) unfolding ys linked_snoc by (auto split: if_splits)
  have can: "canonical_of x = canonical_of y"
    using snoc.prems(5) lx ly inj_onD [OF snoc.prems(6), of "canonical_of x" "canonical_of y"] by (auto simp: ys)
  obtain kvs seq ts pl where x: "x = JObj kvs" "obj_get ''seq'' kvs = Some seq" "obj_get ''ts_ms'' kvs = Some ts"
    "obj_get ''prev_hash'' kvs = Some (?p xs)" "obj_get ''payload'' kvs = Some pl" using lx by auto
  obtain kvs' seq' ts' pl' where y: "y = JObj kvs'" "obj_get ''seq'' kvs' = Some seq'" "obj_get ''ts_ms'' kvs' = Some ts'"
    "obj_get ''prev_hash'' kvs' = Some (?p zs)" "obj_get ''payload'' kvs' = Some pl'" using ly by auto
  have free: "float_free v" if "obj_get k m = Some v" "JObj m \<in> {x, y}" for k m v
  proof -
    have "(k, v) \<in> set m" using map_of_SomeD [OF that(1) [unfolded obj_get_def]] by simp
    with that(2) snoc.prems(8,9) show ?thesis by (auto simp: list_all_iff ys)
  qed
  have same: "json_sorted seq = json_sorted seq' \<and> json_sorted ts = json_sorted ts'
      \<and> json_sorted (?p xs) = json_sorted (?p zs) \<and> json_sorted pl = json_sorted pl'"
    by (rule canonical_inj)
      (use can x y free in \<open>auto simp: canonical_of_def\<close>)
  then have link: "?p xs = ?p zs" by (auto split: if_splits)
  then have empty: "xs = [] \<longleftrightarrow> zs = []" using snoc.prems(7) snoc.prems(7) [symmetric] by (auto split: if_splits)
  have heads: "map content_of [x] = map content_of [y]" using same by (simp add: x y content_of_def)
  have "map content_of xs = map content_of zs"
  proof (cases "xs = []")
    case False
    have "hash_of (last xs) = hash_of (last zs)"
    proof -
      obtain xs' a where a: "xs = xs' @ [a]" using False by (cases xs rule: rev_cases) auto
      obtain zs' b where b: "zs = zs' @ [b]" using False empty by (cases zs rule: rev_cases) auto
      show ?thesis using l link by (auto simp: a b linked_snoc)
    qed
    moreover have "inj_on (sha256_hex cr) (canonical_of ` (set xs \<union> set zs))"
      by (rule inj_on_subset [OF snoc.prems(6)]) (auto simp: ys)
    ultimately show ?thesis
      using snoc.IH [OF l False] empty False snoc.prems(7-9) by (simp add: ys)
  qed (use empty in simp)
  with heads show ?case by (simp add: ys)
qed simp

text \<open>A rewritten log is detected by its mirrored head: when two files both pass \<open>verify\<close> and end in a
  record with the same hash, they have the same number of records and these agree in their number, time,
  previous hash and payload, whatever keys signed them, unless the hash function collides on them.\<close>

theorem mirrored_head_fixes_log:
  assumes "audit_verify cr path st = Inr r" "ok r" "audit_verify cr path st' = Inr r'" "ok r'"
    and "read_all path (disk st) = xs" "read_all path (disk st') = ys" "xs \<noteq> []" "ys \<noteq> []"
    and "hash_of (last xs) = hash_of (last ys)"
    and "inj_on (sha256_hex cr) (canonical_of ` (set xs \<union> set ys))" "\<And>m. sha256_hex cr m \<noteq> []"
    and "list_all float_free xs" "list_all float_free ys"
  shows "map content_of xs = map content_of ys"
proof (rule linked_unique)
  show "linked cr (JStr []) xs" "linked cr (JStr []) ys"
    using assms(1-8) by (auto simp: audit_verify_def Let_def intro: verified_linked)
qed (use assms in auto)

text \<open>A line that is no JSON blinds the verifier: the verdict on a file is the verdict on its part before
  that line, so one damaged line hides every record after it and the file still passes.\<close>

theorem damaged_line_hides_rest:
  assumes "files (disk st) (fs_key path) = Some (Regular t)" "files (disk st') (fs_key path) = Some (Regular t')"
    and "\<not> io_fault (disk st) (fs_key path)" "\<not> io_fault (disk st') (fs_key path)"
    and "text_lines t = good @ bad # rest" "text_lines t' = good" "loads bad = None"
    and "public_key (chain st) = public_key (chain st')"
  shows "audit_verify cr path st = audit_verify cr path st'"
proof -
  have "parse_records (good @ bad # rest) = parse_records good"
    by (induction good) (simp_all add: assms(7) split: option.split)
  then show ?thesis
    using assms by (simp add: audit_verify_def read_all_def fs_exists_def fs_read_def Let_def)
qed


text \<open>A toy signature scheme and a hash without collisions, to evaluate the model on.\<close>

definition sample_crypto :: "(string, string) crypto" where
  "sample_crypto = \<lparr>sha256_hex = (\<lambda>m. CHR ''h'' # m), ec_sign = (\<lambda>sk r m. sk @ m), ec_verify = (\<lambda>pk m s. s = pk @ m),
     public_of = (\<lambda>sk. sk), generate_key = (\<lambda>r. ''k''), load_pem = Some, pem_private = (\<lambda>k. k), pem_public = (\<lambda>k. k)\<rparr>"

definition sample_audit :: "(string, string, unit) audit_state" where
  "sample_audit = \<lparr>chain = new_chain ''k'' ''k'', disk = \<lparr>files = [''/a'' \<mapsto> Directory], io_fault = (\<lambda>_. False)\<rparr>\<rparr>"

definition sample_events :: "event list" where
  "sample_events = [(0, 5, ''boot'', []), (1, 9, ''tool_call'', [(''tool'', JStr ''bash''), (''tier'', JInt 1)])]"

lemma sample_signatures: "signatures_verify sample_crypto"
  by (simp add: signatures_verify_def sample_crypto_def)

theorem audit_chain_sound_witness:
  "audit_verify sample_crypto ''/a/log'' (run_appends sample_crypto ''/a/log'' sample_events sample_audit) =
     Inr \<lparr>ok = True, records_verified = 2, reason = NoReason\<rparr>"
proof -
  have path: "fs_key ''/a/log'' = ''/a/log''" by code_simp
  have fresh: "files (disk sample_audit) (fs_key ''/a/log'') = None" unfolding path by code_simp
  have fault: "\<not> io_fault (disk sample_audit) (fs_key ''/a/log'')" by (simp add: sample_audit_def)
  have parent: "parent_ok ''/a/log'' (disk sample_audit)" by code_simp
  have apart: "fs_key (path_parent ''/a/log'') \<noteq> fs_key ''/a/log''" by code_simp
  have new: "chain sample_audit = new_chain ''k'' (public_of sample_crypto ''k'')"
    by (simp add: sample_audit_def sample_crypto_def)
  have free: "\<forall>e \<in> set sample_events. event_free e" by (simp add: sample_events_def event_free_def)
  show ?thesis
    using audit_chain_sound [OF sample_signatures fresh fault parent apart new free] by (simp add: sample_events_def)
qed

text \<open>A log of one record, which is the same log when another key has signed it.\<close>

definition sample_log :: "string \<Rightarrow> json list" where
  "sample_log k = [JObj (chain_record sample_crypto k 0 1 5 (JStr []) (full_payload ''boot'' []))]"

definition sample_signed :: "string \<Rightarrow> (string, string, unit) audit_state" where
  "sample_signed k = \<lparr>chain = new_chain k k, disk = \<lparr>files = [''/a/log'' \<mapsto> Regular (chain_file (sample_log k))],
     io_fault = (\<lambda>_. False)\<rparr>\<rparr>"

lemma sample_log_signed: "\<exists>h n t. signed_chain sample_crypto k (sample_log k) h n t"
proof -
  have "float_free (full_payload ''boot'' [])" by code_simp
  from signed_chain.extend [OF signed_chain.empty this, of sample_crypto k 0 5] show ?thesis
    by (auto simp: sample_log_def)
qed

lemma sample_log_read: "read_all ''/a/log'' (disk (sample_signed k)) = sample_log k"
proof -
  have key: "fs_key ''/a/log'' = ''/a/log''" by code_simp
  obtain h n t where "signed_chain sample_crypto k (sample_log k) h n t" using sample_log_signed by blast
  from chain_file_read(1) [OF this, of "disk (sample_signed k)" "''/a/log''"] show ?thesis
    by (simp add: sample_signed_def key)
qed

lemma sample_log_verifies: "audit_verify sample_crypto ''/a/log'' (sample_signed k) =
    Inr \<lparr>ok = True, records_verified = 1, reason = NoReason\<rparr>"
proof -
  obtain h n t where "signed_chain sample_crypto k (sample_log k) h n t" using sample_log_signed by blast
  from signed_chain_verifies [OF sample_signatures this]
  have "verify_from sample_crypto k 0 (JStr []) None (sample_log k) = Inr \<lparr>ok = True, records_verified = 1, reason = NoReason\<rparr>"
    by (simp add: sample_crypto_def sample_log_def)
  moreover have "public_key (chain (sample_signed k)) = k" "sample_log k \<noteq> []"
    by (simp_all add: sample_signed_def new_chain_def sample_log_def)
  ultimately show ?thesis by (simp add: audit_verify_def sample_log_read Let_def)
qed

theorem mirrored_head_fixes_log_witness:
  "map content_of (sample_log ''k'') = map content_of (sample_log ''other'')"
proof (rule mirrored_head_fixes_log [OF sample_log_verifies _ sample_log_verifies _ sample_log_read sample_log_read])
  show "hash_of (last (sample_log ''k'')) = hash_of (last (sample_log ''other''))"
    by (simp add: sample_log_def hash_of_def record_fields)
  show "list_all float_free (sample_log ''k'')" "list_all float_free (sample_log ''other'')"
    by (simp_all add: sample_log_def chain_record_def Let_def full_payload_def py_dict_def)
  show "inj_on (sha256_hex sample_crypto) (canonical_of ` (set (sample_log ''k'') \<union> set (sample_log ''other'')))"
    by (rule inj_onI) (simp add: sample_crypto_def)
qed (simp_all add: sample_log_def sample_crypto_def)

theorem damaged_line_hides_rest_witness:
  "audit_verify sample_crypto ''/a/log'' (sample_audit\<lparr>disk := \<lparr>files = [''/a/log'' \<mapsto> Regular
       (''{'' @ chain_file (sample_log ''k''))], io_fault = (\<lambda>_. False)\<rparr>\<rparr>) =
   audit_verify sample_crypto ''/a/log'' (sample_audit\<lparr>disk := \<lparr>files = [''/a/log'' \<mapsto> Regular []],
       io_fault = (\<lambda>_. False)\<rparr>\<rparr>)"
proof -
  let ?l = "CHR 0x7B # line_of (hd (sample_log ''k''))"
  have key: "fs_key ''/a/log'' = ''/a/log''" by code_simp
  have one: "''{'' @ chain_file (sample_log ''k'') = concat (map (\<lambda>l. l @ [CHR 0x0A]) [?l])"
    by (simp add: chain_file_def sample_log_def)
  have "solid (line_of (hd (sample_log ''k'')))"
    by (simp add: sample_log_def chain_record_def Let_def full_payload_def py_dict_def line_solid)
  then have "list_all solid [?l]" by (simp add: solid_def)
  then have lines: "text_lines (''{'' @ chain_file (sample_log ''k'')) = [] @ ?l # []"
    unfolding one append_Nil by (rule lines_of_solid(1))
  have bad: "loads ?l = None" by code_simp
  have none: "text_lines [] = []" by code_simp
  show ?thesis
    by (rule damaged_line_hides_rest [OF _ _ _ _ lines none bad]) (simp_all add: key)
qed

end
