(* ===== verification/Self_Reload.thy ===== *)
theory Self_Reload
  imports Deadman Py_Json Reversible_Operation Anima_Config
begin

text \<open>
  The self-reload of \<open>anima/kernel/self_reload.py\<close>: \<open>preflight_stage\<close> refuses or stages a commit,
  \<open>arm_and_swap\<close> arms the revert timer, swaps the source and dies, and \<open>boot_liveness_commit\<close> resolves
  the pending reload at the next boot; the boot task of \<open>anima/api/app.py\<close> records its outcome. Git,
  Python, systemd, the health probe and the clock are parameters. The clock counts whole seconds.
\<close>

subsection \<open>Collaborators\<close>

text \<open>\<open>runner.run(args, cwd)\<close>.\<close>

type_synonym 'w runner = "string list \<Rightarrow> string \<Rightarrow> ('w, proc) act"

record 'w worktree_manager =
  wt_create :: "string \<Rightarrow> string \<Rightarrow> ('w, string) act"
  wt_remove :: "string \<Rightarrow> ('w, unit) act"

definition SELF_RELOAD_STATE_FILENAME :: string where "SELF_RELOAD_STATE_FILENAME = ''pending.json''"
definition SELF_RELOAD_WORKTREE_ROOT :: string where
  "SELF_RELOAD_WORKTREE_ROOT = ''/root/.anima-selfreload-worktrees''"
definition SELF_RELOAD_DEADMAN_UNIT :: string where "SELF_RELOAD_DEADMAN_UNIT = ''rawos-selfreload-revert''"
definition SELF_RELOAD_DEADMAN_DELAY_S :: int where "SELF_RELOAD_DEADMAN_DELAY_S = 180"
definition SELF_RELOAD_LIVENESS_MARGIN_S :: int where "SELF_RELOAD_LIVENESS_MARGIN_S = 30"
definition SELF_RELOAD_PROBE_INTERVAL_S :: int where "SELF_RELOAD_PROBE_INTERVAL_S = 2"
definition DEPENDENCY_FILES :: "string list" where "DEPENDENCY_FILES = [''pyproject.toml'']"
definition TIER0_PROTECTED_FILES :: "string set" where
  "TIER0_PROTECTED_FILES = {''anima/kernel/self_reload.py'', ''anima/kernel/operator.py'', ''anima/kernel/pam_operator.py''}"

text \<open>\<open>uuid4().hex\<close> is \<open>rnd\<close>; the manager removes from the configured source root.\<close>

definition worktree_create :: "('m host_scheme) runner \<Rightarrow> string \<Rightarrow> string \<Rightarrow> string \<Rightarrow> ('m host_scheme, string) act" where
  "worktree_create run rnd repo_path sha =
     (let target = path_div SELF_RELOAD_WORKTREE_ROOT (''selfreload-'' @ take 12 sha @ ''-'' @ take 8 rnd) in
      act_then (fs_makedirs SELF_RELOAD_WORKTREE_ROOT)
      (act_bind (run [''git'', ''worktree'', ''add'', ''--detach'', target, sha] repo_path) (\<lambda>result.
        if returncode result \<noteq> 0 then act_raise SelfReloadPreflightError else act_return target)))"

definition worktree_remove :: "('m host_scheme) runner \<Rightarrow> string \<Rightarrow> string \<Rightarrow> ('m host_scheme, unit) act" where
  "worktree_remove run source_root worktree_path =
     act_bind (run [''git'', ''worktree'', ''remove'', ''--force'', worktree_path] source_root) (\<lambda>result.
       if returncode result \<noteq> 0 then act_modify (fs_rmtree worktree_path) else act_return ())"

definition WorktreeManager :: "('m host_scheme) runner \<Rightarrow> string \<Rightarrow> string \<Rightarrow> ('m host_scheme) worktree_manager" where
  "WorktreeManager run source_root rnd = \<lparr>wt_create = worktree_create run rnd, wt_remove = worktree_remove run source_root\<rparr>"

definition self_reload_systemd :: "'w shell \<Rightarrow> 'w deadman" where
  "self_reload_systemd sh = \<lparr>
     dm_arm = (\<lambda>timer_unit delay_s revert_cmd. act_then
       (run_check sh ([''systemd-run'', ''--on-active'', show_int delay_s, ''--unit='' @ timer_unit, ''--'']
          @ py_words revert_cmd)) (act_return ())),
     dm_disarm = (\<lambda>timer_unit. act_then
       (sh [''systemctl'', ''stop'', timer_unit @ ''.timer'']) (act_return ()))\<rparr>"

record SelfReloadSnapshot =
  snap_old_sha :: string
  snap_new_sha :: string
  snap_state_id :: string
  snap_armed_at :: int
  snap_deadman_unit :: string
  snap_migration_delta :: "string list"
  snap_venv_frozen_hash :: string

subsection \<open>Git helpers\<close>

definition git_rev_parse :: "'w runner \<Rightarrow> string \<Rightarrow> string \<Rightarrow> ('w, string) act" where
  "git_rev_parse run cwd ref = act_bind (run [''git'', ''rev-parse'', ref] cwd) (\<lambda>result.
     if returncode result \<noteq> 0 then act_raise SelfReloadStateError else act_return (py_strip (stdout result)))"

definition git_head :: "'w runner \<Rightarrow> string \<Rightarrow> ('w, string) act" where
  "git_head run cwd = git_rev_parse run cwd ''HEAD''"

definition diff_paths :: "'w runner \<Rightarrow> string \<Rightarrow> string \<Rightarrow> string \<Rightarrow> string \<Rightarrow> ('w, string list) act" where
  "diff_paths run cwd old new pathspec =
     act_bind (run ([''git'', ''diff'', ''--name-only'', old @ ''..'' @ new] @
        (if pathspec \<noteq> [] then [''--'', pathspec] else [])) cwd) (\<lambda>result.
       if returncode result \<noteq> 0 then act_raise SelfReloadStateError
       else act_return (filter (\<lambda>l. py_strip l \<noteq> []) (splitlines (stdout result))))"

text \<open>The texts of the dependency files at a commit; a file that is not there counts as empty.\<close>

fun dependency_texts :: "'w runner \<Rightarrow> string \<Rightarrow> string \<Rightarrow> string list \<Rightarrow> ('w, string) act" where
  "dependency_texts run cwd sha [] = act_return []"
| "dependency_texts run cwd sha (f # fs) =
     act_bind (run [''git'', ''show'', sha @ '':'' @ f] cwd) (\<lambda>result.
     act_bind (dependency_texts run cwd sha fs) (\<lambda>rest.
       act_return ((if returncode result = 0 then stdout result else []) @ rest)))"

definition dependency_hash :: "(string \<Rightarrow> string) \<Rightarrow> 'w runner \<Rightarrow> string \<Rightarrow> string \<Rightarrow> ('w, string) act" where
  "dependency_hash digest run cwd sha = act_bind (dependency_texts run cwd sha DEPENDENCY_FILES) (\<lambda>t. act_return (digest t))"

definition verify_sha_ancestry :: "'w runner \<Rightarrow> string \<Rightarrow> string \<Rightarrow> ('w, unit) act" where
  "verify_sha_ancestry run source_root new =
     act_bind (git_head run source_root) (\<lambda>head_sha.
       if head_sha = new then act_return ()
       else act_bind (run [''git'', ''merge-base'', ''--is-ancestor'', head_sha, new] source_root) (\<lambda>result.
         if returncode result \<noteq> 0 then act_raise SelfReloadRefusalError else act_return ()))"

subsection \<open>Preflight\<close>

definition smoke_checks :: "'w runner \<Rightarrow> string \<Rightarrow> string \<Rightarrow> ('w, unit) act" where
  "smoke_checks run python wt_path =
     act_bind (run [python, ''-c'', ''import anima.api.app''] wt_path) (\<lambda>imp.
       if returncode imp \<noteq> 0 then act_raise SelfReloadPreflightError
       else act_bind (run [python, ''-m'', ''pytest'', ''-q'', ''-m'', ''self_reload_smoke''] wt_path) (\<lambda>test.
         if returncode test \<noteq> 0 then act_raise SelfReloadPreflightError else act_return ()))"

text \<open>\<open>sys.executable\<close> is \<open>python\<close>, \<open>uuid4()\<close> gives \<open>sid\<close>, SHA-256 is \<open>digest\<close>.\<close>

definition preflight_stage ::
    "(string \<Rightarrow> string) \<Rightarrow> 'w runner \<Rightarrow> 'w worktree_manager \<Rightarrow> string \<Rightarrow> string \<Rightarrow> string \<Rightarrow> string
     \<Rightarrow> ('w, SelfReloadSnapshot) act" where
  "preflight_stage digest run worktree python sid source_root new =
     act_bind (git_head run source_root) (\<lambda>old.
     act_then (verify_sha_ancestry run source_root new)
     (act_bind (diff_paths run source_root old new ''migrations/'') (\<lambda>migration_delta.
       if migration_delta \<noteq> [] then act_raise SelfReloadRefusalError else
     act_bind (diff_paths run source_root old new []) (\<lambda>all_changed.
       if set all_changed \<inter> TIER0_PROTECTED_FILES \<noteq> {} then act_raise SelfReloadRefusalError else
     act_bind (dependency_hash digest run source_root old) (\<lambda>old_dep_hash.
     act_bind (dependency_hash digest run source_root new) (\<lambda>new_dep_hash.
       if old_dep_hash \<noteq> new_dep_hash then act_raise SelfReloadRefusalError else
     act_bind (wt_create worktree source_root new) (\<lambda>wt_path.
     act_then (act_finally (smoke_checks run python wt_path) (wt_remove worktree wt_path))
     (act_return \<lparr>snap_old_sha = old, snap_new_sha = new, snap_state_id = sid, snap_armed_at = 0,
        snap_deadman_unit = SELF_RELOAD_DEADMAN_UNIT, snap_migration_delta = migration_delta,
        snap_venv_frozen_hash = new_dep_hash\<rparr>))))))))"

subsection \<open>Arm and swap\<close>

definition pending_record :: "SelfReloadSnapshot \<Rightarrow> int \<Rightarrow> bool \<Rightarrow> json" where
  "pending_record snap now autonomous = JObj [(''old_sha'', JStr (snap_old_sha snap)), (''new_sha'', JStr (snap_new_sha snap)),
     (''state_id'', JStr (snap_state_id snap)), (''armed_at'', JInt now), (''deadman_unit'', JStr (snap_deadman_unit snap)),
     (''autonomous'', JBool autonomous)]"

definition revert_command :: "SelfReloadSnapshot \<Rightarrow> string" where
  "revert_command snap = ''/usr/local/bin/rawos-selfreload-revert '' @ snap_old_sha snap @ '' '' @ snap_state_id snap"

text \<open>Everything before the process dies. \<open>audit\<close> appends to the audit chain.\<close>

definition arm_then_swap ::
    "('m host_scheme) deadman \<Rightarrow> ('m host_scheme) runner \<Rightarrow> (string \<Rightarrow> (string \<times> json) list \<Rightarrow> ('m host_scheme, json) act)
     \<Rightarrow> string \<Rightarrow> string \<Rightarrow> int \<Rightarrow> bool \<Rightarrow> SelfReloadSnapshot \<Rightarrow> ('m host_scheme, unit) act" where
  "arm_then_swap sd run audit source_root state_dir now autonomous snap =
     (let state_path = path_div state_dir SELF_RELOAD_STATE_FILENAME in
      act_then (fs_makedirs state_dir)
      (act_bind (act_get (fs_exists state_path)) (\<lambda>there.
        if there then act_raise SelfReloadStateError
        else
          act_then (fs_write state_path (dumps '', '' '': '' (pending_record snap now autonomous)))
          (act_then
            (act_catch (dm_arm sd (snap_deadman_unit snap) SELF_RELOAD_DEADMAN_DELAY_S (revert_command snap))
              (\<lambda>e. act_then (fs_unlink_missing_ok state_path) (act_raise e)))
          (act_then
            (act_catch (act_then (audit ''self_reload_arm'' [(''old_sha'', JStr (snap_old_sha snap)),
                (''new_sha'', JStr (snap_new_sha snap)), (''state_id'', JStr (snap_state_id snap)),
                (''autonomous'', JBool autonomous)]) (act_return ())) (\<lambda>_. act_return ()))
            (act_catch
              (act_bind (run [''git'', ''reset'', ''--hard'', snap_new_sha snap] source_root) (\<lambda>result.
                 if returncode result \<noteq> 0 then act_raise SelfReloadStateError else act_return ()))
              (\<lambda>e. act_then (dm_disarm sd (snap_deadman_unit snap))
                (act_then (fs_unlink_missing_ok state_path) (act_raise e)))))))))"

text \<open>\<open>die\<close> is \<open>os._exit(0)\<close>.\<close>

definition arm_and_swap ::
    "('m host_scheme) deadman \<Rightarrow> ('m host_scheme) runner \<Rightarrow> (string \<Rightarrow> (string \<times> json) list \<Rightarrow> ('m host_scheme, json) act)
     \<Rightarrow> ('m host_scheme, unit) act \<Rightarrow> string \<Rightarrow> string \<Rightarrow> int \<Rightarrow> bool \<Rightarrow> SelfReloadSnapshot \<Rightarrow> ('m host_scheme, unit) act" where
  "arm_and_swap sd run audit die source_root state_dir now autonomous snap =
     act_then (arm_then_swap sd run audit source_root state_dir now autonomous snap) die"

definition execute_owner_self_reload where
  "execute_owner_self_reload digest run worktree python sid sd audit die source_root state_dir now autonomous new =
     act_bind (preflight_stage digest run worktree python sid source_root new)
       (arm_and_swap sd run audit die source_root state_dir now autonomous)"

subsection \<open>Resolution at boot\<close>

text \<open>The probe is retried until it succeeds or the deadline has passed. The clock is read from the world.\<close>

partial_function (option) probe_until ::
    "('w, bool) act \<Rightarrow> ('w \<Rightarrow> int) \<Rightarrow> ('w, unit) act \<Rightarrow> int \<Rightarrow> 'w \<Rightarrow> ((exn + bool) \<times> 'w) option" where
  "probe_until probe now sleep deadline w = (case probe w of
       (Inl e, w1) \<Rightarrow> Some (Inl e, w1)
     | (Inr b, w1) \<Rightarrow>
         if b then Some (Inr True, w1)
         else if deadline \<le> now w1 then Some (Inr False, w1)
         else (case sleep w1 of
             (Inl e, w2) \<Rightarrow> Some (Inl e, w2)
           | (Inr _, w2) \<Rightarrow> probe_until probe now sleep deadline w2))"

datatype boot_outcome = NoPending | Committed | Resurrected | LivenessFailed

record pending_state =
  pend_old :: json
  pend_new :: json
  pend_unit :: json
  pend_armed_at :: json

definition read_pending :: "string \<Rightarrow> ('m host_scheme, pending_state) act" where
  "read_pending state_path = act_bind (fs_read state_path) (\<lambda>t. case loads t of
       None \<Rightarrow> act_raise PyValueError
     | Some (JObj kvs) \<Rightarrow>
         (case (obj_get ''old_sha'' kvs, obj_get ''new_sha'' kvs, obj_get ''deadman_unit'' kvs, obj_get ''armed_at'' kvs) of
            (Some a, Some b, Some u, Some t) \<Rightarrow>
              act_return \<lparr>pend_old = a, pend_new = b, pend_unit = u, pend_armed_at = t\<rparr>
          | _ \<Rightarrow> act_raise PyKeyError)
     | Some _ \<Rightarrow> act_raise type_error)"

text \<open>The timer of a pending record; a unit that is not a string never is one of the timers.\<close>

definition disarm_json :: "'w deadman \<Rightarrow> json \<Rightarrow> ('w, unit) act" where
  "disarm_json sd u = (case u of JStr s \<Rightarrow> dm_disarm sd s | _ \<Rightarrow> act_raise type_error)"

definition resolve_with :: "('m host_scheme) deadman \<Rightarrow> json \<Rightarrow> string \<Rightarrow> boot_outcome \<Rightarrow> ('m host_scheme, boot_outcome) act" where
  "resolve_with sd u state_path outcome =
     act_then (disarm_json sd u) (act_then (fs_unlink_missing_ok state_path) (act_return outcome))"

definition boot_liveness_commit ::
    "('m host_scheme) deadman \<Rightarrow> ('m host_scheme) runner \<Rightarrow> ('m host_scheme, bool) act \<Rightarrow> ('m host_scheme \<Rightarrow> int)
     \<Rightarrow> ('m host_scheme, unit) act \<Rightarrow> string \<Rightarrow> string \<Rightarrow> 'm host_scheme
     \<Rightarrow> ((exn + boot_outcome) \<times> 'm host_scheme) option" where
  "boot_liveness_commit sd run probe now sleep source_root state_dir h =
     (let state_path = path_div state_dir SELF_RELOAD_STATE_FILENAME in
      if \<not> fs_exists state_path h then Some (Inr NoPending, h)
      else case act_bind (read_pending state_path) (\<lambda>rec. act_bind (git_head run source_root) (\<lambda>cur. act_return (rec, cur))) h of
        (Inl e, h1) \<Rightarrow> Some (Inl e, h1)
      | (Inr (rec, cur), h1) \<Rightarrow>
          if JStr cur = pend_old rec then Some (resolve_with sd (pend_unit rec) state_path Resurrected h1)
          else if JStr cur \<noteq> pend_new rec then Some (Inr LivenessFailed, h1)
          else case py_int (pend_armed_at rec) of
            None \<Rightarrow> Some (Inl type_error, h1)
          | Some t \<Rightarrow>
            (case probe_until probe now sleep (t + SELF_RELOAD_DEADMAN_DELAY_S - SELF_RELOAD_LIVENESS_MARGIN_S) h1 of
               None \<Rightarrow> None
             | Some (Inl e, h2) \<Rightarrow> Some (Inl e, h2)
             | Some (Inr b, h2) \<Rightarrow> Some (if b then resolve_with sd (pend_unit rec) state_path Committed h2
                                        else (Inr LivenessFailed, h2))))"


subsection \<open>The autonomous gate\<close>

record SelfReloadOperateOutcome =
  sro_auto_applied :: bool
  sro_proposed :: bool
  sro_new_sha :: "string option"
  sro_reason :: string

definition operate_on_self_reload ::
    "Settings \<Rightarrow> (string \<Rightarrow> string) \<Rightarrow> ('m host_scheme) runner \<Rightarrow> ('m host_scheme) worktree_manager \<Rightarrow> string \<Rightarrow> string
     \<Rightarrow> ('m host_scheme) deadman \<Rightarrow> (string \<Rightarrow> (string \<times> json) list \<Rightarrow> ('m host_scheme, json) act) \<Rightarrow> ('m host_scheme, unit) act
     \<Rightarrow> int \<Rightarrow> string \<Rightarrow> (('m host_scheme) kernel_state, SelfReloadOperateOutcome) act" where
  "operate_on_self_reload cfg digest run worktree python sid sd audit die now user_id =
     (let source_root = rawos_source_root cfg in
      act_bind (on_world (git_head run source_root)) (\<lambda>old.
      act_bind (on_world (git_rev_parse run source_root ''master'')) (\<lambda>new.
        if new = old then act_return \<lparr>sro_auto_applied = False, sro_proposed = False, sro_new_sha = None,
            sro_reason = ''master HEAD == current HEAD; nothing to reload''\<rparr>
        else if \<not> self_reload_enabled cfg then act_return \<lparr>sro_auto_applied = False, sro_proposed = True,
            sro_new_sha = Some new, sro_reason = ''self_reload_enabled=False''\<rparr>
        else act_bind (act_get (\<lambda>st. graduated (db_get_operator_track_record (user_id, ''self_reload'', source_root) (db st)))) (\<lambda>g.
          if \<not> g then act_return \<lparr>sro_auto_applied = False, sro_proposed = True, sro_new_sha = Some new,
              sro_reason = ''self_reload operation class not yet graduated''\<rparr>
          else act_then (on_world (execute_owner_self_reload digest run worktree python sid sd audit die source_root
              (self_reload_state_dir cfg) now True new))
            (act_return \<lparr>sro_auto_applied = True, sro_proposed = False, sro_new_sha = Some new,
              sro_reason = ''armed and swapped to master HEAD (autonomous)''\<rparr>)))))"

subsection \<open>The boot task\<close>

definition RAWOS_ENTITY_USER_ID :: string where
  "RAWOS_ENTITY_USER_ID = ''6eb6de1d-f5c9-4ae5-9aac-ce095b674823''"

text \<open>The truth value of a JSON value; a float text is true when its mantissa has a digit other than zero.\<close>

fun py_truthy :: "json \<Rightarrow> bool" where
  "py_truthy JNull = False"
| "py_truthy (JBool b) = b"
| "py_truthy (JInt i) = (i \<noteq> 0)"
| "py_truthy (JFloat t) = list_ex (\<lambda>c. is_digit c \<and> c \<noteq> CHR ''0'') (takeWhile (\<lambda>c. c \<notin> {CHR ''e'', CHR ''E''}) t)"
| "py_truthy (JStr s) = (s \<noteq> [])"
| "py_truthy (JList xs) = (xs \<noteq> [])"
| "py_truthy (JObj kvs) = (kvs \<noteq> [])"

fun outcome_text :: "boot_outcome \<Rightarrow> string" where
  "outcome_text NoPending = ''no_pending''"
| "outcome_text Committed = ''committed''"
| "outcome_text Resurrected = ''resurrected''"
| "outcome_text LivenessFailed = ''liveness_failed''"

definition read_shas :: "string \<Rightarrow> ('m host_scheme, json \<times> json \<times> bool) act" where
  "read_shas state_path = act_bind (fs_read state_path) (\<lambda>t. case loads t of
       None \<Rightarrow> act_raise PyValueError
     | Some (JObj kvs) \<Rightarrow> (case (obj_get ''old_sha'' kvs, obj_get ''new_sha'' kvs) of
            (Some a, Some b) \<Rightarrow> act_return (a, b,
               py_truthy (case obj_get ''autonomous'' kvs of None \<Rightarrow> JBool False | Some v \<Rightarrow> v))
          | _ \<Rightarrow> act_raise PyKeyError)
     | Some _ \<Rightarrow> act_raise type_error)"

text \<open>The ledger has text columns: a value of another type is refused here, and the task goes on.\<close>

definition record_outcome :: "json \<Rightarrow> json \<Rightarrow> string \<Rightarrow> bool \<Rightarrow> kernel_db \<Rightarrow> kernel_db" where
  "record_outcome old new outcome autonomous d = (case (old, new) of
       (JStr a, JStr b) \<Rightarrow> snd (record_self_reload_outcome a b outcome autonomous d)
     | _ \<Rightarrow> d)"

definition self_reload_boot_commit_task ::
    "Settings \<Rightarrow> ('m host_scheme) deadman \<Rightarrow> ('m host_scheme) runner \<Rightarrow> ('m host_scheme, bool) act
     \<Rightarrow> ('m host_scheme \<Rightarrow> int) \<Rightarrow> ('m host_scheme, unit) act \<Rightarrow> ('m host_scheme) kernel_state \<Rightarrow> ('m host_scheme) kernel_state option" where
  "self_reload_boot_commit_task cfg sd run probe now sleep st =
     (let state_path = path_div (self_reload_state_dir cfg) SELF_RELOAD_STATE_FILENAME in
      if \<not> fs_exists state_path (world st) then Some st
      else case fst (read_shas state_path (world st)) of
        Inl e \<Rightarrow> Some st
      | Inr (old, new, autonomous) \<Rightarrow>
          (case boot_liveness_commit sd run probe now sleep (rawos_source_root cfg) (self_reload_state_dir cfg) (world st) of
             None \<Rightarrow> None
           | Some (Inl e, h) \<Rightarrow> Some (st\<lparr>world := h\<rparr>)
           | Some (Inr outcome, h) \<Rightarrow>
               if outcome = NoPending then Some (st\<lparr>world := h\<rparr>)
               else Some (st\<lparr>world := h, db := snd (db_update_operator_track_record
                   (RAWOS_ENTITY_USER_ID, ''self_reload'', rawos_source_root cfg) (outcome = Committed) (now h)
                   (record_outcome old new (outcome_text outcome) autonomous (db st)))\<rparr>)))"

subsection \<open>What the collaborators are relied on for\<close>

text \<open>Git's reading commands change nothing.\<close>

definition git_reads :: "string list \<Rightarrow> bool" where
  "git_reads argv \<longleftrightarrow> (case argv of git # cmd # _ \<Rightarrow> git = ''git'' \<and> cmd \<in> {''rev-parse'', ''diff'', ''show'', ''merge-base''} | _ \<Rightarrow> False)"

definition reads_only :: "'w runner \<Rightarrow> bool" where
  "reads_only run \<longleftrightarrow> (\<forall>argv cwd w. git_reads argv \<longrightarrow> snd (run argv cwd w) = w)"

lemma reads_onlyD: "reads_only run \<Longrightarrow> run argv cwd w = (r, w') \<Longrightarrow> git_reads argv \<Longrightarrow> w' = w"
  unfolding reads_only_def by (metis snd_conv)

text \<open>Git works in the source tree: the pending file \<open>p\<close> and the timer are not its business. A reset
  that reports success has moved the head, one that does not has left it.\<close>

definition reset_laws :: "string \<Rightarrow> ('m host_scheme \<Rightarrow> bool) \<Rightarrow> ('m host_scheme \<Rightarrow> string) \<Rightarrow> ('m host_scheme) runner \<Rightarrow> bool" where
  "reset_laws p armed head_of run \<longleftrightarrow> (\<forall>sha cwd h r h'. run [''git'', ''reset'', ''--hard'', sha] cwd h = (r, h') \<longrightarrow>
     files h' (fs_key p) = files h (fs_key p) \<and> io_fault h' = io_fault h \<and> armed h' = armed h
     \<and> (case r of Inr q \<Rightarrow> (if returncode q = 0 then head_of h' = sha else head_of h' = head_of h) | Inl _ \<Rightarrow> head_of h' = head_of h))"

text \<open>The same of the audit log and of the timer's own commands.\<close>

definition keeps_pending :: "string \<Rightarrow> ('m host_scheme \<Rightarrow> bool) \<Rightarrow> ('m host_scheme \<Rightarrow> string) \<Rightarrow> ('m host_scheme, 'a) act \<Rightarrow> bool" where
  "keeps_pending p armed head_of m \<longleftrightarrow> (\<forall>h. files (snd (m h)) (fs_key p) = files h (fs_key p) \<and> armed (snd (m h)) = armed h
     \<and> head_of (snd (m h)) = head_of h \<and> io_fault (snd (m h)) = io_fault h)"

definition timer_laws :: "('m host_scheme \<Rightarrow> string) \<Rightarrow> ('m host_scheme) deadman \<Rightarrow> bool" where
  "timer_laws head_of sd \<longleftrightarrow> (\<forall>u d c h. head_of (snd (dm_arm sd u d c h)) = head_of h \<and> io_fault (snd (dm_arm sd u d c h)) = io_fault h)
     \<and> (\<forall>u h. head_of (snd (dm_disarm sd u h)) = head_of h \<and> io_fault (snd (dm_disarm sd u h)) = io_fault h)
     \<and> (\<forall>h f. head_of (h\<lparr>files := f\<rparr>) = head_of h)"

lemma keeps_pendingD:
  "keeps_pending p armed head_of m \<Longrightarrow> m h = (r, h') \<Longrightarrow> files h' (fs_key p) = files h (fs_key p) \<and> armed h' = armed h
     \<and> head_of h' = head_of h \<and> io_fault h' = io_fault h"
  unfolding keeps_pending_def by (metis snd_conv)

lemma timer_armD:
  "timer_laws head_of sd \<Longrightarrow> dm_arm sd u d c h = (r, h') \<Longrightarrow> head_of h' = head_of h \<and> io_fault h' = io_fault h"
  unfolding timer_laws_def by (metis snd_conv)

lemma timer_disarmD:
  "timer_laws head_of sd \<Longrightarrow> dm_disarm sd u h = (r, h') \<Longrightarrow> head_of h' = head_of h \<and> io_fault h' = io_fault h"
  unfolding timer_laws_def by (metis snd_conv)

lemma timer_files: "timer_laws head_of sd \<Longrightarrow> head_of (h\<lparr>files := f\<rparr>) = head_of h"
  unfolding timer_laws_def by blast


lemma same_host: "\<exists>f. h = (h :: 'm host_scheme)\<lparr>files := f\<rparr>"
  by (rule exI [of _ "files h"]) simp

lemma fs_mkdir_shape: "fs_mkdir d h = (r, h') \<Longrightarrow> \<exists>f. h' = h\<lparr>files := f\<rparr>"
proof -
  assume "fs_mkdir d h = (r, h')"
  then show ?thesis by (auto simp: fs_mkdir_def same_host split: option.splits node.splits if_splits)
qed

lemma fs_mkdirs_shape: "fs_mkdirs ds h = (r, h') \<Longrightarrow> \<exists>f. h' = h\<lparr>files := f\<rparr>"
proof (induction ds arbitrary: h r rule: fs_mkdirs.induct)
  case 1
  then show ?case by (simp add: same_host)
next
  case (2 d)
  then show ?case by (simp add: fs_mkdir_shape)
next
  case (3 d e ds)
  obtain r1 h1 where one: "fs_mkdir d h = (r1, h1)" by (cases "fs_mkdir d h")
  then obtain f where h1: "h1 = h\<lparr>files := f\<rparr>" using fs_mkdir_shape by blast
  show ?case
  proof (cases r1)
    case (Inl x)
    with 3 one h1 show ?thesis by (auto simp: act_simps)
  next
    case (Inr x)
    with 3(2) one have "fs_mkdirs (e # ds) h1 = (r, h')" by (simp add: act_simps)
    from "3.IH" [OF this] h1 show ?thesis by auto
  qed
qed

lemma fs_makedirs_shape: "fs_makedirs p h = (r, h') \<Longrightarrow> \<exists>f. h' = h\<lparr>files := f\<rparr>"
  by (simp add: fs_makedirs_def fs_mkdirs_shape)

subsection \<open>Arm before swap\<close>

text \<open>The steps after the pending file has been written.\<close>

definition swap_tail where
  "swap_tail sd run audit source_root state_path autonomous snap =
     act_then
       (act_catch (dm_arm sd (snap_deadman_unit snap) SELF_RELOAD_DEADMAN_DELAY_S (revert_command snap))
         (\<lambda>e. act_then (fs_unlink_missing_ok state_path) (act_raise e)))
     (act_then
       (act_catch (act_then (audit ''self_reload_arm'' [(''old_sha'', JStr (snap_old_sha snap)),
           (''new_sha'', JStr (snap_new_sha snap)), (''state_id'', JStr (snap_state_id snap)),
           (''autonomous'', JBool autonomous)]) (act_return ())) (\<lambda>_. act_return ()))
       (act_catch
         (act_bind (run [''git'', ''reset'', ''--hard'', snap_new_sha snap] source_root) (\<lambda>result.
            if returncode result \<noteq> 0 then act_raise SelfReloadStateError else act_return ()))
         (\<lambda>e. act_then (dm_disarm sd (snap_deadman_unit snap))
           (act_then (fs_unlink_missing_ok state_path) (act_raise e)))))"

lemma swap_tail_result:
  fixes h :: "'m host_scheme"
  assumes laws: "deadman_laws armed sd" "timer_laws head_of sd" "reset_laws p armed head_of run"
    "\<And>ev kvs. keeps_pending p armed head_of (audit ev kvs)"
    and h: "files h (fs_key p) = Some (Regular c)" "\<not> io_fault h (fs_key p)"
    and run: "swap_tail sd run audit root p autonomous snap h = (r, h')"
  shows "case r of
      Inr _ \<Rightarrow> armed h' \<and> head_of h' = snap_new_sha snap \<and> files h' (fs_key p) = Some (Regular c)
    | Inl e \<Rightarrow> head_of h' = head_of h \<and> (files h' (fs_key p) = None
        \<or> (\<exists>h2 e'. dm_disarm sd (snap_deadman_unit snap) h2 = (Inl e', h')))"
proof -
  let ?u = "snap_deadman_unit snap"
  have gone: "\<exists>x. fs_unlink_missing_ok p g = (Inr (), g\<lparr>files := x\<rparr>) \<and> x (fs_key p) = None"
    if "files g (fs_key p) = Some (Regular c)" "\<not> io_fault g (fs_key p)" for g :: "'m host_scheme"
    using that by (auto simp: fs_unlink_missing_ok_eq)
  obtain ra ha where arm: "dm_arm sd ?u SELF_RELOAD_DEADMAN_DELAY_S (revert_command snap) h = (ra, ha)"
    by (cases "dm_arm sd ?u SELF_RELOAD_DEADMAN_DELAY_S (revert_command snap) h")
  have ha: "files ha = files h" "head_of ha = head_of h" "io_fault ha = io_fault h" "\<And>x. ra = Inr x \<Longrightarrow> armed ha"
    using deadman_armD [OF laws(1) arm] timer_armD [OF laws(2) arm] by simp_all
  show ?thesis
  proof (cases ra)
    case (Inl e)
    obtain x where x: "fs_unlink_missing_ok p ha = (Inr (), ha\<lparr>files := x\<rparr>)" "x (fs_key p) = None"
      using gone [of ha] ha h by auto
    with run arm Inl ha show ?thesis
      by (auto simp: swap_tail_def act_simps timer_files [OF laws(2)])
  next
    case (Inr y)
    let ?kvs = "[(''old_sha'', JStr (snap_old_sha snap)), (''new_sha'', JStr (snap_new_sha snap)),
       (''state_id'', JStr (snap_state_id snap)), (''autonomous'', JBool autonomous)]"
    obtain rb hb where aud: "audit ''self_reload_arm'' ?kvs ha = (rb, hb)" by (cases "audit ''self_reload_arm'' ?kvs ha")
    note hb = keeps_pendingD [OF laws(4) aud]
    obtain rc hc where rst: "run [''git'', ''reset'', ''--hard'', snap_new_sha snap] root hb = (rc, hc)"
      by (cases "run [''git'', ''reset'', ''--hard'', snap_new_sha snap] root hb")
    have hc: "files hc (fs_key p) = files hb (fs_key p)" "io_fault hc = io_fault hb" "armed hc = armed hb"
      "case rc of Inr q \<Rightarrow> (if returncode q = 0 then head_of hc = snap_new_sha snap else head_of hc = head_of hb)
         | Inl _ \<Rightarrow> head_of hc = head_of hb"
      using laws(3) rst unfolding reset_laws_def by blast+
    obtain rd hd where dis: "dm_disarm sd ?u hc = (rd, hd)" by (cases "dm_disarm sd ?u hc")
    have hd: "files hd = files hc" "head_of hd = head_of hc" "io_fault hd = io_fault hc"
      using deadman_disarmD [OF laws(1) dis] timer_disarmD [OF laws(2) dis] by simp_all
    obtain x where x: "fs_unlink_missing_ok p hd = (Inr (), hd\<lparr>files := x\<rparr>)" "x (fs_key p) = None"
      using gone [of hd] ha hb hc hd h by auto
    have "swap_tail sd run audit root p autonomous snap h =
       (case rc of Inr q \<Rightarrow> if returncode q = 0 then (Inr (), hc)
            else (case rd of Inl e \<Rightarrow> (Inl e, hd) | Inr _ \<Rightarrow> (Inl SelfReloadStateError, hd\<lparr>files := x\<rparr>))
        | Inl e \<Rightarrow> (case rd of Inl e' \<Rightarrow> (Inl e', hd) | Inr _ \<Rightarrow> (Inl e, hd\<lparr>files := x\<rparr>)))"
      using arm aud rst dis x Inr by (simp add: swap_tail_def act_simps split: sum.splits)
    with run hc hd ha hb h x dis Inr show ?thesis
      by (auto simp: timer_files [OF laws(2)] split: sum.splits if_splits)
  qed
qed

lemma arm_then_swap_unfold:
  "arm_then_swap sd run audit source_root state_dir now autonomous snap =
     act_then (fs_makedirs state_dir)
      (act_bind (act_get (fs_exists (path_div state_dir SELF_RELOAD_STATE_FILENAME))) (\<lambda>there.
        if there then act_raise SelfReloadStateError
        else act_then (fs_write (path_div state_dir SELF_RELOAD_STATE_FILENAME)
            (dumps '', '' '': '' (pending_record snap now autonomous)))
          (swap_tail sd run audit source_root (path_div state_dir SELF_RELOAD_STATE_FILENAME) autonomous snap)))"
  unfolding arm_then_swap_def swap_tail_def Let_def by (rule refl)

text \<open>C1: A self-reload never dies in an unarmed or half-swapped state: the process reaches its exit only with
  the timer armed, the source at the new commit and the pending file on disk, and only if no other reload
  was pending; in every other case it does not exit, the source is at the commit it was at, and the pending
  file is as it was, unless the timer could not even be disarmed.\<close>

theorem arm_and_swap_safe:
  fixes h :: "'m host_scheme" and state_dir p :: string
  defines "p \<equiv> path_div state_dir SELF_RELOAD_STATE_FILENAME"
  assumes laws: "deadman_laws armed sd" "timer_laws head_of sd" "reset_laws p armed head_of run"
    "\<And>ev kvs. keeps_pending p armed head_of (audit ev kvs)"
    and apart: "fs_key p \<notin> fs_key ` set (path_chain state_dir)"
    and run: "arm_then_swap sd run audit root state_dir now autonomous snap h = (r, h')"
  shows "arm_and_swap sd run audit die root state_dir now autonomous snap h =
      (case r of Inl e \<Rightarrow> (Inl e, h') | Inr _ \<Rightarrow> die h')
    \<and> (case r of
         Inr _ \<Rightarrow> files h (fs_key p) = None \<and> armed h' \<and> head_of h' = snap_new_sha snap
           \<and> files h' (fs_key p) = Some (Regular (dumps '', '' '': '' (pending_record snap now autonomous)))
       | Inl e \<Rightarrow> head_of h' = head_of h \<and> (files h' (fs_key p) = files h (fs_key p)
           \<or> (\<exists>h2 e'. dm_disarm sd (snap_deadman_unit snap) h2 = (Inl e', h'))))"
proof -
  let ?c = "dumps '', '' '': '' (pending_record snap now autonomous)"
  obtain r0 h0 where mk: "fs_makedirs state_dir h = (r0, h0)" by (cases "fs_makedirs state_dir h")
  obtain f where f: "h0 = h\<lparr>files := f\<rparr>" using fs_makedirs_shape [OF mk] by blast
  have h0: "head_of h0 = head_of h" "files h0 (fs_key p) = files h (fs_key p)"
    using timer_files [OF laws(2)] fs_makedirs_only [OF mk apart] by (simp_all add: f)
  have "case r of
         Inr _ \<Rightarrow> files h (fs_key p) = None \<and> armed h' \<and> head_of h' = snap_new_sha snap \<and> files h' (fs_key p) = Some (Regular ?c)
       | Inl e \<Rightarrow> head_of h' = head_of h \<and> (files h' (fs_key p) = files h (fs_key p)
           \<or> (\<exists>h2 e'. dm_disarm sd (snap_deadman_unit snap) h2 = (Inl e', h')))"
  proof (cases "isl r0 \<or> files h0 (fs_key p) \<noteq> None \<or> isl (fst (fs_write p ?c h0))")
    case True
    then have "\<exists>e. (r, h') = (Inl e, h0)"
      using run mk unfolding arm_then_swap_unfold p_def [symmetric]
      by (cases r0; cases "fs_write p ?c h0")
        (auto simp: act_simps fs_exists_def isl_def dest: fs_write_Inl split: if_splits)
    with h0 show ?thesis by auto
  next
    case False
    then obtain h1 where wr: "fs_write p ?c h0 = (Inr (), h1)"
      by (cases "fs_write p ?c h0"; cases "fst (fs_write p ?c h0)") auto
    then have h1: "files h1 (fs_key p) = Some (Regular ?c)" "\<not> io_fault h1 (fs_key p)" "head_of h1 = head_of h0"
      by (auto simp: fs_write_Inr timer_files [OF laws(2)])
    have tail: "swap_tail sd run audit root p autonomous snap h1 = (r, h')"
      using run mk wr False unfolding arm_then_swap_unfold p_def [symmetric]
      by (cases r0) (auto simp: act_simps fs_exists_def)
    from swap_tail_result [OF laws h1(1,2) tail] h0 h1 False show ?thesis by (cases r) auto
  qed
  then show ?thesis using run by (auto simp: arm_and_swap_def act_simps split: sum.splits)
qed


subsection \<open>The liveness loop\<close>

text \<open>A clock that no probe turns back and every sleep advances, and a sleep that returns.\<close>

definition clock_laws :: "('w \<Rightarrow> int) \<Rightarrow> ('w, bool) act \<Rightarrow> ('w, unit) act \<Rightarrow> bool" where
  "clock_laws now probe sleep \<longleftrightarrow> (\<forall>w. now w \<le> now (snd (probe w)))
     \<and> (\<forall>w. now w < now (snd (sleep w)))"

lemma probe_until_returns:
  assumes "clock_laws now probe sleep"
  shows "\<exists>y. probe_until probe now sleep deadline w = Some y"
proof (induction "nat (deadline - now w)" arbitrary: w rule: less_induct)
  case less
  obtain r1 w1 where p: "probe w = (r1, w1)" by (cases "probe w")
  obtain r2 w2 where s: "sleep w1 = (r2, w2)" by (cases "sleep w1")
  have "now w \<le> now (snd (probe w))" "now w1 < now (snd (sleep w1))" using assms unfolding clock_laws_def by blast+
  then have "now w \<le> now w1" "now w1 < now w2" by (simp_all add: p s)
  then have "\<exists>y. probe_until probe now sleep deadline w2 = Some y" if "now w1 < deadline"
    using less.hyps [of w2] that by simp
  then show ?case
    by (subst probe_until.simps) (auto simp: p s split: sum.splits)
qed

text \<open>The loop says \<open>True\<close> only after a probe that succeeded, and keeps what every probe and sleep keep.\<close>

lemma probe_until_result:
  assumes "probe_until probe now sleep deadline w = Some y"
    and "\<forall>w. Q w \<longrightarrow> Q (snd (probe w))" "\<forall>w. Q w \<longrightarrow> Q (snd (sleep w))"
  shows "(Q w \<longrightarrow> Q (snd y)) \<and> (fst y = Inr True \<longrightarrow> (\<exists>w1. probe w1 = (Inr True, snd y)))
    \<and> (fst y = Inr False \<longrightarrow> deadline \<le> now (snd y))"
  using assms
proof (induction probe now sleep deadline w y rule: probe_until.raw_induct [rotated 1, consumes 1])
  case (1 rec probe now sleep deadline w y)
  obtain r1 w1 where p: "probe w = (r1, w1)" by (cases "probe w")
  obtain r2 w2 where s: "sleep w1 = (r2, w2)" by (cases "sleep w1")
  have q: "Q w \<Longrightarrow> Q w1" "Q w1 \<Longrightarrow> Q w2" using 1(3,4) p s by (metis snd_conv)+
  show ?case
  proof (cases "\<exists>u. r1 = Inr False \<and> now w1 < deadline \<and> r2 = Inr u")
    case True
    then have "rec probe now sleep deadline w2 = Some y" using 1(2) p s by auto
    from 1(1) [OF this 1(3,4)] q show ?thesis by blast
  next
    case False
    obtain ry wy where y: "y = (ry, wy)" by (cases y)
    from False 1(2) p s q show ?thesis unfolding y by (auto split: sum.splits if_splits)
  qed
qed


lemma boot_liveness_total:
  assumes "clock_laws now probe sleep"
  shows "\<exists>y. boot_liveness_commit sd run probe now sleep source_root state_dir h = Some y"
proof -
  have "\<exists>r. probe_until probe now sleep d w = Some r" for d w by (rule probe_until_returns [OF assms])
  then show ?thesis
    unfolding boot_liveness_commit_def Let_def
    by (auto split: prod.splits sum.splits option.splits) (metis option.distinct(1))+
qed

text \<open>C21: The boot check always ends: with a clock that runs, \<open>boot_liveness_commit\<close> returns, whatever git,
  systemd and the probe answer.\<close>

theorem boot_liveness_returns:
  assumes "clock_laws now probe sleep"
  shows "\<exists>y. boot_liveness_commit sd run probe now sleep source_root state_dir h = Some y"
  by (rule boot_liveness_total [OF assms])

text \<open>The pending file and the timer survive reading, probing and sleeping.\<close>

definition boot_laws where
  "boot_laws p armed head_of sd run probe sleep \<longleftrightarrow> deadman_laws armed sd \<and> reads_only run
     \<and> keeps_pending p armed head_of probe \<and> keeps_pending p armed head_of sleep"

lemma read_pending_state: "read_pending p h = (r, h') \<Longrightarrow> h' = h"
  by (auto simp: read_pending_def act_simps dest: fs_read_keeps split: prod.splits sum.splits option.splits json.splits)

lemma git_head_state: "reads_only run \<Longrightarrow> git_head run root h = (r, h') \<Longrightarrow> h' = h"
  by (auto simp: git_head_def git_rev_parse_def act_simps git_reads_def dest: reads_onlyD split: prod.splits sum.splits if_splits)

lemma resolve_with_Inr:
  assumes "deadman_laws armed sd" "resolve_with sd u p oc h = (Inr x, h')"
  shows "x = oc \<and> \<not> armed h' \<and> files h' (fs_key p) = None"
proof -
  from assms(2) obtain s h1 where "u = JStr s" and d: "dm_disarm sd s h = (Inr (), h1)"
    and ul: "fs_unlink_missing_ok p h1 = (Inr (), h')" and x: "x = oc"
    by (auto simp: resolve_with_def disarm_json_def act_simps split: prod.splits sum.splits json.splits)
  have "\<not> armed h1" using deadman_disarmD [OF assms(1) d] by simp
  with ul x deadman_files [OF assms(1)] show ?thesis
    by (auto simp: fs_unlink_missing_ok_eq split: if_splits)
qed

lemma boot_liveness_pending:
  assumes "files h (fs_key (path_div state_dir SELF_RELOAD_STATE_FILENAME)) \<noteq> None"
    and "read_pending (path_div state_dir SELF_RELOAD_STATE_FILENAME) h = (Inr rec, h)"
    and "git_head run source_root h = (Inr cur, h)"
  shows "boot_liveness_commit sd run probe now sleep source_root state_dir h =
     (if JStr cur = pend_old rec
      then Some (resolve_with sd (pend_unit rec) (path_div state_dir SELF_RELOAD_STATE_FILENAME) Resurrected h)
      else if JStr cur \<noteq> pend_new rec then Some (Inr LivenessFailed, h)
      else case py_int (pend_armed_at rec) of
        None \<Rightarrow> Some (Inl type_error, h)
      | Some t \<Rightarrow>
        (case probe_until probe now sleep (t + SELF_RELOAD_DEADMAN_DELAY_S - SELF_RELOAD_LIVENESS_MARGIN_S) h of
           None \<Rightarrow> None
         | Some (Inl e, h2) \<Rightarrow> Some (Inl e, h2)
         | Some (Inr b, h2) \<Rightarrow> Some (if b
             then resolve_with sd (pend_unit rec) (path_div state_dir SELF_RELOAD_STATE_FILENAME) Committed h2
             else (Inr LivenessFailed, h2))))"
  using assms by (simp add: boot_liveness_commit_def fs_exists_def act_simps Let_def del: not_None_eq)

text \<open>What the boot check says is so: \<open>no_pending\<close> means no pending file; \<open>resurrected\<close> and \<open>committed\<close>
  mean that git reports the old (the new) commit and that the timer is off and the file gone, and
  \<open>committed\<close> that a probe had just succeeded; on \<open>liveness_failed\<close> the file is kept and the timer is
  left as it was, so that it reverts the source.\<close>

theorem boot_liveness_meaning:
  fixes h :: "'m host_scheme" and state_dir p :: string
  defines "p \<equiv> path_div state_dir SELF_RELOAD_STATE_FILENAME"
  assumes laws: "boot_laws p armed head_of sd run probe sleep"
    and run: "boot_liveness_commit sd run probe now sleep source_root state_dir h = Some (Inr outcome, h')"
  shows "if files h (fs_key p) = None then outcome = NoPending \<and> h' = h
    else \<exists>rec cur. read_pending p h = (Inr rec, h) \<and> git_head run source_root h = (Inr cur, h) \<and>
      (case outcome of
         NoPending \<Rightarrow> False
       | Resurrected \<Rightarrow> JStr cur = pend_old rec \<and> \<not> armed h' \<and> files h' (fs_key p) = None
       | Committed \<Rightarrow> JStr cur = pend_new rec \<and> JStr cur \<noteq> pend_old rec \<and> \<not> armed h' \<and> files h' (fs_key p) = None
           \<and> (\<exists>h1 h2. probe h1 = (Inr True, h2))
       | LivenessFailed \<Rightarrow> JStr cur \<noteq> pend_old rec \<and> armed h' = armed h \<and> files h' (fs_key p) = files h (fs_key p))"
proof (cases "files h (fs_key p) = None")
  case True
  with run show ?thesis by (simp add: boot_liveness_commit_def fs_exists_def p_def Let_def)
next
  case False
  have l: "deadman_laws armed sd" "reads_only run" "keeps_pending p armed head_of probe" "keeps_pending p armed head_of sleep"
    using laws by (simp_all add: boot_laws_def)
  obtain rec cur where rd: "read_pending p h = (Inr rec, h)" and hd: "git_head run source_root h = (Inr cur, h)"
    using run False unfolding boot_liveness_commit_def p_def [symmetric]
    by (auto simp: fs_exists_def act_simps Let_def dest: read_pending_state git_head_state [OF l(2)]
        split: prod.splits sum.splits)
  note commit = run [unfolded boot_liveness_pending [OF False [unfolded p_def] rd [unfolded p_def] hd], folded p_def]
  let ?q = "\<lambda>w. armed w = armed h \<and> files w (fs_key p) = files h (fs_key p)"
  have keep: "\<forall>w. ?q w \<longrightarrow> ?q (snd (probe w))" "\<forall>w. ?q w \<longrightarrow> ?q (snd (sleep w))"
    using l(3,4) unfolding keeps_pending_def by auto
  have "case outcome of
         NoPending \<Rightarrow> False
       | Resurrected \<Rightarrow> JStr cur = pend_old rec \<and> \<not> armed h' \<and> files h' (fs_key p) = None
       | Committed \<Rightarrow> JStr cur = pend_new rec \<and> JStr cur \<noteq> pend_old rec \<and> \<not> armed h' \<and> files h' (fs_key p) = None
           \<and> (\<exists>h1 h2. probe h1 = (Inr True, h2))
       | LivenessFailed \<Rightarrow> JStr cur \<noteq> pend_old rec \<and> armed h' = armed h \<and> files h' (fs_key p) = files h (fs_key p)"
  proof (cases "JStr cur = pend_old rec \<or> JStr cur \<noteq> pend_new rec")
    case True
    with commit show ?thesis by (auto dest: resolve_with_Inr [OF l(1)] split: if_splits)
  next
    case new: False
    then obtain t y where y: "probe_until probe now sleep (t + SELF_RELOAD_DEADMAN_DELAY_S - SELF_RELOAD_LIVENESS_MARGIN_S) h = Some y"
      and fin: "(\<exists>h2. y = (Inr True, h2) \<and> resolve_with sd (pend_unit rec) p Committed h2 = (Inr outcome, h'))
        \<or> y = (Inr False, h') \<and> outcome = LivenessFailed"
      using commit by (auto split: option.splits sum.splits if_splits)
    note res = probe_until_result [where Q = ?q, OF y keep]
    from fin show ?thesis
    proof
      assume "\<exists>h2. y = (Inr True, h2) \<and> resolve_with sd (pend_unit rec) p Committed h2 = (Inr outcome, h')"
      then obtain h2 where h2: "y = (Inr True, h2)" and r: "resolve_with sd (pend_unit rec) p Committed h2 = (Inr outcome, h')"
        by blast
      have yt: "fst y = Inr True" by (simp add: h2)
      have "\<exists>w1. probe w1 = (Inr True, snd y)" by (rule mp [OF res [THEN conjunct2, THEN conjunct1] yt])
      moreover have oc: "outcome = Committed" and "\<not> armed h'" "files h' (fs_key p) = None"
        using resolve_with_Inr [OF l(1) r] by simp_all
      ultimately show ?thesis using new unfolding oc boot_outcome.case by blast
    next
      assume fin: "y = (Inr False, h') \<and> outcome = LivenessFailed"
      then have oc: "outcome = LivenessFailed" and yh: "snd y = h'" by simp_all
      have "?q (snd y)" by (rule mp [OF res [THEN conjunct1]]) (intro conjI refl)
      then show ?thesis using new unfolding oc yh boot_outcome.case by blast
    qed
  qed
  with False rd hd show ?thesis by auto
qed


subsection \<open>Preflight\<close>

text \<open>What a commit must satisfy before anything is staged.\<close>

definition reload_cleared :: "(string \<Rightarrow> string) \<Rightarrow> 'w runner \<Rightarrow> string \<Rightarrow> string \<Rightarrow> string \<Rightarrow> 'w \<Rightarrow> bool" where
  "reload_cleared digest run root old new w \<longleftrightarrow> git_head run root w = (Inr old, w)
     \<and> (old = new \<or> (\<exists>q. run [''git'', ''merge-base'', ''--is-ancestor'', old, new] root w = (Inr q, w) \<and> returncode q = 0))
     \<and> diff_paths run root old new ''migrations/'' w = (Inr [], w)
     \<and> (\<exists>ch. diff_paths run root old new [] w = (Inr ch, w) \<and> set ch \<inter> TIER0_PROTECTED_FILES = {})
     \<and> (\<exists>d. dependency_hash digest run root old w = (Inr d, w) \<and> dependency_hash digest run root new w = (Inr d, w))"

lemma diff_paths_state: "reads_only run \<Longrightarrow> diff_paths run cwd a b ps w = (r, w') \<Longrightarrow> w' = w"
  by (auto simp: diff_paths_def act_simps git_reads_def dest: reads_onlyD split: prod.splits sum.splits if_splits)

lemma dependency_texts_state: "reads_only run \<Longrightarrow> dependency_texts run cwd sha fs w = (r, w') \<Longrightarrow> w' = w"
proof (induction fs arbitrary: r w')
  case (Cons f fs)
  obtain r1 w1 where one: "run [''git'', ''show'', sha @ '':'' @ f] cwd w = (r1, w1)" by (cases "run [''git'', ''show'', sha @ '':'' @ f] cwd w")
  have "w1 = w" using reads_onlyD [OF Cons.prems(1) one] by (simp add: git_reads_def)
  moreover obtain r2 w2 where two: "dependency_texts run cwd sha fs w = (r2, w2)" by (cases "dependency_texts run cwd sha fs w")
  moreover have "w2 = w" by (rule Cons.IH [OF Cons.prems(1) two])
  ultimately show ?case using Cons.prems(2) one by (auto simp: act_simps split: sum.splits)
qed simp

lemma dependency_hash_state: "reads_only run \<Longrightarrow> dependency_hash digest run cwd sha w = (r, w') \<Longrightarrow> w' = w"
  by (auto simp: dependency_hash_def act_simps dest: dependency_texts_state split: prod.splits sum.splits)

lemma verify_sha_ancestry_result:
  assumes "reads_only run" "verify_sha_ancestry run root new w = (r, w')" "git_head run root w = (Inr old, w)"
  shows "w' = w \<and> (r = Inr () \<longrightarrow> old = new \<or> (\<exists>q. run [''git'', ''merge-base'', ''--is-ancestor'', old, new] root w = (Inr q, w) \<and> returncode q = 0))"
proof -
  obtain r1 w1 where one: "run [''git'', ''merge-base'', ''--is-ancestor'', old, new] root w = (r1, w1)"
    by (cases "run [''git'', ''merge-base'', ''--is-ancestor'', old, new] root w")
  have "w1 = w" using reads_onlyD [OF assms(1) one] by (simp add: git_reads_def)
  with assms(2,3) one show ?thesis
    by (auto simp: verify_sha_ancestry_def act_simps split: sum.splits if_splits)
qed

definition stage_in_worktree where
  "stage_in_worktree run worktree python source_root new =
     act_bind (wt_create worktree source_root new) (\<lambda>wt_path.
       act_finally (smoke_checks run python wt_path) (wt_remove worktree wt_path))"

lemma preflight_cases:
  assumes ro: "reads_only run"
  obtains (refused) e where "preflight_stage digest run worktree python sid root new w = (Inl e, w)"
      "\<nexists>old. reload_cleared digest run root old new w"
  | (staged) old d where "reload_cleared digest run root old new w"
      "preflight_stage digest run worktree python sid root new w =
         act_then (stage_in_worktree run worktree python root new)
         (act_return \<lparr>snap_old_sha = old, snap_new_sha = new, snap_state_id = sid, snap_armed_at = 0,
            snap_deadman_unit = SELF_RELOAD_DEADMAN_UNIT, snap_migration_delta = [], snap_venv_frozen_hash = d\<rparr>) w"
proof (cases "git_head run root w")
  case (Pair r0 w0)
  have w0: "w0 = w" by (rule git_head_state [OF ro Pair])
  show ?thesis
  proof (cases r0)
    case (Inl e)
    show ?thesis
      by (rule refused [of e]) (use Pair w0 Inl in \<open>simp_all add: preflight_stage_def act_simps reload_cleared_def\<close>)
  next
    case (Inr old)
    note hd = Pair [unfolded Inr w0]
    obtain ra wa where a: "verify_sha_ancestry run root new w = (ra, wa)" by (cases "verify_sha_ancestry run root new w")
    obtain rb wb where b: "diff_paths run root old new ''migrations/'' w = (rb, wb)" by (cases "diff_paths run root old new ''migrations/'' w")
    obtain rc wc where c: "diff_paths run root old new [] w = (rc, wc)" by (cases "diff_paths run root old new [] w")
    obtain rd wd where d: "dependency_hash digest run root old w = (rd, wd)" by (cases "dependency_hash digest run root old w")
    obtain re we where e: "dependency_hash digest run root new w = (re, we)" by (cases "dependency_hash digest run root new w")
    have states: "wa = w" "wb = w" "wc = w" "wd = w" "we = w"
      using verify_sha_ancestry_result [OF ro a hd] diff_paths_state [OF ro b] diff_paths_state [OF ro c]
        dependency_hash_state [OF ro d] dependency_hash_state [OF ro e] by simp_all
    note unfolds = preflight_stage_def act_simps hd a b c d e states stage_in_worktree_def
    show ?thesis
    proof (cases "ra = Inr () \<and> rb = Inr [] \<and> (\<exists>ch x. rc = Inr ch \<and> set ch \<inter> TIER0_PROTECTED_FILES = {} \<and> rd = Inr x \<and> re = Inr x)")
      case True
      then obtain ch x where t: "ra = Inr ()" "rb = Inr []" "rc = Inr ch" "set ch \<inter> TIER0_PROTECTED_FILES = {}" "rd = Inr x" "re = Inr x"
        by blast
      show ?thesis
      proof (rule staged [of old x])
        show "reload_cleared digest run root old new w"
          using t hd a b c d e states verify_sha_ancestry_result [OF ro a hd] by (auto simp: reload_cleared_def)
      qed (use t in \<open>simp add: unfolds split: prod.split sum.split\<close>)
    next
      case False
      have anc: "ra = Inr ()" if "reload_cleared digest run root x new w" for x
        using that a hd by (cases "x = new") (auto simp: reload_cleared_def verify_sha_ancestry_def act_simps)
      have "\<nexists>x. reload_cleared digest run root x new w"
        using False anc hd b c d e by (auto simp: reload_cleared_def)
      moreover have "\<exists>y. preflight_stage digest run worktree python sid root new w = (Inl y, w)"
        using False by (simp add: unfolds split: sum.split) blast
      then obtain y where "preflight_stage digest run worktree python sid root new w = (Inl y, w)" by (rule exE)
      ultimately show ?thesis by (rule refused [rotated])
    qed
  qed
qed


text \<open>A self-reload runs on its own only when it may: the gate reaches the funnel exactly when the source
  can move, the owner has switched it on and the class has graduated; it proposes otherwise, and a proposal
  changes nothing.\<close>

theorem operate_on_self_reload_gate:
  fixes st :: "('m host_scheme) kernel_state"
  assumes "git_head run (rawos_source_root cfg) (world st) = (Inr old, world st)"
    and "git_rev_parse run (rawos_source_root cfg) ''master'' (world st) = (Inr new, world st)"
  shows "operate_on_self_reload cfg digest run worktree python sid sd audit die now user st =
    (if new = old \<or> \<not> self_reload_enabled cfg
        \<or> \<not> graduated (db_get_operator_track_record (user, ''self_reload'', rawos_source_root cfg) (db st))
     then (Inr \<lparr>sro_auto_applied = False, sro_proposed = (new \<noteq> old), sro_new_sha = (if new = old then None else Some new),
        sro_reason = (if new = old then ''master HEAD == current HEAD; nothing to reload''
          else if \<not> self_reload_enabled cfg then ''self_reload_enabled=False''
          else ''self_reload operation class not yet graduated'')\<rparr>, st)
     else (case execute_owner_self_reload digest run worktree python sid sd audit die (rawos_source_root cfg)
          (self_reload_state_dir cfg) now True new (world st) of
        (Inl e, h) \<Rightarrow> (Inl e, st\<lparr>world := h\<rparr>)
      | (Inr _, h) \<Rightarrow> (Inr \<lparr>sro_auto_applied = True, sro_proposed = False, sro_new_sha = Some new,
          sro_reason = ''armed and swapped to master HEAD (autonomous)''\<rparr>, st\<lparr>world := h\<rparr>)))"
  using assms by (simp add: operate_on_self_reload_def act_simps Let_def split: prod.split sum.split)


text \<open>What the boot task writes down is what the boot check found: with a clock that runs it always
  finishes, and when the check has an outcome, the ledger gains one row with the commits and the outcome and
  the self-reload class gains one result, a success exactly when the reload was committed.\<close>

theorem boot_task_records:
  fixes st :: "('m host_scheme) kernel_state" and cfg :: Settings and p :: string
  defines "p \<equiv> path_div (self_reload_state_dir cfg) SELF_RELOAD_STATE_FILENAME"
  assumes "clock_laws now probe sleep"
  shows "(\<exists>st'. self_reload_boot_commit_task cfg sd run probe now sleep st = Some st')
    \<and> (\<forall>a b auto outcome h. read_shas p (world st) = (Inr (JStr a, JStr b, auto), world st) \<longrightarrow>
        boot_liveness_commit sd run probe now sleep (rawos_source_root cfg) (self_reload_state_dir cfg) (world st) = Some (Inr outcome, h) \<longrightarrow>
        outcome \<noteq> NoPending \<longrightarrow>
        (\<exists>st'. self_reload_boot_commit_task cfg sd run probe now sleep st = Some st' \<and> world st' = h
          \<and> self_reload_ledger (db st') = self_reload_ledger (db st) @
             [\<lparr>sr_old_sha = a, sr_new_sha = b, sr_outcome = outcome_text outcome, sr_autonomous = auto\<rparr>]
          \<and> operator_tracks (db st') = snd (update_operator_track_record
             (RAWOS_ENTITY_USER_ID, ''self_reload'', rawos_source_root cfg) (outcome = Committed, now h) (operator_tracks (db st)))))"
    (is "?total \<and> ?rows")
proof
  obtain y where y: "boot_liveness_commit sd run probe now sleep (rawos_source_root cfg) (self_reload_state_dir cfg) (world st) = Some y"
    using boot_liveness_total [OF assms(2)] by blast
  then show ?total
    by (cases y; cases "fst y") (auto simp: self_reload_boot_commit_task_def Let_def split: sum.split)
  show ?rows
  proof (intro allI impI)
    fix a b auto outcome h
    assume shas: "read_shas p (world st) = (Inr (JStr a, JStr b, auto), world st)"
      and boot: "boot_liveness_commit sd run probe now sleep (rawos_source_root cfg) (self_reload_state_dir cfg) (world st) = Some (Inr outcome, h)"
      and some: "outcome \<noteq> NoPending"
    have there: "fs_exists p (world st)"
      using boot some by (cases "fs_exists p (world st)") (auto simp: boot_liveness_commit_def p_def Let_def)
    have known: "outcome_text outcome \<in> {''committed'', ''resurrected'', ''liveness_failed''}"
      using some by (cases outcome) simp_all
    show "\<exists>st'. self_reload_boot_commit_task cfg sd run probe now sleep st = Some st' \<and> world st' = h
          \<and> self_reload_ledger (db st') = self_reload_ledger (db st) @
             [\<lparr>sr_old_sha = a, sr_new_sha = b, sr_outcome = outcome_text outcome, sr_autonomous = auto\<rparr>]
          \<and> operator_tracks (db st') = snd (update_operator_track_record
             (RAWOS_ENTITY_USER_ID, ''self_reload'', rawos_source_root cfg) (outcome = Committed, now h) (operator_tracks (db st)))"
      using there shas boot some known
      by (simp add: self_reload_boot_commit_task_def p_def Let_def record_outcome_def record_self_reload_outcome_def
          db_update_operator_track_record_def split: prod.split)
  qed
qed

text \<open>A reload onto the running commit passes the ancestry check as valid, but at boot it is taken for a
  revert: whatever the probe would say, the outcome is \<open>resurrected\<close>, which counts as a failure.\<close>

theorem same_commit_reload_resurrected:
  assumes "git_head run root h = (Inr cur, h)"
    and "fs_exists (path_div dir SELF_RELOAD_STATE_FILENAME) h"
    and "read_pending (path_div dir SELF_RELOAD_STATE_FILENAME) h = (Inr rec, h)"
    and "pend_old rec = JStr cur" "pend_new rec = JStr cur"
  shows "verify_sha_ancestry run root cur h = (Inr (), h)
    \<and> boot_liveness_commit sd run probe now sleep root dir h =
        Some (resolve_with sd (pend_unit rec) (path_div dir SELF_RELOAD_STATE_FILENAME) Resurrected h)"
proof
  show "verify_sha_ancestry run root cur h = (Inr (), h)"
    using assms(1) by (simp add: verify_sha_ancestry_def act_simps)
  show "boot_liveness_commit sd run probe now sleep root dir h =
      Some (resolve_with sd (pend_unit rec) (path_div dir SELF_RELOAD_STATE_FILENAME) Resurrected h)"
    using boot_liveness_pending [OF _ assms(3,1)] assms(2,4) by (simp add: fs_exists_def)
qed

subsection \<open>A machine with a repository\<close>

record reload_host = timed_host +
  head_now :: string
  ticks :: int

definition reload_timer :: "reload_host deadman" where
  "reload_timer = \<lparr>dm_arm = (\<lambda>_ _ _. act_modify (\<lambda>h. h\<lparr>timer_on := True\<rparr>)),
     dm_disarm = (\<lambda>_. act_modify (\<lambda>h. h\<lparr>timer_on := False\<rparr>))\<rparr>"

text \<open>\<open>HEAD\<close> is the state's, \<open>master\<close> is always \<open>bbb\<close>; a reset moves \<open>HEAD\<close>, everything else succeeds.\<close>

definition reload_git :: "reload_host runner" where
  "reload_git = (\<lambda>argv cwd h.
     (Inr \<lparr>returncode = 0, stdout = (if argv = [''git'', ''rev-parse'', ''HEAD''] then head_now h
         else if argv = [''git'', ''rev-parse'', ''master''] then ''bbb'' else []), stderr = []\<rparr>,
      if take 3 argv = [''git'', ''reset'', ''--hard''] then h\<lparr>head_now := argv ! 3\<rparr> else h))"

definition reload_tick :: "(reload_host, unit) act" where
  "reload_tick = act_modify (\<lambda>h. h\<lparr>ticks := ticks h + SELF_RELOAD_PROBE_INTERVAL_S\<rparr>)"

definition no_audit :: "string \<Rightarrow> (string \<times> json) list \<Rightarrow> (reload_host, json) act" where
  "no_audit ev kvs = act_return (JObj [])"

definition sample_reload_host :: reload_host where
  "sample_reload_host = \<lparr>files = [''/root'' \<mapsto> Directory, ''/root/s'' \<mapsto> Directory], io_fault = (\<lambda>_. False),
     timer_on = False, head_now = ''aaa'', ticks = 0\<rparr>"

definition sample_snap :: SelfReloadSnapshot where
  "sample_snap = \<lparr>snap_old_sha = ''aaa'', snap_new_sha = ''bbb'', snap_state_id = ''id'', snap_armed_at = 0,
     snap_deadman_unit = SELF_RELOAD_DEADMAN_UNIT, snap_migration_delta = [], snap_venv_frozen_hash = []\<rparr>"

text \<open>The machine after the swap, before its next boot.\<close>

definition sample_swapped :: reload_host where
  "sample_swapped = sample_reload_host\<lparr>timer_on := True, head_now := ''bbb'',
     files := (files sample_reload_host)(''/root/s/pending.json'' \<mapsto>
       Regular (dumps '', '' '': '' (pending_record sample_snap 0 True)))\<rparr>"

lemma reload_laws:
  "deadman_laws timer_on reload_timer" "timer_laws head_now reload_timer" "reads_only reload_git"
  "reset_laws p timer_on head_now reload_git" "keeps_pending p timer_on head_now (no_audit ev kvs)"
  "keeps_pending p timer_on head_now (act_return b)" "keeps_pending p timer_on head_now reload_tick"
  "clock_laws ticks (act_return b) reload_tick"
proof -
  show "reads_only reload_git"
    unfolding reads_only_def
  proof (intro allI impI)
    fix argv :: "string list" and cwd :: string and w
    assume "git_reads argv"
    then show "snd (reload_git argv cwd w) = w"
      by (cases argv; cases "tl argv") (auto simp: git_reads_def reload_git_def)
  qed
qed (auto simp: deadman_laws_def reload_timer_def timer_laws_def reset_laws_def reload_git_def keeps_pending_def
    no_audit_def reload_tick_def clock_laws_def SELF_RELOAD_PROBE_INTERVAL_S_def)

lemma sample_paths: "path_div ''/root/s'' SELF_RELOAD_STATE_FILENAME = ''/root/s/pending.json''"
  "fs_key ''/root/s/pending.json'' = ''/root/s/pending.json''"
  by code_simp+

lemma sample_pending: "read_pending ''/root/s/pending.json'' sample_swapped =
    (Inr \<lparr>pend_old = JStr ''aaa'', pend_new = JStr ''bbb'', pend_unit = JStr SELF_RELOAD_DEADMAN_UNIT, pend_armed_at = JInt 0\<rparr>, sample_swapped)"
proof -
  have "loads (dumps '', '' '': '' (pending_record sample_snap 0 True)) = Some (pending_record sample_snap 0 True)"
    by (rule loads_dumps) (simp_all add: pending_record_def blanks_def json_ws_def)
  then show ?thesis
    by (simp add: read_pending_def act_simps fs_read_def sample_paths sample_swapped_def sample_reload_host_def
        pending_record_def obj_get_def sample_snap_def)
qed

lemma sample_head: "git_head reload_git root h = (Inr (py_strip (head_now h)), h)"
  by (simp add: git_head_def git_rev_parse_def act_simps reload_git_def)


theorem arm_and_swap_safe_witness:
  "case arm_then_swap reload_timer reload_git no_audit ''/root/rawos'' ''/root/s'' 0 True sample_snap sample_reload_host of
     (Inr _, h) \<Rightarrow> timer_on h \<and> head_now h = ''bbb'' | (Inl _, h) \<Rightarrow> head_now h = ''aaa''"
proof -
  let ?run = "arm_then_swap reload_timer reload_git no_audit ''/root/rawos'' ''/root/s'' 0 True sample_snap sample_reload_host"
  have apart: "fs_key (path_div ''/root/s'' SELF_RELOAD_STATE_FILENAME) \<notin> fs_key ` set (path_chain ''/root/s'')" by code_simp
  have run: "?run = (fst ?run, snd ?run)" by simp
  have "head_now sample_reload_host = ''aaa''" "snap_new_sha sample_snap = ''bbb''"
    by (simp_all add: sample_reload_host_def sample_snap_def)
  with arm_and_swap_safe [OF reload_laws(1,2,4,5) apart run, of "act_return ()"] show ?thesis
    by (cases "fst ?run"; cases ?run) auto
qed

theorem boot_liveness_returns_witness:
  "\<exists>y. boot_liveness_commit reload_timer reload_git (act_return False) ticks reload_tick ''/root/rawos'' ''/root/s'' sample_swapped = Some y"
  by (rule boot_liveness_returns [OF reload_laws(8)])

lemma sample_boot_laws: "boot_laws p timer_on head_now reload_timer reload_git (act_return (b :: bool)) reload_tick"
  by (simp add: boot_laws_def reload_laws)

theorem boot_liveness_meaning_witness:
  "\<exists>outcome h'. boot_liveness_commit reload_timer reload_git (act_return True) ticks reload_tick ''/root/rawos'' ''/root/s'' sample_swapped
      = Some (Inr outcome, h') \<and> outcome = Committed \<and> \<not> timer_on h'"
proof -
  have there: "files sample_swapped (fs_key (path_div ''/root/s'' SELF_RELOAD_STATE_FILENAME)) \<noteq> None"
    by (simp add: sample_paths sample_swapped_def)
  have hd: "git_head reload_git ''/root/rawos'' sample_swapped = (Inr ''bbb'', sample_swapped)"
  proof -
    have "py_strip ''bbb'' = ''bbb''" by code_simp
    then show ?thesis by (simp add: sample_head sample_swapped_def)
  qed
  have one: "probe_until (act_return True) ticks reload_tick d h = Some (Inr True, h)" for d and h :: reload_host
    by (subst probe_until.simps) simp
  let ?r = "resolve_with reload_timer (JStr SELF_RELOAD_DEADMAN_UNIT) ''/root/s/pending.json'' Committed sample_swapped"
  have boot: "boot_liveness_commit reload_timer reload_git (act_return True) ticks reload_tick ''/root/rawos'' ''/root/s'' sample_swapped = Some ?r"
    using boot_liveness_pending [OF there sample_pending [folded sample_paths(1)] hd] by (simp add: one sample_paths)
  moreover have "fst ?r = Inr Committed"
    by (simp add: resolve_with_def disarm_json_def act_simps reload_timer_def fs_unlink_missing_ok_eq sample_paths
        sample_swapped_def sample_reload_host_def)
  then obtain h' where r: "?r = (Inr Committed, h')" by (cases ?r) simp
  ultimately have "boot_liveness_commit reload_timer reload_git (act_return True) ticks reload_tick ''/root/rawos'' ''/root/s'' sample_swapped =
      Some (Inr Committed, h')" by simp
  from this boot_liveness_meaning [OF sample_boot_laws this] there show ?thesis by auto
qed

definition sample_worktree :: "reload_host worktree_manager" where
  "sample_worktree = \<lparr>wt_create = (\<lambda>_ _. act_return ''/tmp/wt''), wt_remove = (\<lambda>_. act_return ())\<rparr>"

lemma reload_git_apply: "reload_git argv cwd h =
    (Inr \<lparr>returncode = 0, stdout = (if argv = [''git'', ''rev-parse'', ''HEAD''] then head_now h
         else if argv = [''git'', ''rev-parse'', ''master''] then ''bbb'' else []), stderr = []\<rparr>,
      if take 3 argv = [''git'', ''reset'', ''--hard''] then h\<lparr>head_now := argv ! 3\<rparr> else h)"
  by (simp add: reload_git_def)


theorem operate_on_self_reload_gate_witness:
  "operate_on_self_reload default_settings (\<lambda>t. t) reload_git sample_worktree ''python3'' ''id'' reload_timer no_audit (act_return ()) 0 ''u''
      \<lparr>db = empty_db, world = sample_reload_host\<rparr> =
    (Inr \<lparr>sro_auto_applied = False, sro_proposed = True, sro_new_sha = Some ''bbb'', sro_reason = ''self_reload_enabled=False''\<rparr>,
     \<lparr>db = empty_db, world = sample_reload_host\<rparr>)"
proof -
  let ?st = "\<lparr>db = empty_db, world = sample_reload_host\<rparr>"
  have s: "py_strip ''aaa'' = ''aaa''" "py_strip ''bbb'' = ''bbb''" by code_simp+
  have old: "git_head reload_git (rawos_source_root default_settings) (world ?st) = (Inr ''aaa'', world ?st)"
    by (simp add: sample_head sample_reload_host_def s)
  have new: "git_rev_parse reload_git (rawos_source_root default_settings) ''master'' (world ?st) = (Inr ''bbb'', world ?st)"
    by (simp add: git_rev_parse_def act_simps reload_git_def s)
  show ?thesis
    unfolding operate_on_self_reload_gate [OF old new] by (simp add: default_settings_def)
qed

theorem boot_task_records_witness:
  "\<exists>st'. self_reload_boot_commit_task default_settings reload_timer reload_git (act_return False) ticks reload_tick
     \<lparr>db = empty_db, world = sample_swapped\<rparr> = Some st'"
  using boot_task_records [OF reload_laws(8)] by blast

theorem same_commit_reload_resurrected_witness:
  "\<exists>h. git_head reload_git ''/root/rawos'' h = (Inr ''aaa'', h) \<and> verify_sha_ancestry reload_git ''/root/rawos'' ''aaa'' h = (Inr (), h)
     \<and> boot_liveness_commit reload_timer reload_git (act_return True) ticks reload_tick ''/root/rawos'' ''/root/s'' h =
       Some (resolve_with reload_timer (JStr SELF_RELOAD_DEADMAN_UNIT) ''/root/s/pending.json'' Resurrected h)"
proof -
  let ?snap = "sample_snap\<lparr>snap_new_sha := ''aaa''\<rparr>"
  let ?h = "sample_reload_host\<lparr>files := (files sample_reload_host)(''/root/s/pending.json'' \<mapsto>
       Regular (dumps '', '' '': '' (pending_record ?snap 0 True)))\<rparr>"
  have "loads (dumps '', '' '': '' (pending_record ?snap 0 True)) = Some (pending_record ?snap 0 True)"
    by (rule loads_dumps) (simp_all add: pending_record_def blanks_def json_ws_def)
  then have rd: "read_pending (path_div ''/root/s'' SELF_RELOAD_STATE_FILENAME) ?h = (Inr \<lparr>pend_old = JStr ''aaa'', pend_new = JStr ''aaa'',
      pend_unit = JStr SELF_RELOAD_DEADMAN_UNIT, pend_armed_at = JInt 0\<rparr>, ?h)"
    by (simp add: read_pending_def act_simps fs_read_def sample_paths sample_reload_host_def pending_record_def obj_get_def sample_snap_def)
  have "py_strip ''aaa'' = ''aaa''" by code_simp
  then have hd: "git_head reload_git ''/root/rawos'' ?h = (Inr ''aaa'', ?h)" by (simp add: sample_head sample_reload_host_def)
  have there: "fs_exists (path_div ''/root/s'' SELF_RELOAD_STATE_FILENAME) ?h" by (simp add: fs_exists_def sample_paths)
  show ?thesis
    using same_commit_reload_resurrected [OF hd there rd, of reload_timer "act_return True" ticks reload_tick] hd
    by (intro exI [of _ ?h]) (simp add: sample_paths)
qed

end
