(* ===== verification/Venv_Operator.thy ===== *)
theory Venv_Operator
  imports Self_Reload
begin

text \<open>
  The dependency operator of \<open>anima/kernel/venv_operator.py\<close>: a candidate environment is built and proved
  beside the live one, the two are exchanged by two renames under a revert timer, and the next boot commits
  the exchange or leaves it to the timer; the boot task of \<open>anima/api/app.py\<close> writes the ledger. The
  interpreter, pip, pytest, systemd and the health probe are parameters; the clock counts whole seconds.
\<close>

definition VENV_DEADMAN_UNIT :: string where "VENV_DEADMAN_UNIT = ''rawos-venv-revert''"
definition VENV_DEADMAN_DELAY_S :: int where "VENV_DEADMAN_DELAY_S = 300"
definition VENV_STATE_DIR :: string where "VENV_STATE_DIR = ''/root/.anima-venv-pending''"
definition VENV_STATE_FILENAME :: string where "VENV_STATE_FILENAME = ''state.json''"
definition VENVS_SUBDIR :: string where "VENVS_SUBDIR = ''.venvs''"

record VenvDepSpec =
  requirements :: "string list"
  dep_op_type :: string

record VenvSnapshot =
  venv_state_id :: string
  old_venv_id :: string
  candidate_path :: string
  frozen_hash_before :: string
  frozen_hash_after :: string
  venv_deadman_unit :: string

record VenvOperateOutcome =
  venv_auto_applied :: bool
  venv_proposed :: bool
  venv_reason :: string
  venv_frozen_hash_after :: "string option"

subsection \<open>The builder\<close>

text \<open>A command without a \<open>cwd\<close> runs in the current directory, \<open>''''.\<close> A command that is not checked still
  raises when its program is missing.\<close>

record 'w venv_builder =
  vb_frozen_hash :: "string \<Rightarrow> ('w, string) act"
  vb_create_venv :: "string \<Rightarrow> ('w, unit) act"
  vb_install_deps :: "string \<Rightarrow> string list \<Rightarrow> ('w, proc) act"
  vb_check_import :: "string \<Rightarrow> string \<Rightarrow> ('w, proc) act"
  vb_run_smoke :: "string \<Rightarrow> string \<Rightarrow> ('w, proc) act"

definition VenvBuilder :: "(string \<Rightarrow> string) \<Rightarrow> 'w runner \<Rightarrow> 'w venv_builder" where
  "VenvBuilder digest run = \<lparr>
     vb_frozen_hash = (\<lambda>venv_python. act_bind (run [venv_python, ''-m'', ''pip'', ''freeze''] [])
       (\<lambda>result. act_return (digest (stdout result)))),
     vb_create_venv = (\<lambda>path. act_then
       (run_check (\<lambda>argv. run argv []) [''/usr/bin/python3'', ''-m'', ''venv'', ''--copies'', path]) (act_return ())),
     vb_install_deps = (\<lambda>venv_python reqs. if reqs = [] then act_return \<lparr>returncode = 0, stdout = [], stderr = []\<rparr>
       else run ([venv_python, ''-m'', ''pip'', ''install''] @ reqs) []),
     vb_check_import = (\<lambda>venv_python name. run [venv_python, ''-c'', ''import '' @ name] []),
     vb_run_smoke = (\<lambda>venv_python cwd. run [venv_python, ''-m'', ''pytest'', ''-q'', ''-m'', ''venv_smoke''] cwd)\<rparr>"

definition venv_systemd :: "'w shell \<Rightarrow> 'w deadman" where
  "venv_systemd sh = \<lparr>
     dm_arm = (\<lambda>timer_unit delay_s revert_cmd. act_then
       (run_check sh ([''systemd-run'', ''--on-active'', show_int delay_s, ''--unit='' @ timer_unit, ''--'']
          @ py_words revert_cmd)) (act_return ())),
     dm_disarm = (\<lambda>timer_unit. act_then
       (sh [''systemctl'', ''stop'', timer_unit @ ''.timer'']) (act_return ()))\<rparr>"

subsection \<open>Preflight\<close>

definition venv_python_of :: "string \<Rightarrow> string" where
  "venv_python_of venv = path_div (path_div venv ''bin'') ''python''"

definition expect_zero :: "('w, proc) act \<Rightarrow> ('w, unit) act" where
  "expect_zero m = act_bind m (\<lambda>p. if returncode p \<noteq> 0 then act_raise VenvPreflightError else act_return ())"

definition prove_candidate :: "'w venv_builder \<Rightarrow> string \<Rightarrow> VenvDepSpec \<Rightarrow> string \<Rightarrow> ('w, string) act" where
  "prove_candidate b source_root dep candidate =
     (let py = venv_python_of candidate in
      act_then (vb_create_venv b candidate)
      (act_then (if requirements dep \<noteq> [] then expect_zero (vb_install_deps b py (requirements dep)) else act_return ())
      (act_then (expect_zero (vb_check_import b py ''anima.api.app''))
      (act_then (expect_zero (vb_run_smoke b py source_root))
      (vb_frozen_hash b py)))))"

text \<open>\<open>uuid4()\<close> gives \<open>sid\<close>. Any exception of the proof is turned into \<open>VenvPreflightError\<close>.\<close>

definition preflight_venv ::
    "('m host_scheme) venv_builder \<Rightarrow> string \<Rightarrow> string \<Rightarrow> string \<Rightarrow> string \<Rightarrow> VenvDepSpec \<Rightarrow> ('m host_scheme, VenvSnapshot) act" where
  "preflight_venv b sid source_root venv_root staging_root dep =
     (let venvs_dir = path_div staging_root VENVS_SUBDIR; candidate = path_div venvs_dir (''candidate-'' @ sid) in
      act_bind (vb_frozen_hash b (venv_python_of (path_div venv_root ''venv''))) (\<lambda>frozen_before.
      act_then (fs_makedirs venvs_dir)
      (act_bind
        (act_catch (prove_candidate b source_root dep candidate)
          (\<lambda>_. act_then (act_modify (fs_rmtree candidate)) (act_raise VenvPreflightError))) (\<lambda>frozen_after.
      act_return \<lparr>venv_state_id = sid, old_venv_id = ''old-'' @ sid, candidate_path = candidate,
        frozen_hash_before = frozen_before, frozen_hash_after = frozen_after,
        venv_deadman_unit = VENV_DEADMAN_UNIT\<rparr>))))"

subsection \<open>Arm and swap\<close>

definition venv_record :: "VenvSnapshot \<Rightarrow> int \<Rightarrow> json" where
  "venv_record snap now = JObj [(''state_id'', JStr (venv_state_id snap)), (''old_venv_id'', JStr (old_venv_id snap)),
     (''candidate_path'', JStr (candidate_path snap)), (''frozen_hash_before'', JStr (frozen_hash_before snap)),
     (''frozen_hash_after'', JStr (frozen_hash_after snap)), (''armed_at'', JInt now),
     (''deadman_unit'', JStr (venv_deadman_unit snap))]"

definition old_venv_path :: "string \<Rightarrow> VenvSnapshot \<Rightarrow> string" where
  "old_venv_path venv_root snap = path_div (path_div venv_root VENVS_SUBDIR) (old_venv_id snap)"

definition venv_revert_command :: "VenvSnapshot \<Rightarrow> string" where
  "venv_revert_command snap = ''/usr/local/bin/rawos-venv-revert '' @ venv_state_id snap"

text \<open>The handler of the renames, and the steps after the timer is armed.\<close>

definition venv_give_up :: "('m host_scheme) deadman \<Rightarrow> VenvSnapshot \<Rightarrow> string \<Rightarrow> exn \<Rightarrow> ('m host_scheme, unit) act" where
  "venv_give_up sd snap state_path e = act_then (dm_disarm sd (venv_deadman_unit snap))
     (act_then (fs_unlink_missing_ok state_path) (act_raise e))"

definition venv_renames :: "('m host_scheme) deadman \<Rightarrow> string \<Rightarrow> string \<Rightarrow> VenvSnapshot \<Rightarrow> ('m host_scheme, unit) act" where
  "venv_renames sd venv_root state_path snap =
     act_then (fs_makedirs (path_parent (old_venv_path venv_root snap)))
       (act_catch
         (act_then (fs_rename (path_div venv_root ''venv'') (old_venv_path venv_root snap))
           (fs_rename (candidate_path snap) (path_div venv_root ''venv'')))
         (venv_give_up sd snap state_path))"

text \<open>Everything before the process dies.\<close>

definition venv_arm_then_swap ::
    "('m host_scheme) deadman \<Rightarrow> string \<Rightarrow> string \<Rightarrow> int \<Rightarrow> VenvSnapshot \<Rightarrow> ('m host_scheme, unit) act" where
  "venv_arm_then_swap sd venv_root state_dir now snap =
     (let state_path = path_div state_dir VENV_STATE_FILENAME in
      act_then (fs_makedirs state_dir)
      (act_bind (act_get (fs_exists state_path)) (\<lambda>there.
        if there then act_raise VenvStateError
        else
          act_then (fs_write state_path (dumps '', '' '': '' (venv_record snap now)))
          (act_then
            (act_catch (dm_arm sd (venv_deadman_unit snap) VENV_DEADMAN_DELAY_S (venv_revert_command snap))
              (\<lambda>e. act_then (fs_unlink_missing_ok state_path) (act_raise e)))
          (venv_renames sd venv_root state_path snap)))))"

definition arm_and_swap_venv ::
    "('m host_scheme) deadman \<Rightarrow> ('m host_scheme, unit) act \<Rightarrow> string \<Rightarrow> string \<Rightarrow> int \<Rightarrow> VenvSnapshot \<Rightarrow> ('m host_scheme, unit) act" where
  "arm_and_swap_venv sd die venv_root state_dir now snap =
     act_then (venv_arm_then_swap sd venv_root state_dir now snap) die"

subsection \<open>Resolution at boot\<close>

datatype venv_outcome = VenvNoPending | VenvCommitted | VenvLivenessFailed

text \<open>A missing \<open>deadman_unit\<close> is the default one. Joining a path with an \<open>old_venv_id\<close> that is not a string
  raises; an unreadable record does not.\<close>

definition read_venv_state :: "string \<Rightarrow> ('m host_scheme, json \<times> json) act" where
  "read_venv_state state_path = act_bind (fs_read state_path) (\<lambda>t. case loads t of
       None \<Rightarrow> act_raise PyValueError
     | Some (JObj kvs) \<Rightarrow> (case obj_get ''old_venv_id'' kvs of
           None \<Rightarrow> act_raise PyKeyError
         | Some v \<Rightarrow> act_return (v, case obj_get ''deadman_unit'' kvs of None \<Rightarrow> JStr VENV_DEADMAN_UNIT | Some u \<Rightarrow> u))
     | Some _ \<Rightarrow> act_raise type_error)"

definition ignoring :: "('w, unit) act \<Rightarrow> ('w, unit) act" where
  "ignoring m = act_catch m (\<lambda>_. act_return ())"

definition boot_venv_commit ::
    "('m host_scheme) deadman \<Rightarrow> ('m host_scheme, bool) act \<Rightarrow> string \<Rightarrow> string \<Rightarrow> ('m host_scheme, venv_outcome) act" where
  "boot_venv_commit sd probe staging_root state_dir =
     (let state_path = path_div state_dir VENV_STATE_FILENAME in
      act_bind (act_get (fs_exists state_path)) (\<lambda>there.
        if \<not> there then act_return VenvNoPending
        else act_bind (act_catch (act_bind (read_venv_state state_path) (\<lambda>r. act_return (Some r))) (\<lambda>_. act_return None)) (\<lambda>rec.
          case rec of
            None \<Rightarrow> act_return VenvLivenessFailed
          | Some (old, u) \<Rightarrow> act_bind probe (\<lambda>healthy.
              if \<not> healthy then act_return VenvLivenessFailed
              else act_then (ignoring (disarm_json sd u))
                (case old of
                   JStr name \<Rightarrow>
                     (let old_path = path_div (path_div staging_root VENVS_SUBDIR) name in
                      act_then (act_modify (\<lambda>h. if fs_exists old_path h then fs_rmtree old_path h else h))
                      (act_then (ignoring (fs_unlink_missing_ok state_path)) (act_return VenvCommitted)))
                 | _ \<Rightarrow> act_raise type_error)))))"

subsection \<open>Gates\<close>

definition execute_approved_venv_op ::
    "('m host_scheme) venv_builder \<Rightarrow> string \<Rightarrow> ('m host_scheme) deadman \<Rightarrow> ('m host_scheme, unit) act \<Rightarrow> string \<Rightarrow> string \<Rightarrow> string
     \<Rightarrow> string \<Rightarrow> int \<Rightarrow> VenvDepSpec \<Rightarrow> bool \<Rightarrow> (('m host_scheme) kernel_state, VenvOperateOutcome) act" where
  "execute_approved_venv_op b sid sd die source_root venv_root staging_root state_dir now dep autonomous =
     act_bind (on_world (preflight_venv b sid source_root venv_root staging_root dep)) (\<lambda>snap.
     act_then (act_catch (on_db (record_venv_op_outcome (dep_op_type dep) (frozen_hash_before snap) (frozen_hash_after snap)
          ''applied'' autonomous (Some (venv_deadman_unit snap)))) (\<lambda>_. act_return ()))
     (act_then (on_world (arm_and_swap_venv sd die venv_root state_dir now snap))
     (act_return \<lparr>venv_auto_applied = True, venv_proposed = False,
        venv_reason = ''preflight passed; armed and swapped (owner-approved)'',
        venv_frozen_hash_after = Some (frozen_hash_after snap)\<rparr>)))"

definition operate_on_venv ::
    "Settings \<Rightarrow> ('m host_scheme) venv_builder \<Rightarrow> string \<Rightarrow> ('m host_scheme) deadman \<Rightarrow> ('m host_scheme, unit) act \<Rightarrow> int
     \<Rightarrow> string \<Rightarrow> VenvDepSpec \<Rightarrow> (('m host_scheme) kernel_state, VenvOperateOutcome) act" where
  "operate_on_venv cfg b sid sd die now user_id dep =
     (let root = rawos_source_root cfg in
      if \<not> operator_venv_enabled cfg then act_return \<lparr>venv_auto_applied = False, venv_proposed = True,
         venv_reason = ''operator_venv_enabled=False (dormant '' @ ''--'' @ '' owner must activate)'', venv_frozen_hash_after = None\<rparr>
      else act_bind (act_get (\<lambda>st. graduated (db_get_operator_track_record (user_id, ''venv_dep_update'', root) (db st)))) (\<lambda>g.
        if \<not> g then act_return \<lparr>venv_auto_applied = False, venv_proposed = True,
          venv_reason = ''venv_dep_update operation class not yet graduated'', venv_frozen_hash_after = None\<rparr>
        else act_then (execute_approved_venv_op b sid sd die root root root VENV_STATE_DIR now dep True)
          (act_return \<lparr>venv_auto_applied = True, venv_proposed = False,
             venv_reason = ''preflight passed; armed and swapped to candidate venv (autonomous)'',
             venv_frozen_hash_after = None\<rparr>)))"

subsection \<open>The boot task\<close>

fun venv_outcome_text :: "venv_outcome \<Rightarrow> string" where
  "venv_outcome_text VenvNoPending = ''no_pending''"
| "venv_outcome_text VenvCommitted = ''committed''"
| "venv_outcome_text VenvLivenessFailed = ''liveness_failed''"

definition read_frozen :: "string \<Rightarrow> ('m host_scheme, json \<times> json) act" where
  "read_frozen state_path = act_bind (fs_read state_path) (\<lambda>t. case loads t of
       None \<Rightarrow> act_raise PyValueError
     | Some (JObj kvs) \<Rightarrow> act_return (case obj_get ''frozen_hash_before'' kvs of None \<Rightarrow> JStr [] | Some v \<Rightarrow> v,
         case obj_get ''frozen_hash_after'' kvs of None \<Rightarrow> JStr [] | Some v \<Rightarrow> v)
     | Some _ \<Rightarrow> act_raise type_error)"

text \<open>The task slices the hashes for its log line before it writes them: a value that is not a string ends it
  there (a list would be sliced, and refused by the database).\<close>

definition venv_boot_commit_task ::
    "Settings \<Rightarrow> ('m host_scheme) deadman \<Rightarrow> ('m host_scheme, bool) act \<Rightarrow> ('m host_scheme) kernel_state \<Rightarrow> ('m host_scheme) kernel_state" where
  "venv_boot_commit_task cfg sd probe st =
     (let state_path = path_div VENV_STATE_DIR VENV_STATE_FILENAME in
      if \<not> fs_exists state_path (world st) then st
      else case fst (read_frozen state_path (world st)) of
        Inl e \<Rightarrow> st
      | Inr (before, after) \<Rightarrow>
          (case boot_venv_commit sd probe (rawos_source_root cfg) VENV_STATE_DIR (world st) of
             (Inl e, h) \<Rightarrow> st\<lparr>world := h\<rparr>
           | (Inr outcome, h) \<Rightarrow>
               if outcome = VenvNoPending then st\<lparr>world := h\<rparr>
               else (case (before, after) of
                   (JStr a, JStr b) \<Rightarrow> st\<lparr>world := h, db := snd (record_venv_op_outcome ''dep_update'' a b
                      (if venv_outcome_text outcome \<in> {''applied'', ''proposed'', ''liveness_failed'', ''preflight_failed''}
                       then venv_outcome_text outcome else ''liveness_failed'') False None (db st))\<rparr>
                 | _ \<Rightarrow> st\<lparr>world := h\<rparr>)))"


subsection \<open>The exchange keeps both environments\<close>

text \<open>\<open>moved a b h h'\<close>: the tree that was under \<open>a\<close> is whole under \<open>b\<close>.\<close>

definition moved :: "string \<Rightarrow> string \<Rightarrow> 'm host_scheme \<Rightarrow> 'm host_scheme \<Rightarrow> bool" where
  "moved a b h h' \<longleftrightarrow> (\<forall>x. inside a x \<longrightarrow> files h' (b @ drop (length a) x) = files h x)"

lemma moved_refl: "files h' = files h \<Longrightarrow> moved a a h h'"
  using inside_split by (simp add: moved_def)

lemma moved_frame:
  assumes "moved a b h h1" and "\<And>x. inside b x \<Longrightarrow> files h2 x = files h1 x"
  shows "moved a b h h2"
  using assms inside_shift by (auto simp: moved_def)

lemma moved_trans:
  assumes "moved a b h h1" "moved b c h1 h2"
  shows "moved a c h h2"
  unfolding moved_def
proof (intro allI impI)
  fix x
  assume x: "inside a x"
  have "files h2 (c @ drop (length b) (b @ drop (length a) x)) = files h1 (b @ drop (length a) x)"
    using assms(2) inside_shift [OF x, of b] unfolding moved_def by blast
  with assms(1) x show "files h2 (c @ drop (length a) x) = files h x" by (simp add: moved_def)
qed

text \<open>A rename moves its tree and leaves every tree apart from both places.\<close>

lemma rename_moved:
  assumes "fs_rename p q h = (r, h')"
  shows "r = Inr u \<Longrightarrow> moved (fs_key p) (fs_key q) h h'"
    and "\<not> inside a (fs_key p) \<Longrightarrow> \<not> inside (fs_key p) a \<Longrightarrow> \<not> inside a (fs_key q) \<Longrightarrow> \<not> inside (fs_key q) a \<Longrightarrow>
      inside a x \<Longrightarrow> files h' x = files h x"
    and "r = Inl e \<Longrightarrow> h' = h"
proof -
  show "r = Inl e \<Longrightarrow> h' = h"
    using assms by (auto simp: fs_rename_def Let_def split: if_splits)
  show "r = Inr u \<Longrightarrow> moved (fs_key p) (fs_key q) h h'"
  proof -
    assume "r = Inr u"
    with assms have f: "files h' x = (if inside (fs_key q) x then files h (fs_key p @ drop (length (fs_key q)) x)
        else if inside (fs_key p) x then None else files h x)" for x
      by (auto simp: fs_rename_Inr)
    show ?thesis
      unfolding moved_def
    proof (intro allI impI)
      fix x
      assume x: "inside (fs_key p) x"
      have "fs_key p @ drop (length (fs_key p)) x = x" using inside_split [OF x] by simp
      then show "files h' (fs_key q @ drop (length (fs_key p)) x) = files h x"
        using inside_shift [OF x, of "fs_key q"] by (simp add: f)
    qed
  qed
  show "\<not> inside a (fs_key p) \<Longrightarrow> \<not> inside (fs_key p) a \<Longrightarrow> \<not> inside a (fs_key q) \<Longrightarrow> \<not> inside (fs_key q) a \<Longrightarrow>
      inside a x \<Longrightarrow> files h' x = files h x"
  proof (cases r)
    case (Inr y)
    assume a: "\<not> inside a (fs_key p)" "\<not> inside (fs_key p) a" "\<not> inside a (fs_key q)" "\<not> inside (fs_key q) a" "inside a x"
    have "\<not> inside (fs_key p) x" "\<not> inside (fs_key q) x" using apart_trees [OF a(5)] a(1-4) by blast+
    with assms Inr show ?thesis by (auto simp: fs_rename_Inr)
  qed (use assms in \<open>auto simp: fs_rename_def Let_def split: if_splits\<close>)
qed

text \<open>Where the exchange happens: three trees apart from each other, the pending file and the directories
  that are made outside of them.\<close>

definition swap_layout :: "string \<Rightarrow> string \<Rightarrow> VenvSnapshot \<Rightarrow> bool" where
  "swap_layout venv_root state_dir snap \<longleftrightarrow>
     (let v = fs_key (path_div venv_root ''venv''); old = fs_key (old_venv_path venv_root snap); c = fs_key (candidate_path snap);
          p = fs_key (path_div state_dir VENV_STATE_FILENAME);
          ds = map fs_key (path_chain state_dir @ path_chain (path_parent (old_venv_path venv_root snap)))
      in list_all (\<lambda>a. list_all (\<lambda>b. a = b \<or> \<not> inside a b) [v, old, c] \<and> list_all (\<lambda>d. \<not> inside a d) (p # ds)) [v, old, c]
         \<and> distinct [v, old, c] \<and> p \<notin> set ds)"

text \<open>What stays as it was when the directories and the pending file are written.\<close>

lemma swap_layoutD:
  assumes "swap_layout venv_root state_dir snap"
  defines "v \<equiv> fs_key (path_div venv_root ''venv'')" and "old \<equiv> fs_key (old_venv_path venv_root snap)"
    and "c \<equiv> fs_key (candidate_path snap)" and "p \<equiv> fs_key (path_div state_dir VENV_STATE_FILENAME)"
  shows "\<not> inside v old" "\<not> inside old v" "\<not> inside v c" "\<not> inside c v" "\<not> inside old c" "\<not> inside c old"
    "\<not> inside v p" "\<not> inside old p" "\<not> inside c p" "a \<in> {v, old, c} \<Longrightarrow> inside a x \<Longrightarrow> x \<noteq> p"
    "a \<in> {v, old, c} \<Longrightarrow> inside a x \<Longrightarrow> x \<notin> fs_key ` set (path_chain state_dir)"
    "a \<in> {v, old, c} \<Longrightarrow> inside a x \<Longrightarrow> x \<notin> fs_key ` set (path_chain (path_parent (old_venv_path venv_root snap)))"
    "p \<notin> fs_key ` set (path_chain state_dir)" "p \<notin> fs_key ` set (path_chain (path_parent (old_venv_path venv_root snap)))"
  using assms(1) unfolding swap_layout_def Let_def v_def [symmetric] old_def [symmetric] c_def [symmetric] p_def [symmetric]
  by (auto simp: list_all_iff)

lemma fs_unlink_missing_ok_frame: "fs_unlink_missing_ok p h = (r, h') \<Longrightarrow> x \<noteq> fs_key p \<Longrightarrow> files h' x = files h x"
  by (auto simp: fs_unlink_missing_ok_eq split: if_splits)

lemma venv_give_up_frame:
  assumes "deadman_laws armed sd" "venv_give_up sd snap p e h = (r, h')"
  shows "isl r \<and> (\<forall>x. x \<noteq> fs_key p \<longrightarrow> files h' x = files h x)"
proof -
  obtain rd hd where d: "dm_disarm sd (venv_deadman_unit snap) h = (rd, hd)" by (cases "dm_disarm sd (venv_deadman_unit snap) h")
  obtain ru hu where u: "fs_unlink_missing_ok p hd = (ru, hu)" by (cases "fs_unlink_missing_ok p hd")
  show ?thesis
    using assms(2) deadman_disarmD(1) [OF assms(1) d] fs_unlink_missing_ok_frame [OF u]
    by (auto simp: venv_give_up_def act_simps d u split: sum.splits)
qed

text \<open>The live environment is in its place or whole in the other, the candidate is whole.\<close>

definition both_whole :: "string \<Rightarrow> string \<Rightarrow> string \<Rightarrow> 'm host_scheme \<Rightarrow> 'm host_scheme \<Rightarrow> bool" where
  "both_whole v old c h h' \<longleftrightarrow> moved c c h h' \<and> (moved v v h h' \<or> moved v old h h')"

lemma both_whole_frame:
  assumes "both_whole v old c h h1" and "\<And>a x. a \<in> {v, old, c} \<Longrightarrow> inside a x \<Longrightarrow> files h2 x = files h1 x"
  shows "both_whole v old c h h2"
  using assms moved_frame [of c c h h1 h2] moved_frame [of v v h h1 h2] moved_frame [of v old h h1 h2]
  by (auto simp: both_whole_def)

lemma venv_renames_result:
  fixes h0 h :: "'m host_scheme"
  assumes laws: "deadman_laws armed sd" and lay: "swap_layout venv_root state_dir snap" and armed: "armed h"
    and run: "venv_renames sd venv_root (path_div state_dir VENV_STATE_FILENAME) snap h = (r, h')"
  defines "v \<equiv> fs_key (path_div venv_root ''venv'')" and "old \<equiv> fs_key (old_venv_path venv_root snap)"
    and "c \<equiv> fs_key (candidate_path snap)" and "p \<equiv> fs_key (path_div state_dir VENV_STATE_FILENAME)"
  assumes h0: "moved v v h0 h" "moved c c h0 h"
  shows "case r of
      Inr _ \<Rightarrow> armed h' \<and> files h' p = files h p \<and> moved v old h0 h' \<and> moved c v h0 h'
    | Inl e \<Rightarrow> both_whole v old c h0 h'"
proof -
  let ?par = "path_parent (old_venv_path venv_root snap)" and ?sp = "path_div state_dir VENV_STATE_FILENAME"
  note L = swap_layoutD [OF lay, folded v_def old_def c_def p_def]
  obtain r1 h1 where mk: "fs_makedirs ?par h = (r1, h1)" by (cases "fs_makedirs ?par h")
  have h1: "moved v v h0 h1" "moved c c h0 h1" "files h1 p = files h p" "armed h1"
  proof -
    have f: "files h1 x = files h x" if "a \<in> {v, old, c}" "inside a x" for a x
      by (rule fs_makedirs_only [OF mk L(12) [OF that]])
    show "moved v v h0 h1" "moved c c h0 h1"
      by (rule moved_frame [OF h0(1)], rule f [of v], simp_all) (rule moved_frame [OF h0(2)], rule f [of c], simp_all)
    show "files h1 p = files h p" by (rule fs_makedirs_only [OF mk L(14)])
    show "armed h1" using fs_makedirs_shape [OF mk] deadman_files [OF laws] armed by auto
  qed
  obtain r2 h2 where mv1: "fs_rename (path_div venv_root ''venv'') (old_venv_path venv_root snap) h1 = (r2, h2)"
    by (cases "fs_rename (path_div venv_root ''venv'') (old_venv_path venv_root snap) h1")
  obtain r3 h3 where mv2: "fs_rename (candidate_path snap) (path_div venv_root ''venv'') h2 = (r3, h3)"
    by (cases "fs_rename (candidate_path snap) (path_div venv_root ''venv'') h2")
  note m1 = rename_moved [OF mv1, folded v_def old_def] and m2 = rename_moved [OF mv2, folded v_def c_def]
  have give_up: "isl q \<and> both_whole v old c h0 g'"
    if "venv_give_up sd snap ?sp e g = (q, g')" "both_whole v old c h0 g" for e g q g'
    using venv_give_up_frame [OF laws that(1)] both_whole_frame [OF that(2), of g'] L(10) by (simp add: p_def)
  have one: "both_whole v old c h0 h1" using h1 by (simp add: both_whole_def)
  have two: "both_whole v old c h0 h2 \<and> (\<forall>y. r2 = Inr y \<longrightarrow> moved v old h0 h2)"
  proof (cases r2)
    case (Inl e)
    with m1(3) one show ?thesis by simp
  next
    case (Inr y)
    have "moved v old h1 h2" by (rule m1(1) [OF Inr])
    then have "moved v old h0 h2" by (rule moved_trans [OF h1(1)])
    moreover have "moved c c h0 h2" by (rule moved_frame [OF h1(2)]) (use m1(2) L in blast)
    ultimately show ?thesis by (simp add: both_whole_def)
  qed
  have renames: "venv_renames sd venv_root ?sp snap h = (case r1 of Inl e \<Rightarrow> (Inl e, h1) | Inr _ \<Rightarrow>
      (case r2 of Inl e \<Rightarrow> venv_give_up sd snap ?sp e h2 | Inr _ \<Rightarrow>
        (case r3 of Inl e \<Rightarrow> venv_give_up sd snap ?sp e h3 | Inr u \<Rightarrow> (Inr u, h3))))"
    by (simp add: venv_renames_def act_simps mk mv1 mv2 split: sum.split)
  show ?thesis
  proof (cases "isl r1 \<or> isl r2 \<or> isl r3")
    case True
    have "isl r \<and> both_whole v old c h0 h'"
    proof (cases r1)
      case (Inl e)
      with run renames one show ?thesis by auto
    next
      case Inr1: (Inr u)
      show ?thesis
      proof (cases r2)
        case (Inl e)
        with run renames Inr1 give_up [of e h2 r h'] two show ?thesis by simp
      next
        case (Inr u')
        then obtain e where e: "r3 = Inl e" using True Inr1 by (cases r3) auto
        with m2(3) have "h3 = h2" by simp
        with run renames Inr1 Inr e give_up [of e h2 r h'] two show ?thesis by simp
      qed
    qed
    then show ?thesis by (cases r) simp_all
  next
    case False
    then obtain u1 u2 u3 where ok: "r2 = Inr u2" "r3 = Inr u3" and ok1: "r1 = Inr u1" by (cases r1; cases r2; cases r3) auto
    have "(r, h') = (Inr u3, h3)" using run unfolding renames ok ok1 by simp
    then have r: "r = Inr ()" "h' = h3" by simp_all
    have "moved c v h2 h3" by (rule m2(1) [OF ok(2)])
    moreover have "moved c c h0 h2" using two by (simp add: both_whole_def)
    ultimately have "moved c v h0 h3" by (rule moved_trans [rotated])
    moreover have "moved v old h0 h3"
      by (rule moved_frame [OF two [THEN conjunct2, rule_format, OF ok(1)]], rule m2(2) [OF L(5,6,2,1)])
    moreover have "files h3 p = files h p"
      using mv1 mv2 ok L(7-9) h1(3) by (auto simp: fs_rename_Inr v_def old_def c_def)
    moreover have "armed h3"
      using mv1 mv2 ok h1(4) deadman_files [OF laws] by (auto simp: fs_rename_Inr)
    ultimately show ?thesis by (simp add: r)
  qed
qed

text \<open>C9: Exchanging the environments never loses one: the process exits only with the timer armed, the
  pending file written, the candidate whole in the live place and the old environment whole beside it;
  otherwise the candidate is whole where it was built and the live environment whole in its place or beside.\<close>

theorem venv_swap_keeps_both:
  fixes h :: "'m host_scheme" and venv_root state_dir :: string and snap :: VenvSnapshot
  defines "v \<equiv> fs_key (path_div venv_root ''venv'')" and "old \<equiv> fs_key (old_venv_path venv_root snap)"
    and "c \<equiv> fs_key (candidate_path snap)" and "p \<equiv> fs_key (path_div state_dir VENV_STATE_FILENAME)"
  assumes laws: "deadman_laws armed sd" and lay: "swap_layout venv_root state_dir snap"
    and run: "venv_arm_then_swap sd venv_root state_dir now snap h = (r, h')"
  shows "arm_and_swap_venv sd die venv_root state_dir now snap h = (case r of Inl e \<Rightarrow> (Inl e, h') | Inr _ \<Rightarrow> die h')
    \<and> (case r of
        Inr _ \<Rightarrow> files h p = None \<and> armed h' \<and> files h' p = Some (Regular (dumps '', '' '': '' (venv_record snap now)))
          \<and> moved v old h h' \<and> moved c v h h'
      | Inl e \<Rightarrow> moved c c h h' \<and> (moved v v h h' \<or> moved v old h h'))"
proof -
  let ?sp = "path_div state_dir VENV_STATE_FILENAME" and ?c = "dumps '', '' '': '' (venv_record snap now)"
  let ?cmd = "venv_revert_command snap"
  note L = swap_layoutD [OF lay, folded v_def old_def c_def p_def]
  obtain r0 h0 where mk: "fs_makedirs state_dir h = (r0, h0)" by (cases "fs_makedirs state_dir h")
  obtain r1 h1 where wr: "fs_write ?sp ?c h0 = (r1, h1)" by (cases "fs_write ?sp ?c h0")
  obtain r2 h2 where arm: "dm_arm sd (venv_deadman_unit snap) VENV_DEADMAN_DELAY_S ?cmd h1 = (r2, h2)"
    by (cases "dm_arm sd (venv_deadman_unit snap) VENV_DEADMAN_DELAY_S ?cmd h1")
  obtain ru hu where un: "fs_unlink_missing_ok ?sp h2 = (ru, hu)" by (cases "fs_unlink_missing_ok ?sp h2")
  have f0: "files h0 x = files h x" if "x \<notin> fs_key ` set (path_chain state_dir)" for x
    using fs_makedirs_only [OF mk that] .
  have f1: "files h1 x = files h0 x" if "x \<noteq> p" for x
    using wr that by (auto simp: fs_write_def p_def split: if_splits)
  have f2: "files h2 = files h1" using deadman_armD [OF laws arm] by simp
  have tree: "files g x = files h x" if "g \<in> {h0, h1, h2, hu}" "a \<in> {v, old, c}" "inside a x" for g a x
    using that(1) f0 [OF L(11) [OF that(2,3)]] f1 [OF L(10) [OF that(2,3)]] f2 fs_unlink_missing_ok_frame [OF un, of x] L(10) [OF that(2,3)]
    by (auto simp: p_def)
  have whole: "moved v v h g \<and> moved c c h g" if "g \<in> {h0, h1, h2, hu}" for g
    using tree [OF that] by (auto intro!: moved_frame [OF moved_refl])
  have run': "venv_arm_then_swap sd venv_root state_dir now snap h = (case r0 of Inl e \<Rightarrow> (Inl e, h0) | Inr _ \<Rightarrow>
      if files h0 p \<noteq> None then (Inl VenvStateError, h0) else
      (case r1 of Inl e \<Rightarrow> (Inl e, h1) | Inr _ \<Rightarrow>
        (case r2 of Inl e \<Rightarrow> (case ru of Inl e' \<Rightarrow> (Inl e', hu) | Inr _ \<Rightarrow> (Inl e, hu))
         | Inr _ \<Rightarrow> venv_renames sd venv_root ?sp snap h2)))"
    unfolding venv_arm_then_swap_def Let_def act_simps mk
    by (simp add: act_simps wr arm un fs_exists_def p_def split: sum.split)
  have "case r of
        Inr _ \<Rightarrow> files h p = None \<and> armed h' \<and> files h' p = Some (Regular ?c) \<and> moved v old h h' \<and> moved c v h h'
      | Inl e \<Rightarrow> moved c c h h' \<and> (moved v v h h' \<or> moved v old h h')"
  proof (cases "isl r0 \<or> files h0 p \<noteq> None \<or> isl r1 \<or> isl r2")
    case True
    then have "isl r \<and> h' \<in> {h0, h1, h2, hu}" using run run' by (auto simp: isl_def split: sum.splits if_splits)
    with whole show ?thesis by (cases r) auto
  next
    case False
    then obtain x1 x2 where ok: "r1 = Inr x1" "r2 = Inr x2" by (cases r1; cases r2) auto
    have ren: "venv_renames sd venv_root ?sp snap h2 = (r, h')" using run run' False ok by (cases r0) auto
    have p2: "armed h2" "files h2 p = Some (Regular ?c)" "files h p = None"
      using deadman_armD(2) [OF laws arm ok(2)] f2 wr ok(1) f0 [OF L(13)] False by (auto simp: fs_write_Inr p_def)
    have m: "moved v v h h2" "moved c c h h2" using whole [of h2] by simp_all
    from venv_renames_result [OF laws lay p2(1) ren, folded v_def old_def c_def p_def, OF m] p2 show ?thesis
      by (cases r) (auto simp: both_whole_def)
  qed
  then show ?thesis using run by (auto simp: arm_and_swap_venv_def act_simps split: sum.splits)
qed


lemma ignoring_apply: "ignoring m h = (Inr (), snd (m h))"
  by (simp add: ignoring_def act_catch_apply split: prod.split sum.split)

text \<open>A boot that commits does so after a probe that succeeded, and clears the pending file and the old
  environment; a boot that finds the service down changes nothing and leaves the timer to revert.\<close>

theorem boot_venv_commit_meaning:
  fixes h :: "'m host_scheme" and state_dir p :: string
  defines "p \<equiv> path_div state_dir VENV_STATE_FILENAME"
  assumes laws: "deadman_laws armed sd" and probe: "keeps_pending p armed head_of probe"
    and run: "boot_venv_commit sd probe staging_root state_dir h = (Inr outcome, h')"
  shows "case outcome of
      VenvNoPending \<Rightarrow> files h (fs_key p) = None \<and> h' = h
    | VenvLivenessFailed \<Rightarrow> armed h' = armed h \<and> files h' (fs_key p) = files h (fs_key p)
    | VenvCommitted \<Rightarrow> (\<exists>h1 name u. probe h = (Inr True, h1) \<and> read_venv_state p h = (Inr (JStr name, u), h)
        \<and> (\<not> isl (fst (disarm_json sd u h1)) \<longrightarrow> \<not> armed h')
        \<and> (let old = fs_key (path_div (path_div staging_root VENVS_SUBDIR) name) in
             \<forall>x. inside old x \<longrightarrow> files (snd (disarm_json sd u h1)) old \<noteq> None \<longrightarrow> \<not> io_fault (snd (disarm_json sd u h1)) x \<longrightarrow> files h' x = None))"
proof (cases "files h (fs_key p) = None")
  case True
  with run show ?thesis by (simp add: boot_venv_commit_def act_simps fs_exists_def p_def Let_def)
next
  case False
  obtain r0 g0 where rd: "read_venv_state p h = (r0, g0)" by (cases "read_venv_state p h")
  have g0: "g0 = h"
    using rd by (auto simp: read_venv_state_def act_simps dest: fs_read_keeps split: prod.splits sum.splits option.splits json.splits)
  show ?thesis
  proof (cases r0)
    case (Inl e)
    with run rd g0 False show ?thesis by (auto simp: boot_venv_commit_def act_simps fs_exists_def p_def Let_def)
  next
    case (Inr y)
    obtain old u where y: "y = (old, u)" by (cases y)
    obtain rp h1 where pr: "probe h = (rp, h1)" by (cases "probe h")
    note h1 = keeps_pendingD [OF probe pr]
    show ?thesis
    proof (cases "rp = Inr True")
      case False
      with run rd g0 Inr y pr h1 \<open>files h (fs_key p) \<noteq> None\<close> show ?thesis
        by (auto simp: boot_venv_commit_def act_simps fs_exists_def p_def Let_def split: sum.splits)
    next
      case True
      obtain rd2 h2 where d: "disarm_json sd u h1 = (rd2, h2)" by (cases "disarm_json sd u h1")
      have h2: "\<not> isl rd2 \<longrightarrow> \<not> armed h2"
        using d deadman_disarmD(2) [OF laws] by (cases u; cases rd2) (auto simp: disarm_json_def)
      let ?old = "\<lambda>name. path_div (path_div staging_root VENVS_SUBDIR) name"
      have "boot_venv_commit sd probe staging_root state_dir h = (case old of
          JStr name \<Rightarrow> (Inr VenvCommitted, snd (ignoring (fs_unlink_missing_ok p)
            (if fs_exists (?old name) h2 then fs_rmtree (?old name) h2 else h2)))
        | _ \<Rightarrow> (Inl type_error, h2))"
        unfolding boot_venv_commit_def p_def [symmetric] Let_def act_simps
        using \<open>files h (fs_key p) \<noteq> None\<close> rd g0 Inr y pr d True
        by (simp add: act_simps fs_exists_def ignoring_apply split: json.split)
      with run obtain name where name: "old = JStr name" "outcome = VenvCommitted"
        and h': "h' = snd (ignoring (fs_unlink_missing_ok p) (if fs_exists (?old name) h2 then fs_rmtree (?old name) h2 else h2))"
        by (cases old) auto
      have arm: "armed h' = armed h2"
        using deadman_files [OF laws] by (auto simp: h' ignoring_apply fs_unlink_missing_ok_eq fs_rmtree_def)
      have gone: "files h' x = None" if "inside (fs_key (path_div (path_div staging_root VENVS_SUBDIR) name)) x"
        "files h2 (fs_key (path_div (path_div staging_root VENVS_SUBDIR) name)) \<noteq> None" "\<not> io_fault h2 x" for x
        using that by (auto simp: h' ignoring_apply fs_unlink_missing_ok_eq fs_rmtree_def fs_exists_def)
      have c1: "probe h = (Inr True, h1)" using pr True by simp
      have c2: "read_venv_state p h = (Inr (JStr name, u), h)" using rd g0 Inr y name by simp
      have c3: "\<not> isl (fst (disarm_json sd u h1)) \<longrightarrow> \<not> armed h'" using h2 arm by (simp add: d)
      have c4: "\<forall>x. inside (fs_key (path_div (path_div staging_root VENVS_SUBDIR) name)) x \<longrightarrow>
          files (snd (disarm_json sd u h1)) (fs_key (path_div (path_div staging_root VENVS_SUBDIR) name)) \<noteq> None \<longrightarrow>
          \<not> io_fault (snd (disarm_json sd u h1)) x \<longrightarrow> files h' x = None" using gone by (simp add: d)
      show ?thesis
        unfolding name venv_outcome.case Let_def
        using c1 c2 c3 c4 by blast
    qed
  qed
qed


text \<open>A builder works inside the directory it is given. \<open>frames S m\<close>: \<open>m\<close> leaves the nodes in \<open>S\<close>.\<close>

definition frames :: "(string \<Rightarrow> bool) \<Rightarrow> ('m host_scheme, 'a) act \<Rightarrow> bool" where
  "frames S m \<longleftrightarrow> (\<forall>h x. S x \<longrightarrow> files (snd (m h)) x = files h x)"

definition builder_frames :: "(string \<Rightarrow> bool) \<Rightarrow> string \<Rightarrow> ('m host_scheme) venv_builder \<Rightarrow> bool" where
  "builder_frames S cand b \<longleftrightarrow> (\<forall>py. frames S (vb_frozen_hash b py)) \<and> frames S (vb_create_venv b cand)
     \<and> (\<forall>py reqs. frames S (vb_install_deps b py reqs)) \<and> (\<forall>py name. frames S (vb_check_import b py name))
     \<and> (\<forall>py cwd. frames S (vb_run_smoke b py cwd))"

lemma framesD: "frames S m \<Longrightarrow> m h = (r, h') \<Longrightarrow> S x \<Longrightarrow> files h' x = files h x"
  unfolding frames_def by (metis snd_conv)

lemma frames_bind: "frames S m \<Longrightarrow> (\<And>x. frames S (k x)) \<Longrightarrow> frames S (act_bind m k)"
  unfolding frames_def by (auto simp: act_bind_apply split: prod.split sum.split) (metis snd_conv)+

lemma frames_then: "frames S m \<Longrightarrow> frames S k \<Longrightarrow> frames S (act_then m k)"
  by (simp add: act_then_def frames_bind)

lemma frames_catch: "frames S m \<Longrightarrow> (\<And>e. frames S (k e)) \<Longrightarrow> frames S (act_catch m k)"
  unfolding frames_def by (auto simp: act_catch_apply split: prod.split sum.split) (metis snd_conv)+

lemma frames_simple [simp]: "frames S (act_return x)" "frames S (act_raise e)"
  by (simp_all add: frames_def)

lemma frames_expect: "frames S m \<Longrightarrow> frames S (expect_zero m)"
  unfolding expect_zero_def by (rule frames_bind) simp_all

lemma frames_prove:
  assumes "builder_frames S cand b"
  shows "frames S (prove_candidate b src dep cand)"
proof -
  have "frames S (vb_frozen_hash b py)" "frames S (vb_create_venv b cand)" "frames S (vb_install_deps b py reqs)"
    "frames S (vb_check_import b py name)" "frames S (vb_run_smoke b py cwd)" for py reqs name cwd
    using assms by (simp_all add: builder_frames_def)
  then show ?thesis
    unfolding prove_candidate_def Let_def by (intro frames_then frames_expect) (auto intro: frames_expect)
qed

text \<open>Building a candidate never touches the live environment, whatever happens, and a snapshot is
  returned only when every check on that candidate has passed.\<close>

theorem preflight_venv_isolated:
  fixes h :: "'m host_scheme" and venv_root staging_root sid :: string
  defines "v \<equiv> fs_key (path_div venv_root ''venv'')"
    and "cand \<equiv> path_div (path_div staging_root VENVS_SUBDIR) (''candidate-'' @ sid)"
  assumes frames: "builder_frames (inside v) cand b" and apart: "\<not> inside v (fs_key cand)" "\<not> inside (fs_key cand) v"
    and dirs: "\<And>x. inside v x \<Longrightarrow> x \<notin> fs_key ` set (path_chain (path_div staging_root VENVS_SUBDIR))"
    and run: "preflight_venv b sid src venv_root staging_root dep h = (r, h')"
  shows "(\<forall>x. inside v x \<longrightarrow> files h' x = files h x)
    \<and> (\<forall>snap. r = Inr snap \<longrightarrow> candidate_path snap = cand
        \<and> (\<exists>g. prove_candidate b src dep cand g = (Inr (frozen_hash_after snap), h')))"
proof
  have mk: "frames (inside v) (fs_makedirs (path_div staging_root VENVS_SUBDIR) :: ('m host_scheme, unit) act)"
    unfolding frames_def
  proof (intro allI impI)
    fix g :: "'m host_scheme" and x
    assume x: "inside v x"
    show "files (snd (fs_makedirs (path_div staging_root VENVS_SUBDIR) g)) x = files g x"
      by (rule fs_makedirs_only [where r = "fst (fs_makedirs (path_div staging_root VENVS_SUBDIR) g)", OF _ dirs [OF x]]) simp
  qed
  have rm: "frames (inside v) (act_modify (fs_rmtree cand))"
    unfolding frames_def fs_rmtree_def using apart_trees [of v _ "fs_key cand"] apart by auto
  have "frames (inside v) (preflight_venv b sid src venv_root staging_root dep)"
    unfolding preflight_venv_def Let_def cand_def [symmetric]
    by (intro frames_bind frames_then frames_catch frames_prove mk rm frames_simple)
      (use frames in \<open>simp_all add: builder_frames_def\<close>)
  from framesD [OF this run] show "\<forall>x. inside v x \<longrightarrow> files h' x = files h x" by blast
  show "\<forall>snap. r = Inr snap \<longrightarrow> candidate_path snap = cand
        \<and> (\<exists>g. prove_candidate b src dep cand g = (Inr (frozen_hash_after snap), h'))"
    using run unfolding preflight_venv_def Let_def cand_def [symmetric]
    by (auto simp: act_simps split: prod.splits sum.splits)
qed

text \<open>A committed update is written down as a failure: when the boot check commits, the ledger gains a row
  whose outcome is \<open>liveness_failed\<close>.\<close>

theorem venv_commit_recorded_as_failure:
  assumes "fs_exists (path_div VENV_STATE_DIR VENV_STATE_FILENAME) (world st)"
    and "fst (read_frozen (path_div VENV_STATE_DIR VENV_STATE_FILENAME) (world st)) = Inr (JStr a, JStr b)"
    and "boot_venv_commit sd probe (rawos_source_root cfg) VENV_STATE_DIR (world st) = (Inr VenvCommitted, h)"
  shows "venv_ledger (db (venv_boot_commit_task cfg sd probe st)) = venv_ledger (db st) @
     [\<lparr>vr_op_type = ''dep_update'', vr_hash_before = a, vr_hash_after = b, vr_outcome = ''liveness_failed'',
       vr_autonomous = False, vr_deadman_unit = None\<rparr>]"
  using assms by (simp add: venv_boot_commit_task_def Let_def record_venv_op_outcome_def)

lemma on_world_tracks: "kept (\<lambda>s. operator_tracks (db s) = t) (on_world m)"
  by (rule keptI) (auto simp: on_world_def split: prod.splits)

text \<open>The dependency class can never graduate: neither the gate, nor an approved operation, nor the boot
  task ever writes a track record, so while the class has no history the gate only proposes.\<close>

theorem venv_never_graduates:
  "operator_tracks (db (snd (operate_on_venv cfg b sid sd die now user dep st))) = operator_tracks (db st)
   \<and> operator_tracks (db (snd (execute_approved_venv_op b sid sd die src vr sr sdir now dep auto st))) = operator_tracks (db st)
   \<and> operator_tracks (db (venv_boot_commit_task cfg sd probe st)) = operator_tracks (db st)"
proof -
  have l: "operator_tracks (snd (record_venv_op_outcome x1 x2 x3 x4 x5 x6 d)) = operator_tracks d" for x1 x2 x3 x4 x5 x6 d
    by (simp add: record_venv_op_outcome_def)
  let ?kept = "kept (\<lambda>s. operator_tracks (db s) = operator_tracks (db st))"
  have dd: "?kept (act_catch (on_db (record_venv_op_outcome x1 x2 x3 x4 x5 x6)) (\<lambda>_. act_return ()))" for x1 x2 x3 x4 x5 x6
    using l by (intro kept_catch kept_return keptI) (auto simp: on_db_def split: prod.splits; metis snd_conv)
  have ex: "?kept (execute_approved_venv_op b sid sd die src vr sr sdir now dep auto)" for src vr sr sdir auto
    unfolding execute_approved_venv_op_def by (intro kept_bind kept_then kept_return on_world_tracks dd)
  have op: "?kept (operate_on_venv cfg b sid sd die now user dep)"
    unfolding operate_on_venv_def Let_def by (intro kept_if kept_bind kept_then kept_return kept_get ex)
  show ?thesis
    using op ex [of src vr sr sdir auto] l
    by (auto simp: kept_def venv_boot_commit_task_def Let_def split: sum.split prod.split json.split)
qed


subsection \<open>A machine with an environment\<close>

definition sample_venv_snap :: VenvSnapshot where
  "sample_venv_snap = \<lparr>venv_state_id = ''1'', old_venv_id = ''old-1'', candidate_path = ''/r/.venvs/candidate-1'',
     frozen_hash_before = ''a'', frozen_hash_after = ''b'', venv_deadman_unit = VENV_DEADMAN_UNIT\<rparr>"

definition sample_venv_host :: timed_host where
  "sample_venv_host = \<lparr>files = [''/r'' \<mapsto> Directory, ''/r/venv'' \<mapsto> Directory, ''/r/venv/lib'' \<mapsto> Regular ''old'',
     ''/r/.venvs'' \<mapsto> Directory, ''/r/.venvs/candidate-1'' \<mapsto> Directory, ''/r/.venvs/candidate-1/lib'' \<mapsto> Regular ''new'',
     ''/s'' \<mapsto> Directory], io_fault = (\<lambda>_. False), timer_on = False\<rparr>"

lemma sample_swap_layout: "swap_layout ''/r'' ''/s'' sample_venv_snap"
  by code_simp

theorem venv_swap_keeps_both_witness:
  "case venv_arm_then_swap sample_timer ''/r'' ''/s'' 0 sample_venv_snap sample_venv_host of
     (Inr _, h) \<Rightarrow> timer_on h \<and> files h ''/r/venv/lib'' = Some (Regular ''new'') \<and> files h ''/r/.venvs/old-1/lib'' = Some (Regular ''old'')
   | (Inl _, h) \<Rightarrow> files h ''/r/.venvs/candidate-1/lib'' = Some (Regular ''new'')"
proof -
  let ?run = "venv_arm_then_swap sample_timer ''/r'' ''/s'' 0 sample_venv_snap sample_venv_host"
  have run: "?run = (fst ?run, snd ?run)" by simp
  have keys: "fs_key (path_div ''/r'' ''venv'') = ''/r/venv''" "fs_key (old_venv_path ''/r'' sample_venv_snap) = ''/r/.venvs/old-1''"
    "fs_key (candidate_path sample_venv_snap) = ''/r/.venvs/candidate-1''" by code_simp+
  have inn: "inside ''/r/venv'' ''/r/venv/lib''" "inside ''/r/.venvs/candidate-1'' ''/r/.venvs/candidate-1/lib''" by code_simp+
  have f: "files sample_venv_host ''/r/venv/lib'' = Some (Regular ''old'')"
    "files sample_venv_host ''/r/.venvs/candidate-1/lib'' = Some (Regular ''new'')" by code_simp+
  have m: "moved ''/r/venv'' ''/r/.venvs/old-1'' sample_venv_host h \<Longrightarrow> files h ''/r/.venvs/old-1/lib'' = Some (Regular ''old'')"
    "moved ''/r/.venvs/candidate-1'' ''/r/venv'' sample_venv_host h \<Longrightarrow> files h ''/r/venv/lib'' = Some (Regular ''new'')"
    "moved ''/r/.venvs/candidate-1'' ''/r/.venvs/candidate-1'' sample_venv_host h \<Longrightarrow> files h ''/r/.venvs/candidate-1/lib'' = Some (Regular ''new'')" for h
    unfolding moved_def using inn f by fastforce+
  from venv_swap_keeps_both [OF sample_timer_laws sample_swap_layout run, of "act_return ()", unfolded keys] m show ?thesis
    by (cases "fst ?run"; cases ?run) auto
qed

text \<open>Two failures of the exchange leave the machine worse than it was. When the second rename fails there
  is no live environment any more, and the timer that would bring it back has been switched off; when the
  directory of old environments cannot be made, nothing is exchanged but the timer stays armed and the
  pending file stays, so that the revert runs on a healthy system and no other update is accepted.\<close>

theorem venv_swap_failure_modes:
  "(let out = venv_arm_then_swap sample_timer ''/r'' ''/s'' 0 sample_venv_snap
        (sample_venv_host\<lparr>io_fault := (\<lambda>x. x = ''/r/.venvs/candidate-1'')\<rparr>)
    in isl (fst out) \<and> files (snd out) ''/r/venv'' = None \<and> files (snd out) ''/r/venv/lib'' = None \<and> \<not> timer_on (snd out)
      \<and> files (snd out) ''/s/state.json'' = None)
   \<and> (let h = sample_venv_host\<lparr>files := (files sample_venv_host)(''/r/.venvs'' \<mapsto> Regular [])\<rparr>;
        out = venv_arm_then_swap sample_timer ''/r'' ''/s'' 0 (sample_venv_snap\<lparr>candidate_path := ''/c''\<rparr>) h
    in isl (fst out) \<and> files (snd out) ''/r/venv/lib'' = Some (Regular ''old'') \<and> timer_on (snd out)
      \<and> files (snd out) ''/s/state.json'' \<noteq> None)"
  by code_simp

definition venv_state_text :: string where
  "venv_state_text = dumps '', '' '': '' (venv_record sample_venv_snap 0)"

definition sample_booted :: timed_host where
  "sample_booted = \<lparr>files = [''/root/.anima-venv-pending'' \<mapsto> Directory,
     ''/root/.anima-venv-pending/state.json'' \<mapsto> Regular venv_state_text], io_fault = (\<lambda>_. False), timer_on = True\<rparr>"

lemma sample_state_path: "path_div VENV_STATE_DIR VENV_STATE_FILENAME = ''/root/.anima-venv-pending/state.json''"
  "fs_key ''/root/.anima-venv-pending/state.json'' = ''/root/.anima-venv-pending/state.json''"
  by code_simp+

lemma sample_state_loads: "loads venv_state_text = Some (venv_record sample_venv_snap 0)"
  unfolding venv_state_text_def by (rule loads_dumps) (simp_all add: venv_record_def blanks_def json_ws_def)

lemma sample_boot_commits: "fst (boot_venv_commit sample_timer (act_return True) root VENV_STATE_DIR sample_booted) = Inr VenvCommitted"
  by (simp add: boot_venv_commit_def act_simps fs_exists_def sample_state_path sample_booted_def read_venv_state_def fs_read_def
      sample_state_loads venv_record_def obj_get_def Let_def sample_venv_snap_def ignoring_apply)

theorem boot_venv_commit_meaning_witness:
  "\<exists>h'. boot_venv_commit sample_timer (act_return True) ''/r'' VENV_STATE_DIR sample_booted = (Inr VenvCommitted, h')
     \<and> (\<exists>name u. read_venv_state (path_div VENV_STATE_DIR VENV_STATE_FILENAME) sample_booted = (Inr (JStr name, u), sample_booted))"
proof -
  obtain h' where run: "boot_venv_commit sample_timer (act_return True) ''/r'' VENV_STATE_DIR sample_booted = (Inr VenvCommitted, h')"
    using sample_boot_commits [of "''/r''"] by (metis prod.collapse)
  have keep: "keeps_pending (path_div VENV_STATE_DIR VENV_STATE_FILENAME) timer_on (\<lambda>_. [])
      (act_return True :: (timed_host, bool) act)" by (simp add: keeps_pending_def)
  from boot_venv_commit_meaning [OF sample_timer_laws keep run] run show ?thesis by auto
qed

theorem venv_commit_recorded_as_failure_witness:
  "map vr_outcome (venv_ledger (db (venv_boot_commit_task default_settings sample_timer (act_return True)
     \<lparr>db = empty_db, world = sample_booted\<rparr>))) = [''liveness_failed'']"
proof -
  let ?st = "\<lparr>db = empty_db, world = sample_booted\<rparr>"
  have there: "fs_exists (path_div VENV_STATE_DIR VENV_STATE_FILENAME) (world ?st)"
    by (simp add: fs_exists_def sample_state_path sample_booted_def)
  have rd: "fst (read_frozen (path_div VENV_STATE_DIR VENV_STATE_FILENAME) (world ?st)) = Inr (JStr ''a'', JStr ''b'')"
    by (simp add: read_frozen_def act_simps fs_read_def sample_state_path sample_booted_def sample_state_loads
        venv_record_def obj_get_def sample_venv_snap_def)
  obtain h' where run: "boot_venv_commit sample_timer (act_return True) (rawos_source_root default_settings) VENV_STATE_DIR (world ?st) =
      (Inr VenvCommitted, h')"
    using sample_boot_commits [of "rawos_source_root default_settings"] by (metis kernel_state.select_convs(2) prod.collapse)
  show ?thesis
    unfolding venv_commit_recorded_as_failure [OF there rd run] by (simp add: empty_db_def)
qed

text \<open>A builder that only makes the candidate's directory.\<close>

definition sample_builder :: "timed_host venv_builder" where
  "sample_builder = \<lparr>vb_frozen_hash = (\<lambda>_. act_return ''h''), vb_create_venv = fs_mkdir,
     vb_install_deps = (\<lambda>_ _. act_return \<lparr>returncode = 0, stdout = [], stderr = []\<rparr>),
     vb_check_import = (\<lambda>_ _. act_return \<lparr>returncode = 0, stdout = [], stderr = []\<rparr>),
     vb_run_smoke = (\<lambda>_ _. act_return \<lparr>returncode = 0, stdout = [], stderr = []\<rparr>)\<rparr>"

theorem preflight_venv_isolated_witness:
  "files (snd (preflight_venv sample_builder ''2'' ''/src'' ''/r'' ''/r'' \<lparr>requirements = [], dep_op_type = ''dep_update''\<rparr> sample_venv_host))
     ''/r/venv/lib'' = Some (Regular ''old'')"
proof -
  let ?run = "preflight_venv sample_builder ''2'' ''/src'' ''/r'' ''/r'' \<lparr>requirements = [], dep_op_type = ''dep_update''\<rparr> sample_venv_host"
  let ?v = "fs_key (path_div ''/r'' ''venv'')" and ?c = "path_div (path_div ''/r'' VENVS_SUBDIR) (''candidate-'' @ ''2'')"
  have run: "?run = (fst ?run, snd ?run)" by simp
  have v: "?v = ''/r/venv''" by code_simp
  have apart: "\<not> inside ?v (fs_key ?c)" "\<not> inside (fs_key ?c) ?v" by code_simp+
  have chain: "fs_key ` set (path_chain (path_div ''/r'' VENVS_SUBDIR)) = {''/r'', ''/r/.venvs''}" by code_simp
  have "\<not> inside ''/r/venv'' ''/r''" "\<not> inside ''/r/venv'' ''/r/.venvs''" by code_simp+
  then have dirs: "inside ?v x \<Longrightarrow> x \<notin> fs_key ` set (path_chain (path_div ''/r'' VENVS_SUBDIR))" for x
    unfolding v chain by auto
  have frames: "builder_frames (inside ?v) ?c sample_builder"
  proof -
    have "files (snd (fs_mkdir ?c h)) x = files h x" if "inside ?v x" for h :: timed_host and x
      by (rule fs_mkdir_only [where r = "fst (fs_mkdir ?c h)"]) (use that apart(1) in auto)
    then show ?thesis by (simp add: builder_frames_def sample_builder_def frames_def)
  qed
  have inn: "inside ?v ''/r/venv/lib''" by code_simp
  have "files sample_venv_host ''/r/venv/lib'' = Some (Regular ''old'')" by code_simp
  with preflight_venv_isolated [OF frames apart dirs run] inn show ?thesis by auto
qed

end
