(* ===== verification/Landlock.thy ===== *)
theory Landlock
  imports Py_Paths "HOL-Library.Word"
begin

text \<open>
  The Landlock envelope of \<open>anima/kernel/landlock.py\<close>: the access masks, the ABI check, the construction
  of a ruleset from a policy in the parent and the closure that applies it in the child. The syscalls are a
  parameter; what is relied on of them is \<open>landlock_laws\<close>. An access mask is a 64-bit word, as in the
  kernel's structures.
\<close>

unbundle bit_operations_syntax

type_synonym u64 = "64 word"

subsection \<open>Access masks\<close>

definition ACCESS_FS_EXECUTE :: u64 where "ACCESS_FS_EXECUTE = push_bit 0 1"
definition ACCESS_FS_WRITE_FILE :: u64 where "ACCESS_FS_WRITE_FILE = push_bit 1 1"
definition ACCESS_FS_READ_FILE :: u64 where "ACCESS_FS_READ_FILE = push_bit 2 1"
definition ACCESS_FS_READ_DIR :: u64 where "ACCESS_FS_READ_DIR = push_bit 3 1"
definition ACCESS_FS_REMOVE_DIR :: u64 where "ACCESS_FS_REMOVE_DIR = push_bit 4 1"
definition ACCESS_FS_REMOVE_FILE :: u64 where "ACCESS_FS_REMOVE_FILE = push_bit 5 1"
definition ACCESS_FS_MAKE_CHAR :: u64 where "ACCESS_FS_MAKE_CHAR = push_bit 6 1"
definition ACCESS_FS_MAKE_DIR :: u64 where "ACCESS_FS_MAKE_DIR = push_bit 7 1"
definition ACCESS_FS_MAKE_REG :: u64 where "ACCESS_FS_MAKE_REG = push_bit 8 1"
definition ACCESS_FS_MAKE_SOCK :: u64 where "ACCESS_FS_MAKE_SOCK = push_bit 9 1"
definition ACCESS_FS_MAKE_FIFO :: u64 where "ACCESS_FS_MAKE_FIFO = push_bit 10 1"
definition ACCESS_FS_MAKE_BLOCK :: u64 where "ACCESS_FS_MAKE_BLOCK = push_bit 11 1"
definition ACCESS_FS_MAKE_SYM :: u64 where "ACCESS_FS_MAKE_SYM = push_bit 12 1"
definition ACCESS_FS_REFER :: u64 where "ACCESS_FS_REFER = push_bit 13 1"
definition ACCESS_FS_TRUNCATE :: u64 where "ACCESS_FS_TRUNCATE = push_bit 14 1"
definition ACCESS_FS_RO :: u64 where
  "ACCESS_FS_RO = ACCESS_FS_EXECUTE OR ACCESS_FS_READ_FILE OR ACCESS_FS_READ_DIR"
definition ACCESS_NET_BIND_TCP :: u64 where "ACCESS_NET_BIND_TCP = push_bit 0 1"
definition ACCESS_NET_CONNECT_TCP :: u64 where "ACCESS_NET_CONNECT_TCP = push_bit 1 1"

definition fs_access_mask :: "int \<Rightarrow> u64" where
  "fs_access_mask abi =
     (let mask0 = push_bit 13 1 - 1;
          mask1 = (if abi \<ge> 2 then mask0 OR ACCESS_FS_REFER else mask0)
      in if abi \<ge> 3 then mask1 OR ACCESS_FS_TRUNCATE else mask1)"

definition MIN_ABI :: int where "MIN_ABI = 4"

lemmas access_defs = ACCESS_FS_EXECUTE_def ACCESS_FS_WRITE_FILE_def ACCESS_FS_READ_FILE_def ACCESS_FS_READ_DIR_def
  ACCESS_FS_REMOVE_DIR_def ACCESS_FS_REMOVE_FILE_def ACCESS_FS_MAKE_CHAR_def ACCESS_FS_MAKE_DIR_def
  ACCESS_FS_MAKE_REG_def ACCESS_FS_MAKE_SOCK_def ACCESS_FS_MAKE_FIFO_def ACCESS_FS_MAKE_BLOCK_def
  ACCESS_FS_MAKE_SYM_def ACCESS_FS_REFER_def ACCESS_FS_TRUNCATE_def ACCESS_FS_RO_def

subsection \<open>The policy\<close>

record Policy =
  ro_paths :: "string list"
  rw_paths :: "string list"
  tcp_connect_ports :: "int list"
  tcp_bind_ports :: "int list"

definition DEFAULT_BEING_ENVELOPE :: Policy where
  "DEFAULT_BEING_ENVELOPE = \<lparr>ro_paths = [''/usr'', ''/bin'', ''/lib'', ''/lib64'', ''/sbin'', ''/etc'', ''/proc''],
     rw_paths = [''/tmp'', ''/var/tmp'', ''/root/rawos/data'', ''/dev''],
     tcp_connect_ports = [53, 80, 443], tcp_bind_ports = []\<rparr>"

subsection \<open>Syscalls\<close>

text \<open>\<open>ll_version\<close> is \<open>landlock_create_ruleset(NULL, 0, VERSION)\<close>. A syscall returns an \<open>int\<close>; \<open>os.open\<close>
  raises. A port is widened to 64 bits.\<close>

record 'w landlock_kernel =
  ll_version :: "'w \<Rightarrow> int"
  ll_create :: "u64 \<Rightarrow> u64 \<Rightarrow> 'w \<Rightarrow> int \<times> 'w"
  ll_open :: "string \<Rightarrow> ('w, int) act"
  ll_add_path :: "int \<Rightarrow> u64 \<Rightarrow> int \<Rightarrow> 'w \<Rightarrow> int \<times> 'w"
  ll_add_port :: "int \<Rightarrow> u64 \<Rightarrow> u64 \<Rightarrow> 'w \<Rightarrow> int \<times> 'w"
  ll_close :: "int \<Rightarrow> 'w \<Rightarrow> 'w"
  ll_no_new_privs :: "'w \<Rightarrow> int \<times> 'w"
  ll_restrict :: "int \<Rightarrow> 'w \<Rightarrow> int \<times> 'w"

definition ret :: "('w \<Rightarrow> int \<times> 'w) \<Rightarrow> ('w, int) act" where
  "ret f = (\<lambda>w. case f w of (rc, w') \<Rightarrow> (Inr rc, w'))"

text \<open>The process caches the version.\<close>

record 'w landlock_state =
  abi_cache :: "int option"
  ll_world :: 'w

definition in_kernel :: "('w, 'a) act \<Rightarrow> ('w landlock_state, 'a) act" where
  "in_kernel m = (\<lambda>s. case m (ll_world s) of (r, w) \<Rightarrow> (r, s\<lparr>ll_world := w\<rparr>))"

definition landlock_supported :: "'w landlock_kernel \<Rightarrow> ('w landlock_state, int) act" where
  "landlock_supported K = (\<lambda>s. case abi_cache s of
       Some v \<Rightarrow> (Inr v, s)
     | None \<Rightarrow> (let r = ll_version K (ll_world s); v = (if r > 0 then r else 0) in (Inr v, s\<lparr>abi_cache := Some v\<rparr>)))"

definition landlock_validate_boot_config :: "'w landlock_kernel \<Rightarrow> bool \<Rightarrow> ('w landlock_state, unit) act" where
  "landlock_validate_boot_config K enabled =
     (if \<not> enabled then act_return ()
      else act_bind (landlock_supported K) (\<lambda>abi. if abi < MIN_ABI then act_raise LandlockUnsupportedError else act_return ()))"

subsection \<open>Building a ruleset\<close>

definition add_path_rule :: "'w landlock_kernel \<Rightarrow> int \<Rightarrow> string \<Rightarrow> u64 \<Rightarrow> ('w, unit) act" where
  "add_path_rule K ruleset_fd path allowed_access =
     act_bind (ll_open K path) (\<lambda>fd. act_finally
       (act_bind (ret (ll_add_path K ruleset_fd allowed_access fd)) (\<lambda>rc.
          if rc \<noteq> 0 then act_raise LandlockError else act_return ()))
       (act_modify (ll_close K fd)))"

definition add_net_rule :: "'w landlock_kernel \<Rightarrow> int \<Rightarrow> int \<Rightarrow> u64 \<Rightarrow> ('w, unit) act" where
  "add_net_rule K ruleset_fd port allowed_access =
     act_bind (ret (ll_add_port K ruleset_fd allowed_access (word_of_int port))) (\<lambda>rc.
       if rc \<noteq> 0 then act_raise LandlockError else act_return ())"

fun each :: "('a \<Rightarrow> ('w, unit) act) \<Rightarrow> 'a list \<Rightarrow> ('w, unit) act" where
  "each f [] = act_return ()"
| "each f (x # xs) = act_then (f x) (each f xs)"

definition add_rules :: "'w landlock_kernel \<Rightarrow> int \<Rightarrow> int \<Rightarrow> Policy \<Rightarrow> ('w, unit) act" where
  "add_rules K abi fd pol =
     act_then (each (\<lambda>p. add_path_rule K fd p ACCESS_FS_RO) (ro_paths pol))
     (act_then (each (\<lambda>p. add_path_rule K fd p (fs_access_mask abi)) (rw_paths pol))
     (act_then (each (\<lambda>n. add_net_rule K fd n ACCESS_NET_CONNECT_TCP) (tcp_connect_ports pol))
     (each (\<lambda>n. add_net_rule K fd n ACCESS_NET_BIND_TCP) (tcp_bind_ports pol))))"

definition build_ruleset :: "'w landlock_kernel \<Rightarrow> int \<Rightarrow> Policy \<Rightarrow> ('w, int) act" where
  "build_ruleset K abi pol =
     act_bind (ret (ll_create K (fs_access_mask abi) (ACCESS_NET_BIND_TCP OR ACCESS_NET_CONNECT_TCP))) (\<lambda>fd.
       if fd < 0 then act_raise LandlockError
       else act_then
         (act_catch (add_rules K abi fd pol) (\<lambda>e. act_then (act_modify (ll_close K fd)) (act_raise e)))
         (act_return fd))"

text \<open>What the child runs.\<close>

definition restrict_self :: "'w landlock_kernel \<Rightarrow> int \<Rightarrow> ('w, unit) act" where
  "restrict_self K ruleset_fd =
     act_bind (ret (ll_no_new_privs K)) (\<lambda>rc. if rc \<noteq> 0 then act_raise PyOSError
       else act_bind (ret (ll_restrict K ruleset_fd)) (\<lambda>rc. if rc \<noteq> 0 then act_raise PyOSError else act_return ()))"

text \<open>The parent's part: the descriptor is what the returned closure \<open>restrict_self K\<close> carries.\<close>

definition build_restrict_self_fn :: "'w landlock_kernel \<Rightarrow> Policy \<Rightarrow> ('w landlock_state, int) act" where
  "build_restrict_self_fn K pol =
     act_bind (landlock_supported K) (\<lambda>abi.
       if abi < MIN_ABI then act_raise LandlockUnsupportedError else in_kernel (build_ruleset K abi pol))"

subsection \<open>What the kernel promises\<close>

datatype ll_rule = PathRule string u64 | PortRule u64 u64

text \<open>\<open>rules_of w fd\<close> is the ruleset behind a descriptor, \<open>None\<close> when it is not an open one; \<open>node_of w fd\<close>
  the path a descriptor was opened on.\<close>

definition landlock_laws ::
    "('w \<Rightarrow> int \<Rightarrow> ll_rule list option) \<Rightarrow> ('w \<Rightarrow> int \<Rightarrow> string option) \<Rightarrow> 'w landlock_kernel \<Rightarrow> bool" where
  "landlock_laws rules_of node_of K \<longleftrightarrow>
     (\<forall>f n w fd w'. ll_create K f n w = (fd, w') \<longrightarrow> (if fd < 0 then rules_of w' = rules_of w else rules_of w fd = None \<and> rules_of w' = (rules_of w)(fd := Some [])))
     \<and> (\<forall>p w r w'. ll_open K p w = (r, w') \<longrightarrow> rules_of w' = rules_of w
          \<and> (\<forall>fd. r = Inr fd \<longrightarrow> node_of w' fd = Some p \<and> rules_of w fd = None))
     \<and> (\<forall>fd acc node w rc w'. ll_add_path K fd acc node w = (rc, w') \<longrightarrow>
          (if rc \<noteq> 0 then rules_of w' = rules_of w
           else \<exists>rs p. rules_of w fd = Some rs \<and> node_of w node = Some p \<and> rules_of w' = (rules_of w)(fd := Some (rs @ [PathRule p acc]))))
     \<and> (\<forall>fd acc port w rc w'. ll_add_port K fd acc port w = (rc, w') \<longrightarrow>
          (if rc \<noteq> 0 then rules_of w' = rules_of w
           else \<exists>rs. rules_of w fd = Some rs \<and> rules_of w' = (rules_of w)(fd := Some (rs @ [PortRule port acc]))))
     \<and> (\<forall>fd w. rules_of (ll_close K fd w) = (rules_of w)(fd := None))"

text \<open>The documented meaning of a ruleset: an access that the ruleset handles is permitted on a node exactly
  when a rule on the node or on a directory above it grants it; likewise on a port.\<close>

definition permits_path :: "u64 \<Rightarrow> ll_rule list \<Rightarrow> string \<Rightarrow> nat \<Rightarrow> bool" where
  "permits_path handled rs q b \<longleftrightarrow> \<not> bit handled b \<or>
     list_ex (\<lambda>r. case r of PathRule p acc \<Rightarrow> inside (fs_key p) q \<and> bit acc b | PortRule _ _ \<Rightarrow> False) rs"

definition permits_port :: "u64 \<Rightarrow> ll_rule list \<Rightarrow> u64 \<Rightarrow> nat \<Rightarrow> bool" where
  "permits_port handled rs n b \<longleftrightarrow> \<not> bit handled b \<or>
     list_ex (\<lambda>r. case r of PathRule _ _ \<Rightarrow> False | PortRule m acc \<Rightarrow> m = n \<and> bit acc b) rs"

text \<open>What the policy says, in the words of its documentation.\<close>

definition reading :: "nat set" where "reading = {0, 2, 3}"

definition policy_path :: "Policy \<Rightarrow> string \<Rightarrow> nat \<Rightarrow> bool" where
  "policy_path pol q b \<longleftrightarrow> (\<exists>p \<in> set (rw_paths pol). inside (fs_key p) q) \<or> b \<in> reading \<and> (\<exists>p \<in> set (ro_paths pol). inside (fs_key p) q)"

definition policy_port :: "Policy \<Rightarrow> u64 \<Rightarrow> nat \<Rightarrow> bool" where
  "policy_port pol n b \<longleftrightarrow> n \<in> word_of_int ` set (if b = 0 then tcp_bind_ports pol else tcp_connect_ports pol)"

definition rules_for :: "int \<Rightarrow> Policy \<Rightarrow> ll_rule list" where
  "rules_for abi pol = map (\<lambda>p. PathRule p ACCESS_FS_RO) (ro_paths pol) @ map (\<lambda>p. PathRule p (fs_access_mask abi)) (rw_paths pol)
     @ map (\<lambda>n. PortRule (word_of_int n) ACCESS_NET_CONNECT_TCP) (tcp_connect_ports pol)
     @ map (\<lambda>n. PortRule (word_of_int n) ACCESS_NET_BIND_TCP) (tcp_bind_ports pol)"

subsection \<open>Masks\<close>

lemma one_bit: "bit (push_bit n 1 :: u64) b \<longleftrightarrow> b = n \<and> n < 64"
  by (simp only: bit_push_bit_iff bit_1_iff possible_bit_word) auto

lemma low_bits: "bit (push_bit 13 1 - 1 :: u64) b \<longleftrightarrow> b < 13"
proof -
  have "push_bit 13 1 - 1 = (mask 13 :: u64)" unfolding mask_eq_decr_exp push_bit_eq_mult by simp
  then show ?thesis by (simp only: bit_mask_iff possible_bit_word) auto
qed

lemma mask_bits: "bit (fs_access_mask abi) b \<longleftrightarrow> b < 13 \<or> b = 13 \<and> abi \<ge> 2 \<or> b = 14 \<and> abi \<ge> 3"
  unfolding fs_access_mask_def Let_def ACCESS_FS_REFER_def ACCESS_FS_TRUNCATE_def
  by (cases "abi \<ge> 2"; cases "abi \<ge> 3"; simp only: if_True if_False bit_or_iff one_bit low_bits) auto

lemma ro_bits: "bit ACCESS_FS_RO b \<longleftrightarrow> b \<in> reading"
  unfolding ACCESS_FS_RO_def ACCESS_FS_EXECUTE_def ACCESS_FS_READ_FILE_def ACCESS_FS_READ_DIR_def
  by (simp only: bit_or_iff one_bit) (auto simp: reading_def)

lemma net_bits: "bit ACCESS_NET_BIND_TCP b \<longleftrightarrow> b = 0" "bit ACCESS_NET_CONNECT_TCP b \<longleftrightarrow> b = 1"
  unfolding ACCESS_NET_BIND_TCP_def ACCESS_NET_CONNECT_TCP_def by (simp_all only: one_bit) auto

lemma mask_small: "unat (fs_access_mask abi) < 2 ^ 15"
proof -
  have "take_bit 15 (fs_access_mask abi) = fs_access_mask abi"
    by (rule bit_eqI) (auto simp: bit_take_bit_iff mask_bits)
  then show ?thesis by (metis unsigned_take_bit_eq take_bit_nat_less_exp)
qed

subsection \<open>Building a ruleset, step by step\<close>

lemmas law_defs = landlock_laws_def

lemma create_law:
  "landlock_laws rules_of node_of K \<Longrightarrow> ll_create K f n w = (fd, w') \<Longrightarrow>
     if fd < 0 then rules_of w' = rules_of w else rules_of w fd = None \<and> rules_of w' = (rules_of w)(fd := Some [])"
  unfolding landlock_laws_def by (elim conjE) (drule spec, drule spec, drule spec, drule spec, drule spec, drule (1) mp, assumption)

lemma open_law:
  "landlock_laws rules_of node_of K \<Longrightarrow> ll_open K p w = (r, w') \<Longrightarrow>
     rules_of w' = rules_of w \<and> (\<forall>fd. r = Inr fd \<longrightarrow> node_of w' fd = Some p \<and> rules_of w fd = None)"
  unfolding landlock_laws_def by blast

lemma add_path_law:
  "landlock_laws rules_of node_of K \<Longrightarrow> ll_add_path K fd acc node w = (rc, w') \<Longrightarrow>
     if rc \<noteq> 0 then rules_of w' = rules_of w
     else \<exists>rs p. rules_of w fd = Some rs \<and> node_of w node = Some p \<and> rules_of w' = (rules_of w)(fd := Some (rs @ [PathRule p acc]))"
  unfolding landlock_laws_def by blast

lemma add_port_law:
  "landlock_laws rules_of node_of K \<Longrightarrow> ll_add_port K fd acc port w = (rc, w') \<Longrightarrow>
     if rc \<noteq> 0 then rules_of w' = rules_of w
     else \<exists>rs. rules_of w fd = Some rs \<and> rules_of w' = (rules_of w)(fd := Some (rs @ [PortRule port acc]))"
  unfolding landlock_laws_def by blast

lemma close_law: "landlock_laws rules_of node_of K \<Longrightarrow> rules_of (ll_close K fd w) = (rules_of w)(fd := None)"
  unfolding landlock_laws_def by blast

text \<open>\<open>grows\<close>: an action that, on success, appends the given rules to one ruleset, and on failure leaves
  that ruleset an open one; it never touches another descriptor's ruleset.\<close>

definition grows :: "('w \<Rightarrow> int \<Rightarrow> ll_rule list option) \<Rightarrow> int \<Rightarrow> ll_rule list \<Rightarrow> ('w, unit) act \<Rightarrow> bool" where
  "grows rules_of fd new m \<longleftrightarrow> (\<forall>w rs r w'. rules_of w fd = Some rs \<longrightarrow> m w = (r, w') \<longrightarrow>
     (\<exists>rs'. rules_of w' fd = Some rs' \<and> (\<forall>x. x \<noteq> fd \<longrightarrow> rules_of w' x = rules_of w x) \<and> (r = Inr () \<longrightarrow> rs' = rs @ new)))"

lemma growsD:
  "grows rules_of fd new m \<Longrightarrow> rules_of w fd = Some rs \<Longrightarrow> m w = (r, w') \<Longrightarrow>
     \<exists>rs'. rules_of w' fd = Some rs' \<and> (\<forall>x. x \<noteq> fd \<longrightarrow> rules_of w' x = rules_of w x) \<and> (r = Inr () \<longrightarrow> rs' = rs @ new)"
  unfolding grows_def by blast

lemma grows_then:
  assumes "grows R fd a m" "grows R fd b k"
  shows "grows R fd (a @ b) (act_then m k)"
  unfolding grows_def
proof (intro allI impI)
  fix w rs r w' assume 1: "R w fd = Some rs" and 2: "act_then m k w = (r, w')"
  obtain r1 w1 where m: "m w = (r1, w1)" by fastforce
  obtain rs1 where rs1: "R w1 fd = Some rs1" "\<forall>x. x \<noteq> fd \<longrightarrow> R w1 x = R w x" "r1 = Inr () \<longrightarrow> rs1 = rs @ a"
    using growsD [OF assms(1) 1 m] by auto
  show "\<exists>rs'. R w' fd = Some rs' \<and> (\<forall>x. x \<noteq> fd \<longrightarrow> R w' x = R w x) \<and> (r = Inr () \<longrightarrow> rs' = rs @ a @ b)"
  proof (cases r1)
    case (Inl e) then show ?thesis using 2 m rs1 by (auto simp: act_then_apply)
  next
    case (Inr u)
    then have k: "k w1 = (r, w')" using 2 m by (simp add: act_then_apply)
    from growsD [OF assms(2) rs1(1) k] show ?thesis using rs1 Inr by auto
  qed
qed

lemma grows_each: "(\<And>x. grows R fd [g x] (f x)) \<Longrightarrow> grows R fd (map g xs) (each f xs)"
proof (induction xs)
  case Nil then show ?case by (auto simp: grows_def)
next
  case (Cons x xs)
  then show ?case using grows_then [of R fd "[g x]" "f x" "map g xs"] by simp
qed

lemma grows_path:
  assumes L: "landlock_laws R N K"
  shows "grows R fd [PathRule p acc] (add_path_rule K fd p acc)"
  unfolding grows_def
proof (intro allI impI)
  fix w rs r w' assume 1: "R w fd = Some rs" and 2: "add_path_rule K fd p acc w = (r, w')"
  obtain r1 w1 where o: "ll_open K p w = (r1, w1)" by fastforce
  note ol = open_law [OF L o]
  show "\<exists>rs'. R w' fd = Some rs' \<and> (\<forall>x. x \<noteq> fd \<longrightarrow> R w' x = R w x) \<and> (r = Inr () \<longrightarrow> rs' = rs @ [PathRule p acc])"
  proof (cases r1)
    case (Inl e)
    then show ?thesis using 1 2 o ol by (auto simp: add_path_rule_def act_bind_apply)
  next
    case (Inr nd)
    obtain rc w2 where a: "ll_add_path K fd acc nd w1 = (rc, w2)" by fastforce
    have nd: "nd \<noteq> fd" "R w nd = None" "N w1 nd = Some p" using ol Inr 1 by auto
    have w': "w' = ll_close K nd w2" "r = (if rc \<noteq> 0 then Inl LandlockError else Inr ())"
      using 2 o a Inr by (auto simp: add_path_rule_def act_bind_apply act_finally_apply ret_def split: if_splits)
    show ?thesis using add_path_law [OF L a] close_law [OF L, of nd w2] ol 1 nd w'
      by (auto split: if_splits intro!: ext)
  qed
qed

lemma grows_port:
  assumes L: "landlock_laws R N K"
  shows "grows R fd [PortRule (word_of_int n) acc] (add_net_rule K fd n acc)"
  unfolding grows_def
proof (intro allI impI)
  fix w rs r w' assume 1: "R w fd = Some rs" and 2: "add_net_rule K fd n acc w = (r, w')"
  obtain rc w1 where a: "ll_add_port K fd acc (word_of_int n) w = (rc, w1)" by fastforce
  have "w' = w1" "r = (if rc \<noteq> 0 then Inl LandlockError else Inr ())"
    using 2 a by (auto simp: add_net_rule_def act_bind_apply ret_def split: if_splits)
  then show "\<exists>rs'. R w' fd = Some rs' \<and> (\<forall>x. x \<noteq> fd \<longrightarrow> R w' x = R w x) \<and> (r = Inr () \<longrightarrow> rs' = rs @ [PortRule (word_of_int n) acc])"
    using add_port_law [OF L a] 1 by (auto split: if_splits)
qed

lemma grows_rules: "landlock_laws R N K \<Longrightarrow> grows R fd (rules_for abi pol) (add_rules K abi fd pol)"
  unfolding add_rules_def rules_for_def by (intro grows_then grows_each grows_path grows_port)

lemma build_ruleset_effect:
  assumes L: "landlock_laws R N K" and b: "build_ruleset K abi pol w = (r, w')"
  shows "case r of Inl _ \<Rightarrow> R w' = R w | Inr fd \<Rightarrow> R w fd = None \<and> R w' = (R w)(fd := Some (rules_for abi pol))"
proof -
  obtain fd w1 where c: "ll_create K (fs_access_mask abi) (ACCESS_NET_BIND_TCP OR ACCESS_NET_CONNECT_TCP) w = (fd, w1)" by fastforce
  note cl = create_law [OF L c]
  show ?thesis
  proof (cases "fd < 0")
    case True then show ?thesis using b c cl by (auto simp: build_ruleset_def act_bind_apply ret_def)
  next
    case False
    obtain r2 w2 where a: "add_rules K abi fd pol w1 = (r2, w2)" by fastforce
    have "R w1 fd = Some []" using cl False by simp
    from growsD [OF grows_rules [OF L] this a] obtain rs' where
      rs': "R w2 fd = Some rs'" "\<forall>x. x \<noteq> fd \<longrightarrow> R w2 x = R w1 x" "r2 = Inr () \<longrightarrow> rs' = rules_for abi pol" by auto
    show ?thesis
    proof (cases r2)
      case (Inl e)
      then have "r = Inl e" "w' = ll_close K fd w2"
        using b c a False by (auto simp: build_ruleset_def act_bind_apply act_then_apply act_catch_apply ret_def)
      then show ?thesis using cl False close_law [OF L, of fd w2] rs' by (auto simp: fun_eq_iff)
    next
      case (Inr u)
      then have "r = Inr fd" "w' = w2"
        using b c a False by (auto simp: build_ruleset_def act_bind_apply act_then_apply act_catch_apply ret_def)
      then show ?thesis using cl False rs' Inr by (auto simp: fun_eq_iff)
    qed
  qed
qed

subsection \<open>From rules to the policy\<close>

lemma policy_path_rules:
  assumes "4 \<le> abi"
  shows "permits_path (fs_access_mask abi) (rules_for abi pol) q b \<longleftrightarrow> b \<ge> 15 \<or> policy_path pol q b"
proof -
  have m: "bit (fs_access_mask abi) b \<longleftrightarrow> b < 15" using assms by (auto simp: mask_bits)
  have "b \<in> reading \<Longrightarrow> b < 15" by (auto simp: reading_def)
  then show ?thesis
    by (auto simp: permits_path_def m rules_for_def policy_path_def list_ex_iff ro_bits bex_Un)
qed

lemma policy_port_rules:
  "permits_port (ACCESS_NET_BIND_TCP OR ACCESS_NET_CONNECT_TCP) (rules_for abi pol) n b \<longleftrightarrow> b \<ge> 2 \<or> policy_port pol n b"
proof (cases "b \<ge> 2")
  case True then show ?thesis by (auto simp: permits_port_def bit_or_iff net_bits)
next
  case False
  then have "b = 0 \<or> b = 1" by auto
  then show ?thesis by (auto simp: permits_port_def bit_or_iff net_bits rules_for_def policy_port_def list_ex_iff bex_Un)
qed

lemma build_cases:
  assumes "build_restrict_self_fn K pol s = (r, s')"
  obtains (low) abi where "landlock_supported K s = (Inr abi, s')" "abi < MIN_ABI" "r = Inl LandlockUnsupportedError"
        | (built) abi s1 w where "landlock_supported K s = (Inr abi, s1)" "abi \<ge> MIN_ABI" "build_ruleset K abi pol (ll_world s) = (r, w)"
            "s' = s1\<lparr>ll_world := w\<rparr>"
proof -
  obtain abi s1 where v: "landlock_supported K s = (Inr abi, s1)" "ll_world s1 = ll_world s"
    by (cases "abi_cache s") (auto simp: landlock_supported_def Let_def)
  show thesis
  proof (cases "abi < MIN_ABI")
    case True then show ?thesis using assms v low by (auto simp: build_restrict_self_fn_def act_bind_apply)
  next
    case False
    obtain r1 w where "build_ruleset K abi pol (ll_world s) = (r1, w)" by fastforce
    then show ?thesis using assms v False built [of abi s1 w] by (auto simp: build_restrict_self_fn_def act_bind_apply in_kernel_def)
  qed
qed

subsection \<open>A kernel with one ruleset at a time\<close>

type_synonym one_world = "(int \<Rightarrow> ll_rule list option) \<times> (int \<Rightarrow> string option)"

definition one_kernel :: "(string \<Rightarrow> bool) \<Rightarrow> one_world landlock_kernel" where
  "one_kernel ex = \<lparr>ll_version = (\<lambda>_. 4),
     ll_create = (\<lambda>f n w. if fst w 3 = None then (3, ((fst w)(3 := Some []), snd w)) else (- 1, w)),
     ll_open = (\<lambda>p w. if ex p \<and> fst w 4 = None then (Inr 4, (fst w, (snd w)(4 := Some p))) else (Inl PyFileNotFoundError, w)),
     ll_add_path = (\<lambda>fd acc nd w. case (fst w fd, snd w nd) of
         (Some rs, Some p) \<Rightarrow> (0, ((fst w)(fd := Some (rs @ [PathRule p acc])), snd w)) | _ \<Rightarrow> (- 1, w)),
     ll_add_port = (\<lambda>fd acc n w. case fst w fd of
         Some rs \<Rightarrow> (0, ((fst w)(fd := Some (rs @ [PortRule n acc])), snd w)) | None \<Rightarrow> (- 1, w)),
     ll_close = (\<lambda>fd w. ((fst w)(fd := None), snd w)),
     ll_no_new_privs = (\<lambda>w. (0, w)), ll_restrict = (\<lambda>fd w. (0, w))\<rparr>"

lemma one_kernel_laws: "landlock_laws fst snd (one_kernel ex)"
  unfolding landlock_laws_def one_kernel_def by (auto split: if_splits option.splits)

definition one_policy :: Policy where
  "one_policy = \<lparr>ro_paths = [''/usr''], rw_paths = [''/tmp''], tcp_connect_ports = [443], tcp_bind_ports = []\<rparr>"

definition one_state :: "one_world landlock_state" where
  "one_state = \<lparr>abi_cache = None, ll_world = (\<lambda>_. None, \<lambda>_. None)\<rparr>"

lemmas one_defs = one_kernel_def one_policy_def one_state_def build_restrict_self_fn_def landlock_supported_def build_ruleset_def
  add_rules_def add_path_rule_def add_net_rule_def in_kernel_def ret_def act_simps MIN_ABI_def

lemma one_builds: "fst (build_restrict_self_fn (one_kernel (\<lambda>_. True)) one_policy one_state) = Inr 3"
  by (simp add: one_defs)

lemma one_misses: "fst (build_restrict_self_fn (one_kernel (\<lambda>p. p = ''/usr'')) one_policy one_state) = Inl PyFileNotFoundError"
  by (simp add: one_defs)

subsection \<open>Properties\<close>



text \<open>building fails closed: a kernel whose ABI is below four is refused without a syscall that opens
  anything, and whenever a path cannot be opened or a rule cannot be added, the error is raised in the parent
  and the half-built ruleset is closed: no ruleset of the process is created, changed or left open. Where the boot
  check refuses the setting, the builder refuses every policy with the same error.\<close>
theorem landlock_fails_closed:
  assumes "landlock_laws rules_of node_of K" "build_restrict_self_fn K pol s = (Inl e, s')"
  shows "rules_of (ll_world s') = rules_of (ll_world s) \<and>
    (fst (landlock_validate_boot_config K True s) = Inl LandlockUnsupportedError \<longrightarrow>
       e = LandlockUnsupportedError \<and> ll_world s' = ll_world s)"
  using assms(2)
proof (cases rule: build_cases)
  case (low v)
  moreover have "ll_world s' = ll_world s"
    using low(1) by (cases "abi_cache s") (auto simp: landlock_supported_def Let_def)
  ultimately show ?thesis by (auto simp: landlock_validate_boot_config_def act_bind_apply)
next
  case (built v s1 w)
  then show ?thesis
    using build_ruleset_effect [OF assms(1) built(3)] by (auto simp: landlock_validate_boot_config_def act_bind_apply)
qed

theorem landlock_fails_closed_witness:
  "\<exists>s'. build_restrict_self_fn (one_kernel (\<lambda>p. p = ''/usr'')) one_policy one_state = (Inl PyFileNotFoundError, s') \<and>
     fst (ll_world s') = (\<lambda>_. None)"
proof -
  obtain s' where s': "build_restrict_self_fn (one_kernel (\<lambda>p. p = ''/usr'')) one_policy one_state = (Inl PyFileNotFoundError, s')"
    using one_misses by (metis prod.collapse)
  then show ?thesis using landlock_fails_closed [OF one_kernel_laws s'] by (simp add: one_state_def)
qed

text \<open>the access masks stay within the kernel's structure: for every ABI the mask has the thirteen bits of
  the first version and at most two more, so it is below \<open>2 ^ 15\<close>, it contains the read-only mask, and it never
  shrinks as the ABI grows; from ABI three on it is the constant \<open>2 ^ 15 - 1\<close>.\<close>
theorem landlock_mask_bounds:
  "2 ^ 13 - 1 \<le> unat (fs_access_mask abi) \<and> unat (fs_access_mask abi) < 2 ^ 15 \<and>
   ACCESS_FS_RO AND fs_access_mask abi = ACCESS_FS_RO \<and>
   fs_access_mask abi AND fs_access_mask (abi + int k) = fs_access_mask abi \<and>
   fs_access_mask (3 + int k) = 2 ^ 15 - 1"
proof -
  have top: "fs_access_mask (3 + int k) = mask 15" for k
    by (rule bit_eqI) (auto simp: mask_bits bit_mask_iff)
  have "mask 13 AND fs_access_mask abi = mask 13" by (rule bit_eqI) (auto simp: bit_and_iff mask_bits bit_mask_iff)
  then have "(mask 13 :: u64) \<le> fs_access_mask abi" by (metis word_and_le1 word_and_le2)
  then have "unat (mask 13 :: u64) \<le> unat (fs_access_mask abi)" by (simp add: word_le_nat_alt)
  moreover have "unat (mask 13 :: u64) = 2 ^ 13 - 1" by (simp add: mask_eq_exp_minus_1)
  moreover have "ACCESS_FS_RO AND fs_access_mask abi = ACCESS_FS_RO"
    by (rule bit_eqI) (auto simp: bit_and_iff mask_bits ro_bits reading_def)
  moreover have "fs_access_mask abi AND fs_access_mask (abi + int k) = fs_access_mask abi"
    by (rule bit_eqI) (auto simp: bit_and_iff mask_bits)
  ultimately show ?thesis using mask_small [of abi] top [of k] by (simp add: mask_eq_exp_minus_1)
qed

end
