(* ===== verification/Run_Registry.thy ===== *)
theory Run_Registry
  imports Py_Json
begin

text \<open>
  The in-process registry of orchestration runs (\<open>anima/api/run_registry.py\<close>) and the two routes that use it
  (\<open>create_intent\<close> and \<open>stream_intent\<close> of \<open>anima/api/intent_routes.py\<close>). Runs are shared objects, so they live in a
  store and the dictionary of the registry holds references. Every block under a run's condition variable is one
  step; between the steps tasks interleave freely, so the system is a step relation over any number of runs,
  writers and subscribers. The clock counts in its own ticks.
\<close>

subsection \<open>Runs\<close>

text \<open>An event is a dictionary with the member \<open>type\<close>, which every publisher of the sources sets first.\<close>

record event =
  ev_type :: string
  ev_data :: "(string \<times> json) list"

definition event_json :: "event \<Rightarrow> json" where
  "event_json e = JObj ((''type'', JStr (ev_type e)) # ev_data e)"

record Run =
  run_id :: string
  run_user :: string
  run_events :: "(int \<times> event) list"
  run_done :: bool
  finished_at :: "int option"
  run_seq :: int

definition new_run :: "string \<Rightarrow> string \<Rightarrow> Run" where
  "new_run rid uid = \<lparr>run_id = rid, run_user = uid, run_events = [], run_done = False, finished_at = None, run_seq = 0\<rparr>"

definition format_sse :: "int \<Rightarrow> event \<Rightarrow> string" where
  "format_sse n e = ''id: '' @ show_int n @ [CHR 0x0A] @ ''event: '' @ ev_type e @ [CHR 0x0A]
     @ ''data: '' @ dumps '', '' '': '' (event_json e) @ [CHR 0x0A, CHR 0x0A]"

definition run_append :: "event \<Rightarrow> Run \<Rightarrow> int \<times> Run" where
  "run_append e r = (let n = run_seq r + 1 in (n, r\<lparr>run_seq := n, run_events := run_events r @ [(n, e)]\<rparr>))"

definition finish_event :: "string \<Rightarrow> event" where
  "finish_event status = \<lparr>ev_type = ''run_complete'', ev_data = [(''status'', JStr status)]\<rparr>"

text \<open>The second block of \<open>finish\<close>; the first one appends \<open>finish_event\<close>.\<close>

definition mark_done :: "int \<Rightarrow> Run \<Rightarrow> Run" where
  "mark_done now r = r\<lparr>run_done := True, finished_at := Some now\<rparr>"

definition pending :: "int \<Rightarrow> Run \<Rightarrow> (int \<times> event) list" where
  "pending after r = filter (\<lambda>(s, e). s > after) (run_events r)"

subsection \<open>A subscriber\<close>

text \<open>The generator \<open>subscribe\<close>: at the head of its loop, asleep on the condition, in the middle of the inner
  loop with the events still to be yielded, returned, or closed by a client that went away.\<close>

datatype sub_pc = Checking | Waiting | Sending "(int \<times> event) list" | Stopped | Closed

datatype frame = EventFrame int event | Keepalive

definition frame_text :: "frame \<Rightarrow> string" where
  "frame_text f = (case f of EventFrame n e \<Rightarrow> format_sse n e | Keepalive \<Rightarrow> '': keepalive'' @ [CHR 0x0A, CHR 0x0A])"

record subscriber =
  first_after :: int
  after_seq :: int
  yielded :: "frame list"
  sub_pc :: sub_pc

definition subscribe :: "int \<Rightarrow> subscriber" where
  "subscribe after = \<lparr>first_after = after, after_seq = after, yielded = [], sub_pc = Checking\<rparr>"

definition sub_check :: "Run \<Rightarrow> subscriber \<Rightarrow> subscriber" where
  "sub_check r s = s\<lparr>sub_pc :=
     (let p = pending (after_seq s) r in
      if p = [] then (if run_done r then Stopped else Waiting) else Sending p)\<rparr>"

definition sub_send :: "subscriber \<Rightarrow> subscriber" where
  "sub_send s = (case sub_pc s of
       Sending ((n, e) # rest) \<Rightarrow> s\<lparr>yielded := yielded s @ [EventFrame n e], after_seq := n,
         sub_pc := (if rest = [] then Checking else Sending rest)\<rparr>
     | _ \<Rightarrow> s)"

definition sub_timeout :: "subscriber \<Rightarrow> subscriber" where
  "sub_timeout s = (if sub_pc s = Waiting then s\<lparr>yielded := yielded s @ [Keepalive], sub_pc := Checking\<rparr> else s)"

text \<open>\<open>notify_all\<close>.\<close>

definition sub_wake :: "subscriber \<Rightarrow> subscriber" where
  "sub_wake s = (if sub_pc s = Waiting then s\<lparr>sub_pc := Checking\<rparr> else s)"

subsection \<open>The registry\<close>

datatype writer = Publishing | Completing | Finished

record registry =
  objects :: "nat \<Rightarrow> Run option"
  writers :: "nat \<Rightarrow> writer"
  next_object :: nat
  index :: "string \<Rightarrow> nat option"
  clock :: int
  subs :: "nat \<Rightarrow> (nat \<times> subscriber) option"

definition empty_registry :: registry where
  "empty_registry = \<lparr>objects = (\<lambda>_. None), writers = (\<lambda>_. Publishing), next_object = 0, index = (\<lambda>_. None), clock = 0,
     subs = (\<lambda>_. None)\<rparr>"

definition expired :: "int \<Rightarrow> int \<Rightarrow> Run \<Rightarrow> bool" where
  "expired ttl now r \<longleftrightarrow> run_done r \<and> (case finished_at r of None \<Rightarrow> False | Some t \<Rightarrow> now - t > ttl)"

definition evict_expired :: "int \<Rightarrow> registry \<Rightarrow> registry" where
  "evict_expired ttl g = g\<lparr>index := (\<lambda>rid. case index g rid of None \<Rightarrow> None
       | Some a \<Rightarrow> (case objects g a of Some r \<Rightarrow> if expired ttl (clock g) r then None else Some a | None \<Rightarrow> Some a))\<rparr>"

definition registry_create :: "int \<Rightarrow> string \<Rightarrow> string \<Rightarrow> registry \<Rightarrow> nat \<times> registry" where
  "registry_create ttl rid uid g =
     (let g1 = evict_expired ttl g; a = next_object g1 in
      (a, g1\<lparr>objects := (objects g1)(a := Some (new_run rid uid)), index := (index g1)(rid := Some a), next_object := Suc a\<rparr>))"

definition registry_get :: "int \<Rightarrow> string \<Rightarrow> registry \<Rightarrow> nat option \<times> registry" where
  "registry_get ttl rid g = (let g1 = evict_expired ttl g in (index g1 rid, g1))"

text \<open>What a step under the condition of run \<open>a\<close> does to the subscribers of that run.\<close>

definition notify_all :: "nat \<Rightarrow> registry \<Rightarrow> registry" where
  "notify_all a g = g\<lparr>subs := (\<lambda>i. case subs g i of None \<Rightarrow> None
       | Some (b, s) \<Rightarrow> Some (b, if b = a then sub_wake s else s))\<rparr>"

definition set_object :: "nat \<Rightarrow> Run \<Rightarrow> registry \<Rightarrow> registry" where
  "set_object a r g = g\<lparr>objects := (objects g)(a := Some r)\<rparr>"

definition set_sub :: "nat \<Rightarrow> nat \<Rightarrow> subscriber \<Rightarrow> registry \<Rightarrow> registry" where
  "set_sub i a s g = g\<lparr>subs := (subs g)(i := Some (a, s))\<rparr>"

text \<open>The steps of the system. A run has one writer, the task \<open>_run_orchestration\<close>: it appends events and
  then calls \<open>finish\<close> once.\<close>

inductive reg_step :: "int \<Rightarrow> registry \<Rightarrow> registry \<Rightarrow> bool" for ttl where
  tick: "0 \<le> d \<Longrightarrow> reg_step ttl g (g\<lparr>clock := clock g + d\<rparr>)"
| create: "reg_step ttl g (snd (registry_create ttl rid uid g))"
| lookup: "reg_step ttl g (snd (registry_get ttl rid g))"
| append: "objects g a = Some r \<Longrightarrow> writers g a = Publishing \<Longrightarrow>
     reg_step ttl g (notify_all a (set_object a (snd (run_append e r)) g))"
| finish: "objects g a = Some r \<Longrightarrow> writers g a = Publishing \<Longrightarrow>
     reg_step ttl g ((notify_all a (set_object a (snd (run_append (finish_event status) r)) g))\<lparr>writers := (writers g)(a := Completing)\<rparr>)"
| finished: "objects g a = Some r \<Longrightarrow> writers g a = Completing \<Longrightarrow>
     reg_step ttl g ((notify_all a (set_object a (mark_done (clock g) r) g))\<lparr>writers := (writers g)(a := Finished)\<rparr>)"
| open_sub: "objects g a = Some r \<Longrightarrow> subs g i = None \<Longrightarrow> reg_step ttl g (set_sub i a (subscribe after) g)"
| check: "subs g i = Some (a, s) \<Longrightarrow> sub_pc s = Checking \<Longrightarrow> objects g a = Some r \<Longrightarrow>
     reg_step ttl g (set_sub i a (sub_check r s) g)"
| send: "subs g i = Some (a, s) \<Longrightarrow> sub_pc s = Sending ps \<Longrightarrow> reg_step ttl g (set_sub i a (sub_send s) g)"
| timeout: "subs g i = Some (a, s) \<Longrightarrow> sub_pc s = Waiting \<Longrightarrow> reg_step ttl g (set_sub i a (sub_timeout s) g)"
| close: "subs g i = Some (a, s) \<Longrightarrow> sub_pc s \<noteq> Stopped \<Longrightarrow> reg_step ttl g (set_sub i a (s\<lparr>sub_pc := Closed\<rparr>) g)"

inductive reg_reachable :: "int \<Rightarrow> registry \<Rightarrow> bool" for ttl where
  start: "reg_reachable ttl empty_registry"
| step: "reg_reachable ttl g \<Longrightarrow> reg_step ttl g g' \<Longrightarrow> reg_reachable ttl g'"

inductive_cases reg_stepE: "reg_step ttl g g'"

subsection \<open>Stretches of the event buffer\<close>

definition stretch :: "int \<Rightarrow> int \<Rightarrow> (int \<times> event) list \<Rightarrow> (int \<times> event) list" where
  "stretch a b = filter (\<lambda>(n, e). a < n \<and> n \<le> b)"

definition ascending :: "(int \<times> event) list \<Rightarrow> bool" where
  "ascending = sorted_wrt (\<lambda>x y. fst x < fst y)"

lemma stretch_empty [simp]: "b \<le> a \<Longrightarrow> stretch a b xs = []"
  by (auto simp: stretch_def filter_empty_conv)

lemma stretch_snoc: "stretch a b (xs @ [(n, e)]) = stretch a b xs @ (if a < n \<and> n \<le> b then [(n, e)] else [])"
  by (simp add: stretch_def)

lemma stretch_join: "ascending xs \<Longrightarrow> a \<le> b \<Longrightarrow> b \<le> c \<Longrightarrow> stretch a b xs @ stretch b c xs = stretch a c xs"
proof (induction xs)
  case (Cons x xs)
  have rest: "n > b \<Longrightarrow> (n, e) = x \<Longrightarrow> stretch a b xs = []" for n e
    using Cons.prems(1) by (fastforce simp: ascending_def stretch_def filter_empty_conv)
  show ?case
  proof (cases "fst x > b")
    case True
    then have "stretch a b xs = []" using rest by (cases x) auto
    then show ?thesis using True Cons by (cases x) (auto simp: stretch_def ascending_def)
  next
    case False
    then show ?thesis using Cons by (cases x) (auto simp: stretch_def ascending_def)
  qed
qed (simp add: stretch_def)

lemma stretch_head:
  assumes "ascending xs" "stretch a b xs = (n, e) # rest"
  shows "a < n \<and> n \<le> b \<and> stretch a n xs = [(n, e)] \<and> rest = stretch n b xs"
proof -
  have mem: "(n, e) \<in> set (stretch a b xs)" using assms(2) by simp
  then have b: "a < n" "n \<le> b" by (auto simp: stretch_def)
  have asc: "ascending (stretch a b xs)" using assms(1) by (simp add: ascending_def stretch_def sorted_wrt_filter)
  have 1: "stretch a n xs = stretch a n (stretch a b xs)" using b by (auto simp: stretch_def intro!: filter_cong)
  have 2: "stretch n b xs = stretch n b (stretch a b xs)" using b by (auto simp: stretch_def intro!: filter_cong)
  have big: "n < fst x \<and> fst x \<le> b" if "x \<in> set rest" for x
  proof -
    have "x \<in> set (stretch a b xs)" using that assms(2) by simp
    then have "fst x \<le> b" by (auto simp: stretch_def)
    moreover have "n < fst x" using asc that unfolding assms(2) ascending_def by simp
    ultimately show ?thesis by simp
  qed
  have "stretch a n rest = []" using big by (fastforce simp: stretch_def filter_empty_conv)
  moreover have "stretch n b rest = rest" using big by (fastforce simp: stretch_def filter_id_conv)
  ultimately have "stretch a n ((n, e) # rest) = [(n, e)]" "stretch n b ((n, e) # rest) = rest"
    using b by (auto simp: stretch_def)
  then show ?thesis using b 1 2 assms(2) by simp
qed

subsection \<open>The invariant\<close>

definition sent :: "subscriber \<Rightarrow> (int \<times> event) list" where
  "sent s = concat (map (\<lambda>f. case f of EventFrame n e \<Rightarrow> [(n, e)] | Keepalive \<Rightarrow> []) (yielded s))"

text \<open>A run and its writer: the events are numbered \<open>1, 2, \<dots>, seq\<close>, the last one of a run that is completing
  is the final event, and only a finished run is marked done.\<close>

definition run_ok :: "Run \<Rightarrow> writer \<Rightarrow> int \<Rightarrow> bool" where
  "run_ok r w now \<longleftrightarrow> 0 \<le> run_seq r \<and> map fst (run_events r) = [1..run_seq r]
     \<and> (run_done r \<longleftrightarrow> w = Finished) \<and> (\<forall>t. finished_at r = Some t \<longrightarrow> t \<le> now) \<and> (run_done r \<longleftrightarrow> finished_at r \<noteq> None)
     \<and> (w \<noteq> Publishing \<longrightarrow> (\<exists>status. run_events r \<noteq> [] \<and> snd (last (run_events r)) = finish_event status))"

definition sub_ok :: "Run \<Rightarrow> subscriber \<Rightarrow> bool" where
  "sub_ok r s \<longleftrightarrow> (first_after s = after_seq s \<or> first_after s < after_seq s \<and> after_seq s \<le> run_seq r)
     \<and> sent s = stretch (first_after s) (after_seq s) (run_events r)
     \<and> (case sub_pc s of
          Sending ps \<Rightarrow> ps \<noteq> [] \<and> (\<exists>m \<le> run_seq r. ps = stretch (after_seq s) m (run_events r))
        | Waiting \<Rightarrow> pending (after_seq s) r = [] \<and> \<not> run_done r
        | Stopped \<Rightarrow> pending (after_seq s) r = [] \<and> run_done r
        | _ \<Rightarrow> True)"

definition reg_ok :: "registry \<Rightarrow> bool" where
  "reg_ok g \<longleftrightarrow> (\<forall>a r. objects g a = Some r \<longrightarrow> a < next_object g \<and> run_ok r (writers g a) (clock g))
     \<and> (\<forall>a. objects g a = None \<longrightarrow> writers g a = Publishing)
     \<and> (\<forall>rid a. index g rid = Some a \<longrightarrow> (\<exists>r. objects g a = Some r \<and> run_id r = rid))
     \<and> (\<forall>i a s. subs g i = Some (a, s) \<longrightarrow> (\<exists>r. objects g a = Some r \<and> sub_ok r s))"

lemma numbered_ascending: "map fst xs = [1..n] \<Longrightarrow> ascending xs"
proof -
  assume "map fst xs = [1..n]"
  then have "sorted_wrt (<) (map fst xs)" by (simp add: sorted_wrt_upto)
  then show ?thesis by (simp add: ascending_def sorted_wrt_map)
qed

lemma pending_stretch: "map fst (run_events r) = [1..run_seq r] \<Longrightarrow> pending a r = stretch a (run_seq r) (run_events r)"
proof -
  assume n: "map fst (run_events r) = [1..run_seq r]"
  have "fst x \<le> run_seq r" if "x \<in> set (run_events r)" for x
    using n that by (metis atLeastAtMost_iff image_eqI list.set_map set_upto)
  then show ?thesis by (fastforce simp: pending_def stretch_def intro!: filter_cong)
qed

lemma run_append_simps [simp]: "run_seq (snd (run_append e r)) = run_seq r + 1"
  "run_events (snd (run_append e r)) = run_events r @ [(run_seq r + 1, e)]"
  "run_done (snd (run_append e r)) = run_done r" "finished_at (snd (run_append e r)) = finished_at r"
  "run_id (snd (run_append e r)) = run_id r" "run_user (snd (run_append e r)) = run_user r"
  by (simp_all add: run_append_def Let_def)

lemma mark_done_simps [simp]: "run_seq (mark_done t r) = run_seq r" "run_events (mark_done t r) = run_events r"
  "run_done (mark_done t r)" "finished_at (mark_done t r) = Some t" "run_id (mark_done t r) = run_id r"
  "run_user (mark_done t r) = run_user r"
  by (simp_all add: mark_done_def)

lemma run_ok_append:
  assumes "run_ok r Publishing now"
  shows "run_ok (snd (run_append e r)) Publishing now"
    "run_ok (snd (run_append (finish_event status) r)) Completing now"
proof -
  have "map fst (run_events r) = [1..run_seq r]" "0 \<le> run_seq r" using assms by (simp_all add: run_ok_def)
  then have "map fst (run_events r @ [(run_seq r + 1, e)]) = [1..run_seq r + 1]" for e
    using upto_rec2 [of 1 "run_seq r + 1"] by simp
  then show "run_ok (snd (run_append e r)) Publishing now" "run_ok (snd (run_append (finish_event status) r)) Completing now"
    using assms by (auto simp: run_ok_def)
qed

lemma run_ok_mark: "run_ok r Completing now \<Longrightarrow> run_ok (mark_done now r) Finished now"
  by (auto simp: run_ok_def)

lemma sub_ok_append:
  assumes "run_ok r Publishing now" "sub_ok r s"
  shows "sub_ok (snd (run_append e r)) (sub_wake s)"
proof -
  have st: "stretch a m (run_events r @ [(run_seq r + 1, e)]) = stretch a m (run_events r)" if "m \<le> run_seq r \<or> m \<le> a" for a m
    using that by (auto simp: stretch_snoc)
  have nd: "\<not> run_done r" using assms(1) by (simp add: run_ok_def)
  show ?thesis
  proof (cases "sub_pc s")
    case (Sending ps)
    then obtain m where m: "m \<le> run_seq r" "ps = stretch (after_seq s) m (run_events r)" "ps \<noteq> []"
      using assms(2) by (auto simp: sub_ok_def)
    then have "m \<le> run_seq r + 1 \<and> ps = stretch (after_seq s) m (run_events r @ [(run_seq r + 1, e)])" by (simp add: st)
    then show ?thesis using assms(2) m(3) Sending by (auto simp: sub_ok_def sub_wake_def st sent_def)
  qed (use assms(2) nd in \<open>auto simp: sub_ok_def sub_wake_def st sent_def\<close>)
qed

lemma sub_ok_mark: "sub_ok r s \<Longrightarrow> sub_ok (mark_done now r) (sub_wake s)"
  by (cases "sub_pc s") (auto simp: sub_ok_def sub_wake_def sent_def pending_def)

lemma sub_ok_check:
  assumes "run_ok r w now" "sub_ok r s"
  shows "sub_ok r (sub_check r s)"
proof -
  have "pending (after_seq s) r = stretch (after_seq s) (run_seq r) (run_events r)"
    using assms(1) by (auto simp: run_ok_def intro: pending_stretch)
  then show ?thesis using assms(2) by (auto simp: sub_ok_def sub_check_def Let_def sent_def)
qed

lemma sub_ok_send:
  assumes "run_ok r w now" "sub_ok r s" "sub_pc s = Sending ps"
  shows "sub_ok r (sub_send s)"
proof -
  have asc: "ascending (run_events r)" using assms(1) by (auto simp: run_ok_def intro: numbered_ascending)
  obtain m where m: "m \<le> run_seq r" "ps = stretch (after_seq s) m (run_events r)" "ps \<noteq> []"
    using assms(2,3) by (auto simp: sub_ok_def)
  then obtain n e rest where ps: "ps = (n, e) # rest" by (metis neq_Nil_conv prod.exhaust)
  have h: "after_seq s < n" "n \<le> m" "stretch (after_seq s) n (run_events r) = [(n, e)]" "rest = stretch n m (run_events r)"
    using stretch_head [OF asc m(2) [symmetric, unfolded ps]] by simp_all
  have "first_after s \<le> after_seq s" using assms(2) by (auto simp: sub_ok_def)
  then have "stretch (first_after s) (after_seq s) (run_events r) @ [(n, e)] = stretch (first_after s) n (run_events r)"
    using stretch_join [OF asc, of "first_after s" "after_seq s" n] h by simp
  moreover have "sent (sub_send s) = sent s @ [(n, e)]" "after_seq (sub_send s) = n" "first_after (sub_send s) = first_after s"
    "sub_pc (sub_send s) = (if rest = [] then Checking else Sending rest)"
    using assms(3) ps by (simp_all add: sub_send_def sent_def)
  moreover have "sent s = stretch (first_after s) (after_seq s) (run_events r)" "first_after s \<le> after_seq s" using assms(2) by (auto simp: sub_ok_def)
  ultimately show ?thesis unfolding sub_ok_def using h m(1) by (intro conjI) (auto intro!: exI [of _ m])
qed

lemma sub_ok_timeout: "sub_ok r s \<Longrightarrow> sub_ok r (sub_timeout s)"
  by (auto simp: sub_ok_def sub_timeout_def sent_def)

lemma sub_ok_close: "sub_ok r s \<Longrightarrow> sub_ok r (s\<lparr>sub_pc := Closed\<rparr>)"
  by (auto simp: sub_ok_def sent_def)

lemma sub_ok_subscribe: "sub_ok r (subscribe after)"
  by (auto simp: sub_ok_def subscribe_def sent_def)

text \<open>How the shared parts of a step keep the invariant.\<close>

lemma reg_okI:
  assumes "\<And>a r. objects g a = Some r \<Longrightarrow> a < next_object g \<and> run_ok r (writers g a) (clock g)"
    "\<And>a. objects g a = None \<Longrightarrow> writers g a = Publishing"
    "\<And>rid a. index g rid = Some a \<Longrightarrow> \<exists>r. objects g a = Some r \<and> run_id r = rid"
    "\<And>i a s. subs g i = Some (a, s) \<Longrightarrow> \<exists>r. objects g a = Some r \<and> sub_ok r s"
  shows "reg_ok g"
  unfolding reg_ok_def using assms by simp

lemma reg_okD:
  assumes "reg_ok g"
  shows "objects g a = Some r \<Longrightarrow> a < next_object g \<and> run_ok r (writers g a) (clock g)"
    "objects g a = None \<Longrightarrow> writers g a = Publishing"
    "index g rid = Some a \<Longrightarrow> \<exists>r. objects g a = Some r \<and> run_id r = rid"
    "subs g i = Some (a, s) \<Longrightarrow> \<exists>r. objects g a = Some r \<and> sub_ok r s"
  using assms unfolding reg_ok_def by simp_all

lemma reg_ok_object:
  assumes "reg_ok g" "objects g a = Some r" "run_ok r' w (clock g)" "run_id r' = run_id r"
    "\<And>s. sub_ok r s \<Longrightarrow> sub_ok r' (sub_wake s)"
  shows "reg_ok ((notify_all a (set_object a r' g))\<lparr>writers := (writers g)(a := w)\<rparr>)" (is "reg_ok ?g")
proof (rule reg_okI)
  note ok = reg_okD [OF assms(1)]
  have g: "objects ?g = (objects g)(a := Some r')" "writers ?g = (writers g)(a := w)" "next_object ?g = next_object g"
    "clock ?g = clock g" "index ?g = index g"
    by (simp_all add: notify_all_def set_object_def)
  { fix b q assume "objects ?g b = Some q"
    then show "b < next_object ?g \<and> run_ok q (writers ?g b) (clock ?g)"
      using ok(1) [of b] ok(1) [OF assms(2)] assms(3) by (simp add: g split: if_splits) }
  { fix b assume "objects ?g b = None"
    then show "writers ?g b = Publishing" using ok(2) by (simp add: g split: if_splits) }
  { fix rid b assume "index ?g rid = Some b"
    then show "\<exists>r. objects ?g b = Some r \<and> run_id r = rid" using ok(3) [of rid b] assms(2,4) by (auto simp: g) }
  fix i b s assume "subs ?g i = Some (b, s)"
  then obtain s0 where s0: "subs g i = Some (b, s0)" "s = (if b = a then sub_wake s0 else s0)"
    by (auto simp: notify_all_def set_object_def split: option.splits prod.splits if_splits)
  obtain r0 where "objects g b = Some r0" "sub_ok r0 s0" using ok(4) [OF s0(1)] by (elim exE conjE)
  then show "\<exists>r. objects ?g b = Some r \<and> sub_ok r s"
    using s0(2) assms(2,5) by (cases "b = a") (simp_all add: g)
qed

lemma reg_ok_sub:
  assumes "reg_ok g" "objects g a = Some r" "sub_ok r s"
  shows "reg_ok (set_sub i a s g)"
  using assms by (auto simp: reg_ok_def set_sub_def)

lemma reg_ok_subD: "reg_ok g \<Longrightarrow> subs g i = Some (a, s) \<Longrightarrow> \<exists>r. objects g a = Some r \<and> sub_ok r s \<and> run_ok r (writers g a) (clock g)"
  using reg_okD(1) reg_okD(4) by blast

lemma evict_simps [simp]: "objects (evict_expired ttl g) = objects g" "writers (evict_expired ttl g) = writers g"
  "next_object (evict_expired ttl g) = next_object g" "clock (evict_expired ttl g) = clock g" "subs (evict_expired ttl g) = subs g"
  by (simp_all add: evict_expired_def)

lemma evict_index: "index (evict_expired ttl g) rid = Some a \<longleftrightarrow> index g rid = Some a \<and> (\<forall>r. objects g a = Some r \<longrightarrow> \<not> expired ttl (clock g) r)"
  by (auto simp: evict_expired_def split: option.splits if_splits)

lemma reg_ok_evict: "reg_ok g \<Longrightarrow> reg_ok (evict_expired ttl g)"
  unfolding reg_ok_def evict_simps evict_index by blast

lemma reg_ok_create:
  assumes "reg_ok g"
  shows "reg_ok (snd (registry_create ttl rid uid g))" (is "reg_ok ?g")
proof (rule reg_okI)
  let ?e = "evict_expired ttl g"
  note ok = reg_okD [OF reg_ok_evict [OF assms, of ttl]]
  let ?a = "next_object ?e"
  have g: "objects ?g = (objects ?e)(?a := Some (new_run rid uid))" "writers ?g = writers ?e" "next_object ?g = Suc ?a"
    "clock ?g = clock ?e" "index ?g = (index ?e)(rid := Some ?a)" "subs ?g = subs ?e"
    by (simp_all add: registry_create_def Let_def)
  have fresh: "objects ?e ?a = None" using ok(1) [of ?a] by (metis less_irrefl not_None_eq)
  have new: "run_ok (new_run rid uid) Publishing now" for now by (simp add: run_ok_def new_run_def)
  { fix b r assume "objects ?g b = Some r"
    then show "b < next_object ?g \<and> run_ok r (writers ?g b) (clock ?g)"
      using ok(1) [of b r] ok(2) [OF fresh] new unfolding g by (cases "b = ?a") auto }
  { fix b assume "objects ?g b = None"
    then show "writers ?g b = Publishing" using ok(2) unfolding g by (cases "b = ?a") auto }
  { fix q b assume "index ?g q = Some b"
    then show "\<exists>r. objects ?g b = Some r \<and> run_id r = q"
      using ok(3) [of q b] fresh unfolding g by (cases "q = rid") (auto simp: new_run_def) }
  fix i b s assume "subs ?g i = Some (b, s)"
  then show "\<exists>r. objects ?g b = Some r \<and> sub_ok r s" using ok(4) [of i b s] fresh unfolding g by auto
qed

lemma reg_ok_tick:
  assumes "reg_ok g" "0 \<le> d"
  shows "reg_ok (g\<lparr>clock := clock g + d\<rparr>)"
proof (rule reg_okI)
  note ok = reg_okD [OF assms(1)]
  fix a r assume "objects (g\<lparr>clock := clock g + d\<rparr>) a = Some r"
  then show "a < next_object (g\<lparr>clock := clock g + d\<rparr>) \<and>
      run_ok r (writers (g\<lparr>clock := clock g + d\<rparr>) a) (clock (g\<lparr>clock := clock g + d\<rparr>))"
    using ok(1) [of a r] assms(2) by (fastforce simp: run_ok_def)
qed (use reg_okD [OF assms(1)] in auto)

lemma reg_ok_step: "reg_step ttl g g' \<Longrightarrow> reg_ok g \<Longrightarrow> reg_ok g'"
proof (induction rule: reg_step.induct)
  case (append g a r e)
  have "run_ok r Publishing (clock g)" using reg_okD(1) [OF append(3,1)] append(2) by simp
  moreover have "writers g = (writers g)(a := Publishing)" using append(2) by (simp add: fun_upd_idem)
  ultimately show ?case
    using reg_ok_object [OF append(3,1) run_ok_append(1)] sub_ok_append
    by (simp add: notify_all_def set_object_def)
next
  case (finish g a r status)
  have "run_ok r Publishing (clock g)" using reg_okD(1) [OF finish(3,1)] finish(2) by simp
  then show ?case using reg_ok_object [OF finish(3,1) run_ok_append(2)] sub_ok_append by simp
next
  case (finished g a r)
  have "run_ok r Completing (clock g)" using reg_okD(1) [OF finished(3,1)] finished(2) by simp
  then show ?case using reg_ok_object [OF finished(3,1) run_ok_mark] sub_ok_mark by simp
next
  case (open_sub g a r i after) then show ?case using reg_ok_sub sub_ok_subscribe by blast
next
  case (check g i a s r)
  then show ?case using reg_okD(4) [OF check(4,1)] reg_okD(1) [OF check(4,3)] sub_ok_check reg_ok_sub [OF check(4,3)] by auto
next
  case (send g i a s ps) then show ?case using reg_ok_subD [OF send(3,1)] sub_ok_send reg_ok_sub [OF send(3)] by blast
next
  case (timeout g i a s) then show ?case using reg_ok_subD [OF timeout(3,1)] sub_ok_timeout reg_ok_sub [OF timeout(3)] by blast
next
  case (close g i a s) then show ?case using reg_ok_subD [OF close(3,1)] sub_ok_close reg_ok_sub [OF close(3)] by blast
next
  case (lookup g rid) then show ?case using reg_ok_evict by (simp add: registry_get_def Let_def)
qed (simp_all add: reg_ok_tick reg_ok_create)

lemma reg_ok_reachable: "reg_reachable ttl g \<Longrightarrow> reg_ok g"
proof (induction rule: reg_reachable.induct)
  case start show ?case by (simp add: reg_ok_def empty_registry_def)
next
  case (step g g') then show ?case using reg_ok_step by blast
qed

subsection \<open>Finishing a stream\<close>

text \<open>What the generator does next on its own once nothing is published any more.\<close>

definition sub_own :: "Run \<Rightarrow> subscriber \<Rightarrow> subscriber" where
  "sub_own r s = (case sub_pc s of Checking \<Rightarrow> sub_check r s | Sending _ \<Rightarrow> sub_send s | Waiting \<Rightarrow> sub_timeout s | _ \<Rightarrow> s)"

definition remaining :: "Run \<Rightarrow> subscriber \<Rightarrow> nat" where
  "remaining r s = (case sub_pc s of Stopped \<Rightarrow> 0 | Closed \<Rightarrow> 0
     | Sending ps \<Rightarrow> 2 * length (pending (after_seq s) r) + 1 | _ \<Rightarrow> 2 * length (pending (after_seq s) r) + 2)"

lemma sub_own_ok:
  assumes "run_ok r w now" "sub_ok r s"
  shows "sub_ok r (sub_own r s)"
  using sub_ok_check [OF assms] sub_ok_send [OF assms] sub_ok_timeout [OF assms(2)] assms(2)
  by (auto simp: sub_own_def split: sub_pc.split)

lemma sub_own_less:
  assumes "run_ok r w now" "sub_ok r s" "run_done r" "sub_pc s \<noteq> Stopped" "sub_pc s \<noteq> Closed"
  shows "remaining r (sub_own r s) < remaining r s"
proof (cases "sub_pc s")
  case Checking
  then show ?thesis using assms(3) by (auto simp: sub_own_def sub_check_def remaining_def Let_def)
next
  case Waiting then show ?thesis using assms(2,3) by (simp add: sub_ok_def)
next
  case (Sending ps)
  have asc: "ascending (run_events r)" and num: "map fst (run_events r) = [1..run_seq r]"
    using assms(1) by (auto simp: run_ok_def intro: numbered_ascending)
  obtain m where m: "m \<le> run_seq r" "ps = stretch (after_seq s) m (run_events r)" "ps \<noteq> []"
    using assms(2) Sending by (auto simp: sub_ok_def)
  then obtain n e rest where ps: "ps = (n, e) # rest" by (metis neq_Nil_conv prod.exhaust)
  have h: "after_seq s < n" "n \<le> m" "stretch (after_seq s) n (run_events r) = [(n, e)]"
    using stretch_head [OF asc m(2) [symmetric, unfolded ps]] by simp_all
  have "pending (after_seq s) r = (n, e) # pending n r"
    using stretch_join [OF asc, of "after_seq s" n "run_seq r"] h m(1) by (simp add: pending_stretch [OF num])
  then show ?thesis using Sending ps by (auto simp: sub_own_def sub_send_def remaining_def)
qed (use assms in simp_all)

lemma sub_own_fixed: "sub_pc s = Stopped \<or> sub_pc s = Closed \<Longrightarrow> sub_own r s = s"
  by (auto simp: sub_own_def)

lemma sub_own_closed: "sub_pc (sub_own r s) = Closed \<longleftrightarrow> sub_pc s = Closed"
  by (auto simp: sub_own_def sub_check_def sub_send_def sub_timeout_def Let_def split: sub_pc.split list.split)

lemma sub_own_stops:
  assumes "run_ok r w now" "run_done r" "sub_ok r s" "sub_pc s \<noteq> Closed" "remaining r s \<le> k"
  shows "sub_pc ((sub_own r ^^ k) s) = Stopped"
  using assms(3-5)
proof (induction k arbitrary: s)
  case 0
  then show ?case by (cases "sub_pc s") (auto simp: remaining_def)
next
  case (Suc k)
  show ?case
  proof (cases "sub_pc s = Stopped")
    case True
    then have "(sub_own r ^^ n) s = s" for n by (induction n) (simp_all add: sub_own_fixed)
    then show ?thesis using True by metis
  next
    case False
    have "remaining r (sub_own r s) \<le> k" using sub_own_less [OF assms(1) Suc.prems(1) assms(2) False Suc.prems(2)] Suc.prems(3) by simp
    then have "sub_pc ((sub_own r ^^ k) (sub_own r s)) = Stopped"
      using Suc.IH sub_own_ok [OF assms(1) Suc.prems(1)] Suc.prems(2) sub_own_closed by blast
    then show ?thesis by (simp add: funpow_Suc_right del: funpow.simps)
  qed
qed

lemma remaining_bound: "remaining r s \<le> 2 * length (run_events r) + 2"
proof -
  have "length (pending (after_seq s) r) \<le> length (run_events r)" by (simp add: pending_def)
  then show ?thesis by (auto simp: remaining_def split: sub_pc.split)
qed

subsection \<open>Runs and the dictionary\<close>

text \<open>An entry is only lost to a newer run of the same id or after its time to live.\<close>

definition kept_or_expired :: "int \<Rightarrow> registry \<Rightarrow> bool" where
  "kept_or_expired ttl g \<longleftrightarrow> (\<forall>a r. objects g a = Some r \<longrightarrow> index g (run_id r) = Some a \<or> expired ttl (clock g) r
     \<or> (\<exists>b r'. a < b \<and> objects g b = Some r' \<and> run_id r' = run_id r))"

lemma kept_or_expired_object:
  assumes "kept_or_expired ttl g" "objects g a = Some r" "run_id r' = run_id r" "expired ttl (clock g) r \<Longrightarrow> expired ttl (clock g) r'"
  shows "kept_or_expired ttl ((notify_all a (set_object a r' g))\<lparr>writers := w\<rparr>)"
  unfolding kept_or_expired_def
proof (intro allI impI)
  fix b q assume q: "objects ((notify_all a (set_object a r' g))\<lparr>writers := w\<rparr>) b = Some q"
  obtain q0 where q0: "objects g b = Some q0" "run_id q = run_id q0" "expired ttl (clock g) q0 \<Longrightarrow> expired ttl (clock g) q"
    using q assms(2-4) by (cases "b = a") (auto simp: notify_all_def set_object_def)
  have up: "\<exists>x. objects (set_object a r' g) c = Some x \<and> run_id x = run_id y" if "objects g c = Some y" for c y
    using that assms(2,3) by (cases "c = a") (auto simp: set_object_def)
  from assms(1) q0(1) have "index g (run_id q0) = Some b \<or> expired ttl (clock g) q0 \<or> (\<exists>c y. b < c \<and> objects g c = Some y \<and> run_id y = run_id q0)"
    by (auto simp: kept_or_expired_def)
  then show "index ((notify_all a (set_object a r' g))\<lparr>writers := w\<rparr>) (run_id q) = Some b
      \<or> expired ttl (clock ((notify_all a (set_object a r' g))\<lparr>writers := w\<rparr>)) q
      \<or> (\<exists>c y. b < c \<and> objects ((notify_all a (set_object a r' g))\<lparr>writers := w\<rparr>) c = Some y \<and> run_id y = run_id q)"
  proof (elim disjE exE conjE)
    fix c y assume "b < c" "objects g c = Some y" "run_id y = run_id q0"
    then show ?thesis using up [of c y] q0(2) by (auto simp: notify_all_def set_object_def)
  qed (use q0 in \<open>auto simp: notify_all_def set_object_def\<close>)
qed

lemma kept_or_expired_evict: "kept_or_expired ttl g \<Longrightarrow> kept_or_expired ttl (evict_expired ttl g)"
  unfolding kept_or_expired_def evict_simps evict_index by (metis option.inject)

lemma kept_or_expired_create:
  assumes "reg_ok g" "kept_or_expired ttl g"
  shows "kept_or_expired ttl (snd (registry_create ttl rid uid g))"
  unfolding kept_or_expired_def
proof (intro allI impI)
  let ?e = "evict_expired ttl g" and ?g = "snd (registry_create ttl rid uid g)"
  have g: "objects ?g = (objects ?e)(next_object ?e := Some (new_run rid uid))" "clock ?g = clock ?e"
    "index ?g = (index ?e)(rid := Some (next_object ?e))"
    by (simp_all add: registry_create_def Let_def)
  fix a r assume a: "objects ?g a = Some r"
  show "index ?g (run_id r) = Some a \<or> expired ttl (clock ?g) r \<or> (\<exists>b r'. a < b \<and> objects ?g b = Some r' \<and> run_id r' = run_id r)"
  proof (cases "a = next_object ?e")
    case True then show ?thesis using a by (auto simp: g new_run_def)
  next
    case False
    then have old: "objects ?e a = Some r" using a by (simp add: g)
    then have "a < next_object ?e" using reg_okD(1) [OF reg_ok_evict [OF assms(1)]] by blast
    then have new: "run_id r = rid \<Longrightarrow> ?thesis" by (auto simp: g new_run_def)
    have "index ?e (run_id r) = Some a \<or> expired ttl (clock ?e) r \<or> (\<exists>b r'. a < b \<and> objects ?e b = Some r' \<and> run_id r' = run_id r)"
      using kept_or_expired_evict [OF assms(2)] old unfolding kept_or_expired_def by blast
    then show ?thesis
    proof (elim disjE exE conjE)
      fix b q assume q: "a < b" "objects ?e b = Some q" "run_id q = run_id r"
      then have "b \<noteq> next_object ?e" using reg_okD(1) [OF reg_ok_evict [OF assms(1)] q(2)] by auto
      then show ?thesis using q by (auto simp: g)
    qed (use new in \<open>auto simp: g\<close>)
  qed
qed

lemma kept_or_expired_sub: "kept_or_expired ttl (set_sub i a s g) = kept_or_expired ttl g"
  by (simp add: kept_or_expired_def set_sub_def)

lemma expired_later: "expired ttl t r \<Longrightarrow> 0 \<le> d \<Longrightarrow> expired ttl (t + d) r"
  by (auto simp: expired_def split: option.splits)

lemma kept_or_expired_step: "reg_step ttl g g' \<Longrightarrow> reg_ok g \<Longrightarrow> kept_or_expired ttl g \<Longrightarrow> kept_or_expired ttl g'"
proof (induction rule: reg_step.induct)
  case (tick d g)
  then show ?case unfolding kept_or_expired_def using expired_later by simp metis
next
  case (append g a r e)
  have "expired ttl (clock g) r \<Longrightarrow> expired ttl (clock g) (snd (run_append e r))" by (simp add: expired_def)
  from kept_or_expired_object [OF append(4,1) _ this, of "writers g"] show ?case by (simp add: notify_all_def set_object_def)
next
  case (finish g a r status)
  have "expired ttl (clock g) r \<Longrightarrow> expired ttl (clock g) (snd (run_append (finish_event status) r))" by (simp add: expired_def)
  from kept_or_expired_object [OF finish(4,1) _ this] show ?case by simp
next
  case (finished g a r)
  have "\<not> run_done r" using reg_okD(1) [OF finished(3,1)] finished(2) by (simp add: run_ok_def)
  then have "expired ttl (clock g) r \<Longrightarrow> expired ttl (clock g) (mark_done (clock g) r)" by (simp add: expired_def)
  from kept_or_expired_object [OF finished(4,1) _ this] show ?case by simp
qed (simp_all add: kept_or_expired_create registry_get_def Let_def kept_or_expired_evict kept_or_expired_sub)

lemma kept_or_expired_reachable: "reg_reachable ttl g \<Longrightarrow> kept_or_expired ttl g"
proof (induction rule: reg_reachable.induct)
  case start show ?case by (simp add: kept_or_expired_def empty_registry_def)
next
  case (step g g') then show ?case using kept_or_expired_step reg_ok_reachable by blast
qed

subsection \<open>Reconnecting\<close>

text \<open>\<open>int(text)\<close>: white space around the number, a sign, and single underscores between digits.\<close>

definition py_int_text :: "string \<Rightarrow> int option" where
  "py_int_text t = (let s = py_strip t;
       neg = (s \<noteq> [] \<and> hd s = CHR ''-'');
       u = (if s \<noteq> [] \<and> (hd s = CHR ''-'' \<or> hd s = CHR ''+'') then tl s else s);
       parts = split_on (CHR ''_'') u
     in if list_all (\<lambda>p. p \<noteq> [] \<and> list_all is_digit p) parts
        then Some (if neg then - int (digits_value (concat parts)) else int (digits_value (concat parts))) else None)"

text \<open>\<open>GET /intent/{run_id}/stream\<close>: \<open>None\<close> is the 404 response.\<close>

definition stream_intent :: "int \<Rightarrow> string option \<Rightarrow> string option \<Rightarrow> string \<Rightarrow> string \<Rightarrow> registry \<Rightarrow> (nat \<times> int) option \<times> registry" where
  "stream_intent ttl last_event_id query_after rid uid g =
     (let chosen = (case last_event_id of Some v \<Rightarrow> if v \<noteq> [] then Some v else query_after | None \<Rightarrow> query_after);
          after = (case chosen of None \<Rightarrow> 0 | Some v \<Rightarrow> (case py_int_text v of Some n \<Rightarrow> n | None \<Rightarrow> 0));
          (found, g') = registry_get ttl rid g
      in (case found of None \<Rightarrow> (None, g')
          | Some a \<Rightarrow> (case objects g' a of None \<Rightarrow> (None, g')
              | Some r \<Rightarrow> if run_user r \<noteq> uid then (None, g') else (Some (a, after), g'))))"

lemma strip_no_space: "list_all (\<lambda>c. \<not> is_space c) s \<Longrightarrow> py_strip s = s"
proof -
  have d: "list_all (\<lambda>c. \<not> is_space c) t \<Longrightarrow> dropWhile is_space t = t" for t by (cases t) auto
  assume "list_all (\<lambda>c. \<not> is_space c) s"
  then show ?thesis using d [of s] d [of "rev s"] by (simp add: py_strip_def py_lstrip_def py_rstrip_def)
qed

lemma digit_chars: "is_digit c \<Longrightarrow> \<not> is_space c \<and> c \<noteq> CHR ''_'' \<and> c \<noteq> CHR ''-'' \<and> c \<noteq> CHR ''+''"
  by (auto simp: is_digit_def is_space_def Let_def)

lemma py_int_show: "py_int_text (show_int n) = Some n"
proof -
  note d = show_nat_digits
  have nat: "list_all (\<lambda>c. \<not> is_space c) (show_nat k)" "split_on (CHR ''_'') (show_nat k) = [show_nat k]"
    "list_all is_digit (show_nat k)" "show_nat k \<noteq> []" "hd (show_nat k) \<noteq> CHR ''-''" "hd (show_nat k) \<noteq> CHR ''+''" for k
    using d [of k] digit_chars by (fastforce simp: list_all_iff intro!: split_on_word dest: list.set_sel(1))+
  have "\<not> is_space (CHR ''-'')" by (simp add: is_space_def)
  then have "list_all (\<lambda>c. \<not> is_space c) (show_int n)" using nat(1) by (simp add: show_int_def)
  then have s: "py_strip (show_int n) = show_int n" by (rule strip_no_space)
  show ?thesis unfolding py_int_text_def s Let_def using nat d by (auto simp: show_int_def)
qed

subsection \<open>A run of the system\<close>

text \<open>One client reads the first event of a run and goes away; a second one reconnects after it and reads on
  until the run is over.\<close>

definition ping :: event where "ping = \<lparr>ev_type = ''chunk'', ev_data = [(''text'', JStr ''hi'')]\<rparr>"

definition demo_run :: Run where
  "demo_run = mark_done 0 (snd (run_append (finish_event ''completed'') (snd (run_append ping (new_run ''r'' ''u'')))))"

definition demo_first :: subscriber where
  "demo_first = (sub_send (sub_check (snd (run_append ping (new_run ''r'' ''u''))) (subscribe 0)))\<lparr>sub_pc := Closed\<rparr>"

definition demo_second :: subscriber where
  "demo_second = sub_check demo_run (sub_send (sub_check demo_run (subscribe 1)))"

lemmas demo_defs = ping_def demo_run_def demo_first_def demo_second_def mark_done_def run_append_def new_run_def subscribe_def
  finish_event_def sub_check_def sub_send_def pending_def Let_def

lemma demo_facts: "first_after demo_first = 0" "after_seq demo_first = 1" "first_after demo_second = 1" "sub_pc demo_second = Stopped"
  "length (run_events demo_run) = 2" "run_done demo_run" "run_id demo_run = ''r''" "run_user demo_run = ''u''"
  by (simp_all add: demo_defs)

lemma demo_reachable:
  "\<exists>g. reg_reachable 300 g \<and> objects g 0 = Some demo_run \<and> subs g 0 = Some (0, demo_first) \<and> subs g 1 = Some (0, demo_second)
     \<and> subs g 2 = Some (0, sub_check demo_run (subscribe 1)) \<and> clock g = 0 \<and> next_object g = 1"
proof -
  let ?r0 = "new_run ''r'' ''u''" and ?r1 = "snd (run_append ping (new_run ''r'' ''u''))"
  let ?r2 = "snd (run_append (finish_event ''completed'') ?r1)"
  note step = reg_reachable.step [where ttl = 300]
  note ok = registry_create_def Let_def evict_expired_def empty_registry_def notify_all_def set_object_def set_sub_def
  obtain g0 where 0: "reg_reachable 300 g0" "objects g0 = [0 \<mapsto> ?r0]" "writers g0 = (\<lambda>_. Publishing)" "subs g0 = (\<lambda>_. None)"
    "clock g0 = 0" "next_object g0 = 1"
    using step [OF reg_reachable.start reg_step.create [of _ _ "''r''" "''u''"]] by (simp add: ok)
  obtain g1 where 1: "reg_reachable 300 g1" "objects g1 = [0 \<mapsto> ?r1]" "writers g1 = (\<lambda>_. Publishing)" "subs g1 = (\<lambda>_. None)"
    "clock g1 = 0" "next_object g1 = 1"
    using step [OF 0(1) reg_step.append [of g0 0 ?r0 _ ping]] 0 by (simp add: ok)
  obtain g2 where 2: "reg_reachable 300 g2" "objects g2 = [0 \<mapsto> ?r1]" "writers g2 = (\<lambda>_. Publishing)" "subs g2 = [0 \<mapsto> (0, subscribe 0)]"
    "clock g2 = 0" "next_object g2 = 1"
    using step [OF 1(1) reg_step.open_sub [of g1 0 ?r1 0 _ 0]] 1 by (simp add: ok)
  obtain g3 where 3: "reg_reachable 300 g3" "objects g3 = [0 \<mapsto> ?r1]" "writers g3 = (\<lambda>_. Publishing)"
    "subs g3 = [0 \<mapsto> (0, sub_check ?r1 (subscribe 0))]" "clock g3 = 0" "next_object g3 = 1"
    using step [OF 2(1) reg_step.check [of g2 0 0 "subscribe 0" ?r1]] 2 by (simp add: ok subscribe_def)
  have "\<exists>ps. sub_pc (sub_check ?r1 (subscribe 0)) = Sending ps" by (simp add: demo_defs)
  then obtain ps where ps: "sub_pc (sub_check ?r1 (subscribe 0)) = Sending ps" ..
  obtain g4 where 4: "reg_reachable 300 g4" "objects g4 = [0 \<mapsto> ?r1]" "writers g4 = (\<lambda>_. Publishing)"
    "subs g4 = [0 \<mapsto> (0, sub_send (sub_check ?r1 (subscribe 0)))]" "clock g4 = 0" "next_object g4 = 1"
    using step [OF 3(1) reg_step.send [OF _ ps, of g3 0 0]] 3 by (simp add: ok)
  have ns: "sub_pc (sub_send (sub_check ?r1 (subscribe 0))) \<noteq> Stopped" by (simp add: demo_defs)
  obtain g5 where 5: "reg_reachable 300 g5" "objects g5 = [0 \<mapsto> ?r1]" "writers g5 = (\<lambda>_. Publishing)"
    "subs g5 = [0 \<mapsto> (0, demo_first)]" "clock g5 = 0" "next_object g5 = 1"
    using step [OF 4(1) reg_step.close [OF _ ns, of g4 0 0]] 4 by (simp add: ok demo_first_def)
  have w: "sub_wake demo_first = demo_first" by (simp add: sub_wake_def demo_first_def)
  obtain g6 where 6: "reg_reachable 300 g6" "objects g6 = [0 \<mapsto> ?r2]" "writers g6 0 = Completing"
    "subs g6 = [0 \<mapsto> (0, demo_first)]" "clock g6 = 0" "next_object g6 = 1"
    using step [OF 5(1) reg_step.finish [of g5 0 ?r1 _ "''completed''"]] 5 by (simp add: ok w fun_eq_iff)
  obtain g7 where 7: "reg_reachable 300 g7" "objects g7 = [0 \<mapsto> demo_run]" "subs g7 = [0 \<mapsto> (0, demo_first)]"
    "clock g7 = 0" "next_object g7 = 1"
    using step [OF 6(1) reg_step.finished [of g6 0 ?r2]] 6 by (simp add: ok w fun_eq_iff demo_run_def)
  obtain g8 where 8: "reg_reachable 300 g8" "objects g8 = [0 \<mapsto> demo_run]" "subs g8 = [0 \<mapsto> (0, demo_first), 1 \<mapsto> (0, subscribe 1)]"
    "clock g8 = 0" "next_object g8 = 1"
    using step [OF 7(1) reg_step.open_sub [of g7 0 demo_run 1 _ 1]] 7 by (simp add: ok)
  obtain g9 where 9: "reg_reachable 300 g9" "objects g9 = [0 \<mapsto> demo_run]"
    "subs g9 = [0 \<mapsto> (0, demo_first), 1 \<mapsto> (0, sub_check demo_run (subscribe 1))]" "clock g9 = 0" "next_object g9 = 1"
    using step [OF 8(1) reg_step.check [of g8 1 0 "subscribe 1" demo_run]] 8 by (simp add: ok subscribe_def)
  have "\<exists>ps. sub_pc (sub_check demo_run (subscribe 1)) = Sending ps" by (simp add: demo_defs)
  then obtain qs where qs: "sub_pc (sub_check demo_run (subscribe 1)) = Sending qs" ..
  obtain g10 where 10: "reg_reachable 300 g10" "objects g10 = [0 \<mapsto> demo_run]"
    "subs g10 = [0 \<mapsto> (0, demo_first), 1 \<mapsto> (0, sub_send (sub_check demo_run (subscribe 1)))]" "clock g10 = 0" "next_object g10 = 1"
    using step [OF 9(1) reg_step.send [OF _ qs, of g9 1 0]] 9 by (simp add: ok)
  have c: "sub_pc (sub_send (sub_check demo_run (subscribe 1))) = Checking" by (simp add: demo_defs)
  obtain g11 where 11: "reg_reachable 300 g11" "objects g11 = [0 \<mapsto> demo_run]"
    "subs g11 = [0 \<mapsto> (0, demo_first), 1 \<mapsto> (0, demo_second)]" "clock g11 = 0" "next_object g11 = 1"
    using step [OF 10(1) reg_step.check [OF _ c, of g10 1 0 demo_run]] 10 by (simp add: ok demo_second_def)
  obtain g12 where 12: "reg_reachable 300 g12" "objects g12 = [0 \<mapsto> demo_run]"
    "subs g12 = [0 \<mapsto> (0, demo_first), 1 \<mapsto> (0, demo_second), 2 \<mapsto> (0, subscribe 1)]" "clock g12 = 0" "next_object g12 = 1"
    using step [OF 11(1) reg_step.open_sub [of g11 0 demo_run 2 _ 1]] 11 by (simp add: ok)
  have "\<exists>g. reg_reachable 300 g \<and> objects g = [0 \<mapsto> demo_run] \<and> clock g = 0 \<and> next_object g = 1 \<and>
    subs g = [0 \<mapsto> (0, demo_first), 1 \<mapsto> (0, demo_second), 2 \<mapsto> (0, sub_check demo_run (subscribe 1))]"
    using step [OF 12(1) reg_step.check [of g12 2 0 "subscribe 1" demo_run]] 12
    by (intro exI [of _ "set_sub 2 0 (sub_check demo_run (subscribe 1)) g12"]) (simp add: ok subscribe_def)
  then show ?thesis by (elim exE) (auto intro!: exI)
qed

subsection \<open>Properties\<close>

text \<open>C5: in every interleaving of publishers, subscribers, time-outs and disconnections: the events of a run are
  numbered from one without a gap, a subscriber has been sent exactly the events after its starting point up to
  its own position, in order and each once, and nobody sleeps on the condition while there is an event to send or
  the run is over.\<close>
theorem run_stream_exact:
  assumes "reg_reachable ttl g" "subs g i = Some (a, s)"
  shows "\<exists>r. objects g a = Some r \<and> map fst (run_events r) = [1..int (length (run_events r))] \<and>
     sent s = filter (\<lambda>(n, e). first_after s < n \<and> n \<le> after_seq s) (run_events r) \<and>
     (sub_pc s = Waiting \<longrightarrow> pending (after_seq s) r = [] \<and> \<not> run_done r)"
proof -
  obtain r where r: "objects g a = Some r" "sub_ok r s" "run_ok r (writers g a) (clock g)"
    using reg_ok_subD [OF reg_ok_reachable [OF assms(1)] assms(2)] by (elim exE conjE)
  have n: "map fst (run_events r) = [1..run_seq r]" "0 \<le> run_seq r" using r(3) by (simp_all add: run_ok_def)
  have "length (run_events r) = nat (run_seq r)" using arg_cong [OF n(1), of length] by simp
  then show ?thesis using r n by (auto simp: sub_ok_def stretch_def)
qed

theorem run_stream_exact_witness:
  "\<exists>g. reg_reachable 300 g \<and> subs g 0 = Some (0, demo_first) \<and> (\<exists>r. objects g 0 = Some r \<and>
     sent demo_first = filter (\<lambda>(n, e). first_after demo_first < n \<and> n \<le> after_seq demo_first) (run_events r))"
proof -
  obtain g where g: "reg_reachable 300 g" "subs g 0 = Some (0, demo_first)" using demo_reachable by blast
  show ?thesis using run_stream_exact [OF g] g by blast
qed

text \<open>a reconnection loses and repeats nothing: when a client that started at the beginning goes away after the
  event with some number and a later subscription with that number has returned, the two together have been sent
  the whole stream of the run, ending with the event \<open>run_complete\<close>.\<close>
theorem reconnect_exact:
  assumes "reg_reachable ttl g" "subs g i = Some (a, s)" "subs g j = Some (a, t)"
    "first_after s = 0" "first_after t = after_seq s" "sub_pc t = Stopped"
  shows "\<exists>r status. objects g a = Some r \<and> run_done r \<and> sent s @ sent t = run_events r \<and>
     snd (last (run_events r)) = finish_event status"
proof -
  obtain r where r: "objects g a = Some r" "sub_ok r s" "run_ok r (writers g a) (clock g)"
    using reg_ok_subD [OF reg_ok_reachable [OF assms(1)] assms(2)] by (elim exE conjE)
  have t: "sub_ok r t" using reg_ok_subD [OF reg_ok_reachable [OF assms(1)] assms(3)] r(1) by auto
  have n: "map fst (run_events r) = [1..run_seq r]" using r(3) by (simp add: run_ok_def)
  note asc = numbered_ascending [OF n]
  have d: "run_done r" "pending (after_seq t) r = []" using t assms(6) by (simp_all add: sub_ok_def)
  then have e: "stretch (after_seq t) (run_seq r) (run_events r) = []" by (simp add: pending_stretch [OF n])
  have all: "stretch 0 (run_seq r) (run_events r) = run_events r"
  proof -
    have "1 \<le> fst x \<and> fst x \<le> run_seq r" if "x \<in> set (run_events r)" for x
      using n that by (metis atLeastAtMost_iff image_eqI list.set_map set_upto)
    then show ?thesis by (fastforce simp: stretch_def filter_id_conv)
  qed
  have s: "sent s = stretch 0 (after_seq s) (run_events r)" "0 \<le> after_seq s" "after_seq s \<le> run_seq r"
    using r(2,3) assms(4) by (auto simp: sub_ok_def run_ok_def)
  have t': "sent t = stretch (after_seq s) (after_seq t) (run_events r)" "after_seq s \<le> after_seq t" "after_seq t \<le> run_seq r"
    using t assms(5) s by (auto simp: sub_ok_def)
  have "sent s @ sent t = stretch 0 (after_seq t) (run_events r)" using stretch_join [OF asc] s t' by simp
  also have "\<dots> = stretch 0 (run_seq r) (run_events r)"
    using stretch_join [OF asc, of 0 "after_seq t" "run_seq r"] s t' e by simp
  finally have "sent s @ sent t = run_events r" using all by simp
  moreover obtain status where "snd (last (run_events r)) = finish_event status"
    using r(3) d(1) by (auto simp: run_ok_def)
  ultimately show ?thesis using r(1) d(1) by blast
qed

theorem reconnect_exact_witness: "\<exists>g r. reg_reachable 300 g \<and> objects g 0 = Some r \<and> sent demo_first @ sent demo_second = run_events r"
proof -
  obtain g where g: "reg_reachable 300 g" "subs g 0 = Some (0, demo_first)" "subs g 1 = Some (0, demo_second)" using demo_reachable by blast
  show ?thesis using reconnect_exact [OF g] g(1) demo_facts by auto
qed

text \<open>C26: a stream ends: once a run is marked done, every subscriber that has not been closed stops within twice
  as many own steps as there are events plus two, having been sent every event after its starting point.\<close>
theorem stream_ends:
  assumes "reg_reachable ttl g" "subs g i = Some (a, s)" "objects g a = Some r" "run_done r" "sub_pc s \<noteq> Closed"
  shows "sub_pc ((sub_own r ^^ (2 * length (run_events r) + 2)) s) = Stopped \<and>
     sent ((sub_own r ^^ (2 * length (run_events r) + 2)) s) = pending (first_after s) r"
proof -
  let ?k = "2 * length (run_events r) + 2"
  have r: "sub_ok r s" "run_ok r (writers g a) (clock g)"
    using reg_ok_subD [OF reg_ok_reachable [OF assms(1)] assms(2)] assms(3) by auto
  have n: "map fst (run_events r) = [1..run_seq r]" using r(2) by (simp add: run_ok_def)
  have stop: "sub_pc ((sub_own r ^^ ?k) s) = Stopped"
    using sub_own_stops [OF r(2) assms(4) r(1) assms(5) remaining_bound] .
  have ok: "sub_ok r ((sub_own r ^^ k) s)" for k by (induction k) (simp_all add: r sub_own_ok [OF r(2)])
  have first: "first_after ((sub_own r ^^ k) s) = first_after s" for k
    by (induction k) (simp_all add: sub_own_def sub_check_def sub_send_def sub_timeout_def split: sub_pc.split list.split)
  let ?t = "(sub_own r ^^ ?k) s"
  have t: "sub_ok r ?t" "pending (after_seq ?t) r = []" using ok [of ?k] stop by (simp_all add: sub_ok_def)
  have "sent ?t = pending (first_after s) r"
  proof (cases "after_seq ?t \<le> run_seq r")
    case True
    have "first_after s \<le> after_seq ?t" using t(1) first [of ?k] by (auto simp: sub_ok_def)
    then have "sent ?t @ pending (after_seq ?t) r = pending (first_after s) r"
      using stretch_join [OF numbered_ascending [OF n], of "first_after s" "after_seq ?t" "run_seq r"] True t(1) first [of ?k]
      by (simp add: pending_stretch [OF n] sub_ok_def)
    then show ?thesis using t(2) by simp
  next
    case False
    then have "first_after s = after_seq ?t" using t(1) first [of ?k] by (auto simp: sub_ok_def)
    then show ?thesis using t first [of ?k] by (simp add: sub_ok_def)
  qed
  then show ?thesis using stop by simp
qed

theorem stream_ends_witness: "sub_pc ((sub_own demo_run ^^ 6) (sub_check demo_run (subscribe 1))) = Stopped"
proof -
  obtain g where g: "reg_reachable 300 g" "subs g 2 = Some (0, sub_check demo_run (subscribe 1))" "objects g 0 = Some demo_run"
    using demo_reachable by blast
  have "sub_pc (sub_check demo_run (subscribe 1)) \<noteq> Closed" by (simp add: demo_defs)
  from stream_ends [OF g demo_facts(6) this] show ?thesis by (simp add: demo_facts)
qed

text \<open>a client that sends back the number of the last frame it was given is served from exactly there: as long as
  the run has not been over for longer than its time to live and no newer run took its id, the route finds it and
  starts after that number for its owner, and answers 404 to everybody else.\<close>
theorem reconnect_finds_run:
  assumes "reg_reachable ttl g" "objects g a = Some r" "\<not> expired ttl (clock g) r"
    "\<forall>b r'. objects g b = Some r' \<and> run_id r' = run_id r \<longrightarrow> b \<le> a"
  shows "fst (stream_intent ttl (Some (show_int n)) query (run_id r) uid g) = (if uid = run_user r then Some (a, n) else None)"
proof -
  have "index g (run_id r) = Some a"
    using kept_or_expired_reachable [OF assms(1)] assms(2-4) unfolding kept_or_expired_def by (metis not_le)
  then have e: "index (evict_expired ttl g) (run_id r) = Some a" using assms(2,3) by (simp add: evict_index)
  have "show_int n \<noteq> []" using show_nat_digits by (simp add: show_int_def)
  then show ?thesis using e assms(2) by (simp add: stream_intent_def registry_get_def Let_def py_int_show)
qed

theorem reconnect_finds_run_witness:
  "\<exists>g. reg_reachable 300 g \<and> fst (stream_intent 300 (Some (show_int 1)) None ''r'' ''u'' g) = Some (0, 1)
     \<and> fst (stream_intent 300 (Some (show_int 1)) None ''r'' ''eve'' g) = None"
proof -
  obtain g where g: "reg_reachable 300 g" "objects g 0 = Some demo_run" "clock g = 0" "next_object g = 1" using demo_reachable by blast
  have "b \<le> 0" if "objects g b = Some r'" for b r'
    using reg_okD(1) [OF reg_ok_reachable [OF g(1)] that] g(4) by simp
  then have o: "\<forall>b r'. objects g b = Some r' \<and> run_id r' = run_id demo_run \<longrightarrow> b \<le> 0" by blast
  have x: "\<not> expired 300 (clock g) demo_run" by (simp add: g(3) expired_def demo_run_def mark_done_def)
  have "run_id demo_run = ''r''" "run_user demo_run = ''u''" by (simp_all add: demo_facts)
  then show ?thesis using reconnect_finds_run [OF g(1,2) x o, of 1 None] g(1) by (intro exI [of _ g]) simp
qed

end
