(* ===== verification/Rate_Limiter.thy ===== *)
theory Rate_Limiter
  imports Anima_Prelude
begin

text \<open>
  The rate limiter of \<open>anima/middleware/rate_limiter.py\<close>: the classification of a path, the subject of a
  request, the counter in Redis and the dispatch of the middleware. Redis and the JWT decoder are parameters; what
  is relied on of Redis is \<open>redis_laws\<close>. The clock counts whole seconds, as \<open>TTL\<close> does.
\<close>

subsection \<open>Classification\<close>

definition AUTH_THROTTLED :: "string list" where "AUTH_THROTTLED = [''/auth/signup'', ''/auth/login'']"
definition RATE_LIMIT_EXEMPT :: "string list" where "RATE_LIMIT_EXEMPT = [''/health'', ''/metrics'']"
definition RATE_LIMIT_EXEMPT_PREFIX :: "string list" where "RATE_LIMIT_EXEMPT_PREFIX = [''/preview/'']"
definition EXEMPT_PATHS :: "string list" where
  "EXEMPT_PATHS = [''/health'', ''/metrics'', ''/docs'', ''/openapi.json'', ''/billing/webhook'']"

datatype group = Auth | Exempt | IntentGroup | Api

definition classify_endpoint :: "string \<Rightarrow> group" where
  "classify_endpoint path = (if path \<in> set AUTH_THROTTLED then Auth
     else if list_ex (startswith path) RATE_LIMIT_EXEMPT_PREFIX then Exempt
     else if path \<in> set RATE_LIMIT_EXEMPT then Exempt
     else if startswith path ''/intent'' then IntentGroup else Api)"

definition group_name :: "group \<Rightarrow> string" where
  "group_name g = (case g of Auth \<Rightarrow> ''auth'' | Exempt \<Rightarrow> ''exempt'' | IntentGroup \<Rightarrow> ''intent'' | Api \<Rightarrow> ''api'')"

record rate_settings =
  rate_limit_auth_rpm :: int
  rate_limit_intent_rpm :: int
  rate_limit_api_rpm :: int

definition get_limit :: "rate_settings \<Rightarrow> group \<Rightarrow> int \<times> int" where
  "get_limit cfg g = (case g of Auth \<Rightarrow> (rate_limit_auth_rpm cfg, 60) | IntentGroup \<Rightarrow> (rate_limit_intent_rpm cfg, 60)
     | _ \<Rightarrow> (rate_limit_api_rpm cfg, 60))"

subsection \<open>The subject of a request\<close>

record http_request =
  req_path :: string
  authorization :: "string option"
  forwarded_for :: "string option"
  client_host :: "string option"

definition client_ip :: "http_request \<Rightarrow> string" where
  "client_ip q = (case forwarded_for q of
       Some f \<Rightarrow> if f \<noteq> [] then py_strip (hd (split_on (CHR '','') f)) else (case client_host q of Some h \<Rightarrow> h | None \<Rightarrow> ''unknown'')
     | None \<Rightarrow> (case client_host q of Some h \<Rightarrow> h | None \<Rightarrow> ''unknown''))"

text \<open>\<open>decode\<close> verifies a token and gives its \<open>sub\<close> member, if it has one.\<close>

definition get_subject :: "(string \<Rightarrow> exn + string option) \<Rightarrow> http_request \<Rightarrow> group \<Rightarrow> string" where
  "get_subject decode q g = (if g = Auth then client_ip q
     else (let a = (case authorization q of Some v \<Rightarrow> v | None \<Rightarrow> []) in
       if startswith a ''Bearer '' then
         (case decode (drop 7 a) of Inr (Some sub) \<Rightarrow> sub | Inr None \<Rightarrow> client_ip q | Inl _ \<Rightarrow> client_ip q)
       else client_ip q))"

subsection \<open>The counter\<close>

record 'w redis =
  r_incr_ttl :: "string \<Rightarrow> ('w, int \<times> int) act"
  r_expire :: "string \<Rightarrow> int \<Rightarrow> ('w, unit) act"
  r_elapse :: "int \<Rightarrow> 'w \<Rightarrow> 'w"

definition check_rate_limit :: "'w redis \<Rightarrow> string \<Rightarrow> int \<Rightarrow> int \<Rightarrow> ('w, bool \<times> int) act" where
  "check_rate_limit R key limit window = act_catch
     (act_bind (r_incr_ttl R key) (\<lambda>(count, ttl).
      act_bind (if ttl < 0 then act_then (r_expire R key window) (act_return window) else act_return ttl) (\<lambda>ttl.
      act_bind (if count = 1 then act_then (r_expire R key window) (act_return window) else act_return ttl) (\<lambda>ttl.
        act_return (if count > limit then (False, max ttl 1) else (True, 0))))))
     (\<lambda>e. act_return (True, 0))"

datatype response = CallNext | TooManyRequests int

definition rate_key :: "group \<Rightarrow> string \<Rightarrow> string" where
  "rate_key g subject = ''rl:'' @ group_name g @ '':'' @ subject"

definition rate_dispatch :: "bool \<Rightarrow> rate_settings \<Rightarrow> (string \<Rightarrow> exn + string option) \<Rightarrow> 'w redis \<Rightarrow> http_request \<Rightarrow> ('w, response) act" where
  "rate_dispatch testing cfg decode R q =
     (if testing then act_return CallNext
      else if req_path q \<in> set EXEMPT_PATHS then act_return CallNext
      else let g = classify_endpoint (req_path q) in
        if g = Exempt then act_return CallNext
        else (case get_limit cfg g of (limit, window) \<Rightarrow>
          act_bind (check_rate_limit R (rate_key g (get_subject decode q g)) limit window) (\<lambda>(allowed, retry_after).
            act_return (if \<not> allowed then TooManyRequests retry_after else CallNext))))"

subsection \<open>What Redis promises\<close>

text \<open>\<open>view w k\<close> is the counter under a key with the time it expires, \<open>now w\<close> the server's clock. \<open>INCR\<close> starts
  a missing key at one without an expiry, \<open>TTL\<close> answers -1 when there is none, a key is gone when its time has
  come, and nobody else writes these keys.\<close>

type_synonym 'w view = "'w \<Rightarrow> string \<Rightarrow> (int \<times> int option) option"

definition redis_laws :: "'w view \<Rightarrow> ('w \<Rightarrow> int) \<Rightarrow> 'w redis \<Rightarrow> bool" where
  "redis_laws view now R \<longleftrightarrow>
     (\<forall>k w c t w'. r_incr_ttl R k w = (Inr (c, t), w') \<longrightarrow> now w' = now w \<and>
        (case view w k of None \<Rightarrow> c = 1 \<and> t = -1 \<and> view w' = (view w)(k := Some (1, None))
         | Some (n, None) \<Rightarrow> c = n + 1 \<and> t = -1 \<and> view w' = (view w)(k := Some (n + 1, None))
         | Some (n, Some e) \<Rightarrow> c = n + 1 \<and> t = e - now w \<and> view w' = (view w)(k := Some (n + 1, Some e))))
     \<and> (\<forall>k s w w'. r_expire R k s w = (Inr (), w') \<longrightarrow> now w' = now w \<and> view w' = (view w)(k := map_option (\<lambda>(n, _). (n, Some (now w + s))) (view w k)))
     \<and> (\<forall>d w. 0 \<le> d \<longrightarrow> now (r_elapse R d w) = now w + d \<and>
         view (r_elapse R d w) = (\<lambda>k. case view w k of Some (n, Some e) \<Rightarrow> if e \<le> now w + d then None else view w k | x \<Rightarrow> x))"

definition redis_up :: "'w redis \<Rightarrow> bool" where
  "redis_up R \<longleftrightarrow> (\<forall>k w. \<exists>x w'. r_incr_ttl R k w = (Inr x, w')) \<and> (\<forall>k s w. \<exists>w'. r_expire R k s w = (Inr (), w'))"

subsection \<open>The fixed window\<close>

text \<open>The specification: a counter that is started by the first request and forgotten a window later.\<close>

type_synonym window_state = "(int \<times> int) option"

definition fixed_window :: "int \<Rightarrow> int \<Rightarrow> int \<Rightarrow> window_state \<Rightarrow> (bool \<times> int) \<times> window_state" where
  "fixed_window limit window t st = (let (c, e) = (case st of Some (n, e) \<Rightarrow> (n + 1, e) | None \<Rightarrow> (1, t + window)) in
     (if c > limit then (False, max (e - t) 1) else (True, 0), Some (c, e)))"

definition forget :: "int \<Rightarrow> window_state \<Rightarrow> window_state" where
  "forget t st = (case st of Some (n, e) \<Rightarrow> if e \<le> t then None else st | None \<Rightarrow> None)"

text \<open>A counter that the limiter has left complete: one that counts at least one request and has an expiry.\<close>

definition counter_of :: "'w view \<Rightarrow> 'w \<Rightarrow> string \<Rightarrow> window_state" where
  "counter_of view w k = (case view w k of Some (n, Some e) \<Rightarrow> Some (n, e) | _ \<Rightarrow> None)"

definition complete :: "'w view \<Rightarrow> ('w \<Rightarrow> int) \<Rightarrow> 'w \<Rightarrow> bool" where
  "complete view now w \<longleftrightarrow> (\<forall>k n x. view w k = Some (n, x) \<longrightarrow> n \<ge> 1 \<and> (\<exists>e. x = Some e \<and> e > now w))"

subsection \<open>The limiter keeps a fixed window\<close>

lemma incr_law:
  assumes "redis_laws view now R" "r_incr_ttl R k w = (Inr (c, t), w')"
  shows "now w' = now w"
    "view w k = None \<Longrightarrow> c = 1 \<and> t = -1 \<and> view w' = (view w)(k := Some (1, None))"
    "view w k = Some (n, Some e) \<Longrightarrow> c = n + 1 \<and> t = e - now w \<and> view w' = (view w)(k := Some (n + 1, Some e))"
proof -
  have "now w' = now w \<and> (case view w k of None \<Rightarrow> c = 1 \<and> t = -1 \<and> view w' = (view w)(k := Some (1, None))
         | Some (n, None) \<Rightarrow> c = n + 1 \<and> t = -1 \<and> view w' = (view w)(k := Some (n + 1, None))
         | Some (n, Some e) \<Rightarrow> c = n + 1 \<and> t = e - now w \<and> view w' = (view w)(k := Some (n + 1, Some e)))"
    by (rule assms(1) [unfolded redis_laws_def, THEN conjunct1, rule_format, OF assms(2)])
  then show "now w' = now w"
    "view w k = None \<Longrightarrow> c = 1 \<and> t = -1 \<and> view w' = (view w)(k := Some (1, None))"
    "view w k = Some (n, Some e) \<Longrightarrow> c = n + 1 \<and> t = e - now w \<and> view w' = (view w)(k := Some (n + 1, Some e))"
    by simp_all
qed

lemma expire_law:
  assumes "redis_laws view now R" "r_expire R k s w = (Inr (), w')"
  shows "now w' = now w" "view w' = (view w)(k := map_option (\<lambda>(n, _). (n, Some (now w + s))) (view w k))"
  using assms unfolding redis_laws_def by blast+

lemma elapse_law:
  assumes "redis_laws view now R" "0 \<le> d"
  shows "now (r_elapse R d w) = now w + d"
    "view (r_elapse R d w) = (\<lambda>k. case view w k of Some (n, Some e) \<Rightarrow> if e \<le> now w + d then None else view w k | x \<Rightarrow> x)"
  using assms unfolding redis_laws_def by blast+

text \<open>\<open>counts\<close>: the three steps of a request, and what they leave.\<close>

lemma check_refines:
  assumes L: "redis_laws view now R" and U: "redis_up R" and C: "complete view now w" and W: "0 < window"
  shows "\<exists>x w'. check_rate_limit R k limit window w = (Inr x, w') \<and> now w' = now w \<and>
    (x, counter_of view w' k) = fixed_window limit window (now w) (counter_of view w k) \<and>
    complete view now w' \<and> (\<forall>j. j \<noteq> k \<longrightarrow> view w' j = view w j)"
proof -
  obtain c t w1 where i: "r_incr_ttl R k w = (Inr (c, t), w1)" using U unfolding redis_up_def by (metis prod.exhaust)
  note il = incr_law [OF L i]
  show ?thesis
  proof (cases "view w k")
    case None
    obtain w2 where e1: "r_expire R k window w1 = (Inr (), w2)" using U unfolding redis_up_def by blast
    obtain w3 where e2: "r_expire R k window w2 = (Inr (), w3)" using U unfolding redis_up_def by blast
    note il' = il(2) [OF None]
    have v: "view w3 = (view w)(k := Some (1, Some (now w + window)))" "now w3 = now w"
      using expire_law [OF L e1] expire_law [OF L e2] il(1) il' by auto
    have "check_rate_limit R k limit window w = (Inr (if 1 > limit then (False, max window 1) else (True, 0)), w3)"
      using i il' e1 e2 by (simp add: check_rate_limit_def act_simps)
    moreover have "complete view now w3" using C W unfolding complete_def v by (auto split: if_splits)
    ultimately show ?thesis using v None by (simp add: fixed_window_def counter_of_def)
  next
    case (Some ne)
    then obtain n e where ne: "view w k = Some (n, Some e)" "n \<ge> 1" "e > now w"
      using C unfolding complete_def by (cases ne) fastforce
    note il' = il(3) [OF ne(1)]
    have "check_rate_limit R k limit window w = (Inr (if n + 1 > limit then (False, max (e - now w) 1) else (True, 0)), w1)"
      using i il' ne by (simp add: check_rate_limit_def act_simps)
    moreover have "complete view now w1" unfolding complete_def il(1)
    proof (intro allI impI)
      fix j m x assume "view w1 j = Some (m, x)"
      then show "m \<ge> 1 \<and> (\<exists>e. x = Some e \<and> e > now w)"
        using C [unfolded complete_def, rule_format, of j m x] C [unfolded complete_def, rule_format, OF ne(1)] il' by (cases "j = k") auto
    qed
    ultimately show ?thesis using il(1) il' ne by (simp add: fixed_window_def counter_of_def)
  qed
qed

lemma elapse_refines:
  assumes "redis_laws view now R" "complete view now w" "0 \<le> d"
  shows "counter_of view (r_elapse R d w) k = forget (now w + d) (counter_of view w k)" "complete view now (r_elapse R d w)"
proof -
  note el = elapse_law [OF assms(1,3), of w]
  show "counter_of view (r_elapse R d w) k = forget (now w + d) (counter_of view w k)"
    unfolding counter_of_def el(2) by (auto simp: forget_def split: option.splits prod.splits)
  show "complete view now (r_elapse R d w)"
    unfolding complete_def el
  proof (intro allI impI)
    fix j n x
    assume v: "(case view w j of Some (n, Some e) \<Rightarrow> if e \<le> now w + d then None else view w j | x \<Rightarrow> x) = Some (n, x)"
    then obtain m y where j: "view w j = Some (m, y)" by (auto split: option.splits)
    then obtain e where "y = Some e" "m \<ge> 1" using assms(2) unfolding complete_def by blast
    then show "n \<ge> 1 \<and> (\<exists>e. x = Some e \<and> e > now w + d)" using v j by (auto split: if_splits)
  qed
qed

subsection \<open>Requests over time\<close>

text \<open>A sequence of requests, each with the time since the one before and its key; the result says for each when it
  came and whether it was let through.\<close>

fun serve :: "'w redis \<Rightarrow> int \<Rightarrow> int \<Rightarrow> int \<Rightarrow> (int \<times> string) list \<Rightarrow> 'w \<Rightarrow> (int \<times> string \<times> bool) list" where
  "serve R limit window t [] w = []"
| "serve R limit window t ((d, k) # qs) w =
     (case check_rate_limit R k limit window (r_elapse R d w) of (r, w') \<Rightarrow>
        (t + d, k, case r of Inr (ok, _) \<Rightarrow> ok | Inl _ \<Rightarrow> True) # serve R limit window (t + d) qs w')"

fun fw_run :: "int \<Rightarrow> int \<Rightarrow> window_state \<Rightarrow> int list \<Rightarrow> (int \<times> bool) list" where
  "fw_run limit window st [] = []"
| "fw_run limit window st (t # ts) =
     (case fixed_window limit window t (forget t st) of ((ok, _), st') \<Rightarrow> (t, ok) # fw_run limit window st' ts)"

fun arrivals :: "int \<Rightarrow> (int \<times> string) list \<Rightarrow> string \<Rightarrow> int list" where
  "arrivals t [] k = []"
| "arrivals t ((d, j) # qs) k = (if j = k then [t + d] else []) @ arrivals (t + d) qs k"

definition on_key :: "string \<Rightarrow> (int \<times> string \<times> bool) list \<Rightarrow> (int \<times> bool) list" where
  "on_key k xs = map (\<lambda>(t, _, ok). (t, ok)) (filter (\<lambda>(t, j, ok). j = k) xs)"

definition let_through :: "int \<Rightarrow> int \<Rightarrow> (int \<times> bool) list \<Rightarrow> nat" where
  "let_through a b xs = length (filter (\<lambda>(t, ok). ok \<and> a \<le> t \<and> t < b) xs)"

lemma arrivals_sorted: "list_all (\<lambda>(d, k). 0 \<le> d) qs \<Longrightarrow> sorted (arrivals t qs k) \<and> (\<forall>x \<in> set (arrivals t qs k). t \<le> x)"
  by (induction t qs k rule: arrivals.induct) fastforce+

lemma forget_forget: "s \<le> t \<Longrightarrow> forget t (forget s st) = forget t st"
  by (auto simp: forget_def split: option.splits)

lemma fw_run_forget: "\<forall>x \<in> set ts. s \<le> x \<Longrightarrow> fw_run limit window (forget s st) ts = fw_run limit window st ts"
  by (cases ts) (auto simp: forget_forget)

lemma serve_refines:
  assumes L: "redis_laws view now R" and U: "redis_up R" and W: "0 < window"
  shows "list_all (\<lambda>(d, k). 0 \<le> d) qs \<Longrightarrow> complete view now w \<Longrightarrow>
    on_key k (serve R limit window (now w) qs w) = fw_run limit window (counter_of view w k) (arrivals (now w) qs k)"
proof (induction qs arbitrary: w)
  case Nil then show ?case by (simp add: on_key_def)
next
  case (Cons q qs)
  obtain d j where q: "q = (d, j)" by fastforce
  then have d: "0 \<le> d" "list_all (\<lambda>(d, k). 0 \<le> d) qs" using Cons.prems by auto
  let ?w = "r_elapse R d w"
  note el = elapse_refines [OF L Cons.prems(2) d(1)]
  have now: "now ?w = now w + d" using elapse_law [OF L d(1)] by simp
  obtain x w' where c: "check_rate_limit R j limit window ?w = (Inr x, w')" "now w' = now ?w"
    "(x, counter_of view w' j) = fixed_window limit window (now ?w) (counter_of view ?w j)" "complete view now w'"
    "\<forall>i. i \<noteq> j \<longrightarrow> view w' i = view ?w i"
    using check_refines [OF L U el(2) W, of j limit] by blast
  have IH: "on_key k (serve R limit window (now w + d) qs w') = fw_run limit window (counter_of view w' k) (arrivals (now w + d) qs k)"
    using Cons.IH [OF d(2) c(4)] c(2) now by simp
  show ?case
  proof (cases "j = k")
    case True
    have "fixed_window limit window (now w + d) (forget (now w + d) (counter_of view w k)) = (x, counter_of view w' k)"
      using c(3) el(1) [of k] now True by simp
    then show ?thesis using IH True q c(1) by (cases x) (simp add: on_key_def)
  next
    case False
    then have "counter_of view w' k = forget (now w + d) (counter_of view w k)"
      using c(5) el(1) [of k] by (simp add: counter_of_def)
    moreover have "\<forall>y \<in> set (arrivals (now w + d) qs k). now w + d \<le> y" using arrivals_sorted [OF d(2)] by blast
    ultimately have "fw_run limit window (counter_of view w' k) (arrivals (now w + d) qs k)
        = fw_run limit window (counter_of view w k) (arrivals (now w + d) qs k)"
      by (simp add: fw_run_forget)
    then show ?thesis using IH False q c(1) by (simp add: on_key_def)
  qed
qed

subsection \<open>How many pass\<close>

lemma let_through_Cons: "let_through a b ((t, ok) # xs) = (if ok \<and> a \<le> t \<and> t < b then 1 else 0) + let_through a b xs"
  by (simp add: let_through_def)

lemma let_through_late: "\<forall>x \<in> set ts. b \<le> x \<Longrightarrow> let_through a b (fw_run limit window st ts) = 0"
proof (induction ts arbitrary: st)
  case (Cons t ts) then show ?case by (auto simp: let_through_Cons split: prod.splits)
qed (simp add: let_through_def)

lemma let_through_mono: "b \<le> c \<Longrightarrow> let_through a b xs \<le> let_through a c xs"
  unfolding let_through_def by (induction xs) auto

lemma let_through_split: "a \<le> b \<Longrightarrow> let_through a c xs \<le> let_through a b xs + let_through b c xs"
  unfolding let_through_def by (induction xs) auto

lemma fw_counting:
  assumes "sorted ts"
  shows "let_through a e (fw_run limit window (Some (n, e)) ts) \<le> nat (limit - n)"
  using assms
proof (induction ts arbitrary: n)
  case (Cons t ts)
  show ?case
  proof (cases "t < e")
    case True
    then have f: "forget t (Some (n, e)) = Some (n, e)" by (simp add: forget_def)
    show ?thesis using Cons.IH [of "n + 1"] Cons.prems by (auto simp: f fixed_window_def let_through_Cons)
  next
    case False
    then have "\<forall>x \<in> set (t # ts). e \<le> x" using Cons.prems by fastforce
    from let_through_late [OF this] show ?thesis by simp
  qed
qed (simp add: let_through_def)

lemma fw_fresh:
  assumes "sorted ts" "\<forall>x \<in> set ts. e \<le> x" "b \<le> e + window" "forget e st = None"
  shows "let_through a b (fw_run limit window st ts) \<le> nat limit"
proof (cases ts)
  case (Cons t rest)
  have t: "forget t st = None" "b \<le> t + window" "sorted rest" using assms Cons forget_forget [of e t st] by (auto simp: forget_def)
  have "let_through a b (fw_run limit window (Some (1, t + window)) rest) \<le> let_through a (t + window) (fw_run limit window (Some (1, t + window)) rest)"
    using t(2) by (rule let_through_mono)
  also have "\<dots> \<le> nat (limit - 1)" using t(3) by (rule fw_counting)
  finally have "let_through a b (fw_run limit window (Some (1, t + window)) rest) \<le> nat (limit - 1)" .
  then show ?thesis using Cons t(1) by (auto simp: fixed_window_def let_through_Cons)
qed (simp add: let_through_def)

lemma fw_after:
  assumes "sorted ts" "b \<le> e + window"
  shows "let_through e b (fw_run limit window (Some (n, e)) ts) \<le> nat limit"
  using assms(1)
proof (induction ts arbitrary: n)
  case (Cons t ts)
  show ?case
  proof (cases "t < e")
    case True
    then have f: "forget t (Some (n, e)) = Some (n, e)" by (simp add: forget_def)
    show ?thesis using Cons.IH [of "n + 1"] Cons.prems True by (simp add: f fixed_window_def let_through_Cons)
  next
    case False
    then show ?thesis using fw_fresh [of "t # ts" e b window "Some (n, e)" e limit] Cons.prems assms(2) by (fastforce simp: forget_def)
  qed
qed (simp add: let_through_def)

lemma fw_bound:
  assumes "sorted ts" "0 < window" "\<forall>n e. st = Some (n, e) \<longrightarrow> 0 \<le> n"
  shows "let_through T (T + window) (fw_run limit window st ts) \<le> 2 * nat limit"
  using assms(1,3)
proof (induction ts arbitrary: st)
  case (Cons t ts)
  show ?case
  proof (cases "t < T")
    case True
    obtain r st' where f: "fixed_window limit window t (forget t st) = (r, st')" by fastforce
    then have "\<forall>n e. st' = Some (n, e) \<longrightarrow> 0 \<le> n"
      using Cons.prems(2) by (auto simp: fixed_window_def forget_def Let_def split: option.splits if_splits prod.splits)
    then show ?thesis using Cons.IH [of st'] Cons.prems True f by (cases r) (simp add: let_through_Cons)
  next
    case False
    have run: "fw_run limit window st (t # ts) = fw_run limit window (forget t st) (t # ts)"
      using fw_run_forget [of "t # ts" t limit window st] Cons.prems by simp
    show ?thesis
    proof (cases "forget t st")
      case None
      then have "let_through T (T + window) (fw_run limit window None (t # ts)) \<le> nat limit"
        using fw_fresh [of "t # ts" t "T + window" window None T limit] Cons.prems False by (simp add: forget_def)
      then show ?thesis using run None by simp
    next
      case (Some ne)
      then obtain n e where ne: "forget t st = Some (n, e)" by (cases ne) auto
      then have "t < e" by (auto simp: forget_def split: option.splits if_splits)
      then have "let_through T (T + window) (fw_run limit window (Some (n, e)) (t # ts)) \<le>
          let_through T e (fw_run limit window (Some (n, e)) (t # ts)) + let_through e (T + window) (fw_run limit window (Some (n, e)) (t # ts))"
        using False by (intro let_through_split) simp
      moreover have "let_through T e (fw_run limit window (Some (n, e)) (t # ts)) \<le> nat (limit - n)" by (rule fw_counting [OF Cons.prems(1)])
      moreover have "let_through e (T + window) (fw_run limit window (Some (n, e)) (t # ts)) \<le> nat limit"
        using fw_after [OF Cons.prems(1), of "T + window" e window limit n] False \<open>t < e\<close> by simp
      moreover have "0 \<le> n" using ne Cons.prems(2) by (auto simp: forget_def split: option.splits if_splits)
      then have "nat (limit - n) \<le> nat limit" by simp
      ultimately show ?thesis using run ne by simp
    qed
  qed
qed (simp add: let_through_def)

subsection \<open>A small Redis\<close>

record mini_redis =
  mr_now :: int
  mr_data :: "string \<Rightarrow> (int \<times> int option) option"

definition mini :: "mini_redis redis" where
  "mini = \<lparr>r_incr_ttl = (\<lambda>k w. case mr_data w k of
         None \<Rightarrow> (Inr (1, -1), w\<lparr>mr_data := (mr_data w)(k := Some (1, None))\<rparr>)
       | Some (n, None) \<Rightarrow> (Inr (n + 1, -1), w\<lparr>mr_data := (mr_data w)(k := Some (n + 1, None))\<rparr>)
       | Some (n, Some e) \<Rightarrow> (Inr (n + 1, e - mr_now w), w\<lparr>mr_data := (mr_data w)(k := Some (n + 1, Some e))\<rparr>)),
     r_expire = (\<lambda>k s w. (Inr (), w\<lparr>mr_data := (mr_data w)(k := map_option (\<lambda>(n, _). (n, Some (mr_now w + s))) (mr_data w k))\<rparr>)),
     r_elapse = (\<lambda>d w. w\<lparr>mr_now := mr_now w + d, mr_data := (\<lambda>k. case mr_data w k of
         Some (n, Some e) \<Rightarrow> if e \<le> mr_now w + d then None else mr_data w k | x \<Rightarrow> x)\<rparr>)\<rparr>"

definition mini_start :: mini_redis where "mini_start = \<lparr>mr_now = 0, mr_data = (\<lambda>_. None)\<rparr>"

lemma mini_laws: "redis_laws mr_data mr_now mini" "redis_up mini" "complete mr_data mr_now mini_start"
  by (auto simp: redis_laws_def redis_up_def complete_def mini_def mini_start_def fun_eq_iff split: option.splits)

definition demo_settings :: rate_settings where
  "demo_settings = \<lparr>rate_limit_auth_rpm = 5, rate_limit_intent_rpm = 10, rate_limit_api_rpm = 120\<rparr>"

subsection \<open>Properties\<close>



text \<open>over any stretch of time as long as the window, the limiter lets at most twice its limit of requests through
  on a key, whatever the requests are and however they are spaced. The factor two is reached: the window is a fixed
  one and not the sliding one of the documentation.\<close>
theorem rate_window_bound:
  assumes "redis_laws view now R" "redis_up R" "complete view now w" "0 < window" "list_all (\<lambda>(d, k). 0 \<le> d) qs"
  shows "let_through T (T + window) (on_key k (serve R limit window (now w) qs w)) \<le> 2 * nat limit"
proof -
  have "\<forall>n e. counter_of view w k = Some (n, e) \<longrightarrow> 0 \<le> n"
    using assms(3) by (fastforce simp: counter_of_def complete_def split: option.splits)
  then show ?thesis
    using fw_bound [of "arrivals (now w) qs k" window] arrivals_sorted [OF assms(5), of "now w" k] assms(4)
    unfolding serve_refines [OF assms(1,2,4,5,3)] by blast
qed

definition burst :: "(int \<times> string) list" where
  "burst = (0, ''k'') # (59, ''k'') # (1, ''k'') # (0, ''k'') # []"

lemma burst_passes: "serve mini 2 60 0 burst mini_start = [(0, ''k'', True), (59, ''k'', True), (60, ''k'', True), (60, ''k'', True)]"
  by (simp add: burst_def mini_def mini_start_def check_rate_limit_def act_simps)

theorem rate_window_bound_witness:
  "let_through 1 61 (on_key ''k'' (serve mini 2 60 0 burst mini_start)) \<le> 2 * nat 2 \<and>
   let_through 1 61 (on_key ''k'' (serve mini 2 60 0 burst mini_start)) > nat 2"
proof -
  have "list_all (\<lambda>(d, k). 0 \<le> d) burst" by (simp add: burst_def)
  from rate_window_bound [OF mini_laws _ this, of 60 1 "''k''" 2]
  have "let_through 1 61 (on_key ''k'' (serve mini 2 60 0 burst mini_start)) \<le> 2 * nat 2"
    by (simp add: mini_start_def)
  then show ?thesis by (simp add: burst_passes on_key_def let_through_def)
qed

text \<open>the limit on sign-ups and log-ins can be evaded by the client: the subject is the first entry of the header
  \<open>X-Forwarded-For\<close>, which the client writes, so a request with an entry that was not used in the current window
  is let through whatever was sent before from the same address.\<close>
theorem forwarded_for_bypass:
  assumes "redis_laws view now R" "redis_up R" "complete view now w" "1 \<le> rate_limit_auth_rpm cfg"
    "req_path q \<in> set AUTH_THROTTLED" "forwarded_for q = Some f" "f \<noteq> []" "CHR '','' \<notin> set f"
    "view w (rate_key Auth (py_strip f)) = None"
  shows "fst (rate_dispatch False cfg decode R q w) = Inr CallNext"
proof -
  have g: "classify_endpoint (req_path q) = Auth" "req_path q \<notin> set EXEMPT_PATHS"
    using assms(5) by (auto simp: classify_endpoint_def AUTH_THROTTLED_def EXEMPT_PATHS_def)
  have "client_ip q = py_strip f" using assms(6-8) by (simp add: client_ip_def split_on_word)
  then have k: "get_subject decode q Auth = py_strip f" by (simp add: get_subject_def)
  obtain x w' where c: "check_rate_limit R (rate_key Auth (py_strip f)) (rate_limit_auth_rpm cfg) 60 w = (Inr x, w')"
    "(x, counter_of view w' (rate_key Auth (py_strip f)))
      = fixed_window (rate_limit_auth_rpm cfg) 60 (now w) (counter_of view w (rate_key Auth (py_strip f)))"
    using check_refines [OF assms(1-3), of 60 "rate_key Auth (py_strip f)" "rate_limit_auth_rpm cfg"] by auto
  have "fst x" using c(2) assms(4,9) by (simp add: counter_of_def fixed_window_def split: if_splits)
  then show ?thesis using c(1) g k by (simp add: rate_dispatch_def Let_def get_limit_def act_bind_apply case_prod_unfold)
qed

definition login_from :: "string \<Rightarrow> http_request" where
  "login_from f = \<lparr>req_path = ''/auth/login'', authorization = None, forwarded_for = Some f, client_host = Some ''6.6.6.6''\<rparr>"

theorem forwarded_for_bypass_witness:
  "fst (rate_dispatch False demo_settings (\<lambda>_. Inr None) mini (login_from ''1'') mini_start) = Inr CallNext"
  by (rule forwarded_for_bypass [OF mini_laws, where f = "''1''"])
    (simp_all add: demo_settings_def login_from_def AUTH_THROTTLED_def mini_start_def)

text \<open>Without Redis everything is let through.\<close>

lemma fails_open: "r_incr_ttl R k w = (Inl e, w') \<Longrightarrow> check_rate_limit R k limit window w = (Inr (True, 0), w')"
  by (simp add: check_rate_limit_def act_simps)

end
