(* ===== verification/Accounts.thy ===== *)
theory Accounts
  imports Py_Json
begin

text \<open>
  Users, refresh tokens and billing: the user, token and billing tables of \<open>anima/db/__init__.py\<close>, the auth
  layer \<open>anima/auth.py\<close> with the dependency \<open>current_user\<close> of \<open>anima/api/deps.py\<close>, and \<open>anima/billing.py\<close>.
  bcrypt, the JWT library, SHA-256, Stripe and the random generators are parameters; the clock is a field of the
  state and does not move within one operation.
\<close>

subsection \<open>Records\<close>

datatype UserTier = FREE | PRO | ENTERPRISE

fun tier_value :: "UserTier \<Rightarrow> string" where
  "tier_value FREE = ''free''"
| "tier_value PRO = ''pro''"
| "tier_value ENTERPRISE = ''enterprise''"

definition tier_of :: "string \<Rightarrow> UserTier option" where
  "tier_of s = (if s = ''free'' then Some FREE else if s = ''pro'' then Some PRO else if s = ''enterprise'' then Some ENTERPRISE else None)"

lemma tier_of_value [simp]: "tier_of (tier_value t) = Some t"
  by (cases t) (simp_all add: tier_of_def)

lemma tier_of_Some: "tier_of s = Some t \<longleftrightarrow> s = tier_value t"
  by (cases t) (auto simp: tier_of_def)

text \<open>A row of the table \<open>users\<close>, whose tier is any text, and the model \<open>User\<close>, whose tier is one of three.\<close>

record user_row =
  u_id :: string
  u_email :: string
  u_password_hash :: string
  u_tier :: string
  u_budget :: int
  u_used :: int
  u_reset_date :: string
  u_admin :: bool
  u_stripe :: "string option"
  u_created :: int
  u_updated :: int

record User =
  id :: string
  email :: string
  password_hash :: string
  tier :: UserTier
  token_budget_daily :: int
  tokens_used_today :: int
  is_admin :: bool
  stripe_customer_id :: "string option"
  created_at :: int
  updated_at :: int

text \<open>The validator of the e-mail field.\<close>

definition email_lowercase :: "string \<Rightarrow> exn + string" where
  "email_lowercase v = (let v = py_lower (py_strip v) in
     if CHR ''@'' \<notin> set v \<or> CHR ''.'' \<notin> set (last (split_on (CHR ''@'') v)) then Inl PyValueError else Inr v)"

definition row_to_user :: "user_row \<Rightarrow> exn + User" where
  "row_to_user r = (case email_lowercase (u_email r) of Inl e \<Rightarrow> Inl e
     | Inr em \<Rightarrow> (case tier_of (u_tier r) of None \<Rightarrow> Inl PyValueError
        | Some t \<Rightarrow> Inr \<lparr>id = u_id r, email = em, password_hash = u_password_hash r, tier = t, token_budget_daily = u_budget r,
            tokens_used_today = u_used r, is_admin = u_admin r, stripe_customer_id = u_stripe r, created_at = u_created r, updated_at = u_updated r\<rparr>))"

record refresh_row =
  rt_id :: string
  rt_user :: string
  rt_hash :: string
  rt_expires :: int

record billing_row =
  be_id :: string
  be_user :: string
  be_intent :: "string option"
  be_tokens :: int
  be_model :: string
  be_type :: string
  be_created :: int

record event_row =
  ev_id :: string
  ev_user :: string
  ev_kind :: string

text \<open>\<open>draws\<close> counts the random values drawn so far.\<close>

record accounts =
  users :: "user_row list"
  refresh_tokens :: "refresh_row list"
  billing_events :: "billing_row list"
  auth_events :: "event_row list"
  wall :: int
  draws :: nat

record account_settings =
  free_tier_daily_tokens :: int
  pro_tier_daily_tokens :: int
  enterprise_tier_daily_tokens :: int
  access_token_expire_minutes :: int
  refresh_token_expire_days :: int
  admin_emails :: "string list"
  stripe_price_pro :: string
  stripe_price_enterprise :: string

subsection \<open>The tables\<close>

definition create_user :: "User \<Rightarrow> (accounts, User) act" where
  "create_user u = (\<lambda>s. if list_ex (\<lambda>r. u_id r = id u \<or> u_email r = email u) (users s) then (Inl SqlIntegrityError, s)
     else (Inr u, s\<lparr>users := users s @ [\<lparr>u_id = id u, u_email = email u, u_password_hash = password_hash u, u_tier = tier_value (tier u),
        u_budget = token_budget_daily u, u_used = tokens_used_today u, u_reset_date = [], u_admin = is_admin u,
        u_stripe = stripe_customer_id u, u_created = created_at u, u_updated = updated_at u\<rparr>]\<rparr>))"

definition fetch_user :: "(user_row \<Rightarrow> bool) \<Rightarrow> (accounts, User option) act" where
  "fetch_user P = (\<lambda>s. case find P (users s) of None \<Rightarrow> (Inr None, s)
     | Some r \<Rightarrow> (case row_to_user r of Inl e \<Rightarrow> (Inl e, s) | Inr u \<Rightarrow> (Inr (Some u), s)))"

definition get_user_by_email :: "string \<Rightarrow> (accounts, User option) act" where
  "get_user_by_email em = fetch_user (\<lambda>r. u_email r = py_lower em)"

definition get_user_by_id :: "string \<Rightarrow> (accounts, User option) act" where
  "get_user_by_id uid = fetch_user (\<lambda>r. u_id r = uid)"

definition get_user_by_stripe_customer_id :: "string \<Rightarrow> (accounts, User option) act" where
  "get_user_by_stripe_customer_id cid = fetch_user (\<lambda>r. u_stripe r = Some cid)"

definition update_user :: "string \<Rightarrow> (user_row \<Rightarrow> user_row) \<Rightarrow> (accounts, unit) act" where
  "update_user uid f = act_modify (\<lambda>s. s\<lparr>users := map (\<lambda>r. if u_id r = uid then f r else r) (users s)\<rparr>)"

definition consume_tokens :: "string \<Rightarrow> int \<Rightarrow> (accounts, unit) act" where
  "consume_tokens uid n = act_bind (act_get wall) (\<lambda>now. update_user uid (\<lambda>r. r\<lparr>u_used := u_used r + n, u_updated := now\<rparr>))"

definition reset_daily_budget :: "string \<Rightarrow> string \<Rightarrow> (accounts, unit) act" where
  "reset_daily_budget today uid = act_bind (act_get wall) (\<lambda>now. update_user uid (\<lambda>r. r\<lparr>u_used := 0, u_reset_date := today, u_updated := now\<rparr>))"

definition set_admin :: "string \<Rightarrow> bool \<Rightarrow> (accounts, unit) act" where
  "set_admin uid b = act_bind (act_get wall) (\<lambda>now. update_user uid (\<lambda>r. r\<lparr>u_admin := b, u_updated := now\<rparr>))"

definition set_stripe_customer_id :: "string \<Rightarrow> string \<Rightarrow> (accounts, unit) act" where
  "set_stripe_customer_id uid cid = act_bind (act_get wall) (\<lambda>now. update_user uid (\<lambda>r. r\<lparr>u_stripe := Some cid, u_updated := now\<rparr>))"

definition tier_budget :: "account_settings \<Rightarrow> string \<Rightarrow> int" where
  "tier_budget cfg t = (if t = ''free'' then free_tier_daily_tokens cfg else if t = ''pro'' then pro_tier_daily_tokens cfg
     else if t = ''enterprise'' then enterprise_tier_daily_tokens cfg else free_tier_daily_tokens cfg)"

definition update_user_tier :: "account_settings \<Rightarrow> string \<Rightarrow> string \<Rightarrow> (accounts, unit) act" where
  "update_user_tier cfg uid t = act_bind (act_get wall) (\<lambda>now.
     update_user uid (\<lambda>r. r\<lparr>u_tier := t, u_budget := tier_budget cfg t, u_updated := now\<rparr>))"

definition save_refresh_token :: "string \<Rightarrow> string \<Rightarrow> string \<Rightarrow> int \<Rightarrow> (accounts, unit) act" where
  "save_refresh_token tid uid h expires = (\<lambda>s.
     if list_ex (\<lambda>t. rt_id t = tid \<or> rt_hash t = h) (refresh_tokens s) \<or> \<not> list_ex (\<lambda>r. u_id r = uid) (users s) then (Inl SqlIntegrityError, s)
     else (Inr (), s\<lparr>refresh_tokens := refresh_tokens s @ [\<lparr>rt_id = tid, rt_user = uid, rt_hash = h, rt_expires = expires\<rparr>]\<rparr>))"

definition get_refresh_token :: "string \<Rightarrow> (accounts, refresh_row option) act" where
  "get_refresh_token h = act_get (\<lambda>s. find (\<lambda>t. rt_hash t = h \<and> rt_expires t > wall s) (refresh_tokens s))"

definition revoke_refresh_token :: "string \<Rightarrow> (accounts, unit) act" where
  "revoke_refresh_token h = act_modify (\<lambda>s. s\<lparr>refresh_tokens := filter (\<lambda>t. rt_hash t \<noteq> h) (refresh_tokens s)\<rparr>)"

definition billing_event_types :: "string list" where
  "billing_event_types = [''intent'', ''manual_credit'', ''reset'', ''server_scan'', ''self_probe'']"

definition draw :: "(accounts, nat) act" where
  "draw = (\<lambda>s. (Inr (draws s), s\<lparr>draws := Suc (draws s)\<rparr>))"

definition create_billing_event :: "(nat \<Rightarrow> string) \<Rightarrow> string \<Rightarrow> int \<Rightarrow> string \<Rightarrow> string option \<Rightarrow> string \<Rightarrow> (accounts, unit) act" where
  "create_billing_event uuid uid tokens model intent ty =
     (if ty \<notin> set billing_event_types then act_raise PyValueError
      else act_bind draw (\<lambda>n s.
        if list_ex (\<lambda>b. be_id b = uuid n) (billing_events s) \<or> \<not> list_ex (\<lambda>r. u_id r = uid) (users s) then (Inl SqlIntegrityError, s)
        else (Inr (), s\<lparr>billing_events := billing_events s @ [\<lparr>be_id = uuid n, be_user = uid, be_intent = intent, be_tokens = tokens,
            be_model = model, be_type = ty, be_created = wall s\<rparr>]\<rparr>)))"

definition log_auth_event :: "(nat \<Rightarrow> string) \<Rightarrow> string \<Rightarrow> string \<Rightarrow> (accounts, unit) act" where
  "log_auth_event uuid uid kind = act_bind draw (\<lambda>n s.
     if list_ex (\<lambda>e. ev_id e = uuid n) (auth_events s) \<or> \<not> list_ex (\<lambda>r. u_id r = uid) (users s) then (Inl SqlIntegrityError, s)
     else (Inr (), s\<lparr>auth_events := auth_events s @ [\<lparr>ev_id = uuid n, ev_user = uid, ev_kind = kind\<rparr>]\<rparr>))"

subsection \<open>The auth layer\<close>

record claims =
  sub :: string
  iat :: int
  exp :: int
  token_type :: string

text \<open>The libraries: salted password hashes, signed tokens, the hash of opaque tokens and the random values (\<open>n\<close> is
  the number of the draw).\<close>

record auth_lib =
  hashpw :: "string \<Rightarrow> nat \<Rightarrow> exn + string"
  checkpw :: "string \<Rightarrow> string \<Rightarrow> exn + bool"
  jwt_encode :: "claims \<Rightarrow> string"
  jwt_decode :: "int \<Rightarrow> string \<Rightarrow> exn + claims"
  sha256_hex :: "string \<Rightarrow> string"
  uuid4 :: "nat \<Rightarrow> string"
  token_urlsafe :: "nat \<Rightarrow> string"

definition jwt_error :: exn where "jwt_error = ExternalError ''JWTError''"

definition create_access_token :: "auth_lib \<Rightarrow> account_settings \<Rightarrow> string \<Rightarrow> (accounts, string) act" where
  "create_access_token L cfg uid = act_get (\<lambda>s. jwt_encode L
     \<lparr>sub = uid, iat = wall s, exp = wall s + access_token_expire_minutes cfg * 60, token_type = ''access''\<rparr>)"

definition decode_access_token :: "auth_lib \<Rightarrow> string \<Rightarrow> (accounts, string) act" where
  "decode_access_token L tok = (\<lambda>s. case jwt_decode L (wall s) tok of Inl e \<Rightarrow> (Inl e, s)
     | Inr c \<Rightarrow> if token_type c \<noteq> ''access'' then (Inl jwt_error, s) else (Inr (sub c), s))"

definition create_refresh_token :: "auth_lib \<Rightarrow> account_settings \<Rightarrow> string \<Rightarrow> (accounts, string) act" where
  "create_refresh_token L cfg uid = act_bind draw (\<lambda>n. act_bind (act_get wall) (\<lambda>now.
     let raw = token_urlsafe L n; expires_at = now + refresh_token_expire_days cfg * 86400 in
     act_bind draw (\<lambda>m. act_then (save_refresh_token (uuid4 L m) uid (sha256_hex L raw) expires_at) (act_return raw))))"

definition rotate_refresh_token :: "auth_lib \<Rightarrow> account_settings \<Rightarrow> string \<Rightarrow> (accounts, (string \<times> string) option) act" where
  "rotate_refresh_token L cfg old_raw = act_bind (get_refresh_token (sha256_hex L old_raw)) (\<lambda>row. case row of
       None \<Rightarrow> act_return None
     | Some t \<Rightarrow> act_then (revoke_refresh_token (sha256_hex L old_raw))
         (act_bind (create_access_token L cfg (rt_user t)) (\<lambda>access.
          act_bind (create_refresh_token L cfg (rt_user t)) (\<lambda>refresh. act_return (Some (access, refresh))))))"

text \<open>\<open>None\<close> from \<open>get_user_by_email\<close> is no such user.\<close>

definition new_user :: "auth_lib \<Rightarrow> account_settings \<Rightarrow> string \<Rightarrow> string \<Rightarrow> (accounts, User) act" where
  "new_user L cfg em password = act_bind draw (\<lambda>n. act_bind draw (\<lambda>m. act_bind (act_get wall) (\<lambda>now s.
     case hashpw L password n of Inl e \<Rightarrow> (Inl (if e = PyValueError then AuthError else e), s)
     | Inr h \<Rightarrow> (case email_lowercase em of Inl e \<Rightarrow> (Inl (if e = PyValueError then AuthError else e), s)
        | Inr v \<Rightarrow> (Inr \<lparr>id = uuid4 L m, email = v, password_hash = h, tier = FREE, token_budget_daily = free_tier_daily_tokens cfg,
            tokens_used_today = 0, is_admin = False, stripe_customer_id = None, created_at = now, updated_at = now\<rparr>, s)))))"

definition issue :: "auth_lib \<Rightarrow> account_settings \<Rightarrow> User \<Rightarrow> (accounts, User \<times> string \<times> string) act" where
  "issue L cfg u = act_bind (create_access_token L cfg (id u)) (\<lambda>access.
     act_bind (create_refresh_token L cfg (id u)) (\<lambda>refresh. act_return (u, access, refresh)))"

definition signup :: "auth_lib \<Rightarrow> account_settings \<Rightarrow> string \<Rightarrow> string \<Rightarrow> (accounts, User \<times> string \<times> string) act" where
  "signup L cfg em password =
     (if length password < 8 then act_raise AuthError
      else act_bind (get_user_by_email em) (\<lambda>known. if known \<noteq> None then act_raise AuthError
      else act_bind (new_user L cfg em password) (\<lambda>u0.
        let u = (if py_lower em \<in> py_lower ` set (admin_emails cfg) then u0\<lparr>is_admin := True\<rparr> else u0) in
        act_then (act_bind (create_user u) (\<lambda>_. act_return ()))
        (act_then (log_auth_event (uuid4 L) (id u) ''auth_signup'') (issue L cfg u)))))"

definition login :: "auth_lib \<Rightarrow> account_settings \<Rightarrow> string \<Rightarrow> string \<Rightarrow> (accounts, User \<times> string \<times> string) act" where
  "login L cfg em password = act_bind (get_user_by_email em) (\<lambda>known. case known of
       None \<Rightarrow> act_raise AuthError
     | Some u \<Rightarrow> (case checkpw L password (password_hash u) of Inl e \<Rightarrow> act_raise e
        | Inr ok \<Rightarrow> if \<not> ok then act_raise AuthError
            else act_then (log_auth_event (uuid4 L) (id u) ''auth_login'') (issue L cfg u)))"

text \<open>The dependency of every authenticated route; \<open>Inr None\<close> is the 401 response.\<close>

definition current_user :: "auth_lib \<Rightarrow> string option \<Rightarrow> (accounts, User option) act" where
  "current_user L creds = (case creds of None \<Rightarrow> act_return None
     | Some tok \<Rightarrow> (\<lambda>s. case decode_access_token L tok s of (Inl e, s') \<Rightarrow> (if e = jwt_error then (Inr None, s') else (Inl e, s'))
         | (Inr uid, s') \<Rightarrow> get_user_by_id uid s'))"

subsection \<open>Billing\<close>

definition TIER_DAILY_LIMITS :: "string \<Rightarrow> int option" where
  "TIER_DAILY_LIMITS = [''free'' \<mapsto> 50000, ''pro'' \<mapsto> 500000, ''enterprise'' \<mapsto> 10000000]"

definition daily_limit :: "string \<Rightarrow> int" where
  "daily_limit t = (case TIER_DAILY_LIMITS t of Some n \<Rightarrow> n | None \<Rightarrow> 50000)"

definition check_quota :: "string \<Rightarrow> string \<Rightarrow> (accounts, unit) act" where
  "check_quota uid t = act_bind (get_user_by_id uid) (\<lambda>u. case u of None \<Rightarrow> act_return ()
     | Some u \<Rightarrow> if tokens_used_today u \<ge> daily_limit t then act_raise QuotaExceeded else act_return ())"

definition record_usage :: "auth_lib \<Rightarrow> string \<Rightarrow> int \<Rightarrow> string \<Rightarrow> string option \<Rightarrow> (accounts, unit) act" where
  "record_usage L uid tokens model intent = (if tokens \<le> 0 then act_return ()
     else act_then (consume_tokens uid tokens) (create_billing_event (uuid4 L) uid tokens model intent ''intent''))"

definition tier_from_price :: "account_settings \<Rightarrow> string \<Rightarrow> string option" where
  "tier_from_price cfg price = (if price = stripe_price_pro cfg then Some ''pro''
     else if price = stripe_price_enterprise cfg then Some ''enterprise'' else None)"

text \<open>The parts of Stripe's event objects that the handlers read; a missing attribute is \<open>None\<close>.\<close>

record stripe_object =
  client_reference_id :: "string option"
  meta_tier :: "string option"
  customer :: "string option"
  status :: "string option"
  price_ids :: "string option list"

definition filled :: "string option \<Rightarrow> string option" where
  "filled x = (case x of Some v \<Rightarrow> if v = [] then None else Some v | None \<Rightarrow> None)"

definition on_checkout_completed :: "account_settings \<Rightarrow> stripe_object \<Rightarrow> (accounts, unit) act" where
  "on_checkout_completed cfg s = (case (filled (client_reference_id s), filled (meta_tier s)) of
       (Some uid, Some t) \<Rightarrow> act_then (case filled (customer s) of Some c \<Rightarrow> set_stripe_customer_id uid c | None \<Rightarrow> act_return ())
          (update_user_tier cfg uid t)
     | _ \<Rightarrow> act_return ())"

definition on_subscription_deleted :: "account_settings \<Rightarrow> stripe_object \<Rightarrow> (accounts, unit) act" where
  "on_subscription_deleted cfg s = (case filled (customer s) of None \<Rightarrow> act_return ()
     | Some c \<Rightarrow> act_bind (get_user_by_stripe_customer_id c) (\<lambda>u. case u of None \<Rightarrow> act_return ()
         | Some u \<Rightarrow> update_user_tier cfg (id u) ''free''))"

definition on_subscription_updated :: "account_settings \<Rightarrow> stripe_object \<Rightarrow> (accounts, unit) act" where
  "on_subscription_updated cfg s = (case filled (customer s) of None \<Rightarrow> act_return ()
     | Some c \<Rightarrow> if status s \<noteq> Some ''active'' then act_return ()
       else (case price_ids s of [] \<Rightarrow> act_return ()
         | price # _ \<Rightarrow> (case filled price of None \<Rightarrow> act_return ()
            | Some p \<Rightarrow> (case tier_from_price cfg p of None \<Rightarrow> act_return ()
               | Some t \<Rightarrow> act_bind (get_user_by_stripe_customer_id c) (\<lambda>u. case u of None \<Rightarrow> act_return ()
                   | Some u \<Rightarrow> update_user_tier cfg (id u) t)))))"

text \<open>\<open>construct\<close> verifies the signature and parses the payload; it raises \<open>PyValueError\<close> on a bad payload and
  the signature error of the library otherwise. The result is the event type.\<close>

definition signature_error :: exn where "signature_error = ExternalError ''SignatureVerificationError''"

definition handle_webhook_event ::
    "account_settings \<Rightarrow> (string \<Rightarrow> string \<Rightarrow> exn + (string \<times> stripe_object)) \<Rightarrow> string \<Rightarrow> string \<Rightarrow> (accounts, string) act" where
  "handle_webhook_event cfg construct payload sig = (case construct payload sig of
       Inl e \<Rightarrow> act_raise (if e = signature_error then PyPermissionError else e)
     | Inr (ty, obj) \<Rightarrow> act_then
         (if ty = ''checkout.session.completed'' then on_checkout_completed cfg obj
          else if ty = ''customer.subscription.deleted'' then on_subscription_deleted cfg obj
          else if ty = ''customer.subscription.updated'' then on_subscription_updated cfg obj
          else act_return ())
         (act_return ty))"

subsection \<open>What the service does\<close>

text \<open>The operations the routes reach, as they follow one another in time. The quota is reset by
  \<open>reset_daily_budget\<close>, which no route, task or script calls.\<close>

datatype account_op = Pass int | Signup string string | Login string string | Refresh string | Usage string int string "string option"
  | Webhook string string | SetAdmin string bool

definition run_op :: "auth_lib \<Rightarrow> account_settings \<Rightarrow> (string \<Rightarrow> string \<Rightarrow> exn + (string \<times> stripe_object)) \<Rightarrow> account_op \<Rightarrow> accounts \<Rightarrow> accounts" where
  "run_op L cfg construct op s = (case op of
       Pass d \<Rightarrow> s\<lparr>wall := wall s + d\<rparr>
     | Signup em pw \<Rightarrow> snd (signup L cfg em pw s)
     | Login em pw \<Rightarrow> snd (login L cfg em pw s)
     | Refresh raw \<Rightarrow> snd (rotate_refresh_token L cfg raw s)
     | Usage uid n model intent \<Rightarrow> snd (record_usage L uid n model intent s)
     | Webhook payload sig \<Rightarrow> snd (handle_webhook_event cfg construct payload sig s)
     | SetAdmin uid b \<Rightarrow> snd (set_admin uid b s))"

definition run_ops :: "auth_lib \<Rightarrow> account_settings \<Rightarrow> (string \<Rightarrow> string \<Rightarrow> exn + (string \<times> stripe_object)) \<Rightarrow> account_op list \<Rightarrow> accounts \<Rightarrow> accounts" where
  "run_ops L cfg construct ops s = fold (run_op L cfg construct) ops s"

definition empty_accounts :: accounts where
  "empty_accounts = \<lparr>users = [], refresh_tokens = [], billing_events = [], auth_events = [], wall = 0, draws = 0\<rparr>"

subsection \<open>The contract of the tables\<close>

lemma py_lower_char_space: "is_space (py_lower_char c) = is_space c"
proof -
  have "(of_char c :: nat) < 256" by simp
  then show ?thesis by (auto simp: py_lower_char_def is_space_def Let_def)
qed

lemma py_strip_lower: "py_strip (py_lower s) = py_lower (py_strip s)"
proof -
  have d: "dropWhile is_space (py_lower t) = py_lower (dropWhile is_space t)" for t
    by (induction t) (simp_all add: py_lower_def py_lower_char_space)
  have r: "rev (py_lower t) = py_lower (rev t)" for t by (simp add: py_lower_def rev_map)
  show ?thesis unfolding py_strip_def py_lstrip_def py_rstrip_def d r ..
qed

lemma email_lowercase_idem: "email_lowercase v = Inr w \<Longrightarrow> email_lowercase w = Inr w"
  by (auto simp: email_lowercase_def Let_def py_strip_lower split: if_splits)

lemma new_user_email: "new_user L cfg em password s = (Inr u, t) \<Longrightarrow> email_lowercase (email u) = Inr (email u)"
  by (auto simp: new_user_def act_bind_apply draw_def email_lowercase_idem split: sum.splits)

text \<open>The updates of a row: used tokens only grow, a tier comes with its budget, and the identity of a user stays.\<close>

definition row_update :: "string set \<Rightarrow> (user_row \<Rightarrow> user_row) \<Rightarrow> bool" where
  "row_update T f \<longleftrightarrow> (\<forall>r. u_id (f r) = u_id r \<and> u_email (f r) = u_email r \<and> u_password_hash (f r) = u_password_hash r
     \<and> u_used r \<le> u_used (f r) \<and> (u_tier (f r) = u_tier r \<or> u_tier (f r) \<in> T))"

text \<open>A predicate on the tables that every single statement keeps is kept by every operation. \<open>T\<close> are the tiers that
  may be written.\<close>

locale table_contract =
  fixes P :: "accounts \<Rightarrow> bool" and L :: auth_lib and cfg :: account_settings and T :: "string set"
  assumes keeps_clock: "P s \<Longrightarrow> P (s\<lparr>wall := wall s + d\<rparr>)"
    and keeps_draw: "P s \<Longrightarrow> P (s\<lparr>draws := Suc (draws s)\<rparr>)"
    and keeps_create: "email_lowercase (email u) = Inr (email u) \<Longrightarrow> kept P (create_user u)"
    and keeps_update: "row_update T f \<Longrightarrow> kept P (update_user uid f)"
    and keeps_issue: "kept P (create_refresh_token L cfg uid)"
    and keeps_revoke: "kept P (revoke_refresh_token h)"
    and keeps_billing: "P s \<Longrightarrow> P (s\<lparr>billing_events := b\<rparr>)"
    and keeps_log: "P s \<Longrightarrow> P (s\<lparr>auth_events := e\<rparr>)"
    and tiers: "{''free'', ''pro'', ''enterprise''} \<subseteq> T"

begin

lemma kept_draw: "kept P draw"
  by (simp add: kept_def draw_def keeps_draw)

lemma kept_user_ops:
  "0 \<le> n \<Longrightarrow> kept P (consume_tokens uid n)" "kept P (set_admin uid b)" "kept P (set_stripe_customer_id uid c)"
  "t \<in> T \<Longrightarrow> kept P (update_user_tier cfg uid t)"
  unfolding consume_tokens_def set_admin_def set_stripe_customer_id_def update_user_tier_def
  by (intro kept_bind kept_get keeps_update; simp add: row_update_def)+

lemma kept_fetch: "kept P (fetch_user Q)"
  by (simp add: kept_def fetch_user_def split: option.split sum.split)

lemma kept_lookups: "kept P (get_user_by_email em)" "kept P (get_user_by_id uid)" "kept P (get_user_by_stripe_customer_id c)"
  by (simp_all add: get_user_by_email_def get_user_by_id_def get_user_by_stripe_customer_id_def kept_fetch)

lemma kept_log: "kept P (log_auth_event uuid uid kind)"
  unfolding log_auth_event_def by (intro kept_bind kept_draw) (simp add: kept_def keeps_log)

lemma kept_bill: "kept P (create_billing_event uuid uid tokens model intent ty)"
  unfolding create_billing_event_def by (intro kept_if kept_raise kept_bind kept_draw) (simp add: kept_def keeps_billing)

lemma kept_access: "kept P (create_access_token L cfg uid)"
  unfolding create_access_token_def by (rule kept_get)

lemma kept_issue: "kept P (issue L cfg u)"
  unfolding issue_def by (intro kept_bind kept_access keeps_issue kept_return)

lemma kept_new_user: "kept P (new_user L cfg em password)"
  unfolding new_user_def by (intro kept_bind kept_draw kept_get) (simp add: kept_def split: sum.split)

lemma kept_signup: "kept P (signup L cfg em password)"
proof (rule keptI)
  fix s r s' assume s: "P s" and run: "signup L cfg em password s = (r, s')"
  show "P s'"
  proof (cases "length password < 8 \<or> fst (get_user_by_email em s) \<noteq> Inr None")
    case True
    then have "s' = s" using run by (auto simp: signup_def act_bind_apply get_user_by_email_def fetch_user_def split: if_splits option.splits sum.splits prod.splits)
    then show ?thesis using s by simp
  next
    case False
    then have g: "get_user_by_email em s = (Inr None, s)"
      by (auto simp: get_user_by_email_def fetch_user_def split: option.splits sum.splits)
    obtain n t where n: "new_user L cfg em password s = (n, t)" by fastforce
    have t: "P t" by (rule keptD [OF kept_new_user s n])
    show ?thesis
    proof (cases n)
      case (Inl e) then show ?thesis using run False g n t by (simp add: signup_def act_bind_apply)
    next
      case (Inr u0)
      define u where "u = (if py_lower em \<in> py_lower ` set (admin_emails cfg) then u0\<lparr>is_admin := True\<rparr> else u0)"
      have "email_lowercase (email u) = Inr (email u)"
        using new_user_email [OF n [unfolded Inr]] by (simp add: u_def)
      then have k: "kept P (act_then (act_bind (create_user u) (\<lambda>_. act_return ()))
          (act_then (log_auth_event (uuid4 L) (id u) ''auth_signup'') (issue L cfg u)))"
        by (intro kept_then kept_bind keeps_create kept_return kept_log kept_issue)
      have "act_then (act_bind (create_user u) (\<lambda>_. act_return ()))
          (act_then (log_auth_event (uuid4 L) (id u) ''auth_signup'') (issue L cfg u)) t = (r, s')"
        using run False g n Inr by (simp add: signup_def act_bind_apply u_def)
      then show ?thesis by (rule keptD [OF k t])
    qed
  qed
qed

lemma kept_login: "kept P (login L cfg em password)"
  unfolding login_def
  by (intro kept_bind kept_lookups) (auto split: option.split sum.split intro!: kept_then kept_log kept_issue kept_raise)

lemma kept_rotate: "kept P (rotate_refresh_token L cfg raw)"
  unfolding rotate_refresh_token_def get_refresh_token_def
  by (intro kept_bind kept_get) (auto split: option.split intro!: kept_then kept_bind keeps_revoke kept_access keeps_issue kept_return)

lemma kept_usage: "kept P (record_usage L uid n model intent)"
  unfolding record_usage_def by (intro kept_if kept_return kept_then kept_user_ops kept_bill) simp

lemma kept_webhook:
  assumes "\<And>ty ob t. construct payload sig = Inr (ty, ob) \<Longrightarrow> meta_tier ob = Some t \<Longrightarrow> t \<in> T"
  shows "kept P (handle_webhook_event cfg construct payload sig)"
proof -
  have t: "kept P (update_user_tier cfg uid t)" if "t = ''free'' \<or> t = ''pro'' \<or> t = ''enterprise'' \<or> t \<in> T" for uid t
    using that tiers by (intro kept_user_ops) auto
  have c: "kept P (on_checkout_completed cfg ob)" if "\<And>t. meta_tier ob = Some t \<Longrightarrow> t \<in> T" for ob
    unfolding on_checkout_completed_def using that
    by (auto simp: filled_def split: option.split intro!: kept_then kept_user_ops kept_return)
  have d: "kept P (on_subscription_deleted cfg ob)" for ob
    unfolding on_subscription_deleted_def
    by (auto split: option.split intro!: kept_bind kept_lookups kept_return t)
  have u: "kept P (on_subscription_updated cfg ob)" for ob
    unfolding on_subscription_updated_def
    by (auto simp: tier_from_price_def split: option.split list.split intro!: kept_bind kept_lookups kept_return t)
  show ?thesis
  proof (cases "construct payload sig")
    case (Inr x)
    obtain ty ob where x: "x = (ty, ob)" by fastforce
    show ?thesis unfolding handle_webhook_event_def Inr x
      using c [of ob] assms [OF Inr [unfolded x]] d u by (auto intro!: kept_then kept_return)
  qed (auto simp: handle_webhook_event_def)
qed

lemma run_op_kept:
  assumes "P s" "\<And>payload sig ty ob t. construct payload sig = Inr (ty, ob) \<Longrightarrow> meta_tier ob = Some t \<Longrightarrow> t \<in> T"
  shows "P (run_op L cfg construct op s)"
proof -
  have k: "kept P m \<Longrightarrow> P (snd (m s))" for m :: "(accounts, 'b) act" using assms(1) by (simp add: kept_def)
  show ?thesis
    by (cases op) (simp_all add: run_op_def keeps_clock assms k kept_signup kept_login kept_rotate kept_usage kept_user_ops kept_webhook)
qed

lemma run_ops_kept:
  assumes "P s" "\<And>payload sig ty ob t. construct payload sig = Inr (ty, ob) \<Longrightarrow> meta_tier ob = Some t \<Longrightarrow> t \<in> T"
  shows "P (run_ops L cfg construct ops s)"
  using assms(1)
proof (induction ops arbitrary: s)
  case (Cons op ops)
  then show ?case using run_op_kept [OF Cons.prems assms(2)] by (simp add: run_ops_def)
qed (simp add: run_ops_def)

end

subsection \<open>Three predicates with the contract\<close>

text \<open>\<open>grown s t\<close>: between \<open>s\<close> and \<open>t\<close> no user disappears or changes its id, e-mail or password, and no counter of
  used tokens goes down.\<close>

definition kept_row :: "user_row \<Rightarrow> user_row \<Rightarrow> bool" where
  "kept_row r q \<longleftrightarrow> u_id q = u_id r \<and> u_email q = u_email r \<and> u_password_hash q = u_password_hash r \<and> u_used r \<le> u_used q"

definition grown :: "accounts \<Rightarrow> accounts \<Rightarrow> bool" where
  "grown s t \<longleftrightarrow> length (users s) \<le> length (users t) \<and> (\<forall>i < length (users s). kept_row (users s ! i) (users t ! i))"

lemma grown_refl [simp]: "grown s s"
  by (simp add: grown_def kept_row_def)

lemma grown_update: "row_update T f \<Longrightarrow> kept (grown s0) (update_user uid f)"
  by (auto simp: kept_def update_user_def grown_def row_update_def kept_row_def intro: order_trans)

lemma issue_apply: "create_refresh_token L cfg uid s =
    (case save_refresh_token (uuid4 L (Suc (draws s))) uid (sha256_hex L (token_urlsafe L (draws s)))
       (wall s + refresh_token_expire_days cfg * 86400) (s\<lparr>draws := Suc (Suc (draws s))\<rparr>) of
       (Inl e, t) \<Rightarrow> (Inl e, t) | (Inr _, t) \<Rightarrow> (Inr (token_urlsafe L (draws s)), t))"
  by (simp add: create_refresh_token_def act_simps draw_def Let_def split: prod.split sum.split)

lemma create_refresh_users [simp]: "users (snd (create_refresh_token L cfg uid s)) = users s"
  by (simp add: issue_apply save_refresh_token_def)

interpretation grown: table_contract "grown s0" L cfg UNIV for s0 L cfg
proof unfold_locales
  show "kept (grown s0) (create_user u)" for u :: User
    by (auto simp: kept_def create_user_def grown_def nth_append)
  show "row_update UNIV f \<Longrightarrow> kept (grown s0) (update_user uid f)" for f uid by (rule grown_update)
  show "kept (grown s0) (create_refresh_token L cfg uid)" for uid by (simp add: kept_def grown_def)
  show "kept (grown s0) (revoke_refresh_token h)" for h by (simp add: kept_def grown_def revoke_refresh_token_def)
qed (simp_all add: grown_def)

text \<open>\<open>spent k\<close>: the token of draw \<open>k\<close> was issued and is not in the table.\<close>

definition fresh_tokens :: "auth_lib \<Rightarrow> bool" where
  "fresh_tokens L \<longleftrightarrow> (\<forall>m n. sha256_hex L (token_urlsafe L m) = sha256_hex L (token_urlsafe L n) \<longrightarrow> m = n)"

definition spent :: "auth_lib \<Rightarrow> nat \<Rightarrow> accounts \<Rightarrow> bool" where
  "spent L k s \<longleftrightarrow> fresh_tokens L \<and> k < draws s \<and> (\<forall>t \<in> set (refresh_tokens s). rt_hash t \<noteq> sha256_hex L (token_urlsafe L k))"

interpretation spent: table_contract "spent L k" L cfg UNIV for L k cfg
proof unfold_locales
  show "kept (spent L k) (create_refresh_token L cfg uid)" for uid
    unfolding kept_def issue_apply save_refresh_token_def
    by (auto simp: spent_def fresh_tokens_def split: if_splits)
  show "kept (spent L k) (revoke_refresh_token h)" for h by (auto simp: kept_def spent_def revoke_refresh_token_def)
qed (auto simp: spent_def kept_def create_user_def update_user_def)

text \<open>\<open>issued\<close>: every token in the table was drawn.\<close>

definition issued :: "auth_lib \<Rightarrow> accounts \<Rightarrow> bool" where
  "issued L s \<longleftrightarrow> (\<forall>t \<in> set (refresh_tokens s). \<exists>n < draws s. rt_hash t = sha256_hex L (token_urlsafe L n))"

lemma issued_more: "issued L s \<Longrightarrow> refresh_tokens t = refresh_tokens s \<Longrightarrow> draws s \<le> draws t \<Longrightarrow> issued L t"
  unfolding issued_def by (metis order_less_le_trans)

lemma issued_save:
  assumes "issued L s" "n < draws s"
  shows "issued L (snd (save_refresh_token tid uid (sha256_hex L (token_urlsafe L n)) expires s))"
  using assms by (auto simp: save_refresh_token_def issued_def)

interpretation issued: table_contract "issued L" L cfg UNIV for L cfg
proof unfold_locales
  show "kept (issued L) (create_refresh_token L cfg uid)" for uid
    unfolding kept_def issue_apply
  proof (intro allI impI)
    fix s assume "issued L s"
    then have "issued L (s\<lparr>draws := Suc (Suc (draws s))\<rparr>)" by (rule issued_more) simp_all
    then have "issued L (snd (save_refresh_token (uuid4 L (Suc (draws s))) uid (sha256_hex L (token_urlsafe L (draws s)))
       (wall s + refresh_token_expire_days cfg * 86400) (s\<lparr>draws := Suc (Suc (draws s))\<rparr>)))"
      by (rule issued_save) simp
    then show "issued L (snd (case save_refresh_token (uuid4 L (Suc (draws s))) uid (sha256_hex L (token_urlsafe L (draws s)))
       (wall s + refresh_token_expire_days cfg * 86400) (s\<lparr>draws := Suc (Suc (draws s))\<rparr>) of
       (Inl e, t) \<Rightarrow> (Inl e, t) | (Inr _, t) \<Rightarrow> (Inr (token_urlsafe L (draws s)), t)))"
      by (simp add: case_prod_unfold sum.case_eq_if)
  qed
  show "kept (issued L) (revoke_refresh_token h)" for h by (auto simp: kept_def issued_def revoke_refresh_token_def)
  show "issued L s \<Longrightarrow> issued L (s\<lparr>draws := Suc (draws s)\<rparr>)" for s :: accounts
    by (erule issued_more) (simp_all add: le_Suc_eq)
qed (auto simp: issued_def kept_def create_user_def update_user_def)

text \<open>The tables are well typed: every row of \<open>users\<close> is one that \<open>User\<close> accepts unchanged, keys are keys, and
  every token has an owner.\<close>

definition accounts_typed :: "accounts \<Rightarrow> bool" where
  "accounts_typed s \<longleftrightarrow> (\<forall>r \<in> set (users s). email_lowercase (u_email r) = Inr (u_email r) \<and> tier_of (u_tier r) \<noteq> None)
     \<and> distinct (map u_id (users s)) \<and> distinct (map u_email (users s)) \<and> distinct (map rt_hash (refresh_tokens s))
     \<and> (\<forall>t \<in> set (refresh_tokens s). \<exists>r \<in> set (users s). u_id r = rt_user t)"

definition valid_tiers :: "string set" where "valid_tiers = {''free'', ''pro'', ''enterprise''}"

lemma valid_tiers: "t \<in> valid_tiers \<longleftrightarrow> tier_of t \<noteq> None"
  by (auto simp: valid_tiers_def tier_of_def)

lemma typed_update:
  assumes "row_update valid_tiers f"
  shows "kept accounts_typed (update_user uid f)"
  unfolding kept_def
proof (intro allI impI)
  fix s assume s: "accounts_typed s"
  let ?g = "\<lambda>r. if u_id r = uid then f r else r"
  have same: "u_id (f r) = u_id r" "u_email (f r) = u_email r" "tier_of (u_tier r) \<noteq> None \<Longrightarrow> tier_of (u_tier (f r)) \<noteq> None" for r
    using assms unfolding row_update_def valid_tiers by (metis, metis, metis)
  have keys: "map u_id (map ?g (users s)) = map u_id (users s)" "map u_email (map ?g (users s)) = map u_email (users s)"
    by (simp_all add: same)
  have u: "users (snd (update_user uid f s)) = map ?g (users s)" "refresh_tokens (snd (update_user uid f s)) = refresh_tokens s"
    by (simp_all add: update_user_def)
  have rows: "\<forall>r \<in> set (map ?g (users s)). email_lowercase (u_email r) = Inr (u_email r) \<and> tier_of (u_tier r) \<noteq> None"
    using s same by (auto simp: accounts_typed_def)
  have owners: "\<forall>t \<in> set (refresh_tokens s). \<exists>r \<in> set (map ?g (users s)). u_id r = rt_user t"
  proof
    fix t assume "t \<in> set (refresh_tokens s)"
    then obtain r where "r \<in> set (users s)" "u_id r = rt_user t" using s by (auto simp: accounts_typed_def)
    then show "\<exists>r \<in> set (map ?g (users s)). u_id r = rt_user t" using same by (intro bexI [of _ "?g r"]) auto
  qed
  show "accounts_typed (snd (update_user uid f s))"
    unfolding accounts_typed_def u keys using s rows owners by (auto simp: accounts_typed_def)
qed

interpretation typed: table_contract accounts_typed L cfg valid_tiers for L cfg
proof unfold_locales
  show "email_lowercase (email u) = Inr (email u) \<Longrightarrow> kept accounts_typed (create_user u)" for u :: User
    by (auto simp: kept_def create_user_def accounts_typed_def list_ex_iff)
  show "row_update valid_tiers f \<Longrightarrow> kept accounts_typed (update_user uid f)" for f uid by (rule typed_update)
  show "kept accounts_typed (create_refresh_token L cfg uid)" for uid
    unfolding kept_def issue_apply save_refresh_token_def
    by (auto simp: accounts_typed_def list_ex_iff split: if_splits)
  show "kept accounts_typed (revoke_refresh_token h)" for h
    by (auto simp: kept_def accounts_typed_def revoke_refresh_token_def distinct_map_filter)
qed (simp_all add: accounts_typed_def valid_tiers_def)

subsection \<open>Finding a user again\<close>

lemma find_map_cong: "(\<And>x. x \<in> set xs \<Longrightarrow> P x = Q x) \<Longrightarrow> find P xs = find Q xs"
  by (induction xs) auto

lemma find_SomeD: "find Q xs = Some x \<Longrightarrow> Q x \<and> x \<in> set xs"
  by (auto simp: find_Some_iff)

lemma grown_find:
  assumes "grown s t" "find (\<lambda>r. u_id r = uid) (users s) = Some r"
  shows "\<exists>q. find (\<lambda>r. u_id r = uid) (users t) = Some q \<and> kept_row r q"
proof -
  obtain i where i: "i < length (users s)" "u_id (users s ! i) = uid" "r = users s ! i" "\<forall>j < i. u_id (users s ! j) \<noteq> uid"
    using assms(2) by (auto simp: find_Some_iff)
  have t: "length (users s) \<le> length (users t)" "\<And>j. j < length (users s) \<Longrightarrow> kept_row (users s ! j) (users t ! j)"
    using assms(1) by (auto simp: grown_def)
  have "find (\<lambda>r. u_id r = uid) (users t) = Some (users t ! i)"
    unfolding find_Some_iff using i t by (intro exI [of _ i]) (auto simp: kept_row_def)
  then show ?thesis using t(2) [OF i(1)] i(3) by blast
qed

lemma get_by_id_cases:
  "get_user_by_id uid s = (case find (\<lambda>r. u_id r = uid) (users s) of None \<Rightarrow> (Inr None, s)
     | Some r \<Rightarrow> (case row_to_user r of Inl e \<Rightarrow> (Inl e, s) | Inr u \<Rightarrow> (Inr (Some u), s)))"
  by (simp add: get_user_by_id_def fetch_user_def)

lemma row_to_user_typed:
  assumes "accounts_typed s" "r \<in> set (users s)"
  shows "\<exists>u. row_to_user r = Inr u \<and> id u = u_id r \<and> email u = u_email r \<and> tier_value (tier u) = u_tier r \<and> password_hash u = u_password_hash r
     \<and> is_admin u = u_admin r \<and> tokens_used_today u = u_used r"
proof -
  obtain t where "tier_of (u_tier r) = Some t" "email_lowercase (u_email r) = Inr (u_email r)"
    using assms by (auto simp: accounts_typed_def)
  then show ?thesis by (simp add: row_to_user_def tier_of_Some)
qed

lemma row_to_user_used: "row_to_user r = Inr u \<Longrightarrow> tokens_used_today u = u_used r \<and> id u = u_id r"
  by (auto simp: row_to_user_def split: sum.splits option.splits)

subsection \<open>Sessions\<close>

definition jwt_laws :: "auth_lib \<Rightarrow> bool" where
  "jwt_laws L \<longleftrightarrow> (\<forall>c now. jwt_decode L now (jwt_encode L c) = (if now \<le> exp c then Inr c else Inl jwt_error))"

lemma fetch_found: "fetch_user Q s = (Inr (Some u), s') \<Longrightarrow> s' = s \<and> (\<exists>r \<in> set (users s). Q r \<and> row_to_user r = Inr u)"
  unfolding fetch_user_def by (auto split: option.splits sum.splits dest: find_Some_iff [THEN iffD1] simp: find_Some_iff)

lemma log_wall: "log_auth_event uuid uid kind s = (r, t) \<Longrightarrow> wall t = wall s \<and> users t = users s \<and> refresh_tokens t = refresh_tokens s"
  by (auto simp: log_auth_event_def act_simps draw_def split: if_splits)

lemma issue_result:
  assumes "issue L cfg u s = (Inr (v, access, refresh), t)"
  shows "v = u \<and> access = jwt_encode L \<lparr>sub = id u, iat = wall s, exp = wall s + access_token_expire_minutes cfg * 60, token_type = ''access''\<rparr>
     \<and> wall t = wall s \<and> users t = users s"
  using assms
  by (auto simp: issue_def create_access_token_def act_simps issue_apply save_refresh_token_def split: sum.splits prod.splits if_splits)

lemma login_result:
  assumes "login L cfg em password s = (Inr (u, access, refresh), t)"
  shows "(\<exists>r \<in> set (users s). u_email r = py_lower em \<and> row_to_user r = Inr u) \<and> checkpw L password (password_hash u) = Inr True
     \<and> access = jwt_encode L \<lparr>sub = id u, iat = wall s, exp = wall s + access_token_expire_minutes cfg * 60, token_type = ''access''\<rparr>
     \<and> wall t = wall s \<and> users t = users s"
proof -
  obtain u' where 1: "get_user_by_email em s = (Inr (Some u'), s)"
    using assms by (auto simp: login_def act_bind_apply get_user_by_email_def fetch_user_def split: option.splits sum.splits prod.splits)
  have c: "checkpw L password (password_hash u') = Inr True"
    using assms 1 by (auto simp: login_def act_bind_apply split: sum.splits if_splits)
  obtain s1 where 2: "log_auth_event (uuid4 L) (id u') ''auth_login'' s = (Inr (), s1)" "issue L cfg u' s1 = (Inr (u, access, refresh), t)"
    using assms 1 c by (auto simp: login_def act_bind_apply act_then_apply split: sum.splits prod.splits)
  show ?thesis
    using fetch_found [OF 1 [unfolded get_user_by_email_def]] c log_wall [OF 2(1)] issue_result [OF 2(2)] by auto
qed

subsection \<open>A small library\<close>

definition claims_text :: "claims \<Rightarrow> string" where
  "claims_text c = dumps (CHR '','' # []) (CHR '':'' # []) (JList [JStr (sub c), JInt (iat c), JInt (exp c), JStr (token_type c)])"

definition claims_of :: "string \<Rightarrow> claims option" where
  "claims_of x = (case loads x of Some (JList [JStr u, JInt i, JInt e, JStr ty]) \<Rightarrow> Some \<lparr>sub = u, iat = i, exp = e, token_type = ty\<rparr> | _ \<Rightarrow> None)"

lemma claims_roundtrip: "claims_of (claims_text c) = Some c"
  unfolding claims_of_def claims_text_def by (subst loads_dumps) (simp_all add: blanks_def)

definition toy_lib :: auth_lib where
  "toy_lib = \<lparr>hashpw = (\<lambda>p n. Inr (CHR ''h'' # p)), checkpw = (\<lambda>p h. Inr (h = CHR ''h'' # p)), jwt_encode = claims_text,
     jwt_decode = (\<lambda>now x. case claims_of x of None \<Rightarrow> Inl jwt_error | Some c \<Rightarrow> if now \<le> exp c then Inr c else Inl jwt_error),
     sha256_hex = (\<lambda>x. CHR ''s'' # x), uuid4 = (\<lambda>n. CHR ''u'' # show_nat n), token_urlsafe = (\<lambda>n. CHR ''t'' # show_nat n)\<rparr>"

lemma show_nat_inj: "show_nat m = show_nat n \<longleftrightarrow> m = n"
  using show_nat_digits by metis

lemma toy_laws: "jwt_laws toy_lib" "fresh_tokens toy_lib"
  by (simp_all add: jwt_laws_def fresh_tokens_def toy_lib_def claims_roundtrip show_nat_inj)

definition toy_settings :: account_settings where
  "toy_settings = \<lparr>free_tier_daily_tokens = 50000, pro_tier_daily_tokens = 500000, enterprise_tier_daily_tokens = 10000000,
     access_token_expire_minutes = 15, refresh_token_expire_days = 7, admin_emails = [], stripe_price_pro = ''pp'', stripe_price_enterprise = ''pe''\<rparr>"

definition toy_email :: string where "toy_email = ''ann@ex.org''"
definition toy_password :: string where "toy_password = ''password''"

lemma toy_email_ok: "py_lower toy_email = toy_email" "email_lowercase toy_email = Inr toy_email" "toy_email \<noteq> []"
  unfolding toy_email_def by code_simp+

definition toy_signed :: accounts where
  "toy_signed = snd (signup toy_lib toy_settings toy_email toy_password empty_accounts)"

lemma toy_length: "length toy_password = 8" by (simp add: toy_password_def)

lemmas toy_run_defs = signup_def login_def act_simps get_user_by_email_def fetch_user_def new_user_def draw_def create_user_def log_auth_event_def
  issue_def create_access_token_def issue_apply save_refresh_token_def toy_email_ok toy_length show_nat_inj

lemma toy_signup: "\<exists>u access. signup toy_lib toy_settings toy_email toy_password empty_accounts = (Inr (u, access, CHR ''t'' # show_nat 3), toy_signed)"
  unfolding toy_signed_def by (simp add: toy_run_defs empty_accounts_def toy_lib_def toy_settings_def)

definition toy_row :: user_row where
  "toy_row = \<lparr>u_id = CHR ''u'' # show_nat 1, u_email = toy_email, u_password_hash = CHR ''h'' # toy_password, u_tier = ''free'', u_budget = 50000,
     u_used = 0, u_reset_date = [], u_admin = False, u_stripe = None, u_created = 0, u_updated = 0\<rparr>"

lemma toy_signed_state: "users toy_signed = [toy_row]" "wall toy_signed = 0" "draws toy_signed = 5"
  "refresh_tokens toy_signed = [\<lparr>rt_id = CHR ''u'' # show_nat 4, rt_user = CHR ''u'' # show_nat 1, rt_hash = CHR ''s'' # CHR ''t'' # show_nat 3, rt_expires = 604800\<rparr>]"
  "auth_events toy_signed = [\<lparr>ev_id = CHR ''u'' # show_nat 2, ev_user = CHR ''u'' # show_nat 1, ev_kind = ''auth_signup''\<rparr>]"
  unfolding toy_signed_def toy_row_def by (simp_all add: toy_run_defs empty_accounts_def toy_lib_def toy_settings_def)

definition toy_login :: accounts where "toy_login = snd (login toy_lib toy_settings toy_email toy_password toy_signed)"

lemma toy_login: "\<exists>u access refresh. login toy_lib toy_settings toy_email toy_password toy_signed = (Inr (u, access, refresh), toy_login) \<and> id u = CHR ''u'' # show_nat 1"
  unfolding toy_login_def
  by (simp add: toy_run_defs toy_signed_state toy_row_def row_to_user_def tier_of_def toy_lib_def toy_settings_def)

text \<open>A webhook that Stripe signed, of a checkout session whose metadata name the tier in the payload.\<close>

definition toy_construct :: "string \<Rightarrow> string \<Rightarrow> exn + (string \<times> stripe_object)" where
  "toy_construct payload sig = Inr (''checkout.session.completed'',
     \<lparr>client_reference_id = Some (CHR ''u'' # show_nat 1), meta_tier = Some payload, customer = None, status = None, price_ids = []\<rparr>)"

subsection \<open>Properties\<close>

text \<open>C22: the tables stay well typed: after any sequence of sign-ups, log-ins, refreshes, usage records, webhooks and
  admin changes, as long as Stripe only names the three tiers, every stored user is one the model accepts and reads
  back with the same id, e-mail and tier, ids, e-mails and token hashes are unique and every refresh token belongs
  to a stored user.\<close>
theorem accounts_stay_typed:
  assumes "\<forall>payload sig ty ob t. construct payload sig = Inr (ty, ob) \<and> meta_tier ob = Some t \<longrightarrow> tier_of t \<noteq> None"
  shows "accounts_typed (run_ops L cfg construct ops empty_accounts) \<and>
    (\<forall>r \<in> set (users (run_ops L cfg construct ops empty_accounts)).
       \<exists>u. row_to_user r = Inr u \<and> id u = u_id r \<and> email u = u_email r \<and> tier_value (tier u) = u_tier r)"
proof -
  have t: "t \<in> valid_tiers" if "construct payload sig = Inr (ty, ob)" "meta_tier ob = Some t" for payload sig ty ob t
    using assms that valid_tiers by blast
  have "accounts_typed (run_ops L cfg construct ops empty_accounts)"
    by (rule typed.run_ops_kept [OF _ t]) (simp_all add: accounts_typed_def empty_accounts_def)
  then show ?thesis using row_to_user_typed by blast
qed

theorem accounts_stay_typed_witness:
  "accounts_typed (run_ops toy_lib toy_settings (\<lambda>_. toy_construct ''pro'') [Signup toy_email toy_password, Webhook [] []] empty_accounts)"
  using accounts_stay_typed [of "\<lambda>_. toy_construct ''pro''" toy_lib toy_settings "[Signup toy_email toy_password, Webhook [] []]"]
  by (simp add: toy_construct_def tier_of_def)

text \<open>the access token of a log-in stands for the user who logged in: whatever happens on the service afterwards,
  until it expires the dependency of the routes resolves it to the same user, and from then on it answers 401.\<close>
theorem session_roundtrip:
  fixes ops :: "account_op list"
  assumes "jwt_laws L" "accounts_typed s" "login L cfg em password s = (Inr (u, access, refresh), s')"
    "\<forall>payload sig ty ob t. construct payload sig = Inr (ty, ob) \<and> meta_tier ob = Some t \<longrightarrow> tier_of t \<noteq> None"
  defines "t \<equiv> run_ops L cfg construct ops s'"
  shows "if wall t \<le> wall s + access_token_expire_minutes cfg * 60
     then \<exists>v. current_user L (Some access) t = (Inr (Some v), t) \<and> id v = id u \<and> email v = email u
     else current_user L (Some access) t = (Inr None, t)"
proof -
  obtain r where r: "r \<in> set (users s)" "row_to_user r = Inr u"
    and access: "access = jwt_encode L \<lparr>sub = id u, iat = wall s, exp = wall s + access_token_expire_minutes cfg * 60, token_type = ''access''\<rparr>"
    and s': "users s' = users s"
    using login_result [OF assms(3)] by blast
  have ty: "x \<in> valid_tiers" if "construct payload sig = Inr (ty, ob)" "meta_tier ob = Some x" for payload sig ty ob x
    using assms(4) that valid_tiers by blast
  have ts': "accounts_typed s'" using keptD [OF typed.kept_login assms(2,3)] .
  have typed: "accounts_typed t" unfolding t_def by (rule typed.run_ops_kept [OF ts' ty])
  have grown: "grown s' t" unfolding t_def by (rule grown.run_ops_kept) simp_all
  have idu: "id u = u_id r" "email u = u_email r" using row_to_user_typed [OF assms(2) r(1)] r(2) by auto
  obtain q where q: "find (\<lambda>x. u_id x = id u) (users s') = Some q" "u_id q = id u" "q \<in> set (users s)"
  proof (cases "find (\<lambda>x. u_id x = id u) (users s')")
    case None then show thesis using r(1) s' idu(1) by (auto simp: find_None_iff)
  next
    case (Some q) then show thesis using that find_SomeD [OF Some] s' by auto
  qed
  have "distinct (map u_id (users s))" using assms(2) by (simp add: accounts_typed_def)
  then have qr: "q = r" using q(2,3) r(1) idu(1) by (auto simp: distinct_map inj_on_def)
  obtain p where p: "find (\<lambda>x. u_id x = id u) (users t) = Some p" "kept_row q p" using grown_find [OF grown q(1)] by blast
  have "p \<in> set (users t)" using p(1) by (auto simp: find_Some_iff)
  then obtain v where v: "row_to_user p = Inr v" "id v = u_id p" "email v = u_email p" using row_to_user_typed [OF typed] by blast
  have g: "get_user_by_id (id u) t = (Inr (Some v), t)" using p(1) v(1) by (simp add: get_by_id_cases)
  show ?thesis
    using assms(1) g v p(2) q(2) qr idu unfolding access
    by (auto simp: current_user_def decode_access_token_def jwt_laws_def kept_row_def jwt_error_def)
qed

theorem session_roundtrip_witness:
  "\<exists>access v. current_user toy_lib (Some access) (toy_login\<lparr>wall := wall toy_login + 900\<rparr>) = (Inr (Some v), toy_login\<lparr>wall := wall toy_login + 900\<rparr>)
     \<and> id v = CHR ''u'' # show_nat 1"
proof -
  obtain u access refresh where l: "login toy_lib toy_settings toy_email toy_password toy_signed = (Inr (u, access, refresh), toy_login)"
    "id u = CHR ''u'' # show_nat 1" using toy_login by blast
  have ty: "accounts_typed toy_signed"
    by (simp add: accounts_typed_def toy_signed_state toy_row_def toy_email_ok tier_of_def)
  have m: "access_token_expire_minutes toy_settings = 15" by (simp add: toy_settings_def)
  have w: "wall toy_login = 0" using login_result [OF l(1)] by (simp add: toy_signed_state)
  have r: "run_ops toy_lib toy_settings (\<lambda>_. toy_construct ''pro'') [Pass 900] toy_login = toy_login\<lparr>wall := wall toy_login + 900\<rparr>"
    by (simp add: run_ops_def run_op_def)
  have "\<exists>v. current_user toy_lib (Some access) (toy_login\<lparr>wall := wall toy_login + 900\<rparr>) = (Inr (Some v), toy_login\<lparr>wall := wall toy_login + 900\<rparr>) \<and> id v = id u \<and> email v = email u"
    using session_roundtrip [OF toy_laws(1) ty l(1), of "\<lambda>_. toy_construct ''pro''" "[Pass 900]"]
    by (simp add: r w m toy_signed_state toy_construct_def tier_of_def)
  then show ?thesis using l(2) by auto
qed

text \<open>C8: a refresh token works once: when a token has been exchanged in a reachable state, exchanging it again fails
  for ever after, whatever the service does in between.\<close>
theorem refresh_single_use:
  assumes "fresh_tokens L" "rotate_refresh_token L cfg raw (run_ops L cfg construct ops empty_accounts) = (Inr (Some p), s')"
  shows "fst (rotate_refresh_token L cfg raw (run_ops L cfg construct later s')) = Inr None"
proof -
  let ?s = "run_ops L cfg construct ops empty_accounts"
  have iss: "issued L ?s" by (rule issued.run_ops_kept) (simp_all add: issued_def empty_accounts_def)
  have "\<exists>t \<in> set (refresh_tokens ?s). rt_hash t = sha256_hex L raw"
    using assms(2) by (auto simp: rotate_refresh_token_def get_refresh_token_def act_bind_apply find_Some_iff split: option.splits)
  then obtain k where k: "k < draws ?s" "sha256_hex L raw = sha256_hex L (token_urlsafe L k)" using iss by (auto simp: issued_def)
  obtain t where row: "find (\<lambda>t. rt_hash t = sha256_hex L raw \<and> rt_expires t > wall ?s) (refresh_tokens ?s) = Some t"
    using assms(2) by (auto simp: rotate_refresh_token_def get_refresh_token_def act_bind_apply split: option.splits)
  have run: "act_then (revoke_refresh_token (sha256_hex L raw)) (act_bind (create_access_token L cfg (rt_user t)) (\<lambda>access.
          act_bind (create_refresh_token L cfg (rt_user t)) (\<lambda>refresh. act_return (Some (access, refresh))))) ?s = (Inr (Some p), s')"
    using assms(2) row by (simp add: rotate_refresh_token_def get_refresh_token_def act_bind_apply)
  let ?r = "snd (revoke_refresh_token (sha256_hex L raw) ?s)"
  have a: "spent L k ?r" using k assms(1) by (auto simp: spent_def revoke_refresh_token_def)
  have b: "act_bind (create_access_token L cfg (rt_user t)) (\<lambda>access.
          act_bind (create_refresh_token L cfg (rt_user t)) (\<lambda>refresh. act_return (Some (access, refresh)))) ?r = (Inr (Some p), s')"
    using run by (simp add: act_then_apply revoke_refresh_token_def)
  have c: "kept (spent L k) (act_bind (create_access_token L cfg (rt_user t)) (\<lambda>access.
          act_bind (create_refresh_token L cfg (rt_user t)) (\<lambda>refresh. act_return (Some (access, refresh)))))"
    by (intro kept_bind spent.kept_access spent.keeps_issue kept_return)
  have "spent L k s'" by (rule keptD [OF c a b])
  then have "spent L k (run_ops L cfg construct later s')" by (rule spent.run_ops_kept) simp
  then have "get_refresh_token (sha256_hex L raw) (run_ops L cfg construct later s') = (Inr None, run_ops L cfg construct later s')"
    using k(2) by (auto simp: get_refresh_token_def spent_def find_None_iff)
  then show ?thesis by (simp add: rotate_refresh_token_def act_bind_apply)
qed

theorem refresh_single_use_witness:
  "\<exists>p s'. rotate_refresh_token toy_lib toy_settings (CHR ''t'' # show_nat 3) toy_signed = (Inr (Some p), s') \<and>
     fst (rotate_refresh_token toy_lib toy_settings (CHR ''t'' # show_nat 3) s') = Inr None"
proof -
  have s: "run_ops toy_lib toy_settings toy_construct [Signup toy_email toy_password] empty_accounts = toy_signed"
    by (simp add: run_ops_def run_op_def toy_signed_def)
  obtain p s' where r: "rotate_refresh_token toy_lib toy_settings (CHR ''t'' # show_nat 3) toy_signed = (Inr (Some p), s')"
    by (simp add: rotate_refresh_token_def get_refresh_token_def revoke_refresh_token_def toy_run_defs toy_signed_state toy_row_def toy_lib_def toy_settings_def)
  show ?thesis using refresh_single_use [OF toy_laws(2) r [folded s], of "[]"] r by (auto simp: run_ops_def)
qed

text \<open>the daily quota is never renewed: the only code that sets the counter of used tokens back is called by
  nothing, so a user who has once been refused for the quota of a tier is refused for it for ever, whatever the
  service does and however many days pass.\<close>
theorem quota_never_resets:
  assumes "fst (check_quota uid plan s) = Inl QuotaExceeded"
  shows "fst (check_quota uid plan (run_ops L cfg construct ops s)) \<noteq> Inr ()"
proof -
  let ?t = "run_ops L cfg construct ops s"
  obtain r u where r: "find (\<lambda>x. u_id x = uid) (users s) = Some r" "row_to_user r = Inr u" "tokens_used_today u \<ge> daily_limit plan"
    using assms by (auto simp: check_quota_def act_bind_apply get_by_id_cases row_to_user_def Let_def email_lowercase_def
        split: option.splits sum.splits if_splits)
  have "grown s ?t" by (rule grown.run_ops_kept) simp_all
  then obtain q where q: "find (\<lambda>x. u_id x = uid) (users ?t) = Some q" "kept_row r q" using grown_find r(1) by blast
  then have "u_used q \<ge> daily_limit plan" using r row_to_user_used by (fastforce simp: kept_row_def)
  then show ?thesis using q(1) row_to_user_used [of q]
    by (auto simp: check_quota_def act_bind_apply get_by_id_cases split: sum.splits)
qed

definition spent_up :: accounts where
  "spent_up = toy_signed\<lparr>users := [toy_row\<lparr>u_used := 50000\<rparr>]\<rparr>"

theorem quota_never_resets_witness:
  "fst (check_quota (CHR ''u'' # show_nat 1) ''free'' (run_ops toy_lib toy_settings toy_construct [Pass 8640000] spent_up)) \<noteq> Inr ()"
proof -
  have "fst (check_quota (CHR ''u'' # show_nat 1) ''free'' spent_up) = Inl QuotaExceeded"
    by (simp add: check_quota_def act_bind_apply get_by_id_cases spent_up_def toy_row_def row_to_user_def toy_email_ok tier_of_def
        daily_limit_def TIER_DAILY_LIMITS_def)
  then show ?thesis by (rule quota_never_resets)
qed

text \<open>a checkout webhook writes whatever tier its metadata name; with one that is not among the three, the user's
  row is written but can no longer be read, so that the log-in fails with a validation error that no route handles
  and every authenticated request of the user fails the same way.\<close>
theorem unknown_tier_locks_out:
  fixes cfg :: account_settings
  assumes "accounts_typed s" "r \<in> set (users s)" "u_id r \<noteq> []" "tier_of t = None" "t \<noteq> []"
    "construct payload sig = Inr (''checkout.session.completed'', ob)" "client_reference_id ob = Some (u_id r)" "meta_tier ob = Some t"
    "customer ob = None"
  defines "s' \<equiv> snd (handle_webhook_event cfg construct payload sig s)"
  shows "fst (handle_webhook_event cfg construct payload sig s) = Inr ''checkout.session.completed'' \<and>
    fst (login L cfg (u_email r) password s') = Inl PyValueError \<and> fst (get_user_by_id (u_id r) s') = Inl PyValueError"
proof -
  let ?f = "\<lambda>q. q\<lparr>u_tier := t, u_budget := tier_budget cfg t, u_updated := wall s\<rparr>"
  have run: "handle_webhook_event cfg construct payload sig s = (Inr ''checkout.session.completed'',
      s\<lparr>users := map (\<lambda>q. if u_id q = u_id r then ?f q else q) (users s)\<rparr>)"
    using assms(3,5-9) by (simp add: handle_webhook_event_def on_checkout_completed_def filled_def update_user_tier_def update_user_def act_simps)
  have s': "users s' = map (\<lambda>q. if u_id q = u_id r then ?f q else q) (users s)" using run by (simp add: s'_def)
  have keys: "distinct (map u_id (users s))" "distinct (map u_email (users s))" and em: "email_lowercase (u_email r) = Inr (u_email r)"
    using assms(1,2) by (auto simp: accounts_typed_def)
  have low: "py_lower (u_email r) = u_email r"
  proof -
    have "py_lower (py_strip (u_email r)) = u_email r" using em by (simp add: email_lowercase_def Let_def split: if_splits)
    then show ?thesis by (metis py_lower_idem)
  qed
  have bad: "row_to_user (?f r) = Inl PyValueError" using em assms(4) by (simp add: row_to_user_def)
  obtain i where i: "i < length (users s)" "users s ! i = r" using assms(2) by (auto simp: in_set_conv_nth)
  have first: "find Q (users s') = Some (?f r)" if Q: "Q (?f r)" "\<And>q. q \<in> set (users s) \<Longrightarrow> q \<noteq> r \<Longrightarrow> u_id q \<noteq> u_id r \<Longrightarrow> \<not> Q q" for Q
  proof -
    have "\<not> Q (users s' ! j)" if j: "j < i" for j
    proof -
      have "j < length (users s)" "j \<noteq> i" using i(1) j by simp_all
      then have "u_id (users s ! j) \<noteq> u_id (users s ! i)"
        using keys(1) i(1) by (simp add: distinct_conv_nth)
      then have "users s ! j \<noteq> r" "u_id (users s ! j) \<noteq> u_id r" using i(2) by auto
      then show ?thesis using Q(2) [of "users s ! j"] i(1) j by (simp add: s')
    qed
    then show ?thesis unfolding find_Some_iff using i Q(1) by (intro exI [of _ i]) (simp add: s')
  qed
  have "find (\<lambda>x. u_id x = u_id r) (users s') = Some (?f r)" by (rule first) simp_all
  moreover have "find (\<lambda>x. u_email x = u_email r) (users s') = Some (?f r)"
    using keys(2) assms(2) by (intro first) (auto simp: distinct_map inj_on_def)
  ultimately show ?thesis using run bad low
    by (simp add: get_by_id_cases login_def act_bind_apply get_user_by_email_def fetch_user_def)
qed

theorem unknown_tier_locks_out_witness:
  "fst (login toy_lib toy_settings toy_email toy_password (snd (handle_webhook_event toy_settings toy_construct ''gold'' [] toy_signed))) = Inl PyValueError"
proof -
  have ty: "accounts_typed toy_signed"
    by (simp add: accounts_typed_def toy_signed_state toy_row_def toy_email_ok tier_of_def)
  have "u_email toy_row = toy_email" by (simp add: toy_row_def)
  then show ?thesis
    using unknown_tier_locks_out [OF ty, of toy_row "''gold''" toy_construct "''gold''" "[]" _ toy_settings toy_lib toy_password]
    by (simp add: toy_signed_state toy_row_def tier_of_def toy_construct_def)
qed

end
