(* ===== verification/Sandbox.thy ===== *)
theory Sandbox
  imports Py_Paths Py_Json
begin

text \<open>
  The execution sandbox (\<open>anima/kernel/sandbox.py\<close>) and the file tools built on it
  (\<open>_write_file\<close> and \<open>_read_file\<close> of \<open>anima/kernel/tools.py\<close>): confinement of paths to the
  working directory, the limit on captured bytes, and what a run of a shell command returns. The process itself is a
  parameter. Paths have no NUL byte, the working directory is absolute, and symbolic links are not modelled.
  The dash in the message of a cut file is a hyphen here.
\<close>

subsection \<open>Results\<close>

record bash_result =
  bash_stdout :: string
  bash_stderr :: string
  exit_code :: int
  bash_ms :: int
  truncated :: bool

record tool_result =
  tool_text :: string
  success :: bool
  duration_ms :: int

type_synonym 'w run_shell = "string \<Rightarrow> string \<Rightarrow> ('w, bash_result) act"

definition tool_error :: "string \<Rightarrow> tool_result" where
  "tool_error msg = \<lparr>tool_text = msg, success = False, duration_ms = 0\<rparr>"

text \<open>A parameter of a tool call that the code uses as a string; another type has no \<open>strip\<close>.\<close>

definition attribute_error :: exn where "attribute_error = ExternalError ''AttributeError''"

definition param_str :: "string \<Rightarrow> string \<Rightarrow> (string \<times> json) list \<Rightarrow> exn + string" where
  "param_str k dflt params = (case obj_get k params of
       None \<Rightarrow> Inr dflt
     | Some (JStr s) \<Rightarrow> Inr s
     | Some _ \<Rightarrow> Inl attribute_error)"

subsection \<open>Running a command\<close>

definition OUTPUT_LIMIT :: nat where "OUTPUT_LIMIT = 50000"
definition SANDBOX_TIMEOUT :: int where "SANDBOX_TIMEOUT = 30"

definition truncation_mark :: string where
  "truncation_mark = CHR 0x0A # ''[output truncated]''"

definition limit_output :: "string \<Rightarrow> string \<Rightarrow> string \<times> string \<times> bool" where
  "limit_output out err =
     (if length out + length err > OUTPUT_LIMIT then
        (if length out > OUTPUT_LIMIT then (take OUTPUT_LIMIT out @ truncation_mark, [], True)
         else (out, take (OUTPUT_LIMIT - length out) err @ truncation_mark, True))
      else (out, err, False))"

text \<open>What the started process does: it ends with an output, a return code and a duration, or exceeds the time limit.\<close>

datatype process_end = Ended string string "int option" int | Exceeded

definition bash_outcome :: "process_end \<Rightarrow> bash_result" where
  "bash_outcome p = (case p of
       Exceeded \<Rightarrow> \<lparr>bash_stdout = [], bash_stderr = ''Command timed out (30s limit)'', exit_code = 124,
         bash_ms = SANDBOX_TIMEOUT * 1000, truncated = False\<rparr>
     | Ended out err code ms \<Rightarrow> (case limit_output out err of (out', err', over) \<Rightarrow>
         \<lparr>bash_stdout = out', bash_stderr = err', exit_code = (case code of None \<Rightarrow> 0 | Some c \<Rightarrow> c),
          bash_ms = ms, truncated = over\<rparr>))"

text \<open>\<open>wrap\<close> is the shell policy: the wrapped command and the descriptor of a Landlock ruleset it opened, which the
  parent closes in every case; \<open>spawn\<close> starts the process and waits for its end.\<close>

definition run_bash ::
    "(string \<Rightarrow> string \<Rightarrow> ('w, string \<times> nat option) act) \<Rightarrow> (string \<Rightarrow> string \<Rightarrow> ('w, process_end) act)
      \<Rightarrow> (nat \<Rightarrow> ('w, unit) act) \<Rightarrow> 'w run_shell" where
  "run_bash wrap spawn close_fd command workdir = (let root = fs_key workdir in
     act_bind (wrap command root) (\<lambda>(wrapped, fd).
       act_finally
         (act_bind (act_catch (spawn wrapped root) (\<lambda>_. act_raise SandboxError)) (\<lambda>p. act_return (bash_outcome p)))
         (case fd of None \<Rightarrow> act_return () | Some f \<Rightarrow> close_fd f)))"

definition docker_argv :: "string \<Rightarrow> string \<Rightarrow> string list" where
  "docker_argv command workdir = [''docker'', ''run'', ''--rm'', ''--network'', ''none'', ''--memory'', ''512m'', ''--cpus'', ''0.5'',
     ''--pids-limit'', ''64'', ''--ulimit'', ''nofile=1024:1024'', ''--security-opt'', ''no-new-privileges'', ''--cap-drop'', ''ALL'',
     ''--read-only'', ''--tmpfs'', ''/tmp:rw,noexec,nosuid,size=64m'', ''-v'', fs_key workdir @ '':/workspace'', ''-w'', ''/workspace'',
     ''python:3.12-slim'', ''bash'', ''-c'', command]"

definition run_bash_in_container :: "(string list \<Rightarrow> ('w, process_end) act) \<Rightarrow> 'w run_shell" where
  "run_bash_in_container spawn_exec command workdir =
     act_bind (act_catch (spawn_exec (docker_argv command workdir)) (\<lambda>_. act_raise SandboxError))
       (\<lambda>p. act_return (bash_outcome p))"

subsection \<open>Paths inside the workspace\<close>

definition relative_ok :: "string \<Rightarrow> string \<Rightarrow> bool" where
  "relative_ok root p \<longleftrightarrow> take (length (path_parts root)) (path_parts p) = path_parts root"

definition validate_path :: "string \<Rightarrow> string \<Rightarrow> string option" where
  "validate_path path workdir = (let root = fs_key workdir;
       candidate = (if startswith path ''/'' then fs_key path else fs_key (path_join root path))
     in if relative_ok root candidate then Some candidate else None)"

definition traversal_message :: "string \<Rightarrow> string" where
  "traversal_message path = ''error: path escapes workspace: '' @ path"

subsection \<open>File tools\<close>

text \<open>\<open>st_size\<close> of a text written in UTF-8: the bytes of a string of Latin-1 characters.\<close>

definition utf8_length :: "string \<Rightarrow> nat" where
  "utf8_length s = length s + length (filter (\<lambda>c. (of_char c :: nat) \<ge> 128) s)"

definition os_error :: "exn \<Rightarrow> bool" where
  "os_error e \<longleftrightarrow> e \<in> {PyOSError, PyFileNotFoundError, PyFileExistsError, PyPermissionError}"

definition content_of_params :: "(string \<times> json) list \<Rightarrow> exn + string" where
  "content_of_params params = (case obj_get ''content'' params of
     None \<Rightarrow> Inr [] | Some (JStr s) \<Rightarrow> Inr s | Some _ \<Rightarrow> Inl type_error)"

definition write_file :: "(exn \<Rightarrow> string) \<Rightarrow> int \<Rightarrow> (string \<times> json) list \<Rightarrow> string \<Rightarrow> ('m host_scheme, tool_result) act" where
  "write_file msg ms params workdir = (\<lambda>h. case param_str ''path'' [] params of
       Inl e \<Rightarrow> (Inl e, h)
     | Inr raw \<Rightarrow> (let path_str = py_strip raw in
         if path_str = [] then (Inr (tool_error ''error: path is required''), h)
         else (case validate_path path_str workdir of
             None \<Rightarrow> (Inr (tool_error (traversal_message path_str)), h)
           | Some full_path \<Rightarrow>
               act_catch
                 (act_then (fs_makedirs (path_parent full_path))
                   (case content_of_params params of
                      Inl e \<Rightarrow> act_raise e
                    | Inr content \<Rightarrow> act_then (fs_write full_path content)
                        (act_return \<lparr>tool_text = ''wrote '' @ show_nat (utf8_length content) @ '' bytes to '' @ path_str,
                           success = True, duration_ms = ms\<rparr>)))
                 (\<lambda>e. if os_error e then act_return (tool_error (''error writing file: '' @ msg e)) else act_raise e) h)))"

definition READ_LIMIT :: nat where "READ_LIMIT = 50000"

definition cut_text :: "string \<Rightarrow> string" where
  "cut_text content = (if length content > READ_LIMIT
     then take READ_LIMIT content @ CHR 0x0A # ''[file truncated - read first 50 000 chars]'' else content)"

definition read_file :: "(exn \<Rightarrow> string) \<Rightarrow> int \<Rightarrow> (string \<times> json) list \<Rightarrow> string \<Rightarrow> ('m host_scheme, tool_result) act" where
  "read_file msg ms params workdir = (\<lambda>h. case param_str ''path'' [] params of
       Inl e \<Rightarrow> (Inl e, h)
     | Inr raw \<Rightarrow> (let path_str = py_strip raw in
         if path_str = [] then (Inr (tool_error ''error: path is required''), h)
         else (case validate_path path_str workdir of
             None \<Rightarrow> (Inr (tool_error (traversal_message path_str)), h)
           | Some full_path \<Rightarrow>
               if \<not> fs_exists full_path h then (Inr (tool_error (''error: file not found: '' @ path_str)), h)
               else act_catch
                 (act_bind (fs_read full_path) (\<lambda>content.
                    act_return \<lparr>tool_text = cut_text content, success = True, duration_ms = ms\<rparr>))
                 (\<lambda>e. if os_error e then act_return (tool_error (''error reading file: '' @ msg e)) else act_raise e) h)))"

subsection \<open>Where a validated path is\<close>

text \<open>The components of a resolved absolute path.\<close>

definition key_comps :: "string \<Rightarrow> string list" where
  "key_comps p = norm_comps True (split_on slash p) []"

definition clean_comp :: "string \<Rightarrow> bool" where
  "clean_comp c \<longleftrightarrow> c \<noteq> [] \<and> c \<noteq> ''.'' \<and> c \<noteq> ''..'' \<and> slash \<notin> set c"

definition abs_text :: "string list \<Rightarrow> string" where
  "abs_text cs = ''/'' @ py_join ''/'' cs"

lemma fs_key_abs: "startswith p ''/'' \<Longrightarrow> fs_key p = abs_text (key_comps p)"
  by (simp add: fs_key_def key_comps_def abs_text_def)

lemma norm_comps_in: "c \<in> set (norm_comps a cs acc) \<Longrightarrow> c \<in> set cs \<or> c \<in> set acc"
proof (induction a cs acc rule: norm_comps.induct)
  case (2 rooted d cs acc)
  have "set (tl acc) \<subseteq> set acc" by (cases acc) auto
  with 2 show ?case by (auto split: if_splits)
qed simp

lemma key_comps_clean: "list_all clean_comp (key_comps p)"
proof -
  have "clean_comp c" if "c \<in> set (key_comps p)" for c
    using norm_comps_clean [of c True "split_on slash p" "[]"] norm_comps_abs_no_dotdot [of "[]" "split_on slash p"]
      norm_comps_in [of c True "split_on slash p" "[]"] split_on_no_sep [of c slash p] that
    by (auto simp: clean_comp_def key_comps_def)
  then show ?thesis by (simp add: list_all_iff)
qed

lemma norm_comps_of_clean: "list_all clean_comp cs \<Longrightarrow> norm_comps True cs acc = rev acc @ cs"
  by (induction cs arbitrary: acc) (simp_all add: clean_comp_def)

lemma split_abs_text:
  assumes "list_all clean_comp cs"
  shows "split_on slash (abs_text cs) = [] # (if cs = [] then [[]] else cs)"
proof -
  have "split_on slash (abs_text cs) = [] # split_on slash (py_join ''/'' cs)" by (simp add: abs_text_def)
  then show ?thesis using assms split_on_join [of cs slash] by (auto simp: clean_comp_def list_all_iff)
qed

lemma key_comps_abs_text: "list_all clean_comp cs \<Longrightarrow> key_comps (abs_text cs) = cs"
  by (auto simp: key_comps_def split_abs_text norm_comps_of_clean)

lemma abs_text_rooted: "startswith (abs_text cs) ''/''"
  by (simp add: abs_text_def startswith_def)

lemma fs_key_abs_text: "list_all clean_comp cs \<Longrightarrow> fs_key (abs_text cs) = abs_text cs"
  by (simp add: fs_key_abs abs_text_rooted key_comps_abs_text)

lemma abs_text_second:
  assumes "list_all clean_comp cs"
  shows "\<not> startswith (abs_text cs) ''//''"
proof (cases cs)
  case (Cons c ds)
  then obtain a b where c: "c = a # b" "a \<noteq> slash" using assms by (cases c) (auto simp: clean_comp_def)
  then have "abs_text cs = slash # a # tl (py_join ''/'' cs)" using Cons by (cases ds) (simp_all add: abs_text_def)
  then show ?thesis using c by (simp add: startswith_def)
qed (simp add: abs_text_def startswith_def)

lemma initial_slashes_abs_text: "list_all clean_comp cs \<Longrightarrow> initial_slashes (abs_text cs) = 1"
  using abs_text_second [of cs] abs_text_rooted [of cs] by (simp add: initial_slashes_def)

lemma path_comps_abs_text: "list_all clean_comp cs \<Longrightarrow> path_comps (abs_text cs) = cs"
  by (auto simp: path_comps_def split_abs_text clean_comp_def list_all_iff)

lemma path_parts_abs_text: "list_all clean_comp cs \<Longrightarrow> path_parts (abs_text cs) = ''/'' # cs"
  by (simp add: path_parts_def initial_slashes_abs_text path_comps_abs_text)

lemma path_parent_abs_text: "list_all clean_comp cs \<Longrightarrow> path_parent (abs_text cs) = abs_text (butlast cs)"
  by (simp add: path_parent_def initial_slashes_abs_text path_comps_abs_text Let_def) (simp add: abs_text_def)

lemma path_chain_abs_text:
  "list_all clean_comp cs \<Longrightarrow> path_chain (abs_text cs) = map (\<lambda>n. abs_text (take n cs)) [1..<Suc (length cs)]"
  by (simp add: path_chain_def initial_slashes_abs_text path_comps_abs_text del: upt_Suc) (simp add: abs_text_def)

lemma path_chain_set:
  assumes "list_all clean_comp cs"
  shows "set (path_chain (abs_text cs)) = {abs_text (take n cs) | n. 0 < n \<and> n \<le> length cs}"
proof -
  have "set [1..<Suc (length cs)] = {n. 0 < n \<and> n \<le> length cs}" by auto
  then show ?thesis unfolding path_chain_abs_text [OF assms] by (auto simp del: upt_Suc)
qed

text \<open>The place a path resolves to in a workspace; below it is everything the workspace holds.\<close>

definition below :: "string list \<Rightarrow> string list \<Rightarrow> bool" where
  "below rs cs \<longleftrightarrow> take (length rs) cs = rs"

lemma validate_path_place:
  assumes "startswith workdir ''/''" "validate_path path workdir = Some q"
  shows "\<exists>cs. q = abs_text cs \<and> list_all clean_comp cs \<and> below (key_comps workdir) cs"
proof -
  have root: "fs_key workdir = abs_text (key_comps workdir)" using assms(1) by (rule fs_key_abs)
  obtain p where p: "q = fs_key p" "startswith p ''/''" "relative_ok (fs_key workdir) q"
  proof (cases "startswith path ''/''")
    case True
    then show ?thesis using assms(2) that [of path] by (auto simp: validate_path_def Let_def split: if_splits)
  next
    case False
    have "startswith (path_join (fs_key workdir) path) ''/''"
      using False by (auto simp: path_join_def root abs_text_def startswith_def)
    then show ?thesis using assms(2) that [of "path_join (fs_key workdir) path"] False
      by (auto simp: validate_path_def Let_def split: if_splits)
  qed
  have "q = abs_text (key_comps p)" using p by (simp add: fs_key_abs)
  moreover have "below (key_comps workdir) (key_comps p)"
    using p(3) key_comps_clean unfolding calculation root by (simp add: relative_ok_def path_parts_abs_text below_def)
  ultimately show ?thesis using key_comps_clean by blast
qed

lemma makedirs_below:
  assumes "list_all clean_comp cs" "below rs cs" "list_all clean_comp rs"
    and "\<And>n. 0 < n \<Longrightarrow> n \<le> length rs \<Longrightarrow> files h (abs_text (take n rs)) = Some Directory"
    and "fs_makedirs (abs_text (butlast cs)) h = (r, h')"
    and "\<And>ds. x = abs_text ds \<Longrightarrow> list_all clean_comp ds \<Longrightarrow> \<not> below rs ds"
  shows "files h' x = files h x"
proof (cases "x \<in> fs_key ` set (path_chain (abs_text (butlast cs)))")
  case False
  then show ?thesis using fs_makedirs_only [OF assms(5)] by blast
next
  case True
  have cl: "list_all clean_comp (butlast cs)" using assms(1) by (auto simp: list_all_iff dest: in_set_butlastD)
  then have clt: "list_all clean_comp (take n (butlast cs))" for n by (auto simp: list_all_iff dest: in_set_takeD)
  obtain n where n: "0 < n" "n \<le> length (butlast cs)" "x = fs_key (abs_text (take n (butlast cs)))"
    using True unfolding path_chain_set [OF cl] by blast
  then have x: "x = abs_text (take n (butlast cs))" using fs_key_abs_text [OF clt] by simp
  have tk: "take n (butlast cs) = take n cs" using n(2) by (simp add: butlast_conv_take)
  have lt: "n < length rs"
  proof (rule ccontr)
    assume "\<not> n < length rs"
    then have "below rs (take n (butlast cs))" using assms(2) by (simp add: below_def tk min_absorb1)
    with assms(6) [OF x clt] show False by simp
  qed
  then have "take n cs = take n rs" using assms(2) unfolding below_def by (metis less_imp_le min.absorb2 take_take min.commute)
  then have "files h x = Some Directory" using assms(4) [OF n(1)] lt by (simp add: x tk)
  moreover from this have "files h' x = Some Directory" using fs_makedirs_grows [OF assms(5)] by (metis domI map_le_def)
  ultimately show ?thesis by simp
qed

text \<open>A file tool stays in its workspace: whatever path a call of \<open>write_file\<close> names, absolute, with dot-dot
  components or otherwise, no node outside the working directory changes, provided the directory exists.\<close>

theorem write_file_contained:
  assumes "startswith workdir ''/''" "dirs_exist (fs_key workdir) h" "write_file msg ms params workdir h = (r, h')"
    and "\<nexists>cs. x = abs_text cs \<and> list_all clean_comp cs \<and> below (key_comps workdir) cs"
  shows "files h' x = files h x"
proof (cases "h' = h")
  case False
  then obtain raw q where q: "validate_path (py_strip raw) workdir = Some q"
    and w: "act_catch
                 (act_then (fs_makedirs (path_parent q))
                   (case content_of_params params of
                      Inl e \<Rightarrow> act_raise e
                    | Inr content \<Rightarrow> act_then (fs_write q content)
                        (act_return \<lparr>tool_text = ''wrote '' @ show_nat (utf8_length content) @ '' bytes to '' @ py_strip raw,
                           success = True, duration_ms = ms\<rparr>)))
                 (\<lambda>e. if os_error e then act_return (tool_error (''error writing file: '' @ msg e)) else act_raise e) h = (r, h')"
    using assms(3) by (simp only: write_file_def Let_def) (auto split: sum.splits option.splits if_splits)
  obtain cs where cs: "q = abs_text cs" "list_all clean_comp cs" "below (key_comps workdir) cs"
    using validate_path_place [OF assms(1) q] by blast
  have kc: "list_all clean_comp (key_comps workdir)" by (rule key_comps_clean)
  have dirs: "files h (abs_text (take n (key_comps workdir))) = Some Directory" if "0 < n" "n \<le> length (key_comps workdir)" for n
  proof -
    have ct: "list_all clean_comp (take n (key_comps workdir))" using kc by (auto simp: list_all_iff dest: in_set_takeD)
    have "abs_text (take n (key_comps workdir)) \<in> set (path_chain (fs_key workdir))"
      using that unfolding fs_key_abs [OF assms(1)] path_chain_set [OF kc] by blast
    then show ?thesis using assms(2) fs_key_abs_text [OF ct] by (auto simp: dirs_exist_def list_all_iff)
  qed
  obtain r1 h1 where mk: "fs_makedirs (path_parent q) h = (r1, h1)" by (cases "fs_makedirs (path_parent q) h")
  have "files h1 x = files h x"
    by (rule makedirs_below [OF cs(2,3) kc dirs, of r1 h1 x])
      (use mk assms(4) in \<open>auto simp: cs(1) path_parent_abs_text [OF cs(2)]\<close>)
  moreover have "files h' x = files h1 x"
  proof -
    have "x \<noteq> fs_key q" using assms(4) cs fs_key_abs_text [OF cs(2)] by auto
    moreover have "\<exists>c r2. h' = h1 \<or> fs_write q c h1 = (r2, h')"
      using w mk by (auto simp: act_simps split: sum.splits prod.splits if_splits)
    ultimately show ?thesis using fs_write_frame by blast
  qed
  ultimately show ?thesis by simp
qed simp

subsection \<open>Samples\<close>

definition sample_box :: host where
  "sample_box = \<lparr>files = [''/'' \<mapsto> Directory, ''/w'' \<mapsto> Directory, ''/w/p'' \<mapsto> Directory, ''/etc'' \<mapsto> Directory,
     ''/etc/passwd'' \<mapsto> Regular ''root''], io_fault = (\<lambda>_. False)\<rparr>"

definition write_params :: "string \<Rightarrow> string \<Rightarrow> (string \<times> json) list" where
  "write_params p c = [(''path'', JStr p), (''content'', JStr c)]"

theorem write_file_contained_witness:
  "files (snd (write_file (\<lambda>_. []) 3 (write_params ''a/../b/x.txt'' ''hi'') ''/w/p'' sample_box)) ''/etc/passwd'' = Some (Regular ''root'')
   \<and> files (snd (write_file (\<lambda>_. []) 3 (write_params ''a/../b/x.txt'' ''hi'') ''/w/p'' sample_box)) ''/w/p/b/x.txt'' = Some (Regular ''hi'')"
proof -
  let ?run = "write_file (\<lambda>_. []) 3 (write_params ''a/../b/x.txt'' ''hi'') ''/w/p'' sample_box"
  have comps: "key_comps ''/w/p'' = [''w'', ''p'']" by code_simp
  have start: "startswith ''/w/p'' ''/''" by code_simp
  have dirs: "dirs_exist (fs_key ''/w/p'') sample_box" by code_simp
  have out: "\<nexists>cs. ''/etc/passwd'' = abs_text cs \<and> list_all clean_comp cs \<and> below (key_comps ''/w/p'') cs"
  proof
    assume "\<exists>cs. ''/etc/passwd'' = abs_text cs \<and> list_all clean_comp cs \<and> below (key_comps ''/w/p'') cs"
    then obtain cs where cs: "''/etc/passwd'' = abs_text cs" "list_all clean_comp cs" "below [''w'', ''p''] cs" by (auto simp: comps)
    have "key_comps ''/etc/passwd'' = [''etc'', ''passwd'']" by code_simp
    then have "cs = [''etc'', ''passwd'']" using key_comps_abs_text [OF cs(2)] by (simp add: cs(1))
    then show False using cs(3) by (simp add: below_def)
  qed
  have "files (snd ?run) ''/etc/passwd'' = files sample_box ''/etc/passwd''"
    by (rule write_file_contained [OF start dirs prod.collapse [symmetric] out])
  moreover have "files sample_box ''/etc/passwd'' = Some (Regular ''root'')" by (simp add: sample_box_def)
  moreover have "files (snd ?run) ''/w/p/b/x.txt'' = Some (Regular ''hi'')" by code_simp
  ultimately show ?thesis by simp
qed

subsection \<open>What was written is read back\<close>

lemma os_read_back:
  assumes "write_file msg ms params workdir h = (Inr r, h')" "success r" "obj_get ''content'' params = Some (JStr c)"
  shows "\<exists>raw q. param_str ''path'' [] params = Inr raw \<and> py_strip raw \<noteq> [] \<and> validate_path (py_strip raw) workdir = Some q
    \<and> files h' (fs_key q) = Some (Regular c) \<and> \<not> io_fault h' (fs_key q)"
proof -
  obtain raw q where q: "param_str ''path'' [] params = Inr raw" "py_strip raw \<noteq> []" "validate_path (py_strip raw) workdir = Some q"
    using assms(1,2) by (auto simp: write_file_def tool_error_def Let_def split: sum.splits option.splits if_splits)
  obtain r1 h1 where mk: "fs_makedirs (path_parent q) h = (r1, h1)" by (cases "fs_makedirs (path_parent q) h")
  have "\<exists>u. fs_write q c h1 = (Inr u, h')"
    using assms(1,2) mk unfolding write_file_def q(1) sum.case Let_def if_not_P [OF q(2)] q(3) option.case
    by (auto simp: act_simps content_of_params_def assms(3) tool_error_def split: sum.splits prod.splits if_splits)
  then show ?thesis using q by (auto simp: fs_write_Inr)
qed

text \<open>What \<open>write_file\<close> reports as written, \<open>read_file\<close> with the same parameters returns, cut at fifty thousand
  characters.\<close>

theorem write_read_roundtrip:
  assumes "write_file msg ms params workdir h = (Inr r, h')" "success r" "obj_get ''content'' params = Some (JStr c)"
  shows "read_file msg ms' params workdir h' = (Inr \<lparr>tool_text = cut_text c, success = True, duration_ms = ms'\<rparr>, h')"
proof -
  from os_read_back [OF assms] obtain raw q where q: "param_str ''path'' [] params = Inr raw" "py_strip raw \<noteq> []"
    "validate_path (py_strip raw) workdir = Some q" "files h' (fs_key q) = Some (Regular c)" "\<not> io_fault h' (fs_key q)" by blast
  then show ?thesis by (simp add: read_file_def Let_def fs_exists_def act_simps fs_read_def)
qed

theorem write_read_roundtrip_witness:
  "fst (read_file (\<lambda>_. []) 4 (write_params ''b/x.txt'' ''hi'') ''/w/p'' (snd (write_file (\<lambda>_. []) 3 (write_params ''b/x.txt'' ''hi'') ''/w/p'' sample_box)))
     = Inr \<lparr>tool_text = ''hi'', success = True, duration_ms = 4\<rparr>"
proof -
  let ?run = "write_file (\<lambda>_. []) 3 (write_params ''b/x.txt'' ''hi'') ''/w/p'' sample_box"
  have "fst ?run = Inr \<lparr>tool_text = ''wrote 2 bytes to b/x.txt'', success = True, duration_ms = 3\<rparr>" by code_simp
  then have run: "?run = (Inr \<lparr>tool_text = ''wrote 2 bytes to b/x.txt'', success = True, duration_ms = 3\<rparr>, snd ?run)" by (metis prod.collapse)
  have c: "obj_get ''content'' (write_params ''b/x.txt'' ''hi'') = Some (JStr ''hi'')" by code_simp
  have "cut_text ''hi'' = ''hi''" by (simp add: cut_text_def READ_LIMIT_def)
  then show ?thesis using write_read_roundtrip [OF run _ c, of 4] by simp
qed

subsection \<open>Bounds\<close>

text \<open>What a command returns is bounded, whatever the process printed: at most fifty thousand characters and one
  truncation mark; an output within the limit comes back unchanged, and a time-out is exit code 124.\<close>

theorem bash_output_bounded:
  "length (bash_stdout (bash_outcome p)) + length (bash_stderr (bash_outcome p)) \<le> OUTPUT_LIMIT + length truncation_mark
   \<and> (truncated (bash_outcome p) \<or> (case p of
        Exceeded \<Rightarrow> exit_code (bash_outcome p) = 124
      | Ended out err code ms \<Rightarrow> bash_stdout (bash_outcome p) = out \<and> bash_stderr (bash_outcome p) = err))"
proof (cases p)
  case (Ended out err code ms)
  then show ?thesis by (auto simp: bash_outcome_def limit_output_def)
next
  case Exceeded
  then show ?thesis by (simp add: bash_outcome_def OUTPUT_LIMIT_def truncation_mark_def)
qed

end
