(* ===== verification/Shell_Guard.thy ===== *)
theory Shell_Guard
  imports Sandbox
begin

text \<open>
  The textual guards of the shell tools (\<open>anima/kernel/tools.py\<close>): the patterns of destructive commands and the
  check that a command is read-only, with the tokenizer \<open>shlex.split\<close> and \<open>shlex.quote\<close> of the standard library as
  far as they are used. A command is a string of bytes, and the dash in
  the message of a refused command is a hyphen here.
\<close>

subsection \<open>\<open>shlex\<close>\<close>

definition bslash :: char where "bslash = CHR 0x5C"
definition squote :: char where "squote = CHR 0x27"
definition dquote :: char where "dquote = CHR 0x22"

definition shlex_space :: "char \<Rightarrow> bool" where
  "shlex_space c \<longleftrightarrow> c \<in> {CHR '' '', CHR 0x09, CHR 0x0D, CHR 0x0A}"

datatype lex_state = Blank | Word | Quoted char | Escaped "char option"

text \<open>The tokenizer in POSIX mode with white space as the only separator; \<open>tok\<close> is the token read so far and \<open>q\<close>
  says that it had a quoted part. \<open>None\<close> is the \<open>ValueError\<close> of a missing quotation mark or character.\<close>

fun shlex_go :: "lex_state \<Rightarrow> string \<Rightarrow> bool \<Rightarrow> string \<Rightarrow> string list option" where
  "shlex_go Blank tok q [] = Some []"
| "shlex_go Word tok q [] = Some (if tok \<noteq> [] \<or> q then [tok] else [])"
| "shlex_go (Quoted k) tok q [] = None"
| "shlex_go (Escaped e) tok q [] = None"
| "shlex_go Blank tok q (c # cs) =
     (if shlex_space c then shlex_go Blank [] False cs
      else if c = bslash then shlex_go (Escaped None) [] False cs
      else if c = squote \<or> c = dquote then shlex_go (Quoted c) [] False cs
      else shlex_go Word [c] False cs)"
| "shlex_go Word tok q (c # cs) =
     (if shlex_space c then (if tok \<noteq> [] \<or> q then map_option (Cons tok) (shlex_go Blank [] False cs) else shlex_go Blank [] q cs)
      else if c = squote \<or> c = dquote then shlex_go (Quoted c) tok q cs
      else if c = bslash then shlex_go (Escaped None) tok q cs
      else shlex_go Word (tok @ [c]) q cs)"
| "shlex_go (Quoted k) tok q (c # cs) =
     (if c = k then shlex_go Word tok True cs
      else if c = bslash \<and> k = dquote then shlex_go (Escaped (Some k)) tok True cs
      else shlex_go (Quoted k) (tok @ [c]) True cs)"
| "shlex_go (Escaped e) tok q (c # cs) =
     (case e of None \<Rightarrow> shlex_go Word (tok @ [c]) q cs
      | Some k \<Rightarrow> shlex_go (Quoted k) (if c \<noteq> bslash \<and> c \<noteq> k then tok @ [bslash, c] else tok @ [c]) q cs)"

definition shlex_split :: "string \<Rightarrow> string list option" where
  "shlex_split s = shlex_go Blank [] False s"

definition safe_char :: "char \<Rightarrow> bool" where
  "safe_char c \<longleftrightarrow> (let n = (of_char c :: nat) in 97 \<le> n \<and> n \<le> 122 \<or> 65 \<le> n \<and> n \<le> 90 \<or> 48 \<le> n \<and> n \<le> 57)
     \<or> c \<in> set ''@%_-+=:,./''"

definition quote_char :: "char \<Rightarrow> string" where
  "quote_char c = (if c = squote then [squote, dquote, squote, dquote, squote] else [c])"

definition shlex_quote :: "string \<Rightarrow> string" where
  "shlex_quote s = (if s = [] then [squote, squote] else if list_all safe_char s then s
     else squote # concat (map quote_char s) @ [squote])"

subsection \<open>Destructive commands\<close>

definition DESTRUCTIVE_PATTERNS :: "string list" where
  "DESTRUCTIVE_PATTERNS = [''rm -rf /'', ''rm -rf ~'', ''rm -rf $HOME'', ''rm -f /etc'', ''rm -f /usr'', ''rm -f /root'', ''> /dev/sda'',
     ''> /dev/nvme'', ''dd if='', ''mkfs'', ''fdisk /dev'', ''parted /dev'', '':(){ :|:& };:'', ''shutdown'', ''reboot'', ''init 0'', ''init 6'',
     ''systemctl stop anima'', ''iptables -F'']"

definition no_blanks :: "string \<Rightarrow> string" where
  "no_blanks = filter (\<lambda>c. c \<noteq> CHR '' '')"

definition is_destructive :: "string \<Rightarrow> bool" where
  "is_destructive cmd = (let low = no_blanks (py_lower cmd) in list_ex (\<lambda>p. py_contains (no_blanks p) low) DESTRUCTIVE_PATTERNS)"

subsection \<open>Read-only commands\<close>

definition BASH_READONLY_CMDS :: "string list" where
  "BASH_READONLY_CMDS = [''cat'', ''grep'', ''egrep'', ''fgrep'', ''ls'', ''find'', ''head'', ''tail'', ''wc'', ''diff'', ''echo'', ''pwd'',
     ''which'', ''file'', ''stat'', ''sort'', ''uniq'', ''cut'']"

definition BASH_READONLY_GIT_SUBCMDS :: "string list" where
  "BASH_READONLY_GIT_SUBCMDS = [''log'', ''diff'', ''show'', ''status'', ''branch'', ''tag'', ''stash'', ''ls-files'', ''ls-tree'', ''rev-parse'',
     ''describe'', ''shortlog'', ''blame'']"

definition INJECTION_MARKERS :: "string list" where
  "INJECTION_MARKERS = ['';'', ''&&'', ''||'', [CHR 0x60], ''$('', ''${'']"

definition WRITE_REDIRECT_TOKENS :: "string list" where "WRITE_REDIRECT_TOKENS = [''>'', ''>>'']"

record readonly_whitelist =
  systemctl_subcmds :: "string list"
  journalctl_blocked :: "string list"

definition linux_whitelist :: readonly_whitelist where
  "linux_whitelist = \<lparr>systemctl_subcmds = [''status'', ''show'', ''cat'', ''is-active'', ''is-failed'', ''is-enabled'', ''list-units'',
       ''list-unit-files'', ''list-timers''],
     journalctl_blocked = [''-f'', ''--follow'', ''--flush'', ''--rotate'', ''--sync'', ''--relinquish-var'']\<rparr>"

fun pipe_segments :: "string list \<Rightarrow> string list \<Rightarrow> string list list" where
  "pipe_segments current [] = (if current \<noteq> [] then [current] else [])"
| "pipe_segments current (t # ts) =
     (if t = ''|'' then (if current \<noteq> [] then current # pipe_segments [] ts else pipe_segments [] ts)
      else pipe_segments (current @ [t]) ts)"

definition segment_ok :: "readonly_whitelist \<Rightarrow> string list \<Rightarrow> bool" where
  "segment_ok W seg = (case seg of [] \<Rightarrow> False
     | first # args \<Rightarrow> let base = path_name first in
         if base \<in> set BASH_READONLY_CMDS then True
         else if base = ''git'' \<and> args \<noteq> [] \<and> hd args \<in> set BASH_READONLY_GIT_SUBCMDS then True
         else if base = ''systemctl'' \<and> args \<noteq> [] \<and> hd args \<in> set (systemctl_subcmds W) then True
         else if base = ''journalctl'' then \<not> list_ex (\<lambda>t. t \<in> set (journalctl_blocked W) \<or> startswith t ''--vacuum'') args
         else False)"

definition is_bash_readonly_safe :: "readonly_whitelist \<Rightarrow> string \<Rightarrow> bool" where
  "is_bash_readonly_safe W command = (let cmd = py_strip command in
     if cmd = [] then False
     else if list_ex (\<lambda>m. py_contains m cmd) INJECTION_MARKERS then False
     else (case shlex_split cmd of None \<Rightarrow> False
        | Some tokens \<Rightarrow> if tokens = [] then False
            else if list_ex (\<lambda>t. t \<in> set WRITE_REDIRECT_TOKENS \<or> startswith t ''>'') tokens then False
            else (case pipe_segments [] tokens of [] \<Rightarrow> False | segs \<Rightarrow> list_all (segment_ok W) segs)))"

subsection \<open>The shell tools\<close>

text \<open>The output, the errors, a non-zero exit code and the truncation of a finished command, a line break between them.\<close>

definition bash_parts :: "bash_result \<Rightarrow> string list" where
  "bash_parts r = (if bash_stdout r \<noteq> [] then [bash_stdout r] else [])
     @ (if bash_stderr r \<noteq> [] then [''[stderr]'' @ CHR 0x0A # bash_stderr r] else [])
     @ (if exit_code r \<noteq> 0 then [''[exit code: '' @ show_int (exit_code r) @ '']''] else [])
     @ (if truncated r then [''[output was truncated]''] else [])"

definition bash_report :: "bash_result \<Rightarrow> tool_result" where
  "bash_report r = \<lparr>tool_text = (if bash_parts r \<noteq> [] then py_join [CHR 0x0A] (bash_parts r) else ''(no output)''),
     success = (exit_code r = 0), duration_ms = bash_ms r\<rparr>"

definition bash_tool :: "'w run_shell \<Rightarrow> 'w run_shell \<Rightarrow> bool \<Rightarrow> (string \<times> json) list \<Rightarrow> string \<Rightarrow> ('w, tool_result) act" where
  "bash_tool run container sandbox_docker params workdir = (case param_str ''command'' [] params of
       Inl e \<Rightarrow> act_raise e
     | Inr raw \<Rightarrow> (let command = py_strip raw in
         if command = [] then act_return (tool_error ''error: command is required'')
         else if is_destructive command then act_return (tool_error ''blocked: destructive command pattern'')
         else act_bind (if sandbox_docker then container command workdir else run command workdir)
                (\<lambda>r. act_return (bash_report r))))"

definition bash_readonly_tool :: "readonly_whitelist \<Rightarrow> 'w run_shell \<Rightarrow> (string \<times> json) list \<Rightarrow> string \<Rightarrow> ('w, tool_result) act" where
  "bash_readonly_tool W run params workdir = (case param_str ''command'' [] params of
       Inl e \<Rightarrow> act_raise e
     | Inr raw \<Rightarrow> (let command = py_strip raw in
         if command = [] then act_return (tool_error ''error: command is required'')
         else if \<not> is_bash_readonly_safe W command
           then act_return (tool_error (''error: command not in read-only whitelist - rejected: '' @ py_repr command))
         else act_bind (run command workdir) (\<lambda>r. act_return (bash_report r))))"

subsection \<open>Quoting is read back\<close>

definition plain_char :: "char \<Rightarrow> bool" where
  "plain_char c \<longleftrightarrow> \<not> shlex_space c \<and> c \<noteq> bslash \<and> c \<noteq> squote \<and> c \<noteq> dquote"

lemma safe_plain: "safe_char c \<Longrightarrow> plain_char c"
  by (auto simp: safe_char_def plain_char_def shlex_space_def bslash_def squote_def dquote_def Let_def)

lemma go_plain: "list_all plain_char w \<Longrightarrow> shlex_go Word tok q (w @ s) = shlex_go Word (tok @ w) q s"
  by (induction w arbitrary: tok) (auto simp: plain_char_def)

lemma quote_consts: "squote \<noteq> dquote" "squote \<noteq> bslash" "dquote \<noteq> bslash" "dquote \<noteq> squote" "bslash \<noteq> squote" "bslash \<noteq> dquote" "\<not> shlex_space squote" "\<not> shlex_space dquote"
  by (simp_all add: squote_def dquote_def bslash_def shlex_space_def)

lemma go_quoted: "shlex_go (Quoted squote) tok True (concat (map quote_char w) @ squote # s) = shlex_go Word (tok @ w) True s"
proof (induction w arbitrary: tok)
  case (Cons c w)
  then show ?case by (cases "c = squote") (simp_all add: quote_char_def quote_consts)
qed simp

lemma go_word:
  "shlex_go Blank [] False (shlex_quote w @ s) = (if w \<noteq> [] \<and> list_all safe_char w then shlex_go Word w False s else shlex_go Word w True s)"
proof (cases "w = []")
  case True
  then show ?thesis by (simp add: shlex_quote_def quote_consts)
next
  case False
  show ?thesis
  proof (cases "list_all safe_char w")
    case True
    then obtain c cs where w: "w = c # cs" "plain_char c" "list_all plain_char cs" using False safe_plain
      by (cases w) (auto simp: list_all_iff)
    then have "shlex_go Blank [] False (w @ s) = shlex_go Word [c] False (cs @ s)" by (auto simp: plain_char_def)
    then show ?thesis using True False w by (simp add: shlex_quote_def go_plain)
  next
    case 2: False
    obtain c cs where w: "w = c # cs" using False by (cases w) auto
    have "shlex_go (Quoted squote) [] False (concat (map quote_char w) @ squote # s) = shlex_go Word w True s"
    proof (cases "c = squote")
      case True
      then show ?thesis using go_quoted [of "[squote]" cs s] w by (simp add: quote_char_def quote_consts)
    next
      case 3: False
      then show ?thesis using go_quoted [of "[c]" cs s] w by (simp add: quote_char_def quote_consts)
    qed
    then show ?thesis using False 2 by (simp add: shlex_quote_def quote_consts)
  qed
qed

text \<open>\<open>reads x t\<close>: the text \<open>x\<close> at the start of a word is read as the token \<open>t\<close>.\<close>

definition reads :: "string \<Rightarrow> string \<Rightarrow> bool" where
  "reads x t \<longleftrightarrow> (\<exists>q. (t \<noteq> [] \<or> q) \<and> (\<forall>s. shlex_go Blank [] False (x @ s) = shlex_go Word t q s))"

lemma reads_quote: "reads (shlex_quote w) w"
  unfolding reads_def by (rule exI [of _ "\<not> (w \<noteq> [] \<and> list_all safe_char w)"]) (simp add: go_word)

lemma reads_plain: "list_all plain_char w \<Longrightarrow> w \<noteq> [] \<Longrightarrow> reads w w"
  unfolding reads_def by (rule exI [of _ False]) (cases w; auto simp: plain_char_def go_plain)

lemma split_reads: "list_all2 reads xs ts \<Longrightarrow> shlex_split (py_join [CHR '' ''] xs) = Some ts"
proof (induction xs arbitrary: ts)
  case Nil then show ?case by (simp add: shlex_split_def)
next
  case (Cons x xs)
  then obtain t ts' where ts: "ts = t # ts'" "reads x t" "list_all2 reads xs ts'" by (auto simp: list_all2_Cons1)
  then obtain q where q: "t \<noteq> [] \<or> q" "\<And>s. shlex_go Blank [] False (x @ s) = shlex_go Word t q s" by (auto simp: reads_def)
  have sp: "shlex_space (CHR '' '')" by (simp add: shlex_space_def)
  show ?case
  proof (cases xs)
    case Nil
    then show ?thesis using ts q(1) q(2) [of "[]"] by (auto simp: shlex_split_def)
  next
    case (Cons y ys)
    then have "py_join [CHR '' ''] (x # xs) = x @ CHR '' '' # py_join [CHR '' ''] xs" by simp
    then show ?thesis using Cons.IH [OF ts(3)] ts(1) q(1) q(2) [of "CHR '' '' # py_join [CHR '' ''] xs"] sp by (auto simp: shlex_split_def)
  qed
qed

lemma split_words: "shlex_split (py_join [CHR '' ''] (map shlex_quote ws)) = Some ws"
  by (rule split_reads) (simp add: list_all2_conv_all_nth reads_quote)

subsection \<open>Commands of simple words\<close>

definition marker_free :: "string \<Rightarrow> bool" where
  "marker_free s \<longleftrightarrow> set s \<inter> {CHR '';'', CHR ''&'', CHR 0x60, CHR ''$''} = {}"

lemma contains_set: "py_contains p s \<Longrightarrow> set p \<subseteq> set s"
  by (auto simp: py_contains_def dest!: py_partition_Some split: option.splits)

text \<open>No two pipe signs next to each other.\<close>

fun no_double_pipe :: "string \<Rightarrow> bool" where
  "no_double_pipe (a # b # s) \<longleftrightarrow> \<not> (a = CHR ''|'' \<and> b = CHR ''|'') \<and> no_double_pipe (b # s)"
| "no_double_pipe s \<longleftrightarrow> True"

lemma double_pipe_split: "c \<noteq> CHR ''|'' \<Longrightarrow> no_double_pipe (xs @ c # ys) \<longleftrightarrow> no_double_pipe xs \<and> no_double_pipe ys"
  by (induction xs rule: no_double_pipe.induct) (cases ys; auto)+

lemma double_pipe_found: "\<not> no_double_pipe (u @ ''||'' @ v)"
  by (induction u rule: no_double_pipe.induct) auto

lemma double_pipe_none: "CHR ''|'' \<notin> set s \<Longrightarrow> no_double_pipe s"
  by (induction s rule: no_double_pipe.induct) auto

lemma double_pipe_join: "list_all no_double_pipe xs \<Longrightarrow> no_double_pipe (py_join [CHR '' ''] xs)"
  by (induction "[CHR '' '']" xs rule: py_join.induct) (simp_all add: double_pipe_split)

lemma no_markers:
  assumes "marker_free s" "no_double_pipe s"
  shows "\<not> list_ex (\<lambda>m. py_contains m s) INJECTION_MARKERS"
proof -
  have "\<not> py_contains ''||'' s"
  proof
    assume "py_contains ''||'' s"
    then obtain u v where "py_partition ''||'' s = Some (u, v)" by (auto simp: py_contains_def)
    from py_partition_Some [OF this] double_pipe_found [of u v] assms(2) show False by simp
  qed
  then show ?thesis using assms(1) contains_set [of "'';''" s] contains_set [of "''&&''" s] contains_set [of "[CHR 0x60]" s]
      contains_set [of "''$(''" s] contains_set [of "''${''" s]
    by (auto simp: INJECTION_MARKERS_def marker_free_def)
qed

lemma strip_ends:
  assumes "s \<noteq> []" "\<not> is_space (hd s)" "\<not> is_space (last s)"
  shows "py_strip s = s"
proof -
  have "dropWhile is_space s = s" using assms by (cases s) auto
  moreover have "dropWhile is_space (rev s) = rev s" using assms by (cases s rule: rev_cases) auto
  ultimately show ?thesis by (simp add: py_strip_def py_lstrip_def py_rstrip_def)
qed

lemma safe_char_facts: "safe_char c \<Longrightarrow> \<not> is_space c \<and> c \<notin> {CHR '';'', CHR ''&'', CHR 0x60, CHR ''$'', CHR ''|'', CHR ''>'', CHR '' ''}"
  by (auto simp: safe_char_def is_space_def Let_def)

lemma join_set: "set (py_join sep xs) \<subseteq> set sep \<union> (\<Union>x \<in> set xs. set x)"
  by (induction sep xs rule: py_join.induct) auto

lemma join_last: "xs \<noteq> [] \<Longrightarrow> \<forall>x \<in> set xs. x \<noteq> [] \<Longrightarrow> py_join sep xs \<noteq> [] \<and> last (py_join sep xs) = last (last xs)"
  by (induction sep xs rule: py_join.induct) auto

subsection \<open>The guard on rendered commands\<close>

text \<open>A command that reaches the shell check with clean ends is judged by its tokens alone.\<close>

lemma guard_on_tokens:
  assumes "s \<noteq> []" "\<not> is_space (hd s)" "\<not> is_space (last s)" "marker_free s" "no_double_pipe s" "shlex_split s = Some ts" "ts \<noteq> []"
    and "\<And>t. t \<in> set ts \<Longrightarrow> \<not> startswith t ''>''"
  shows "is_bash_readonly_safe W s \<longleftrightarrow> pipe_segments [] ts \<noteq> [] \<and> list_all (segment_ok W) (pipe_segments [] ts)"
proof -
  have "\<not> (t \<in> set WRITE_REDIRECT_TOKENS \<or> startswith t ''>'')" if "t \<in> set ts" for t
    using assms(8) [OF that] by (auto simp: WRITE_REDIRECT_TOKENS_def)
  then have "\<not> list_ex (\<lambda>t. t \<in> set WRITE_REDIRECT_TOKENS \<or> startswith t ''>'') ts" by (simp add: list_ex_iff)
  then show ?thesis
    using assms(1,6,7) no_markers [OF assms(4,5)] strip_ends [OF assms(1-3)]
    by (simp add: is_bash_readonly_safe_def split: list.split)
qed

lemma quote_nonempty: "shlex_quote w \<noteq> []"
  by (auto simp: shlex_quote_def)

lemma quote_set: "set (shlex_quote w) \<subseteq> set w \<union> {squote, dquote}"
  by (auto simp: shlex_quote_def quote_char_def split: if_splits)

lemma quote_ends: "\<not> is_space (hd (shlex_quote w)) \<and> \<not> is_space (last (shlex_quote w))"
proof -
  have "\<not> is_space squote" by (simp add: is_space_def squote_def Let_def)
  moreover have "\<not> is_space (hd w) \<and> \<not> is_space (last w)" if "w \<noteq> []" "list_all safe_char w"
    using that safe_char_facts hd_in_set [of w] last_in_set [of w] by (auto simp: list_all_iff)
  ultimately show ?thesis by (auto simp: shlex_quote_def)
qed

definition plain_word :: "string \<Rightarrow> bool" where
  "plain_word w \<longleftrightarrow> marker_free w \<and> CHR ''|'' \<notin> set w \<and> \<not> startswith w ''>''"

text \<open>The text of a pipeline: its words quoted, a space between them and a pipe sign between its commands.\<close>

definition render_token :: "string \<Rightarrow> string" where
  "render_token t = (if t = ''|'' then t else shlex_quote t)"

fun pipeline_tokens :: "string list list \<Rightarrow> string list" where
  "pipeline_tokens [] = []"
| "pipeline_tokens [seg] = seg"
| "pipeline_tokens (seg # segs) = seg @ ''|'' # pipeline_tokens segs"

definition render_pipeline :: "string list list \<Rightarrow> string" where
  "render_pipeline segs = py_join [CHR '' ''] (map render_token (pipeline_tokens segs))"

lemma segments_word: "''|'' \<notin> set seg \<Longrightarrow> pipe_segments cur (seg @ ts) = pipe_segments (cur @ seg) ts"
  by (induction seg arbitrary: cur) auto

lemma segments_of_pipeline:
  "list_all (\<lambda>seg. seg \<noteq> [] \<and> ''|'' \<notin> set seg) segs \<Longrightarrow> pipe_segments [] (pipeline_tokens segs) = segs"
proof (induction segs rule: pipeline_tokens.induct)
  case (2 seg)
  then show ?case using segments_word [of seg "[]" "[]"] by simp
next
  case (3 seg v va)
  then show ?case using segments_word [of seg "[]" "''|'' # pipeline_tokens (v # va)"] by simp
qed simp

lemma reads_token: "reads (render_token t) t"
proof (cases "t = ''|''")
  case True
  have "list_all plain_char ''|''" by (simp add: plain_char_def shlex_space_def bslash_def squote_def dquote_def)
  then show ?thesis using True reads_plain [of "''|''"] by (simp add: render_token_def)
qed (simp add: render_token_def reads_quote)

lemma split_tokens: "shlex_split (py_join [CHR '' ''] (map render_token ts)) = Some ts"
  by (rule split_reads) (simp add: list_all2_conv_all_nth reads_token)

lemma token_facts:
  assumes "t = ''|'' \<or> plain_word t"
  shows "render_token t \<noteq> []" "\<not> is_space (hd (render_token t))" "\<not> is_space (last (render_token t))"
    "marker_free (render_token t)" "no_double_pipe (render_token t)"
proof -
  have sq: "squote \<notin> {CHR '';'', CHR ''&'', CHR 0x60, CHR ''$'', CHR ''|''}" "dquote \<notin> {CHR '';'', CHR ''&'', CHR 0x60, CHR ''$'', CHR ''|''}"
    by (simp_all add: squote_def dquote_def)
  show "render_token t \<noteq> []" by (simp add: render_token_def quote_nonempty)
  show "\<not> is_space (hd (render_token t))" "\<not> is_space (last (render_token t))"
    using quote_ends [of t] by (simp_all add: render_token_def is_space_def Let_def)
  show "marker_free (render_token t)"
    using assms quote_set [of t] sq by (auto simp: render_token_def marker_free_def plain_word_def)
  show "no_double_pipe (render_token t)"
    using assms quote_set [of t] sq by (auto simp: render_token_def plain_word_def intro!: double_pipe_none)
qed

lemma marker_free_join:
  assumes "list_all marker_free xs"
  shows "marker_free (py_join [CHR '' ''] xs)"
  using assms join_set [of "[CHR '' '']" xs] by (auto simp: marker_free_def list_all_iff)

lemma join_hd: "xs \<noteq> [] \<Longrightarrow> \<forall>x \<in> set xs. x \<noteq> [] \<Longrightarrow> hd (py_join sep xs) = hd (hd xs)"
  by (induction sep xs rule: py_join.induct) auto

lemma guard_on_rendered:
  assumes "ts \<noteq> []" "\<And>t. t \<in> set ts \<Longrightarrow> t = ''|'' \<or> plain_word t"
  shows "is_bash_readonly_safe W (py_join [CHR '' ''] (map render_token ts)) \<longleftrightarrow>
    pipe_segments [] ts \<noteq> [] \<and> list_all (segment_ok W) (pipe_segments [] ts)"
proof (rule guard_on_tokens)
  let ?xs = "map render_token ts"
  have xs: "?xs \<noteq> []" "\<forall>x \<in> set ?xs. x \<noteq> []" using assms token_facts(1) by auto
  show "py_join [CHR '' ''] ?xs \<noteq> []" using join_last [OF xs] by blast
  show "\<not> is_space (hd (py_join [CHR '' ''] ?xs))" using join_hd [OF xs] assms token_facts(2) [of "hd ts"] by (simp add: hd_map)
  show "\<not> is_space (last (py_join [CHR '' ''] ?xs))"
    using conjunct2 [OF join_last [OF xs]] assms token_facts(3) [of "last ts"] by (simp add: last_map)
  show "marker_free (py_join [CHR '' ''] ?xs)"
    by (rule marker_free_join) (use assms(2) token_facts(4) in \<open>auto simp: list_all_iff\<close>)
  show "no_double_pipe (py_join [CHR '' ''] ?xs)"
    by (rule double_pipe_join) (use assms(2) token_facts(5) in \<open>auto simp: list_all_iff\<close>)
  show "shlex_split (py_join [CHR '' ''] ?xs) = Some ts" by (rule split_tokens)
  show "ts \<noteq> []" by (fact assms)
  show "\<not> startswith t ''>''" if "t \<in> set ts" for t using assms(2) [OF that] by (auto simp: plain_word_def)
qed

lemma pipeline_tokens_in:
  "t \<in> set (pipeline_tokens segs) \<Longrightarrow> t = ''|'' \<or> (\<exists>seg \<in> set segs. t \<in> set seg)"
  by (induction segs rule: pipeline_tokens.induct) auto

lemma pipe_not_plain: "\<not> plain_word ''|''"
  by (simp add: plain_word_def)

subsection \<open>Properties\<close>



text \<open>A word of safe characters only; such a word is written the way it is read.\<close>

definition simple_word :: "string \<Rightarrow> bool" where
  "simple_word w \<longleftrightarrow> w \<noteq> [] \<and> list_all safe_char w"

lemma simple_word_set: "simple_word w \<Longrightarrow> set w \<inter> {CHR '';'', CHR ''&'', CHR 0x60, CHR ''$'', CHR ''|'', CHR ''>'', CHR '' ''} = {}"
  using safe_char_facts by (fastforce simp: simple_word_def list_all_iff)

lemma simple_word_start: "simple_word w \<Longrightarrow> w \<noteq> [] \<and> \<not> startswith w ''>'' \<and> w \<noteq> ''|'' \<and> \<not> is_space (hd w) \<and> \<not> is_space (last w)"
  using simple_word_set [of w] safe_char_facts hd_in_set [of w] last_in_set [of w]
  by (cases w) (auto simp: simple_word_def list_all_iff)

lemma reads_simple: "simple_word w \<Longrightarrow> reads w w"
  using reads_quote [of w] by (simp add: simple_word_def shlex_quote_def)

lemma reads_simples: "list_all simple_word ws \<Longrightarrow> list_all2 reads ws ws"
  by (induction ws) (auto intro: reads_simple)

lemma split_simple: "list_all simple_word ws \<Longrightarrow> shlex_split (py_join [CHR '' ''] ws) = Some ws"
  by (intro split_reads reads_simples)

lemma split_first:
  assumes "reads x t" "shlex_space d"
  shows "shlex_split (x @ d # s) = map_option (Cons t) (shlex_split s)"
proof -
  from assms(1) obtain q where "t \<noteq> [] \<or> q" "\<And>s. shlex_go Blank [] False (x @ s) = shlex_go Word t q s" by (auto simp: reads_def)
  then show ?thesis using assms(2) by (auto simp: shlex_split_def)
qed

text \<open>The text of a simple command: words of safe characters with a space between them.\<close>

definition simple_command :: "string list \<Rightarrow> string" where
  "simple_command ws = py_join [CHR '' ''] ws"

lemma simple_command_facts:
  assumes "ws \<noteq> []" "list_all simple_word ws"
  shows "simple_command ws \<noteq> []" "\<not> is_space (last (simple_command ws))"
    "set (simple_command ws) \<inter> {CHR '';'', CHR ''&'', CHR 0x60, CHR ''$'', CHR ''|'', CHR ''>''} = {}"
proof -
  have ne: "\<forall>x \<in> set ws. x \<noteq> []" using assms(2) by (auto simp: list_all_iff simple_word_def)
  show "simple_command ws \<noteq> []" using join_last [OF assms(1) ne] by (auto simp: simple_command_def)
  have "simple_word (last ws)" using assms by (simp add: list_all_iff)
  then show "\<not> is_space (last (simple_command ws))"
    using conjunct2 [OF join_last [OF assms(1) ne]] simple_word_start by (simp add: simple_command_def)
  show "set (simple_command ws) \<inter> {CHR '';'', CHR ''&'', CHR 0x60, CHR ''$'', CHR ''|'', CHR ''>''} = {}"
    using join_set [of "[CHR '' '']" ws] simple_word_set assms(2) by (fastforce simp: simple_command_def list_all_iff)
qed

text \<open>A text that begins with \<open>echo\<close> and is read as \<open>echo\<close> and words without pipe signs passes.\<close>

lemma echo_passes:
  assumes "s = ''echo'' @ r" "r \<noteq> []" "\<not> is_space (last r)" "set r \<inter> {CHR '';'', CHR 0x60, CHR ''$''} = {}"
    "\<not> py_contains ''&&'' s" "no_double_pipe r"
    "shlex_split s = Some (''echo'' # ts)" "\<And>t. t \<in> set ts \<Longrightarrow> \<not> startswith t ''>'' \<and> t \<noteq> ''|''"
  shows "is_bash_readonly_safe W s"
proof -
  have "no_double_pipe s" using assms(1,6) double_pipe_split [of "CHR ''o''" "''ech''" r] by simp
  then have pp: "\<not> py_contains ''||'' s"
    using double_pipe_found py_partition_Some [of "''||''" s] by (auto simp: py_contains_def)
  have "\<not> list_ex (\<lambda>m. py_contains m s) INJECTION_MARKERS"
    using assms(1,4,5) pp contains_set [of "'';''" s] contains_set [of "[CHR 0x60]" s] contains_set [of "''$(''" s] contains_set [of "''${''" s]
    by (auto simp: INJECTION_MARKERS_def)
  moreover have "py_strip s = s" using assms(1-3) by (intro strip_ends) (auto simp: is_space_def Let_def)
  moreover have "\<not> (t \<in> set WRITE_REDIRECT_TOKENS \<or> startswith t ''>'')" if "t \<in> set (''echo'' # ts)" for t
    using that assms(8) [of t] by (auto simp: WRITE_REDIRECT_TOKENS_def)
  then have "\<not> list_ex (\<lambda>t. t \<in> set WRITE_REDIRECT_TOKENS \<or> startswith t ''>'') (''echo'' # ts)" by (simp add: list_ex_iff)
  moreover have "pipe_segments [] (''echo'' # ts) = [''echo'' # ts]"
    using segments_word [of "''echo'' # ts" "[]" "[]"] assms(8) by auto
  moreover have "segment_ok W (''echo'' # ts)"
  proof -
    have "path_name ''echo'' = ''echo''" by code_simp
    then show ?thesis by (simp add: segment_ok_def BASH_READONLY_CMDS_def)
  qed
  moreover have "s \<noteq> []" using assms(1) by simp
  ultimately show ?thesis using assms(7) by (simp add: is_bash_readonly_safe_def)
qed

lemma no_double_amp: "count_list s (CHR ''&'') \<le> 1 \<Longrightarrow> \<not> py_contains ''&&'' s"
proof
  assume c: "count_list s (CHR ''&'') \<le> 1" and "py_contains ''&&'' s"
  then obtain u v where "py_partition ''&&'' s = Some (u, v)" by (auto simp: py_contains_def)
  from py_partition_Some [OF this] have "count_list s (CHR ''&'') \<ge> 2" by simp
  then show False using c by simp
qed

lemma echo_bypass:
  assumes "ws \<noteq> []" "list_all simple_word ws"
  shows "is_bash_readonly_safe W (''echo'' @ CHR 0x0A # simple_command ws)"
    "is_bash_readonly_safe W (''echo & '' @ simple_command ws)"
    "is_bash_readonly_safe W (''echo x|'' @ simple_command ws)"
proof -
  note c = simple_command_facts [OF assms]
  have amp: "count_list (simple_command ws) (CHR ''&'') = 0" using c(3) by (simp add: count_list_0_iff)
  have np: "no_double_pipe (simple_command ws)" using c(3) by (intro double_pipe_none) auto
  have words: "\<And>t. t \<in> set ws \<Longrightarrow> \<not> startswith t ''>'' \<and> t \<noteq> ''|''" using assms(2) simple_word_start by (auto simp: list_all_iff)
  have split: "shlex_split (simple_command ws) = Some ws" using split_simple [OF assms(2)] by (simp add: simple_command_def)
  have plain: "list_all plain_char ''echo''" "list_all plain_char ''&''" "list_all plain_char ''x|''"
    by (simp_all add: plain_char_def shlex_space_def bslash_def squote_def dquote_def)
  have sp: "shlex_space (CHR '' '')" "shlex_space (CHR 0x0A)" by (simp_all add: shlex_space_def)
  have echo: "reads ''echo'' ''echo''" "reads ''&'' ''&''" using plain by (intro reads_plain; simp)+
  show "is_bash_readonly_safe W (''echo'' @ CHR 0x0A # simple_command ws)"
  proof (rule echo_passes)
    show "shlex_split (''echo'' @ CHR 0x0A # simple_command ws) = Some (''echo'' # ws)"
      using split_first [OF echo(1) sp(2)] split by simp
    show "\<not> py_contains ''&&'' (''echo'' @ CHR 0x0A # simple_command ws)" by (rule no_double_amp) (simp add: amp)
    show "no_double_pipe (CHR 0x0A # simple_command ws)" using np double_pipe_split [of "CHR 0x0A" "[]"] by simp
  qed (use c words in auto)
  show "is_bash_readonly_safe W (''echo & '' @ simple_command ws)"
  proof (rule echo_passes)
    show "shlex_split (''echo & '' @ simple_command ws) = Some (''echo'' # ''&'' # ws)"
      using split_first [OF echo(1) sp(1), of "''& '' @ simple_command ws"] split_first [OF echo(2) sp(1), of "simple_command ws"] split by simp
    show "\<not> py_contains ''&&'' (''echo & '' @ simple_command ws)" by (rule no_double_amp) (simp add: amp)
    show "no_double_pipe ('' & '' @ simple_command ws)" using np double_pipe_split [of "CHR '' ''" "'' &''"] by simp
    show "''echo & '' @ simple_command ws = ''echo'' @ ('' & '' @ simple_command ws)" by simp
  qed (use c words in auto)
  obtain w ws' where ws: "ws = w # ws'" using assms(1) by (cases ws) auto
  show "is_bash_readonly_safe W (''echo x|'' @ simple_command ws)"
  proof (rule echo_passes)
    have "list_all plain_char w" using assms(2) ws safe_plain by (auto simp: simple_word_def list_all_iff)
    then have "reads (''x|'' @ w) (''x|'' @ w)" using plain(3) by (intro reads_plain) auto
    then have "shlex_split (py_join [CHR '' ''] ((''x|'' @ w) # ws')) = Some ((''x|'' @ w) # ws')"
      using assms(2) ws by (intro split_reads) (auto intro: reads_simples)
    moreover have "py_join [CHR '' ''] ((''x|'' @ w) # ws') = ''x|'' @ simple_command ws"
      by (cases ws') (simp_all add: simple_command_def ws)
    ultimately have "shlex_split (''x|'' @ simple_command ws) = Some ((''x|'' @ w) # ws')" by simp
    then show "shlex_split (''echo x|'' @ simple_command ws) = Some (''echo'' # (''x|'' @ w) # ws')"
      using split_first [OF echo(1) sp(1), of "''x|'' @ simple_command ws"] by simp
    show "\<not> py_contains ''&&'' (''echo x|'' @ simple_command ws)" by (rule no_double_amp) (simp add: amp)
    obtain a r where cmd: "simple_command ws = a # r" "a \<noteq> CHR ''|''" using c by (cases "simple_command ws") auto
    show "no_double_pipe ('' x|'' @ simple_command ws)" using np cmd by simp
    show "''echo x|'' @ simple_command ws = ''echo'' @ ('' x|'' @ simple_command ws)" by simp
    show "\<not> startswith t ''>'' \<and> t \<noteq> ''|''" if "t \<in> set ((''x|'' @ w) # ws')" for t using that words ws by auto
  qed (use c in auto)
qed

text \<open>the check does not see three ways of running a second command: a line break and a single ampersand are not among
  the markers, and a pipe sign without a space after the word before it is no token of its own. After \<open>echo\<close> any
  command of simple words is accepted, whether or not its program is on the whitelist.\<close>

theorem readonly_guard_bypass:
  assumes "ws \<noteq> []" "list_all simple_word ws"
  shows "is_bash_readonly_safe W (''echo'' @ CHR 0x0A # simple_command ws)
    \<and> is_bash_readonly_safe W (''echo & '' @ simple_command ws)
    \<and> is_bash_readonly_safe W (''echo x|'' @ simple_command ws)"
  using echo_bypass [OF assms] by simp

theorem readonly_guard_bypass_witness:
  "is_bash_readonly_safe linux_whitelist (''echo & '' @ simple_command [''rm'', ''-r'', ''/srv/data''])"
proof -
  have "list_all simple_word [''rm'', ''-r'', ''/srv/data'']" by code_simp
  then show ?thesis using readonly_guard_bypass [of "[''rm'', ''-r'', ''/srv/data'']" linux_whitelist] by simp
qed

lemma py_contains_append: "py_contains p (u @ p @ v)"
proof (cases "p = []")
  case False
  have "py_partition p (u @ p @ v) \<noteq> None"
  proof (induction u)
    case Nil
    then show ?case using False by (cases p) (auto simp: startswith_def)
  qed auto
  then show ?thesis by (simp add: py_contains_def)
qed (simp add: py_contains_def)

lemma contains_lower: "py_contains p (no_blanks (py_lower s)) \<Longrightarrow> py_lower p = p"
proof -
  assume "py_contains p (no_blanks (py_lower s))"
  then have "set p \<subseteq> set (no_blanks (py_lower s))" by (rule contains_set)
  then have "\<forall>c \<in> set p. \<exists>d. c = py_lower_char d" by (fastforce simp: no_blanks_def py_lower_def)
  then have "\<And>c. c \<in> set p \<Longrightarrow> py_lower_char c = c" using py_lower_char_idem by metis
  then show ?thesis by (simp add: py_lower_def map_idI)
qed

text \<open>the destructive-command guard is exactly the search of the lower-cased patterns: the command is put in lower case
  and the patterns are not, so a pattern with an upper-case letter never matches. Of the list \<open>rm -rf $HOME\<close> and
  \<open>iptables -F\<close> are dead, and \<open>iptables -F\<close> is not blocked.\<close>

theorem destructive_guard_exact:
  "(is_destructive cmd \<longleftrightarrow>
     list_ex (\<lambda>p. py_contains (no_blanks p) (no_blanks (py_lower cmd))) (filter (\<lambda>p. py_lower p = p) DESTRUCTIVE_PATTERNS))
   \<and> filter (\<lambda>p. py_lower p \<noteq> p) DESTRUCTIVE_PATTERNS = [''rm -rf $HOME'', ''iptables -F'']
   \<and> \<not> is_destructive ''iptables -F'' \<and> is_destructive ''sudo  RM  -RF  /var''"
proof -
  have dead: "py_lower p = p" if "py_contains (no_blanks p) (no_blanks (py_lower cmd))" for p
  proof -
    from contains_lower [OF that] have "\<forall>c \<in> set p. c \<noteq> CHR '' '' \<longrightarrow> py_lower_char c = c"
      by (auto simp: no_blanks_def py_lower_def map_idI dest: map_eq_conv [THEN iffD1, of _ _ id, simplified])
    moreover have "py_lower_char (CHR '' '') = CHR '' ''" by (simp add: py_lower_char_def)
    ultimately show ?thesis unfolding py_lower_def by (intro map_idI) metis
  qed
  have "is_destructive cmd \<longleftrightarrow>
     list_ex (\<lambda>p. py_contains (no_blanks p) (no_blanks (py_lower cmd))) (filter (\<lambda>p. py_lower p = p) DESTRUCTIVE_PATTERNS)"
    using dead by (auto simp: is_destructive_def list_ex_iff Let_def)
  moreover have "filter (\<lambda>p. py_lower p \<noteq> p) DESTRUCTIVE_PATTERNS = [''rm -rf $HOME'', ''iptables -F'']" by code_simp
  moreover have "\<not> is_destructive ''iptables -F''" by code_simp
  moreover have "is_destructive ''sudo  RM  -RF  /var''" by code_simp
  ultimately show ?thesis by blast
qed

end
