(* ===== verification/Capability_Gate.thy ===== *)
theory Capability_Gate
  imports Audit_Chain
begin

text \<open>
  The gate before every tool call (\<open>anima/kernel/capability_gate.py\<close>): the privilege tier of a call and the record
  of the call in the audit log. The policy of the sources is to allow and audit every tier.
\<close>

subsection \<open>Tiers\<close>

datatype CapabilityTier = TIER0 | TIER1 | TIER2 | TIER3

fun tier_number :: "CapabilityTier \<Rightarrow> int" where
  "tier_number TIER0 = 0" | "tier_number TIER1 = 1" | "tier_number TIER2 = 2" | "tier_number TIER3 = 3"

definition ALWAYS_TIER3 :: "string list" where "ALWAYS_TIER3 = [''manage_pam'']"
definition TIER3_SVC_ACTIONS :: "string list" where "TIER3_SVC_ACTIONS = [''restart'', ''stop'', ''start'']"
definition TIER2_TOOLS :: "string list" where
  "TIER2_TOOLS = [''manage_file'', ''manage_owned_resource'', ''manage_venv'', ''git_commit'']"
definition TIER1_TOOLS :: "string list" where "TIER1_TOOLS = [''bash'', ''write_file'', ''git_branch'']"
definition TIER0_TOOLS :: "string list" where
  "TIER0_TOOLS = [''read_file'', ''list_files'', ''bash_readonly'', ''fetch_url'', ''deploy'']"

text \<open>The truth value of a Python value; a float is the text it was written as.\<close>

fun truthy :: "json \<Rightarrow> bool" where
  "truthy JNull = False"
| "truthy (JBool b) = b"
| "truthy (JInt n) = (n \<noteq> 0)"
| "truthy (JFloat s) = list_ex (\<lambda>c. is_digit c \<and> c \<noteq> CHR ''0'') (takeWhile (\<lambda>c. c \<noteq> CHR ''e'' \<and> c \<noteq> CHR ''E'') s)"
| "truthy (JStr s) = (s \<noteq> [])"
| "truthy (JList xs) = (xs \<noteq> [])"
| "truthy (JObj kvs) = (kvs \<noteq> [])"

text \<open>Membership in a frozen set hashes the value; lists and dictionaries have no hash.\<close>

definition in_frozenset :: "json \<Rightarrow> string list \<Rightarrow> exn + bool" where
  "in_frozenset v names = (case v of JList _ \<Rightarrow> Inl type_error | JObj _ \<Rightarrow> Inl type_error
     | JStr s \<Rightarrow> Inr (s \<in> set names) | _ \<Rightarrow> Inr False)"

definition get_or :: "string \<Rightarrow> json \<Rightarrow> (string \<times> json) list \<Rightarrow> json" where
  "get_or k dflt params = (case obj_get k params of None \<Rightarrow> dflt | Some v \<Rightarrow> v)"

definition service_call :: "(string \<times> json) list \<Rightarrow> json" where
  "service_call params = (let v = get_or ''svc_action'' JNull params in
     if truthy v then v else get_or ''operation'' (JStr []) params)"

definition classify_tier :: "string \<Rightarrow> (string \<times> json) list \<Rightarrow> exn + CapabilityTier" where
  "classify_tier tool params =
     (if tool \<in> set ALWAYS_TIER3 then Inr TIER3
      else if tool = ''manage_service'' then
        (if get_or ''action'' (JStr []) params \<in> {JStr ''action'', JStr ''approved_apply''} then
           (case in_frozenset (service_call params) TIER3_SVC_ACTIONS of
              Inl e \<Rightarrow> Inl e | Inr b \<Rightarrow> Inr (if b then TIER3 else TIER2))
         else Inr TIER2)
      else if tool \<in> set TIER2_TOOLS then Inr TIER2
      else if tool \<in> set TIER1_TOOLS then Inr TIER1
      else if tool \<in> set TIER0_TOOLS then Inr TIER0
      else Inr TIER0)"

subsection \<open>The gate\<close>

record GateResult =
  allowed :: bool
  gate_tier :: CapabilityTier
  gate_reason :: string
  gate_tool :: string
  gate_user :: string

definition gate_payload :: "GateResult \<Rightarrow> string \<Rightarrow> (string \<times> json) list" where
  "gate_payload r workdir = [(''tool'', JStr (gate_tool r)), (''user_id'', JStr (gate_user r)),
     (''tier'', JInt (tier_number (gate_tier r))), (''allowed'', JBool (allowed r)), (''reason'', JStr (gate_reason r)),
     (''workdir'', JStr workdir)]"

definition audit_action ::
    "('sk, 'pk) crypto \<Rightarrow> string \<Rightarrow> nat \<Rightarrow> int \<Rightarrow> GateResult \<Rightarrow> string \<Rightarrow> (('sk, 'pk, 'm) audit_state, unit) act" where
  "audit_action cr path rnd now r workdir =
     act_catch (act_then (audit_append cr path rnd now ''tool_call'' (gate_payload r workdir)) (act_return ()))
       (\<lambda>_. act_return ())"

definition gate_result :: "string \<Rightarrow> (string \<times> json) list \<Rightarrow> string \<Rightarrow> GateResult" where
  "gate_result tool params user =
     \<lparr>allowed = True, gate_tier = (case classify_tier tool params of Inl e \<Rightarrow> TIER0 | Inr t \<Rightarrow> t),
      gate_reason = ''allowed (SHP.4 audit-first)'', gate_tool = tool, gate_user = user\<rparr>"

definition pre_execute_gate ::
    "('sk, 'pk) crypto \<Rightarrow> string \<Rightarrow> nat \<Rightarrow> int \<Rightarrow> string \<Rightarrow> (string \<times> json) list \<Rightarrow> string \<Rightarrow> string
      \<Rightarrow> (('sk, 'pk, 'm) audit_state, GateResult) act" where
  "pre_execute_gate cr path rnd now tool params workdir user =
     (let r = gate_result tool params user in act_then (audit_action cr path rnd now r workdir) (act_return r))"

text \<open>The calls of a session, each with the randomness and the time of its record.\<close>

record tool_call =
  call_rnd :: nat
  call_time :: int
  call_tool :: string
  call_params :: "(string \<times> json) list"
  call_workdir :: string
  call_user :: string

definition call_event :: "tool_call \<Rightarrow> event" where
  "call_event c = (call_rnd c, call_time c, ''tool_call'',
     gate_payload (gate_result (call_tool c) (call_params c) (call_user c)) (call_workdir c))"

definition gate_call :: "('sk, 'pk) crypto \<Rightarrow> string \<Rightarrow> tool_call \<Rightarrow> (('sk, 'pk, 'm) audit_state, GateResult) act" where
  "gate_call cr path c = pre_execute_gate cr path (call_rnd c) (call_time c) (call_tool c) (call_params c) (call_workdir c) (call_user c)"

fun gate_calls :: "('sk, 'pk) crypto \<Rightarrow> string \<Rightarrow> tool_call list \<Rightarrow> (('sk, 'pk, 'm) audit_state, GateResult list) act" where
  "gate_calls cr path [] = act_return []"
| "gate_calls cr path (c # cs) =
     act_bind (gate_call cr path c) (\<lambda>r. act_bind (gate_calls cr path cs) (\<lambda>rs. act_return (r # rs)))"

lemma audit_append_total: "\<exists>j st'. audit_append cr path rnd now ev payload st = (Inr j, st')"
  by (auto simp: audit_append_def act_simps split: prod.split sum.split)

lemma gate_call_result:
  "gate_call cr path c st = (Inr (gate_result (call_tool c) (call_params c) (call_user c)), run_appends cr path [call_event c] st)"
proof -
  obtain j st' where "audit_append cr path (call_rnd c) (call_time c) ''tool_call''
      (gate_payload (gate_result (call_tool c) (call_params c) (call_user c)) (call_workdir c)) st = (Inr j, st')"
    using audit_append_total by blast
  then show ?thesis
    by (simp add: gate_call_def pre_execute_gate_def audit_action_def act_simps run_appends_def call_event_def Let_def)
qed

lemma gate_calls_result:
  "gate_calls cr path cs st = (Inr (map (\<lambda>c. gate_result (call_tool c) (call_params c) (call_user c)) cs),
     run_appends cr path (map call_event cs) st)"
  by (induction cs arbitrary: st) (simp_all add: act_simps gate_call_result run_appends_def)

lemma call_event_free: "event_free (call_event c)"
  by (simp add: event_free_def call_event_def gate_payload_def)

subsection \<open>Properties\<close>

text \<open>C11: The gate and the audit log together: however many calls a session makes, and whatever their parameters are,
  the gate never raises, allows each of them, and leaves a log that the verifier accepts with exactly one record
  per call.\<close>

theorem gate_audits_every_call:
  assumes "signatures_verify cr" "files (disk st) (fs_key path) = None" "\<not> io_fault (disk st) (fs_key path)"
    "parent_ok path (disk st)" "fs_key (path_parent path) \<noteq> fs_key path" "chain st = new_chain sk (public_of cr sk)"
  shows "\<exists>rs st'. gate_calls cr path cs st = (Inr rs, st') \<and> length rs = length cs \<and> list_all allowed rs
    \<and> audit_verify cr path st' = Inr \<lparr>ok = True, records_verified = length cs, reason = if cs = [] then EmptyChain else NoReason\<rparr>"
  using audit_signed_run [OF assms, of "map call_event cs"] call_event_free
  by (auto simp: gate_calls_result list_all_iff gate_result_def)

theorem gate_audits_every_call_witness:
  "\<exists>rs st'. gate_calls sample_crypto ''/a/log'' [\<lparr>call_rnd = 0, call_time = 5, call_tool = ''bash'', call_params = [],
       call_workdir = ''/w'', call_user = ''u''\<rparr>] sample_audit = (Inr rs, st')
     \<and> audit_verify sample_crypto ''/a/log'' st' = Inr \<lparr>ok = True, records_verified = 1, reason = NoReason\<rparr>"
proof -
  have path: "fs_key ''/a/log'' = ''/a/log''" by code_simp
  have fresh: "files (disk sample_audit) (fs_key ''/a/log'') = None" unfolding path by code_simp
  have fault: "\<not> io_fault (disk sample_audit) (fs_key ''/a/log'')" by (simp add: sample_audit_def)
  have parent: "parent_ok ''/a/log'' (disk sample_audit)" by code_simp
  have apart: "fs_key (path_parent ''/a/log'') \<noteq> fs_key ''/a/log''" by code_simp
  have new: "chain sample_audit = new_chain ''k'' (public_of sample_crypto ''k'')"
    by (simp add: sample_audit_def sample_crypto_def)
  show ?thesis
    using gate_audits_every_call [OF sample_signatures fresh fault parent apart new,
        of "[\<lparr>call_rnd = 0, call_time = 5, call_tool = ''bash'', call_params = [], call_workdir = ''/w'', call_user = ''u''\<rparr>]"]
    by auto
qed

text \<open>The tiers exactly. The highest tier is given to every PAM call and to the three disruptive service actions, by
  whichever of the two parameters they are named; a service call whose action cannot be hashed, a list for instance,
  fails to be classified and gets the lowest tier, like a read.\<close>

theorem gate_tier_exact:
  "(gate_tier (gate_result tool params user) = TIER3 \<longleftrightarrow>
      tool = ''manage_pam''
    \<or> tool = ''manage_service'' \<and> get_or ''action'' (JStr []) params \<in> {JStr ''action'', JStr ''approved_apply''}
        \<and> service_call params \<in> {JStr ''restart'', JStr ''stop'', JStr ''start''})
   \<and> (tool = ''manage_service'' \<and> gate_tier (gate_result tool params user) = TIER0 \<longleftrightarrow>
      tool = ''manage_service'' \<and> get_or ''action'' (JStr []) params \<in> {JStr ''action'', JStr ''approved_apply''}
        \<and> ((\<exists>xs. service_call params = JList xs) \<or> (\<exists>kvs. service_call params = JObj kvs)))"
  by (cases "service_call params")
    (auto simp: gate_result_def classify_tier_def ALWAYS_TIER3_def TIER3_SVC_ACTIONS_def TIER2_TOOLS_def TIER1_TOOLS_def
      TIER0_TOOLS_def in_frozenset_def)

end
