(* ===== verification/Tool_Executor.thy ===== *)
theory Tool_Executor
  imports Shell_Guard Capability_Gate
begin

text \<open>
  The dispatch of tool calls and the tier boundary around the tools that change files
  (\<open>anima/kernel/tools.py\<close>, from \<open>_targets_rawos_own_repo\<close> to \<open>_git_commit\<close> and from \<open>MUTATING_TOOLS\<close> to
  \<open>execute\<close>): a call inside the live tree is refused, a call inside a linked worktree of it is followed by a
  comparison of \<open>git status\<close> before and after, and what changed outside the writable directories is put back. The shell,
  and git behind it, is a parameter, and so is the scanner that redacts secrets in the output of a tool. Dashes in
  messages are hyphens here.
\<close>

subsection \<open>Reading git\<close>

record 'w tool_env =
  run_cmd :: "'w run_shell"
  guard_text :: "string \<Rightarrow> string \<Rightarrow> string"
  exn_text :: "exn \<Rightarrow> string"
  tool_source_root :: string

definition PORCELAIN :: string where "PORCELAIN = ''git status --porcelain=v1 -z -uall''"
definition REV_PARSE_HEAD :: string where "REV_PARSE_HEAD = ''git rev-parse HEAD''"

definition cmd_cat_file :: "string \<Rightarrow> string" where "cmd_cat_file path = ''git cat-file -e '' @ shlex_quote (''HEAD:'' @ path)"
definition cmd_checkout :: "string \<Rightarrow> string" where "cmd_checkout path = ''git checkout HEAD -- '' @ shlex_quote path"
definition cmd_rm_cached :: "string \<Rightarrow> string" where "cmd_rm_cached path = ''git rm -f -r --cached -- '' @ shlex_quote path"
definition cmd_delete :: "string \<Rightarrow> string" where "cmd_delete path = ''rm -rf -- '' @ shlex_quote path"
definition cmd_ls_tests :: "string \<Rightarrow> string" where "cmd_ls_tests name = ''ls tests/test_'' @ name @ ''*.py''"
definition cmd_diff :: "string \<Rightarrow> string \<Rightarrow> string" where "cmd_diff a b = ''git diff --name-only '' @ a @ '' '' @ b"
definition cmd_reset :: "string \<Rightarrow> string" where "cmd_reset a = ''git reset --soft '' @ a"

lemmas cmd_defs = cmd_cat_file_def cmd_checkout_def cmd_rm_cached_def cmd_delete_def cmd_ls_tests_def cmd_diff_def cmd_reset_def

definition git_common_dir :: "'w tool_env \<Rightarrow> string" where
  "git_common_dir env = tool_source_root env @ ''/.git''"

definition TIER1_PREFIXES :: "string list" where
  "TIER1_PREFIXES = [''tests/'', ''anima/evaluation/'', ''anima/dataset/'', ''anima/study/'', ''anima/timing/'', ''anima/manifester/'', ''docs/'']"

definition TIER1_MODULE_DIRS :: "string list" where
  "TIER1_MODULE_DIRS = [''anima/evaluation/'', ''anima/dataset/'', ''anima/study/'', ''anima/timing/'', ''anima/manifester/'']"

definition targets_rawos_own_repo :: "'w tool_env \<Rightarrow> string \<Rightarrow> ('w, bool) act" where
  "targets_rawos_own_repo env workdir = act_bind (run_cmd env ''git rev-parse --show-toplevel'' workdir)
     (\<lambda>res. act_return (exit_code res = 0 \<and> py_strip (bash_stdout res) = tool_source_root env))"

definition is_anima_source_tree :: "'w tool_env \<Rightarrow> string \<Rightarrow> ('w, bool) act" where
  "is_anima_source_tree env workdir = act_bind (run_cmd env ''git rev-parse --path-format=absolute --git-common-dir'' workdir)
     (\<lambda>res. act_return (exit_code res = 0 \<and> py_strip (bash_stdout res) = git_common_dir env))"

text \<open>A snapshot of \<open>git status\<close>: the path and the code of every entry.\<close>

type_synonym snapshot = "(string \<times> string) list"

fun porcelain_entries :: "string list \<Rightarrow> snapshot \<Rightarrow> snapshot" where
  "porcelain_entries [] entries = entries"
| "porcelain_entries [tok] entries = (if tok = [] then entries else AList.update (drop 3 tok) (take 2 tok) entries)"
| "porcelain_entries (tok # orig # toks) entries =
     (if tok = [] then porcelain_entries (orig # toks) entries
      else let entries' = AList.update (drop 3 tok) (take 2 tok) entries in
        if hd tok = CHR ''R'' \<or> hd tok = CHR ''C'' then
          porcelain_entries toks
            (if orig \<noteq> [] \<and> map_of entries' orig = None then AList.update orig ''D '' entries' else entries')
        else porcelain_entries (orig # toks) entries')"

definition parse_porcelain :: "string \<Rightarrow> snapshot" where
  "parse_porcelain out = porcelain_entries (split_on (CHR 0x00) out) []"

definition git_status_porcelain :: "'w tool_env \<Rightarrow> string \<Rightarrow> ('w, snapshot) act" where
  "git_status_porcelain env workdir = act_bind (run_cmd env PORCELAIN workdir)
     (\<lambda>res. act_return (if exit_code res \<noteq> 0 then [] else parse_porcelain (bash_stdout res)))"

definition status_diff_paths :: "snapshot \<Rightarrow> snapshot \<Rightarrow> string list" where
  "status_diff_paths before after = filter (\<lambda>p. map_of before p \<noteq> map_of after p) (remdups (map fst before @ map fst after))"

definition rstrip_slashes :: "string \<Rightarrow> string" where
  "rstrip_slashes s = rev (dropWhile (\<lambda>c. c = slash) (rev s))"

definition in_tier1_allowlist :: "string \<Rightarrow> bool" where
  "in_tier1_allowlist path = list_ex (\<lambda>pre. path = rstrip_slashes pre \<or> startswith path pre) TIER1_PREFIXES"

subsection \<open>Violations\<close>

definition git_checkout_restore :: "'w tool_env \<Rightarrow> string \<Rightarrow> string \<Rightarrow> ('w, bash_result) act" where
  "git_checkout_restore env workdir path =
     act_bind (run_cmd env (cmd_cat_file path) workdir) (\<lambda>head_has_path.
       if exit_code head_has_path = 0 then run_cmd env (cmd_checkout path) workdir
       else act_then (run_cmd env (cmd_rm_cached path) workdir)
              (run_cmd env (cmd_delete path) workdir))"

definition ends_py :: "string \<Rightarrow> bool" where
  "ends_py path \<longleftrightarrow> startswith (rev path) (rev ''.py'')"

definition tests_of :: "string \<Rightarrow> string" where
  "tests_of dir = last (split_on slash (rstrip_slashes dir))"

definition is_bootstrap_blocked :: "'w tool_env \<Rightarrow> string \<Rightarrow> string \<Rightarrow> ('w, bool) act" where
  "is_bootstrap_blocked env path workdir =
     (case find (\<lambda>dir. startswith path dir \<and> ends_py path) TIER1_MODULE_DIRS of
        None \<Rightarrow> act_return False
      | Some dir \<Rightarrow> act_bind (run_cmd env (cmd_ls_tests (tests_of dir)) workdir)
          (\<lambda>res. act_return (py_strip (bash_stdout res) = [])))"

definition entry_status :: "snapshot \<Rightarrow> snapshot \<Rightarrow> string \<Rightarrow> string" where
  "entry_status before after path = (case map_of after path of
       Some (c # cs) \<Rightarrow> c # cs
     | _ \<Rightarrow> (case map_of before path of Some s \<Rightarrow> s | None \<Rightarrow> []))"

definition is_violation :: "'w tool_env \<Rightarrow> string \<Rightarrow> snapshot \<Rightarrow> snapshot \<Rightarrow> string \<Rightarrow> ('w, bool) act" where
  "is_violation env workdir before after path =
     (if \<not> in_tier1_allowlist path then act_return True
      else let status = entry_status before after path; is_new = (startswith status ''?'' \<or> startswith status ''A'') in
        if is_new then act_return False else is_bootstrap_blocked env path workdir)"

fun violations_among :: "'w tool_env \<Rightarrow> string \<Rightarrow> snapshot \<Rightarrow> snapshot \<Rightarrow> string list \<Rightarrow> ('w, string list) act" where
  "violations_among env workdir before after [] = act_return []"
| "violations_among env workdir before after (p # ps) =
     act_bind (is_violation env workdir before after p) (\<lambda>v.
     act_bind (violations_among env workdir before after ps) (\<lambda>vs. act_return (if v then p # vs else vs)))"

definition tier_violations :: "'w tool_env \<Rightarrow> string \<Rightarrow> snapshot \<Rightarrow> snapshot \<Rightarrow> ('w, string list) act" where
  "tier_violations env workdir before after = violations_among env workdir before after (status_diff_paths before after)"

fun restore_each :: "'w tool_env \<Rightarrow> string \<Rightarrow> string list \<Rightarrow> ('w, unit) act" where
  "restore_each env workdir [] = act_return ()"
| "restore_each env workdir (p # ps) = act_then (git_checkout_restore env workdir p) (restore_each env workdir ps)"

definition list_repr :: "string list \<Rightarrow> string" where
  "list_repr xs = ''['' @ py_join '', '' (map py_repr xs) @ '']''"

subsection \<open>Running a tool\<close>

type_synonym 'w tool_fn = "(string \<times> json) list \<Rightarrow> string \<Rightarrow> ('w, tool_result) act"

definition run_impl :: "'w tool_env \<Rightarrow> 'w tool_fn \<Rightarrow> string \<Rightarrow> (string \<times> json) list \<Rightarrow> string \<Rightarrow> ('w, tool_result) act" where
  "run_impl env impl tool_name params workdir =
     act_catch (act_bind (impl params workdir) (\<lambda>r. act_return (r\<lparr>tool_text := guard_text env (tool_text r) tool_name\<rparr>)))
       (\<lambda>e. act_return (tool_error (''tool error: '' @ exn_text env e)))"

definition failed_with :: "tool_result \<Rightarrow> string \<Rightarrow> tool_result" where
  "failed_with r msg = r\<lparr>tool_text := tool_text r @ [CHR 0x0A, CHR 0x0A] @ msg, success := False\<rparr>"

definition main_repo :: "'w tool_env \<Rightarrow> string" where
  "main_repo env = path_parent (git_common_dir env)"

text \<open>The range of new commits: when its net change has a path outside the writable directories, or cannot be computed,
  the commits are undone; the result is the error of an undo that failed.\<close>

definition committed_outside :: "bash_result \<Rightarrow> bool" where
  "committed_outside diff \<longleftrightarrow> exit_code diff \<noteq> 0
     \<or> list_ex (\<lambda>p. p \<noteq> [] \<and> \<not> in_tier1_allowlist p) (splitlines (py_strip (bash_stdout diff)))"

definition undo_commits :: "'w tool_env \<Rightarrow> string \<Rightarrow> string \<Rightarrow> string \<Rightarrow> tool_result \<Rightarrow> ('w, tool_result option) act" where
  "undo_commits env workdir before_head after_head result =
     (if before_head \<noteq> [] \<and> after_head \<noteq> before_head then
        act_bind (run_cmd env (cmd_diff before_head after_head) workdir) (\<lambda>diff.
          if committed_outside diff then
            act_bind (run_cmd env (cmd_reset before_head) workdir) (\<lambda>reset.
              if exit_code reset \<noteq> 0 then act_return (Some (failed_with result
                (''TIER ENFORCEMENT ERROR: git reset --soft '' @ before_head @ '' failed (exit '' @ show_int (exit_code reset) @ ''): ''
                 @ py_strip (bash_stderr reset) @ ''. Worktree may be in an inconsistent state - manual inspection required.'')))
              else act_return None)
          else act_return None)
      else act_return None)"

definition head_of :: "'w tool_env \<Rightarrow> string \<Rightarrow> ('w, string) act" where
  "head_of env workdir = act_bind (run_cmd env REV_PARSE_HEAD workdir) (\<lambda>r. act_return (py_strip (bash_stdout r)))"

definition revert_worktree :: "'w tool_env \<Rightarrow> string \<Rightarrow> string list \<Rightarrow> tool_result \<Rightarrow> ('w, tool_result) act" where
  "revert_worktree env workdir violations result =
     (if violations = [] then act_return result
      else act_then (restore_each env workdir (sort violations))
        (act_return (failed_with result (''TIER VIOLATION: reverted '' @ list_repr (sort violations)
           @ '' - outside the TIER 1 allowlist for anima self-modification, or a TIER 1 module without its own test coverage yet (PLAN.md Pass 1 item 2).''))))"

definition revert_live :: "'w tool_env \<Rightarrow> string list \<Rightarrow> tool_result \<Rightarrow> ('w, tool_result) act" where
  "revert_live env live_violations result =
     act_then (restore_each env (main_repo env) (sort live_violations))
       (act_return (failed_with result (''TIER VIOLATION (LIVE REPO): out-of-worktree write detected and reverted in ''
          @ list_repr (sort live_violations) @ '' - worktree tools must not modify the live anima repo directly (absolute paths, symlinks, or hardlinks).'')))"

definition check_after :: "'w tool_env \<Rightarrow> string \<Rightarrow> bool \<Rightarrow> snapshot \<Rightarrow> snapshot \<Rightarrow> tool_result \<Rightarrow> ('w, tool_result) act" where
  "check_after env workdir is_linked before_status before_live result =
     act_bind (git_status_porcelain env workdir) (\<lambda>after_status.
     act_bind (tier_violations env workdir before_status after_status) (\<lambda>violations.
       if is_linked then
         act_bind (git_status_porcelain env (main_repo env)) (\<lambda>after_live.
         act_bind (tier_violations env (main_repo env) before_live after_live) (\<lambda>live_violations.
           if live_violations \<noteq> [] then revert_live env live_violations result
           else revert_worktree env workdir violations result))
       else revert_worktree env workdir violations result))"

definition execute_with_tier_enforcement ::
    "'w tool_env \<Rightarrow> 'w tool_fn \<Rightarrow> string \<Rightarrow> (string \<times> json) list \<Rightarrow> string \<Rightarrow> ('w, tool_result) act" where
  "execute_with_tier_enforcement env impl tool_name params workdir =
     (let is_linked = (fs_key workdir \<noteq> fs_key (main_repo env)) in
      act_bind (git_status_porcelain env workdir) (\<lambda>before_status.
      act_bind (if is_linked then git_status_porcelain env (main_repo env) else act_return []) (\<lambda>before_live.
      act_bind (head_of env workdir) (\<lambda>before_head.
      act_bind (run_impl env impl tool_name params workdir) (\<lambda>result.
      act_bind (head_of env workdir) (\<lambda>after_head.
      act_bind (undo_commits env workdir before_head after_head result) (\<lambda>stop.
        case stop of Some r \<Rightarrow> act_return r
        | None \<Rightarrow> check_after env workdir is_linked before_status before_live result)))))))"

subsection \<open>Dispatch\<close>

definition MUTATING_TOOLS :: "string list" where
  "MUTATING_TOOLS = [''write_file'', ''bash'', ''git_branch'', ''git_commit'']"

text \<open>The state of a call: the audit log and the rest of the host.\<close>

definition on_log :: "('a, 'r) act \<Rightarrow> ('a \<times> 'w, 'r) act" where
  "on_log m = (\<lambda>(a, w). case m a of (r, a') \<Rightarrow> (r, (a', w)))"

definition on_host :: "('w, 'r) act \<Rightarrow> ('a \<times> 'w, 'r) act" where
  "on_host m = (\<lambda>(a, w). case m w of (r, w') \<Rightarrow> (r, (a, w')))"

definition live_refusal :: "string \<Rightarrow> string" where
  "live_refusal tool_name = ''error: refusing to run '' @ [squote] @ tool_name @ [squote] @ '' inside /root/rawos - this is anima'' @ [squote]
     @ ''s own live working tree (anima.service runs from here with Restart=always, and is continuously writing data/rawos.db and data/chroma/**, so detect-and-revert is unsafe here). Self-modification must happen in an isolated git worktree. SIGNAL instead.''"

definition dispatch :: "'w tool_env \<Rightarrow> (string \<Rightarrow> 'w tool_fn option) \<Rightarrow> string \<Rightarrow> (string \<times> json) list \<Rightarrow> string \<Rightarrow> ('w, tool_result) act" where
  "dispatch env registry tool_name params workdir = (case registry tool_name of
       None \<Rightarrow> act_return (tool_error (''unknown tool: '' @ tool_name))
     | Some impl \<Rightarrow>
         if tool_name \<in> set MUTATING_TOOLS then
           act_bind (targets_rawos_own_repo env workdir) (\<lambda>own.
             if own then act_return (tool_error (live_refusal tool_name))
             else act_bind (is_anima_source_tree env workdir) (\<lambda>tree.
               if tree then execute_with_tier_enforcement env impl tool_name params workdir
               else run_impl env impl tool_name params workdir))
         else run_impl env impl tool_name params workdir)"

definition execute ::
    "('sk, 'pk) crypto \<Rightarrow> string \<Rightarrow> nat \<Rightarrow> int \<Rightarrow> 'w tool_env \<Rightarrow> (string \<Rightarrow> 'w tool_fn option) \<Rightarrow> string
      \<Rightarrow> string \<Rightarrow> (string \<times> json) list \<Rightarrow> string \<Rightarrow> (('sk, 'pk, 'm) audit_state \<times> 'w, tool_result) act" where
  "execute cr path rnd now env registry user tool_name params workdir =
     act_bind (on_log (pre_execute_gate cr path rnd now tool_name params workdir user)) (\<lambda>gate.
       if \<not> allowed gate then act_return (tool_error (''error: '' @ gate_reason gate))
       else on_host (dispatch env registry tool_name params workdir))"

subsection \<open>Git tools\<close>

definition PROTECTED_BRANCHES :: "string list" where "PROTECTED_BRANCHES = [''main'', ''master'', ''develop'', ''HEAD'']"

text \<open>\<open>(params.get(k) or dflt)\<close>, used as a string.\<close>

definition param_or :: "string \<Rightarrow> string \<Rightarrow> (string \<times> json) list \<Rightarrow> exn + string" where
  "param_or k dflt params = (let v = get_or k JNull params in
     if \<not> truthy v then Inr dflt else case v of JStr s \<Rightarrow> Inr s | _ \<Rightarrow> Inl attribute_error)"

definition branch_char :: "char \<Rightarrow> bool" where
  "branch_char c \<longleftrightarrow> (let n = (of_char c :: nat) in 97 \<le> n \<and> n \<le> 122 \<or> 65 \<le> n \<and> n \<le> 90 \<or> 48 \<le> n \<and> n \<le> 57) \<or> c \<in> set ''_-.''"

definition own_branch :: string where "own_branch = ''anima/''"

definition branch_suffix :: "int \<Rightarrow> string \<Rightarrow> string" where
  "branch_suffix now raw_name = (if raw_name \<noteq> [] then
       (if startswith raw_name own_branch then drop (length own_branch) raw_name else raw_name)
     else ''fix-'' @ show_int now)"

definition git_report :: "string \<Rightarrow> bash_result \<Rightarrow> tool_result" where
  "git_report dflt r = (let shown_text = py_strip (py_join [CHR 0x0A] (filter (\<lambda>x. x \<noteq> []) [bash_stdout r, bash_stderr r])) in
     \<lparr>tool_text = (if shown_text \<noteq> [] then shown_text else dflt), success = (exit_code r = 0), duration_ms = bash_ms r\<rparr>)"

definition cmd_branch :: "string \<Rightarrow> string" where "cmd_branch name = ''git checkout -b '' @ name"
definition CURRENT_BRANCH :: string where "CURRENT_BRANCH = ''git rev-parse --abbrev-ref HEAD''"
definition GIT_ADD :: string where "GIT_ADD = ''git add -A''"
definition GIT_STAGED :: string where "GIT_STAGED = ''git diff --cached --name-only''"
definition cmd_commit :: "string \<Rightarrow> string" where
  "cmd_commit message = ''git -c user.name='' @ [dquote] @ ''anima'' @ [dquote] @ '' -c user.email='' @ [dquote] @ ''anima@autonomous.local''
     @ [dquote] @ '' commit -m '' @ shlex_quote message"

definition git_branch :: "'w tool_env \<Rightarrow> int \<Rightarrow> (string \<times> json) list \<Rightarrow> string \<Rightarrow> ('w, tool_result) act" where
  "git_branch env now params workdir = act_bind (targets_rawos_own_repo env workdir) (\<lambda>own.
     if own then act_return (tool_error (''error: refusing to create a branch inside /root/rawos - this is anima'' @ [squote]
       @ ''s own live working tree (anima.service runs from here with Restart=always). SIGNAL instead.''))
     else (case param_or ''name'' [] params of
         Inl e \<Rightarrow> act_raise e
       | Inr raw \<Rightarrow> (let suffix = branch_suffix now (py_strip raw) in
           if suffix = [] \<or> \<not> list_all branch_char suffix then
             act_return (tool_error (''error: invalid branch suffix '' @ [squote] @ suffix @ [squote] @ '' - only alphanumeric, dash, underscore, dot are allowed''))
           else if suffix \<in> set PROTECTED_BRANCHES then
             act_return (tool_error (''error: refusing to create anima/'' @ suffix @ '' - '' @ [squote] @ suffix @ [squote] @ '' is a protected branch name''))
           else act_bind (run_cmd env (cmd_branch (own_branch @ suffix)) workdir) (\<lambda>r.
             act_return (git_report (''Created and switched to branch '' @ own_branch @ suffix) r)))))"

definition commit_message :: "(string \<times> json) list \<Rightarrow> exn + string" where
  "commit_message params = (case param_or ''message'' ''anima: autonomous fix'' params of
     Inl e \<Rightarrow> Inl e
   | Inr m \<Rightarrow> Inr (if py_strip m \<noteq> [] then py_strip m else ''anima: autonomous fix''))"

definition git_commit :: "'w tool_env \<Rightarrow> (string \<times> json) list \<Rightarrow> string \<Rightarrow> ('w, tool_result) act" where
  "git_commit env params workdir = act_bind (targets_rawos_own_repo env workdir) (\<lambda>own.
     if own then act_return (tool_error (''error: refusing to commit inside /root/rawos - this is anima'' @ [squote]
       @ ''s own live working tree (anima.service runs from here with Restart=always). SIGNAL instead.''))
     else (case commit_message params of
         Inl e \<Rightarrow> act_raise e
       | Inr message \<Rightarrow> act_bind (run_cmd env CURRENT_BRANCH workdir) (\<lambda>branch.
           if exit_code branch \<noteq> 0 then act_return (tool_error ''error: not a git repository or repo has no commits yet'')
           else if \<not> startswith (py_strip (bash_stdout branch)) own_branch then
             act_return (tool_error (''error: refusing to commit to '' @ [squote] @ py_strip (bash_stdout branch) @ [squote]
               @ '' - anima only commits to anima/* branches. Call git_branch first to create an isolated anima/* branch.''))
           else act_bind (run_cmd env GIT_ADD workdir) (\<lambda>add.
             if exit_code add \<noteq> 0 then act_return ((tool_error (''error: git add -A failed: '' @ py_strip (bash_stderr add)))\<lparr>duration_ms := bash_ms add\<rparr>)
             else act_bind (run_cmd env GIT_STAGED workdir) (\<lambda>staged.
               if py_strip (bash_stdout staged) = [] then act_return (tool_error ''nothing to commit - no staged changes after git add -A'')
               else act_bind (run_cmd env (cmd_commit message) workdir) (\<lambda>r. act_return (git_report [] r)))))))"

subsection \<open>What is relied on of git\<close>

text \<open>What \<open>git status\<close> shows in a work tree and which paths the head commit has. A path is literal when git does not
  read it as a pattern.\<close>

record 'w git_view =
  shown :: "'w \<Rightarrow> string \<Rightarrow> string \<Rightarrow> string option"
  in_head :: "'w \<Rightarrow> string \<Rightarrow> string \<Rightarrow> bool"

definition literal_path :: "string \<Rightarrow> bool" where
  "literal_path p \<longleftrightarrow> p \<noteq> [] \<and> hd p \<noteq> CHR '':'' \<and> set p \<inter> {CHR ''*'', CHR ''?'', CHR ''['', bslash} = {}"

definition rename_code :: "string option \<Rightarrow> bool" where
  "rename_code c = (case c of Some (x # xs) \<Rightarrow> x = CHR ''R'' \<or> x = CHR ''C'' | _ \<Rightarrow> False)"

definition same_view :: "string set \<Rightarrow> 'w git_view \<Rightarrow> 'w \<Rightarrow> 'w \<Rightarrow> bool" where
  "same_view roots V w w' \<longleftrightarrow> (\<forall>d \<in> roots. shown V w' d = shown V w d \<and> in_head V w' d = in_head V w d)"

text \<open>Only the path \<open>p\<close> of the work tree \<open>d\<close> may show differently; the source of a rename that comes back turns the
  code of its target from renamed to added.\<close>

definition only_path :: "string set \<Rightarrow> 'w git_view \<Rightarrow> string \<Rightarrow> string \<Rightarrow> 'w \<Rightarrow> 'w \<Rightarrow> bool" where
  "only_path roots V d p w w' \<longleftrightarrow>
     (\<forall>e \<in> roots. in_head V w' e = in_head V w e \<and> (e \<noteq> d \<longrightarrow> shown V w' e = shown V w e))
   \<and> (\<forall>q. q \<noteq> p \<longrightarrow> shown V w' d q = shown V w d q \<or> rename_code (shown V w d q))"

definition reads_view :: "string set \<Rightarrow> 'w git_view \<Rightarrow> 'w run_shell \<Rightarrow> string \<Rightarrow> bool" where
  "reads_view roots V run cmd \<longleftrightarrow> (\<forall>d \<in> roots. \<forall>w. \<exists>r w'. run cmd d w = (Inr r, w') \<and> same_view roots V w w')"

definition git_reads_laws :: "string set \<Rightarrow> 'w git_view \<Rightarrow> 'w run_shell \<Rightarrow> bool" where
  "git_reads_laws roots V run \<longleftrightarrow>
     (\<forall>d \<in> roots. \<forall>w. \<exists>r w'. run PORCELAIN d w = (Inr r, w') \<and> exit_code r = 0
        \<and> map_of (parse_porcelain (bash_stdout r)) = shown V w d \<and> same_view roots V w w')
   \<and> reads_view roots V run REV_PARSE_HEAD
   \<and> (\<forall>m. reads_view roots V run (cmd_ls_tests m))
   \<and> (\<forall>a b. reads_view roots V run (cmd_diff a b))
   \<and> (\<forall>d \<in> roots. \<forall>w p. \<exists>r w'. run (cmd_cat_file p) d w = (Inr r, w')
        \<and> (exit_code r = 0 \<longleftrightarrow> in_head V w d p) \<and> same_view roots V w w')"

definition git_writes_laws :: "string set \<Rightarrow> 'w git_view \<Rightarrow> 'w run_shell \<Rightarrow> bool" where
  "git_writes_laws roots V run \<longleftrightarrow>
     (\<forall>d \<in> roots. \<forall>w a. \<exists>r w'. run (cmd_reset a) d w = (Inr r, w')
        \<and> (\<forall>e \<in> roots. e \<noteq> d \<longrightarrow> shown V w' e = shown V w e))
   \<and> (\<forall>d \<in> roots. \<forall>w p. literal_path p \<and> in_head V w d p \<longrightarrow>
        (\<exists>r w'. run (cmd_checkout p) d w = (Inr r, w') \<and> shown V w' d p = None \<and> only_path roots V d p w w'))
   \<and> (\<forall>d \<in> roots. \<forall>w p. literal_path p \<and> \<not> in_head V w d p \<longrightarrow>
        (\<exists>r w'. run (cmd_rm_cached p) d w = (Inr r, w')
           \<and> shown V w' d p \<in> {None, Some ''??''} \<and> only_path roots V d p w w'))
   \<and> (\<forall>d \<in> roots. \<forall>w p. literal_path p \<and> shown V w d p \<in> {None, Some ''??''} \<longrightarrow>
        (\<exists>r w'. run (cmd_delete p) d w = (Inr r, w') \<and> shown V w' d p = None \<and> only_path roots V d p w w'))"

definition git_laws :: "string set \<Rightarrow> 'w git_view \<Rightarrow> 'w run_shell \<Rightarrow> bool" where
  "git_laws roots V run \<longleftrightarrow> git_reads_laws roots V run \<and> git_writes_laws roots V run
     \<and> (\<forall>d \<in> roots. \<forall>w p. shown V w d p \<noteq> None \<longrightarrow> literal_path p)"

lemma same_view_refl: "same_view roots V w w"
  by (simp add: same_view_def)

lemma same_view_trans: "same_view roots V a b \<Longrightarrow> same_view roots V b c \<Longrightarrow> same_view roots V a c"
  by (simp add: same_view_def)

lemma same_viewD: "same_view roots V w w' \<Longrightarrow> d \<in> roots \<Longrightarrow> shown V w' d = shown V w d"
  by (simp add: same_view_def)

lemma same_view_only: "same_view roots V a b \<Longrightarrow> d \<in> roots \<Longrightarrow> only_path roots V d p b c \<Longrightarrow> only_path roots V d p a c"
  unfolding same_view_def only_path_def by auto

lemma reads_viewE:
  assumes "reads_view roots V run cmd" "d \<in> roots"
  obtains r w' where "run cmd d w = (Inr r, w')" "same_view roots V w w'"
proof -
  have "\<exists>r w'. run cmd d w = (Inr r, w') \<and> same_view roots V w w'" using assms unfolding reads_view_def by blast
  then show thesis using that by blast
qed

subsection \<open>The steps of the enforcement\<close>

lemma git_lawsD:
  assumes "git_laws roots V run" "d \<in> roots"
  shows "\<exists>r w'. run PORCELAIN d w = (Inr r, w') \<and> exit_code r = 0
      \<and> map_of (parse_porcelain (bash_stdout r)) = shown V w d \<and> same_view roots V w w'"
    and "reads_view roots V run REV_PARSE_HEAD"
    and "reads_view roots V run (cmd_ls_tests m)"
    and "reads_view roots V run (cmd_diff a b)"
    and "\<exists>r w'. run (cmd_cat_file p) d w = (Inr r, w')
        \<and> (exit_code r = 0 \<longleftrightarrow> in_head V w d p) \<and> same_view roots V w w'"
    and "shown V w d p \<noteq> None \<Longrightarrow> literal_path p"
  using assms unfolding git_laws_def git_reads_laws_def by blast+

lemma git_laws_writesD:
  assumes "git_laws roots V run" "d \<in> roots"
  shows "\<exists>r w'. run (cmd_reset a) d w = (Inr r, w') \<and> (\<forall>e \<in> roots. e \<noteq> d \<longrightarrow> shown V w' e = shown V w e)"
    and "literal_path p \<Longrightarrow> in_head V w d p \<Longrightarrow> \<exists>r w'. run (cmd_checkout p) d w = (Inr r, w')
        \<and> shown V w' d p = None \<and> only_path roots V d p w w'"
    and "literal_path p \<Longrightarrow> \<not> in_head V w d p \<Longrightarrow> \<exists>r w'. run (cmd_rm_cached p) d w = (Inr r, w')
        \<and> shown V w' d p \<in> {None, Some ''??''} \<and> only_path roots V d p w w'"
    and "literal_path p \<Longrightarrow> shown V w d p \<in> {None, Some ''??''} \<Longrightarrow> \<exists>r w'. run (cmd_delete p) d w = (Inr r, w')
        \<and> shown V w' d p = None \<and> only_path roots V d p w w'"
proof -
  note W = conjunct1 [OF conjunct2 [OF assms(1) [unfolded git_laws_def]], unfolded git_writes_laws_def]
  show "\<exists>r w'. run (cmd_reset a) d w = (Inr r, w') \<and> (\<forall>e \<in> roots. e \<noteq> d \<longrightarrow> shown V w' e = shown V w e)"
    using bspec [OF conjunct1 [OF W] assms(2)] by blast
  show "\<exists>r w'. run (cmd_checkout p) d w = (Inr r, w') \<and> shown V w' d p = None \<and> only_path roots V d p w w'"
    if "literal_path p" "in_head V w d p"
    using bspec [OF conjunct1 [OF conjunct2 [OF W]] assms(2)] that by simp
  show "\<exists>r w'. run (cmd_rm_cached p) d w = (Inr r, w')
        \<and> shown V w' d p \<in> {None, Some ''??''} \<and> only_path roots V d p w w'"
    if "literal_path p" "\<not> in_head V w d p"
    using bspec [OF conjunct1 [OF conjunct2 [OF conjunct2 [OF W]]] assms(2)] that by simp
  show "\<exists>r w'. run (cmd_delete p) d w = (Inr r, w') \<and> shown V w' d p = None \<and> only_path roots V d p w w'"
    if "literal_path p" "shown V w d p \<in> {None, Some ''??''}"
    using bspec [OF conjunct2 [OF conjunct2 [OF conjunct2 [OF W]]] assms(2)] that by simp
qed

lemma status_step:
  assumes "git_laws roots V (run_cmd env)" "d \<in> roots"
  shows "\<exists>m w'. git_status_porcelain env d w = (Inr m, w') \<and> map_of m = shown V w d \<and> same_view roots V w w'"
proof -
  from git_lawsD(1) [OF assms] obtain r w' where "run_cmd env PORCELAIN d w = (Inr r, w')" "exit_code r = 0"
    "map_of (parse_porcelain (bash_stdout r)) = shown V w d" "same_view roots V w w'" by blast
  then show ?thesis by (simp add: git_status_porcelain_def act_simps)
qed

lemma head_step:
  assumes "git_laws roots V (run_cmd env)" "d \<in> roots"
  shows "\<exists>h w'. head_of env d w = (Inr h, w') \<and> same_view roots V w w'"
proof -
  obtain r w' where "run_cmd env REV_PARSE_HEAD d w = (Inr r, w')" "same_view roots V w w'"
    by (rule reads_viewE [OF git_lawsD(2) [OF assms] assms(2)])
  then show ?thesis by (simp add: head_of_def act_simps)
qed

lemma violation_step:
  assumes "git_laws roots V (run_cmd env)" "d \<in> roots"
  shows "\<exists>v w'. is_violation env d before after p w = (Inr v, w') \<and> same_view roots V w w' \<and> (v \<or> in_tier1_allowlist p)"
proof -
  obtain b w' where b: "is_bootstrap_blocked env p d w = (Inr b, w')" "same_view roots V w w'"
  proof (cases "find (\<lambda>dir. startswith p dir \<and> ends_py p) TIER1_MODULE_DIRS")
    case None
    then show thesis using that [of False w] same_view_refl [of roots V w] by (simp add: is_bootstrap_blocked_def)
  next
    case (Some dir)
    obtain r w' where "run_cmd env (cmd_ls_tests (tests_of dir)) d w = (Inr r, w')" "same_view roots V w w'"
      by (rule reads_viewE [OF git_lawsD(3) [OF assms] assms(2)])
    then show thesis using that Some by (simp add: is_bootstrap_blocked_def act_simps)
  qed
  consider "\<not> in_tier1_allowlist p" | "in_tier1_allowlist p" "is_violation env d before after p w = (Inr False, w)"
    | "in_tier1_allowlist p" "is_violation env d before after p w = (Inr b, w')"
  proof (cases "startswith (entry_status before after p) ''?'' \<or> startswith (entry_status before after p) ''A''")
    case True
    then show thesis using that by (cases "in_tier1_allowlist p") (simp_all add: is_violation_def Let_def)
  next
    case False
    then show thesis using that b(1) by (cases "in_tier1_allowlist p") (simp_all add: is_violation_def Let_def)
  qed
  then show ?thesis
  proof cases
    case 1
    then have "is_violation env d before after p w = (Inr True, w)" by (simp add: is_violation_def)
    then show ?thesis using same_view_refl [of roots V w] by blast
  next
    case 2
    then show ?thesis using same_view_refl [of roots V w] by blast
  next
    case 3
    then show ?thesis using b(2) by blast
  qed
qed

lemma violations_among_step:
  assumes "git_laws roots V (run_cmd env)" "d \<in> roots"
  shows "\<exists>vs w'. violations_among env d before after ps w = (Inr vs, w') \<and> same_view roots V w w'
    \<and> set vs \<subseteq> set ps \<and> (\<forall>p \<in> set ps. p \<in> set vs \<or> in_tier1_allowlist p)"
proof (induction ps arbitrary: w)
  case (Cons p ps)
  obtain v w1 where v: "is_violation env d before after p w = (Inr v, w1)" "same_view roots V w w1" "v \<or> in_tier1_allowlist p"
    using violation_step [OF assms] by blast
  obtain vs w2 where vs: "violations_among env d before after ps w1 = (Inr vs, w2)" "same_view roots V w1 w2"
    "set vs \<subseteq> set ps" "\<forall>p \<in> set ps. p \<in> set vs \<or> in_tier1_allowlist p"
    using Cons.IH by blast
  show ?case using v vs same_view_trans [OF v(2) vs(2)] by (auto simp: act_simps)
qed (simp add: same_view_refl)

lemma tier_violations_step:
  assumes "git_laws roots V (run_cmd env)" "d \<in> roots"
  shows "\<exists>vs w'. tier_violations env d before after w = (Inr vs, w') \<and> same_view roots V w w'
    \<and> (\<forall>p \<in> set vs. map_of before p \<noteq> map_of after p)
    \<and> (\<forall>p. map_of before p = map_of after p \<or> p \<in> set vs \<or> in_tier1_allowlist p)"
proof -
  have d: "p \<in> set (status_diff_paths before after) \<longleftrightarrow> map_of before p \<noteq> map_of after p" for p
    by (cases "map_of before p"; cases "map_of after p") (auto simp: status_diff_paths_def dest: map_of_SomeD intro: rev_image_eqI)
  from violations_among_step [OF assms] obtain vs w' where "violations_among env d before after (status_diff_paths before after) w = (Inr vs, w')"
    "same_view roots V w w'" "set vs \<subseteq> set (status_diff_paths before after)"
    "\<forall>p \<in> set (status_diff_paths before after). p \<in> set vs \<or> in_tier1_allowlist p" by blast
  then show ?thesis unfolding tier_violations_def using d by blast
qed

lemma only_path_keeps_literal: "git_laws roots V run \<Longrightarrow> d \<in> roots \<Longrightarrow> shown V w d p \<noteq> None \<Longrightarrow> literal_path p"
  by (rule git_lawsD(6))

lemma only_path_trans:
  "only_path roots V d p a b \<Longrightarrow> only_path roots V d p b c \<Longrightarrow> only_path roots V d p a c"
  unfolding only_path_def by (metis (no_types, lifting))

lemma restore_step:
  assumes "git_laws roots V (run_cmd env)" "d \<in> roots" "literal_path p"
  shows "\<exists>r w'. git_checkout_restore env d p w = (Inr r, w') \<and> shown V w' d p = None \<and> only_path roots V d p w w'"
proof -
  obtain r w1 where cat: "run_cmd env (cmd_cat_file p) d w = (Inr r, w1)"
    "exit_code r = 0 \<longleftrightarrow> in_head V w d p" "same_view roots V w w1"
    using git_lawsD(5) [OF assms(1,2)] by blast
  then have h1: "in_head V w1 d p \<longleftrightarrow> exit_code r = 0" using assms(2) by (simp add: same_view_def)
  show ?thesis
  proof (cases "exit_code r = 0")
    case True
    obtain r2 w2 where "run_cmd env (cmd_checkout p) d w1 = (Inr r2, w2)" "shown V w2 d p = None"
      "only_path roots V d p w1 w2"
      using git_laws_writesD(2) [OF assms(1,2,3)] True h1 by blast
    moreover from this(1) have "git_checkout_restore env d p w = (Inr r2, w2)" using cat(1) True by (simp add: git_checkout_restore_def act_simps)
    ultimately show ?thesis using same_view_only [OF cat(3) assms(2)] by blast
  next
    case False
    obtain r2 w2 where rm: "run_cmd env (cmd_rm_cached p) d w1 = (Inr r2, w2)"
      "shown V w2 d p \<in> {None, Some ''??''}" "only_path roots V d p w1 w2"
      using git_laws_writesD(3) [OF assms(1,2,3)] False h1 by blast
    obtain r3 w3 where del: "run_cmd env (cmd_delete p) d w2 = (Inr r3, w3)"
      "shown V w3 d p = None" "only_path roots V d p w2 w3"
      using git_laws_writesD(4) [OF assms(1,2,3) rm(2)] by blast
    have "git_checkout_restore env d p w = (Inr r3, w3)"
      using cat(1) False rm(1) del(1) by (simp add: git_checkout_restore_def act_simps)
    then show ?thesis using del(2) same_view_only [OF cat(3) assms(2) only_path_trans [OF rm(3) del(3)]] by blast
  qed
qed

text \<open>After the paths \<open>ps\<close> of \<open>d\<close> were put back.\<close>

definition put_back :: "string set \<Rightarrow> 'w git_view \<Rightarrow> string \<Rightarrow> string list \<Rightarrow> 'w \<Rightarrow> 'w \<Rightarrow> bool" where
  "put_back roots V d ps w w' \<longleftrightarrow> (\<forall>e \<in> roots. e \<noteq> d \<longrightarrow> shown V w' e = shown V w e)
     \<and> (\<forall>p \<in> set ps. shown V w' d p = None)
     \<and> (\<forall>q. q \<in> set ps \<or> shown V w' d q = shown V w d q \<or> rename_code (shown V w d q))"

lemma restore_each_step:
  assumes "git_laws roots V (run_cmd env)" "d \<in> roots" "\<forall>p \<in> set ps. literal_path p"
  shows "\<exists>w'. restore_each env d ps w = (Inr (), w') \<and> put_back roots V d ps w w'"
  using assms(3)
proof (induction ps arbitrary: w)
  case (Cons p ps)
  obtain r w1 where one: "git_checkout_restore env d p w = (Inr r, w1)" "shown V w1 d p = None" "only_path roots V d p w w1"
    using restore_step [OF assms(1,2)] Cons.prems by fastforce
  obtain w2 where two: "restore_each env d ps w1 = (Inr (), w2)" "put_back roots V d ps w1 w2" using Cons by fastforce
  have "shown V w2 d p = None" using one(2) two(2) by (cases "p \<in> set ps") (auto simp: put_back_def rename_code_def)
  moreover have "q \<in> set (p # ps) \<or> shown V w2 d q = shown V w d q \<or> rename_code (shown V w d q)" for q
  proof (cases "q = p")
    case False
    then have "shown V w1 d q = shown V w d q \<or> rename_code (shown V w d q)" using one(3) by (simp add: only_path_def)
    moreover have "q \<in> set ps \<or> shown V w2 d q = shown V w1 d q \<or> rename_code (shown V w1 d q)" using two(2) by (simp add: put_back_def)
    ultimately show ?thesis by auto
  qed simp
  moreover have "\<forall>e \<in> roots. e \<noteq> d \<longrightarrow> shown V w2 e = shown V w e" using one(3) two(2) by (simp add: put_back_def only_path_def)
  ultimately have "put_back roots V d (p # ps) w w2" using two(2) by (simp add: put_back_def)
  then show ?case using one(1) two(1) by (auto simp: act_simps)
qed (simp add: put_back_def)

lemma failed_with_fails: "\<not> success (failed_with r msg)"
  by (simp add: failed_with_def)

text \<open>A path is back when it shows what it showed before, or nothing; the target of an old rename may show another code.\<close>

definition is_back :: "string option \<Rightarrow> string option \<Rightarrow> bool" where
  "is_back before x \<longleftrightarrow> x = None \<or> x = before \<or> rename_code before"

lemma reverted_paths:
  assumes "git_laws roots V (run_cmd env)" "d \<in> roots" "same_view roots V w w1"
    and "map_of before = shown V w0 d" "map_of after = shown V w d"
    and "\<forall>p \<in> set vs. map_of before p \<noteq> map_of after p"
    and "\<forall>p. map_of before p = map_of after p \<or> p \<in> set vs \<or> in_tier1_allowlist p"
  shows "\<exists>w'. restore_each env d (sort vs) w1 = (Inr (), w') \<and> (\<forall>e \<in> roots. e \<noteq> d \<longrightarrow> shown V w' e = shown V w e)
    \<and> (\<forall>p. in_tier1_allowlist p \<or> is_back (shown V w0 d p) (shown V w' d p))"
proof -
  have lit: "literal_path p" if "p \<in> set vs" for p
  proof -
    from assms(6) that have "shown V w0 d p \<noteq> shown V w d p" using assms(4,5) by simp
    then have "shown V w0 d p \<noteq> None \<or> shown V w d p \<noteq> None" by auto
    then show ?thesis using git_lawsD(6) [OF assms(1,2)] by blast
  qed
  have lits: "\<forall>p \<in> set (sort vs). literal_path p" using lit by simp
  obtain w' where w': "restore_each env d (sort vs) w1 = (Inr (), w')" "put_back roots V d (sort vs) w1 w'"
    using restore_each_step [OF assms(1,2) lits] by blast
  have view: "shown V w1 e = shown V w e" if "e \<in> roots" for e using same_viewD [OF assms(3) that] .
  have "in_tier1_allowlist p \<or> is_back (shown V w0 d p) (shown V w' d p)" for p
  proof -
    consider "p \<in> set vs" | "in_tier1_allowlist p" | "p \<notin> set vs" "shown V w0 d p = shown V w1 d p"
      using assms(4,5,7) view [OF assms(2)] by metis
    then show ?thesis using w'(2) by cases (auto simp: put_back_def is_back_def)
  qed
  then show ?thesis using w' view by (simp add: put_back_def)
qed

text \<open>The three ways the comparison after a tool call ends.\<close>

definition check_clean where
  "check_clean roots V w0 w w' \<longleftrightarrow> (\<forall>d \<in> roots. \<forall>p. in_tier1_allowlist p \<or> shown V w d p = shown V w0 d p)
     \<and> (\<forall>d \<in> roots. shown V w' d = shown V w d)"

definition check_worktree where
  "check_worktree V wd m w0 w w' \<longleftrightarrow> (\<exists>p. shown V w wd p \<noteq> shown V w0 wd p) \<and> (\<forall>p. in_tier1_allowlist p \<or> shown V w m p = shown V w0 m p)
     \<and> shown V w' m = shown V w m \<and> (\<forall>p. in_tier1_allowlist p \<or> is_back (shown V w0 wd p) (shown V w' wd p))"

definition check_live where
  "check_live V wd m w0 w w' \<longleftrightarrow> (\<exists>p. shown V w m p \<noteq> shown V w0 m p)
     \<and> shown V w' wd = shown V w wd \<and> (\<forall>p. in_tier1_allowlist p \<or> is_back (shown V w0 m p) (shown V w' m p))"

lemma check_after_cases:
  assumes laws: "git_laws {wd, m} V (run_cmd env)" and m: "m = main_repo env" "wd \<noteq> m"
    and bs: "map_of bs = shown V w0 wd" and bl: "map_of bl = shown V w0 m"
  shows "\<exists>res w'. check_after env wd True bs bl result w = (Inr res, w')
    \<and> (res = result \<and> check_clean {wd, m} V w0 w w'
     \<or> \<not> success res \<and> check_worktree V wd m w0 w w'
     \<or> \<not> success res \<and> check_live V wd m w0 w w')"
proof -
  have wd: "wd \<in> {wd, m}" and mm: "m \<in> {wd, m}" by simp_all
  obtain st w1 where st: "git_status_porcelain env wd w = (Inr st, w1)" "map_of st = shown V w wd" "same_view {wd, m} V w w1"
    using status_step [OF laws wd] by blast
  obtain vs w2 where vs: "tier_violations env wd bs st w1 = (Inr vs, w2)" "same_view {wd, m} V w1 w2"
    "\<forall>p \<in> set vs. map_of bs p \<noteq> map_of st p" "\<forall>p. map_of bs p = map_of st p \<or> p \<in> set vs \<or> in_tier1_allowlist p"
    using tier_violations_step [OF laws wd] by blast
  obtain sl w3 where sl: "git_status_porcelain env m w2 = (Inr sl, w3)" "map_of sl = shown V w2 m" "same_view {wd, m} V w2 w3"
    using status_step [OF laws mm] by blast
  obtain ls w4 where ls: "tier_violations env m bl sl w3 = (Inr ls, w4)" "same_view {wd, m} V w3 w4"
    "\<forall>p \<in> set ls. map_of bl p \<noteq> map_of sl p" "\<forall>p. map_of bl p = map_of sl p \<or> p \<in> set ls \<or> in_tier1_allowlist p"
    using tier_violations_step [OF laws mm] by blast
  note v2 = same_view_trans [OF st(3) vs(2)]
  note v4 = same_view_trans [OF same_view_trans [OF v2 sl(3)] ls(2)]
  have slm: "map_of sl = shown V w m" using sl(2) same_viewD [OF v2 mm] by simp
  have run: "check_after env wd True bs bl result w =
      (if ls \<noteq> [] then revert_live env ls result w4 else revert_worktree env wd vs result w4)"
    using st(1) vs(1) sl(1) ls(1) by (simp add: check_after_def act_simps m(1))
  show ?thesis
  proof (cases "ls = []")
    case False
    obtain w' where w': "restore_each env m (sort ls) w4 = (Inr (), w')" "\<forall>e \<in> {wd, m}. e \<noteq> m \<longrightarrow> shown V w' e = shown V w e"
      "\<forall>p. in_tier1_allowlist p \<or> is_back (shown V w0 m p) (shown V w' m p)"
      using reverted_paths [OF laws mm v4 bl slm ls(3,4)] by blast
    obtain p where "p \<in> set ls" using False by (cases ls) auto
    then have "shown V w m p \<noteq> shown V w0 m p" using ls(3) bl slm by metis
    then have "check_live V wd m w0 w w'" using w'(2,3) m(2) by (auto simp: check_live_def)
    moreover have "\<exists>res. check_after env wd True bs bl result w = (Inr res, w') \<and> \<not> success res"
      using w'(1) False unfolding run by (simp add: revert_live_def act_simps m(1) failed_with_fails)
    ultimately show ?thesis by blast
  next
    case True
    then have live: "in_tier1_allowlist p \<or> shown V w m p = shown V w0 m p" for p using ls(4) bl slm by (metis empty_iff list.set(1))
    show ?thesis
    proof (cases "vs = []")
      case vT: True
      then have "in_tier1_allowlist p \<or> shown V w wd p = shown V w0 wd p" for p using vs(4) bs st(2) by (metis empty_iff list.set(1))
      then have "check_clean {wd, m} V w0 w w4" using live same_viewD [OF v4] by (auto simp: check_clean_def)
      moreover have "check_after env wd True bs bl result w = (Inr result, w4)" using True vT unfolding run by (simp add: revert_worktree_def)
      ultimately show ?thesis by blast
    next
      case vF: False
      obtain w' where w': "restore_each env wd (sort vs) w4 = (Inr (), w')" "\<forall>e \<in> {wd, m}. e \<noteq> wd \<longrightarrow> shown V w' e = shown V w e"
        "\<forall>p. in_tier1_allowlist p \<or> is_back (shown V w0 wd p) (shown V w' wd p)"
        using reverted_paths [OF laws wd v4 bs st(2) vs(3,4)] by blast
      obtain p where "p \<in> set vs" using vF by (cases vs) auto
      then have "shown V w wd p \<noteq> shown V w0 wd p" using vs(3) bs st(2) by metis
      then have "check_worktree V wd m w0 w w'" using w' live m(2) by (auto simp: check_worktree_def)
      moreover have "\<exists>res. check_after env wd True bs bl result w = (Inr res, w') \<and> \<not> success res"
        using w'(1) vF True unfolding run by (simp add: revert_worktree_def act_simps failed_with_fails)
      ultimately show ?thesis by blast
    qed
  qed
qed

lemma run_impl_returns: "\<exists>r w'. run_impl env impl tool params wd w = (Inr r, w') \<and> w' = snd (impl params wd w)"
  by (auto simp: run_impl_def act_simps split: prod.split sum.split)

text \<open>The undoing of commits fails in some state; the head commit is the same in every state.\<close>

definition reset_fails :: "'w tool_env \<Rightarrow> string \<Rightarrow> bool" where
  "reset_fails env wd \<longleftrightarrow> (\<exists>a w r w'. run_cmd env (cmd_reset a) wd w = (Inr r, w') \<and> exit_code r \<noteq> 0)"

definition head_fixed :: "'w tool_env \<Rightarrow> string \<Rightarrow> bool" where
  "head_fixed env wd \<longleftrightarrow> (\<exists>h. \<forall>w x. fst (head_of env wd w) = Inr x \<longrightarrow> x = h)"

text \<open>The net change of new commits always lies in the writable directories.\<close>

definition never_outside :: "'w tool_env \<Rightarrow> string \<Rightarrow> bool" where
  "never_outside env wd \<longleftrightarrow> (\<forall>a b w r w'. run_cmd env (cmd_diff a b) wd w = (Inr r, w') \<longrightarrow> \<not> committed_outside r)"

lemma undo_step:
  assumes "git_laws {wd, m} V (run_cmd env)" "wd \<noteq> m"
  shows "\<exists>stop w'. undo_commits env wd b a result w = (Inr stop, w') \<and> shown V w' m = shown V w m
    \<and> (\<forall>r. stop = Some r \<longrightarrow> \<not> success r \<and> reset_fails env wd \<and> \<not> never_outside env wd) \<and> (a = b \<longrightarrow> w' = w)
    \<and> (never_outside env wd \<longrightarrow> same_view {wd, m} V w w')"
proof (cases "b \<noteq> [] \<and> a \<noteq> b")
  case True
  have wd: "wd \<in> {wd, m}" by simp
  obtain diff w1 where diff: "run_cmd env (cmd_diff b a) wd w = (Inr diff, w1)" "same_view {wd, m} V w w1"
    by (rule reads_viewE [OF git_lawsD(4) [OF assms(1) wd] wd])
  obtain reset w2 where reset: "run_cmd env (cmd_reset b) wd w1 = (Inr reset, w2)"
    "\<forall>e \<in> {wd, m}. e \<noteq> wd \<longrightarrow> shown V w2 e = shown V w1 e"
    using git_laws_writesD(1) [OF assms(1) wd] by blast
  have "shown V w1 m = shown V w m" using same_viewD [OF diff(2)] by simp
  moreover from this have "shown V w2 m = shown V w m" using reset(2) assms(2) by auto
  moreover have "exit_code reset \<noteq> 0 \<Longrightarrow> reset_fails env wd" using reset(1) by (auto simp: reset_fails_def)
  moreover have "never_outside env wd \<Longrightarrow> \<not> committed_outside diff" using diff(1) unfolding never_outside_def by blast
  ultimately show ?thesis
    using True diff reset(1) by (auto simp: undo_commits_def act_simps failed_with_fails)
qed (auto simp: undo_commits_def same_view_refl)

text \<open>The whole call: the snapshots, the tool, the undoing of commits, the comparison.\<close>

lemma enforcement_cases:
  assumes laws: "git_laws {wd, m} V (run_cmd env)" and m: "m = main_repo env" "fs_key wd \<noteq> fs_key m"
  shows "\<exists>wq result res w1 w2 w3. same_view {wd, m} V w0 wq \<and> run_impl env impl tool params wd wq = (Inr result, w1)
    \<and> execute_with_tier_enforcement env impl tool params wd w0 = (Inr res, w3) \<and> shown V w2 m = shown V w1 m
    \<and> (head_fixed env wd \<longrightarrow> shown V w2 wd = shown V w1 wd) \<and> (never_outside env wd \<longrightarrow> same_view {wd, m} V w1 w2)
    \<and> (\<not> success res \<and> reset_fails env wd \<and> \<not> never_outside env wd \<or> res = result \<and> check_clean {wd, m} V w0 w2 w3
     \<or> \<not> success res \<and> check_worktree V wd m w0 w2 w3 \<or> \<not> success res \<and> check_live V wd m w0 w2 w3)"
proof -
  have wd: "wd \<in> {wd, m}" and mm: "m \<in> {wd, m}" and ne: "wd \<noteq> m" using m(2) by auto
  obtain bs wa where bs: "git_status_porcelain env wd w0 = (Inr bs, wa)" "map_of bs = shown V w0 wd" "same_view {wd, m} V w0 wa"
    using status_step [OF laws wd] by blast
  obtain bl wb where bl: "git_status_porcelain env m wa = (Inr bl, wb)" "map_of bl = shown V wa m" "same_view {wd, m} V wa wb"
    using status_step [OF laws mm] by blast
  have blm: "map_of bl = shown V w0 m" using bl(2) same_viewD [OF bs(3) mm] by simp
  obtain b wq where b: "head_of env wd wb = (Inr b, wq)" "same_view {wd, m} V wb wq" using head_step [OF laws wd] by blast
  obtain result w1 where r: "run_impl env impl tool params wd wq = (Inr result, w1)"
    using run_impl_returns [of env impl tool params wd wq] by blast
  obtain a wc where a: "head_of env wd w1 = (Inr a, wc)" "same_view {wd, m} V w1 wc" using head_step [OF laws wd] by blast
  obtain stop w2 where u: "undo_commits env wd b a result wc = (Inr stop, w2)" "shown V w2 m = shown V wc m"
    "\<forall>r. stop = Some r \<longrightarrow> \<not> success r \<and> reset_fails env wd \<and> \<not> never_outside env wd" "a = b \<longrightarrow> w2 = wc"
    "never_outside env wd \<longrightarrow> same_view {wd, m} V wc w2" using undo_step [OF laws ne] by blast
  have view: "same_view {wd, m} V w0 wq" using same_view_trans [OF same_view_trans [OF bs(3) bl(3)] b(2)] .
  have w2m: "shown V w2 m = shown V w1 m" using u(2) same_viewD [OF a(2) mm] by simp
  have fixed: "head_fixed env wd \<longrightarrow> shown V w2 wd = shown V w1 wd"
  proof
    assume "head_fixed env wd"
    then have "a = b" using a(1) b(1) unfolding head_fixed_def by (metis fst_conv)
    then show "shown V w2 wd = shown V w1 wd" using u(4) same_viewD [OF a(2) wd] by simp
  qed
  have inside: "never_outside env wd \<longrightarrow> same_view {wd, m} V w1 w2" using u(5) same_view_trans [OF a(2)] by blast
  have run: "execute_with_tier_enforcement env impl tool params wd w0 =
      (case stop of Some r \<Rightarrow> act_return r | None \<Rightarrow> check_after env wd True bs bl result) w2"
    using bs(1) bl(1) b(1) r a(1) u(1) m by (simp add: execute_with_tier_enforcement_def act_simps Let_def)
  show ?thesis
  proof (cases stop)
    case (Some x)
    then have "execute_with_tier_enforcement env impl tool params wd w0 = (Inr x, w2)" "\<not> success x \<and> reset_fails env wd \<and> \<not> never_outside env wd"
      using run u(3) by simp_all
    then show ?thesis using view r w2m fixed inside by blast
  next
    case None
    obtain res w3 where c: "check_after env wd True bs bl result w2 = (Inr res, w3)"
      "res = result \<and> check_clean {wd, m} V w0 w2 w3 \<or> \<not> success res \<and> check_worktree V wd m w0 w2 w3
        \<or> \<not> success res \<and> check_live V wd m w0 w2 w3"
      using check_after_cases [OF laws m(1) ne bs(2) blm, of result w2] by blast
    then have "execute_with_tier_enforcement env impl tool params wd w0 = (Inr res, w3)" using run None by simp
    then show ?thesis using view r w2m fixed inside c(2) by blast
  qed
qed

subsection \<open>Properties\<close>


text \<open>The live tree is protected: unless the undoing of commits fails, afterwards each path of the live tree outside
  the writable directories shows what it showed before the call, or nothing (its committed state), whatever the tool
  did and whatever is reported.\<close>

theorem live_tree_restored:
  assumes "git_laws {wd, main_repo env} V (run_cmd env)" "fs_key wd \<noteq> fs_key (main_repo env)" "\<not> reset_fails env wd"
    and "execute_with_tier_enforcement env impl tool params wd w = (Inr res, w')" "\<not> in_tier1_allowlist p"
  shows "is_back (shown V w (main_repo env) p) (shown V w' (main_repo env) p)"
proof -
  from enforcement_cases [OF assms(1) refl assms(2), of w impl tool params] assms(3,4)
  obtain w2 where "check_clean {wd, main_repo env} V w w2 w' \<or> check_worktree V wd (main_repo env) w w2 w'
      \<or> check_live V wd (main_repo env) w w2 w'" by auto
  then show ?thesis using assms(5) by (auto simp: check_clean_def check_worktree_def check_live_def is_back_def)
qed

text \<open>A tool that does not touch the live tree.\<close>

definition stays_out :: "'w git_view \<Rightarrow> string \<Rightarrow> ('w, tool_result) act \<Rightarrow> bool" where
  "stays_out V m call \<longleftrightarrow> (\<forall>w. shown V (snd (call w)) m = shown V w m)"

text \<open>What a tool did inside its worktree is put back: when it kept out of the live tree, and unless the undoing of
  commits fails, each path of the worktree outside the writable directories shows what it showed before, or nothing.\<close>

theorem worktree_restored:
  assumes "git_laws {wd, main_repo env} V (run_cmd env)" "fs_key wd \<noteq> fs_key (main_repo env)" "\<not> reset_fails env wd"
    and "stays_out V (main_repo env) (impl params wd)"
    and "execute_with_tier_enforcement env impl tool params wd w = (Inr res, w')" "\<not> in_tier1_allowlist p"
  shows "is_back (shown V w wd p) (shown V w' wd p)"
proof -
  let ?m = "main_repo env"
  from enforcement_cases [OF assms(1) refl assms(2), of w impl tool params] assms(3,5)
  obtain wq result w1 w2 where c: "same_view {wd, ?m} V w wq" "run_impl env impl tool params wd wq = (Inr result, w1)"
    "shown V w2 ?m = shown V w1 ?m" "check_clean {wd, ?m} V w w2 w' \<or> check_worktree V wd ?m w w2 w' \<or> check_live V wd ?m w w2 w'"
    by auto
  have "w1 = snd (impl params wd wq)" using run_impl_returns [of env impl tool params wd wq] c(2) by simp
  then have "shown V w2 ?m = shown V w ?m" using assms(4) c(3) same_viewD [OF c(1)] by (simp add: stays_out_def)
  then have "\<not> check_live V wd ?m w w2 w'" by (simp add: check_live_def)
  then show ?thesis using c(4) assms(6) by (auto simp: check_clean_def check_worktree_def is_back_def)
qed

text \<open>The two comparisons are not independent: when a tool, besides its changes in the worktree, changed a protected
  path of the live tree, the call returns after putting the live tree back, and the worktree keeps every change the
  tool made there, protected paths included.\<close>

theorem live_violation_shields_worktree:
  assumes "git_laws {wd, main_repo env} V (run_cmd env)" "fs_key wd \<noteq> fs_key (main_repo env)" "\<not> reset_fails env wd" "head_fixed env wd"
    and "execute_with_tier_enforcement env impl tool params wd w = (Inr res, w')"
    and "\<And>v. same_view {wd, main_repo env} V w v \<Longrightarrow> shown V (snd (impl params wd v)) wd = left_behind"
    and "\<And>v. same_view {wd, main_repo env} V w v \<Longrightarrow> shown V (snd (impl params wd v)) (main_repo env) p \<noteq> shown V w (main_repo env) p"
    and "\<not> in_tier1_allowlist p"
  shows "shown V w' wd = left_behind \<and> \<not> success res"
proof -
  let ?m = "main_repo env"
  from enforcement_cases [OF assms(1) refl assms(2), of w impl tool params] assms(3,4,5)
  obtain wq result w1 w2 where c: "same_view {wd, ?m} V w wq" "run_impl env impl tool params wd wq = (Inr result, w1)"
    "shown V w2 ?m = shown V w1 ?m" "shown V w2 wd = shown V w1 wd"
    "check_clean {wd, ?m} V w w2 w' \<or> check_worktree V wd ?m w w2 w' \<or> \<not> success res \<and> check_live V wd ?m w w2 w'"
    by auto
  have w1: "w1 = snd (impl params wd wq)" using run_impl_returns [of env impl tool params wd wq] c(2) by simp
  have "shown V w2 ?m p \<noteq> shown V w ?m p" using assms(7) [OF c(1)] c(3) w1 by simp
  then have "\<not> success res \<and> check_live V wd ?m w w2 w'" using c(5) assms(8) by (auto simp: check_clean_def check_worktree_def)
  then show ?thesis using c(4) assms(6) [OF c(1)] w1 by (simp add: check_live_def)
qed

text \<open>The bootstrap rule ends at a commit: when a tool has committed all it changed and the net change of the commits
  lies in the writable directories, a module source without tests for instance, the call ends with the tool's own
  result, a success when the tool reports one, and nothing is undone; the test for modules without tests is made on
  uncommitted changes only.\<close>

theorem committed_module_passes:
  assumes "git_laws {wd, main_repo env} V (run_cmd env)" "fs_key wd \<noteq> fs_key (main_repo env)" "never_outside env wd"
    and "\<And>v. same_view {wd, main_repo env} V v (snd (impl params wd v))"
  shows "\<exists>v res w'. execute_with_tier_enforcement env impl tool params wd w = (Inr res, w')
    \<and> fst (run_impl env impl tool params wd v) = Inr res \<and> same_view {wd, main_repo env} V w v
    \<and> shown V w' wd = shown V w wd"
proof -
  let ?m = "main_repo env"
  from enforcement_cases [OF assms(1) refl assms(2), of w impl tool params] assms(3)
  obtain wq result res w1 w2 w' where c: "same_view {wd, ?m} V w wq" "run_impl env impl tool params wd wq = (Inr result, w1)"
    "execute_with_tier_enforcement env impl tool params wd w = (Inr res, w')" "same_view {wd, ?m} V w1 w2"
    "res = result \<and> check_clean {wd, ?m} V w w2 w' \<or> check_worktree V wd ?m w w2 w' \<or> check_live V wd ?m w w2 w'"
    by auto
  have "w1 = snd (impl params wd wq)" using run_impl_returns [of env impl tool params wd wq] c(2) by simp
  then have "same_view {wd, ?m} V w w2" using same_view_trans [OF same_view_trans [OF c(1)] c(4)] assms(4) by simp
  then have view: "shown V w2 wd = shown V w wd" "shown V w2 ?m = shown V w ?m" by (simp_all add: same_view_def)
  then have "res = result \<and> check_clean {wd, ?m} V w w2 w'" using c(5) by (auto simp: check_worktree_def check_live_def)
  then have "res = result" "shown V w' wd = shown V w wd" using view by (simp_all add: check_clean_def)
  then show ?thesis using c(1-3) by (metis fst_conv)
qed

text \<open>Every call is on the record: whatever the tool, its parameters and its outcome, \<open>execute\<close> appends exactly the
  record of the call to the audit log, before the tool runs and without any later change.\<close>

theorem execute_logs_every_call:
  "fst (snd (execute cr path rnd now env registry user tool params wd (a, w))) =
     run_appends cr path [call_event \<lparr>call_rnd = rnd, call_time = now, call_tool = tool, call_params = params, call_workdir = wd, call_user = user\<rparr>] a"
  using gate_call_result [of cr path "\<lparr>call_rnd = rnd, call_time = now, call_tool = tool, call_params = params, call_workdir = wd, call_user = user\<rparr>" a]
  by (simp add: execute_def act_simps on_log_def on_host_def gate_call_def gate_result_def split: prod.split)

text \<open>In the live tree no changing tool runs: the call is refused with the same answer whatever the implementation of
  the tool is, after one question to git.\<close>

theorem live_tree_refused:
  assumes "tool \<in> set MUTATING_TOOLS" "registry tool = Some impl"
    and "run_cmd env ''git rev-parse --show-toplevel'' wd w = (Inr r, w')" "exit_code r = 0" "py_strip (bash_stdout r) = tool_source_root env"
  shows "\<exists>a'. execute cr path rnd now env registry user tool params wd (a, w) = (Inr (tool_error (live_refusal tool)), (a', w'))"
proof -
  have "dispatch env registry tool params wd w = (Inr (tool_error (live_refusal tool)), w')"
    using assms by (simp add: dispatch_def targets_rawos_own_repo_def act_simps)
  then show ?thesis
    using gate_call_result [of cr path "\<lparr>call_rnd = rnd, call_time = now, call_tool = tool, call_params = params, call_workdir = wd, call_user = user\<rparr>" a]
    by (simp add: execute_def act_simps on_log_def on_host_def gate_call_def gate_result_def)
qed

text \<open>When \<open>execute\<close> raises: not for a tool that only reads, whatever its implementation raises, but for a changing
  tool whenever the shell cannot be started for the question about the live tree; the exception of the sandbox then
  leaves \<open>execute\<close>, which is documented to never raise.\<close>

theorem execute_raises:
  "(tool \<in> set MUTATING_TOOLS \<or> (\<exists>r. fst (execute cr path rnd now env registry user tool params wd (a, w)) = Inr r))
   \<and> fst (execute cr path rnd now (env\<lparr>run_cmd := \<lambda>_ _. act_raise SandboxError\<rparr>) (\<lambda>_. Some impl) user ''write_file'' params wd (a, w)) = Inl SandboxError"
proof -
  note g = gate_call_result [of cr path "\<lparr>call_rnd = rnd, call_time = now, call_tool = t, call_params = params, call_workdir = wd, call_user = user\<rparr>" a for t]
  have "\<exists>r. fst (execute cr path rnd now env registry user tool params wd (a, w)) = Inr r" if "tool \<notin> set MUTATING_TOOLS"
  proof (cases "registry tool")
    case (Some impl)
    obtain r w' where "run_impl env impl tool params wd w = (Inr r, w')" using run_impl_returns [of env impl tool params wd w] by blast
    then have "dispatch env registry tool params wd w = (Inr r, w')" using Some that by (simp add: dispatch_def)
    then show ?thesis using g [of tool] by (simp add: execute_def act_simps on_log_def on_host_def gate_call_def gate_result_def)
  qed (use g [of tool] in \<open>simp add: execute_def act_simps on_log_def on_host_def gate_call_def gate_result_def dispatch_def\<close>)
  moreover have "dispatch (env\<lparr>run_cmd := \<lambda>_ _. act_raise SandboxError\<rparr>) (\<lambda>_. Some impl) ''write_file'' params wd w = (Inl SandboxError, w)"
    by (simp add: dispatch_def MUTATING_TOOLS_def targets_rawos_own_repo_def act_simps)
  ultimately show ?thesis using g [of "''write_file''"]
    by (auto simp: execute_def act_simps on_log_def on_host_def gate_call_def gate_result_def)
qed

text \<open>The entries of \<open>git status -z\<close>: a code of two characters, a path, and for a rename or a copy the original path.\<close>

type_synonym status_entry = "string \<times> string \<times> string option"

fun entry_ok :: "status_entry \<Rightarrow> bool" where
  "entry_ok (c, p, orig) \<longleftrightarrow> length c = 2 \<and> CHR 0x00 \<notin> set c \<union> set p
     \<and> (case orig of None \<Rightarrow> hd c \<noteq> CHR ''R'' \<and> hd c \<noteq> CHR ''C''
        | Some old \<Rightarrow> (hd c = CHR ''R'' \<or> hd c = CHR ''C'') \<and> old \<noteq> [] \<and> CHR 0x00 \<notin> set old)"

fun entry_tokens :: "status_entry \<Rightarrow> string list" where
  "entry_tokens (c, p, orig) = (c @ '' '' @ p) # (case orig of None \<Rightarrow> [] | Some old \<Rightarrow> [old])"

fun entry_pairs :: "status_entry \<Rightarrow> snapshot" where
  "entry_pairs (c, p, orig) = (p, c) # (case orig of None \<Rightarrow> [] | Some old \<Rightarrow> [(old, ''D '')])"

definition status_text :: "status_entry list \<Rightarrow> string" where
  "status_text es = concat (map (\<lambda>t. t @ [CHR 0x00]) (concat (map entry_tokens es)))"

lemma split_terminated: "\<forall>t \<in> set ts. d \<notin> set t \<Longrightarrow> split_on d (concat (map (\<lambda>t. t @ [d]) ts)) = ts @ [[]]"
  by (induction ts) (simp_all add: split_on_append_sep)

lemma entries_read:
  assumes "list_all entry_ok es" "distinct (map fst (concat (map entry_pairs es)))"
    and "\<forall>k \<in> fst ` set (concat (map entry_pairs es)). map_of acc k = None"
  shows "map_of (porcelain_entries (concat (map entry_tokens es) @ [[]]) acc) = map_of acc ++ map_of (concat (map entry_pairs es))"
  using assms
proof (induction es arbitrary: acc)
  case (Cons e es)
  obtain c p orig where e: "e = (c, p, orig)" by (cases e) auto
  obtain x y where c: "c = [x, y]" using Cons.prems(1) by (auto simp: e length_Suc_conv numeral_2_eq_2)
  have ok: "list_all entry_ok es" "distinct (map fst (concat (map entry_pairs es)))" using Cons.prems(1,2) by (auto simp: e)
  let ?rest = "concat (map entry_tokens es) @ [[]]"
  obtain t ts where rest: "?rest = t # ts" by (cases ?rest) auto
  have comm: "(m(k \<mapsto> v)) ++ map_of xs = m ++ (map_of xs)(k \<mapsto> v)" if "k \<notin> fst ` set xs" for m :: "string \<Rightarrow> string option" and k v xs
  proof -
    have "map_of xs k = None" using that by (simp add: map_of_eq_None_iff)
    then show ?thesis by (intro ext) (simp add: map_add_def split: option.split)
  qed
  show ?case
  proof (cases orig)
    case None
    have plain: "x \<noteq> CHR ''R''" "x \<noteq> CHR ''C''" using Cons.prems(1) by (simp_all add: e c None)
    have fresh: "p \<notin> fst ` set (concat (map entry_pairs es))" using Cons.prems(2) by (simp add: e None)
    have "porcelain_entries (entry_tokens e @ ?rest) acc = porcelain_entries ?rest (AList.update p c acc)"
      using plain by (simp add: e c None rest Let_def)
    moreover have "map_of (porcelain_entries ?rest (AList.update p c acc)) = map_of (AList.update p c acc) ++ map_of (concat (map entry_pairs es))"
      by (rule Cons.IH [OF ok]) (use Cons.prems(3) fresh in \<open>auto simp: e None update_conv'\<close>)
    ultimately have "map_of (porcelain_entries (entry_tokens e @ ?rest) acc) = map_of acc ++ (map_of (concat (map entry_pairs es)))(p \<mapsto> c)"
      using comm [OF fresh, of "map_of acc" c] by (simp only: update_conv')
    then show ?thesis by (simp add: e None) (auto simp: fun_eq_iff map_add_def split: option.split)
  next
    case (Some old)
    have ren: "x = CHR ''R'' \<or> x = CHR ''C''" "old \<noteq> []" using Cons.prems(1) by (simp_all add: e c Some)
    have fresh: "p \<notin> fst ` set (concat (map entry_pairs es))" "old \<notin> fst ` set (concat (map entry_pairs es))" "p \<noteq> old"
      using Cons.prems(2) by (auto simp: e Some)
    have "map_of acc old = None" using Cons.prems(3) by (simp add: e Some)
    then have "porcelain_entries (entry_tokens e @ ?rest) acc = porcelain_entries ?rest (AList.update old ''D '' (AList.update p c acc))"
      using ren fresh(3) by (auto simp: e c Some Let_def update_conv')
    moreover have "map_of (porcelain_entries ?rest (AList.update old ''D '' (AList.update p c acc)))
        = map_of (AList.update old ''D '' (AList.update p c acc)) ++ map_of (concat (map entry_pairs es))"
      by (rule Cons.IH [OF ok]) (use Cons.prems(3) fresh in \<open>auto simp: e Some update_conv'\<close>)
    ultimately have "map_of (porcelain_entries (entry_tokens e @ ?rest) acc)
        = map_of acc ++ (map_of (concat (map entry_pairs es)))(old \<mapsto> ''D '', p \<mapsto> c)"
      using comm [OF fresh(2), of "(map_of acc)(p \<mapsto> c)" "''D ''"] comm [OF fresh(1), of "map_of acc" c] fresh(3)
      by (simp only: update_conv' map_add_upd fun_upd_twist)
    then show ?thesis by (simp add: e Some) (auto simp: fun_eq_iff map_add_def split: option.split)
  qed
qed simp

text \<open>The snapshot reads back what \<open>git status -z\<close> prints: every entry with its code, and the source of a rename or copy
  as a deletion.\<close>

theorem status_roundtrip:
  assumes "list_all entry_ok es" "distinct (map fst (concat (map entry_pairs es)))"
  shows "map_of (parse_porcelain (status_text es)) = map_of (concat (map entry_pairs es))"
proof -
  have "CHR 0x00 \<notin> set t" if "t \<in> set (entry_tokens e)" "entry_ok e" for t e
    using that by (cases e) (auto split: option.splits)
  then have "\<forall>t \<in> set (concat (map entry_tokens es)). CHR 0x00 \<notin> set t" using assms(1) by (fastforce simp: list_all_iff)
  from split_terminated [OF this] show ?thesis
    using entries_read [OF assms, of "[]"] by (simp add: parse_porcelain_def status_text_def)
qed

theorem status_roundtrip_witness:
  "map_of (parse_porcelain (status_text [('' M'', ''a b'', None), (''R '', ''new'', Some ''old'')])) ''old'' = Some ''D ''"
proof -
  have "list_all entry_ok [('' M'', ''a b'', None), (''R '', ''new'', Some ''old'')]"
    "distinct (map fst (concat (map entry_pairs [('' M'', ''a b'', None), (''R '', ''new'', Some ''old'')])))" by code_simp+
  from status_roundtrip [OF this] show ?thesis by simp
qed

text \<open>Two environments that agree on everything but the staging and the committing.\<close>

definition same_but_commits :: "'w tool_env \<Rightarrow> 'w tool_env \<Rightarrow> bool" where
  "same_but_commits e1 e2 \<longleftrightarrow> tool_source_root e1 = tool_source_root e2
     \<and> (\<forall>cmd. cmd = GIT_ADD \<or> (\<exists>m. cmd = cmd_commit m) \<or> run_cmd e1 cmd = run_cmd e2 cmd)"

lemma same_but_commits_run:
  assumes "same_but_commits e1 e2"
  shows "run_cmd e1 ''git rev-parse --show-toplevel'' = run_cmd e2 ''git rev-parse --show-toplevel''"
    "run_cmd e1 CURRENT_BRANCH = run_cmd e2 CURRENT_BRANCH"
proof -
  have "cmd_commit m \<noteq> ''git rev-parse --show-toplevel''" "cmd_commit m \<noteq> CURRENT_BRANCH" for m
    by (simp_all add: cmd_commit_def CURRENT_BRANCH_def)
  moreover have "GIT_ADD \<noteq> ''git rev-parse --show-toplevel''" "GIT_ADD \<noteq> CURRENT_BRANCH" by (simp_all add: GIT_ADD_def CURRENT_BRANCH_def)
  ultimately show "run_cmd e1 ''git rev-parse --show-toplevel'' = run_cmd e2 ''git rev-parse --show-toplevel''"
    "run_cmd e1 CURRENT_BRANCH = run_cmd e2 CURRENT_BRANCH" using assms unfolding same_but_commits_def by metis+
qed

text \<open>Nothing is staged or committed outside the program's own branches: where \<open>rev-parse\<close> never names a branch under
  \<open>anima/\<close>, a call of \<open>git_commit\<close> does the same whatever staging and committing would do, so it runs neither.\<close>

theorem commits_on_own_branches_only:
  assumes "same_but_commits e1 e2"
    and "\<And>w r w'. run_cmd e1 CURRENT_BRANCH workdir w = (Inr r, w') \<Longrightarrow> exit_code r \<noteq> 0 \<or> \<not> startswith (py_strip (bash_stdout r)) own_branch"
  shows "git_commit e1 params workdir w = git_commit e2 params workdir w"
proof -
  have own: "targets_rawos_own_repo e1 workdir = targets_rawos_own_repo e2 workdir"
    using assms(1) same_but_commits_run(1) [OF assms(1)] by (simp add: targets_rawos_own_repo_def same_but_commits_def)
  show ?thesis
    unfolding git_commit_def own act_bind_apply same_but_commits_run(2) [OF assms(1)]
    using assms(2) [unfolded same_but_commits_run(2) [OF assms(1)]]
    by (auto simp: act_bind_apply split: sum.split prod.split)
qed

lemma reads_settings:
  "reads (''user.name='' @ [dquote] @ ''anima'' @ [dquote]) ''user.name=anima''"
  "reads (''user.email='' @ [dquote] @ ''anima@autonomous.local'' @ [dquote]) ''user.email=anima@autonomous.local''"
  unfolding reads_def by (rule exI [of _ True], simp add: shlex_space_def bslash_def squote_def dquote_def)+

lemma commit_words:
  "shlex_split (cmd_commit message) = Some [''git'', ''-c'', ''user.name=anima'', ''-c'', ''user.email=anima@autonomous.local'', ''commit'', ''-m'', message]"
proof -
  have "list_all plain_char ''git''" "list_all plain_char ''-c''" "list_all plain_char ''commit''" "list_all plain_char ''-m''"
    by (simp_all add: plain_char_def shlex_space_def bslash_def squote_def dquote_def)
  then have "list_all2 reads [''git'', ''-c'', ''user.name='' @ [dquote] @ ''anima'' @ [dquote], ''-c'',
      ''user.email='' @ [dquote] @ ''anima@autonomous.local'' @ [dquote], ''commit'', ''-m'', shlex_quote message]
      [''git'', ''-c'', ''user.name=anima'', ''-c'', ''user.email=anima@autonomous.local'', ''commit'', ''-m'', message]"
    by (simp only: list_all2_Cons list_all2_Nil simp_thms reads_settings reads_quote) (simp add: reads_plain)
  from split_reads [OF this] show ?thesis by (simp add: cmd_commit_def)
qed

text \<open>What \<open>git_branch\<close> hands to the shell is one plain command: for every name it accepts, the shell reads the words
  \<open>git\<close>, \<open>checkout\<close>, \<open>-b\<close> and one branch name under \<open>anima/\<close>, and what \<open>git_commit\<close> hands over contains the message as
  one word, whatever characters it has.\<close>

theorem git_tools_one_command:
  assumes "name \<noteq> []" "list_all branch_char name"
  shows "shlex_split (cmd_branch (own_branch @ name)) = Some [''git'', ''checkout'', ''-b'', own_branch @ name]
    \<and> shlex_split (cmd_commit message) = Some [''git'', ''-c'', ''user.name=anima'', ''-c'', ''user.email=anima@autonomous.local'', ''commit'', ''-m'', message]"
proof -
  have safe: "list_all safe_char name" using assms(2) by (auto simp: list_all_iff branch_char_def safe_char_def Let_def)
  have "list_all simple_word [''git'', ''checkout'', ''-b'']" "list_all safe_char own_branch" by code_simp+
  then have "list_all simple_word [''git'', ''checkout'', ''-b'', own_branch @ name]"
    using safe assms(1) by (auto simp: simple_word_def)
  from split_simple [OF this] have "shlex_split (cmd_branch (own_branch @ name)) = Some [''git'', ''checkout'', ''-b'', own_branch @ name]"
    by (simp add: cmd_branch_def)
  then show ?thesis using commit_words by blast
qed

subsection \<open>A small git\<close>

text \<open>Two work trees, the live one at \<open>/root/rawos\<close> and a worktree at \<open>/wt\<close>, in which one committed file can be
  modified, and a head that a commit moves; \<open>h\<close> says what \<open>rev-parse\<close> prints for it.\<close>

record toy_git =
  wt_dirty :: bool
  live_dirty :: bool
  moved :: bool

definition toy_ok :: "string \<Rightarrow> bash_result" where
  "toy_ok out = \<lparr>bash_stdout = out, bash_stderr = [], exit_code = 0, bash_ms = 1, truncated = False\<rparr>"

definition toy_dirty :: "string \<Rightarrow> toy_git \<Rightarrow> bool" where
  "toy_dirty d w = (if d = ''/wt'' then wt_dirty w else live_dirty w)"

definition toy_clean :: "string \<Rightarrow> toy_git \<Rightarrow> toy_git" where
  "toy_clean d w = (if d = ''/wt'' then w\<lparr>wt_dirty := False\<rparr> else w\<lparr>live_dirty := False\<rparr>)"

definition toy_run :: "(bool \<Rightarrow> string) \<Rightarrow> toy_git run_shell" where
  "toy_run h cmd d = (\<lambda>w.
     if cmd = PORCELAIN then (Inr (toy_ok (if toy_dirty d w then '' M setup.py'' @ [CHR 0x00] else [])), w)
     else if cmd = REV_PARSE_HEAD then (Inr (toy_ok (h (moved w))), w)
     else if startswith cmd ''git cat-file -e '' then
       (Inr ((toy_ok [])\<lparr>exit_code := if cmd = cmd_cat_file ''setup.py'' then 0 else 1\<rparr>), w)
     else if startswith cmd ''git diff --name-only '' then (Inr (toy_ok ''anima/study/tracker.py''), w)
     else if cmd = cmd_checkout ''setup.py'' then (Inr (toy_ok []), toy_clean d w)
     else (Inr (toy_ok []), w))"

definition toy_view :: "toy_git git_view" where
  "toy_view = \<lparr>shown = (\<lambda>w d. if toy_dirty d w then [''setup.py'' \<mapsto> '' M''] else Map.empty), in_head = (\<lambda>w d p. p = ''setup.py'')\<rparr>"

definition toy_env :: "(bool \<Rightarrow> string) \<Rightarrow> toy_git tool_env" where
  "toy_env h = \<lparr>run_cmd = toy_run h, guard_text = (\<lambda>out tool. out), exn_text = (\<lambda>e. []), tool_source_root = ''/root/rawos''\<rparr>"

lemma quote_inj: "shlex_quote a = shlex_quote b \<Longrightarrow> a = b"
  using split_words [of "[a]"] split_words [of "[b]"] by simp

lemma toy_main: "main_repo (toy_env h) = ''/root/rawos''" "fs_key ''/wt'' \<noteq> fs_key (main_repo (toy_env h))"
proof -
  have "path_parent ''/root/rawos/.git'' = ''/root/rawos''" by code_simp
  then show m: "main_repo (toy_env h) = ''/root/rawos''" by (simp add: main_repo_def git_common_dir_def toy_env_def)
  have "fs_key ''/wt'' \<noteq> fs_key ''/root/rawos''" by code_simp
  then show "fs_key ''/wt'' \<noteq> fs_key (main_repo (toy_env h))" unfolding m .
qed

lemma toy_parse: "parse_porcelain ('' M setup.py'' @ [CHR 0x00]) = [(''setup.py'', '' M'')]" "parse_porcelain [] = []"
  by code_simp+

lemma toy_cat: "toy_run h (cmd_cat_file p) d w = (Inr ((toy_ok [])\<lparr>exit_code := if p = ''setup.py'' then 0 else 1\<rparr>), w)"
proof -
  have "shlex_quote (''HEAD:'' @ p) = shlex_quote ''HEAD:setup.py'' \<longleftrightarrow> p = ''setup.py''"
    using quote_inj [of "''HEAD:'' @ p" "''HEAD:setup.py''"] by auto
  then show ?thesis by (simp add: toy_run_def PORCELAIN_def REV_PARSE_HEAD_def startswith_def cmd_cat_file_def)
qed

lemma toy_checkout: "toy_run h (cmd_checkout p) d w = (Inr (toy_ok []), if p = ''setup.py'' then toy_clean d w else w)"
proof -
  have "shlex_quote p = shlex_quote ''setup.py'' \<longleftrightarrow> p = ''setup.py''" using quote_inj [of p "''setup.py''"] by auto
  then show ?thesis by (simp add: toy_run_def PORCELAIN_def REV_PARSE_HEAD_def startswith_def cmd_checkout_def)
qed

lemma toy_others:
  "toy_run h (cmd_ls_tests x) d w = (Inr (toy_ok []), w)"
  "toy_run h (cmd_reset x) d w = (Inr (toy_ok []), w)"
  "toy_run h (cmd_rm_cached x) d w = (Inr (toy_ok []), w)"
  "toy_run h (cmd_delete x) d w = (Inr (toy_ok []), w)"
  "toy_run h (cmd_diff x y) d w = (Inr (toy_ok ''anima/study/tracker.py''), w)"
  by (simp_all add: toy_run_def PORCELAIN_def REV_PARSE_HEAD_def startswith_def cmd_defs)

lemma toy_porcelain: "toy_run h PORCELAIN d w = (Inr (toy_ok (if toy_dirty d w then '' M setup.py'' @ [CHR 0x00] else [])), w)"
  "toy_run h REV_PARSE_HEAD d w = (Inr (toy_ok (h (moved w))), w)"
  by (simp_all add: toy_run_def PORCELAIN_def REV_PARSE_HEAD_def)

lemma toy_clean_shown: "shown toy_view (toy_clean d w) e = (if e = d \<or> e \<noteq> ''/wt'' \<and> d \<noteq> ''/wt'' then Map.empty else shown toy_view w e)"
  by (auto simp: toy_view_def toy_clean_def toy_dirty_def)

lemma small_git_laws: "git_laws {''/wt'', main_repo (toy_env h)} toy_view (run_cmd (toy_env h))"
proof -
  let ?R = "{''/wt'', ''/root/rawos''}"
  have run: "run_cmd (toy_env h) = toy_run h" by (simp add: toy_env_def)
  have none: "shown toy_view w d p = None" if "p \<noteq> ''setup.py''" for w d p using that by (simp add: toy_view_def)
  have only: "only_path ?R toy_view d p w w" for d p w by (simp add: only_path_def)
  have cleaned: "only_path ?R toy_view d ''setup.py'' w (toy_clean d w)" if "d \<in> ?R" for d w
    using that by (auto simp: only_path_def toy_clean_shown none) (simp_all add: toy_view_def)
  have view: "map_of (parse_porcelain (bash_stdout (toy_ok (if toy_dirty d w then '' M setup.py'' @ [CHR 0x00] else [])))) = shown toy_view w d" for d w
    using toy_parse by (simp add: toy_ok_def toy_view_def)
  have ok: "exit_code (toy_ok x) = 0" for x by (simp add: toy_ok_def)
  have "git_reads_laws ?R toy_view (toy_run h)"
    unfolding git_reads_laws_def reads_view_def
  proof (intro conjI ballI allI)
    fix d w
    show "\<exists>r w'. toy_run h PORCELAIN d w = (Inr r, w') \<and> exit_code r = 0
        \<and> map_of (parse_porcelain (bash_stdout r)) = shown toy_view w d \<and> same_view ?R toy_view w w'"
      by (intro exI conjI, rule toy_porcelain(1), rule ok, rule view, rule same_view_refl)
    show "\<exists>r w'. toy_run h REV_PARSE_HEAD d w = (Inr r, w') \<and> same_view ?R toy_view w w'"
      by (intro exI conjI, rule toy_porcelain(2), rule same_view_refl)
    show "\<exists>r w'. toy_run h (cmd_ls_tests m) d w = (Inr r, w') \<and> same_view ?R toy_view w w'" for m
      by (intro exI conjI, rule toy_others(1), rule same_view_refl)
    show "\<exists>r w'. toy_run h (cmd_diff a b) d w = (Inr r, w') \<and> same_view ?R toy_view w w'" for a b
      by (intro exI conjI, rule toy_others(5), rule same_view_refl)
    show "\<exists>r w'. toy_run h (cmd_cat_file p) d w = (Inr r, w') \<and> (exit_code r = 0 \<longleftrightarrow> in_head toy_view w d p) \<and> same_view ?R toy_view w w'" for p
      using same_view_refl [of ?R toy_view w] by (simp add: toy_cat toy_view_def)
  qed
  moreover have "git_writes_laws ?R toy_view (toy_run h)"
    unfolding git_writes_laws_def
  proof (intro conjI ballI allI impI)
    fix d w p
    assume d: "d \<in> ?R"
    show "\<exists>r w'. toy_run h (cmd_reset p) d w = (Inr r, w') \<and> (\<forall>e \<in> ?R. e \<noteq> d \<longrightarrow> shown toy_view w' e = shown toy_view w e)"
      by (intro exI conjI, rule toy_others(2)) simp
    show "\<exists>r w'. toy_run h (cmd_checkout p) d w = (Inr r, w') \<and> shown toy_view w' d p = None \<and> only_path ?R toy_view d p w w'"
      if "literal_path p \<and> in_head toy_view w d p"
    proof -
      have "p = ''setup.py''" using that by (simp add: toy_view_def)
      then have "toy_run h (cmd_checkout p) d w = (Inr (toy_ok []), toy_clean d w)" by (simp only: toy_checkout simp_thms if_True)
      moreover have "shown toy_view (toy_clean d w) d p = None" by (simp add: toy_clean_shown)
      ultimately show ?thesis using cleaned [OF d, of w] \<open>p = ''setup.py''\<close> by metis
    qed
    show "\<exists>r w'. toy_run h (cmd_rm_cached p) d w = (Inr r, w') \<and> shown toy_view w' d p \<in> {None, Some ''??''} \<and> only_path ?R toy_view d p w w'"
      if "literal_path p \<and> \<not> in_head toy_view w d p"
    proof -
      have n: "shown toy_view w d p = None" using that none by (simp add: toy_view_def)
      show ?thesis by (intro exI conjI, rule toy_others(3), simp add: n, rule only)
    qed
    show "\<exists>r w'. toy_run h (cmd_delete p) d w = (Inr r, w') \<and> shown toy_view w' d p = None \<and> only_path ?R toy_view d p w w'"
      if "literal_path p \<and> shown toy_view w d p \<in> {None, Some ''??''}"
    proof -
      have n: "shown toy_view w d p = None" using that by (auto simp: toy_view_def split: if_splits)
      show ?thesis by (intro exI conjI, rule toy_others(4), simp add: n, rule only)
    qed
  qed
  moreover have "\<forall>d \<in> ?R. \<forall>w p. shown toy_view w d p \<noteq> None \<longrightarrow> literal_path p"
  proof -
    have "literal_path ''setup.py''" by code_simp
    then show ?thesis using none by metis
  qed
  ultimately show ?thesis unfolding git_laws_def run toy_main by blast
qed

lemma toy_facts: "\<not> reset_fails (toy_env h) d" "never_outside (toy_env h) d" "head_fixed (toy_env (\<lambda>_. x)) d"
proof -
  show "\<not> reset_fails (toy_env h) d" by (simp add: reset_fails_def toy_env_def toy_others toy_ok_def)
  have "\<not> committed_outside (toy_ok ''anima/study/tracker.py'')" by code_simp
  then show "never_outside (toy_env h) d" by (simp add: never_outside_def toy_env_def toy_others)
  show "head_fixed (toy_env (\<lambda>_. x)) d" by (simp add: head_fixed_def head_of_def act_simps toy_env_def toy_porcelain)
qed

text \<open>Tools that change the worktree, both trees, or the head.\<close>

definition toy_tool :: "(toy_git \<Rightarrow> toy_git) \<Rightarrow> toy_git tool_fn" where
  "toy_tool f params wd = (\<lambda>w. (Inr \<lparr>tool_text = ''did'', success = True, duration_ms = 1\<rparr>, f w))"

definition toy_start :: toy_git where
  "toy_start = \<lparr>wt_dirty = False, live_dirty = False, moved = False\<rparr>"

definition toy_call :: "(bool \<Rightarrow> string) \<Rightarrow> (toy_git \<Rightarrow> toy_git) \<Rightarrow> (exn + tool_result) \<times> toy_git" where
  "toy_call h f = execute_with_tier_enforcement (toy_env h) (toy_tool f) ''bash'' [] ''/wt'' toy_start"

lemma setup_outside: "\<not> in_tier1_allowlist ''setup.py''"
  by code_simp

lemma toy_call_run: "fst (toy_call h f) = Inr r \<Longrightarrow>
    execute_with_tier_enforcement (toy_env h) (toy_tool f) ''bash'' [] ''/wt'' toy_start = (Inr r, snd (toy_call h f))"
  by (simp add: toy_call_def prod_eq_iff)

lemma toy_called: "toy_call h f = (Inr r, w') \<Longrightarrow>
    execute_with_tier_enforcement (toy_env h) (toy_tool f) ''bash'' [] ''/wt'' toy_start = (Inr r, w')"
  by (simp add: toy_call_def)


theorem live_tree_restored_witness:
  "is_back None (shown toy_view (snd (toy_call (\<lambda>_. ''a'') (\<lambda>w. w\<lparr>live_dirty := True\<rparr>))) ''/root/rawos'' ''setup.py'')"
proof -
  let ?call = "toy_call (\<lambda>_. ''a'') (\<lambda>w. w\<lparr>live_dirty := True\<rparr>)"
  have "case fst ?call of Inr x \<Rightarrow> True | Inl e \<Rightarrow> False" by code_simp
  then obtain x where "fst ?call = Inr x" by (auto split: sum.splits)
  note run = toy_call_run [OF this]
  have "shown toy_view toy_start ''/root/rawos'' ''setup.py'' = None" by (simp add: toy_view_def toy_dirty_def toy_start_def)
  then show ?thesis
    using live_tree_restored [OF small_git_laws toy_main(2) toy_facts(1) run setup_outside] unfolding toy_main by simp
qed

theorem worktree_restored_witness:
  "is_back None (shown toy_view (snd (toy_call (\<lambda>_. ''a'') (\<lambda>w. w\<lparr>wt_dirty := True\<rparr>))) ''/wt'' ''setup.py'')"
proof -
  let ?call = "toy_call (\<lambda>_. ''a'') (\<lambda>w. w\<lparr>wt_dirty := True\<rparr>)"
  have "case fst ?call of Inr x \<Rightarrow> True | Inl e \<Rightarrow> False" by code_simp
  then obtain x where "fst ?call = Inr x" by (auto split: sum.splits)
  note run = toy_call_run [OF this]
  have clean: "shown toy_view toy_start ''/wt'' ''setup.py'' = None" by (simp add: toy_view_def toy_dirty_def toy_start_def)
  have "stays_out toy_view (main_repo (toy_env (\<lambda>_. ''a''))) (toy_tool (\<lambda>w. w\<lparr>wt_dirty := True\<rparr>) [] ''/wt'')"
    unfolding toy_main by (simp add: stays_out_def toy_tool_def toy_view_def toy_dirty_def)
  then show ?thesis
    using worktree_restored [OF small_git_laws toy_main(2) toy_facts(1) _ run setup_outside] clean by metis
qed

theorem live_violation_shields_worktree_witness:
  "shown toy_view (snd (toy_call (\<lambda>_. ''a'') (\<lambda>w. w\<lparr>wt_dirty := True, live_dirty := True\<rparr>))) ''/wt'' ''setup.py'' = Some '' M''"
proof -
  let ?f = "\<lambda>w. w\<lparr>wt_dirty := True, live_dirty := True\<rparr>"
  have "case fst (toy_call (\<lambda>_. ''a'') ?f) of Inr x \<Rightarrow> True | Inl e \<Rightarrow> False" by code_simp
  then obtain x where "fst (toy_call (\<lambda>_. ''a'') ?f) = Inr x" by (auto split: sum.splits)
  note run = toy_call_run [OF this]
  have "shown toy_view (snd (toy_call (\<lambda>_. ''a'') ?f)) ''/wt'' = [''setup.py'' \<mapsto> '' M''] \<and> \<not> success x"
    by (rule live_violation_shields_worktree [OF small_git_laws toy_main(2) toy_facts(1,3) run _ _ setup_outside])
      (simp_all add: toy_main toy_tool_def toy_view_def toy_dirty_def toy_start_def)
  then show ?thesis by simp
qed

theorem committed_module_passes_witness:
  "\<exists>v res w'. toy_call (\<lambda>m. if m then ''b'' else ''a'') (\<lambda>w. w\<lparr>moved := True\<rparr>) = (Inr res, w')
    \<and> fst (run_impl (toy_env (\<lambda>m. if m then ''b'' else ''a'')) (toy_tool (\<lambda>w. w\<lparr>moved := True\<rparr>)) ''bash'' [] ''/wt'' v) = Inr res"
proof -
  let ?h = "\<lambda>m. if m then ''b'' else ''a''" and ?f = "\<lambda>w. w\<lparr>moved := True\<rparr>"
  have "same_view {''/wt'', main_repo (toy_env ?h)} toy_view v (snd (toy_tool ?f [] ''/wt'' v))" for v
    unfolding toy_main by (simp add: same_view_def toy_tool_def toy_view_def toy_dirty_def)
  from committed_module_passes [where impl = "toy_tool ?f" and params = "[]", OF small_git_laws toy_main(2) toy_facts(2) this, of "''bash''" toy_start]
  show ?thesis unfolding toy_call_def by blast
qed

theorem live_tree_refused_witness:
  "\<exists>a'. execute sample_crypto ''/a/log'' 0 5 ((toy_env (\<lambda>_. ''a''))\<lparr>run_cmd := \<lambda>_ _ w. (Inr (toy_ok ''/root/rawos''), w)\<rparr>)
     (\<lambda>_. Some (toy_tool (\<lambda>w. w))) ''u'' ''bash'' [] ''/root/rawos'' (sample_audit, toy_start) = (Inr (tool_error (live_refusal ''bash'')), (a', toy_start))"
proof -
  have strip: "py_strip ''/root/rawos'' = ''/root/rawos''" by code_simp
  show ?thesis
    by (rule live_tree_refused [where r = "toy_ok ''/root/rawos''"])
      (simp_all add: MUTATING_TOOLS_def toy_ok_def toy_env_def strip)
qed

theorem commits_on_own_branches_only_witness:
  "git_commit (toy_env (\<lambda>_. ''a'')) [] ''/wt'' toy_start =
   git_commit ((toy_env (\<lambda>_. ''a''))\<lparr>run_cmd := \<lambda>cmd d w. if cmd = GIT_ADD then (Inl SandboxError, w) else toy_run (\<lambda>_. ''a'') cmd d w\<rparr>) [] ''/wt'' toy_start"
proof (rule commits_on_own_branches_only)
  show "same_but_commits (toy_env (\<lambda>_. ''a'')) ((toy_env (\<lambda>_. ''a''))\<lparr>run_cmd := \<lambda>cmd d w. if cmd = GIT_ADD then (Inl SandboxError, w) else toy_run (\<lambda>_. ''a'') cmd d w\<rparr>)"
    by (auto simp: same_but_commits_def toy_env_def)
  have "toy_run (\<lambda>_. ''a'') CURRENT_BRANCH d w = (Inr (toy_ok []), w)" for d w
    by (simp add: toy_run_def CURRENT_BRANCH_def PORCELAIN_def REV_PARSE_HEAD_def startswith_def cmd_checkout_def)
  then show "exit_code r \<noteq> 0 \<or> \<not> startswith (py_strip (bash_stdout r)) own_branch"
    if "run_cmd (toy_env (\<lambda>_. ''a'')) CURRENT_BRANCH ''/wt'' w = (Inr r, w')" for w r w'
    using that by (auto simp: toy_env_def toy_ok_def own_branch_def py_strip_def py_lstrip_def py_rstrip_def startswith_def)
qed

theorem git_tools_one_command_witness:
  "shlex_split (cmd_branch (own_branch @ ''fix-17'')) = Some [''git'', ''checkout'', ''-b'', ''anima/fix-17'']"
proof -
  have "list_all branch_char ''fix-17''" by code_simp
  then show ?thesis using git_tools_one_command [of "''fix-17''" "[]"] by (simp add: own_branch_def)
qed

end
