(* ===== verification/File_Operator.thy ===== *)
theory File_Operator
  imports Py_Paths Reversible_Operation Anima_Config
begin

text \<open>
  Managed file edits: \<open>LinuxFileOperator\<close> (\<open>anima/kernel/arch/linux.py\<close>), the operation
  \<open>ReversibleFileEdit\<close> and its gate \<open>operate_on_file\<close> / \<open>execute_approved_file_edit\<close>
  (\<open>anima/kernel/operator.py\<close>). The world is any extension of \<^typ>\<open>host\<close>; the validator runs
  on a shell that is a parameter and may change the world.
\<close>

subsection \<open>\<open>LinuxFileOperator\<close>\<close>

definition RAWOS_UNIT_FILE :: string where
  "RAWOS_UNIT_FILE = ''/etc/systemd/system/anima.service''"

definition RAWOS_FRONTDOOR_SSHD_CONFIG :: string where
  "RAWOS_FRONTDOOR_SSHD_CONFIG = ''/etc/ssh/sshd_config.d/50-anima-frontdoor.conf''"

record FileSnapshot =
  snap_path :: string
  existed :: bool
  snap_content :: string

definition file_read :: "string \<Rightarrow> ('m host_scheme, string option) act" where
  "file_read p = act_catch (act_bind (fs_read p) (\<lambda>c. act_return (Some c)))
     (\<lambda>e. if e = PyFileNotFoundError then act_return None else act_raise e)"

definition protected_path :: "Settings \<Rightarrow> string \<Rightarrow> bool" where
  "protected_path cfg p \<longleftrightarrow>
     (let normalized = normpath p; anima_root = normpath (rawos_source_root cfg)
      in normalized \<in> {RAWOS_UNIT_FILE, RAWOS_FRONTDOOR_SSHD_CONFIG} \<or> inside anima_root normalized)"

definition refuse_if_protected :: "Settings \<Rightarrow> string \<Rightarrow> ('m host_scheme, unit) act" where
  "refuse_if_protected cfg p =
     (if protected_path cfg p then act_raise FileOperatorRefusalError else act_return ())"

definition file_write :: "Settings \<Rightarrow> string \<Rightarrow> string \<Rightarrow> ('m host_scheme, unit) act" where
  "file_write cfg p c =
     act_then (refuse_if_protected cfg p)
     (act_then (fs_makedirs (path_parent p)) (fs_write p c))"

definition file_backup :: "string \<Rightarrow> ('m host_scheme, FileSnapshot) act" where
  "file_backup p = act_bind (file_read p) (\<lambda>c. act_return (case c of
       None \<Rightarrow> \<lparr>snap_path = p, existed = False, snap_content = []\<rparr>
     | Some c \<Rightarrow> \<lparr>snap_path = p, existed = True, snap_content = c\<rparr>))"

definition file_restore :: "Settings \<Rightarrow> FileSnapshot \<Rightarrow> ('m host_scheme, unit) act" where
  "file_restore cfg snapshot =
     act_then (refuse_if_protected cfg (snap_path snapshot))
     (if existed snapshot
      then act_then (fs_makedirs (path_parent (snap_path snapshot)))
             (fs_write (snap_path snapshot) (snap_content snapshot))
      else fs_unlink_missing_ok (snap_path snapshot))"

subsection \<open>\<open>ReversibleFileEdit\<close>\<close>

definition file_edit ::
    "Settings \<Rightarrow> ('m host_scheme) shell \<Rightarrow> string \<Rightarrow> string \<Rightarrow> string
     \<Rightarrow> ('m host_scheme, FileSnapshot) reversible_operation" where
  "file_edit cfg sh target_path new_content cmd = \<lparr>
     op_capture = Some (file_backup target_path),
     op_apply = file_write cfg target_path new_content,
     op_verify = act_bind (run_validator sh cmd) (\<lambda>v. act_return (passed v)),
     op_restore = Some (file_restore cfg)\<rparr>"

text \<open>The constructor refuses an empty validator.\<close>

definition ReversibleFileEdit ::
    "Settings \<Rightarrow> ('m host_scheme) shell \<Rightarrow> string \<Rightarrow> string \<Rightarrow> string
     \<Rightarrow> exn + ('m host_scheme, FileSnapshot) reversible_operation" where
  "ReversibleFileEdit cfg sh target_path new_content cmd =
     (if cmd = [] then Inl OperatorError else Inr (file_edit cfg sh target_path new_content cmd))"

subsection \<open>The gate\<close>

record OperateOutcome =
  auto_applied :: bool
  proposed :: bool
  operation_result :: "OperationResult option"
  proposed_content :: "string option"
  proposed_validator_cmd :: "string option"
  reason :: string

definition propose_file :: "string \<Rightarrow> string option \<Rightarrow> string \<Rightarrow> OperateOutcome" where
  "propose_file new_content cmd why = \<lparr>auto_applied = False, proposed = True, operation_result = None,
     proposed_content = Some new_content, proposed_validator_cmd = cmd, reason = why\<rparr>"

definition operate_on_file ::
    "Settings \<Rightarrow> ('m host_scheme) shell \<Rightarrow> string \<Rightarrow> string \<Rightarrow> string \<Rightarrow> string \<Rightarrow> int
     \<Rightarrow> (('m host_scheme) kernel_state, OperateOutcome) act" where
  "operate_on_file cfg sh user_id target_path new_content operation_class now = (\<lambda>st.
     case get_managed_file_target user_id target_path (db st) of
       None \<Rightarrow> (Inr (propose_file new_content None ''target not in managed_file_targets allowlist''), st)
     | Some managed \<Rightarrow>
         let cmd = validator_cmd managed in
         if \<not> operator_enabled cfg
         then (Inr (propose_file new_content (Some cmd) ''operator_enabled=False''), st)
         else if \<not> graduated (db_get_operator_track_record (user_id, operation_class, target_path) (db st))
         then (Inr (propose_file new_content (Some cmd) ''operation not yet graduated''), st)
         else case ReversibleFileEdit cfg sh target_path new_content cmd of
             Inl e \<Rightarrow> (Inl e, st)
           | Inr edit \<Rightarrow>
               act_bind (run_and_record edit (user_id, operation_class, target_path) now) (\<lambda>result.
                 act_return \<lparr>auto_applied = True, proposed = False, operation_result = Some result,
                   proposed_content = None, proposed_validator_cmd = None, reason = detail result\<rparr>) st)"

definition execute_approved_file_edit ::
    "Settings \<Rightarrow> ('m host_scheme) shell \<Rightarrow> string \<Rightarrow> string \<Rightarrow> string \<Rightarrow> string \<Rightarrow> int
     \<Rightarrow> (('m host_scheme) kernel_state, OperationResult) act" where
  "execute_approved_file_edit cfg sh user_id target_path new_content operation_class now = (\<lambda>st.
     case get_managed_file_target user_id target_path (db st) of
       None \<Rightarrow> (Inl OperatorError, st)
     | Some managed \<Rightarrow>
         (case ReversibleFileEdit cfg sh target_path new_content (validator_cmd managed) of
             Inl e \<Rightarrow> (Inl e, st)
           | Inr edit \<Rightarrow> run_and_record edit (user_id, operation_class, target_path) now st))"

subsection \<open>The contract\<close>

lemma file_read_eq:
  "file_read p h = (case files h (fs_key p) of
       None \<Rightarrow> (Inr None, h)
     | Some Directory \<Rightarrow> (Inl PyOSError, h)
     | Some (Regular c) \<Rightarrow> if io_fault h (fs_key p) then (Inl PyOSError, h) else (Inr (Some c), h))"
  by (simp add: file_read_def fs_read_def act_simps split: option.split node.split)

definition snapshot_node :: "FileSnapshot \<Rightarrow> node option" where
  "snapshot_node s = (if existed s then Some (Regular (snap_content s)) else None)"

lemma file_backup_cases:
  "file_backup p h = (r, h') \<Longrightarrow> h' = h \<and>
     (case r of Inl e \<Rightarrow> e = PyOSError | Inr s \<Rightarrow> snap_path s = p \<and> snapshot_node s = files h (fs_key p))"
  by (auto simp: file_backup_def file_read_eq act_simps snapshot_node_def
      split: option.splits node.splits if_splits)

text \<open>The host lets the operator write the target: its directory is there, and no node faults.\<close>

definition writable :: "Settings \<Rightarrow> string \<Rightarrow> 'm host_scheme \<Rightarrow> bool" where
  "writable cfg p h \<longleftrightarrow> \<not> protected_path cfg p \<and> dirs_exist (path_parent p) h
     \<and> parent_ok p h \<and> \<not> io_fault h (fs_key p) \<and> files h (fs_key p) \<noteq> Some Directory"

lemma file_backup_total: "writable cfg p h \<Longrightarrow> \<exists>s. file_backup p h = (Inr s, h)"
  by (cases "files h (fs_key p)"; cases "the (files h (fs_key p))")
     (auto simp: writable_def file_backup_def file_read_eq act_simps)

lemma file_restore_total:
  "writable cfg (snap_path s) h \<Longrightarrow> \<exists>h'. file_restore cfg s h = (Inr (), h')"
  by (auto simp: writable_def file_restore_def refuse_if_protected_def act_simps fs_makedirs_exist
      fs_write_def fs_unlink_missing_ok_eq)

lemma file_restore_content:
  "file_restore cfg s h = (Inr u, h') \<Longrightarrow> files h' (fs_key (snap_path s)) = snapshot_node s"
  by (auto simp: file_restore_def refuse_if_protected_def act_simps snapshot_node_def fs_write_def
      fs_unlink_missing_ok_eq split: if_splits prod.splits sum.splits)

interpretation file_edit: reversible_contract
  "file_edit cfg sh p c cmd" "file_backup p" "file_restore cfg"
  "\<lambda>h. files h (fs_key p)" snapshot_node "writable cfg p" "\<lambda>_. True"
  for cfg and sh :: "('m host_scheme) shell" and p c cmd
proof unfold_locales
  show "op_capture (file_edit cfg sh p c cmd) = Some (file_backup p)"
    and "op_restore (file_edit cfg sh p c cmd) = Some (file_restore cfg)"
    by (simp_all add: file_edit_def)
next
  fix w r and w' :: "'m host_scheme"
  assume "file_backup p w = (r, w')"
  from file_backup_cases [OF this] show "files w' (fs_key p) = files w (fs_key p)" by simp
next
  fix w s and w' :: "'m host_scheme"
  assume "file_backup p w = (Inr s, w')"
  from file_backup_cases [OF this] show "snapshot_node s = files w (fs_key p)" by simp
next
  fix w0 s w1 and w :: "'m host_scheme"
  assume "file_backup p w0 = (Inr s, w1)" and "writable cfg p w"
  with file_backup_cases [of p w0 "Inr s" w1] show "\<exists>w'. file_restore cfg s w = (Inr (), w')"
    by (simp add: file_restore_total)
next
  fix w0 s w1 u and w w' :: "'m host_scheme"
  assume "file_backup p w0 = (Inr s, w1)" and "file_restore cfg s w = (Inr u, w')"
  with file_backup_cases [of p w0 "Inr s" w1] file_restore_content [of cfg s w u w']
  show "files w' (fs_key p) = snapshot_node s" by simp
qed

subsection \<open>Self-protection\<close>

text \<open>
  The nodes the operator must never rewrite: the unit file, the front-door drop-in and everything
  in the source tree.
\<close>

definition protected_node :: "Settings \<Rightarrow> string \<Rightarrow> bool" where
  "protected_node cfg q \<longleftrightarrow> q \<in> {RAWOS_UNIT_FILE, RAWOS_FRONTDOOR_SSHD_CONFIG}
     \<or> inside (normpath (rawos_source_root cfg)) q"

text \<open>What may happen to a protected node: nothing, or a directory where there was no node (an
  ancestor of an unprotected target).\<close>

definition node_safe :: "string \<Rightarrow> ('m host_scheme) \<Rightarrow> ('n host_scheme) \<Rightarrow> bool" where
  "node_safe q h h' \<longleftrightarrow> files h' q = files h q \<or> files h q = None \<and> files h' q = Some Directory"

lemma node_safe_refl [simp]: "node_safe q h h"
  by (simp add: node_safe_def)

lemma node_safe_trans: "node_safe q h h1 \<Longrightarrow> node_safe q h1 h2 \<Longrightarrow> node_safe q h h2"
  by (auto simp: node_safe_def)

lemma node_safe_mkdir: "fs_mkdir d h = (r, h') \<Longrightarrow> node_safe q h h'"
  by (auto simp: fs_mkdir_def node_safe_def split: option.splits node.splits if_splits)

lemma node_safe_mkdirs: "fs_mkdirs ds h = (r, h') \<Longrightarrow> node_safe q h h'"
proof (induction ds arbitrary: h r rule: fs_mkdirs.induct)
  case 1
  then show ?case by simp
next
  case (2 d)
  then show ?case by (simp add: node_safe_mkdir)
next
  case (3 d e ds)
  obtain r1 h1 where one: "fs_mkdir d h = (r1, h1)" by (cases "fs_mkdir d h")
  have g: "node_safe q h h1" by (rule node_safe_mkdir [OF one])
  show ?case
  proof (cases r1)
    case (Inl x)
    with 3 one g show ?thesis by (auto simp: act_simps)
  next
    case (Inr x)
    with "3.prems" one have "fs_mkdirs (e # ds) h1 = (r, h')" by (simp add: act_simps)
    from "3.IH" [OF this] g show ?thesis by (rule node_safe_trans [rotated])
  qed
qed

lemma protected_node_key:
  "initial_slashes p = 1 \<Longrightarrow> protected_node cfg (fs_key p) \<longleftrightarrow> protected_path cfg p"
  by (simp add: protected_node_def protected_path_def fs_key_normpath Let_def)

lemma node_safe_update:
  "q \<noteq> fs_key p \<Longrightarrow> fs_write p c h = (r, h') \<Longrightarrow> node_safe q h h'"
  "q \<noteq> fs_key p \<Longrightarrow> fs_unlink_missing_ok p h = (r, h') \<Longrightarrow> node_safe q h h'"
  by (simp_all add: node_safe_def fs_write_frame fs_unlink_frame)

lemma file_write_node:
  assumes "q \<noteq> fs_key p \<or> protected_path cfg p" "file_write cfg p c h = (r, h')"
  shows "node_safe q h h'"
proof (cases "protected_path cfg p")
  case True
  with assms(2) show ?thesis by (simp add: file_write_def refuse_if_protected_def act_simps)
next
  case False
  with assms show ?thesis
    by (auto simp: file_write_def refuse_if_protected_def act_simps fs_makedirs_def
        split: prod.splits sum.splits dest: node_safe_mkdirs node_safe_update intro: node_safe_trans)
qed

lemma file_restore_node:
  assumes "q \<noteq> fs_key (snap_path s) \<or> protected_path cfg (snap_path s)" "file_restore cfg s h = (r, h')"
  shows "node_safe q h h'"
proof (cases "protected_path cfg (snap_path s)")
  case True
  with assms(2) show ?thesis by (simp add: file_restore_def refuse_if_protected_def act_simps)
next
  case False
  with assms show ?thesis
    by (auto simp: file_restore_def refuse_if_protected_def act_simps fs_makedirs_def
        split: prod.splits sum.splits if_splits
        dest: node_safe_mkdirs node_safe_update intro: node_safe_trans)
qed

lemma run_validator_world:
  "run_validator sh cmd w = (r, w') \<Longrightarrow> w' = snd (sh [''/bin/sh'', ''-c'', cmd] w)"
  by (auto simp: run_validator_def split: prod.splits sum.splits if_splits)

text \<open>An edit leaves every node but its target alone, and its target too when the floor protects it.\<close>

lemma file_edit_node:
  assumes q: "q \<noteq> fs_key p \<or> protected_path cfg p"
    and sh: "\<And>argv w. node_safe q w (snd (sh argv w))"
    and run: "run_reversible_operation (file_edit cfg sh p c cmd) w = (r, w')"
  shows "node_safe q w w'"
proof -
  obtain r1 w1 where cap: "file_backup p w = (r1, w1)" by (cases "file_backup p w")
  have w1: "w1 = w" using file_backup_cases [OF cap] by simp
  show ?thesis
  proof (cases r1)
    case (Inl e)
    with run cap w1 show ?thesis by (simp add: file_edit.run_unfold act_simps)
  next
    case (Inr s)
    have s: "snap_path s = p" using file_backup_cases [OF cap] Inr by simp
    obtain r2 w2 where app: "file_write cfg p c w = (r2, w2)" by (cases "file_write cfg p c w")
    have n2: "node_safe q w w2" by (rule file_write_node [OF q app])
    obtain r3 w3 where val: "run_validator sh cmd w2 = (r3, w3)" by (cases "run_validator sh cmd w2")
    have n3: "node_safe q w w3"
      using node_safe_trans [OF n2 sh] run_validator_world [OF val] by simp
    obtain r4 w4 where res: "file_restore cfg s w3 = (r4, w4)" by (cases "file_restore cfg s w3")
    have n4: "node_safe q w w4"
      using node_safe_trans [OF n3 file_restore_node [OF _ res]] q s by simp
    have "op_apply (file_edit cfg sh p c cmd) = file_write cfg p c"
      and "op_verify (file_edit cfg sh p c cmd) = act_bind (run_validator sh cmd) (\<lambda>v. act_return (passed v))"
      by (simp_all add: file_edit_def)
    with run cap w1 Inr app val res n2 n3 n4 show ?thesis
      by (auto simp: file_edit.run_unfold act_simps split: sum.splits if_splits)
  qed
qed

lemma file_edit_safe:
  assumes "initial_slashes p = 1" "protected_node cfg q" "\<And>argv w. node_safe q w (snd (sh argv w))"
    and "run_reversible_operation (file_edit cfg sh p c cmd) w = (r, w')"
  shows "node_safe q w w'"
proof -
  from assms(1,2) have "q \<noteq> fs_key p \<or> protected_path cfg p" using protected_node_key by blast
  from file_edit_node [OF this assms(3,4)] show ?thesis .
qed

subsection \<open>Properties\<close>

lemma operate_on_file_unfold:
  "operate_on_file cfg sh u p c cls now st =
     (case get_managed_file_target u p (db st) of
        None \<Rightarrow> (Inr (propose_file c None ''target not in managed_file_targets allowlist''), st)
      | Some m \<Rightarrow>
          if operator_enabled cfg \<and> graduated (db_get_operator_track_record (u, cls, p) (db st))
          then act_bind (execute_approved_file_edit cfg sh u p c cls now) (\<lambda>result.
                 act_return \<lparr>auto_applied = True, proposed = False, operation_result = Some result,
                   proposed_content = None, proposed_validator_cmd = None, reason = detail result\<rparr>) st
          else (Inr (propose_file c (Some (validator_cmd m))
                 (if operator_enabled cfg then ''operation not yet graduated'' else ''operator_enabled=False'')), st))"
  by (auto simp: operate_on_file_def execute_approved_file_edit_def ReversibleFileEdit_def act_bind_apply
      Let_def split: option.split)

lemma execute_file_InrE:
  assumes "execute_approved_file_edit cfg sh u p c cls now st = (Inr res, st')"
  obtains m w' where "get_managed_file_target u p (db st) = Some m" and "validator_cmd m \<noteq> []"
    and "run_reversible_operation (file_edit cfg sh p c (validator_cmd m)) (world st) = (Inr res, w')"
    and "st' = st\<lparr>world := w', db := (db st)\<lparr>operator_tracks :=
       snd (update_operator_track_record (u, cls, p) (verified res, now) (operator_tracks (db st)))\<rparr>\<rparr>"
proof -
  from assms obtain m where m: "get_managed_file_target u p (db st) = Some m" "validator_cmd m \<noteq> []"
    and run: "run_and_record (file_edit cfg sh p c (validator_cmd m)) (u, cls, p) now st = (Inr res, st')"
    by (auto simp: execute_approved_file_edit_def ReversibleFileEdit_def split: option.splits if_splits)
  obtain r w' where w: "run_reversible_operation (file_edit cfg sh p c (validator_cmd m)) (world st) = (r, w')"
    by (cases "run_reversible_operation (file_edit cfg sh p c (validator_cmd m)) (world st)")
  from run w have "r = Inr res" and "st' = st\<lparr>world := w', db := (db st)\<lparr>operator_tracks :=
       snd (update_operator_track_record (u, cls, p) (verified res, now) (operator_tracks (db st)))\<rparr>\<rparr>"
    by (cases r; auto simp: run_and_record_Inr run_and_record_Inl)+
  with m w that show thesis by blast
qed

text \<open>A small host on which the properties are applied: the directories of \<open>/etc/nginx/nginx.conf\<close>
  and a validator shell that answers with a fixed return code and leaves the host alone.\<close>

definition sample_host :: host where
  "sample_host = \<lparr>files = [''/etc'' \<mapsto> Directory, ''/etc/nginx'' \<mapsto> Directory,
     ''/etc/nginx/nginx.conf'' \<mapsto> Regular ''old''], io_fault = (\<lambda>_. False)\<rparr>"

definition sample_shell :: "int \<Rightarrow> host shell" where
  "sample_shell rc argv = act_return \<lparr>returncode = rc, stdout = [], stderr = []\<rparr>"

definition graduated_row :: track_row where
  "graduated_row = \<lparr>row_verified_successes = 3, row_graduated = 1, row_last_outcome = None,
     row_last_fix_branch = None, row_last_fix_sha = None, row_pending_since = None, row_updated_at = 0\<rparr>"

definition sample_file_state :: "host kernel_state" where
  "sample_file_state = \<lparr>db = empty_db\<lparr>
     managed_file_targets := [((''u'', ''/etc/nginx/nginx.conf''), \<lparr>validator_cmd = ''nginx -t'', created_at = 0\<rparr>)],
     operator_tracks := [(''u'', ''file_edit'', ''/etc/nginx/nginx.conf'') \<mapsto> graduated_row]\<rparr>,
     world = sample_host\<rparr>"

lemmas sample_defs = sample_host_def sample_shell_def graduated_row_def sample_file_state_def
  default_settings_def empty_db_def

text \<open>A managed file edit is applied without the owner exactly when the operator flag is on, the
  target is allowlisted for the user and its operation class has graduated. In every other case the
  edit is only proposed, with the content, and neither the host nor the database changes.\<close>

theorem operate_on_file_gate:
  "if get_managed_file_target u p (db st) \<noteq> None \<and> operator_enabled cfg
      \<and> graduated (get_operator_track_record (u, cls, p) (operator_tracks (db st)))
   then map_sum id auto_applied (fst (operate_on_file cfg sh u p c cls now st)) =
          map_sum id (\<lambda>_. True) (fst (execute_approved_file_edit cfg sh u p c cls now st))
        \<and> snd (operate_on_file cfg sh u p c cls now st) = snd (execute_approved_file_edit cfg sh u p c cls now st)
   else snd (operate_on_file cfg sh u p c cls now st) = st
        \<and> map_sum id (\<lambda>x. (auto_applied x, proposed x, proposed_content x))
            (fst (operate_on_file cfg sh u p c cls now st)) = Inr (False, True, Some c)"
  by (auto simp: operate_on_file_unfold propose_file_def db_get_operator_track_record_def act_simps
      split: option.splits prod.splits sum.splits)

text \<open>C2: If an edit's validator does not pass (or its verification raises), an owner-approved edit that
  returns has put the target back: the node at the path is what it was before the edit, and the
  operation class has earned no credit.\<close>

theorem file_edit_rejected_is_undone:
  assumes run: "execute_approved_file_edit cfg sh u p c cls now st = (Inr res, st')"
    and no: "\<not> verified res"
  shows "files (world st') (fs_key p) = files (world st) (fs_key p) \<and> restored res
    \<and> verified_successes (get_operator_track_record (u, cls, p) (operator_tracks (db st'))) =
       verified_successes (get_operator_track_record (u, cls, p) (operator_tracks (db st)))
    \<and> pending_since (get_operator_track_record (u, cls, p) (operator_tracks (db st'))) = None"
proof -
  obtain m :: command_target and w'
    where w: "run_reversible_operation (file_edit cfg sh p c (validator_cmd m)) (world st) = (Inr res, w')"
    and st': "st' = st\<lparr>world := w', db := (db st)\<lparr>operator_tracks :=
       snd (update_operator_track_record (u, cls, p) (verified res, now) (operator_tracks (db st)))\<rparr>\<rparr>"
    by (rule execute_file_InrE [OF run]) blast
  have "files w' (fs_key p) = files (world st) (fs_key p)"
    by (rule file_edit.restored_means_undone [OF w no]) simp
  moreover have "restored res" using file_edit.outcome_exhaustive [OF w] no by auto
  ultimately show ?thesis
    by (simp add: st' operator_ledger.get_upd_same no advance_state_def)
qed

theorem file_edit_rejected_is_undone_witness:
  "files (world (snd (execute_approved_file_edit default_settings (sample_shell 1) ''u''
     ''/etc/nginx/nginx.conf'' ''new'' ''file_edit'' 7 sample_file_state))) ''/etc/nginx/nginx.conf''
   = Some (Regular ''old'')"
proof -
  let ?run = "execute_approved_file_edit default_settings (sample_shell 1) ''u''
     ''/etc/nginx/nginx.conf'' ''new'' ''file_edit'' 7 sample_file_state"
  have run: "fst ?run = Inr restored_result" by code_simp
  have "?run = (Inr restored_result, snd ?run)" using run by (metis prod.collapse)
  from file_edit_rejected_is_undone [OF this]
  have "files (world (snd ?run)) (fs_key ''/etc/nginx/nginx.conf'') =
      files (world sample_file_state) (fs_key ''/etc/nginx/nginx.conf'')"
    by simp
  moreover have "files (world sample_file_state) (fs_key ''/etc/nginx/nginx.conf'') = Some (Regular ''old'')"
    by code_simp
  moreover have "fs_key ''/etc/nginx/nginx.conf'' = ''/etc/nginx/nginx.conf''" by code_simp
  ultimately show ?thesis by simp
qed

text \<open>An owner-approved edit of an allowlisted target always returns a result when the host lets the
  operator write the target and the validator neither edits it nor takes that permission away: with the
  new content in the file if the validator exits with code 0, and with the old node otherwise
  (a non-zero code, a timeout, or any other failure to run the validator).\<close>

theorem file_edit_total:
  assumes managed: "get_managed_file_target u p (db st) = Some m" "validator_cmd m \<noteq> []"
    and host: "writable cfg p (world st)"
    and validator: "\<And>argv w. writable cfg p w \<Longrightarrow> writable cfg p (snd (sh argv w))
      \<and> files (snd (sh argv w)) (fs_key p) = files w (fs_key p)"
  shows "\<exists>res st'. execute_approved_file_edit cfg sh u p c cls now st = (Inr res, st')
    \<and> files (world st') (fs_key p) =
        (if verified res then Some (Regular c) else files (world st) (fs_key p))
    \<and> (verified res \<longleftrightarrow> (case fst (sh [''/bin/sh'', ''-c'', validator_cmd m]
          (world st\<lparr>files := (files (world st))(fs_key p \<mapsto> Regular c)\<rparr>)) of
            Inr q \<Rightarrow> returncode q = 0 | Inl e \<Rightarrow> False))"
proof -
  let ?op = "file_edit cfg sh p c (validator_cmd m)" and ?argv = "[''/bin/sh'', ''-c'', validator_cmd m]"
  let ?w2 = "world st\<lparr>files := (files (world st))(fs_key p \<mapsto> Regular c)\<rparr>"
  obtain s where cap: "file_backup p (world st) = (Inr s, world st)"
    using host by (rule file_backup_total [elim_format]) blast
  have app: "op_apply ?op (world st) = (Inr (), ?w2)"
    using host by (simp add: file_edit_def file_write_def refuse_if_protected_def writable_def act_simps
        fs_makedirs_exist fs_write_def)
  have w2: "writable cfg p ?w2"
    using host by (auto simp: writable_def dirs_exist_def parent_ok_def list_all_iff)
  obtain r w3 where sh: "sh ?argv ?w2 = (r, w3)" by (cases "sh ?argv ?w2")
  have w3: "writable cfg p w3" "files w3 (fs_key p) = Some (Regular c)"
    using validator [OF w2, of ?argv] sh by simp_all
  define good where "good = (case r of Inr q \<Rightarrow> returncode q = 0 | Inl e \<Rightarrow> False)"
  have "snd (op_verify ?op ?w2) = w3" and "fst (op_verify ?op ?w2) = Inr True \<longleftrightarrow> good"
    using sh by (simp_all add: file_edit_def run_validator_def act_simps good_def split: sum.splits)
  then obtain v where ver: "op_verify ?op ?w2 = (v, w3)" "v = Inr True \<longleftrightarrow> good"
    by (metis prod.collapse)
  have "\<exists>res w4. run_reversible_operation ?op (world st) = (Inr res, w4) \<and> (verified res \<longleftrightarrow> good)
     \<and> files w4 (fs_key p) = (if good then Some (Regular c) else files (world st) (fs_key p))"
  proof (cases good)
    case True
    with cap app ver w3 show ?thesis by (simp add: file_edit.run_unfold act_simps)
  next
    case False
    with ver(2) have no: "v \<noteq> Inr True" by simp
    from file_edit.rejected_is_undone [OF cap app ver(1) no w3(1)] False
    show ?thesis by auto
  qed
  then obtain res w4 where w4: "run_reversible_operation ?op (world st) = (Inr res, w4)"
    "verified res \<longleftrightarrow> good" "files w4 (fs_key p) = (if good then Some (Regular c) else files (world st) (fs_key p))"
    by blast
  show ?thesis
    using managed w4 sh
    by (simp add: execute_approved_file_edit_def ReversibleFileEdit_def run_and_record_Inr good_def)
qed

theorem file_edit_total_witness:
  "\<exists>res st'. execute_approved_file_edit default_settings (sample_shell 0) ''u'' ''/etc/nginx/nginx.conf''
     ''new'' ''file_edit'' 7 sample_file_state = (Inr res, st') \<and> verified res
     \<and> files (world st') ''/etc/nginx/nginx.conf'' = Some (Regular ''new'')"
proof -
  have key: "fs_key ''/etc/nginx/nginx.conf'' = ''/etc/nginx/nginx.conf''" by code_simp
  have cmd: "get_managed_file_target ''u'' ''/etc/nginx/nginx.conf'' (db sample_file_state)
      = Some \<lparr>validator_cmd = ''nginx -t'', created_at = 0\<rparr>" by code_simp
  have host: "writable default_settings ''/etc/nginx/nginx.conf'' (world sample_file_state)" by code_simp
  have validator: "writable default_settings ''/etc/nginx/nginx.conf'' w \<Longrightarrow>
      writable default_settings ''/etc/nginx/nginx.conf'' (snd (sample_shell 0 argv w))
      \<and> files (snd (sample_shell 0 argv w)) (fs_key ''/etc/nginx/nginx.conf'') =
        files w (fs_key ''/etc/nginx/nginx.conf'')" for argv w
    by (simp add: sample_shell_def)
  have answer: "fst (sample_shell 0 argv w) = Inr \<lparr>returncode = 0, stdout = [], stderr = []\<rparr>" for argv w
    by (simp add: sample_shell_def)
  show ?thesis
    using file_edit_total [where sh = "sample_shell 0" and c = "''new''" and cls = "''file_edit''" and now = 7, OF cmd _ host validator]
    by (auto simp: answer key)
qed

text \<open>An owner-approved edit of an absolute path (one leading slash) leaves every self-protected
  node alone, whatever the allowlist says, whether the edit is kept, rolled back or fails half-way:
  the anima unit file, the front-door drop-in and the whole source tree. At most a missing ancestor
  directory of the target is created. (The validator is assumed to respect the same nodes.)\<close>

theorem file_edit_self_protection:
  assumes "initial_slashes p = 1" and "protected_node cfg q"
    and "\<And>argv w. node_safe q w (snd (sh argv w))"
  shows "node_safe q (world st) (world (snd (execute_approved_file_edit cfg sh u p c cls now st)))"
proof -
  have "node_safe q (world st)
      (world (snd (run_and_record (file_edit cfg sh p c cmd) k now st)))" for cmd k
  proof (cases "run_reversible_operation (file_edit cfg sh p c cmd) (world st)")
    case (Pair r w')
    with file_edit_safe [OF assms Pair] show ?thesis
      by (cases r) (simp_all add: run_and_record_Inr run_and_record_Inl)
  qed
  then show ?thesis
    by (simp add: execute_approved_file_edit_def ReversibleFileEdit_def split: option.split)
qed

theorem file_edit_self_protection_witness:
  "node_safe ''/root/rawos/data/rawos.db'' (world sample_file_state) (world (snd (execute_approved_file_edit
     default_settings (sample_shell 0) ''u'' ''/root/rawos/data/rawos.db'' ''x'' ''file_edit'' 7
     (sample_file_state\<lparr>db := (db sample_file_state)\<lparr>managed_file_targets :=
        [((''u'', ''/root/rawos/data/rawos.db''), \<lparr>validator_cmd = ''true'', created_at = 0\<rparr>)]\<rparr>\<rparr>))))"
proof -
  have a: "initial_slashes ''/root/rawos/data/rawos.db'' = 1" by code_simp
  have b: "protected_node default_settings ''/root/rawos/data/rawos.db''" by code_simp
  have c: "node_safe ''/root/rawos/data/rawos.db'' w (snd (sample_shell 0 argv w))" for argv w
    by (simp add: sample_shell_def)
  show ?thesis
    using file_edit_self_protection [OF a b, of "sample_shell 0", OF c, of "sample_file_state\<lparr>db := (db sample_file_state)\<lparr>managed_file_targets :=
        [((''u'', ''/root/rawos/data/rawos.db''), \<lparr>validator_cmd = ''true'', created_at = 0\<rparr>)]\<rparr>\<rparr>"]
    by simp
qed

text \<open>The self-protection does not hold for a path with exactly two leading slashes: \<open>normpath\<close>
  keeps them, so the comparison with the protected paths fails, and the operator rewrites anima's own
  unit file through the allowlist entry \<open>//etc/systemd/system/anima.service\<close>.\<close>

theorem file_edit_double_slash_bypass:
  "let h = \<lparr>files = [''/etc'' \<mapsto> Directory, ''/etc/systemd'' \<mapsto> Directory,
         ''/etc/systemd/system'' \<mapsto> Directory, RAWOS_UNIT_FILE \<mapsto> Regular ''unit''], io_fault = (\<lambda>_. False)\<rparr>;
       out = file_write default_settings ''//etc/systemd/system/anima.service'' ''x'' h
   in fst out = Inr () \<and> files (snd out) RAWOS_UNIT_FILE = Some (Regular ''x'')
      \<and> fst (file_write default_settings RAWOS_UNIT_FILE ''x'' h) = Inl FileOperatorRefusalError"
  by code_simp

end
