(* ===== verification/Service_Operator.thy ===== *)
theory Service_Operator
  imports Reversible_Operation Anima_Config
begin

text \<open>
  Service lifecycle actions: \<open>LinuxServiceManager\<close> (\<open>anima/kernel/arch/linux.py\<close>), the operation
  \<open>ReversibleServiceAction\<close> and its gate \<open>operate_on_service\<close> /
  \<open>execute_approved_service_action\<close> (\<open>anima/kernel/operator.py\<close>). \<open>systemctl\<close> is a parameter:
  a query for the verbs that report and a shell for the verbs that act.
\<close>

subsection \<open>Service managers\<close>

text \<open>The \<open>ServiceManager\<close> protocol, as far as the operator uses it.\<close>

record 'w service_manager =
  is_active :: "string \<Rightarrow> 'w \<Rightarrow> bool"
  svc_restart :: "string \<Rightarrow> ('w, bool) act"
  svc_start :: "string \<Rightarrow> ('w, bool) act"
  svc_stop :: "string \<Rightarrow> ('w, bool) act"

definition linux_is_active :: "'w query \<Rightarrow> string \<Rightarrow> 'w \<Rightarrow> bool" where
  "linux_is_active ctl name w = (case ctl [''systemctl'', ''is-active'', name] w of
       Inl e \<Rightarrow> False | Inr r \<Rightarrow> py_strip (stdout r) = ''active'')"

text \<open>\<open>restart\<close>, \<open>start\<close> and \<open>stop\<close> differ in the verb only; every exception is \<open>False\<close>.\<close>

definition linux_verb :: "'w shell \<Rightarrow> string \<Rightarrow> string \<Rightarrow> ('w, bool) act" where
  "linux_verb sh verb name = act_catch
     (act_bind (sh [''systemctl'', verb, name]) (\<lambda>r. act_return (returncode r = 0)))
     (\<lambda>_. act_return False)"

definition linux_restart :: "'w shell \<Rightarrow> string \<Rightarrow> ('w, bool) act" where
  "linux_restart sh = linux_verb sh ''restart''"

definition linux_start :: "'w shell \<Rightarrow> string \<Rightarrow> ('w, bool) act" where
  "linux_start sh = linux_verb sh ''start''"

definition linux_stop :: "'w shell \<Rightarrow> string \<Rightarrow> ('w, bool) act" where
  "linux_stop sh = linux_verb sh ''stop''"

definition linux_service_manager :: "'w query \<Rightarrow> 'w shell \<Rightarrow> 'w service_manager" where
  "linux_service_manager ctl sh = \<lparr>is_active = linux_is_active ctl, svc_restart = linux_restart sh,
     svc_start = linux_start sh, svc_stop = linux_stop sh\<rparr>"

definition linux_list_failed :: "'w query \<Rightarrow> 'w \<Rightarrow> string list" where
  "linux_list_failed ctl w = (case ctl [''systemctl'', ''list-units'', ''--type=service'',
       ''--state=failed'', ''--no-legend'', ''--no-pager'', ''--plain''] w of
       Inl e \<Rightarrow> []
     | Inr r \<Rightarrow> if returncode r \<noteq> 0 \<or> py_strip (stdout r) = [] then []
         else concat (map (\<lambda>line. case py_words line of
             [] \<Rightarrow> []
           | [name] \<Rightarrow> [py_rstrip name]
           | name # load # _ \<Rightarrow> if load = ''not-found'' then [] else [py_rstrip name])
           (splitlines (py_strip (stdout r)))))"

subsection \<open>\<open>ReversibleServiceAction\<close>\<close>

definition SELF_PROTECTED_SERVICES :: "string set" where
  "SELF_PROTECTED_SERVICES = {''anima.service'', ''anima'', ''ssh.service'', ''ssh'',
     ''sshd.service'', ''sshd''}"

definition SERVICE_ACTIONS :: "string list" where
  "SERVICE_ACTIONS = [''restart'', ''start'', ''stop'']"

record ServiceSnapshot =
  service_name :: string
  was_active :: bool

definition service_capture :: "'w service_manager \<Rightarrow> string \<Rightarrow> ('w, ServiceSnapshot) act" where
  "service_capture mgr name = act_get (\<lambda>w. \<lparr>service_name = name, was_active = is_active mgr name w\<rparr>)"

definition service_apply :: "'w service_manager \<Rightarrow> string \<Rightarrow> string \<Rightarrow> ('w, unit) act" where
  "service_apply mgr name action =
     act_then (if action = ''restart'' then svc_restart mgr name
               else if action = ''start'' then svc_start mgr name
               else svc_stop mgr name) (act_return ())"

definition service_verify :: "'w service_manager \<Rightarrow> 'w shell \<Rightarrow> string \<Rightarrow> string \<Rightarrow> string \<Rightarrow> ('w, bool) act" where
  "service_verify mgr sh name action cmd =
     (if action = ''stop'' then act_get (\<lambda>w. \<not> is_active mgr name w)
      else act_bind (act_get (is_active mgr name)) (\<lambda>up.
        if up then act_bind (run_validator sh cmd) (\<lambda>v. act_return (passed v)) else act_return False))"

definition service_restore :: "'w service_manager \<Rightarrow> string \<Rightarrow> ServiceSnapshot \<Rightarrow> ('w, unit) act" where
  "service_restore mgr name snapshot = act_bind (act_get (is_active mgr name)) (\<lambda>is_active_now.
     if was_active snapshot \<and> \<not> is_active_now then act_then (svc_start mgr name) (act_return ())
     else if \<not> was_active snapshot \<and> is_active_now then act_then (svc_stop mgr name) (act_return ())
     else act_return ())"

definition service_action ::
    "'w service_manager \<Rightarrow> 'w shell \<Rightarrow> string \<Rightarrow> string \<Rightarrow> string \<Rightarrow> ('w, ServiceSnapshot) reversible_operation" where
  "service_action mgr sh name action cmd = \<lparr>
     op_capture = Some (service_capture mgr name),
     op_apply = service_apply mgr name action,
     op_verify = service_verify mgr sh name action cmd,
     op_restore = Some (service_restore mgr name)\<rparr>"

text \<open>The constructor's refusals, in order.\<close>

definition ReversibleServiceAction ::
    "'w service_manager \<Rightarrow> 'w shell \<Rightarrow> string \<Rightarrow> string \<Rightarrow> string
     \<Rightarrow> exn + ('w, ServiceSnapshot) reversible_operation" where
  "ReversibleServiceAction mgr sh name action cmd =
     (if py_lower (py_strip name) \<in> SELF_PROTECTED_SERVICES then Inl ServiceOperatorRefusalError
      else if action \<notin> set SERVICE_ACTIONS then Inl OperatorError
      else if cmd = [] then Inl OperatorError
      else Inr (service_action mgr sh name action cmd))"

subsection \<open>The gate\<close>

record ServiceOperateOutcome =
  svc_auto_applied :: bool
  svc_proposed :: bool
  svc_operation_result :: "OperationResult option"
  proposed_action :: "string option"
  svc_proposed_validator_cmd :: "string option"
  svc_reason :: string

definition propose_service :: "string \<Rightarrow> string option \<Rightarrow> string \<Rightarrow> ServiceOperateOutcome" where
  "propose_service action cmd why = \<lparr>svc_auto_applied = False, svc_proposed = True,
     svc_operation_result = None, proposed_action = Some action, svc_proposed_validator_cmd = cmd,
     svc_reason = why\<rparr>"

definition operate_on_service ::
    "Settings \<Rightarrow> 'w service_manager \<Rightarrow> 'w shell \<Rightarrow> string \<Rightarrow> string \<Rightarrow> string \<Rightarrow> int
     \<Rightarrow> ('w kernel_state, ServiceOperateOutcome) act" where
  "operate_on_service cfg mgr sh user_id name action now = (\<lambda>st.
     let operation_class = ''service_'' @ action in
     case get_managed_service_target user_id name (db st) of
       None \<Rightarrow> (Inr (propose_service action None ''target not in managed_service_targets allowlist''), st)
     | Some managed \<Rightarrow>
         let cmd = validator_cmd managed in
         if \<not> operator_service_enabled cfg
         then (Inr (propose_service action (Some cmd) ''operator_service_enabled=False''), st)
         else if \<not> graduated (db_get_operator_track_record (user_id, operation_class, name) (db st))
         then (Inr (propose_service action (Some cmd) ''operation not yet graduated''), st)
         else case ReversibleServiceAction mgr sh name action cmd of
             Inl e \<Rightarrow> (Inl e, st)
           | Inr svc_op \<Rightarrow>
               act_bind (run_and_record svc_op (user_id, operation_class, name) now) (\<lambda>result.
                 act_return \<lparr>svc_auto_applied = True, svc_proposed = False,
                   svc_operation_result = Some result, proposed_action = None,
                   svc_proposed_validator_cmd = None, svc_reason = detail result\<rparr>) st)"

definition execute_approved_service_action ::
    "'w service_manager \<Rightarrow> 'w shell \<Rightarrow> string \<Rightarrow> string \<Rightarrow> string \<Rightarrow> int
     \<Rightarrow> ('w kernel_state, OperationResult) act" where
  "execute_approved_service_action mgr sh user_id name action now = (\<lambda>st.
     let operation_class = ''service_'' @ action in
     case get_managed_service_target user_id name (db st) of
       None \<Rightarrow> (Inl OperatorError, st)
     | Some managed \<Rightarrow>
         (case ReversibleServiceAction mgr sh name action (validator_cmd managed) of
             Inl e \<Rightarrow> (Inl e, st)
           | Inr svc_op \<Rightarrow> run_and_record svc_op (user_id, operation_class, name) now st))"

subsection \<open>The contract\<close>

text \<open>\<open>obedient\<close>: the service manager does what it is told. \<open>responsive\<close>: it never raises.\<close>

definition responsive :: "'w service_manager \<Rightarrow> string \<Rightarrow> 'w \<Rightarrow> bool" where
  "responsive mgr name w \<longleftrightarrow> \<not> isl (fst (svc_start mgr name w)) \<and> \<not> isl (fst (svc_stop mgr name w))"

definition obedient :: "'w service_manager \<Rightarrow> string \<Rightarrow> 'w \<Rightarrow> bool" where
  "obedient mgr name w \<longleftrightarrow> is_active mgr name (snd (svc_start mgr name w))
     \<and> \<not> is_active mgr name (snd (svc_stop mgr name w))"

interpretation service_action: reversible_contract
  "service_action mgr sh name action cmd" "service_capture mgr name" "service_restore mgr name"
  "is_active mgr name" was_active "responsive mgr name" "obedient mgr name"
  for mgr and sh :: "'w shell" and name action cmd
proof unfold_locales
  show "op_capture (service_action mgr sh name action cmd) = Some (service_capture mgr name)"
    and "op_restore (service_action mgr sh name action cmd) = Some (service_restore mgr name)"
    by (simp_all add: service_action_def)
next
  fix w0 w w1 :: 'w and s
  assume "responsive mgr name w"
  then obtain b1 w1 b2 w2 where "svc_start mgr name w = (Inr b1, w1)" "svc_stop mgr name w = (Inr b2, w2)"
    by (metis responsive_def sum.disc_eq_case(2) sum.case_eq_if sum.collapse(2) prod.collapse)
  then show "\<exists>w'. service_restore mgr name s w = (Inr (), w')"
    by (simp add: service_restore_def act_simps)
next
  fix w0 w1 w w' :: 'w and s u
  assume "obedient mgr name w" and "service_restore mgr name s w = (Inr u, w')"
  then show "is_active mgr name w' = was_active s"
    by (auto simp: service_restore_def obedient_def act_simps split: if_splits prod.splits sum.splits)
qed (auto simp: service_capture_def act_simps)

lemma linux_responsive [simp]: "responsive (linux_service_manager ctl sh) name w"
  by (simp add: responsive_def linux_service_manager_def linux_start_def linux_stop_def linux_verb_def
      act_simps split: prod.split sum.split)

lemma linux_verb_returns: "\<exists>b w'. linux_verb sh verb name w = (Inr b, w')"
  by (cases "sh [''systemctl'', verb, name] w"; cases "fst (sh [''systemctl'', verb, name] w)")
     (auto simp: linux_verb_def act_simps)

lemma linux_apply_returns: "\<exists>w'. service_apply (linux_service_manager ctl sh) name action w = (Inr (), w')"
  using linux_verb_returns [of sh "''restart''" name w] linux_verb_returns [of sh "''start''" name w]
    linux_verb_returns [of sh "''stop''" name w]
  by (auto simp: service_apply_def linux_service_manager_def linux_restart_def linux_start_def
      linux_stop_def act_simps)

subsection \<open>Properties\<close>

lemma execute_service_InrE:
  assumes "execute_approved_service_action mgr sh u name action now st = (Inr res, st')"
  obtains m :: command_target and w'
  where "get_managed_service_target u name (db st) = Some m"
    and "py_lower (py_strip name) \<notin> SELF_PROTECTED_SERVICES" and "action \<in> set SERVICE_ACTIONS"
    and "run_reversible_operation (service_action mgr sh name action (validator_cmd m)) (world st) = (Inr res, w')"
    and "st' = st\<lparr>world := w', db := (db st)\<lparr>operator_tracks := snd (update_operator_track_record
       (u, ''service_'' @ action, name) (verified res, now) (operator_tracks (db st)))\<rparr>\<rparr>"
proof -
  from assms obtain m where m: "get_managed_service_target u name (db st) = Some m"
      "py_lower (py_strip name) \<notin> SELF_PROTECTED_SERVICES" "action \<in> set SERVICE_ACTIONS"
    and run: "run_and_record (service_action mgr sh name action (validator_cmd m))
      (u, ''service_'' @ action, name) now st = (Inr res, st')"
    by (auto simp: execute_approved_service_action_def ReversibleServiceAction_def Let_def
        split: option.splits if_splits)
  obtain r w' where w: "run_reversible_operation (service_action mgr sh name action (validator_cmd m)) (world st) = (r, w')"
    by (cases "run_reversible_operation (service_action mgr sh name action (validator_cmd m)) (world st)")
  from run w have "r = Inr res" and "st' = st\<lparr>world := w', db := (db st)\<lparr>operator_tracks :=
      snd (update_operator_track_record (u, ''service_'' @ action, name) (verified res, now)
        (operator_tracks (db st)))\<rparr>\<rparr>"
    by (cases r; auto simp: run_and_record_Inr run_and_record_Inl)+
  with m w that show thesis by blast
qed

text \<open>A machine with one service, on which the properties are applied: the world is its run-state.\<close>

definition sample_ctl :: "bool query" where
  "sample_ctl argv up = Inr \<lparr>returncode = (if up then 0 else 3),
     stdout = (if up then ''active '' else ''inactive ''), stderr = []\<rparr>"

definition sample_systemctl :: "int \<Rightarrow> bool shell" where
  "sample_systemctl rc argv = (if argv ! 0 = ''systemctl''
     then (\<lambda>up. (Inr \<lparr>returncode = 0, stdout = [], stderr = []\<rparr>, argv ! 1 \<noteq> ''stop''))
     else act_return \<lparr>returncode = rc, stdout = [], stderr = []\<rparr>)"

definition sample_service_state :: "string \<Rightarrow> bool kernel_state" where
  "sample_service_state name = \<lparr>db = empty_db\<lparr>managed_service_targets :=
     [((''u'', name), \<lparr>validator_cmd = ''curl localhost'', created_at = 0\<rparr>)]\<rparr>, world = False\<rparr>"

text \<open>C23: The lockout-safety floor: no entry point ever touches anima's own service or ssh, in any
  capitalisation or padding of the name, even if the owner allowlisted it and the class graduated:
  the machine and the database stay as they are, and an approved action is an error.\<close>

theorem service_lockout_floor:
  assumes "py_lower (py_strip name) \<in> SELF_PROTECTED_SERVICES"
  shows "snd (operate_on_service cfg mgr sh u name action now st) = st
    \<and> snd (execute_approved_service_action mgr sh u name action now st) = st
    \<and> isl (fst (execute_approved_service_action mgr sh u name action now st))"
  using assms
  by (simp add: operate_on_service_def execute_approved_service_action_def ReversibleServiceAction_def
      Let_def split: option.split)

theorem service_lockout_floor_witness:
  "snd (execute_approved_service_action (linux_service_manager sample_ctl (sample_systemctl 0))
     (sample_systemctl 0) ''u'' '' SSHD '' ''stop'' 5 (sample_service_state '' SSHD '')) =
   sample_service_state '' SSHD ''"
proof -
  have "py_lower (py_strip '' SSHD '') \<in> SELF_PROTECTED_SERVICES" by code_simp
  from service_lockout_floor [OF this] show ?thesis by blast
qed

text \<open>A service action is applied without the owner exactly when the service flag is on, the service
  is allowlisted and the class of this action has graduated; otherwise it is only proposed and nothing
  changes.\<close>

theorem operate_on_service_gate:
  "if get_managed_service_target u name (db st) \<noteq> None \<and> operator_service_enabled cfg
      \<and> graduated (get_operator_track_record (u, ''service_'' @ action, name) (operator_tracks (db st)))
   then map_sum id svc_operation_result (fst (operate_on_service cfg mgr sh u name action now st)) =
          map_sum id Some (fst (execute_approved_service_action mgr sh u name action now st))
        \<and> snd (operate_on_service cfg mgr sh u name action now st) =
          snd (execute_approved_service_action mgr sh u name action now st)
   else snd (operate_on_service cfg mgr sh u name action now st) = st
        \<and> map_sum id (\<lambda>x. (svc_auto_applied x, svc_proposed x, proposed_action x))
            (fst (operate_on_service cfg mgr sh u name action now st)) = Inr (False, True, Some action)"
  by (auto simp: operate_on_service_def execute_approved_service_action_def ReversibleServiceAction_def
      propose_service_def db_get_operator_track_record_def Let_def act_simps
      split: option.splits prod.splits sum.splits)

text \<open>On Linux an owner-approved action on an allowlisted service outside the floor always returns.
  If it is kept, the verdict was real: after \<open>stop\<close> the service is inactive, after \<open>start\<close> and
  \<open>restart\<close> it was active and the validator, run then, passed. If it is not kept and systemctl obeys,
  the service has the run-state it had before, and the class earns no credit.\<close>

theorem service_action_total:
  fixes ctl :: "'w query" and sh :: "'w shell"
  defines "mgr \<equiv> linux_service_manager ctl sh"
  assumes managed: "get_managed_service_target u name (db st) = Some m" "validator_cmd m \<noteq> []"
    and action: "action \<in> set SERVICE_ACTIONS" "py_lower (py_strip name) \<notin> SELF_PROTECTED_SERVICES"
  shows "\<exists>res st'. execute_approved_service_action mgr sh u name action now st = (Inr res, st')
    \<and> (if verified res
       then (if action = ''stop'' then \<not> is_active mgr name (world st')
             else \<exists>w2 v. is_active mgr name w2 \<and> run_validator sh (validator_cmd m) w2 = (Inr v, world st') \<and> passed v)
       else ((\<forall>w. obedient mgr name w) \<longrightarrow> is_active mgr name (world st') = is_active mgr name (world st))
          \<and> verified_successes (get_operator_track_record (u, ''service_'' @ action, name) (operator_tracks (db st'))) =
            verified_successes (get_operator_track_record (u, ''service_'' @ action, name) (operator_tracks (db st))))"
proof -
  let ?op = "service_action mgr sh name action (validator_cmd m)"
  have cap: "service_capture mgr name (world st) =
      (Inr \<lparr>service_name = name, was_active = is_active mgr name (world st)\<rparr>, world st)"
    by (simp add: service_capture_def)
  obtain w2 where app: "op_apply ?op (world st) = (Inr (), w2)"
    using linux_apply_returns unfolding mgr_def service_action_def by fastforce
  obtain v w3 where ver: "op_verify ?op w2 = (v, w3)" by (cases "op_verify ?op w2")
  have "\<exists>res w4. run_reversible_operation ?op (world st) = (Inr res, w4) \<and> (verified res \<longrightarrow> v = Inr True \<and> w4 = w3)"
  proof (cases "v = Inr True")
    case True
    with cap app ver show ?thesis by (simp add: service_action.run_unfold act_simps)
  next
    case False
    obtain w4 where "service_restore mgr name \<lparr>service_name = name, was_active = is_active mgr name (world st)\<rparr> w3 = (Inr (), w4)"
      using service_action.restore_total [OF cap, of w3] by (auto simp: mgr_def)
    with False cap app ver show ?thesis
      by (cases v) (auto simp: service_action.run_unfold act_simps)
  qed
  then obtain res w4 where run: "run_reversible_operation ?op (world st) = (Inr res, w4)"
    and kept: "verified res \<longrightarrow> v = Inr True \<and> w4 = w3" by blast
  have true: "if action = ''stop'' then \<not> is_active mgr name w4
      else \<exists>w2 v. is_active mgr name w2 \<and> run_validator sh (validator_cmd m) w2 = (Inr v, w4) \<and> passed v"
    if "verified res"
    using kept that ver
    by (auto simp: service_action_def service_verify_def act_simps split: if_splits prod.splits sum.splits)
  have undone: "is_active mgr name w4 = is_active mgr name (world st)"
    if "\<not> verified res" "\<forall>w. obedient mgr name w"
    using service_action.restored_means_undone [OF run that(1)] that(2) by blast
  have credit: "\<not> verified res \<Longrightarrow> verified_successes (get_operator_track_record k
      (snd (update_operator_track_record k (verified res, now) t))) = verified_successes (get_operator_track_record k t)" for k t
    by (simp add: operator_ledger.get_upd_same advance_state_def)
  let ?st' = "st\<lparr>world := w4, db := (db st)\<lparr>operator_tracks := snd (update_operator_track_record
    (u, ''service_'' @ action, name) (verified res, now) (operator_tracks (db st)))\<rparr>\<rparr>"
  have "execute_approved_service_action mgr sh u name action now st = (Inr res, ?st')"
    using managed action run
    by (simp add: execute_approved_service_action_def ReversibleServiceAction_def Let_def run_and_record_Inr)
  then show ?thesis
  proof (intro exI conjI)
    show "if verified res then if action = ''stop'' then \<not> is_active mgr name (world ?st')
        else \<exists>w2 v. is_active mgr name w2 \<and> run_validator sh (validator_cmd m) w2 = (Inr v, world ?st') \<and> passed v
      else ((\<forall>w. obedient mgr name w) \<longrightarrow> is_active mgr name (world ?st') = is_active mgr name (world st))
        \<and> verified_successes (get_operator_track_record (u, ''service_'' @ action, name) (operator_tracks (db ?st'))) =
          verified_successes (get_operator_track_record (u, ''service_'' @ action, name) (operator_tracks (db st)))"
      by (rule if_cases) (use true undone credit in \<open>auto split: if_splits\<close>)
  qed
qed

theorem service_action_total_witness:
  "is_active (linux_service_manager sample_ctl (sample_systemctl 1)) ''nginx'' (world (snd
     (execute_approved_service_action (linux_service_manager sample_ctl (sample_systemctl 1))
       (sample_systemctl 1) ''u'' ''nginx'' ''start'' 5 (sample_service_state ''nginx'')))) = False"
proof -
  let ?mgr = "linux_service_manager sample_ctl (sample_systemctl 1)"
  have m: "get_managed_service_target ''u'' ''nginx'' (db (sample_service_state ''nginx'')) =
      Some \<lparr>validator_cmd = ''curl localhost'', created_at = 0\<rparr>" by code_simp
  have a: "''start'' \<in> set SERVICE_ACTIONS" and f: "py_lower (py_strip ''nginx'') \<notin> SELF_PROTECTED_SERVICES"
    by code_simp+
  have up: "py_strip ''active '' = ''active''" "py_strip ''inactive '' \<noteq> ''active''" by code_simp+
  have obey: "\<forall>w. obedient ?mgr ''nginx'' w"
    by (simp add: obedient_def linux_service_manager_def linux_start_def linux_stop_def linux_verb_def
        linux_is_active_def sample_ctl_def sample_systemctl_def act_simps up)
  have fails: "run_validator (sample_systemctl 1) ''curl localhost'' w = (Inr v, w') \<Longrightarrow> \<not> passed v" for w v w'
    by (auto simp: run_validator_def sample_systemctl_def)
  have off: "\<not> is_active ?mgr ''nginx'' (world (sample_service_state ''nginx''))" by code_simp
  show ?thesis
    using service_action_total [where sh = "sample_systemctl 1" and ctl = sample_ctl and now = 5, OF m _ a f] obey fails off
    by (auto split: if_splits)
qed

end
