(* ===== verification/Managed_Tools.thy ===== *)
theory Managed_Tools
  imports File_Operator Service_Operator Pam_Operator Owned_Resource Venv_Operator Sandbox
begin

text \<open>
  The managed-operator tools that the agent calls (\<open>_manage_file\<close>, \<open>_manage_service\<close>, \<open>_manage_pam\<close>,
  \<open>_manage_owned_resource\<close> and \<open>_manage_venv\<close> of \<open>anima/kernel/tools.py\<close>) on top of the operators. A
  call's parameters are the texts of its schema, by name; values of other JSON types are not modelled,
  except the two parameters that are arguments of their own (\<open>retention_days\<close>, \<open>requirements\<close>). The
  billing context is \<open>Some user\<close> or \<open>None\<close>; \<open>ms\<close> is the measured duration, \<open>now\<close> the clock, \<open>say\<close> the text
  of an exception. The dash of two messages is \<open>--\<close> here.
\<close>

subsection \<open>Parameters and answers\<close>

type_synonym tool_params = "(string \<times> string) list"

definition param :: "string \<Rightarrow> tool_params \<Rightarrow> string" where
  "param k ps = (case map_of ps k of None \<Rightarrow> [] | Some s \<Rightarrow> s)"

definition answer :: "int \<Rightarrow> bool \<Rightarrow> string \<Rightarrow> ('s, tool_result) act" where
  "answer ms ok msg = act_return \<lparr>tool_text = msg, success = ok, duration_ms = ms\<rparr>"

definition eol :: string where "eol = [CHR 0x0A]"

definition bool_text :: "bool \<Rightarrow> string" where
  "bool_text b = (if b then ''True'' else ''False'')"

definition last_outcome_text :: "string option \<Rightarrow> string" where
  "last_outcome_text x = (case x of None \<Rightarrow> ''None'' | Some s \<Rightarrow> s)"

definition assertion_error :: exn where "assertion_error = ExternalError ''AssertionError''"

subsection \<open>\<open>_manage_file\<close>\<close>

text \<open>The two \<open>except\<close> clauses around the file operator.\<close>

definition file_refusals :: "(exn \<Rightarrow> string) \<Rightarrow> int \<Rightarrow> exn \<Rightarrow> ('s, tool_result) act" where
  "file_refusals say ms e =
     (if e = FileOperatorRefusalError then answer ms False (''refused (self-protection): '' @ say e)
      else if e = OperatorError then answer ms False (''operator error: '' @ say e)
      else act_raise e)"

definition file_status :: "int \<Rightarrow> string \<Rightarrow> string \<Rightarrow> ('w kernel_state, tool_result) act" where
  "file_status ms user_id target = (\<lambda>st.
     case get_managed_file_target user_id target (db st) of
       None \<Rightarrow> answer ms True (''not allowlisted: '' @ target) st
     | Some managed \<Rightarrow>
         let track = db_get_operator_track_record (user_id, ''file_edit'', target) (db st) in
         answer ms True (''target: '' @ target @ eol @ ''validator_cmd: '' @ validator_cmd managed @ eol
           @ ''graduated: '' @ bool_text (graduated track) @ eol
           @ ''verified_successes: '' @ show_int (verified_successes track) @ eol
           @ ''last_outcome: '' @ last_outcome_text (last_outcome track)) st)"

definition file_edit_reply :: "int \<Rightarrow> string \<Rightarrow> OperateOutcome \<Rightarrow> ('s, tool_result) act" where
  "file_edit_reply ms target outcome =
     (if auto_applied outcome then
        (case operation_result outcome of
           None \<Rightarrow> act_raise assertion_error
         | Some res \<Rightarrow> answer ms (verified res)
             ((if verified res then ''auto-applied'' else ''applied-but-validator-failed (restored)'')
              @ '': '' @ target @ eol @ ''reason: '' @ reason outcome))
      else answer ms True (''proposed (pending owner approval): '' @ target @ eol
         @ ''reason: '' @ reason outcome @ eol
         @ ''Call manage_file(action='' @ py_repr ''approved_apply'' @ '', ...) after reviewing to apply.''))"

definition manage_file ::
    "Settings \<Rightarrow> ('m host_scheme) shell \<Rightarrow> (exn \<Rightarrow> string) \<Rightarrow> int \<Rightarrow> int \<Rightarrow> string option \<Rightarrow> tool_params
     \<Rightarrow> (('m host_scheme) kernel_state, tool_result) act" where
  "manage_file cfg sh say ms now ctx params = (case ctx of
     None \<Rightarrow> answer 0 False ''manage_file: no active agent context''
   | Some user_id \<Rightarrow>
     let action = param ''action'' params; target = param ''target_path'' params in
     if action = ''add_target'' then
       (let cmd = param ''validator_cmd'' params in
        if target = [] \<or> cmd = [] then
          answer ms False ''manage_file add_target: target_path and validator_cmd required''
        else act_then (on_db (act_modify (add_managed_file_target user_id target (cmd, now))))
          (answer ms True (''registered: '' @ target @ '' (validator: '' @ cmd @ '')'')))
     else if action = ''remove_target'' then
       (if target = [] then answer ms False ''manage_file remove_target: target_path required''
        else act_then (on_db (act_modify (remove_managed_file_target user_id target)))
          (answer ms True (''removed: '' @ target)))
     else if action = ''status'' then
       (if target = [] then answer ms False ''manage_file status: target_path required''
        else file_status ms user_id target)
     else if action = ''edit'' then
       (if target = [] then answer ms False ''manage_file edit: target_path required''
        else act_catch
          (act_bind (operate_on_file cfg sh user_id target (utf8_bytes (param ''new_content'' params))
             ''file_edit'' now) (file_edit_reply ms target))
          (file_refusals say ms))
     else if action = ''approved_apply'' then
       (if target = [] then answer ms False ''manage_file approved_apply: target_path required''
        else act_catch
          (act_bind (execute_approved_file_edit cfg sh user_id target
             (utf8_bytes (param ''new_content'' params)) ''file_edit'' now) (\<lambda>res.
             answer ms (verified res) ((if verified res then ''applied and verified''
               else ''applied but validator failed (restored)'') @ '': '' @ target)))
          (file_refusals say ms))
     else answer ms False (''manage_file: unknown action '' @ py_repr action @ ''. ''
       @ ''Valid: add_target, remove_target, status, edit, approved_apply''))"

subsection \<open>\<open>_manage_service\<close>\<close>

definition service_refusals :: "(exn \<Rightarrow> string) \<Rightarrow> int \<Rightarrow> exn \<Rightarrow> ('s, tool_result) act" where
  "service_refusals say ms e =
     (if e = ServiceOperatorRefusalError then answer ms False (''refused (self-protection): '' @ say e)
      else if e = OperatorError then answer ms False (''operator error: '' @ say e)
      else act_raise e)"

definition service_track_line :: "kernel_db \<Rightarrow> string \<Rightarrow> string \<Rightarrow> string \<Rightarrow> string" where
  "service_track_line d user_id name op_action =
     (let track = db_get_operator_track_record (user_id, ''service_'' @ op_action, name) d in
      ''  '' @ op_action @ '': graduated='' @ bool_text (graduated track)
      @ '' verified_successes='' @ show_int (verified_successes track)
      @ '' last_outcome='' @ last_outcome_text (last_outcome track))"

definition service_status :: "int \<Rightarrow> string \<Rightarrow> string \<Rightarrow> ('w kernel_state, tool_result) act" where
  "service_status ms user_id name = (\<lambda>st.
     case get_managed_service_target user_id name (db st) of
       None \<Rightarrow> answer ms True (''not allowlisted: '' @ name) st
     | Some managed \<Rightarrow>
         answer ms True (''target: '' @ name @ eol @ ''validator_cmd: '' @ validator_cmd managed @ eol
           @ ''graduation:'' @ eol
           @ py_join eol (map (service_track_line (db st) user_id name) [''restart'', ''start'', ''stop''])) st)"

definition service_reply :: "int \<Rightarrow> string \<Rightarrow> string \<Rightarrow> ServiceOperateOutcome \<Rightarrow> ('s, tool_result) act" where
  "service_reply ms svc_action name outcome =
     (if svc_auto_applied outcome then
        (case svc_operation_result outcome of
           None \<Rightarrow> act_raise assertion_error
         | Some res \<Rightarrow> answer ms (verified res)
             ((if verified res then ''auto-applied'' else ''applied-but-validator-failed (restored)'')
              @ '': '' @ svc_action @ '' '' @ name @ eol @ ''reason: '' @ svc_reason outcome))
      else answer ms True (''proposed (pending owner approval): '' @ svc_action @ '' '' @ name @ eol
         @ ''reason: '' @ svc_reason outcome @ eol
         @ ''Call manage_service(action='' @ py_repr ''approved_apply'' @ '', ...) after reviewing to apply.''))"

definition manage_service ::
    "Settings \<Rightarrow> 'w service_manager \<Rightarrow> 'w shell \<Rightarrow> (exn \<Rightarrow> string) \<Rightarrow> int \<Rightarrow> int \<Rightarrow> string option \<Rightarrow> tool_params
     \<Rightarrow> ('w kernel_state, tool_result) act" where
  "manage_service cfg mgr sh say ms now ctx params = (case ctx of
     None \<Rightarrow> answer 0 False ''manage_service: no active agent context''
   | Some user_id \<Rightarrow>
     let action = param ''action'' params; name = param ''service_name'' params;
         svc_action = param ''svc_action'' params in
     if action = ''add_target'' then
       (let cmd = param ''validator_cmd'' params in
        if name = [] \<or> cmd = [] then
          answer ms False ''manage_service add_target: service_name and validator_cmd required''
        else act_then (on_db (act_modify (add_managed_service_target user_id name (cmd, now))))
          (answer ms True (''registered: '' @ name @ '' (validator: '' @ cmd @ '')'')))
     else if action = ''remove_target'' then
       (if name = [] then answer ms False ''manage_service remove_target: service_name required''
        else act_then (on_db (act_modify (remove_managed_service_target user_id name)))
          (answer ms True (''removed: '' @ name)))
     else if action = ''status'' then
       (if name = [] then answer ms False ''manage_service status: service_name required''
        else service_status ms user_id name)
     else if action = ''action'' then
       (if name = [] \<or> svc_action = [] then
          answer ms False ''manage_service action: service_name and svc_action required''
        else act_catch
          (act_bind (operate_on_service cfg mgr sh user_id name svc_action now) (service_reply ms svc_action name))
          (service_refusals say ms))
     else if action = ''approved_apply'' then
       (if name = [] \<or> svc_action = [] then
          answer ms False ''manage_service approved_apply: service_name and svc_action required''
        else act_catch
          (act_bind (execute_approved_service_action mgr sh user_id name svc_action now) (\<lambda>res.
             answer ms (verified res) ((if verified res then ''applied and verified''
               else ''applied but validator failed (restored)'') @ '': '' @ svc_action @ '' '' @ name)))
          (service_refusals say ms))
     else answer ms False (''manage_service: unknown action '' @ py_repr action @ ''. ''
       @ ''Valid: add_target, remove_target, status, action, approved_apply''))"

subsection \<open>\<open>_manage_pam\<close>\<close>

text \<open>
  Parameters that are not in the tool's schema override the operator's directories, its timer and its
  probe. A timer given as a text has no \<open>arm\<close> and no \<open>disarm\<close>; a probe given as a text answers
  whether the text is not empty.
\<close>

definition text_timer :: "'w deadman" where
  "text_timer = \<lparr>dm_arm = (\<lambda>_ _ _. act_raise attribute_error), dm_disarm = (\<lambda>_. act_raise attribute_error)\<rparr>"

definition pam_timer_of :: "tool_params \<Rightarrow> 'w deadman \<Rightarrow> 'w deadman" where
  "pam_timer_of params sd = (if map_of params ''_test_systemd'' = None then sd else text_timer)"

definition pam_probe_of :: "tool_params \<Rightarrow> ('w, bool) act \<Rightarrow> ('w, bool) act" where
  "pam_probe_of params probe = (case map_of params ''_test_probe_fn'' of
     None \<Rightarrow> probe | Some raw_probe \<Rightarrow> act_return (raw_probe \<noteq> []))"

definition dir_of :: "string \<Rightarrow> tool_params \<Rightarrow> string \<Rightarrow> string" where
  "dir_of k params dflt = (case map_of params k of None \<Rightarrow> dflt | Some d \<Rightarrow> path_str d)"

definition pam_refusals :: "(exn \<Rightarrow> string) \<Rightarrow> int \<Rightarrow> exn \<Rightarrow> ('s, tool_result) act" where
  "pam_refusals say ms e =
     (if e = PamRefusalError then answer ms False (''refused (self-protection floor): '' @ say e)
      else if e = PamInstallError then answer ms False (''install failed (probe or apply error): '' @ say e)
      else if e = OperatorError then answer ms False (''operator error: '' @ say e)
      else act_raise e)"

definition pam_status :: "int \<Rightarrow> string \<Rightarrow> string \<Rightarrow> ('w kernel_state, tool_result) act" where
  "pam_status ms user_id f = (\<lambda>st.
     if f \<in> SELF_PROTECTED_PAM_FILES then
       answer ms True (f @ '': self-protected (in _SELF_PROTECTED_PAM_FILES '' @ ''--'' @ '' refused at construction)'') st
     else if get_managed_pam_target user_id f (db st) = None then
       answer ms True (''not allowlisted: '' @ f) st
     else answer ms True (''target: '' @ f @ eol
       @ ''status: allowlisted (protected=no, oracle=probe-key)'') st)"

definition pam_armed_text :: "string \<Rightarrow> string \<Rightarrow> string" where
  "pam_armed_text f snap_id = ''applied and ARMED: '' @ f @ eol @ ''snapshot_id: '' @ snap_id @ eol
     @ ''Deadman timer running. Verify auth in a NEW session, then call'' @ eol
     @ ''manage_pam(action='' @ py_repr ''commit'' @ '') to disarm '' @ ''--'' @ '' or wait for auto-revert.''"

definition manage_pam ::
    "('m host_scheme) deadman \<Rightarrow> ('m host_scheme, bool) act \<Rightarrow> (exn \<Rightarrow> string) \<Rightarrow> string \<Rightarrow> int \<Rightarrow> int \<Rightarrow> string option
     \<Rightarrow> tool_params \<Rightarrow> (('m host_scheme) kernel_state, tool_result) act" where
  "manage_pam sd probe say sid ms now ctx params = (case ctx of
     None \<Rightarrow> answer 0 False ''manage_pam: no active agent context''
   | Some user_id \<Rightarrow>
     let action = param ''action'' params; f = param ''pam_file'' params;
         pam_dir = dir_of ''_test_pam_dir'' params PAM_DIR;
         backup_dir = dir_of ''_test_backup_dir'' params PAM_BACKUP_DIR;
         timer = pam_timer_of params sd in
     if action = ''add_target'' then
       (if f = [] then answer ms False ''manage_pam add_target: pam_file required''
        else act_then (on_db (act_modify (add_managed_pam_target user_id f now)))
          (answer ms True (''registered: '' @ f @ (if f \<in> SELF_PROTECTED_PAM_FILES
             then '' (WARNING: self-protected '' @ ''--'' @ '' approved_apply will refuse)'' else []))))
     else if action = ''remove_target'' then
       (if f = [] then answer ms False ''manage_pam remove_target: pam_file required''
        else act_then (on_db (act_modify (remove_managed_pam_target user_id f)))
          (answer ms True (''removed: '' @ f)))
     else if action = ''status'' then
       (if f = [] then answer ms False ''manage_pam status: pam_file required''
        else pam_status ms user_id f)
     else if action = ''approved_apply'' then
       (let new_content = param ''new_content'' params in
        if f = [] \<or> new_content = [] then
          answer ms False ''manage_pam approved_apply: pam_file and new_content required''
        else act_catch
          (act_bind (execute_approved_pam_edit timer (pam_probe_of params probe) pam_dir backup_dir sid user_id f
             (utf8_bytes new_content) PAM_DEADMAN_DELAY_S) (\<lambda>snap_id.
             answer ms True (pam_armed_text f snap_id)))
          (pam_refusals say ms))
     else if action = ''commit'' then
       act_then (on_world (commit_pam_edit timer))
         (answer ms True ''anima-pam-revert deadman disarmed. PAM change committed.'')
     else answer ms False (''manage_pam: unknown action '' @ py_repr action @ ''. ''
       @ ''Valid: add_target, remove_target, status, approved_apply, commit''))"

subsection \<open>\<open>_manage_owned_resource\<close>\<close>

text \<open>\<open>created_at\<close>, which the ledgers of \<open>Kernel_DB\<close> leave out, is a parameter of the two status answers.\<close>

definition history_line :: "string \<Rightarrow> string \<Rightarrow> bool \<Rightarrow> string \<Rightarrow> string" where
  "history_line op_name outcome autonomous created =
     ''  '' @ op_name @ '' '' @ outcome @ '' auto='' @ bool_text autonomous @ '' @ '' @ created"

definition history_lines :: "string list \<Rightarrow> string list" where
  "history_lines ls = (if ls = [] then [''  (no history)''] else ls)"

definition owned_status :: "Settings \<Rightarrow> (owned_row \<Rightarrow> string) \<Rightarrow> int \<Rightarrow> string \<Rightarrow> ('w kernel_state, tool_result) act" where
  "owned_status cfg created ms user_id = (\<lambda>st.
     let track_ws = db_get_operator_track_record (user_id, ''owned_workspace_gc'', workspaces_root cfg) (db st);
         track_db = db_get_operator_track_record (user_id, ''owned_db_vacuum'', rawos_source_root cfg) (db st)
     in answer ms True (''operator_owned_enabled: '' @ bool_text (operator_owned_enabled cfg) @ eol
          @ ''workspace_gc:  graduated='' @ bool_text (graduated track_ws)
          @ '' verified='' @ show_int (verified_successes track_ws) @ eol
          @ ''db_vacuum:     graduated='' @ bool_text (graduated track_db)
          @ '' verified='' @ show_int (verified_successes track_db) @ eol
          @ ''recent history (newest first):'' @ eol
          @ py_join eol (history_lines (map (\<lambda>r. history_line (or_op_type r) (or_outcome r) (or_autonomous r) (created r))
              (list_owned_resource_history 5 (db st))))) st)"

text \<open>\<open>params.get("trash_root") or None\<close>\<close>

definition trash_root_of :: "tool_params \<Rightarrow> string option" where
  "trash_root_of params = (if param ''trash_root'' params = [] then None else Some (param ''trash_root'' params))"

definition workspace_gc :: "tool_params \<Rightarrow> OwnedOpSpec" where
  "workspace_gc params = \<lparr>op_type = ''workspace_gc'', target_path = param ''target_path'' params,
     trash_root = trash_root_of params\<rparr>"

definition owned_refusal :: "(exn \<Rightarrow> string) \<Rightarrow> int \<Rightarrow> exn \<Rightarrow> ('s, tool_result) act" where
  "owned_refusal say ms e = (if e = OwnedResourceRefusalError
     then answer ms False (''refused (ownership floor): '' @ say e) else act_raise e)"

definition restore_refusals :: "(exn \<Rightarrow> string) \<Rightarrow> int \<Rightarrow> exn \<Rightarrow> ('s, tool_result) act" where
  "restore_refusals say ms e =
     (if e \<in> {PyFileNotFoundError, PyFileExistsError, OwnedResourceRefusalError}
      then answer ms False (''restore failed: '' @ say e) else act_raise e)"

text \<open>What the kernel object reads of the host: real paths, modification times, listings, the clock.\<close>

record 'w owned_env =
  env_realpath :: "string \<Rightarrow> string option"
  env_mtime :: "string \<Rightarrow> 'w \<Rightarrow> exn + int"
  env_listdir :: "string \<Rightarrow> 'w \<Rightarrow> string list"
  env_vacuum :: "string \<Rightarrow> ('w, unit) act"
  env_stamp :: string
  env_now :: int

definition manage_owned_resource ::
    "Settings \<Rightarrow> ('m host_scheme) owned_env \<Rightarrow> owned_kernel \<Rightarrow> (owned_row \<Rightarrow> string) \<Rightarrow> (exn \<Rightarrow> string) \<Rightarrow> int
     \<Rightarrow> string option \<Rightarrow> int option \<Rightarrow> tool_params \<Rightarrow> (('m host_scheme) kernel_state, tool_result) act" where
  "manage_owned_resource cfg env k created say ms ctx retention params = (case ctx of
     None \<Rightarrow> answer 0 False ''manage_owned_resource: no active agent context''
   | Some user_id \<Rightarrow>
     let action = param ''action'' params; target = param ''target_path'' params;
         spec = workspace_gc params in
     if action = ''gc'' then
       (if target = [] then answer ms False ''manage_owned_resource gc: target_path required''
        else act_bind (act_get (\<lambda>st. get_active_workspace_dirs (db st))) (\<lambda>active_dirs. act_catch
          (act_bind (operate_on_owned_resource cfg k (env_realpath env) (env_vacuum env) (env_stamp env) (env_now env)
             user_id spec active_dirs) (\<lambda>outcome.
             if own_auto_applied outcome then
               answer ms True (''auto-applied: trashed '' @ target @ eol @ ''  trash: ''
                 @ last_outcome_text (own_trash_path outcome))
             else answer ms True (''proposed (not applied): '' @ target @ eol @ ''reason: '' @ own_reason outcome @ eol
               @ ''Call manage_owned_resource(action='' @ py_repr ''approved_apply'' @ '', ...) after review.'')))
          (owned_refusal say ms)))
     else if action = ''approved_apply'' then
       (if target = [] then answer ms False ''manage_owned_resource approved_apply: target_path required''
        else act_bind (act_get (\<lambda>st. get_active_workspace_dirs (db st))) (\<lambda>active_dirs. act_catch
          (act_bind (execute_approved_owned_op k (env_realpath env) (env_vacuum env) (env_stamp env) (env_now env)
             spec active_dirs) (\<lambda>res.
             answer ms True (''applied: trashed '' @ target @ eol @ ''  trash: '' @ last_outcome_text (res_trash_path res))))
          (owned_refusal say ms)))
     else if action = ''restore'' then
       (let trash_path = param ''trash_path'' params in
        if trash_path = [] then answer ms False ''manage_owned_resource restore: trash_path required''
        else act_catch
          (act_then (on_world (restore_from_trash trash_path))
             (answer ms True (''restored from trash: '' @ trash_path)))
          (restore_refusals say ms))
     else if action = ''reap'' then
       (let trash = or_default (trash_root_of params)
              (path_div (path_div (rawos_source_root cfg) ''data'') ''.trash'');
            retention_days = (case retention of None \<Rightarrow> owned_trash_retention_days cfg | Some d \<Rightarrow> d) in
        act_bind (on_world (reap_trash k (env_mtime env) (env_listdir env) (env_now env) (Some trash) retention_days))
          (\<lambda>reaped. answer ms True (''reaped '' @ show_int (int (length reaped)) @ '' trash entries (older than ''
             @ show_int retention_days @ ''d)'')))
     else if action = ''status'' then owned_status cfg created ms user_id
     else answer ms False (''manage_owned_resource: unknown action '' @ py_repr action @ ''. ''
       @ ''Valid: gc, approved_apply, restore, reap, status''))"

subsection \<open>\<open>_manage_venv\<close>\<close>

text \<open>\<open>requirements\<close> is a list, or one text with commas.\<close>

definition requirements_of :: "(string list + string) option \<Rightarrow> string list" where
  "requirements_of r = (case r of None \<Rightarrow> [] | Some (Inl rs) \<Rightarrow> rs
     | Some (Inr t) \<Rightarrow> filter (\<lambda>x. x \<noteq> []) (map py_strip (split_on (CHR '','') t)))"

definition venv_status :: "Settings \<Rightarrow> (venv_row \<Rightarrow> string) \<Rightarrow> int \<Rightarrow> string \<Rightarrow> ('w kernel_state, tool_result) act" where
  "venv_status cfg created ms user_id = (\<lambda>st.
     let track = db_get_operator_track_record (user_id, ''venv_dep_update'', rawos_source_root cfg) (db st)
     in answer ms True (''operator_venv_enabled: '' @ bool_text (operator_venv_enabled cfg) @ eol
          @ ''venv_dep_update: graduated='' @ bool_text (graduated track)
          @ '' verified='' @ show_int (verified_successes track) @ eol
          @ ''recent history (newest first):'' @ eol
          @ py_join eol (history_lines (map (\<lambda>r. history_line (vr_op_type r) (vr_outcome r) (vr_autonomous r) (created r))
              (list_venv_op_history 5 (db st))))) st)"

definition propose_refusals :: "(exn \<Rightarrow> string) \<Rightarrow> int \<Rightarrow> exn \<Rightarrow> ('s, tool_result) act" where
  "propose_refusals say ms e = (if e \<in> {VenvPreflightError, VenvStateError}
     then answer ms False (''venv propose failed: '' @ say e) else act_raise e)"

definition venv_refusals :: "(exn \<Rightarrow> string) \<Rightarrow> int \<Rightarrow> exn \<Rightarrow> ('s, tool_result) act" where
  "venv_refusals say ms e =
     (if e = VenvPreflightError then answer ms False (''preflight failed: '' @ say e)
      else if e = VenvStateError then answer ms False (''single-flight conflict: '' @ say e)
      else act_raise e)"

definition venv_applied_text :: string where
  "venv_applied_text = ''applied: venv swapped to candidate (service restarting)''"

definition manage_venv ::
    "Settings \<Rightarrow> ('m host_scheme) venv_builder \<Rightarrow> string \<Rightarrow> ('m host_scheme) deadman \<Rightarrow> ('m host_scheme, unit) act
     \<Rightarrow> (venv_row \<Rightarrow> string) \<Rightarrow> (exn \<Rightarrow> string) \<Rightarrow> int \<Rightarrow> int \<Rightarrow> string option \<Rightarrow> (string list + string) option \<Rightarrow> tool_params
     \<Rightarrow> (('m host_scheme) kernel_state, tool_result) act" where
  "manage_venv cfg b sid sd die created say ms now ctx reqs params = (case ctx of
     None \<Rightarrow> answer 0 False ''manage_venv: no active agent context''
   | Some user_id \<Rightarrow>
     let action = param ''action'' params; root = rawos_source_root cfg;
         dep_spec = \<lparr>requirements = requirements_of reqs, dep_op_type = ''dep_update''\<rparr> in
     if action = ''propose'' then
       act_catch
         (act_bind (operate_on_venv cfg b sid sd die now user_id dep_spec) (\<lambda>outcome.
            if venv_auto_applied outcome then answer ms True (''auto-'' @ venv_applied_text)
            else answer ms True (''proposed (not applied): '' @ venv_reason outcome @ eol
              @ ''Use manage_venv(action='' @ py_repr ''approved_apply'' @ '', ...) after review.'')))
         (propose_refusals say ms)
     else if action = ''approved_apply'' then
       act_catch
         (act_then (execute_approved_venv_op b sid sd die root root root VENV_STATE_DIR now dep_spec False)
            (answer ms True venv_applied_text))
         (venv_refusals say ms)
     else if action = ''status'' then venv_status cfg created ms user_id
     else answer ms False (''manage_venv: unknown action '' @ py_repr action @ ''. ''
       @ ''Valid: propose, approved_apply, status''))"

subsection \<open>What a call may touch\<close>

text \<open>The rows of one user: what \<open>u\<close> has allowlisted, and the user's track records.\<close>

definition user_rows :: "string \<Rightarrow> kernel_db
     \<Rightarrow> (string \<Rightarrow> command_target option) \<times> (string \<Rightarrow> command_target option) \<times> (string \<Rightarrow> int option)
        \<times> (string \<times> string \<Rightarrow> TrackRecordState)" where
  "user_rows u d = ((\<lambda>p. get_managed_file_target u p d), (\<lambda>n. get_managed_service_target u n d),
     (\<lambda>f. get_managed_pam_target u f d), (\<lambda>ct. db_get_operator_track_record (u, ct) d))"

abbreviation keeps_rows :: "string \<Rightarrow> _ \<Rightarrow> ('w kernel_state, 'a) act \<Rightarrow> bool" where
  "keeps_rows u V m \<equiv> kept (\<lambda>st. user_rows u (db st) = V) m"

lemma keeps_answer [intro!]: "kept P (answer ms ok msg)"
  by (simp add: answer_def kept_return)

lemma keeps_on_world [intro!]: "keeps_rows u V (on_world m)"
  by (rule keptI) (auto simp: on_world_def split: prod.splits)

lemma keeps_on_db: "(\<And>d. user_rows u (snd (m d)) = user_rows u d) \<Longrightarrow> keeps_rows u V (on_db m)"
  by (rule keptI) (metis (mono_tags, lifting) on_db_def case_prod_conv kernel_state.select_convs(1)
      kernel_state.surjective kernel_state.update_convs(1) prod.collapse snd_conv)

lemma rows_modify:
  "u \<noteq> u' \<Longrightarrow> user_rows u (add_managed_file_target u' p cn d) = user_rows u d"
  "u \<noteq> u' \<Longrightarrow> user_rows u (remove_managed_file_target u' p d) = user_rows u d"
  "u \<noteq> u' \<Longrightarrow> user_rows u (add_managed_service_target u' p cn d) = user_rows u d"
  "u \<noteq> u' \<Longrightarrow> user_rows u (remove_managed_service_target u' p d) = user_rows u d"
  "u \<noteq> u' \<Longrightarrow> user_rows u (add_managed_pam_target u' p now d) = user_rows u d"
  "u \<noteq> u' \<Longrightarrow> user_rows u (remove_managed_pam_target u' p d) = user_rows u d"
  by (simp_all add: user_rows_def allowlist_defs table_laws db_get_operator_track_record_def)

lemma rows_record: "u \<noteq> u' \<Longrightarrow> user_rows u (d\<lparr>operator_tracks :=
    snd (update_operator_track_record (u', k) e (operator_tracks d))\<rparr>) = user_rows u d"
  by (simp add: user_rows_def allowlist_defs db_get_operator_track_record_def operator_ledger.get_upd_other)

lemma keeps_modify [intro]:
  "u \<noteq> u' \<Longrightarrow> keeps_rows u V (on_db (act_modify (add_managed_file_target u' p cn)))"
  "u \<noteq> u' \<Longrightarrow> keeps_rows u V (on_db (act_modify (remove_managed_file_target u' p)))"
  "u \<noteq> u' \<Longrightarrow> keeps_rows u V (on_db (act_modify (add_managed_service_target u' p cn)))"
  "u \<noteq> u' \<Longrightarrow> keeps_rows u V (on_db (act_modify (remove_managed_service_target u' p)))"
  "u \<noteq> u' \<Longrightarrow> keeps_rows u V (on_db (act_modify (add_managed_pam_target u' p now)))"
  "u \<noteq> u' \<Longrightarrow> keeps_rows u V (on_db (act_modify (remove_managed_pam_target u' p)))"
  by (rule keeps_on_db; simp add: rows_modify)+

lemma record_rows:
  "u \<noteq> u' \<Longrightarrow> run_and_record oper (u', k) now st = (r, st') \<Longrightarrow> user_rows u (db st') = user_rows u (db st)"
  by (cases "run_reversible_operation oper (world st)"; cases "fst (run_reversible_operation oper (world st))")
     (auto simp: run_and_record_Inr run_and_record_Inl rows_record)

lemma approved_file_rows:
  "u \<noteq> u' \<Longrightarrow> execute_approved_file_edit cfg sh u' p c cls now st = (r, st') \<Longrightarrow>
     user_rows u (db st') = user_rows u (db st)"
  by (auto simp: execute_approved_file_edit_def ReversibleFileEdit_def split: option.splits if_splits
      dest: record_rows)

lemma keeps_file [intro]:
  "u \<noteq> u' \<Longrightarrow> keeps_rows u V (execute_approved_file_edit cfg sh u' p c cls now)"
  "u \<noteq> u' \<Longrightarrow> keeps_rows u V (operate_on_file cfg sh u' p c cls now)"
  by (rule keptI; auto simp: operate_on_file_unfold act_simps
      split: option.splits if_splits prod.splits sum.splits dest: approved_file_rows)+

lemma keeps_service [intro]:
  "u \<noteq> u' \<Longrightarrow> keeps_rows u V (execute_approved_service_action mgr sh u' n a now)"
  "u \<noteq> u' \<Longrightarrow> keeps_rows u V (operate_on_service cfg mgr sh u' n a now)"
  by (rule keptI; auto simp: execute_approved_service_action_def operate_on_service_def
      ReversibleServiceAction_def Let_def act_simps
      split: option.splits if_splits prod.splits sum.splits dest: record_rows)+

lemma keeps_handlers [intro!]:
  "kept P (file_refusals say ms e)" "kept P (service_refusals say ms e)" "kept P (pam_refusals say ms e)"
  "kept P (owned_refusal say ms e)" "kept P (restore_refusals say ms e)" "kept P (propose_refusals say ms e)"
  "kept P (venv_refusals say ms e)" "kept P (file_edit_reply ms p o1)" "kept P (service_reply ms a n o2)"
  "kept P (file_status ms u p)" "kept P (service_status ms u n)" "kept P (pam_status ms u f)"
  "kept P (owned_status cfg c1 ms u)" "kept P (venv_status cfg c2 ms u)"
  by (auto simp: file_refusals_def service_refusals_def pam_refusals_def owned_refusal_def restore_refusals_def
      propose_refusals_def venv_refusals_def file_edit_reply_def service_reply_def file_status_def service_status_def
      pam_status_def owned_status_def venv_status_def kept_def answer_def Let_def split: option.split)

lemma keeps_pam [intro]: "keeps_rows u V (execute_approved_pam_edit sd probe d b sid u' f c delay)"
  by (rule keptI) (auto simp: execute_approved_pam_edit_def on_world_def split: option.splits prod.splits)

lemma keeps_owned [intro]:
  "keeps_rows u V (operate_on_owned_resource cfg k rp vac ts now u' spec act)"
  "keeps_rows u V (execute_approved_owned_op k rp vac ts now spec act)"
  by (rule keptI; auto simp: operate_on_owned_resource_def execute_approved_owned_op_def act_simps assert_cases
      split: sum.splits prod.splits if_splits)+

lemma keeps_venv [intro]:
  "keeps_rows u V (execute_approved_venv_op b sid sd die r1 r2 r3 d now dep auto)"
  "keeps_rows u V (operate_on_venv cfg b sid sd die now u' dep)"
proof -
  have rec: "keeps_rows u V (on_db (record_venv_op_outcome o1 h1 h2 o2 auto dm))" for o1 h1 h2 o2 auto dm
    by (rule keeps_on_db) (simp add: record_venv_op_outcome_def user_rows_def allowlist_defs
        db_get_operator_track_record_def)
  show ex: "keeps_rows u V (execute_approved_venv_op b sid sd die r1 r2 r3 d now dep auto)" for r1 r2 r3 d auto
    unfolding execute_approved_venv_op_def by (intro kept_bind kept_then kept_catch kept_return keeps_on_world rec)
  show "keeps_rows u V (operate_on_venv cfg b sid sd die now u' dep)"
    unfolding operate_on_venv_def Let_def by (intro kept_if kept_bind kept_then kept_return kept_get ex)
qed

lemmas kept_rules = kept_if kept_bind kept_then kept_catch kept_return kept_raise keeps_answer keeps_on_world
  keeps_handlers

lemma tool_rows:
  assumes u: "ctx \<noteq> Some u"
  shows "keeps_rows u V (manage_file cfg sh say ms now ctx params)"
    and "keeps_rows u V (manage_service cfg mgr sh say ms now ctx params)"
    and "keeps_rows u V (manage_pam sd probe say sid ms now ctx params)"
    and "keeps_rows u V (manage_owned_resource cfg env k c1 say ms ctx ret params)"
    and "keeps_rows u V (manage_venv cfg b sid sd die c2 say ms now ctx reqs params)"
proof -
  show "keeps_rows u V (manage_file cfg sh say ms now ctx params)"
  proof (cases ctx)
    case None then show ?thesis by (auto simp: manage_file_def)
  next
    case (Some u')
    with u have "u \<noteq> u'" by simp
    then show ?thesis unfolding manage_file_def Some Let_def option.case
      by (intro kept_rules keeps_modify keeps_file)
  qed
  show "keeps_rows u V (manage_service cfg mgr sh say ms now ctx params)"
  proof (cases ctx)
    case None then show ?thesis by (auto simp: manage_service_def)
  next
    case (Some u')
    with u have "u \<noteq> u'" by simp
    then show ?thesis unfolding manage_service_def Some Let_def option.case
      by (intro kept_rules keeps_modify keeps_service)
  qed
  show "keeps_rows u V (manage_pam sd probe say sid ms now ctx params)"
  proof (cases ctx)
    case None then show ?thesis by (auto simp: manage_pam_def)
  next
    case (Some u')
    with u have "u \<noteq> u'" by simp
    then show ?thesis unfolding manage_pam_def Some Let_def option.case
      by (intro kept_rules keeps_modify keeps_pam)
  qed
  show "keeps_rows u V (manage_owned_resource cfg env k c1 say ms ctx ret params)"
  proof (cases ctx)
    case None then show ?thesis by (auto simp: manage_owned_resource_def)
  next
    case (Some u')
    show ?thesis unfolding manage_owned_resource_def Some Let_def option.case
      by (intro kept_rules kept_get keeps_owned)
  qed
  show "keeps_rows u V (manage_venv cfg b sid sd die c2 say ms now ctx reqs params)"
    by (cases ctx) (auto simp: manage_venv_def Let_def intro!: kept_rules keeps_venv)
qed

subsection \<open>Histories of calls\<close>

text \<open>The five entries of the registry, with what a call brings besides its parameters, and the host and
  libraries they run against.\<close>

datatype managed_call =
    FileTool tool_params
  | ServiceTool tool_params
  | PamTool string tool_params
  | OwnedTool "int option" tool_params
  | VenvTool string "(string list + string) option" tool_params

record 'w managed_env =
  te_settings :: Settings
  te_shell :: "'w shell"
  te_manager :: "'w service_manager"
  te_pam_timer :: "'w deadman"
  te_pam_probe :: "('w, bool) act"
  te_owned :: "'w owned_env"
  te_kernel :: owned_kernel
  te_builder :: "'w venv_builder"
  te_venv_timer :: "'w deadman"
  te_exit :: "('w, unit) act"
  te_owned_created :: "owned_row \<Rightarrow> string"
  te_venv_created :: "venv_row \<Rightarrow> string"
  te_say :: "exn \<Rightarrow> string"

fun managed_tool ::
    "('m host_scheme) managed_env \<Rightarrow> int \<Rightarrow> int \<Rightarrow> string option \<Rightarrow> managed_call
     \<Rightarrow> (('m host_scheme) kernel_state, tool_result) act" where
  "managed_tool E ms now ctx (FileTool ps) =
     manage_file (te_settings E) (te_shell E) (te_say E) ms now ctx ps"
| "managed_tool E ms now ctx (ServiceTool ps) =
     manage_service (te_settings E) (te_manager E) (te_shell E) (te_say E) ms now ctx ps"
| "managed_tool E ms now ctx (PamTool sid ps) =
     manage_pam (te_pam_timer E) (te_pam_probe E) (te_say E) sid ms now ctx ps"
| "managed_tool E ms now ctx (OwnedTool retention ps) =
     manage_owned_resource (te_settings E) (te_owned E) (te_kernel E) (te_owned_created E) (te_say E) ms ctx retention ps"
| "managed_tool E ms now ctx (VenvTool sid reqs ps) =
     manage_venv (te_settings E) (te_builder E) sid (te_venv_timer E) (te_exit E) (te_venv_created E) (te_say E) ms now
       ctx reqs ps"

text \<open>A call is made at a time, in a context; what it raises ends in its caller, the state stays.\<close>

definition managed_step ::
    "('m host_scheme) managed_env \<Rightarrow> int \<times> int \<times> string option \<times> managed_call
     \<Rightarrow> ('m host_scheme) kernel_state \<Rightarrow> ('m host_scheme) kernel_state" where
  "managed_step E = (\<lambda>(ms, now, ctx, call) st. snd (managed_tool E ms now ctx call st))"

lemma managed_step_rows:
  assumes "ctx \<noteq> Some u"
  shows "user_rows u (db (managed_step E (ms, now, ctx, call) st)) = user_rows u (db st)"
proof -
  have "keeps_rows u (user_rows u (db st)) (managed_tool E ms now ctx call)"
    by (cases call) (simp_all add: tool_rows [OF assms])
  then show ?thesis by (simp add: kept_def managed_step_def)
qed

lemma managed_history_rows:
  "list_all (\<lambda>(ms, now, ctx, call). ctx \<noteq> Some u) calls \<Longrightarrow>
     user_rows u (db (fold (managed_step E) calls st)) = user_rows u (db st)"
  by (induction calls arbitrary: st) (auto simp: managed_step_rows)

subsection \<open>The gate of the tools\<close>

text \<open>A file call that may act without the owner: the operator is on, and the target is listed and graduated.\<close>

definition file_gate_open :: "Settings \<Rightarrow> string \<Rightarrow> string \<Rightarrow> kernel_db \<Rightarrow> bool" where
  "file_gate_open cfg u p d \<longleftrightarrow> operator_enabled cfg \<and> get_managed_file_target u p d \<noteq> None
     \<and> graduated (db_get_operator_track_record (u, ''file_edit'', p) d)"

definition service_gate_open :: "Settings \<Rightarrow> string \<Rightarrow> string \<Rightarrow> string \<Rightarrow> kernel_db \<Rightarrow> bool" where
  "service_gate_open cfg u n a d \<longleftrightarrow> operator_service_enabled cfg \<and> get_managed_service_target u n d \<noteq> None
     \<and> graduated (db_get_operator_track_record (u, ''service_'' @ a, n) d)"

lemma closed_file_gate:
  "\<not> file_gate_open cfg u p (db st) \<Longrightarrow> snd (operate_on_file cfg sh u p c ''file_edit'' now st) = st"
  by (auto simp: operate_on_file_unfold file_gate_open_def split: option.split)

lemma closed_service_gate:
  "\<not> service_gate_open cfg u n a (db st) \<Longrightarrow> snd (operate_on_service cfg mgr sh u n a now st) = st"
  by (auto simp: operate_on_service_def service_gate_open_def Let_def split: option.split)

definition untouched :: "'w kernel_state \<Rightarrow> 'w kernel_state \<Rightarrow> bool" where
  "untouched st st' \<longleftrightarrow> world st' = world st \<and> operator_tracks (db st') = operator_tracks (db st)"

lemma act_catch_snd: "(\<And>e s. snd (h e s) = s) \<Longrightarrow> snd (act_catch m h s) = snd (m s)"
  by (simp add: act_catch_apply split: prod.split sum.split)

lemma act_bind_snd: "(\<And>x s. snd (k x s) = s) \<Longrightarrow> snd (act_bind m k s) = snd (m s)"
  by (simp add: act_bind_apply split: prod.split sum.split)

lemma quiet [simp]:
  "snd (answer ms ok msg s) = s" "snd (file_refusals say ms e s) = s" "snd (service_refusals say ms e s) = s"
  "snd (file_edit_reply ms p o1 s) = s" "snd (service_reply ms a n o2 s) = s"
  "snd (file_status ms u p s') = s'" "snd (service_status ms u n s') = s'"
  by (auto simp: answer_def file_refusals_def service_refusals_def file_edit_reply_def service_reply_def
      file_status_def service_status_def Let_def split: option.split)

lemma untouched_rules:
  "snd (on_db (act_modify f) st) = st\<lparr>db := f (db st)\<rparr>" "untouched st st"
  "untouched st (st\<lparr>db := d\<rparr>) \<longleftrightarrow> operator_tracks d = operator_tracks (db st)"
  by (simp_all add: untouched_def on_db_def)

lemmas closed_call = Let_def act_catch_snd act_bind_snd act_then_def untouched_rules allowlist_defs

lemma untouched_file:
  assumes "param ''action'' ps \<noteq> ''approved_apply''" and "\<not> file_gate_open cfg u (param ''target_path'' ps) (db st)"
  shows "untouched st (snd (manage_file cfg sh say ms now (Some u) ps st))"
  using assms(1)
  by (simp add: manage_file_def closed_call closed_file_gate [OF assms(2)])

lemma untouched_service:
  assumes "param ''action'' ps \<noteq> ''approved_apply''"
    and "\<not> service_gate_open cfg u (param ''service_name'' ps) (param ''svc_action'' ps) (db st)"
  shows "untouched st (snd (manage_service cfg mgr sh say ms now (Some u) ps st))"
  using assms(1)
  by (simp add: manage_service_def closed_call closed_service_gate [OF assms(2)])

subsection \<open>An approval by the caller\<close>

text \<open>A command that exits with code 0 and changes nothing, as \<open>true\<close> does.\<close>

definition always_passes :: "'w shell \<Rightarrow> string \<Rightarrow> bool" where
  "always_passes sh cmd \<longleftrightarrow> (\<exists>q. returncode q = 0 \<and> (\<forall>w. sh [''/bin/sh'', ''-c'', cmd] w = (Inr q, w)))"

lemma passing_edit:
  assumes host: "writable cfg p h" and pass: "always_passes sh cmd"
  shows "run_reversible_operation (file_edit cfg sh p c cmd) h =
    (Inr kept_result, h\<lparr>files := (files h)(fs_key p \<mapsto> Regular c)\<rparr>)"
proof -
  obtain q where q: "returncode q = 0" "\<And>w. sh [''/bin/sh'', ''-c'', cmd] w = (Inr q, w)"
    using pass unfolding always_passes_def by blast
  obtain s where cap: "file_backup p h = (Inr s, h)"
    using host by (rule file_backup_total [elim_format]) blast
  have "op_apply (file_edit cfg sh p c cmd) h = (Inr (), h\<lparr>files := (files h)(fs_key p \<mapsto> Regular c)\<rparr>)"
    using host by (simp add: file_edit_def file_write_def refuse_if_protected_def writable_def act_simps
        fs_makedirs_exist fs_write_def)
  moreover have "op_verify (file_edit cfg sh p c cmd) w = (Inr True, w)" for w
    by (simp add: file_edit_def run_validator_def act_simps q)
  ultimately show ?thesis using cap by (simp add: file_edit.run_unfold act_simps)
qed

lemma writable_write: "writable cfg p h \<Longrightarrow> writable cfg p (h\<lparr>files := (files h)(fs_key p \<mapsto> Regular c)\<rparr>)"
  by (auto simp: writable_def dirs_exist_def parent_ok_def list_all_iff)

lemma passing_approval:
  assumes listed: "get_managed_file_target u p (db st) = Some m" "validator_cmd m = cmd" "cmd \<noteq> []"
    and host: "writable cfg p (world st)" and pass: "always_passes sh cmd"
  shows "execute_approved_file_edit cfg sh u p c cls now st = (Inr kept_result, st\<lparr>
      world := (world st)\<lparr>files := (files (world st))(fs_key p \<mapsto> Regular c)\<rparr>,
      db := (db st)\<lparr>operator_tracks := snd (update_operator_track_record (u, cls, p) (True, now)
        (operator_tracks (db st)))\<rparr>\<rparr>)"
  using listed run_and_record_Inr [OF passing_edit [OF host pass]]
  by (simp add: execute_approved_file_edit_def ReversibleFileEdit_def)

definition file_call :: "string \<Rightarrow> string \<Rightarrow> string \<Rightarrow> string \<Rightarrow> tool_params" where
  "file_call action p cmd c = [(''action'', action), (''target_path'', p), (''validator_cmd'', cmd), (''new_content'', c)]"

lemma file_call_params [simp]:
  "param ''action'' (file_call a p cmd c) = a" "param ''target_path'' (file_call a p cmd c) = p"
  "param ''validator_cmd'' (file_call a p cmd c) = cmd" "param ''new_content'' (file_call a p cmd c) = c"
  by (simp_all add: file_call_def param_def)

lemma credits_replicate: "credits_from b (replicate n True) = (n + (if b then 1 else 0)) div 2"
proof (induction n arbitrary: b)
  case (Suc n)
  then show ?case by (cases b) simp_all
qed simp

lemma foldl_replicate: "foldl f s (replicate n x) = ((\<lambda>s. f s x) ^^ n) s"
  by (induction n arbitrary: s) (simp_all add: funpow_swap1 [of "\<lambda>s. f s x"])

lemma repeated_success:
  "get_operator_track_record k (((\<lambda>t. snd (update_operator_track_record k (True, now) t)) ^^ n) t) =
     foldl advance_state (get_operator_track_record k t) (map (\<lambda>(v, n). operator_cycle v n) (replicate n (True, now)))"
  by (simp add: foldl_replicate) (induction n, simp_all add: operator_ledger.get_upd_same)

lemma repeated_graduates:
  assumes fresh: "t k = None" and n: "6 \<le> n"
  shows "graduated (get_operator_track_record k
    (((\<lambda>t. snd (update_operator_track_record k (True, now) t)) ^^ n) t))"
proof -
  have "last_fix_branch fresh_track = None" by (simp add: fresh_track_def)
  from advance_operator_fold(2) [OF this, of "replicate n (True, now)"] n
  show ?thesis unfolding repeated_success fresh_operator [of t k, OF fresh]
    by (simp add: fresh_track_def credits_replicate)
qed

lemma own_approval:
  assumes "p \<noteq> []" "get_managed_file_target u p (db st) = Some m" "validator_cmd m = cmd" "cmd \<noteq> []"
    and "writable cfg p (world st)" "always_passes sh cmd"
  shows "snd (manage_file cfg sh say ms now (Some u) (file_call ''approved_apply'' p cmd c) st) =
    st\<lparr>world := (world st)\<lparr>files := (files (world st))(fs_key p \<mapsto> Regular (utf8_bytes c))\<rparr>,
      db := (db st)\<lparr>operator_tracks := snd (update_operator_track_record (u, ''file_edit'', p) (True, now)
        (operator_tracks (db st)))\<rparr>\<rparr>"
  by (simp add: manage_file_def assms(1) act_catch_snd act_bind_snd passing_approval [OF assms(2-6)])

lemma repeated_approvals:
  fixes cfg sh say ms now u p cmd c
  defines "call \<equiv> (\<lambda>st. snd (manage_file cfg sh say ms now (Some u) (file_call ''approved_apply'' p cmd c) st))"
  assumes p: "p \<noteq> []" and listed: "get_managed_file_target u p (db st) = Some m" "validator_cmd m = cmd" "cmd \<noteq> []"
    and host: "writable cfg p (world st)" and pass: "always_passes sh cmd"
  shows "get_managed_file_target u p (db ((call ^^ n) st)) = Some m \<and> writable cfg p (world ((call ^^ n) st))
    \<and> operator_tracks (db ((call ^^ n) st)) = ((\<lambda>t. snd (update_operator_track_record (u, ''file_edit'', p) (True, now) t)) ^^ n)
         (operator_tracks (db st))
    \<and> (0 < n \<longrightarrow> files (world ((call ^^ n) st)) (fs_key p) = Some (Regular (utf8_bytes c)))"
proof (induction n)
  case 0
  then show ?case using listed host by simp
next
  case (Suc n)
  let ?st = "(call ^^ n) st"
  from Suc have IH: "get_managed_file_target u p (db ?st) = Some m" "writable cfg p (world ?st)" by simp_all
  have "call ?st = ?st\<lparr>world := (world ?st)\<lparr>files := (files (world ?st))(fs_key p \<mapsto> Regular (utf8_bytes c))\<rparr>,
      db := (db ?st)\<lparr>operator_tracks := snd (update_operator_track_record (u, ''file_edit'', p) (True, now)
        (operator_tracks (db ?st)))\<rparr>\<rparr>"
    unfolding call_def by (rule own_approval [OF p _ listed(2,3) _ pass]) (use IH in \<open>simp_all add: call_def\<close>)
  then show ?case
    using Suc writable_write [OF IH(2)] by (simp add: get_managed_file_target_def)
qed

lemma own_registration:
  assumes "p \<noteq> []" "cmd \<noteq> []"
  shows "snd (manage_file cfg sh say ms now (Some u) (file_call ''add_target'' p cmd c) st) =
      st\<lparr>db := add_managed_file_target u p (cmd, now) (db st)\<rparr>"
  using assms by (simp add: manage_file_def closed_call)

text \<open>The owner's approval is not asked for. An agent that calls the file tool only, with the operator
  switched off or on and nothing allowlisted, registers a target with a validator of its own choice and applies its own
  content with \<open>approved_apply\<close>: the file holds that content, and after six such calls the class has graduated,
  so that later edits of any content apply by themselves once the operator is on. (The target is writable
  and not self-protected, and the chosen validator exits with code 0.)\<close>

theorem agent_approves_itself:
  assumes "p \<noteq> []" "cmd \<noteq> []" and "writable cfg p (world st)"
    and "always_passes sh cmd"
    and "operator_tracks (db st) (u, ''file_edit'', p) = None"
  shows "let call = (\<lambda>a. \<lambda>st. snd (manage_file cfg sh say ms now (Some u) (file_call a p cmd c) st));
             st' = (\<lambda>n. (call ''approved_apply'' ^^ n) (call ''add_target'' st))
    in (\<forall>n \<ge> 1. files (world (st' n)) (fs_key p) = Some (Regular (utf8_bytes c)))
     \<and> (\<forall>n \<ge> 6. graduated (db_get_operator_track_record (u, ''file_edit'', p) (db (st' n))))"
proof -
  let ?st = "snd (manage_file cfg sh say ms now (Some u) (file_call ''add_target'' p cmd c) st)"
  obtain m where m: "get_managed_file_target u p (db ?st) = Some m" "validator_cmd m = cmd"
    by (simp add: own_registration assms allowlist_defs table_laws split: option.split)
  have host: "writable cfg p (world ?st)" using assms by (simp add: own_registration)
  have tracks: "operator_tracks (db ?st) = operator_tracks (db st)"
    using assms by (simp add: own_registration allowlist_defs)
  note go = repeated_approvals [where say = say and ms = ms and now = now and c = c, OF assms(1) m assms(2) host assms(4)]
  have "graduated (db_get_operator_track_record (u, ''file_edit'', p)
      (db (((\<lambda>st. snd (manage_file cfg sh say ms now (Some u) (file_call ''approved_apply'' p cmd c) st)) ^^ n) ?st)))"
    if "6 \<le> n" for n
    using go [of n] repeated_graduates [of "operator_tracks (db st)", OF assms(5) that]
    by (simp add: db_get_operator_track_record_def tracks)
  with go show ?thesis unfolding Let_def by (auto simp: Suc_le_eq)
qed

definition evil_call :: "string \<Rightarrow> tool_params" where
  "evil_call action = file_call action ''/etc/nginx/nginx.conf'' ''true'' ''evil''"

theorem agent_approves_itself_witness:
  "files (world ((snd \<circ> manage_file default_settings (sample_shell 0) (\<lambda>e. ''refused'') 1 7 (Some ''agent'')
       (evil_call ''approved_apply''))
     (snd (manage_file default_settings (sample_shell 0) (\<lambda>e. ''refused'') 1 7 (Some ''agent'')
       (evil_call ''add_target'') \<lparr>db = empty_db, world = sample_host\<rparr>)))) ''/etc/nginx/nginx.conf''
   = Some (Regular ''evil'') \<and> \<not> operator_enabled default_settings"
proof -
  let ?p = "''/etc/nginx/nginx.conf''" and ?st = "\<lparr>db = empty_db, world = sample_host\<rparr>"
  have names: "?p \<noteq> []" "''true'' \<noteq> []" by simp_all
  have host: "writable default_settings ?p (world ?st)" by code_simp
  have pass: "always_passes (sample_shell 0) ''true''"
    by (simp add: always_passes_def sample_shell_def)
  have fresh: "operator_tracks (db ?st) (''agent'', ''file_edit'', ?p) = None" by (simp add: empty_db_def)
  have key: "fs_key ?p = ?p" by code_simp
  have bytes: "utf8_bytes ''evil'' = ''evil''" by code_simp
  have off: "\<not> operator_enabled default_settings" by (simp add: default_settings_def)
  note all = agent_approves_itself [where say = "\<lambda>e. ''refused''" and ms = 1 and now = 7 and c = "''evil''",
      OF names host pass fresh, unfolded Let_def key bytes evil_call_def [symmetric], THEN conjunct1]
  from all [rule_format, of 1] off show ?thesis by (simp add: evil_call_def)
qed



text \<open>Users do not touch each other: whatever calls of the five managed tools are made in other contexts, in any
  order and with any parameters, and whatever they raise, a user's allowlists and track records stay as they
  are.\<close>

theorem managed_tools_isolate_users:
  assumes "list_all (\<lambda>(ms, now, ctx, call). ctx \<noteq> Some u) calls"
  shows "user_rows u (db (fold (managed_step E) calls st)) = user_rows u (db st)"
  by (rule managed_history_rows [OF assms])

definition sample_tools :: "timed_host managed_env" where
  "sample_tools = \<lparr>te_settings = default_settings,
     te_shell = (\<lambda>_. act_return \<lparr>returncode = 0, stdout = [], stderr = []\<rparr>),
     te_manager = linux_service_manager (\<lambda>_ _. Inl TimeoutExpired) (\<lambda>_. act_raise TimeoutExpired),
     te_pam_timer = sample_timer, te_pam_probe = act_return False,
     te_owned = \<lparr>env_realpath = Some, env_mtime = (\<lambda>_ _. Inr 0), env_listdir = (\<lambda>_ _. []),
       env_vacuum = (\<lambda>_. act_return ()), env_stamp = ''t'', env_now = 0\<rparr>,
     te_kernel = \<lparr>k_workspaces_root = ''/w'', k_source_root = ''/s'', k_worktree_root = ''/t''\<rparr>,
     te_builder = sample_builder, te_venv_timer = sample_timer, te_exit = act_return (),
     te_owned_created = (\<lambda>_. []), te_venv_created = (\<lambda>_. []), te_say = (\<lambda>_. ''refused'')\<rparr>"

theorem managed_tools_isolate_users_witness:
  "get_managed_pam_target ''owner'' ''vsftpd'' (db (fold (managed_step sample_tools)
      [(1, 5, Some ''mallory'', PamTool ''id1'' [(''action'', ''remove_target''), (''pam_file'', ''vsftpd'')]),
       (1, 6, None, FileTool (file_call ''remove_target'' ''vsftpd'' [] []))]
      \<lparr>db = empty_db\<lparr>managed_pam_targets := [((''owner'', ''vsftpd''), 3)]\<rparr>, world = sample_pam_host\<rparr>)) = Some 3"
proof -
  let ?st = "\<lparr>db = empty_db\<lparr>managed_pam_targets := [((''owner'', ''vsftpd''), 3)]\<rparr>, world = sample_pam_host\<rparr>"
  let ?calls = "[(1, 5, Some ''mallory'', PamTool ''id1'' [(''action'', ''remove_target''), (''pam_file'', ''vsftpd'')]),
       (1, 6, None, FileTool (file_call ''remove_target'' ''vsftpd'' [] []))]"
  have others: "list_all (\<lambda>(ms, now, ctx, call). ctx \<noteq> Some ''owner'') ?calls" by simp
  have "get_managed_pam_target ''owner'' ''vsftpd'' (db ?st) = Some 3" by code_simp
  with managed_tools_isolate_users [OF others, of sample_tools ?st]
  show ?thesis by (simp only: user_rows_def prod.inject fun_eq_iff)
qed

subsection \<open>A probe that the caller answers\<close>

text \<open>The host lets the operator write both files of a PAM edit; the timer does what it is told and leaves
  the rest of the host alone.\<close>

definition pam_ready :: "string \<Rightarrow> string \<Rightarrow> 'm host_scheme \<Rightarrow> bool" where
  "pam_ready f sid h \<longleftrightarrow> (let t = path_div PAM_DIR f; b = path_div PAM_BACKUP_DIR sid in
     parent_ok t h \<and> \<not> io_fault h (fs_key t) \<and> files h (fs_key t) \<noteq> Some Directory
     \<and> parent_ok b h \<and> \<not> io_fault h (fs_key b) \<and> files h (fs_key b) \<noteq> Some Directory
     \<and> fs_key t \<noteq> fs_key b)"

definition obeyed_timer :: "('m host_scheme \<Rightarrow> bool) \<Rightarrow> ('m host_scheme) deadman \<Rightarrow> bool" where
  "obeyed_timer armed sd \<longleftrightarrow>
     (\<forall>u d c h. \<exists>h'. dm_arm sd u d c h = (Inr (), h') \<and> files h' = files h \<and> io_fault h' = io_fault h \<and> armed h')
     \<and> (\<forall>u h. \<exists>h'. dm_disarm sd u h = (Inr (), h') \<and> files h' = files h \<and> \<not> armed h')
     \<and> (\<forall>h f. armed (h\<lparr>files := f\<rparr>) = armed h)"

lemma parent_ok_write:
  assumes "parent_ok p h" "files h q \<noteq> Some Directory" "files h' = (files h)(q \<mapsto> Regular c)"
  shows "parent_ok p h'"
  using assms by (auto simp: parent_ok_def)

lemma pam_installed:
  fixes h :: "'m host_scheme"
  assumes ready: "pam_ready f sid h" and timer: "obeyed_timer armed sd" and f: "f \<notin> SELF_PROTECTED_PAM_FILES"
  shows "\<exists>h'. install_pam_edit_with_deadman sd (act_return True) PAM_DIR PAM_BACKUP_DIR sid f c delay h = (Inr sid, h')
    \<and> files h' (fs_key (path_div PAM_DIR f)) = Some (Regular c)"
proof -
  let ?t = "path_div PAM_DIR f" and ?b = "path_div PAM_BACKUP_DIR sid"
  define op :: "('m host_scheme) pam_edit" where "op = \<lparr>edit_file = f, edit_content = c, edit_probe = act_return True,
    edit_pam_dir = PAM_DIR, edit_backup_dir = PAM_BACKUP_DIR\<rparr>"
  note r = ready [unfolded pam_ready_def Let_def]
  obtain prior where prior: "(if fs_exists ?t h then fs_read ?t else act_return []) h = (Inr prior, h)"
    using r by (cases "files h (fs_key ?t)"; cases "the (files h (fs_key ?t))") (auto simp: fs_exists_def fs_read_def)
  define h1 where "h1 = h\<lparr>files := (files h)(fs_key ?b \<mapsto> Regular prior)\<rparr>"
  define s where "s = \<lparr>pam_file = f, was_absent = \<not> fs_exists ?t h, pam_prior_content = prior,
    snapshot_id = sid, backup_path = ?b\<rparr>"
  have cap: "pam_capture op sid h = (Inr s, h1)"
    using r prior by (cases "fs_exists ?t h")
      (simp_all add: pam_capture_def op_def pam_target_def act_simps fs_write_def h1_def s_def Let_def)
  have sid: "snapshot_id s = sid" by (simp add: s_def)
  define cmd where "cmd = ''/usr/local/bin/anima-pam-restore '' @ sid @ '' '' @ f"
  obtain h2 where arm: "dm_arm sd PAM_DEADMAN_UNIT delay cmd h1 = (Inr (), h2)"
    "files h2 = files h1" "io_fault h2 = io_fault h1"
    using timer unfolding obeyed_timer_def by blast
  have "parent_ok ?t h2" by (rule parent_ok_write [of ?t h "fs_key ?b" _ prior]) (use r arm in \<open>simp_all add: h1_def\<close>)
  with r arm have app: "pam_apply op h2 = (Inr (), h2\<lparr>files := (files h2)(fs_key ?t \<mapsto> Regular c)\<rparr>)"
    by (simp add: pam_apply_def op_def pam_target_def fs_write_def h1_def)
  have probe: "edit_probe op = act_return True" by (simp add: op_def)
  have "install_pam_edit_with_deadman sd (act_return True) PAM_DIR PAM_BACKUP_DIR sid f c delay h =
      (Inr sid, h2\<lparr>files := (files h2)(fs_key ?t \<mapsto> Regular c)\<rparr>)"
    unfolding install_pam_edit_with_deadman_def PamFileEdit_def op_def [symmetric] if_not_P [OF f] sum.case
    unfolding act_bind_Inr [where m = "pam_capture op sid", OF cap] sid cmd_def [symmetric] act_then_Inr [where m = "dm_arm sd PAM_DEADMAN_UNIT delay cmd", OF arm(1)]
    by (simp add: act_simps guarded_def pam_body_def app probe)
  then show ?thesis by simp
qed

definition pam_call :: "string \<Rightarrow> string \<Rightarrow> string \<Rightarrow> tool_params" where
  "pam_call action f c = [(''action'', action), (''pam_file'', f), (''new_content'', c), (''_test_probe_fn'', ''1'')]"

lemma pam_call_params [simp]:
  "param ''action'' (pam_call a f c) = a" "param ''pam_file'' (pam_call a f c) = f"
  "param ''new_content'' (pam_call a f c) = c" "pam_probe_of (pam_call a f c) probe = act_return True"
  "pam_timer_of (pam_call a f c) sd = sd" "dir_of ''_test_pam_dir'' (pam_call a f c) d = d"
  "dir_of ''_test_backup_dir'' (pam_call a f c) d = d"
  by (simp_all add: pam_call_def param_def pam_probe_of_def pam_timer_of_def dir_of_def)

text \<open>The caller certifies its own PAM edit. Three calls of the PAM tool, with the unlisted parameter
  \<open>_test_probe_fn\<close>, list a file, replace it and disarm the revert timer, whatever the login probe says (also
  one that always fails): the new content is in place, the second call has reported it as applied and armed, and no timer
  is left to revert it. (The host lets the operator write, and the timer does what it is told.)\<close>

theorem pam_probe_by_caller:
  assumes ready: "pam_ready f sid (world st)" and timer: "obeyed_timer armed sd"
    and names: "f \<noteq> []" "c \<noteq> []" and floor: "f \<notin> SELF_PROTECTED_PAM_FILES"
  shows "let call = (\<lambda>a. manage_pam sd probe say sid ms now (Some u) (pam_call a f c));
             st1 = snd (call ''add_target'' st); out = call ''approved_apply'' st1; st3 = snd (call ''commit'' (snd out))
    in map_sum id tool_text (fst out) = Inr (pam_armed_text f sid)
     \<and> files (world st3) (fs_key (path_div PAM_DIR f)) = Some (Regular (utf8_bytes c)) \<and> \<not> armed (world st3)"
proof -
  let ?call = "\<lambda>a. manage_pam sd probe say sid ms now (Some u) (pam_call a f c)"
  have one: "snd (?call ''add_target'' st) = st\<lparr>db := add_managed_pam_target u f now (db st)\<rparr>"
    using names by (simp add: manage_pam_def closed_call)
  have listed: "get_managed_pam_target u f (add_managed_pam_target u f now (db st)) \<noteq> None"
    by (rule pam_targets.get_add_same)
  obtain h' where ins: "install_pam_edit_with_deadman sd (act_return True) PAM_DIR PAM_BACKUP_DIR sid f (utf8_bytes c)
      PAM_DEADMAN_DELAY_S (world st) = (Inr sid, h')" "files h' (fs_key (path_div PAM_DIR f)) = Some (Regular (utf8_bytes c))"
    using pam_installed [OF ready timer floor] by blast
  obtain h'' where stop: "dm_disarm sd PAM_DEADMAN_UNIT h' = (Inr (), h'')" "files h'' = files h'" "\<not> armed h''"
    using timer unfolding obeyed_timer_def by blast
  have two: "?call ''approved_apply'' (st\<lparr>db := add_managed_pam_target u f now (db st)\<rparr>) =
      (Inr \<lparr>tool_text = pam_armed_text f sid, success = True, duration_ms = ms\<rparr>,
       st\<lparr>db := add_managed_pam_target u f now (db st), world := h'\<rparr>)"
    using names listed
    by (auto simp: manage_pam_def Let_def act_simps execute_approved_pam_edit_def answer_def ins)
  show ?thesis unfolding Let_def one two
    using ins(2) stop by (simp add: manage_pam_def Let_def act_simps commit_pam_edit_def answer_def)
qed

text \<open>The name \<open>./sshd\<close> is not on the floor, so it is \<open>/etc/pam.d/sshd\<close> that the calls replace here.\<close>

theorem pam_probe_by_caller_witness:
  "\<exists>st3. files (world st3) ''/etc/pam.d/sshd'' = Some (Regular ''auth'') \<and> \<not> timer_on (world st3)
     \<and> st3 = snd (manage_pam sample_timer (act_return False) (\<lambda>_. ''refused'') ''id1'' 1 7 (Some ''agent'')
         (pam_call ''commit'' ''./sshd'' ''auth'')
         (snd (manage_pam sample_timer (act_return False) (\<lambda>_. ''refused'') ''id1'' 1 7 (Some ''agent'')
           (pam_call ''approved_apply'' ''./sshd'' ''auth'')
           (snd (manage_pam sample_timer (act_return False) (\<lambda>_. ''refused'') ''id1'' 1 7 (Some ''agent'')
             (pam_call ''add_target'' ''./sshd'' ''auth'') \<lparr>db = empty_db, world = sample_pam_host\<rparr>)))))"
proof -
  let ?st = "\<lparr>db = empty_db, world = sample_pam_host\<rparr>"
  have ready: "pam_ready ''./sshd'' ''id1'' (world ?st)" by code_simp
  have timer: "obeyed_timer timer_on sample_timer" by (simp add: obeyed_timer_def sample_timer_def)
  have names: "''./sshd'' \<noteq> []" "''auth'' \<noteq> []" by simp_all
  have floor: "''./sshd'' \<notin> SELF_PROTECTED_PAM_FILES" by (simp add: SELF_PROTECTED_PAM_FILES_def)
  have key: "fs_key (path_div PAM_DIR ''./sshd'') = ''/etc/pam.d/sshd''" by code_simp
  have bytes: "utf8_bytes ''auth'' = ''auth''" by code_simp
  from pam_probe_by_caller [where probe = "act_return False" and say = "\<lambda>_. ''refused''" and ms = 1 and now = 7
      and u = "''agent''", OF ready timer names floor, unfolded Let_def key bytes]
  show ?thesis by blast
qed

subsection \<open>A trash that the caller names\<close>

text \<open>A directory without a manifest of its own, last changed before the cutoff.\<close>

definition plain_and_old :: "(string \<Rightarrow> 'm host_scheme \<Rightarrow> exn + int) \<Rightarrow> int \<Rightarrow> 'm host_scheme \<Rightarrow> string \<Rightarrow> bool" where
  "plain_and_old mtime cutoff h e \<longleftrightarrow> \<not> fs_exists (path_div e ''manifest.json'') h
     \<and> (\<forall>h'. \<exists>t < cutoff. mtime e h' = Inr t)"

lemma plain_and_old_time:
  "plain_and_old mtime cutoff h e \<Longrightarrow> \<exists>t < cutoff. trashed_at_of mtime e h = Inr t"
  by (auto simp: plain_and_old_def trashed_at_of_def Let_def dest!: spec [of _ h])

lemma reap_entries_all:
  assumes "\<forall>e \<in> set es. plain_and_old mtime cutoff h e"
  shows "\<exists>rs h'. reap_entries mtime cutoff es h = (Inr rs, h') \<and> io_fault h' = io_fault h
     \<and> (\<forall>q. files h q = None \<longrightarrow> files h' q = None)
     \<and> (\<forall>e \<in> set es. files h (fs_key e) = Some Directory \<longrightarrow>
          (\<forall>q. inside (fs_key e) q \<and> \<not> io_fault h q \<longrightarrow> files h' q = None))"
  using assms
proof (induction es arbitrary: h)
  case Nil
  then show ?case by (simp add: act_simps)
next
  case (Cons e es)
  define h1 where "h1 = (if files h (fs_key e) = Some Directory then fs_rmtree e h else h)"
  have f1: "io_fault h1 = io_fault h" "files h q = None \<longrightarrow> files h1 q = None" for q
    by (simp_all add: h1_def fs_rmtree_def)
  have "\<forall>e \<in> set es. plain_and_old mtime cutoff h1 e"
    using Cons.prems f1(2) by (auto simp: plain_and_old_def fs_exists_def)
  from Cons.IH [OF this] obtain rs h' where IH: "reap_entries mtime cutoff es h1 = (Inr rs, h')"
    "io_fault h' = io_fault h1" "\<forall>q. files h1 q = None \<longrightarrow> files h' q = None"
    "\<forall>e \<in> set es. files h1 (fs_key e) = Some Directory \<longrightarrow>
       (\<forall>q. inside (fs_key e) q \<and> \<not> io_fault h1 q \<longrightarrow> files h' q = None)"
    by blast
  obtain t where t: "t < cutoff" "trashed_at_of mtime e h = Inr t"
    using plain_and_old_time [of mtime cutoff h e] Cons.prems by auto
  have gone: "files h' q = None" if "d \<in> set (e # es)" "files h (fs_key d) = Some Directory" "inside (fs_key d) q"
    "\<not> io_fault h q" for d q
  proof (cases "files h1 (fs_key d) = Some Directory \<and> d \<in> set es")
    case True
    then show ?thesis using IH(4) that(3,4) unfolding f1(1) by blast
  next
    case False
    then have "files h1 q = None"
      using that inside_trans [of "fs_key e" "fs_key d" q]
      by (auto simp: h1_def fs_rmtree_def split: if_splits)
    with IH(3) show ?thesis by simp
  qed
  show ?case
    using IH(1,2,3) f1 gone t by (auto simp: act_simps h1_def split: if_splits)
qed

definition reap_call :: "string \<Rightarrow> tool_params" where
  "reap_call d = [(''action'', ''reap''), (''trash_root'', d)]"

text \<open>The reaper deletes what the caller names. For every kernel, whatever its owned roots are: a \<open>reap\<close>
  call with \<open>trash_root=d\<close> removes every directory listed in \<open>d\<close> with everything below it, if their times lie
  before the cutoff that the caller's \<open>retention_days\<close> gives. Neither \<open>d\<close> nor an entry is checked against the
  ownership boundary.\<close>

theorem reap_not_bounded:
  assumes "d \<noteq> []" "fs_exists d (world st)"
    and "\<forall>e \<in> set (env_listdir env d (world st)). plain_and_old (env_mtime env) (env_now env - r * 86400) (world st) e"
    and "e \<in> set (env_listdir env d (world st))" "files (world st) (fs_key e) = Some Directory"
    and "inside (fs_key e) q" "\<not> io_fault (world st) q"
  shows "files (world (snd (manage_owned_resource cfg env k created say ms (Some u) (Some r) (reap_call d) st))) q = None"
proof -
  have ps: "param ''action'' (reap_call d) = ''reap''" "trash_root_of (reap_call d) = Some d"
    using assms(1) by (simp_all add: reap_call_def param_def trash_root_of_def)
  obtain rs h' where "reap_entries (env_mtime env) (env_now env - r * 86400) (env_listdir env d (world st)) (world st) = (Inr rs, h')"
    "files h' q = None"
    using reap_entries_all [OF assms(3)] assms(4-7) by auto
  then show ?thesis
    using assms(1,2) by (simp add: manage_owned_resource_def ps Let_def act_simps reap_trash_def or_default_def answer_def)
qed

definition home_env :: "host owned_env" where
  "home_env = \<lparr>env_realpath = Some, env_mtime = (\<lambda>_ _. Inr 0),
     env_listdir = (\<lambda>d _. if d = ''/home'' then [''/home/alice''] else []), env_vacuum = (\<lambda>_. act_return ()),
     env_stamp = ''t'', env_now = 100\<rparr>"

definition home_state :: "host kernel_state" where
  "home_state = \<lparr>db = empty_db, world = \<lparr>files = [''/home'' \<mapsto> Directory, ''/home/alice'' \<mapsto> Directory,
     ''/home/alice/thesis'' \<mapsto> Regular ''text''], io_fault = (\<lambda>_. False)\<rparr>\<rparr>"

theorem reap_not_bounded_witness:
  "case owned_kernel_of Some default_settings of None \<Rightarrow> False | Some k \<Rightarrow>
     \<not> is_owned_path k Some ''/home/alice'' \<and>
     files (world (snd (manage_owned_resource default_settings home_env k (\<lambda>_. []) (\<lambda>_. []) 1 (Some ''agent'')
       (Some 0) (reap_call ''/home'') home_state))) ''/home/alice/thesis'' = None"
proof -
  define k where "k = the (owned_kernel_of Some default_settings)"
  have k: "owned_kernel_of Some default_settings = Some k" by (simp add: k_def owned_kernel_of_def)
  have d: "''/home'' \<noteq> []" "fs_exists ''/home'' (world home_state)" by code_simp+
  have listing: "env_listdir home_env ''/home'' (world home_state) = [''/home/alice'']" by code_simp
  have key: "fs_key ''/home/alice'' = ''/home/alice''" "fs_key (path_div ''/home/alice'' ''manifest.json'') = ''/home/alice/manifest.json''"
    by code_simp+
  have inn: "inside (fs_key ''/home/alice'') ''/home/alice/thesis''" by code_simp
  have dir: "files (world home_state) (fs_key ''/home/alice'') = Some Directory" by code_simp
  have ok: "\<not> io_fault (world home_state) ''/home/alice/thesis''" by code_simp
  have foreign: "\<not> is_owned_path k Some ''/home/alice''" unfolding k_def by code_simp
  have old: "\<forall>e \<in> set (env_listdir home_env ''/home'' (world home_state)).
      plain_and_old (env_mtime home_env) (env_now home_env - 0 * 86400) (world home_state) e"
    by (simp add: listing plain_and_old_def fs_exists_def key) (simp add: home_env_def home_state_def)
  have e: "''/home/alice'' \<in> set (env_listdir home_env ''/home'' (world home_state))" by (simp add: listing)
  note gone = reap_not_bounded [where r = 0 and env = home_env and k = k, OF d old e dir inn ok]
  show ?thesis using gone foreign by (simp add: k)
qed

definition cron_host :: host where
  "cron_host = \<lparr>files = [''/w'' \<mapsto> Directory, ''/etc'' \<mapsto> Directory, ''/etc/cron.d'' \<mapsto> Directory], io_fault = (\<lambda>_. False)\<rparr>"

definition cron_manifest :: string where
  "cron_manifest = dumps_indent 0 (JObj [(''original_path'', JStr ''/etc/cron.d/job''), (''contents_dir'', JStr ''job'')])"

text \<open>\<open>restore\<close> takes its destination from a manifest that the caller wrote. With two sandboxed \<open>write_file\<close>
  calls an agent puts a manifest and a file into its own workspace; the \<open>restore\<close> call moves the file to
  \<open>/etc/cron.d/job\<close>, a path that \<open>write_file\<close> itself refuses and that no owned root contains.\<close>

theorem restore_leaves_sandbox:
  "case owned_kernel_of Some default_settings of None \<Rightarrow> False | Some k \<Rightarrow>
     let write = (\<lambda>p c h. snd (write_file (\<lambda>_. []) 1 (write_params p c) ''/w'' h));
         h = write ''e/job'' ''* * * * * root sh'' (write ''e/manifest.json'' cron_manifest cron_host);
         st = snd (manage_owned_resource default_settings home_env k (\<lambda>_. []) (\<lambda>_. []) 1 (Some ''agent'') None
           [(''action'', ''restore''), (''trash_path'', ''/w/e'')] \<lparr>db = empty_db, world = h\<rparr>)
     in files (world st) ''/etc/cron.d/job'' = Some (Regular ''* * * * * root sh'')
        \<and> \<not> is_owned_path k Some ''/etc/cron.d/job''
        \<and> map_sum id success (fst (write_file (\<lambda>_. []) 1 (write_params ''/etc/cron.d/job'' ''x'') ''/w'' cron_host)) = Inr False"
  by code_simp

end
