(* ===== verification/Agent_Loop.thy ===== *)
theory Agent_Loop
  imports Sandbox
begin

text \<open>
  The agent loop (\<open>anima/kernel/agent_loop.py\<close>): rounds of model calls and tool calls, the stream of events, and the
  compression of a long conversation. The language model, the tool executor, the artifact callback and the listing
  of the workspace are parameters, gathered in \<open>agent_env\<close>. The generator is code that appends its events to the
  state; a consumer that stops early is not modelled. Messages have the fields of the chat protocol. A dash in the
  prompt is \<open>--\<close> here.
\<close>

subsection \<open>Messages and events\<close>

record requested_call =
  tc_id :: string
  tc_name :: string
  tc_arguments :: string

record message =
  role :: string
  content :: "string option"
  tool_calls :: "requested_call list"
  tool_call_id :: string

definition is_tool :: "message \<Rightarrow> bool" where "is_tool m \<longleftrightarrow> role m = ''tool''"
definition is_assistant :: "message \<Rightarrow> bool" where "is_assistant m \<longleftrightarrow> role m = ''assistant''"

record file_info =
  file_name :: string
  file_path :: string
  mime_type :: string
  size_bytes :: int

datatype agent_event =
    ToolCalled string string json
  | ToolAnswered string string string bool int
  | Chunk string
  | Artifact string file_info
  | Finished string string
  | Failed string

definition MAX_TOOL_ROUNDS :: nat where "MAX_TOOL_ROUNDS = 12"
definition AGENT_COMPRESS_THRESHOLD :: nat where "AGENT_COMPRESS_THRESHOLD = 18"
definition AGENT_COMPRESS_KEEP_TURNS :: nat where "AGENT_COMPRESS_KEEP_TURNS = 4"

subsection \<open>Compression\<close>

text \<open>The inner loop: back over the answers of a turn.\<close>

fun back_over_tools :: "message list \<Rightarrow> nat \<Rightarrow> nat" where
  "back_over_tools ms 0 = 0"
| "back_over_tools ms (Suc i) =
     (if 1 \<le> i \<and> is_tool (ms ! i) then back_over_tools ms i else Suc i)"

fun tail_start_loop :: "message list \<Rightarrow> nat \<Rightarrow> nat \<Rightarrow> nat" where
  "tail_start_loop ms 0 idx = idx"
| "tail_start_loop ms (Suc turns) idx =
     (if 1 < idx then
        (let j = back_over_tools ms idx in
         if 1 < j \<and> is_assistant (ms ! (j - 1)) then tail_start_loop ms turns (j - 1) else j)
      else idx)"

definition safe_tail_start :: "message list \<Rightarrow> nat \<Rightarrow> nat" where
  "safe_tail_start ms keep_turns = tail_start_loop ms keep_turns (length ms)"

text \<open>\<open>i\<close> is the position of the first message of the list.\<close>

function safe_cut_loop :: "nat \<Rightarrow> nat \<Rightarrow> message list \<Rightarrow> nat" where
  "safe_cut_loop last_safe i [] = last_safe"
| "safe_cut_loop last_safe i (m # ms) =
     (if is_assistant m then
        (let j = i + 1 + length (takeWhile is_tool ms) in safe_cut_loop j j (dropWhile is_tool ms))
      else safe_cut_loop last_safe (i + 1) ms)"
  by pat_completeness auto
termination
  by (relation "measure (\<lambda>(l, i, ms). length ms)") (auto simp: le_imp_less_Suc length_dropWhile_le)

definition safe_compress_cut :: "message list \<Rightarrow> nat" where
  "safe_compress_cut ms = safe_cut_loop 0 0 ms"

definition or_empty :: "string option \<Rightarrow> string" where
  "or_empty c = (case c of None \<Rightarrow> [] | Some s \<Rightarrow> s)"

definition repr_list :: "string list \<Rightarrow> string" where
  "repr_list xs = ''['' @ py_join '', '' (map py_repr xs) @ '']''"

definition upper_char :: "char \<Rightarrow> char" where
  "upper_char c = (let n = (of_char c :: nat) in
     if 97 \<le> n \<and> n \<le> 122 \<or> 224 \<le> n \<and> n \<le> 246 \<or> 248 \<le> n \<and> n \<le> 254 then char_of (n - 32) else c)"

definition history_of :: "message \<Rightarrow> string list" where
  "history_of m = (let r = map upper_char (role m) in
     if tool_calls m \<noteq> [] then [r @ '': called '' @ repr_list (map tc_name (tool_calls m))]
     else if or_empty (content m) \<noteq> [] then [r @ '': '' @ take 300 (or_empty (content m))]
     else [])"

definition text_message :: "string \<Rightarrow> string \<Rightarrow> message" where
  "text_message r c = \<lparr>role = r, content = Some c, tool_calls = [], tool_call_id = []\<rparr>"

definition newline :: string where "newline = [CHR 0x0A]"

definition compress_prompt :: string where
  "compress_prompt = ''Compress this AI agent conversation history into a dense technical summary. ''
     @ ''Preserve exactly: every file path read/edited/created, every function changed, ''
     @ ''every bug found and its fix, every decision and WHY, current state of the task. ''
     @ ''Omit: verbose tool output, repeated results, failed attempts that were fixed. ''
     @ ''Output ONLY the summary '' @ ''--'' @ '' no preamble, no headers.''"

definition compress_request :: "message list \<Rightarrow> message list" where
  "compress_request to_compress = [text_message ''system'' compress_prompt,
     text_message ''user'' (''Compress:'' @ newline @ newline
       @ take 15000 (py_join newline (concat (map history_of to_compress))))]"

definition summary_message :: "message \<Rightarrow> nat \<Rightarrow> string \<Rightarrow> message" where
  "summary_message origin n summary = text_message ''user''
     ((if or_empty (content origin) = [] then []
       else ''[Original task: '' @ take 400 (or_empty (content origin)) @ '']'' @ newline @ newline)
      @ ''[Compressed context: '' @ show_nat n @ '' earlier messages]'' @ newline @ summary)"

text \<open>\<open>complete\<close> asks the summarizer; every exception of it gives the conversation back as it was.\<close>

definition compress_working_messages ::
    "(message list \<Rightarrow> ('w, string) act) \<Rightarrow> message list \<Rightarrow> ('w, message list) act" where
  "compress_working_messages complete ws =
     (if length ws \<le> 2 then act_return ws else
      let tail_start = safe_tail_start ws AGENT_COMPRESS_KEEP_TURNS in
      if tail_start \<le> 1 then act_return ws else
      let compressible = drop 1 (take tail_start ws); tl_msgs = drop tail_start ws;
          n = safe_compress_cut compressible in
      if n = 0 then act_return ws else
      act_catch
        (act_bind (complete (compress_request (take n compressible))) (\<lambda>reply.
          let summary = py_strip reply in
          if summary = [] then act_return ws
          else
            let result = dropWhile (\<lambda>m. role m \<noteq> ''user'')
                  (summary_message (hd ws) n summary # drop n compressible @ tl_msgs)
            in act_return (if result = [] then ws else result)))
        (\<lambda>_. act_return ws))"

subsection \<open>Artifacts\<close>

text \<open>\<open>rglob\<close> lists the files of the workspace (up to an \<open>OSError\<close>); \<open>known_files\<close> grows by each new one.\<close>

fun detect_artifacts :: "file_info list \<Rightarrow> string list \<Rightarrow> file_info list \<times> string list" where
  "detect_artifacts [] known = ([], known)"
| "detect_artifacts (f # fs) known =
     (if file_name f \<in> set known then detect_artifacts fs known
      else case detect_artifacts fs (file_name f # known) of (as, known') \<Rightarrow> (f # as, known'))"

subsection \<open>The loop\<close>

record 'w agent_env =
  ag_tool_call :: "message list \<Rightarrow> ('w, message) act"
  ag_stream :: "message list \<Rightarrow> 'w \<Rightarrow> (string list \<times> exn option) \<times> 'w"
  ag_complete :: "message list \<Rightarrow> ('w, string) act"
  ag_execute :: "string \<Rightarrow> json \<Rightarrow> string \<Rightarrow> ('w, tool_result) act"
  ag_on_artifact :: "(file_info \<Rightarrow> ('w, string) act) option"
  ag_files :: "string \<Rightarrow> 'w \<Rightarrow> file_info list"
  ag_say :: "exn \<Rightarrow> string"

record 'w agent_state =
  ag_world :: 'w
  ag_events :: "agent_event list"

definition emit :: "agent_event \<Rightarrow> ('w agent_state, unit) act" where
  "emit e = act_modify (\<lambda>s. s\<lparr>ag_events := ag_events s @ [e]\<rparr>)"

fun emits :: "agent_event list \<Rightarrow> ('w agent_state, unit) act" where
  "emits [] = act_return ()"
| "emits (e # es) = act_then (emit e) (emits es)"

definition outside :: "('w, 'a) act \<Rightarrow> ('w agent_state, 'a) act" where
  "outside m = (\<lambda>s. case m (ag_world s) of (r, w) \<Rightarrow> (r, s\<lparr>ag_world := w\<rparr>))"

definition attempt :: "('s, 'a) act \<Rightarrow> ('s, exn + 'a) act" where
  "attempt m = (\<lambda>s. case m s of (r, s') \<Rightarrow> (Inr r, s'))"

text \<open>\<open>text_content[i:i+chunk_size]\<close>\<close>

function chunks_of :: "nat \<Rightarrow> string \<Rightarrow> string list" where
  "chunks_of n s = (if s = [] \<or> n = 0 then [] else take n s # chunks_of n (drop n s))"
  by pat_completeness auto
termination by (relation "measure (\<lambda>(n, s). length s)") auto

declare chunks_of.simps [simp del]

definition stream_final :: "'w agent_env \<Rightarrow> message list \<Rightarrow> ('w agent_state, unit) act" where
  "stream_final E ws = (\<lambda>s. case ag_stream E ws (ag_world s) of ((chunks, failure), w) \<Rightarrow>
     emits (map Chunk chunks @ (case failure of None \<Rightarrow> [] | Some e \<Rightarrow> [Failed (ag_say E e)])) (s\<lparr>ag_world := w\<rparr>))"

fun report_artifacts :: "'w agent_env \<Rightarrow> file_info list \<Rightarrow> ('w agent_state, unit) act" where
  "report_artifacts E [] = act_return ()"
| "report_artifacts E (af # afs) =
     act_bind (case ag_on_artifact E of
         None \<Rightarrow> act_return []
       | Some on_artifact \<Rightarrow> act_catch (outside (on_artifact af)) (\<lambda>_. act_return [])) (\<lambda>artifact_id.
     act_then (emit (Artifact artifact_id af)) (report_artifacts E afs))"

definition tool_message :: "string \<Rightarrow> string \<Rightarrow> message" where
  "tool_message call_id out = \<lparr>role = ''tool'', content = Some out, tool_calls = [], tool_call_id = call_id\<rparr>"

definition params_of :: "requested_call \<Rightarrow> json" where
  "params_of tc = (case loads (tc_arguments tc) of None \<Rightarrow> JObj [] | Some j \<Rightarrow> j)"

fun run_calls ::
    "'w agent_env \<Rightarrow> string \<Rightarrow> requested_call list \<Rightarrow> message list \<Rightarrow> string list
     \<Rightarrow> ('w agent_state, message list \<times> string list) act" where
  "run_calls E wd [] ws existing = act_return (ws, existing)"
| "run_calls E wd (tc # tcs) ws existing =
     act_then (emit (ToolCalled (tc_id tc) (tc_name tc) (params_of tc)))
     (act_bind (outside (ag_execute E (tc_name tc) (params_of tc) wd)) (\<lambda>result.
     act_then (emit (ToolAnswered (tc_id tc) (tc_name tc) (tool_text result) (success result) (duration_ms result)))
     (act_bind (act_get (\<lambda>s. ag_files E wd (ag_world s))) (\<lambda>fs.
     case detect_artifacts fs existing of (new_files, existing') \<Rightarrow>
       act_then (report_artifacts E new_files)
         (run_calls E wd tcs (ws @ [tool_message (tc_id tc) (tool_text result)]) existing')))))"

definition assistant_message :: "string \<Rightarrow> requested_call list \<Rightarrow> message" where
  "assistant_message txt tcs = \<lparr>role = ''assistant'', content = (if txt = [] then None else Some txt),
     tool_calls = tcs, tool_call_id = []\<rparr>"

definition reply_text :: "message \<Rightarrow> string" where
  "reply_text msg = py_strip (or_empty (content msg))"

definition direct_answer :: "'w agent_env \<Rightarrow> message list \<Rightarrow> message \<Rightarrow> ('w agent_state, unit) act" where
  "direct_answer E ws msg = (if reply_text msg \<noteq> [] then emits (map Chunk (chunks_of 4 (reply_text msg)))
     else stream_final E ws)"

text \<open>\<open>n\<close> rounds are left; with none left the answer is streamed without tools.\<close>

fun agent_rounds ::
    "'w agent_env \<Rightarrow> string \<Rightarrow> agent_event \<Rightarrow> nat \<Rightarrow> message list \<Rightarrow> string list \<Rightarrow> ('w agent_state, unit) act" where
  "agent_rounds E wd last_event 0 ws existing = act_then (stream_final E ws) (emit last_event)"
| "agent_rounds E wd last_event (Suc n) ws existing =
     act_bind (if AGENT_COMPRESS_THRESHOLD < length ws
        then outside (compress_working_messages (ag_complete E) ws) else act_return ws) (\<lambda>ws.
     act_bind (attempt (outside (ag_tool_call E ws))) (\<lambda>r. case r of
       Inl e \<Rightarrow> emit (Failed (ag_say E e))
     | Inr msg \<Rightarrow>
         if tool_calls msg = [] then act_then (direct_answer E ws msg) (emit last_event)
         else act_bind (run_calls E wd (tool_calls msg) (ws @ [assistant_message (reply_text msg) (tool_calls msg)]) existing)
           (\<lambda>(ws', existing'). agent_rounds E wd last_event n ws' existing')))"

definition agent_run ::
    "'w agent_env \<Rightarrow> message list \<Rightarrow> string \<Rightarrow> string \<Rightarrow> string \<Rightarrow> ('w agent_state, unit) act" where
  "agent_run E messages wd intent_id agent_id =
     act_bind (act_get (\<lambda>s. ag_files E wd (ag_world s))) (\<lambda>fs.
       agent_rounds E wd (Finished intent_id agent_id) MAX_TOOL_ROUNDS messages (snd (detect_artifacts fs [])))"

subsection \<open>Conversations\<close>

text \<open>
  What the chat protocol demands: the calls of an assistant message are answered one by one, in order, before
  anything else, and an answer stands nowhere else. \<open>pending\<close> are the calls that wait for an answer.
\<close>

fun conversation :: "string list \<Rightarrow> message list \<Rightarrow> bool" where
  "conversation pending [] = (pending = [])"
| "conversation pending (m # ms) = (case pending of
     [] \<Rightarrow> \<not> is_tool m \<and> conversation (if is_assistant m then map tc_id (tool_calls m) else []) ms
   | c # cs \<Rightarrow> is_tool m \<and> tool_call_id m = c \<and> conversation cs ms)"

lemma conversation_append: "conversation p xs \<Longrightarrow> conversation [] ys \<Longrightarrow> conversation p (xs @ ys)"
  by (induction xs arbitrary: p) (auto split: list.splits)

text \<open>A place where a conversation may be cut.\<close>

definition boundary :: "message list \<Rightarrow> nat \<Rightarrow> bool" where
  "boundary ms i \<longleftrightarrow> i \<le> length ms \<and> (i < length ms \<longrightarrow> \<not> is_tool (ms ! i))"

lemma conversation_cut:
  "conversation p ms \<Longrightarrow> boundary ms i \<Longrightarrow> conversation p (take i ms) \<and> conversation [] (drop i ms)"
proof (induction ms arbitrary: p i)
  case Nil
  then show ?case by simp
next
  case (Cons m ms)
  show ?case
  proof (cases i)
    case 0
    with Cons.prems show ?thesis by (auto simp: boundary_def split: list.splits)
  next
    case (Suc j)
    with Cons.prems(2) have b: "boundary ms j" by (simp add: boundary_def)
    from Cons.prems(1) Suc show ?thesis by (cases p) (auto dest: Cons.IH [OF _ b])
  qed
qed

lemma conversation_answers:
  "list_all is_tool ms \<Longrightarrow> map tool_call_id ms = p \<Longrightarrow> conversation p ms"
  by (induction ms arbitrary: p) auto

lemma before_an_answer:
  "conversation p ms \<Longrightarrow> Suc j < length ms \<Longrightarrow> is_tool (ms ! Suc j) \<Longrightarrow> is_tool (ms ! j) \<or> is_assistant (ms ! j)"
proof (induction ms arbitrary: p j)
  case Nil
  then show ?case by simp
next
  case (Cons m ms)
  show ?case
  proof (cases j)
    case 0
    with Cons.prems show ?thesis by (cases ms) (auto split: list.splits if_splits)
  next
    case (Suc i)
    with Cons.prems(2,3) have "Suc i < length ms" "is_tool (ms ! Suc i)" by simp_all
    note IH = Cons.IH [OF _ this]
    from Cons.prems(1) Suc show ?thesis by (cases p) (auto dest: IH)
  qed
qed

subsection \<open>Where the compression cuts\<close>

lemma back_over_tools_spec:
  "back_over_tools ms idx \<le> idx \<and> (\<forall>k. back_over_tools ms idx \<le> k \<and> k < idx \<longrightarrow> is_tool (ms ! k))
     \<and> (1 < back_over_tools ms idx \<longrightarrow> \<not> is_tool (ms ! (back_over_tools ms idx - 1)))"
  by (induction ms idx rule: back_over_tools.induct) (auto simp: less_Suc_eq)

lemma tail_start_boundary:
  "conversation p ms \<Longrightarrow> boundary ms idx \<Longrightarrow> tail_start_loop ms k idx \<le> 1 \<or> boundary ms (tail_start_loop ms k idx)"
proof (induction ms k idx rule: tail_start_loop.induct)
  case (1 ms idx)
  then show ?case by simp
next
  case (2 ms turns idx)
  let ?j = "back_over_tools ms idx"
  note j = back_over_tools_spec [of ms idx]
  show ?case
  proof (cases "1 < idx")
    case False
    then show ?thesis by simp
  next
    case True
    show ?thesis
    proof (cases "1 < ?j \<and> is_assistant (ms ! (?j - 1))")
      case turn: True
      have "boundary ms (?j - 1)" using turn j "2.prems" by (auto simp: boundary_def)
      from "2.IH" [OF True refl turn "2.prems"(1) this] show ?thesis using True turn by simp
    next
      case False
      have "?j \<le> 1 \<or> boundary ms ?j"
      proof (cases "?j < idx \<and> 1 < ?j")
        case inside_turn: True
        then obtain i where i: "?j = Suc i" by (cases ?j) auto
        have "is_tool (ms ! Suc i)" "Suc i < length ms"
          using i j inside_turn "2.prems" by (auto simp: boundary_def)
        then have "is_tool (ms ! i) \<or> is_assistant (ms ! i)" using before_an_answer [OF "2.prems"(1), of i] by blast
        with i j inside_turn False show ?thesis by auto
      next
        case False
        with j "2.prems" show ?thesis by (cases "?j = idx") auto
      qed
      moreover have "tail_start_loop ms (Suc turns) idx = ?j" using True False by (auto simp: Let_def)
      ultimately show ?thesis by (simp only:)
    qed
  qed
qed

lemma safe_cut_boundary:
  "r = safe_cut_loop l i ms \<Longrightarrow> i = length pre \<Longrightarrow> l = 0 \<or> boundary (pre @ ms) l \<Longrightarrow> r = 0 \<or> boundary (pre @ ms) r"
proof (induction l i ms arbitrary: pre rule: safe_cut_loop.induct)
  case (1 l i)
  then show ?case by simp
next
  case (2 l i m ms)
  show ?case
  proof (cases "is_assistant m")
    case True
    let ?ts = "takeWhile is_tool ms" and ?rest = "dropWhile is_tool ms"
    let ?j = "i + 1 + length ?ts"
    have split: "pre @ m # ms = (pre @ m # ?ts) @ ?rest" by simp
    have len: "?j = length (pre @ m # ?ts)" using 2 by simp
    have "boundary ((pre @ m # ?ts) @ ?rest) ?j"
      using len by (auto simp: boundary_def nth_append hd_dropWhile hd_conv_nth [symmetric] simp del: takeWhile_dropWhile_id)
    with "2.IH"(1) [OF True refl, of "pre @ m # ?ts"] len "2.prems"(1) True show ?thesis
      unfolding split by simp
  next
    case False
    with "2.IH"(2) [OF False, of "pre @ [m]"] "2.prems" show ?thesis by simp
  qed
qed

lemma compress_cut_boundary: "safe_compress_cut ms = 0 \<or> boundary ms (safe_compress_cut ms)"
  using safe_cut_boundary [of "safe_compress_cut ms" 0 0 ms "[]"] by (simp add: safe_compress_cut_def)

text \<open>What a compression returns: the conversation as it was, or a summary, what follows the last turn that was
  summarized, and the tail as it was.\<close>

definition compressed :: "message list \<Rightarrow> string \<Rightarrow> message list" where
  "compressed ws summary = (let t = safe_tail_start ws AGENT_COMPRESS_KEEP_TURNS;
     n = safe_compress_cut (drop 1 (take t ws)) in
     summary_message (hd ws) n summary # drop n (drop 1 (take t ws)) @ drop t ws)"

lemma summary_role [simp]: "role (summary_message m n t) = ''user''"
  by (simp add: summary_message_def text_message_def)

lemma compress_cases:
  assumes "compress_working_messages complete ws w = (r, w')"
  obtains (same) "r = Inr ws"
  | (shorter) summary where "r = Inr (compressed ws summary)" "2 < length ws"
      "1 < safe_tail_start ws AGENT_COMPRESS_KEEP_TURNS"
      "safe_compress_cut (drop 1 (take (safe_tail_start ws AGENT_COMPRESS_KEEP_TURNS) ws)) \<noteq> 0"
  using assms
  by (auto simp: compress_working_messages_def compressed_def Let_def act_simps not_le
      split: if_splits prod.splits sum.splits)

lemma compressed_conversation:
  assumes conv: "conversation [] ws" and t: "1 < safe_tail_start ws AGENT_COMPRESS_KEEP_TURNS"
    and n: "safe_compress_cut (drop 1 (take (safe_tail_start ws AGENT_COMPRESS_KEEP_TURNS) ws)) \<noteq> 0"
  shows "conversation [] (compressed ws summary)" and "length (compressed ws summary) < length ws"
proof -
  let ?t = "safe_tail_start ws AGENT_COMPRESS_KEEP_TURNS"
  let ?c = "drop 1 (take ?t ws)"
  let ?n = "safe_compress_cut ?c"
  have bt: "boundary ws ?t"
    using tail_start_boundary [OF conv, of "length ws" AGENT_COMPRESS_KEEP_TURNS] t
    by (auto simp: safe_tail_start_def boundary_def)
  have bn: "boundary ?c ?n" using compress_cut_boundary [of ?c] n by simp
  then have "boundary (take ?t ws) (Suc ?n)" using bt t by (auto simp: boundary_def)
  with conversation_cut [OF conv bt] have "conversation [] (drop (Suc ?n) (take ?t ws))" "conversation [] (drop ?t ws)"
    by (auto dest: conversation_cut)
  then have "conversation [] (drop ?n ?c @ drop ?t ws)" by (auto intro: conversation_append)
  then show "conversation [] (compressed ws summary)"
    by (simp add: compressed_def Let_def summary_message_def text_message_def is_tool_def is_assistant_def)
  show "length (compressed ws summary) < length ws"
    using bt bn n t by (auto simp: compressed_def Let_def boundary_def)
qed

subsection \<open>What a piece of the generator appends\<close>

text \<open>\<open>writes P m\<close>: from every state, \<open>m\<close> appends some events \<open>es\<close>, and \<open>P\<close> holds of its result and them.\<close>

definition writes :: "(exn + 'a \<Rightarrow> agent_event list \<Rightarrow> bool) \<Rightarrow> ('w agent_state, 'a) act \<Rightarrow> bool" where
  "writes P m \<longleftrightarrow> (\<forall>s. \<exists>es. ag_events (snd (m s)) = ag_events s @ es \<and> P (fst (m s)) es)"

lemma writesD: "writes P m \<Longrightarrow> m s = (r, s') \<Longrightarrow> \<exists>es. ag_events s' = ag_events s @ es \<and> P r es"
  unfolding writes_def by (metis fst_conv snd_conv)

lemma writesI: "(\<And>s r s'. m s = (r, s') \<Longrightarrow> \<exists>es. ag_events s' = ag_events s @ es \<and> P r es) \<Longrightarrow> writes P m"
  unfolding writes_def by (metis prod.collapse)

lemma writes_mono: "writes P m \<Longrightarrow> (\<And>r es. P r es \<Longrightarrow> Q r es) \<Longrightarrow> writes Q m"
  unfolding writes_def by blast

lemma writes_bind_dep:
  assumes m: "writes P m" and k: "\<And>x es. P (Inr x) es \<Longrightarrow> writes (Q x) (k x)"
    and raise: "\<And>e es. P (Inl e) es \<Longrightarrow> R (Inl e) es"
    and go: "\<And>x es r es'. P (Inr x) es \<Longrightarrow> Q x r es' \<Longrightarrow> R r (es @ es')"
  shows "writes R (act_bind m k)"
proof (rule writesI)
  fix s r s'
  assume run: "act_bind m k s = (r, s')"
  obtain r1 s1 where one: "m s = (r1, s1)" by (cases "m s")
  from writesD [OF m one] obtain es where es: "ag_events s1 = ag_events s @ es" "P r1 es" by blast
  show "\<exists>es. ag_events s' = ag_events s @ es \<and> R r es"
  proof (cases r1)
    case (Inl e)
    with run one es raise show ?thesis by (auto simp: act_bind_apply)
  next
    case (Inr x)
    with run one have "k x s1 = (r, s')" by (simp add: act_bind_apply)
    from writesD [OF k this] es(2) Inr obtain es' where "ag_events s' = ag_events s1 @ es'" "Q x r es'" by blast
    with es Inr go [of x es r es'] show ?thesis by auto
  qed
qed

lemma writes_bind:
  "writes P m \<Longrightarrow> (\<And>x. writes (Q x) (k x)) \<Longrightarrow> (\<And>e es. P (Inl e) es \<Longrightarrow> R (Inl e) es) \<Longrightarrow>
     (\<And>x es r es'. P (Inr x) es \<Longrightarrow> Q x r es' \<Longrightarrow> R r (es @ es')) \<Longrightarrow> writes R (act_bind m k)"
  by (rule writes_bind_dep)

lemma writes_then:
  "writes P m \<Longrightarrow> writes Q k \<Longrightarrow> (\<And>e es. P (Inl e) es \<Longrightarrow> R (Inl e) es) \<Longrightarrow>
     (\<And>x es r es'. P (Inr x) es \<Longrightarrow> Q r es' \<Longrightarrow> R r (es @ es')) \<Longrightarrow> writes R (act_then m k)"
  unfolding act_then_def by (rule writes_bind)

lemma writes_return: "writes (\<lambda>r es. r = Inr x \<and> es = []) (act_return x)"
  by (simp add: writes_def)

lemma writes_get: "writes (\<lambda>r es. \<not> isl r \<and> es = []) (act_get f)"
  by (simp add: writes_def)

lemma writes_emit: "writes (\<lambda>r es. r = Inr () \<and> es = [e]) (emit e)"
  by (simp add: writes_def emit_def)

lemma writes_emits: "writes (\<lambda>r es. r = Inr () \<and> es = evs) (emits evs)"
proof (induction evs)
  case Nil
  then show ?case by (simp add: writes_def)
next
  case (Cons e evs)
  show ?case unfolding emits.simps by (rule writes_then [OF writes_emit Cons]) auto
qed

lemma writes_outside: "writes (\<lambda>r es. es = [] \<and> (\<exists>w. r = fst (m w))) (outside m)"
proof -
  have "\<exists>w. fst (outside m s) = fst (m w)" for s
    by (rule exI [of _ "ag_world s"]) (simp add: outside_def split: prod.split)
  moreover have "ag_events (snd (outside m s)) = ag_events s" for s by (simp add: outside_def split: prod.split)
  ultimately show ?thesis unfolding writes_def by auto
qed

lemma writes_attempt: "writes P m \<Longrightarrow> writes (\<lambda>r es. \<exists>r'. r = Inr r' \<and> P r' es) (attempt m)"
  by (rule writesI) (auto simp: attempt_def dest: writesD split: prod.splits)

lemma writes_catch_outside: "writes (\<lambda>r es. \<not> isl r \<and> es = []) (act_catch (outside m) (\<lambda>_. act_return x))"
  by (rule writesI) (auto simp: act_catch_apply outside_def split: prod.splits sum.splits)

subsection \<open>The stream of events\<close>

text \<open>Every call is followed by its answer, and there is no other answer.\<close>

fun answered :: "agent_event list \<Rightarrow> bool" where
  "answered [] = True"
| "answered (ToolCalled c t j # ToolAnswered c' t' out ok d # es) = (c' = c \<and> t' = t \<and> answered es)"
| "answered (ToolCalled c t j # es) = False"
| "answered (ToolAnswered c t out ok d # es) = False"
| "answered (e # es) = answered es"

lemma answered_append: "answered xs \<Longrightarrow> answered ys \<Longrightarrow> answered (xs @ ys)"
  by (induction xs rule: answered.induct) auto

lemma answered_plain [simp]:
  "answered (map Chunk cs)" "answered [Failed m]" "answered [Finished i a]"
  by (induction cs) simp_all

definition is_end :: "agent_event \<Rightarrow> bool" where
  "is_end e \<longleftrightarrow> (case e of Finished i a \<Rightarrow> True | _ \<Rightarrow> False)"

definition is_call :: "agent_event \<Rightarrow> bool" where
  "is_call e \<longleftrightarrow> (case e of ToolCalled c t j \<Rightarrow> True | _ \<Rightarrow> False)"

lemma event_kinds [simp]:
  "\<not> is_end (Chunk t)" "\<not> is_end (Failed t)" "is_end (Finished t u)" "\<not> is_end (ToolCalled t u j)"
  "\<not> is_end (ToolAnswered t u v b n)" "\<not> is_end (Artifact t f)"
  "\<not> is_call (Chunk t)" "\<not> is_call (Failed t)" "\<not> is_call (Finished t u)" "is_call (ToolCalled t u j)"
  "\<not> is_call (ToolAnswered t u v b n)" "\<not> is_call (Artifact t f)"
  by (simp_all add: is_end_def is_call_def)

text \<open>Events of a run that has not ended yet, with at most \<open>n\<close> calls.\<close>

definition settled :: "nat \<Rightarrow> agent_event list \<Rightarrow> bool" where
  "settled n es \<longleftrightarrow> answered es \<and> (\<forall>e \<in> set es. \<not> is_end e) \<and> length (filter is_call es) \<le> n"

lemma settled_chunks [simp]: "settled n (map Chunk cs)"
  by (simp add: settled_def)

lemma settled_append: "settled m xs \<Longrightarrow> settled n ys \<Longrightarrow> settled (m + n) (xs @ ys)"
  by (auto simp: settled_def answered_append)

lemma settled_mono: "settled m es \<Longrightarrow> m \<le> n \<Longrightarrow> settled n es"
  by (simp add: settled_def)

text \<open>A run that an exception of the tool executor has ended.\<close>

definition broken :: "'w agent_env \<Rightarrow> string \<Rightarrow> exn \<Rightarrow> nat \<Rightarrow> agent_event list \<Rightarrow> bool" where
  "broken E wd e n es \<longleftrightarrow> (\<exists>es0 c t j m. es = es0 @ [ToolCalled c t j] \<and> settled m es0 \<and> m < n
     \<and> (\<exists>w. fst (ag_execute E t j wd w) = Inl e))"

lemma broken_append: "settled m xs \<Longrightarrow> broken E wd e n ys \<Longrightarrow> broken E wd e (m + n) (xs @ ys)"
  unfolding broken_def by (metis append.assoc nat_add_left_cancel_less settled_append)

lemma broken_mono: "broken E wd e m es \<Longrightarrow> m \<le> n \<Longrightarrow> broken E wd e n es"
  unfolding broken_def by (elim exE conjE) (intro exI conjI; (assumption | erule (1) order_less_le_trans))

lemma writes_artifacts: "writes (\<lambda>r es. \<not> isl r \<and> settled 0 es) (report_artifacts E afs)"
proof (induction afs)
  case Nil
  then show ?case by (simp add: writes_def settled_def)
next
  case (Cons af afs)
  have name: "writes (\<lambda>r es. \<not> isl r \<and> es = []) (case ag_on_artifact E of None \<Rightarrow> act_return []
      | Some on_artifact \<Rightarrow> act_catch (outside (on_artifact af)) (\<lambda>_. act_return []))"
    by (cases "ag_on_artifact E") (simp_all add: writes_catch_outside, simp add: writes_def)
  have rest: "writes (\<lambda>r es. \<not> isl r \<and> settled 0 es) (act_then (emit (Artifact x af)) (report_artifacts E afs))" for x
    by (rule writes_then [OF writes_emit Cons]) (auto simp: settled_def)
  show ?case unfolding report_artifacts.simps by (rule writes_bind [OF name rest]) auto
qed

definition call_result :: "'w agent_env \<Rightarrow> string \<Rightarrow> nat \<Rightarrow> exn + 'a \<Rightarrow> agent_event list \<Rightarrow> bool" where
  "call_result E wd n r es = (case r of Inl e \<Rightarrow> broken E wd e n es | Inr x \<Rightarrow> settled n es)"

lemma call_result_append: "settled m xs \<Longrightarrow> call_result E wd n r ys \<Longrightarrow> call_result E wd (m + n) r (xs @ ys)"
  by (cases r) (simp_all add: call_result_def settled_append broken_append)

lemma call_result_Inl: "call_result E wd n (Inl e) es \<longleftrightarrow> broken E wd e n es"
  by (simp add: call_result_def)

lemma writes_calls: "writes (call_result E wd (length tcs)) (run_calls E wd tcs ws ex)"
proof (induction tcs arbitrary: ws ex)
  case Nil
  then show ?case by (simp add: writes_def call_result_def settled_def)
next
  case (Cons tc tcs)
  let ?call = "ToolCalled (tc_id tc) (tc_name tc) (params_of tc)"
  let ?n = "length (tc # tcs)"
  have tail: "writes (\<lambda>r es. call_result E wd (length tcs) r es)
     (case detect_artifacts fs ex of (new_files, existing') \<Rightarrow> act_then (report_artifacts E new_files)
         (run_calls E wd tcs (ws @ [m]) existing'))" for fs m
  proof -
    have "writes (call_result E wd (length tcs)) (act_then (report_artifacts E nf) (run_calls E wd tcs (ws @ [m]) ex'))" for nf ex'
      by (rule writes_then [OF writes_artifacts Cons]) (auto dest: call_result_append)
    then show ?thesis by (simp split: prod.split)
  qed
  have get: "writes (call_result E wd (length tcs)) (act_bind (act_get (\<lambda>s. ag_files E wd (ag_world s)))
      (\<lambda>fs. case detect_artifacts fs ex of (new_files, existing') \<Rightarrow> act_then (report_artifacts E new_files)
         (run_calls E wd tcs (ws @ [m]) existing')))" for m
    by (rule writes_bind [OF writes_get tail]) auto
  have answer: "writes (\<lambda>r es. \<exists>out ok d es'. es = ToolAnswered (tc_id tc) (tc_name tc) out ok d # es' \<and> call_result E wd (length tcs) r es')
      (act_then (emit (ToolAnswered (tc_id tc) (tc_name tc) out ok d)) (act_bind (act_get (\<lambda>s. ag_files E wd (ag_world s)))
      (\<lambda>fs. case detect_artifacts fs ex of (new_files, existing') \<Rightarrow> act_then (report_artifacts E new_files)
         (run_calls E wd tcs (ws @ [m]) existing'))))" for m out ok d
    by (rule writes_then [OF writes_emit get]) auto
  have exec: "writes (\<lambda>r es. call_result E wd ?n r (?call # es))
      (act_bind (outside (ag_execute E (tc_name tc) (params_of tc) wd)) (\<lambda>result.
       act_then (emit (ToolAnswered (tc_id tc) (tc_name tc) (tool_text result) (success result) (duration_ms result)))
       (act_bind (act_get (\<lambda>s. ag_files E wd (ag_world s))) (\<lambda>fs.
       case detect_artifacts fs ex of (new_files, existing') \<Rightarrow>
         act_then (report_artifacts E new_files)
           (run_calls E wd tcs (ws @ [tool_message (tc_id tc) (tool_text result)]) existing')))))"
  proof (rule writes_bind [OF writes_outside answer])
    fix e and es :: "agent_event list"
    assume "es = [] \<and> (\<exists>w. (Inl e :: exn + tool_result) = fst (ag_execute E (tc_name tc) (params_of tc) wd w))"
    then show "call_result E wd ?n (Inl e) (?call # es)"
      unfolding call_result_def broken_def sum.case
      by (intro exI [of _ "[]"] exI [of _ "tc_id tc"] exI [of _ "tc_name tc"] exI [of _ "params_of tc"] exI [of _ 0])
        (auto simp: settled_def intro: sym)
  next
    fix x :: tool_result and es es' :: "agent_event list" and r
    assume "es = [] \<and> (\<exists>w. Inr x = fst (ag_execute E (tc_name tc) (params_of tc) wd w))"
      and "\<exists>out ok d es''. es' = ToolAnswered (tc_id tc) (tc_name tc) out ok d # es'' \<and> call_result E wd (length tcs) r es''"
    then obtain out ok d es'' where e: "es = []" "es' = ToolAnswered (tc_id tc) (tc_name tc) out ok d # es''"
      and c: "call_result E wd (length tcs) r es''" by blast
    have one: "settled 1 [?call, ToolAnswered (tc_id tc) (tc_name tc) out ok d]" by (simp add: settled_def)
    show "call_result E wd ?n r (?call # es @ es')"
      using call_result_append [OF one c] by (simp add: e)
  qed
  show ?case unfolding run_calls.simps
    by (rule writes_then [OF writes_emit exec]) auto
qed

lemma calls_answered:
  "run_calls E wd tcs ws ex s = (Inr (ws', ex'), s') \<Longrightarrow>
     \<exists>as. ws' = ws @ as \<and> list_all is_tool as \<and> map tool_call_id as = map tc_id tcs"
proof (induction tcs arbitrary: ws ex s)
  case Nil
  then show ?case by simp
next
  case (Cons tc tcs)
  from Cons.prems obtain out ex1 s1 where
    "run_calls E wd tcs (ws @ [tool_message (tc_id tc) out]) ex1 s1 = (Inr (ws', ex'), s')"
    by (auto simp: act_simps split: prod.splits sum.splits)
  from Cons.IH [OF this] show ?case by (auto simp: tool_message_def is_tool_def)
qed

lemma writes_stream: "writes (\<lambda>r es. r = Inr () \<and> settled 0 es) (stream_final E ws)"
proof (rule writesI)
  fix s r s'
  assume run: "stream_final E ws s = (r, s')"
  obtain cs f w where st: "ag_stream E ws (ag_world s) = ((cs, f), w)" by (metis prod.collapse)
  let ?es = "map Chunk cs @ (case f of None \<Rightarrow> [] | Some e \<Rightarrow> [Failed (ag_say E e)])"
  have "settled 0 ?es"
    by (cases f) (auto simp: settled_def answered_append)
  moreover from run st have "emits ?es (s\<lparr>ag_world := w\<rparr>) = (r, s')" by (auto simp: stream_final_def fun_eq_iff split: prod.split option.split)
  from writesD [OF writes_emits this] have "ag_events s' = ag_events s @ ?es" "r = Inr ()" by simp_all
  ultimately show "\<exists>es. ag_events s' = ag_events s @ es \<and> r = Inr () \<and> settled 0 es" by blast
qed

text \<open>Replies with at most \<open>k\<close> calls.\<close>

definition replies_bounded :: "'w agent_env \<Rightarrow> nat \<Rightarrow> bool" where
  "replies_bounded E k \<longleftrightarrow> (\<forall>ws w m. fst (ag_tool_call E ws w) = Inr m \<longrightarrow> length (tool_calls m) \<le> k)"

text \<open>What a run has written: it ended with its last event, or with the error of a model call, or an exception of
  the tool executor left it.\<close>

definition ended :: "'w agent_env \<Rightarrow> agent_event \<Rightarrow> nat \<Rightarrow> agent_event list \<Rightarrow> bool" where
  "ended E last_event n es \<longleftrightarrow> (\<exists>es0 x. es = es0 @ [x] \<and> settled n es0
     \<and> (x = last_event \<or> (\<exists>e ws w. x = Failed (ag_say E e) \<and> fst (ag_tool_call E ws w) = Inl e)))"

definition run_result :: "'w agent_env \<Rightarrow> string \<Rightarrow> agent_event \<Rightarrow> nat \<Rightarrow> nat \<Rightarrow> exn + 'a \<Rightarrow> agent_event list \<Rightarrow> bool" where
  "run_result E wd last_event k n r es \<longleftrightarrow> (\<exists>m. (replies_bounded E k \<longrightarrow> m \<le> k * n)
     \<and> (case r of Inl e \<Rightarrow> broken E wd e m es | Inr x \<Rightarrow> ended E last_event m es))"

lemma ended_append: "settled m xs \<Longrightarrow> ended E l n ys \<Longrightarrow> ended E l (m + n) (xs @ ys)"
  unfolding ended_def by (metis append.assoc settled_append)

lemma ended_final: "settled n es \<Longrightarrow> run_result E wd l k 0 (Inr x) (es @ [l])" if "n = 0"
  unfolding run_result_def ended_def using that by auto

lemma run_result_mono: "run_result E wd l k m r es \<Longrightarrow> m \<le> n \<Longrightarrow> run_result E wd l k n r es"
  unfolding run_result_def by (meson mult_le_mono2 order_trans)

lemma run_result_append:
  assumes "settled j xs" "replies_bounded E k \<longrightarrow> j \<le> k" "run_result E wd l k n r ys"
  shows "run_result E wd l k (Suc n) r (xs @ ys)"
proof -
  from assms(3) obtain m where m: "replies_bounded E k \<longrightarrow> m \<le> k * n"
    "case r of Inl e \<Rightarrow> broken E wd e m ys | Inr x \<Rightarrow> ended E l m ys" unfolding run_result_def by blast
  have "case r of Inl e \<Rightarrow> broken E wd e (j + m) (xs @ ys) | Inr x \<Rightarrow> ended E l (j + m) (xs @ ys)"
    using m(2) broken_append [OF assms(1)] ended_append [OF assms(1)] by (simp split: sum.splits)
  moreover have "replies_bounded E k \<longrightarrow> j + m \<le> k * Suc n" using assms(2) m(1) by (auto intro: add_le_mono)
  ultimately show ?thesis unfolding run_result_def by blast
qed

lemma writes_rounds: "writes (run_result E wd l k n) (agent_rounds E wd l n ws ex)"
proof (induction n arbitrary: ws ex)
  case 0
  show ?case unfolding agent_rounds.simps
    by (rule writes_then [OF writes_stream writes_emit]) (auto intro: ended_final)
next
  case (Suc n)
  have comp: "writes (\<lambda>r es. \<not> isl r \<and> es = []) (if AGENT_COMPRESS_THRESHOLD < length ws
        then outside (compress_working_messages (ag_complete E) ws) else act_return ws)"
    by (rule writesI) (auto simp: outside_def split: if_splits prod.splits elim: compress_cases)
  have reply: "writes (run_result E wd l k (Suc n))
     (if tool_calls msg = [] then act_then (direct_answer E ws msg) (emit l)
      else act_bind (run_calls E wd (tool_calls msg) (ws @ [assistant_message (reply_text msg) (tool_calls msg)]) ex)
           (\<lambda>(ws', existing'). agent_rounds E wd l n ws' existing'))"
    if bound: "replies_bounded E k \<longrightarrow> length (tool_calls msg) \<le> k" for msg ws
  proof -
    have answer: "writes (\<lambda>r es. r = Inr () \<and> settled 0 es) (direct_answer E ws msg)"
      by (cases "reply_text msg \<noteq> []") (simp_all add: direct_answer_def writes_stream writes_mono [OF writes_emits])
    have direct: "writes (run_result E wd l k (Suc n)) (act_then (direct_answer E ws msg) (emit l))"
      by (rule writes_then [OF answer writes_emit]) (auto intro: run_result_mono [OF ended_final])
    have more: "writes (run_result E wd l k n) (case x of (ws', existing') \<Rightarrow> agent_rounds E wd l n ws' existing')" for x
      by (cases x) (simp add: Suc)
    have calls: "writes (run_result E wd l k (Suc n))
        (act_bind (run_calls E wd (tool_calls msg) ws1 ex) (\<lambda>(ws', existing'). agent_rounds E wd l n ws' existing'))" for ws1
    proof (rule writes_bind [OF writes_calls more])
      fix e and es :: "agent_event list"
      assume "call_result E wd (length (tool_calls msg)) (Inl e :: exn + message list \<times> string list) es"
      then show "run_result E wd l k (Suc n) (Inl e) es"
        unfolding run_result_def call_result_Inl using bound by (auto intro!: exI [of _ "length (tool_calls msg)"])
    next
      fix x :: "message list \<times> string list" and es es' :: "agent_event list" and r :: "exn + unit"
      assume "call_result E wd (length (tool_calls msg)) (Inr x) es" "run_result E wd l k n r es'"
      then show "run_result E wd l k (Suc n) r (es @ es')"
        using run_result_append [OF _ bound] by (simp add: call_result_def)
    qed
    show ?thesis using direct calls by simp
  qed
  show ?case unfolding agent_rounds.simps
  proof (rule writes_bind [OF comp, where Q = "\<lambda>_. run_result E wd l k (Suc n)"], goal_cases)
    case (1 ws)
    show ?case
    proof (rule writes_bind_dep [OF writes_attempt [OF writes_outside], where Q = "\<lambda>_. run_result E wd l k (Suc n)"], goal_cases)
      case (1 r es)
      then obtain w where r: "r = fst (ag_tool_call E ws w)" by blast
      show ?case
      proof (cases r)
        case (Inl e)
        have "ended E l 0 [Failed (ag_say E e)]"
          unfolding ended_def using r Inl
          by (intro exI [of _ "[]"] exI [of _ "Failed (ag_say E e)"]) (auto simp: settled_def intro: sym)
        then have "run_result E wd l k (Suc n) (Inr ()) [Failed (ag_say E e)]" unfolding run_result_def by auto
        with Inl show ?thesis by (simp add: writes_mono [OF writes_emit])
      next
        case (Inr msg)
        have "replies_bounded E k \<longrightarrow> length (tool_calls msg) \<le> k"
          using r Inr unfolding replies_bounded_def by metis
        from reply [OF this] Inr show ?thesis by simp
      qed
    qed auto
  qed auto
qed

subsection \<open>What the model is sent\<close>

text \<open>A model that refuses everything that is not a conversation.\<close>

definition malformed :: exn where "malformed = ExternalError ''BadRequestError''"

definition only_conversations :: "'w agent_env \<Rightarrow> 'w agent_env" where
  "only_conversations E = E\<lparr>
     ag_tool_call := (\<lambda>ws w. if conversation [] ws then ag_tool_call E ws w else (Inl malformed, w)),
     ag_stream := (\<lambda>ws w. if conversation [] ws then ag_stream E ws w else (([], Some malformed), w))\<rparr>"

lemma only_conversations_sel [simp]:
  "ag_complete (only_conversations E) = ag_complete E" "ag_execute (only_conversations E) = ag_execute E"
  "ag_on_artifact (only_conversations E) = ag_on_artifact E" "ag_files (only_conversations E) = ag_files E"
  "ag_say (only_conversations E) = ag_say E"
  "conversation [] ws \<Longrightarrow> ag_tool_call (only_conversations E) ws = ag_tool_call E ws"
  "conversation [] ws \<Longrightarrow> ag_stream (only_conversations E) ws = ag_stream E ws"
  by (simp_all add: only_conversations_def)

lemma stream_only: "conversation [] ws \<Longrightarrow> stream_final (only_conversations E) ws = stream_final E ws"
  by (auto simp: stream_final_def fun_eq_iff split: prod.split option.split)

lemma artifacts_only: "report_artifacts (only_conversations E) afs = report_artifacts E afs"
  by (induction afs) simp_all

lemma calls_only: "run_calls (only_conversations E) wd tcs ws ex = run_calls E wd tcs ws ex"
  by (induction tcs arbitrary: ws ex) (simp_all add: artifacts_only)

lemma act_bind_cong: "(\<And>x s'. m s = (Inr x, s') \<Longrightarrow> k x s' = k' x s') \<Longrightarrow> act_bind m k s = act_bind m k' s"
  by (simp add: act_bind_apply split: prod.split sum.split)

lemma compress_conversation:
  assumes "conversation [] ws" "compress_working_messages complete ws w = (Inr ws', w')"
  shows "conversation [] ws'"
  by (rule compress_cases [OF assms(2)]) (use assms(1) compressed_conversation(1) in auto)

lemma rounds_only:
  "conversation [] ws \<Longrightarrow> agent_rounds (only_conversations E) wd l n ws ex s = agent_rounds E wd l n ws ex s"
proof (induction n arbitrary: ws ex s)
  case 0
  then show ?case by (simp add: stream_only)
next
  case (Suc n)
  show ?case unfolding agent_rounds.simps only_conversations_sel
  proof (rule act_bind_cong, goal_cases)
    case (1 ws1 s1)
    then have ws1: "conversation [] ws1"
      using Suc.prems by (auto simp: outside_def split: if_splits prod.splits elim: compress_conversation [rotated])
    note same = only_conversations_sel(6) [OF ws1] stream_only [OF ws1] calls_only direct_answer_def
    show ?case unfolding same
    proof (rule act_bind_cong, goal_cases)
      case (1 r s2)
      show ?case
      proof (cases r)
        case (Inl e)
        then show ?thesis by simp
      next
        case (Inr msg)
        let ?a = "assistant_message (reply_text msg) (tool_calls msg)"
        have more: "act_bind (run_calls E wd (tool_calls msg) (ws1 @ [?a]) ex)
              (\<lambda>(ws', existing'). agent_rounds (only_conversations E) wd l n ws' existing') s2 =
            act_bind (run_calls E wd (tool_calls msg) (ws1 @ [?a]) ex)
              (\<lambda>(ws', existing'). agent_rounds E wd l n ws' existing') s2"
        proof (rule act_bind_cong)
          fix x s3
          assume run: "run_calls E wd (tool_calls msg) (ws1 @ [?a]) ex s2 = (Inr x, s3)"
          obtain ws' ex' where x: "x = (ws', ex')" by (cases x)
          from calls_answered [OF run [unfolded x]] obtain as where as: "ws' = (ws1 @ [?a]) @ as"
            "list_all is_tool as" "map tool_call_id as = map tc_id (tool_calls msg)" by blast
          have "conversation [] (?a # as)"
            using conversation_answers [OF as(2,3)] by (simp add: assistant_message_def is_tool_def is_assistant_def)
          then have "conversation [] ws'" using conversation_append [OF ws1] as(1) by simp
          from Suc.IH [OF this]
          show "(case x of (ws', existing') \<Rightarrow> agent_rounds (only_conversations E) wd l n ws' existing') s3 =
            (case x of (ws', existing') \<Rightarrow> agent_rounds E wd l n ws' existing') s3" by (simp add: x)
        qed
        show ?thesis
          by (cases "tool_calls msg = []") (simp_all only: Inr sum.case if_True if_False more simp_thms)
      qed
    qed
  qed
qed

subsection \<open>Properties\<close>

text \<open>A scripted model: the state is the list of the replies to come; the tools answer \<open>ok\<close>.\<close>

definition scripted :: "message list agent_env" where
  "scripted = \<lparr>
     ag_tool_call = (\<lambda>ws replies. case replies of [] \<Rightarrow> (Inl TimeoutExpired, []) | m # ms \<Rightarrow> (Inr m, ms)),
     ag_stream = (\<lambda>ws replies. (([''bye''], None), replies)),
     ag_complete = (\<lambda>ws. act_return ''summary''),
     ag_execute = (\<lambda>t j wd. act_return \<lparr>tool_text = ''ok'', success = True, duration_ms = 1\<rparr>),
     ag_on_artifact = None, ag_files = (\<lambda>wd replies. []), ag_say = (\<lambda>e. ''failed'')\<rparr>"

definition calling :: "string list \<Rightarrow> message" where
  "calling ids = \<lparr>role = ''assistant'', content = None,
     tool_calls = map (\<lambda>c. \<lparr>tc_id = c, tc_name = ''bash'', tc_arguments = ''{}''\<rparr>) ids, tool_call_id = []\<rparr>"

definition scripted_state :: "message list agent_state" where
  "scripted_state = \<lparr>ag_world = [calling [''a'', ''b''], text_message ''assistant'' ''finished''], ag_events = []\<rparr>"

text \<open>C15: Every request of a run is a conversation the chat protocol accepts: if the run starts with one, then a
  model that refuses all others makes no difference, in whatever rounds, with whatever replies, tools and
  compressions in between. So no call is ever left without its answer and no answer is separated from its call.\<close>

theorem requests_are_conversations:
  assumes "conversation [] messages"
  shows "agent_run (only_conversations E) messages wd intent_id agent_id s = agent_run E messages wd intent_id agent_id s"
  by (simp add: agent_run_def act_bind_apply rounds_only [OF assms])

theorem requests_are_conversations_witness:
  "ag_events (snd (agent_run (only_conversations scripted) [text_message ''user'' ''do it''] ''/w'' ''i'' [] scripted_state)) =
     [ToolCalled ''a'' ''bash'' (JObj []), ToolAnswered ''a'' ''bash'' ''ok'' True 1,
      ToolCalled ''b'' ''bash'' (JObj []), ToolAnswered ''b'' ''bash'' ''ok'' True 1,
      Chunk ''fini'', Chunk ''shed'', Finished ''i'' []]"
proof -
  have conv: "conversation [] [text_message ''user'' ''do it'']" by code_simp
  show ?thesis unfolding requests_are_conversations [OF conv] by code_simp
qed

text \<open>The shape of every event stream. A run that returns has written answered calls and then one last event: that
  it is finished, or the error of a model call; nothing follows. A run leaves by an exception only if the tool executor
  raised it, and then the stream stops at the call in question, without an error event and without an end.\<close>

theorem event_stream_shape:
  "\<exists>es. ag_events (snd (agent_run E messages wd intent_id agent_id s)) = ag_events s @ es
    \<and> (case fst (agent_run E messages wd intent_id agent_id s) of
        Inr u \<Rightarrow> \<exists>es0 x. es = es0 @ [x] \<and> answered es0 \<and> list_all (\<lambda>e. \<not> is_end e) es0
          \<and> (x = Finished intent_id agent_id
             \<or> (\<exists>e ws w. x = Failed (ag_say E e) \<and> fst (ag_tool_call E ws w) = Inl e))
      | Inl e \<Rightarrow> \<exists>es0 c t j w. es = es0 @ [ToolCalled c t j] \<and> answered es0 \<and> list_all (\<lambda>e. \<not> is_end e) es0
          \<and> fst (ag_execute E t j wd w) = Inl e)"
proof -
  let ?ex = "snd (detect_artifacts (ag_files E wd (ag_world s)) [])"
  have run: "agent_run E messages wd intent_id agent_id s =
      agent_rounds E wd (Finished intent_id agent_id) MAX_TOOL_ROUNDS messages ?ex s"
    by (simp add: agent_run_def act_bind_apply)
  obtain r s' where rs: "agent_run E messages wd intent_id agent_id s = (r, s')" by (metis prod.collapse)
  from writesD [OF writes_rounds rs [unfolded run], of 0] obtain es m where es: "ag_events s' = ag_events s @ es"
    and "case r of Inl e \<Rightarrow> broken E wd e m es | Inr x \<Rightarrow> ended E (Finished intent_id agent_id) m es"
    unfolding run_result_def by blast
  then show ?thesis
    unfolding rs by (intro exI [of _ es]) (auto simp: ended_def broken_def settled_def list_all_iff split: sum.splits; blast)
qed

text \<open>A run does a bounded amount of work: with at most \<open>k\<close> calls in each reply of the model it makes at most
  \<open>12 * k\<close> tool calls, and it ends for all replies (\<open>agent_run\<close> is total).\<close>

theorem tool_calls_bounded:
  assumes "replies_bounded E k"
  shows "length (filter is_call (ag_events (snd (agent_run E messages wd intent_id agent_id s))))
    \<le> length (filter is_call (ag_events s)) + 12 * k"
proof -
  let ?ex = "snd (detect_artifacts (ag_files E wd (ag_world s)) [])"
  have run: "agent_run E messages wd intent_id agent_id s =
      agent_rounds E wd (Finished intent_id agent_id) MAX_TOOL_ROUNDS messages ?ex s"
    by (simp add: agent_run_def act_bind_apply)
  obtain r s' where rs: "agent_run E messages wd intent_id agent_id s = (r, s')" by (metis prod.collapse)
  from writesD [OF writes_rounds rs [unfolded run], of k] obtain es m where es: "ag_events s' = ag_events s @ es"
    and m: "m \<le> k * 12" "case r of Inl e \<Rightarrow> broken E wd e m es | Inr x \<Rightarrow> ended E (Finished intent_id agent_id) m es"
    using assms unfolding run_result_def MAX_TOOL_ROUNDS_def by blast
  have "length (filter is_call es) \<le> m"
    using m(2) by (auto simp: ended_def broken_def settled_def split: sum.splits)
  with m(1) show ?thesis unfolding rs by (simp add: es)
qed

theorem tool_calls_bounded_witness:
  "length (filter is_call (ag_events (snd (agent_run (scripted\<lparr>ag_tool_call := \<lambda>ws. act_return (calling [''a''])\<rparr>)
     [text_message ''user'' ''loop''] ''/w'' ''i'' [] scripted_state)))) \<le> 12"
proof -
  let ?E = "scripted\<lparr>ag_tool_call := \<lambda>ws. act_return (calling [''a''])\<rparr>"
  have "replies_bounded ?E 1" by (simp add: replies_bounded_def calling_def)
  from tool_calls_bounded [OF this, of "[text_message ''user'' ''loop'']" "''/w''" "''i''" "[]" scripted_state]
  show ?thesis by (simp add: scripted_state_def)
qed

text \<open>Compressing a conversation gives a conversation again, whatever the summarizer does: the same one, or a
  strictly shorter one that ends with the last turns exactly as they were.\<close>

theorem compression_sound:
  assumes "conversation [] ws"
  shows "\<exists>ws'. fst (compress_working_messages complete ws w) = Inr ws' \<and> conversation [] ws'
    \<and> (ws' = ws \<or> length ws' < length ws \<and> suffix (drop (safe_tail_start ws 4) ws) ws')"
proof -
  obtain r w' where run: "compress_working_messages complete ws w = (r, w')" by (metis prod.collapse)
  show ?thesis unfolding run fst_conv
  proof (rule compress_cases [OF run], goal_cases)
    case 1
    with assms show ?case by blast
  next
    case (2 summary)
    have "suffix (drop (safe_tail_start ws 4) ws) (compressed ws summary)"
      by (simp add: compressed_def Let_def AGENT_COMPRESS_KEEP_TURNS_def suffix_def)
    with 2 compressed_conversation [OF assms 2(3,4)] show ?case by blast
  qed
qed

definition turns_of :: "nat \<Rightarrow> message list" where
  "turns_of n = concat (map (\<lambda>i. [calling [show_nat i], tool_message (show_nat i) ''ok'']) [0..<n])"

definition long_run :: "message list" where
  "long_run = [text_message ''user'' ''old question'', text_message ''assistant'' ''old answer'',
     text_message ''user'' ''the request''] @ turns_of 8"

theorem compression_sound_witness:
  "\<exists>ws'. fst (compress_working_messages (\<lambda>ms. act_return ''summary'') long_run ()) = Inr ws' \<and> conversation [] ws'"
proof -
  have "conversation [] long_run" by code_simp
  from compression_sound [OF this, of "\<lambda>ms. act_return ''summary''" "()"] show ?thesis by blast
qed

text \<open>The anchor is the oldest message of the history, not the task at hand: in the ninth round after a
  question that has earlier history, the question itself is summarized away, while the first words of the oldest message
  stay. Nothing of the request is left but what the summarizer wrote.\<close>

theorem request_is_summarized_away:
  "case fst (compress_working_messages (\<lambda>ms. act_return ''summary'') long_run ()) of
     Inl e \<Rightarrow> False
   | Inr ws' \<Rightarrow> \<not> list_ex (\<lambda>m. content m = Some ''the request'') ws' \<and> length ws' = 9
       \<and> content (hd ws') = Some (''[Original task: old question]'' @ newline @ newline
            @ ''[Compressed context: 10 earlier messages]'' @ newline @ ''summary'')"
  by code_simp

end
