(* ===== verification/Anomaly_Verifier.thy ===== *)
theory Anomaly_Verifier
  imports Agent_Loop
begin

text \<open>
  The verifier of proposed fixes (\<open>anima/kernel/anomaly_verifier.py\<close>): the test suite of the repository runs in a
  disposable worktree on the commit of the anomaly and on the branch with the fix, and the two exit codes decide. The
  programs it starts and the directory listings are parameters; their output is decoded text. Dashes in messages are
  hyphens here.
\<close>

subsection \<open>Running a command\<close>

definition VERIFIABLE_ANOMALY_KINDS :: "string set" where
  "VERIFIABLE_ANOMALY_KINDS = {''service_failed'', ''service_error''}"

definition TEST_RUN_TIMEOUT_S :: int where "TEST_RUN_TIMEOUT_S = 180"
definition VERIFIER_OUTPUT_LIMIT :: nat where "VERIFIER_OUTPUT_LIMIT = 20000"
definition GIT_TIMEOUT_S :: int where "GIT_TIMEOUT_S = 30"
definition PYTEST_CHECK_TIMEOUT_S :: int where "PYTEST_CHECK_TIMEOUT_S = 15"

record VerificationResult =
  resolved :: "bool option"
  verdict_method :: string
  evidence :: string

text \<open>What becomes of a started program: the interpreter is missing, the time limit passes, or it exits.\<close>

datatype command_end = NotStarted string | RanOut | Exited int string

type_synonym environ = "string \<Rightarrow> string option"

record 'w verifier_env =
  v_exec :: "string list \<Rightarrow> string \<Rightarrow> environ \<Rightarrow> int \<Rightarrow> ('w, command_end) act"
  v_environ :: environ
  v_cwd :: string
  v_is_file :: "string \<Rightarrow> 'w \<Rightarrow> bool"
  v_is_dir :: "string \<Rightarrow> 'w \<Rightarrow> bool"
  v_names :: "string \<Rightarrow> 'w \<Rightarrow> string list"

definition tail_of :: "nat \<Rightarrow> string \<Rightarrow> string" where
  "tail_of n s = drop (length s - n) s"

definition limit_tail :: "string \<Rightarrow> string" where
  "limit_tail out = (if length out > VERIFIER_OUTPUT_LIMIT
     then ''...(truncated)...'' @ newline @ tail_of VERIFIER_OUTPUT_LIMIT out else out)"

definition run_command ::
    "'w verifier_env \<Rightarrow> string list \<Rightarrow> string \<Rightarrow> environ \<Rightarrow> int \<Rightarrow> ('w, int \<times> string) act" where
  "run_command E argv cwd env timeout = act_bind (v_exec E argv cwd env timeout) (\<lambda>r. act_return (case r of
       NotStarted exc \<Rightarrow> (-1, ''could not execute '' @ repr_list argv @ '': '' @ exc)
     | RanOut \<Rightarrow> (-1, py_join '' '' argv @ '' timed out after '' @ show_int timeout @ ''s'')
     | Exited c out \<Rightarrow> (c, limit_tail out)))"

definition git_checkout :: "'w verifier_env \<Rightarrow> string \<Rightarrow> string \<Rightarrow> ('w, bool \<times> string) act" where
  "git_checkout E ref worktree = act_bind
     (run_command E [''git'', ''checkout'', ''-q'', ref] worktree (v_environ E) GIT_TIMEOUT_S)
     (\<lambda>(code, output). act_return (if code \<noteq> 0
        then (False, ''git checkout '' @ ref @ '' failed (exit '' @ show_int code @ ''):'' @ newline @ output)
        else (True, [])))"

subsection \<open>Discovery\<close>

definition discover_python_interpreter :: "'w verifier_env \<Rightarrow> string \<Rightarrow> 'w \<Rightarrow> string" where
  "discover_python_interpreter E repo_path w =
     (if v_is_file E (path_div repo_path ''venv/bin/python3'') w then path_div repo_path ''venv/bin/python3''
      else if v_is_file E (path_div repo_path ''.venv/bin/python3'') w then path_div repo_path ''.venv/bin/python3''
      else ''python3'')"

definition ends_with :: "string \<Rightarrow> string \<Rightarrow> bool" where
  "ends_with s e \<longleftrightarrow> startswith (rev s) (rev e)"

definition is_test_file :: "string \<Rightarrow> bool" where
  "is_test_file name \<longleftrightarrow> (startswith name ''test_'' \<and> ends_with (drop 5 name) ''.py'') \<or> ends_with name ''_test.py''"

fun discover_in :: "'w verifier_env \<Rightarrow> string \<Rightarrow> string \<Rightarrow> 'w \<Rightarrow> string list \<Rightarrow> string list option" where
  "discover_in E worktree interpreter w [] = None"
| "discover_in E worktree interpreter w (d # ds) =
     (if v_is_dir E (path_div worktree d) w \<and> list_ex is_test_file (v_names E (path_div worktree d) w)
      then Some [interpreter, ''-m'', ''pytest'', d @ ''/'', ''-x'', ''-q'']
      else discover_in E worktree interpreter w ds)"

definition discover_test_command :: "'w verifier_env \<Rightarrow> string \<Rightarrow> string \<Rightarrow> 'w \<Rightarrow> string list option" where
  "discover_test_command E worktree interpreter w = discover_in E worktree interpreter w [''tests'', ''test'']"

definition build_env :: "'w verifier_env \<Rightarrow> string \<Rightarrow> environ" where
  "build_env E worktree = (v_environ E)(''PYTHONPATH'' \<mapsto>
     (case v_environ E ''PYTHONPATH'' of
        None \<Rightarrow> worktree | Some old \<Rightarrow> if old = [] then worktree else worktree @ '':'' @ old))"

definition pytest_available :: "'w verifier_env \<Rightarrow> string \<Rightarrow> environ \<Rightarrow> ('w, bool) act" where
  "pytest_available E interpreter env = act_bind
     (run_command E [interpreter, ''-c'', ''import pytest''] (v_cwd E) env PYTEST_CHECK_TIMEOUT_S)
     (\<lambda>(code, output). act_return (code = 0))"

subsection \<open>The verdict\<close>

definition verdict :: "bool option \<Rightarrow> string \<Rightarrow> string \<Rightarrow> VerificationResult" where
  "verdict r how why = \<lparr>resolved = r, verdict_method = how, evidence = why\<rparr>"

definition tail_section :: "string \<Rightarrow> string \<Rightarrow> string \<Rightarrow> string" where
  "tail_section phase ref out = ''--- '' @ phase @ '' ('' @ ref @ '') tail ---'' @ newline @ tail_of 2000 out"

definition compare_runs :: "string \<Rightarrow> string \<Rightarrow> string \<Rightarrow> int \<Rightarrow> string \<Rightarrow> int \<Rightarrow> string \<Rightarrow> VerificationResult" where
  "compare_runs how base_ref branch before before_out after_code after_out =
     (if before \<noteq> 0 \<and> after_code = 0 then verdict (Some True) how
        (''RESOLVED: '' @ base_ref @ '' failed (exit '' @ show_int before @ ''), '' @ branch @ '' passes (exit 0).'' @ newline
         @ tail_section ''pre-fix'' base_ref before_out @ newline @ tail_section ''post-fix'' branch after_out)
      else if before = 0 \<and> after_code \<noteq> 0 then verdict (Some False) how
        (''REGRESSION: '' @ base_ref @ '' passed, but '' @ branch @ '' BREAKS previously-passing tests (exit ''
         @ show_int after_code @ ''). DO NOT MERGE.'' @ newline @ tail_section ''post-fix'' branch after_out)
      else if before \<noteq> 0 \<and> after_code \<noteq> 0 then verdict (Some False) how
        (''NOT RESOLVED: '' @ base_ref @ '' failed (exit '' @ show_int before @ '') and '' @ branch @ '' still fails (exit ''
         @ show_int after_code @ '').'' @ newline @ tail_section ''post-fix'' branch after_out)
      else verdict None how
        (''INCONCLUSIVE: tests pass on both '' @ base_ref @ '' and '' @ branch
         @ '' (exit 0/0) - the fix may address an issue not covered by the test suite. A human must review ''
         @ branch @ '' manually.''))"

definition run_both ::
    "'w verifier_env \<Rightarrow> string \<Rightarrow> environ \<Rightarrow> string list \<Rightarrow> string \<Rightarrow> string \<Rightarrow> ('w, VerificationResult) act" where
  "run_both E worktree env test_cmd branch base_ref =
     (let how = ''pytest:'' @ py_join '' '' (drop 2 test_cmd) in
      act_bind (git_checkout E base_ref worktree) (\<lambda>(ok, err).
      if \<not> ok then act_return (verdict None ''git-checkout-failed'' err)
      else act_bind (run_command E test_cmd worktree env TEST_RUN_TIMEOUT_S) (\<lambda>(before, before_out).
      if before = -1 then act_return (verdict None (how @ '' (pre-fix run errored)'')
        (''pre-fix test run on '' @ base_ref @ '' could not complete:'' @ newline @ before_out))
      else act_bind (git_checkout E branch worktree) (\<lambda>(ok, err).
      if \<not> ok then act_return (verdict None ''git-checkout-failed'' err)
      else act_bind (run_command E test_cmd worktree env TEST_RUN_TIMEOUT_S) (\<lambda>(after_code, after_out).
      if after_code = -1 then act_return (verdict None (how @ '' (post-fix run errored)'')
        (''post-fix test run on '' @ branch @ '' could not complete:'' @ newline @ after_out))
      else act_return (compare_runs how base_ref branch before before_out after_code after_out))))))"

definition verify_fix ::
    "'w verifier_env \<Rightarrow> string \<Rightarrow> string \<Rightarrow> string \<Rightarrow> string \<Rightarrow> string \<Rightarrow> ('w, VerificationResult) act" where
  "verify_fix E kind affected_path worktree_path branch base_ref =
     (if kind \<notin> VERIFIABLE_ANOMALY_KINDS then act_raise PyValueError
      else let worktree = path_str worktree_path; env = build_env E worktree in
      act_bind (act_get (discover_python_interpreter E affected_path)) (\<lambda>interpreter.
      act_bind (act_get (discover_test_command E worktree interpreter)) (\<lambda>cmd. case cmd of
        None \<Rightarrow> act_return (verdict None ''none''
          (''no pytest suite discoverable under '' @ worktree
           @ '' (checked tests/ and test/ for test_*.py / *_test.py) - anima cannot independently verify this fix; a human must review ''
           @ branch @ '' manually''))
      | Some test_cmd \<Rightarrow> act_bind (pytest_available E interpreter env) (\<lambda>ok.
          if \<not> ok then act_return (verdict None ''pytest-unavailable''
            (''interpreter '' @ py_repr interpreter @ '' cannot import pytest - anima cannot independently run '' @ worktree
             @ [CHR 0x27] @ ''s test suite (pytest is not installed in this repo'' @ [CHR 0x27]
             @ ''s environment). A human must review '' @ branch @ '' manually.''))
          else run_both E worktree env test_cmd branch base_ref))))"

subsection \<open>What a verdict rests on\<close>

definition end_code :: "command_end \<Rightarrow> int" where
  "end_code r = (case r of Exited c out \<Rightarrow> c | _ \<Rightarrow> -1)"

text \<open>One run of the program \<open>argv\<close> in the worktree that takes the world from \<open>w\<close> to \<open>w'\<close>.\<close>

definition runs :: "'w verifier_env \<Rightarrow> string \<Rightarrow> environ \<Rightarrow> string list \<Rightarrow> int \<Rightarrow> int \<Rightarrow> 'w \<Rightarrow> 'w \<Rightarrow> bool" where
  "runs E worktree env argv timeout code w w' \<longleftrightarrow>
     (\<exists>r. v_exec E argv worktree env timeout w = (Inr r, w') \<and> end_code r = code)"

definition checks_out :: "'w verifier_env \<Rightarrow> string \<Rightarrow> string \<Rightarrow> 'w \<Rightarrow> 'w \<Rightarrow> bool" where
  "checks_out E worktree ref = runs E worktree (v_environ E) [''git'', ''checkout'', ''-q'', ref] GIT_TIMEOUT_S 0"

lemma run_command_Inr:
  assumes "run_command E argv cwd env timeout w = (Inr (c, out), w')"
  shows "runs E cwd env argv timeout c w w'"
  using assms unfolding run_command_def runs_def
  by (auto simp: act_bind_apply end_code_def split: prod.splits sum.splits command_end.splits)

lemma git_checkout_Inr:
  assumes "git_checkout E ref worktree w = (Inr (ok, err), w')"
  shows "ok \<longrightarrow> checks_out E worktree ref w w'"
proof
  assume ok
  with assms obtain out where "run_command E [''git'', ''checkout'', ''-q'', ref] worktree (v_environ E) GIT_TIMEOUT_S w = (Inr (0, out), w')"
    unfolding git_checkout_def by (auto elim!: act_bind_InrE split: if_splits)
  then show "checks_out E worktree ref w w'" unfolding checks_out_def by (rule run_command_Inr)
qed

lemma resolved_verdict [simp]: "resolved (verdict r how why) = r"
  by (simp add: verdict_def)

lemma resolved_compare: "resolved (compare_runs how base branch b bo a ao) =
    (if a \<noteq> 0 then Some False else if b \<noteq> 0 then Some True else None)"
  by (simp add: compare_runs_def)

lemma act_bind_pairE:
  assumes "act_bind m (\<lambda>(a, b). k a b) s = (Inr y, t)"
    and "\<And>a b s'. m s = (Inr (a, b), s') \<Longrightarrow> k a b s' = (Inr y, t) \<Longrightarrow> P"
  shows P
  using assms(1) by (rule act_bind_InrE) (auto intro: assms(2))

lemma decidedE:
  assumes "(if c then act_return (verdict None how why) else k) s = (Inr v, t)" "resolved v = Some ok"
    and "\<not> c \<Longrightarrow> k s = (Inr v, t) \<Longrightarrow> P"
  shows P
  using assms by (cases c) auto

lemma run_both_Some:
  assumes "run_both E worktree env cmd branch base w = (Inr v, w')" "resolved v = Some ok"
  shows "\<exists>b a w1 w2 w3. checks_out E worktree base w w1
    \<and> runs E worktree env cmd TEST_RUN_TIMEOUT_S b w1 w2 \<and> b \<noteq> -1
    \<and> checks_out E worktree branch w2 w3
    \<and> runs E worktree env cmd TEST_RUN_TIMEOUT_S a w3 w' \<and> a \<noteq> -1 \<and> ok = (a = 0) \<and> (b = 0 \<longrightarrow> a \<noteq> 0)"
proof -
  note pairE = act_bind_pairE [where P = ?thesis] and decidedE = decidedE [OF _ assms(2), where P = ?thesis]
  show ?thesis
  proof (rule pairE [OF assms(1) [unfolded run_both_def Let_def]], erule decidedE, erule pairE, erule decidedE,
      erule pairE, erule decidedE, erule pairE, erule decidedE, goal_cases)
    case (1 ok1 err1 w1 b bo w2 ok3 err3 w3 a ao w4)
    then have "v = compare_runs (''pytest:'' @ py_join '' '' (drop 2 cmd)) base branch b bo a ao" "w4 = w'" by simp_all
    then have "ok = (a = 0) \<and> (b = 0 \<longrightarrow> a \<noteq> 0)" using assms(2) by (auto simp: resolved_compare split: if_splits)
    with 1 show ?case by (metis git_checkout_Inr run_command_Inr \<open>w4 = w'\<close>)
  qed
qed

text \<open>A verdict is never a guess. Whatever git, the interpreter and the tests do: when \<open>verify_fix\<close> says that a
  fix resolves the anomaly, or that it does not, the test suite has run to its end in the worktree right after a checkout
  of the base commit and right after a checkout of the branch; \<open>True\<close> means that it failed before and passed after,
  \<open>False\<close> that it failed after.\<close>

theorem verdict_rests_on_two_runs:
  assumes "verify_fix E kind repo worktree branch base w = (Inr v, w')" "resolved v = Some ok"
  shows "kind \<in> VERIFIABLE_ANOMALY_KINDS \<and> (\<exists>cmd b a w0 w1 w2 w3. checks_out E (path_str worktree) base w0 w1
    \<and> runs E (path_str worktree) (build_env E (path_str worktree)) cmd TEST_RUN_TIMEOUT_S b w1 w2 \<and> b \<noteq> -1
    \<and> checks_out E (path_str worktree) branch w2 w3
    \<and> runs E (path_str worktree) (build_env E (path_str worktree)) cmd TEST_RUN_TIMEOUT_S a w3 w' \<and> a \<noteq> -1
    \<and> ok = (a = 0) \<and> (b = 0 \<longrightarrow> a \<noteq> 0))"
proof -
  have kind: "kind \<in> VERIFIABLE_ANOMALY_KINDS" using assms(1) by (auto simp: verify_fix_def split: if_splits)
  obtain cmd w0 where "run_both E (path_str worktree) (build_env E (path_str worktree)) cmd branch base w0 = (Inr v, w')"
    using assms kind unfolding verify_fix_def Let_def
    by (auto elim!: act_bind_InrE split: option.splits if_splits)
  from run_both_Some [OF this assms(2)] kind show ?thesis by blast
qed

subsection \<open>The verdict as a table\<close>

text \<open>What the verifier relies on when nothing goes wrong around it: a checkout succeeds and fixes the commit, the
  interpreter has pytest, and the exit code of the suite is a function of the commit.\<close>

definition suite_laws :: "'w verifier_env \<Rightarrow> string \<Rightarrow> string set \<Rightarrow> ('w \<Rightarrow> string) \<Rightarrow> (string \<Rightarrow> int) \<Rightarrow> bool" where
  "suite_laws E wt refs commit suite \<longleftrightarrow>
     (\<forall>ref \<in> refs. \<forall>w. \<exists>out w'. v_exec E [''git'', ''checkout'', ''-q'', ref] wt (v_environ E) GIT_TIMEOUT_S w
        = (Inr (Exited 0 out), w') \<and> commit w' = ref)
   \<and> (\<forall>i cwd env t w. \<exists>out w'. v_exec E [i, ''-c'', ''import pytest''] cwd env t w = (Inr (Exited 0 out), w'))
   \<and> (\<forall>i d env t w. \<exists>out w'. v_exec E [i, ''-m'', ''pytest'', d, ''-x'', ''-q''] wt env t w
        = (Inr (Exited (suite (commit w)) out), w'))"

definition verdict_table :: "int \<Rightarrow> int \<Rightarrow> bool option" where
  "verdict_table b a = (if b = -1 \<or> a = -1 then None
     else if a \<noteq> 0 then Some False else if b \<noteq> 0 then Some True else None)"

definition has_suite :: "'w verifier_env \<Rightarrow> string \<Rightarrow> 'w \<Rightarrow> bool" where
  "has_suite E wt w \<longleftrightarrow> list_ex (\<lambda>d. v_is_dir E (path_div wt d) w \<and> list_ex is_test_file (v_names E (path_div wt d) w)) [''tests'', ''test'']"

lemma discover_suite: "has_suite E wt w \<Longrightarrow> \<exists>d. discover_test_command E wt i w = Some [i, ''-m'', ''pytest'', d, ''-x'', ''-q'']"
  by (auto simp: has_suite_def discover_test_command_def)

lemma run_Exited: "v_exec E argv cwd env t w = (Inr (Exited c out), w') \<Longrightarrow>
    run_command E argv cwd env t w = (Inr (c, limit_tail out), w')"
  by (simp add: run_command_def act_bind_apply)

lemma checkout_Exited: "v_exec E [''git'', ''checkout'', ''-q'', ref] wt (v_environ E) GIT_TIMEOUT_S w = (Inr (Exited 0 out), w') \<Longrightarrow>
    git_checkout E ref wt w = (Inr (True, []), w')"
  by (simp add: git_checkout_def act_bind_apply run_Exited)

lemma run_both_table:
  assumes laws: "suite_laws E wt refs commit suite" and refs: "base \<in> refs" "branch \<in> refs"
  shows "\<exists>v w'. run_both E wt env [i, ''-m'', ''pytest'', d, ''-x'', ''-q''] branch base w = (Inr v, w')
    \<and> resolved v = verdict_table (suite base) (suite branch)"
proof -
  have checkout: "\<exists>w'. git_checkout E ref wt w = (Inr (True, []), w') \<and> commit w' = ref" if "ref \<in> refs" for ref w
    using laws that checkout_Exited unfolding suite_laws_def by meson
  have suite: "\<exists>out w'. run_command E [i, ''-m'', ''pytest'', d, ''-x'', ''-q''] wt env TEST_RUN_TIMEOUT_S w
      = (Inr (suite (commit w), out), w')" for w
    using laws run_Exited unfolding suite_laws_def by meson
  from checkout [OF refs(1)] obtain w1 where w1: "git_checkout E base wt w = (Inr (True, []), w1)" "commit w1 = base" by blast
  from suite [of w1] w1(2) obtain bo w2 where
    w2: "run_command E [i, ''-m'', ''pytest'', d, ''-x'', ''-q''] wt env TEST_RUN_TIMEOUT_S w1 = (Inr (suite base, bo), w2)" by auto
  from checkout [OF refs(2)] obtain w3 where w3: "git_checkout E branch wt w2 = (Inr (True, []), w3)" "commit w3 = branch" by blast
  from suite [of w3] w3(2) obtain ao w4 where
    w4: "run_command E [i, ''-m'', ''pytest'', d, ''-x'', ''-q''] wt env TEST_RUN_TIMEOUT_S w3 = (Inr (suite branch, ao), w4)" by auto
  show ?thesis
    by (cases "suite base = -1"; cases "suite branch = -1")
       (simp_all add: run_both_def Let_def act_bind_apply w1 w2 w3 w4 resolved_compare verdict_table_def)
qed

lemma verify_table:
  assumes "suite_laws E (path_str wt) refs commit suite" "base \<in> refs" "branch \<in> refs"
    and "kind \<in> VERIFIABLE_ANOMALY_KINDS" "\<And>w. has_suite E (path_str wt) w"
  shows "\<exists>v w'. verify_fix E kind repo wt branch base w = (Inr v, w') \<and> resolved v = verdict_table (suite base) (suite branch)"
proof -
  define i where "i = discover_python_interpreter E repo w"
  obtain d where d: "discover_test_command E (path_str wt) i w = Some [i, ''-m'', ''pytest'', d, ''-x'', ''-q'']"
    using discover_suite [OF assms(5) [of w], of i] by blast
  obtain out w1 where py: "v_exec E [i, ''-c'', ''import pytest''] (v_cwd E) (build_env E (path_str wt)) PYTEST_CHECK_TIMEOUT_S w
      = (Inr (Exited 0 out), w1)"
    using assms(1) unfolding suite_laws_def by meson
  obtain v w' where "run_both E (path_str wt) (build_env E (path_str wt)) [i, ''-m'', ''pytest'', d, ''-x'', ''-q''] branch base w1 = (Inr v, w')"
    "resolved v = verdict_table (suite base) (suite branch)"
    using run_both_table [OF assms(1-3)] by blast
  then show ?thesis
    using assms(4) by (simp add: verify_fix_def Let_def act_bind_apply i_def [symmetric] d pytest_available_def run_Exited [OF py])
qed


text \<open>The tests that judge a fix are those of the fix: a branch that leaves the source as it is and only changes the
  tests until they pass is reported as resolved. \<open>judge\<close> is the exit code of a suite on a source.\<close>

theorem fix_may_rewrite_tests:
  assumes "suite_laws E (path_str wt) refs commit (\<lambda>c. judge (source_of c) (tests_of c))" "base \<in> refs" "branch \<in> refs"
    and "kind \<in> VERIFIABLE_ANOMALY_KINDS" "\<And>w. has_suite E (path_str wt) w"
    and "source_of branch = source_of base" "judge (source_of base) (tests_of base) \<notin> {0, -1}"
    and "judge (source_of base) (tests_of branch) = 0"
  shows "\<exists>v w'. verify_fix E kind repo wt branch base w = (Inr v, w') \<and> resolved v = Some True"
  using verify_table [OF assms(1-5), of repo w] assms(6-8) by (auto simp: verdict_table_def)

text \<open>A repository whose world is the commit that is checked out.\<close>

definition small_repo :: "(string \<Rightarrow> int) \<Rightarrow> string verifier_env" where
  "small_repo suite = \<lparr>v_exec = (\<lambda>argv cwd env t w. case argv of
       [g, c, q, ref] \<Rightarrow> (Inr (Exited 0 []), ref)
     | [i, c, m] \<Rightarrow> (Inr (Exited 0 []), w)
     | _ \<Rightarrow> (Inr (Exited (suite w) ''.''), w)),
     v_environ = Map.empty, v_cwd = ''/'', v_is_file = (\<lambda>p w. False), v_is_dir = (\<lambda>p w. True),
     v_names = (\<lambda>d w. [''test_app.py''])\<rparr>"

lemma small_repo_laws: "suite_laws (small_repo suite) wt refs (\<lambda>w. w) suite"
  by (simp add: suite_laws_def small_repo_def)

lemma small_repo_suite: "has_suite (small_repo suite) wt w"
  by (simp add: has_suite_def small_repo_def is_test_file_def ends_with_def startswith_def)

definition broken_base :: "string \<Rightarrow> int" where
  "broken_base c = (if c = ''base'' then 1 else 0)"

lemma failed_verifiable: "''service_failed'' \<in> VERIFIABLE_ANOMALY_KINDS"
  by (simp add: VERIFIABLE_ANOMALY_KINDS_def)

lemma broken_base_table: "verdict_table (broken_base ''base'') (broken_base ''fix'') = Some True"
  by (simp add: verdict_table_def broken_base_def)


theorem verdict_rests_on_two_runs_witness:
  "\<exists>w0 w1. checks_out (small_repo broken_base) (path_str ''/wt'') ''base'' w0 w1"
proof -
  obtain v w' where "verify_fix (small_repo broken_base) ''service_failed'' ''/repo'' ''/wt'' ''fix'' ''base'' [] = (Inr v, w')"
    "resolved v = Some True"
    using verify_table [where E = "small_repo broken_base" and suite = broken_base and base = "''base''" and branch = "''fix''" and wt = "''/wt''"
      and repo = "''/repo''" and w = "[]", OF small_repo_laws UNIV_I UNIV_I failed_verifiable small_repo_suite]
    unfolding broken_base_table by blast
  from verdict_rests_on_two_runs [OF this] show ?thesis by blast
qed

text \<open>The branch \<open>fix\<close> has the source of the base commit and no failing test.\<close>

theorem fix_may_rewrite_tests_witness:
  "\<exists>v w'. verify_fix (small_repo broken_base) ''service_error'' ''/repo'' ''/wt'' ''fix'' ''base'' [] = (Inr v, w')
     \<and> resolved v = Some True"
proof -
  have judge: "(\<lambda>c. (\<lambda>src tests. if tests = ''assert app()'' then 1 else 0)
      ((\<lambda>c. ''def app(): return 0'') c) ((\<lambda>c. if c = ''base'' then ''assert app()'' else ''pass'') c)) = broken_base"
    by (auto simp: broken_base_def)
  have kind: "''service_error'' \<in> VERIFIABLE_ANOMALY_KINDS" by (simp add: VERIFIABLE_ANOMALY_KINDS_def)
  show ?thesis
    by (rule fix_may_rewrite_tests [where judge = "\<lambda>src tests. if tests = ''assert app()'' then 1 else 0"
          and source_of = "\<lambda>c. ''def app(): return 0''"
          and tests_of = "\<lambda>c. if c = ''base'' then ''assert app()'' else ''pass''" and commit = "\<lambda>w. w"
          and refs = UNIV, unfolded judge, OF small_repo_laws _ _ kind small_repo_suite]) simp_all
qed

end
