(* ===== verification/Autonomous_Scan.thy ===== *)
theory Autonomous_Scan
  imports Run_Registry Service_Operator Sandbox Kernel_DB Self_Reload
begin

text \<open>
  The scan of the server (\<open>anima/context/server_scanner.py\<close> over the Linux backend in \<open>anima/kernel/arch/linux.py\<close>)
  and the cycle that acts on it (\<open>_run_autonomous_scan\<close> and what it calls in \<open>anima/scheduler/proactive.py\<close>): the
  anomalies and their severities, the cooldown, the advance of the autonomy ladder by merged branches, and the
  choice of one anomaly per cycle. The commands \<open>systemctl\<close>, \<open>journalctl\<close> and \<open>df\<close> are a query of the host; the agent
  that is started is a parameter. Dashes and the relation sign in messages are ASCII here.
\<close>

subsection \<open>Reading the host\<close>

definition linux_log_tail :: "'w query \<Rightarrow> string \<Rightarrow> int \<Rightarrow> 'w \<Rightarrow> string" where
  "linux_log_tail ctl unit n w = (case ctl [''journalctl'', ''-u'', unit, ''-n'', show_int n, ''--no-pager'', ''-q'',
       ''--output=short-monotonic''] w of
     Inl e \<Rightarrow> [] | Inr r \<Rightarrow> if returncode r \<noteq> 0 then [] else py_strip (stdout r))"

definition linux_recent_errors :: "'w query \<Rightarrow> string \<Rightarrow> string \<Rightarrow> 'w \<Rightarrow> string" where
  "linux_recent_errors ctl unit since w = (case ctl [''journalctl'', ''-u'', unit, ''--since'', since, ''-p'', ''err'', ''-q'',
       ''--no-pager'', ''--output=short''] w of
     Inl e \<Rightarrow> [] | Inr r \<Rightarrow> if returncode r \<noteq> 0 then [] else py_strip (stdout r))"

definition linux_disk_percent :: "'w query \<Rightarrow> string \<Rightarrow> 'w \<Rightarrow> int option" where
  "linux_disk_percent ctl path w = (case ctl [''df'', path, ''--output=pcent''] w of
     Inl e \<Rightarrow> None
   | Inr r \<Rightarrow> if returncode r \<noteq> 0 then None
       else let ls = splitlines (py_strip (stdout r)) in
         if ls = [] then None
         else py_int_text (rev (dropWhile (\<lambda>c. c = CHR ''%'') (rev (py_strip (last ls))))))"

subsection \<open>Anomalies\<close>

record ServerAnomaly =
  an_kind :: string
  affected_path :: string
  an_service :: string
  an_detail :: string
  last_log :: string
  severity :: int

definition an_domain :: "ServerAnomaly \<Rightarrow> string" where
  "an_domain a = (if an_service a \<noteq> [] then an_kind a @ '':'' @ an_service a else an_kind a)"

definition service_to_repo :: "Settings \<Rightarrow> (string \<times> string) list" where
  "service_to_repo cfg = [(''exocortex'', ''/root/exocortex''), (''anima'', rawos_source_root cfg),
     (''sovereign'', ''/root/sovereign''), (''prometheus-nimgen'', ''/root/prometheus''),
     (''prometheus-status'', ''/root/prometheus''), (''knowforge-game-bot'', ''/root/brain''),
     (''knowforge-tele-bot'', ''/root/brain''), (''exocortex-bot'', ''/root/exocortex''), (''extensionn'', ''/root/neurovm''),
     (''research-foundry'', ''/root/liveproof-agent''), (''liveproof-agent'', ''/root/liveproof-agent'')]"

definition repo_of :: "Settings \<Rightarrow> string \<Rightarrow> string" where
  "repo_of cfg name = (case map_of (service_to_repo cfg) name of None \<Rightarrow> ''/root'' | Some r \<Rightarrow> r)"

definition last_chars :: "nat \<Rightarrow> string \<Rightarrow> string" where
  "last_chars n s = drop (length s - n) s"

definition remove_suffix :: "string \<Rightarrow> string \<Rightarrow> string" where
  "remove_suffix s suf = (if suf \<noteq> [] \<and> drop (length s - length suf) s = suf then take (length s - length suf) s else s)"

definition check_failed_services :: "Settings \<Rightarrow> 'w query \<Rightarrow> 'w \<Rightarrow> ServerAnomaly list" where
  "check_failed_services cfg ctl w = map (\<lambda>service.
     \<lparr>an_kind = ''service_failed'', affected_path = repo_of cfg (remove_suffix service ''.service''), an_service = service,
       an_detail = service @ '' is in FAILED state - needs immediate diagnosis'',
       last_log = last_chars 600 (linux_log_tail ctl service 8 w), severity = 8\<rparr>) (linux_list_failed ctl w)"

definition check_recent_errors :: "Settings \<Rightarrow> 'w query \<Rightarrow> 'w \<Rightarrow> ServerAnomaly list" where
  "check_recent_errors cfg ctl w = concat (map (\<lambda>name. let unit = name @ ''.service'';
       output = linux_recent_errors ctl unit ''15 minutes ago'' w in
     if output = [] then []
     else [\<lparr>an_kind = ''service_error'', affected_path = repo_of cfg name, an_service = unit,
        an_detail = ''Recent ERROR logs in '' @ unit @ '' (last 15 min)'', last_log = last_chars 800 output, severity = 6\<rparr>])
     (map fst (service_to_repo cfg)))"

definition disk_anomaly :: "string \<Rightarrow> string \<Rightarrow> int \<Rightarrow> ServerAnomaly" where
  "disk_anomaly kind msg sev = \<lparr>an_kind = kind, affected_path = ''/root'', an_service = [], an_detail = msg,
     last_log = [], severity = sev\<rparr>"

definition check_resources :: "'w query \<Rightarrow> 'w \<Rightarrow> ServerAnomaly list" where
  "check_resources ctl w = (case linux_disk_percent ctl ''/'' w of
     None \<Rightarrow> []
   | Some pct \<Rightarrow>
       if pct \<ge> 90 then [disk_anomaly ''disk_critical''
          (''Disk at '' @ show_int pct @ ''% - critical (>=90%). Immediate action required.'') 9]
       else if pct \<ge> 85 then [disk_anomaly ''disk_warning''
          (''Disk at '' @ show_int pct @ ''% - warning (>=85%). Review large files/logs.'') 6]
       else [])"

record ServerStateSnapshot =
  snap_ts :: int
  anomalies :: "ServerAnomaly list"

definition collect_server_state :: "Settings \<Rightarrow> 'w query \<Rightarrow> int \<Rightarrow> 'w \<Rightarrow> ServerStateSnapshot" where
  "collect_server_state cfg ctl now w = \<lparr>snap_ts = now,
     anomalies = check_failed_services cfg ctl w @ check_recent_errors cfg ctl w @ check_resources ctl w\<rparr>"

text \<open>\<open>sorted(\<dots>, key=severity, reverse=True)\<close> keeps the order of equal severities.\<close>

definition actionable :: "ServerStateSnapshot \<Rightarrow> ServerAnomaly list" where
  "actionable s = sort_key (\<lambda>a. - severity a) (anomalies s)"

definition max_severity :: "ServerStateSnapshot \<Rightarrow> int" where
  "max_severity s = (case anomalies s of [] \<Rightarrow> 0 | a # _ \<Rightarrow> severity a)"

subsection \<open>Cooldowns and the ladder\<close>

definition AUTONOMOUS_SCAN_THRESHOLD :: int where "AUTONOMOUS_SCAN_THRESHOLD = 6"
definition AUTONOMOUS_SCAN_COOLDOWN_S :: int where "AUTONOMOUS_SCAN_COOLDOWN_S = 1800"

record episode =
  ep_user :: string
  ep_trigger :: string
  ep_domain :: string
  ep_ts :: int

definition is_autonomous_cooldown :: "episode list \<Rightarrow> int \<Rightarrow> string \<Rightarrow> bool" where
  "is_autonomous_cooldown es now d \<longleftrightarrow> list_ex (\<lambda>e. ep_user e = RAWOS_ENTITY_USER_ID \<and> ep_trigger e = ''SERVER_SCAN''
     \<and> ep_domain e = d \<and> ep_ts e \<ge> now - AUTONOMOUS_SCAN_COOLDOWN_S) es"

text \<open>A row of \<open>rawos_commits\<close>. \<open>LIKE\<close> ignores the case of ASCII letters.\<close>

record commit_row =
  cr_user :: string
  cr_repo_root :: "string option"
  cr_anomaly_domain :: "string option"
  cr_branch :: string
  cr_hash :: string
  cr_created_at :: int

definition proposed :: "commit_row \<Rightarrow> bool" where
  "proposed r \<longleftrightarrow> cr_user r = RAWOS_ENTITY_USER_ID \<and> cr_repo_root r \<noteq> None \<and> cr_anomaly_domain r \<noteq> None
     \<and> startswith (py_lower (cr_branch r)) ''anima/fix-''"

definition same_class :: "commit_row \<Rightarrow> commit_row \<Rightarrow> bool" where
  "same_class r q \<longleftrightarrow> cr_repo_root r = cr_repo_root q \<and> cr_anomaly_domain r = cr_anomaly_domain q"

text \<open>The newest proposal of each class. SQL leaves open which of two rows of the same second comes first; here it is
  the first of the table.\<close>

fun newest_of :: "commit_row \<Rightarrow> commit_row list \<Rightarrow> commit_row" where
  "newest_of r [] = r"
| "newest_of r (q # qs) = newest_of (if cr_created_at q > cr_created_at r then q else r) qs"

function latest_proposals :: "commit_row list \<Rightarrow> commit_row list" where
  "latest_proposals [] = []"
| "latest_proposals (r # rs) = newest_of r (filter (same_class r) rs) # latest_proposals (filter (\<lambda>q. \<not> same_class r q) rs)"
  by pat_completeness auto
termination by (relation "measure length") (auto simp: le_imp_less_Suc)

definition merge_probe :: "'w run_shell \<Rightarrow> string \<Rightarrow> string \<Rightarrow> ('w, proc) act" where
  "merge_probe run cmd wd = act_bind (run cmd wd)
     (\<lambda>r. act_return \<lparr>returncode = exit_code r, stdout = bash_stdout r, stderr = bash_stderr r\<rparr>)"

definition advance_class ::
    "'w run_shell \<Rightarrow> ('w \<Rightarrow> string \<Rightarrow> bool) \<Rightarrow> (string \<times> string) set \<Rightarrow> int \<Rightarrow> commit_row
      \<Rightarrow> ('w kernel_state, unit) act" where
  "advance_class run is_dir present now r =
     (let repo = the (cr_repo_root r); dom = the (cr_anomaly_domain r) in
      act_bind (act_get (\<lambda>st. is_dir (world st) repo)) (\<lambda>there.
      if \<not> there then act_return ()
      else act_bind (on_world (is_branch_merged (merge_probe run) repo (cr_hash r))) (\<lambda>merged.
      if \<not> merged then act_return ()
      else act_modify (\<lambda>st. st\<lparr>db := (db st)\<lparr>autonomy_tracks :=
        snd (update_track_record (RAWOS_ENTITY_USER_ID, repo, dom)
          \<lparr>anomaly_present = ((repo, dom) \<in> present), branch_merged = True, fix_branch = Some (cr_branch r),
            fix_sha = Some (cr_hash r), cycle_now = now\<rparr> (autonomy_tracks (db st)))\<rparr>\<rparr>))))"

fun advance_classes ::
    "'w run_shell \<Rightarrow> ('w \<Rightarrow> string \<Rightarrow> bool) \<Rightarrow> (string \<times> string) set \<Rightarrow> int \<Rightarrow> commit_row list
      \<Rightarrow> ('w kernel_state, unit) act" where
  "advance_classes run is_dir present now [] = act_return ()"
| "advance_classes run is_dir present now (r # rs) =
     act_then (advance_class run is_dir present now r) (advance_classes run is_dir present now rs)"

definition present_classes :: "ServerStateSnapshot \<Rightarrow> (string \<times> string) set" where
  "present_classes s = set (map (\<lambda>a. (affected_path a, an_domain a))
     (filter (\<lambda>a. severity a \<ge> AUTONOMOUS_SCAN_THRESHOLD) (actionable s)))"

definition update_earned_autonomy ::
    "'w run_shell \<Rightarrow> ('w \<Rightarrow> string \<Rightarrow> bool) \<Rightarrow> commit_row list \<Rightarrow> int \<Rightarrow> ServerStateSnapshot \<Rightarrow> ('w kernel_state, unit) act" where
  "update_earned_autonomy run is_dir commits now s =
     advance_classes run is_dir (present_classes s) now (latest_proposals (filter proposed commits))"

subsection \<open>One cycle\<close>

text \<open>The loop over \<open>snapshot.actionable\<close>: it ends at the first anomaly below the threshold, passes over those on
  cooldown, and takes one.\<close>

fun choose_anomaly :: "(string \<Rightarrow> bool) \<Rightarrow> ServerAnomaly list \<Rightarrow> ServerAnomaly option" where
  "choose_anomaly cool [] = None"
| "choose_anomaly cool (a # as) =
     (if severity a < AUTONOMOUS_SCAN_THRESHOLD then None
      else if cool (an_domain a) then choose_anomaly cool as
      else Some a)"

definition scan_choice :: "(string \<Rightarrow> bool) \<Rightarrow> ServerStateSnapshot \<Rightarrow> ServerAnomaly option" where
  "scan_choice cool s = (if max_severity s < AUTONOMOUS_SCAN_THRESHOLD then None else choose_anomaly cool (actionable s))"

text \<open>\<open>collect\<close> is the collection in the executor under its time limit; \<open>run_agent\<close> is \<open>_run_proactive_agent\<close>.\<close>

definition run_autonomous_scan ::
    "('w \<Rightarrow> exn + ServerStateSnapshot) \<Rightarrow> 'w run_shell \<Rightarrow> ('w \<Rightarrow> string \<Rightarrow> bool) \<Rightarrow> commit_row list
      \<Rightarrow> ('w \<Rightarrow> episode list) \<Rightarrow> int \<Rightarrow> (ServerAnomaly \<Rightarrow> ('w kernel_state, unit) act) \<Rightarrow> ('w kernel_state, unit) act" where
  "run_autonomous_scan collect run is_dir commits episodes now run_agent =
     act_bind (act_get (\<lambda>st. collect (world st))) (\<lambda>res. case res of
       Inl e \<Rightarrow> act_return ()
     | Inr s \<Rightarrow>
         act_then (act_catch (update_earned_autonomy run is_dir commits now s) (\<lambda>e. act_return ()))
         (act_bind (act_get (\<lambda>st. episodes (world st))) (\<lambda>es.
           case scan_choice (is_autonomous_cooldown es now) s of
             None \<Rightarrow> act_return ()
           | Some a \<Rightarrow> run_agent a)))"

subsection \<open>What a cycle does\<close>

lemma collected_severities: "a \<in> set (anomalies (collect_server_state cfg ctl t w)) \<Longrightarrow> AUTONOMOUS_SCAN_THRESHOLD \<le> severity a"
  by (auto simp: collect_server_state_def check_failed_services_def check_recent_errors_def check_resources_def
      disk_anomaly_def AUTONOMOUS_SCAN_THRESHOLD_def Let_def split: option.splits if_splits)

lemma set_actionable [simp]: "set (actionable s) = set (anomalies s)"
  by (simp add: actionable_def)

lemma sorted_actionable: "sorted_wrt (\<lambda>a b. severity b \<le> severity a) (actionable s)"
proof -
  have "sorted (map (\<lambda>a. - severity a) (actionable s))" by (simp add: actionable_def)
  then show ?thesis by (simp add: sorted_map)
qed

lemma choose_result:
  assumes "sorted_wrt (\<lambda>a b. severity b \<le> severity a) as" "\<And>a. a \<in> set as \<Longrightarrow> AUTONOMOUS_SCAN_THRESHOLD \<le> severity a"
  shows "case choose_anomaly cool as of
      None \<Rightarrow> list_all (\<lambda>b. cool (an_domain b)) as
    | Some a \<Rightarrow> a \<in> set as \<and> \<not> cool (an_domain a) \<and> list_all (\<lambda>b. cool (an_domain b) \<or> severity b \<le> severity a) as"
  using assms
proof (induction as)
  case Nil
  then show ?case by simp
next
  case (Cons a as)
  have a: "\<not> severity a < AUTONOMOUS_SCAN_THRESHOLD" using Cons.prems(2) [of a] by simp
  show ?case
  proof (cases "cool (an_domain a)")
    case True
    with Cons a show ?thesis by (auto split: option.splits)
  next
    case False
    with Cons.prems(1) a show ?thesis by (auto simp: list_all_iff)
  qed
qed

text \<open>A cycle acts on the worst anomaly that is not on cooldown. For everything the collection can report, the
  anomaly that is chosen is not on cooldown and every worse one is; none is chosen only when all are on cooldown. The
  field \<open>max_severity\<close>, which is the severity of the first anomaly and not the greatest one, lets no anomaly be missed,
  because every severity the collection assigns reaches the threshold.\<close>

theorem scan_acts_on_worst:
  "case scan_choice cool (collect_server_state cfg ctl t w) of
     None \<Rightarrow> list_all (\<lambda>b. cool (an_domain b)) (anomalies (collect_server_state cfg ctl t w))
   | Some a \<Rightarrow> a \<in> set (anomalies (collect_server_state cfg ctl t w)) \<and> \<not> cool (an_domain a)
       \<and> list_all (\<lambda>b. cool (an_domain b) \<or> severity b \<le> severity a) (anomalies (collect_server_state cfg ctl t w))"
proof -
  let ?s = "collect_server_state cfg ctl t w"
  show ?thesis
  proof (cases "max_severity ?s < AUTONOMOUS_SCAN_THRESHOLD")
    case True
    then have "anomalies ?s = []"
      using collected_severities [of _ cfg ctl t w] by (cases "anomalies ?s") (force simp: max_severity_def)+
    with True show ?thesis by (simp add: scan_choice_def)
  next
    case False
    have "case choose_anomaly cool (actionable ?s) of
        None \<Rightarrow> list_all (\<lambda>b. cool (an_domain b)) (actionable ?s)
      | Some a \<Rightarrow> a \<in> set (actionable ?s) \<and> \<not> cool (an_domain a)
          \<and> list_all (\<lambda>b. cool (an_domain b) \<or> severity b \<le> severity a) (actionable ?s)"
      by (rule choose_result [OF sorted_actionable]) (auto dest: collected_severities)
    with False show ?thesis by (auto simp: scan_choice_def list_all_iff split: option.splits)
  qed
qed

subsection \<open>What a cycle may credit\<close>

definition same_track :: "track_key \<Rightarrow> TrackRecordState \<Rightarrow> 'w kernel_state \<Rightarrow> bool" where
  "same_track k v st \<longleftrightarrow> get_track_record k (autonomy_tracks (db st)) = v"

lemma newest_of_in: "newest_of r qs \<in> set (r # qs)"
proof (induction qs arbitrary: r)
  case (Cons q qs)
  show ?case using Cons [of q] Cons [of r] by (simp, blast)
qed simp

lemma latest_in: "r \<in> set (latest_proposals rs) \<Longrightarrow> r \<in> set rs"
proof (induction rs rule: latest_proposals.induct)
  case (2 r rs)
  then show ?case using newest_of_in [of r "filter (same_class r) rs"] by auto
qed simp

lemma kept_advance:
  assumes "k \<noteq> (RAWOS_ENTITY_USER_ID, the (cr_repo_root r), the (cr_anomaly_domain r))"
  shows "kept (same_track k v) (advance_class run is_dir present now r)"
proof -
  have up: "get_track_record k (snd (update_track_record j c t)) = get_track_record k t" if "k \<noteq> j" for j c t
    using that by (simp add: update_track_record_def get_track_record_def Let_def)
  have w: "kept (same_track k v) (on_world m)" for m :: "('w, 'b) act"
    by (rule keptI) (auto simp: on_world_def same_track_def split: prod.splits)
  have "kept (same_track k v) (act_modify (\<lambda>st. st\<lparr>db := (db st)\<lparr>autonomy_tracks :=
        snd (update_track_record (RAWOS_ENTITY_USER_ID, the (cr_repo_root r), the (cr_anomaly_domain r)) c (autonomy_tracks (db st)))\<rparr>\<rparr>))" for c
    using up [OF assms] by (intro keptI) (auto simp: same_track_def)
  then show ?thesis
    unfolding advance_class_def Let_def by (intro kept_bind kept_get kept_if kept_return w)
qed

lemma kept_advances:
  "(\<And>r. r \<in> set rs \<Longrightarrow> k \<noteq> (RAWOS_ENTITY_USER_ID, the (cr_repo_root r), the (cr_anomaly_domain r))) \<Longrightarrow>
   kept (same_track k v) (advance_classes run is_dir present now rs)"
  by (induction rs) (auto intro!: kept_then kept_advance)

text \<open>The scan credits only what was proposed: the track record of a user, repository and anomaly class stays as it
  is, through a whole update that may stop with an exception anywhere, unless the user is anima itself and a row of
  \<open>rawos_commits\<close> proposes a fix branch for that very repository and class.\<close>

theorem scan_credits_proposals_only:
  assumes "list_all (\<lambda>r. \<not> proposed r \<or> (RAWOS_ENTITY_USER_ID, the (cr_repo_root r), the (cr_anomaly_domain r)) \<noteq> k) commits"
  shows "get_track_record k (autonomy_tracks (db (snd (update_earned_autonomy run is_dir commits now s st))))
    = get_track_record k (autonomy_tracks (db st))"
proof -
  have "k \<noteq> (RAWOS_ENTITY_USER_ID, the (cr_repo_root r), the (cr_anomaly_domain r))"
    if "r \<in> set (latest_proposals (filter proposed commits))" for r
    using latest_in [OF that] assms by (auto simp: list_all_iff)
  from kept_advances [OF this] have "kept (same_track k (get_track_record k (autonomy_tracks (db st))))
      (update_earned_autonomy run is_dir commits now s)"
    by (simp add: update_earned_autonomy_def)
  from keptD [OF this _ prod.collapse [symmetric], of st] show ?thesis by (simp add: same_track_def)
qed

theorem scan_credits_proposals_only_witness:
  "get_track_record (''user'', ''/repo'', ''disk'') (autonomy_tracks (db (snd (update_earned_autonomy
     (\<lambda>c wd. act_return \<lparr>bash_stdout = ''origin/main'', bash_stderr = [], exit_code = 0, bash_ms = 1, truncated = False\<rparr>) (\<lambda>w d. True)
     [\<lparr>cr_user = RAWOS_ENTITY_USER_ID, cr_repo_root = Some ''/repo'', cr_anomaly_domain = Some ''disk'', cr_branch = ''anima/fix-1'',
       cr_hash = ''abc'', cr_created_at = 5\<rparr>] 9 \<lparr>snap_ts = 9, anomalies = []\<rparr> \<lparr>db = empty_db, world = ()\<rparr>)))) = fresh_track"
proof -
  let ?run = "\<lambda>c wd. act_return \<lparr>bash_stdout = ''origin/main'', bash_stderr = [], exit_code = 0, bash_ms = 1, truncated = False\<rparr>"
  let ?rows = "[\<lparr>cr_user = RAWOS_ENTITY_USER_ID, cr_repo_root = Some ''/repo'', cr_anomaly_domain = Some ''disk'', cr_branch = ''anima/fix-1'',
       cr_hash = ''abc'', cr_created_at = 5\<rparr>]"
  have "list_all (\<lambda>r. \<not> proposed r \<or> (RAWOS_ENTITY_USER_ID, the (cr_repo_root r), the (cr_anomaly_domain r)) \<noteq> (''user'', ''/repo'', ''disk'')) ?rows"
    by (simp add: RAWOS_ENTITY_USER_ID_def)
  from scan_credits_proposals_only [OF this, of ?run "\<lambda>w d. True" 9 "\<lparr>snap_ts = 9, anomalies = []\<rparr>" "\<lparr>db = empty_db, world = ()\<rparr>"]
  show ?thesis by (simp add: get_track_record_def empty_db_def)
qed

end
