(* ===== verification/Auto_Apply.thy ===== *)
theory Auto_Apply
  imports Anomaly_Verifier Autonomous_Scan Tool_Executor
begin

text \<open>
  The end of an autonomous fix: the disposable worktree (\<open>anima/kernel/worktree.py\<close>), the merge of a graduated fix into
  the live tree under a health gate (\<open>anima/kernel/reversible_apply.py\<close>), the decision to do so (\<open>_maybe_auto_apply\<close>) and
  the part of \<open>_run_proactive_loop\<close> after the agent has answered (\<open>anima/scheduler/proactive.py\<close>). Git and systemd are
  parameters. Seconds are whole numbers, as the defaults are; dashes and arrows in messages are ASCII here.
\<close>

subsection \<open>Waiting for health\<close>

definition HEALTH_GATE_TIMEOUT_S :: int where "HEALTH_GATE_TIMEOUT_S = 60"
definition HEALTH_GATE_POLL_INTERVAL_S :: int where "HEALTH_GATE_POLL_INTERVAL_S = 2"

record ApplyResult =
  applied :: bool
  healthy :: bool
  rolled_back :: bool
  before_sha :: "string option"
  after_sha :: "string option"
  apply_detail :: string

text \<open>The loop of the health gate: the seconds that had passed when the service was healthy. A check that raises counts
  as unhealthy; \<open>sleep\<close> may be cancelled.\<close>

partial_function (option) health_wait ::
    "int \<Rightarrow> int \<Rightarrow> (int \<Rightarrow> ('w, unit) act) \<Rightarrow> ('w, bool) act \<Rightarrow> int \<Rightarrow> 'w \<Rightarrow> ((exn + int option) \<times> 'w) option" where
  "health_wait timeout poll sleep health elapsed w =
     (if elapsed < timeout then
        (case sleep poll w of
           (Inl e, w1) \<Rightarrow> Some (Inl e, w1)
         | (Inr u, w1) \<Rightarrow>
           (case act_catch health (\<lambda>e. act_return False) w1 of
              (Inl e, w2) \<Rightarrow> Some (Inl e, w2)
            | (Inr good, w2) \<Rightarrow> if good then Some (Inr (Some (elapsed + poll)), w2)
                else health_wait timeout poll sleep health (elapsed + poll) w2))
      else Some (Inr None, w))"

subsection \<open>\<open>reversible_apply\<close>\<close>

definition attempt_sandbox :: "('w, 'a) act \<Rightarrow> ('w, exn + 'a) act" where
  "attempt_sandbox m = act_catch (act_bind m (\<lambda>r. act_return (Inr r)))
     (\<lambda>e. if e = SandboxError then act_return (Inl e) else act_raise e)"

definition cmd_merge_ff :: "string \<Rightarrow> string" where "cmd_merge_ff branch = ''git merge --ff-only '' @ branch"
definition cmd_reset_hard :: "string \<Rightarrow> string" where "cmd_reset_hard sha = ''git reset --hard '' @ sha"

definition not_applied :: "string option \<Rightarrow> string \<Rightarrow> ApplyResult" where
  "not_applied before msg = \<lparr>applied = False, healthy = False, rolled_back = False, before_sha = before, after_sha = None,
     apply_detail = msg\<rparr>"

definition rollback :: "'w tool_env \<Rightarrow> 'w service_manager \<Rightarrow> string \<Rightarrow> string \<Rightarrow> string \<Rightarrow> ('w, unit) act" where
  "rollback T mgr repo_root service before = act_then
     (act_bind (attempt_sandbox (run_cmd T (cmd_reset_hard before) repo_root)) (\<lambda>r. act_return ()))
     (act_catch (act_bind (svc_restart mgr service) (\<lambda>good. act_return ())) (\<lambda>e. act_return ()))"

text \<open>Up to the merge: a final result, or the commits before and after it.\<close>

definition apply_merge ::
    "'w tool_env \<Rightarrow> bool \<Rightarrow> string \<Rightarrow> string \<Rightarrow> ('w, ApplyResult + (string \<times> string)) act" where
  "apply_merge T supports repo_root branch =
     (if \<not> supports then act_raise ReversibleApplyError
      else act_bind (is_anima_source_tree T repo_root) (\<lambda>own.
      if own then act_raise ReversibleApplyError
      else act_bind (attempt_sandbox (run_cmd T REV_PARSE_HEAD repo_root)) (\<lambda>r. case r of
        Inl e \<Rightarrow> act_return (Inl (not_applied None (''git rev-parse HEAD raised: '' @ exn_text T e)))
      | Inr b \<Rightarrow>
        if exit_code b \<noteq> 0 then act_return (Inl (not_applied None (''git rev-parse HEAD failed: '' @ py_strip (bash_stderr b))))
        else let before = py_strip (bash_stdout b) in
        act_bind (attempt_sandbox (run_cmd T (cmd_merge_ff branch) repo_root)) (\<lambda>r. case r of
          Inl e \<Rightarrow> act_return (Inl (not_applied (Some before) (''git merge raised: '' @ exn_text T e)))
        | Inr m \<Rightarrow>
          if exit_code m \<noteq> 0 then act_return (Inl (not_applied (Some before) (''fast-forward merge of '' @ branch @ '' failed: ''
             @ py_strip (if bash_stderr m \<noteq> [] then bash_stderr m else bash_stdout m))))
          else act_bind (run_cmd T REV_PARSE_HEAD repo_root) (\<lambda>a. act_return (Inr (before, py_strip (bash_stdout a))))))))"

definition applied_text :: "string \<Rightarrow> string \<Rightarrow> string \<Rightarrow> string" where
  "applied_text branch before aft = ''applied '' @ branch @ '' ('' @ take 8 before @ '' -> '' @ take 8 aft @ '')''"

definition apply_gate ::
    "'w tool_env \<Rightarrow> 'w service_manager \<Rightarrow> (int \<Rightarrow> ('w, unit) act) \<Rightarrow> ('w, bool) act \<Rightarrow> int \<Rightarrow> int
      \<Rightarrow> string \<Rightarrow> string \<Rightarrow> string \<Rightarrow> string \<Rightarrow> string \<Rightarrow> 'w \<Rightarrow> ((exn + ApplyResult) \<times> 'w) option" where
  "apply_gate T mgr sleep health timeout poll repo_root branch service before aft w =
     (let undone = (\<lambda>msg. act_then (rollback T mgr repo_root service before) (act_return
         \<lparr>applied = True, healthy = False, rolled_back = True, before_sha = Some before, after_sha = Some aft,
          apply_detail = msg\<rparr>)) in
      case svc_restart mgr service w of
        (Inl e, w1) \<Rightarrow> Some (Inl e, w1)
      | (Inr good, w1) \<Rightarrow>
        if \<not> good then Some (undone (''systemctl restart '' @ service @ '' failed'') w1)
        else (case health_wait timeout poll sleep health 0 w1 of
            None \<Rightarrow> None
          | Some (Inl e, w2) \<Rightarrow> Some (Inl e, w2)
          | Some (Inr (Some s), w2) \<Rightarrow> Some (Inr \<lparr>applied = True, healthy = True, rolled_back = False,
              before_sha = Some before, after_sha = Some aft,
              apply_detail = applied_text branch before aft @ '', '' @ service @ '' healthy after '' @ show_int s @ ''s''\<rparr>, w2)
          | Some (Inr None, w2) \<Rightarrow> Some (undone (applied_text branch before aft @ '' but '' @ service @ '' not healthy within ''
              @ show_int timeout @ ''s - rolled back to '' @ take 8 before) w2)))"

definition reversible_apply ::
    "'w tool_env \<Rightarrow> bool \<Rightarrow> 'w service_manager \<Rightarrow> (int \<Rightarrow> ('w, unit) act) \<Rightarrow> ('w, bool) act \<Rightarrow> int \<Rightarrow> int
      \<Rightarrow> string \<Rightarrow> string \<Rightarrow> string \<Rightarrow> 'w \<Rightarrow> ((exn + ApplyResult) \<times> 'w) option" where
  "reversible_apply T supports mgr sleep health timeout poll repo_root branch service w =
     (case apply_merge T supports repo_root branch w of
        (Inl e, w1) \<Rightarrow> Some (Inl e, w1)
      | (Inr (Inl res), w1) \<Rightarrow> Some (Inr res, w1)
      | (Inr (Inr (before, aft)), w1) \<Rightarrow>
          apply_gate T mgr sleep health timeout poll repo_root branch service before aft w1)"

subsection \<open>The decision\<close>

definition AUTO_APPLY_MAX_DIFF_LINES :: nat where "AUTO_APPLY_MAX_DIFF_LINES = 50"

text \<open>\<open>_DIFF_SHORTSTAT_RE\<close>: a run of digits before \<open> insertion(+)\<close> or \<open> deletion(-)\<close>, in the singular or the plural.\<close>

definition counts_lines :: "string \<Rightarrow> bool" where
  "counts_lines rest \<longleftrightarrow> startswith rest '' insertion(+)'' \<or> startswith rest '' insertions(+)''
     \<or> startswith rest '' deletion(-)'' \<or> startswith rest '' deletions(-)''"

lemma shortstat_shrinks: "dropWhile (\<lambda>c. \<not> is_digit c) s = c # cs \<Longrightarrow> length (dropWhile is_digit (c # cs)) < length s"
proof -
  assume a: "dropWhile (\<lambda>c. \<not> is_digit c) s = c # cs"
  then have "is_digit c" using hd_dropWhile [of "\<lambda>c. \<not> is_digit c" s] by simp
  then have "length (dropWhile is_digit (c # cs)) \<le> length cs" by (simp add: length_dropWhile_le)
  also have "\<dots> < length s" using a length_dropWhile_le [of "\<lambda>c. \<not> is_digit c" s] by simp
  finally show ?thesis .
qed

function parse_diff_shortstat_total :: "string \<Rightarrow> nat" where
  "parse_diff_shortstat_total s = (case dropWhile (\<lambda>c. \<not> is_digit c) s of
       [] \<Rightarrow> 0
     | c # cs \<Rightarrow> let digits = takeWhile is_digit (c # cs); rest = dropWhile is_digit (c # cs) in
         (if counts_lines rest then digits_value digits else 0) + parse_diff_shortstat_total rest)"
  by pat_completeness auto
termination by (relation "measure length") (auto dest: shortstat_shrinks)

declare parse_diff_shortstat_total.simps [simp del]

definition cmd_shortstat :: "string \<Rightarrow> string \<Rightarrow> string" where
  "cmd_shortstat base branch = ''git diff --shortstat '' @ base @ ''..'' @ branch"

record 'w apply_env =
  ae_tools :: "'w tool_env"
  ae_manager :: "'w service_manager"
  ae_supports :: bool
  ae_sleep :: "int \<Rightarrow> ('w, unit) act"

definition live_health_check :: "'w apply_env \<Rightarrow> string \<Rightarrow> ('w, bool) act" where
  "live_health_check A service = act_get (is_active (ae_manager A) service)"

definition maybe_auto_apply ::
    "Settings \<Rightarrow> 'w apply_env \<Rightarrow> track_table \<Rightarrow> ServerAnomaly \<Rightarrow> string \<Rightarrow> string \<Rightarrow> string
      \<Rightarrow> 'w \<Rightarrow> ((exn + ApplyResult option) \<times> 'w) option" where
  "maybe_auto_apply cfg A tracks anomaly repo_root branch base_sha w =
     (if \<not> autonomy_auto_apply_enabled cfg then Some (Inr None, w)
      else if an_service anomaly = [] then Some (Inr None, w)
      else if \<not> graduated (get_track_record (RAWOS_ENTITY_USER_ID, repo_root, an_domain anomaly) tracks) then Some (Inr None, w)
      else (case run_cmd (ae_tools A) (cmd_shortstat base_sha branch) repo_root w of
          (Inl e, w1) \<Rightarrow> Some (Inl e, w1)
        | (Inr d, w1) \<Rightarrow>
          if exit_code d \<noteq> 0 then Some (Inr None, w1)
          else if parse_diff_shortstat_total (bash_stdout d) > AUTO_APPLY_MAX_DIFF_LINES then Some (Inr None, w1)
          else (case reversible_apply (ae_tools A) (ae_supports A) (ae_manager A) (ae_sleep A)
                  (live_health_check A (an_service anomaly)) HEALTH_GATE_TIMEOUT_S HEALTH_GATE_POLL_INTERVAL_S
                  repo_root branch (an_service anomaly) w1 of
              None \<Rightarrow> None
            | Some (Inl e, w2) \<Rightarrow> Some (Inl e, w2)
            | Some (Inr res, w2) \<Rightarrow> Some (Inr (Some res), w2))))"

subsection \<open>After the agent has answered\<close>

definition VERIFICATION_TIMEOUT_S :: int where "VERIFICATION_TIMEOUT_S = 300"

text \<open>\<open>_GIT_COMMIT_BRANCH_RE\<close>: a bracket, a name without space or bracket, white space, 6 to 40 lower-case hex digits and
  the closing bracket; the first match in the text.\<close>

definition is_lower_hex :: "char \<Rightarrow> bool" where
  "is_lower_hex c \<longleftrightarrow> is_digit c \<or> c \<in> set ''abcdef''"

definition commit_header :: "string \<Rightarrow> (string \<times> string) option" where
  "commit_header s = (let named = (\<lambda>c. \<not> is_space c \<and> c \<noteq> CHR '']''); name = takeWhile named s; r1 = dropWhile named s;
       r2 = dropWhile is_space r1; hex = takeWhile is_lower_hex r2; r3 = dropWhile is_lower_hex r2
     in if name \<noteq> [] \<and> length r2 < length r1 \<and> 6 \<le> length hex \<and> length hex \<le> 40 \<and> startswith r3 '']''
        then Some (name, hex) else None)"

fun extract_commit_header :: "string \<Rightarrow> (string \<times> string) option" where
  "extract_commit_header [] = None"
| "extract_commit_header (c # s) = (if c = CHR ''['' then (case commit_header s of
       Some h \<Rightarrow> Some h | None \<Rightarrow> extract_commit_header s) else extract_commit_header s)"

definition extract_commit_branch :: "string \<Rightarrow> string option" where
  "extract_commit_branch out = map_option fst (extract_commit_header out)"

text \<open>The rows \<open>_record_git_commits\<close> inserts for the commits of a scan; the project, the message and the working directory
  of a row are not used by the ladder.\<close>

fun record_git_commits :: "string \<Rightarrow> string option \<Rightarrow> string option \<Rightarrow> int \<Rightarrow> agent_event list \<Rightarrow> commit_row list" where
  "record_git_commits user repo_root cls now [] = []"
| "record_git_commits user repo_root cls now (ToolAnswered cid tool out good ms # es) =
     (if tool = ''git_commit'' \<and> good
      then [(case extract_commit_header out of
          Some (b, h) \<Rightarrow> \<lparr>cr_user = user, cr_repo_root = repo_root, cr_anomaly_domain = cls, cr_branch = b, cr_hash = h, cr_created_at = now\<rparr>
        | None \<Rightarrow> \<lparr>cr_user = user, cr_repo_root = repo_root, cr_anomaly_domain = cls, cr_branch = ''unknown'', cr_hash = ''unknown'',
            cr_created_at = now\<rparr>)]
      else []) @ record_git_commits user repo_root cls now es"
| "record_git_commits user repo_root cls now (e # es) = record_git_commits user repo_root cls now es"

fun committed_branch :: "string option \<Rightarrow> agent_event list \<Rightarrow> string option" where
  "committed_branch b [] = b"
| "committed_branch b (ToolAnswered cid tool out good ms # es) =
     committed_branch (if tool = ''git_commit'' \<and> good
       then (case extract_commit_branch out of Some b' \<Rightarrow> Some b' | None \<Rightarrow> b) else b) es"
| "committed_branch b (e # es) = committed_branch b es"

definition bool_name :: "bool \<Rightarrow> string" where "bool_name b = (if b then ''True'' else ''False'')"

definition option_name :: "bool option \<Rightarrow> string" where
  "option_name r = (case r of None \<Rightarrow> ''None'' | Some b \<Rightarrow> bool_name b)"

definition verdict_note :: "VerificationResult \<Rightarrow> string" where
  "verdict_note v = newline @ newline @ ''[INDEPENDENT VERIFICATION - anima.kernel.anomaly_verifier]'' @ newline
     @ ''resolved='' @ option_name (resolved v) @ '' method='' @ verdict_method v @ newline @ evidence v"

definition apply_note :: "ApplyResult \<Rightarrow> string" where
  "apply_note r = newline @ newline @ ''[AUTO-APPLY - anima.kernel.reversible_apply]'' @ newline
     @ ''applied='' @ bool_name (applied r) @ '' healthy='' @ bool_name (healthy r)
     @ '' rolled_back='' @ bool_name (rolled_back r) @ newline @ apply_detail r"

definition raised_note :: string where
  "raised_note = newline @ newline @ ''[AUTO-APPLY - anima.kernel.reversible_apply raised an exception, see anima logs. Fix remains propose-only.]''"

definition unverified_note :: "exn \<Rightarrow> string" where
  "unverified_note e = newline @ newline @ (if e = TimeoutExpired
     then ''[INDEPENDENT VERIFICATION - timed out after '' @ show_int VERIFICATION_TIMEOUT_S @ ''s. Treat fix as UNVERIFIED.]''
     else ''[INDEPENDENT VERIFICATION - verifier raised an exception, see anima logs. Treat fix as UNVERIFIED.]'')"

definition apply_and_report ::
    "Settings \<Rightarrow> 'w apply_env \<Rightarrow> track_table \<Rightarrow> ServerAnomaly \<Rightarrow> string \<Rightarrow> string \<Rightarrow> string \<Rightarrow> 'w \<Rightarrow> (string \<times> 'w) option" where
  "apply_and_report cfg A tracks anomaly branch base_sha txt w =
     (if \<not> autonomy_auto_apply_enabled cfg then Some (txt, w)
      else (case maybe_auto_apply cfg A tracks anomaly (affected_path anomaly) branch base_sha w of
          None \<Rightarrow> None
        | Some (Inl e, w1) \<Rightarrow> Some (txt @ raised_note, w1)
        | Some (Inr None, w1) \<Rightarrow> Some (txt, w1)
        | Some (Inr (Some res), w1) \<Rightarrow> Some (txt @ apply_note res, w1)))"

text \<open>\<open>wait_for\<close> runs the verification under its time limit; when it is cut off it raises \<open>TimeoutExpired\<close> in the world
  the verification had reached.\<close>

definition verify_and_apply ::
    "Settings \<Rightarrow> 'w verifier_env \<Rightarrow> 'w apply_env \<Rightarrow> (int \<Rightarrow> ('w, VerificationResult) act \<Rightarrow> ('w, VerificationResult) act)
      \<Rightarrow> track_table \<Rightarrow> ServerAnomaly \<Rightarrow> string \<Rightarrow> string \<Rightarrow> string \<Rightarrow> string \<Rightarrow> 'w \<Rightarrow> (string \<times> 'w) option" where
  "verify_and_apply cfg V A wait_for tracks anomaly worktree base_sha branch txt w =
     (case wait_for VERIFICATION_TIMEOUT_S (verify_fix V (an_kind anomaly) (affected_path anomaly) worktree branch base_sha) w of
        (Inl e, w1) \<Rightarrow> Some (txt @ unverified_note e, w1)
      | (Inr v, w1) \<Rightarrow>
          if resolved v = Some True then apply_and_report cfg A tracks anomaly branch base_sha (txt @ verdict_note v) w1
          else Some (txt @ verdict_note v, w1))"

definition after_agent ::
    "Settings \<Rightarrow> 'w verifier_env \<Rightarrow> 'w apply_env \<Rightarrow> (int \<Rightarrow> ('w, VerificationResult) act \<Rightarrow> ('w, VerificationResult) act)
      \<Rightarrow> track_table \<Rightarrow> string option \<Rightarrow> string option \<Rightarrow> ServerAnomaly option \<Rightarrow> agent_event list \<Rightarrow> string
      \<Rightarrow> 'w \<Rightarrow> (string \<times> 'w) option" where
  "after_agent cfg V A wait_for tracks scan_worktree base_sha trigger events txt w =
     (case (scan_worktree, base_sha, trigger) of
        (Some wt, Some base, Some anomaly) \<Rightarrow>
          if wt = [] \<or> base = [] \<or> an_kind anomaly \<notin> VERIFIABLE_ANOMALY_KINDS then Some (txt, w)
          else (case committed_branch None events of
              None \<Rightarrow> Some (txt, w)
            | Some branch \<Rightarrow> verify_and_apply cfg V A wait_for tracks (anomaly\<lparr>last_log := []\<rparr>) wt base branch txt w)
      | _ \<Rightarrow> Some (txt, w))"

subsection \<open>Disposable worktrees\<close>

record 'w worktree_env =
  wt_run :: "'w run_shell"
  wt_root :: string
  wt_exists :: "string \<Rightarrow> 'w \<Rightarrow> bool"
  wt_mkdir :: "('w, unit) act"
  wt_rmtree :: "string \<Rightarrow> 'w \<Rightarrow> 'w"

definition quote1 :: "string \<Rightarrow> string" where "quote1 s = [CHR 0x27] @ s @ [CHR 0x27]"

text \<open>\<open>stamp\<close> is the time and the random suffix of the name.\<close>

definition create_worktree :: "'w worktree_env \<Rightarrow> string \<Rightarrow> string \<Rightarrow> ('w, string option) act" where
  "create_worktree W stamp repo_path = (let repo = fs_key repo_path; target = path_div (wt_root W) (path_name repo @ ''-'' @ stamp) in
     act_bind (act_get (wt_exists W (path_div repo ''.git''))) (\<lambda>there.
     if \<not> there then act_return None
     else act_then (wt_mkdir W)
       (act_bind (wt_run W (''git worktree add --detach '' @ quote1 target @ '' HEAD'') repo) (\<lambda>r.
         act_return (if exit_code r \<noteq> 0 then None else Some target)))))"

definition get_head_sha :: "'w run_shell \<Rightarrow> string \<Rightarrow> ('w, string option) act" where
  "get_head_sha run wt = act_bind (attempt_sandbox (run REV_PARSE_HEAD wt)) (\<lambda>r. case r of
     Inl e \<Rightarrow> act_return None
   | Inr q \<Rightarrow> act_return (if exit_code q \<noteq> 0 then None else Some (py_strip (bash_stdout q))))"

definition repo_of_common_dir :: "string \<Rightarrow> string \<Rightarrow> string" where
  "repo_of_common_dir p out = (let c = path_str out; d = (if startswith c ''/'' then c else fs_key (path_div p c))
     in if path_name d = ''.git'' then path_parent d else d)"

definition remove_worktree :: "'w worktree_env \<Rightarrow> string \<Rightarrow> ('w, unit) act" where
  "remove_worktree W worktree_path = (let p = path_str worktree_path in
     act_bind (act_get (wt_exists W p)) (\<lambda>there.
     if \<not> there then act_return ()
     else if \<not> startswith (fs_key p) (fs_key (wt_root W)) then act_return ()
     else act_bind (wt_run W ''git rev-parse --git-common-dir'' p) (\<lambda>r.
       if exit_code r = 0 then
         act_bind (wt_run W (''git worktree remove --force '' @ quote1 p) (repo_of_common_dir p (py_strip (bash_stdout r)))) (\<lambda>rm.
           if exit_code rm = 0 then act_return () else act_modify (wt_rmtree W p))
       else act_modify (wt_rmtree W p))))"

subsection \<open>The health gate ends\<close>

text \<open>The loop as a count of polls.\<close>

primrec health_polls ::
    "nat \<Rightarrow> int \<Rightarrow> (int \<Rightarrow> ('w, unit) act) \<Rightarrow> ('w, bool) act \<Rightarrow> int \<Rightarrow> 'w \<Rightarrow> (exn + int option) \<times> 'w" where
  "health_polls 0 poll sleep health elapsed w = (Inr None, w)"
| "health_polls (Suc n) poll sleep health elapsed w = (case sleep poll w of
     (Inl e, w1) \<Rightarrow> (Inl e, w1)
   | (Inr u, w1) \<Rightarrow> (case health w1 of
       (Inr b, w2) \<Rightarrow> if b then (Inr (Some (elapsed + poll)), w2) else health_polls n poll sleep health (elapsed + poll) w2
     | (Inl e, w2) \<Rightarrow> health_polls n poll sleep health (elapsed + poll) w2))"

definition polls_left :: "int \<Rightarrow> int \<Rightarrow> int \<Rightarrow> nat" where
  "polls_left timeout poll elapsed = nat ((timeout - elapsed + poll - 1) div poll)"

lemma polls_left_0: "0 < poll \<Longrightarrow> timeout \<le> elapsed \<Longrightarrow> polls_left timeout poll elapsed = 0"
  using zdiv_mono1 [of "timeout - elapsed + poll - 1" "poll - 1" poll] by (simp add: polls_left_def)

lemma polls_left_Suc:
  assumes "0 < poll" "elapsed < timeout"
  shows "polls_left timeout poll elapsed = Suc (polls_left timeout poll (elapsed + poll))"
proof -
  have "(timeout - elapsed + poll - 1) div poll = (timeout - (elapsed + poll) + poll - 1) div poll + 1"
    using assms(1) div_add_self2 [of poll "timeout - (elapsed + poll) + poll - 1"] by (simp add: algebra_simps)
  moreover have "0 \<le> (timeout - (elapsed + poll) + poll - 1) div poll"
    using assms by (simp add: pos_imp_zdiv_nonneg_iff)
  ultimately show ?thesis by (simp add: polls_left_def)
qed

lemma health_wait_polls:
  assumes "0 < poll"
  shows "health_wait timeout poll sleep health elapsed w
    = Some (health_polls (polls_left timeout poll elapsed) poll sleep health elapsed w)"
proof (induction "polls_left timeout poll elapsed" arbitrary: elapsed w)
  case 0
  then have "\<not> elapsed < timeout" using polls_left_Suc [OF assms, of elapsed timeout] by auto
  then show ?case by (subst health_wait.simps) (simp add: polls_left_0 [OF assms])
next
  case (Suc n)
  then have less: "elapsed < timeout" using polls_left_0 [OF assms, of timeout elapsed] by (cases "elapsed < timeout") auto
  note n = polls_left_Suc [OF assms less]
  with Suc.hyps have "n = polls_left timeout poll (elapsed + poll)" by simp
  note IH = Suc.hyps(1) [OF this]
  show ?case
    by (subst health_wait.simps) (simp add: less n IH act_catch_apply split: prod.split sum.split)
qed

lemma polls_result:
  assumes "health_polls n poll sleep health elapsed w = (r, w')"
    and "\<forall>w. head (snd (sleep poll w)) = head w" "\<forall>w. head (snd (health w)) = head w"
  shows "head w' = head w \<and> (case r of Inr (Some s) \<Rightarrow> \<exists>w1. health w1 = (Inr True, w') | _ \<Rightarrow> True)"
  using assms(1)
proof (induction n arbitrary: elapsed w)
  case 0
  then show ?case by auto
next
  case (Suc n)
  obtain rs w1 where s: "sleep poll w = (rs, w1)" by (cases "sleep poll w")
  obtain rh w2 where h: "health w1 = (rh, w2)" by (cases "health w1")
  have keep: "head w1 = head w" "head w2 = head w1" using assms(2,3) s h by (metis snd_conv)+
  show ?case
  proof (cases rs)
    case (Inl e)
    with Suc.prems s keep show ?thesis by auto
  next
    case (Inr u)
    show ?thesis
    proof (cases "rh = Inr True")
      case True
      with Suc.prems s h Inr keep show ?thesis by auto
    next
      case False
      with Suc.prems s h Inr have "health_polls n poll sleep health (elapsed + poll) w2 = (r, w')" by (auto split: sum.splits if_splits)
      from Suc.IH [OF this] keep show ?thesis by simp
    qed
  qed
qed

lemma default_wait: "health_wait HEALTH_GATE_TIMEOUT_S HEALTH_GATE_POLL_INTERVAL_S sleep health 0 w
    = Some (health_polls 30 HEALTH_GATE_POLL_INTERVAL_S sleep health 0 w)"
  by (subst health_wait_polls) (simp_all add: HEALTH_GATE_TIMEOUT_S_def HEALTH_GATE_POLL_INTERVAL_S_def polls_left_def)

lemma default_apply_returns:
  "reversible_apply T supports mgr sleep health HEALTH_GATE_TIMEOUT_S HEALTH_GATE_POLL_INTERVAL_S repo_root branch svc w \<noteq> None"
  unfolding reversible_apply_def apply_gate_def Let_def default_wait
  by (auto split: prod.split sum.split option.split)

text \<open>The health gate always ends: with the limits of the program it is exactly 30 rounds of sleeping and checking at
  most, whatever the check does, and so the decision to apply a fix always comes back with a result or an exception.\<close>

theorem health_gate_bounded:
  "health_wait HEALTH_GATE_TIMEOUT_S HEALTH_GATE_POLL_INTERVAL_S sleep health 0 w
      = Some (health_polls 30 HEALTH_GATE_POLL_INTERVAL_S sleep health 0 w)
   \<and> (\<exists>y. maybe_auto_apply cfg A tracks anomaly repo_root branch base_sha w = Some y)"
  by (auto simp: default_wait maybe_auto_apply_def default_apply_returns split: prod.split sum.split option.split)

subsection \<open>All or nothing\<close>

text \<open>What git and systemd promise about the commit at which the live tree stands: \<open>rev-parse\<close> reports it, a
  fast-forward moves it to the tip of the branch or leaves it, \<open>reset --hard\<close> moves it or leaves it, and nothing else
  that is called touches it.\<close>

definition live_laws :: "('w \<Rightarrow> string) \<Rightarrow> string \<Rightarrow> string \<Rightarrow> string \<Rightarrow> 'w tool_env \<Rightarrow> 'w service_manager
    \<Rightarrow> (int \<Rightarrow> ('w, unit) act) \<Rightarrow> bool" where
  "live_laws head repo branch tip T mgr sleep \<longleftrightarrow>
     (\<forall>w. head (snd (is_anima_source_tree T repo w)) = head w)
   \<and> (\<forall>w. case run_cmd T REV_PARSE_HEAD repo w of
        (Inr r, w') \<Rightarrow> head w' = head w \<and> (exit_code r = 0 \<longrightarrow> py_strip (bash_stdout r) = head w) | (Inl e, w') \<Rightarrow> head w' = head w)
   \<and> (\<forall>w. case run_cmd T (cmd_merge_ff branch) repo w of
        (Inr r, w') \<Rightarrow> head w' = (if exit_code r = 0 then tip else head w) | (Inl e, w') \<Rightarrow> head w' = head w)
   \<and> (\<forall>v w. case run_cmd T (cmd_reset_hard (head v)) repo w of
        (Inr r, w') \<Rightarrow> head w' = (if exit_code r = 0 then head v else head w) | (Inl e, w') \<Rightarrow> head w' = head w)
   \<and> (\<forall>s w. head (snd (svc_restart mgr s w)) = head w)
   \<and> (\<forall>t w. head (snd (sleep t w)) = head w)"

lemma live_lawsD:
  assumes "live_laws head repo branch tip T mgr sleep"
  shows "is_anima_source_tree T repo w = (ro, w') \<Longrightarrow> head w' = head w"
    "run_cmd T REV_PARSE_HEAD repo w = (r, w') \<Longrightarrow> head w' = head w"
    "run_cmd T REV_PARSE_HEAD repo w = (Inr q, w') \<Longrightarrow> exit_code q = 0 \<Longrightarrow> py_strip (bash_stdout q) = head w"
    "run_cmd T (cmd_merge_ff branch) repo w = (Inr q, w') \<Longrightarrow> head w' = (if exit_code q = 0 then tip else head w)"
    "run_cmd T (cmd_merge_ff branch) repo w = (Inl e, w') \<Longrightarrow> head w' = head w"
    "run_cmd T (cmd_reset_hard (head v)) repo w = (Inr q, w') \<Longrightarrow> head w' = (if exit_code q = 0 then head v else head w)"
    "run_cmd T (cmd_reset_hard (head v)) repo w = (Inl e, w') \<Longrightarrow> head w' = head w"
    "svc_restart mgr s w = (rb, w') \<Longrightarrow> head w' = head w"
    "\<forall>w. head (snd (sleep t w)) = head w"
proof -
  note L = assms [unfolded live_laws_def]
  show "is_anima_source_tree T repo w = (ro, w') \<Longrightarrow> head w' = head w" using conjunct1 [OF L] by (metis snd_conv)
  show "run_cmd T REV_PARSE_HEAD repo w = (r, w') \<Longrightarrow> head w' = head w"
    using conjunct1 [OF conjunct2 [OF L], rule_format, of w] by (auto split: sum.splits)
  show "run_cmd T REV_PARSE_HEAD repo w = (Inr q, w') \<Longrightarrow> exit_code q = 0 \<Longrightarrow> py_strip (bash_stdout q) = head w"
    using conjunct1 [OF conjunct2 [OF L], rule_format, of w] by auto
  note M = conjunct2 [OF conjunct2 [OF L]]
  show "run_cmd T (cmd_merge_ff branch) repo w = (Inr q, w') \<Longrightarrow> head w' = (if exit_code q = 0 then tip else head w)"
    "run_cmd T (cmd_merge_ff branch) repo w = (Inl e, w') \<Longrightarrow> head w' = head w"
    using conjunct1 [OF M, rule_format, of w] by auto
  note M = conjunct2 [OF M]
  show "run_cmd T (cmd_reset_hard (head v)) repo w = (Inr q, w') \<Longrightarrow> head w' = (if exit_code q = 0 then head v else head w)"
    "run_cmd T (cmd_reset_hard (head v)) repo w = (Inl e, w') \<Longrightarrow> head w' = head w"
    using conjunct1 [OF M, THEN spec [of _ v], THEN spec [of _ w]] by auto
  note M = conjunct2 [OF M]
  show "svc_restart mgr s w = (rb, w') \<Longrightarrow> head w' = head w" using conjunct1 [OF M] by (metis snd_conv)
  show "\<forall>w. head (snd (sleep t w)) = head w" using conjunct2 [OF M] by blast
qed

lemma attempt_sandbox_apply: "attempt_sandbox m w = (case m w of
    (Inr x, w') \<Rightarrow> (Inr (Inr x), w')
  | (Inl e, w') \<Rightarrow> if e = SandboxError then (Inr (Inl e), w') else (Inl e, w'))"
  by (simp add: attempt_sandbox_def act_simps split: prod.split sum.split)

lemma apply_merge_head:
  assumes laws: "live_laws head repo branch tip T mgr sleep" and m: "apply_merge T supports repo branch w = (Inr r, w')"
  shows "case r of Inl res \<Rightarrow> head w' = head w \<and> \<not> applied res \<and> \<not> healthy res \<and> \<not> rolled_back res
    | Inr (before, aft) \<Rightarrow> head w' = tip \<and> before = head w"
proof -
  note L = live_lawsD [OF laws]
  have supports using m by (cases supports) (auto simp: apply_merge_def)
  with m obtain w1 where w1: "is_anima_source_tree T repo w = (Inr False, w1)"
    and m1: "act_bind (attempt_sandbox (run_cmd T REV_PARSE_HEAD repo)) (\<lambda>r. case r of
        Inl e \<Rightarrow> act_return (Inl (not_applied None (''git rev-parse HEAD raised: '' @ exn_text T e)))
      | Inr b \<Rightarrow>
        if exit_code b \<noteq> 0 then act_return (Inl (not_applied None (''git rev-parse HEAD failed: '' @ py_strip (bash_stderr b))))
        else let before = py_strip (bash_stdout b) in
        act_bind (attempt_sandbox (run_cmd T (cmd_merge_ff branch) repo)) (\<lambda>r. case r of
          Inl e \<Rightarrow> act_return (Inl (not_applied (Some before) (''git merge raised: '' @ exn_text T e)))
        | Inr m \<Rightarrow>
          if exit_code m \<noteq> 0 then act_return (Inl (not_applied (Some before) (''fast-forward merge of '' @ branch @ '' failed: ''
             @ py_strip (if bash_stderr m \<noteq> [] then bash_stderr m else bash_stdout m))))
          else act_bind (run_cmd T REV_PARSE_HEAD repo) (\<lambda>a. act_return (Inr (before, py_strip (bash_stdout a)))))) w1 = (Inr r, w')"
    by (auto simp: apply_merge_def elim!: act_bind_InrE split: if_splits)
  have h1: "head w1 = head w" by (rule L(1) [OF w1])
  obtain r2 w2 where r2: "run_cmd T REV_PARSE_HEAD repo w1 = (r2, w2)" by (cases "run_cmd T REV_PARSE_HEAD repo w1")
  have h2: "head w2 = head w1" by (rule L(2) [OF r2])
  show ?thesis
  proof (cases r2)
    case (Inl e)
    with m1 r2 h1 h2 show ?thesis by (auto simp: act_bind_apply attempt_sandbox_apply not_applied_def split: if_splits)
  next
    case (Inr b)
    obtain r3 w3 where r3: "run_cmd T (cmd_merge_ff branch) repo w2 = (r3, w3)" by (cases "run_cmd T (cmd_merge_ff branch) repo w2")
    show ?thesis
    proof (cases "exit_code b = 0")
      case False
      with m1 r2 Inr h1 h2 show ?thesis by (auto simp: act_bind_apply attempt_sandbox_apply not_applied_def)
    next
      case True
      have b: "py_strip (bash_stdout b) = head w" using L(3) [OF r2 [unfolded Inr] True] h1 by simp
      show ?thesis
      proof (cases r3)
        case (Inl e)
        with m1 r2 Inr True r3 h1 h2 L(5) [OF r3 [unfolded Inl]] show ?thesis
          by (auto simp: act_bind_apply attempt_sandbox_apply not_applied_def Let_def split: if_splits)
      next
        case (Inr q)
        note h3 = L(4) [OF r3 [unfolded Inr]]
        obtain r4 w4 where r4: "run_cmd T REV_PARSE_HEAD repo w3 = (r4, w4)" by (cases "run_cmd T REV_PARSE_HEAD repo w3")
        from L(2) [OF r4] h1 h2 h3 m1 r2 \<open>r2 = Inr b\<close> True r3 Inr r4 b show ?thesis
          by (auto simp: act_bind_apply attempt_sandbox_apply not_applied_def Let_def split: if_splits sum.splits)
      qed
    qed
  qed
qed

definition hard_reset_works :: "'w tool_env \<Rightarrow> string \<Rightarrow> bool" where
  "hard_reset_works T repo \<longleftrightarrow> (\<forall>sha w. \<exists>q w'. run_cmd T (cmd_reset_hard sha) repo w = (Inr q, w') \<and> exit_code q = 0)"

definition hard_reset_fails :: "'w tool_env \<Rightarrow> string \<Rightarrow> bool" where
  "hard_reset_fails T repo \<longleftrightarrow> (\<forall>sha w. case run_cmd T (cmd_reset_hard sha) repo w of
     (Inr q, w') \<Rightarrow> exit_code q \<noteq> 0 | (Inl e, w') \<Rightarrow> e = SandboxError)"

lemma rollback_apply:
  assumes laws: "live_laws head repo branch tip T mgr sleep" and r: "rollback T mgr repo service (head v) w = (r, w')"
  shows "hard_reset_works T repo \<longrightarrow> head w' = head v \<and> r = Inr ()"
    and "hard_reset_fails T repo \<longrightarrow> head w' = head w \<and> r = Inr ()"
proof -
  note L = live_lawsD [OF laws]
  obtain r1 w1 where r1: "run_cmd T (cmd_reset_hard (head v)) repo w = (r1, w1)" by (cases "run_cmd T (cmd_reset_hard (head v)) repo w")
  obtain r2 w2 where r2: "svc_restart mgr service w1 = (r2, w2)" by (cases "svc_restart mgr service w1")
  note h2 = L(8) [OF r2]
  show "hard_reset_works T repo \<longrightarrow> head w' = head v \<and> r = Inr ()"
  proof
    assume "hard_reset_works T repo"
    then obtain q where q: "r1 = Inr q" "exit_code q = 0" using r1 unfolding hard_reset_works_def by (metis Pair_inject)
    from L(6) [OF r1 [unfolded q]] q r r1 r2 h2 show "head w' = head v \<and> r = Inr ()"
      by (auto simp: rollback_def act_simps attempt_sandbox_apply split: sum.splits)
  qed
  show "hard_reset_fails T repo \<longrightarrow> head w' = head w \<and> r = Inr ()"
  proof
    assume "hard_reset_fails T repo"
    then have f: "case r1 of Inr q \<Rightarrow> exit_code q \<noteq> 0 | Inl e \<Rightarrow> e = SandboxError"
      using r1 unfolding hard_reset_fails_def by (metis (no_types, lifting) case_prod_conv)
    have "head w1 = head w"
    proof (cases r1)
      case (Inl e)
      with L(7) r1 show ?thesis by blast
    next
      case (Inr q)
      with L(6) r1 f show ?thesis by auto
    qed
    with f r r1 r2 h2 show "head w' = head w \<and> r = Inr ()"
      by (auto simp: rollback_def act_simps attempt_sandbox_apply split: sum.splits)
  qed
qed

text \<open>The result of a whole application. \<open>undo\<close> is what is known of the rollback.\<close>

lemma apply_result:
  assumes laws: "live_laws head repo branch tip T mgr sleep" and health: "\<forall>w. head (snd (health w)) = head w"
    and poll: "0 < poll"
    and run: "reversible_apply T supports mgr sleep health timeout poll repo branch service w = Some (Inr res, w')"
  shows "(if healthy res then applied res \<and> \<not> rolled_back res \<and> head w' = tip \<and> (\<exists>w1. health w1 = (Inr True, w'))
     else rolled_back res = applied res \<and> (if applied res then (hard_reset_works T repo \<longrightarrow> head w' = head w)
        \<and> (hard_reset_fails T repo \<longrightarrow> head w' = tip) else head w' = head w))"
proof -
  note L = live_lawsD [OF laws]
  obtain rm w1 where m: "apply_merge T supports repo branch w = (Inr rm, w1)"
    using run by (auto simp: reversible_apply_def split: prod.splits sum.splits)
  note M = apply_merge_head [OF laws m]
  show ?thesis
  proof (cases rm)
    case (Inl r)
    with M m run show ?thesis by (auto simp: reversible_apply_def)
  next
    case (Inr ba)
    obtain before aft where ba: "rm = Inr (before, aft)" using Inr by (cases ba) simp
    with M have h1: "head w1 = tip" "before = head w" by auto
    from run m ba have g: "apply_gate T mgr sleep health timeout poll repo branch service before aft w1 = Some (Inr res, w')"
      by (simp add: reversible_apply_def)
    obtain rr w2 where r: "svc_restart mgr service w1 = (rr, w2)" by (cases "svc_restart mgr service w1")
    have h2: "head w2 = head w1" by (rule L(8) [OF r])
    obtain rp w3 where p: "health_polls (polls_left timeout poll 0) poll sleep health 0 w2 = (rp, w3)"
      by (cases "health_polls (polls_left timeout poll 0) poll sleep health 0 w2")
    note P = polls_result [OF p L(9) health]
    have undoing: "(hard_reset_works T repo \<longrightarrow> head v' = head w) \<and> (hard_reset_fails T repo \<longrightarrow> head v' = tip)
        \<and> rolled_back res \<and> applied res \<and> \<not> healthy res \<and> v' = w'"
      if "rollback T mgr repo service (head w) v = (rb, v')" "head v = tip"
        "act_then (rollback T mgr repo service (head w)) (act_return \<lparr>applied = True, healthy = False, rolled_back = True,
           before_sha = Some before, after_sha = Some aft, apply_detail = msg\<rparr>) v = (Inr res, w')" for v rb v' msg
      using rollback_apply [OF laws that(1)] that h1 by (auto simp: act_then_apply split: sum.splits)
    show ?thesis
    proof (cases rr)
      case (Inl e)
      with g r show ?thesis by (simp add: apply_gate_def)
    next
      case (Inr good)
      show ?thesis
      proof (cases "\<exists>s. good \<and> rp = Inr (Some s)")
        case True
        then obtain s where "good" "rp = Inr (Some s)" by blast
        with g r Inr p P h1 h2 show ?thesis by (auto simp: apply_gate_def health_wait_polls [OF poll])
      next
        case False
        then obtain v msg where "head v = tip"
          "act_then (rollback T mgr repo service (head w)) (act_return \<lparr>applied = True, healthy = False, rolled_back = True,
             before_sha = Some before, after_sha = Some aft, apply_detail = msg\<rparr>) v = (Inr res, w')"
          using g r Inr p P h1 h2
          by (cases rp; cases good) (auto simp: apply_gate_def health_wait_polls [OF poll] Let_def split: option.splits)
        moreover obtain rb v' where "rollback T mgr repo service (head w) v = (rb, v')"
          by (cases "rollback T mgr repo service (head w) v")
        ultimately have "(hard_reset_works T repo \<longrightarrow> head w' = head w) \<and> (hard_reset_fails T repo \<longrightarrow> head w' = tip)
            \<and> rolled_back res \<and> applied res \<and> \<not> healthy res"
          using undoing by blast
        then show ?thesis by simp
      qed
    qed
  qed
qed


text \<open>A rollback that does not happen is reported as one: when \<open>git reset --hard\<close> fails, the result still says
  \<open>rolled_back\<close> and the live tree stays at the fix that was found unhealthy.\<close>

theorem rollback_claimed:
  assumes "live_laws head repo branch tip T mgr sleep" "\<forall>w. head (snd (health w)) = head w" "0 < poll" "hard_reset_fails T repo"
    and "reversible_apply T supports mgr sleep health timeout poll repo branch service w = Some (Inr res, w')" "applied res"
    and "\<not> healthy res"
  shows "rolled_back res \<and> head w' = tip"
  using apply_result [OF assms(1-3,5)] assms(4,6,7) by (auto split: if_splits)

subsection \<open>The decision\<close>

lemma an_domain_log [simp]: "an_domain (a\<lparr>last_log := x\<rparr>) = an_domain a"
  by (simp add: an_domain_def)

lemma auto_apply_needs:
  assumes "maybe_auto_apply cfg A tracks anomaly repo branch base_sha w = Some (r, w')"
    and "r \<noteq> Inr None \<or> w' \<noteq> w"
  shows "autonomy_auto_apply_enabled cfg \<and> an_service anomaly \<noteq> []
    \<and> graduated (get_track_record (RAWOS_ENTITY_USER_ID, repo, an_domain anomaly) tracks)"
  using assms unfolding maybe_auto_apply_def by (auto split: if_splits)

lemma auto_apply_small_diff:
  assumes "maybe_auto_apply cfg A tracks anomaly repo branch base_sha w = Some (r, w')"
    and "w' \<noteq> w" "\<forall>w. head (snd (run_cmd (ae_tools A) (cmd_shortstat base_sha branch) repo w)) = head w" "head w' \<noteq> head w"
  shows "\<exists>d w1. run_cmd (ae_tools A) (cmd_shortstat base_sha branch) repo w = (Inr d, w1) \<and> exit_code d = 0
    \<and> parse_diff_shortstat_total (bash_stdout d) \<le> AUTO_APPLY_MAX_DIFF_LINES"
  using assms unfolding maybe_auto_apply_def
  by (auto split: if_splits prod.splits sum.splits simp: not_less) (metis snd_conv)+


subsection \<open>A merge that is left behind\<close>

text \<open>The same git, except that \<open>rev-parse HEAD\<close> cannot be started once the live tree stands at the tip.\<close>

definition lossy :: "('w \<Rightarrow> string) \<Rightarrow> string \<Rightarrow> 'w tool_env \<Rightarrow> 'w tool_env" where
  "lossy head tip T = T\<lparr>run_cmd := (\<lambda>c d w. if c = REV_PARSE_HEAD \<and> head w = tip then (Inl SandboxError, w) else run_cmd T c d w)\<rparr>"

lemma cmd_distinct [simp]: "cmd_merge_ff b \<noteq> REV_PARSE_HEAD" "cmd_shortstat a b \<noteq> REV_PARSE_HEAD"
  by (simp_all add: cmd_merge_ff_def cmd_shortstat_def REV_PARSE_HEAD_def)

lemma lossy_sel [simp]: "exn_text (lossy head tip T) = exn_text T"
  "run_cmd (lossy head tip T) (cmd_merge_ff b) = run_cmd T (cmd_merge_ff b)"
  "run_cmd (lossy head tip T) (cmd_shortstat x b) = run_cmd T (cmd_shortstat x b)"
  "is_anima_source_tree (lossy head tip T) = is_anima_source_tree T"
  by (simp_all add: lossy_def is_anima_source_tree_def git_common_dir_def REV_PARSE_HEAD_def fun_eq_iff cmd_merge_ff_def cmd_shortstat_def)

lemma lossy_rev: "run_cmd (lossy head tip T) REV_PARSE_HEAD d w =
    (if head w = tip then (Inl SandboxError, w) else run_cmd T REV_PARSE_HEAD d w)"
  by (simp add: lossy_def)

lemma lossy_merge:
  assumes laws: "live_laws head repo branch tip T mgr sleep" and new: "head w \<noteq> tip"
    and m: "apply_merge T supports repo branch w = (Inr (Inr ba), w')"
  shows "\<exists>w1. apply_merge (lossy head tip T) supports repo branch w = (Inl SandboxError, w1) \<and> head w1 = tip"
proof -
  note L = live_lawsD [OF laws]
  have supports using m by (cases supports) (auto simp: apply_merge_def)
  obtain ro w1 where w1: "is_anima_source_tree T repo w = (ro, w1)" by (cases "is_anima_source_tree T repo w")
  obtain r2 w2 where w2: "run_cmd T REV_PARSE_HEAD repo w1 = (r2, w2)" by (cases "run_cmd T REV_PARSE_HEAD repo w1")
  obtain r3 w3 where w3: "run_cmd T (cmd_merge_ff branch) repo w2 = (r3, w3)" by (cases "run_cmd T (cmd_merge_ff branch) repo w2")
  have h: "head w1 = head w" by (rule L(1) [OF w1])
  obtain b where b: "ro = Inr False" "r2 = Inr b" "exit_code b = 0"
    using m \<open>supports\<close> w1 w2 by (auto simp: apply_merge_def act_bind_apply attempt_sandbox_apply split: sum.splits if_splits)
  obtain q where q: "r3 = Inr q" "exit_code q = 0"
    using m \<open>supports\<close> w1 w2 w3 b
    by (cases r3) (auto simp: apply_merge_def act_bind_apply attempt_sandbox_apply Let_def split: if_splits)
  have "head w3 = tip" using L(4) [OF w3 [unfolded q(1)]] q(2) by simp
  then show ?thesis
    using \<open>supports\<close> w1 w2 w3 b q h new
    by (simp add: apply_merge_def act_bind_apply attempt_sandbox_apply Let_def lossy_rev)
qed

text \<open>Every application of a fix can be left behind half done and unreported. Take any run of \<open>_maybe_auto_apply\<close> that
  merges a fix: if only the second \<open>git rev-parse HEAD\<close> cannot be started, the fix is merged into the live tree, the
  service is neither restarted nor checked, nothing is rolled back, and the report reads \<open>Fix remains propose-only\<close>.\<close>

theorem merge_left_behind:
  assumes "live_laws head (affected_path a) branch tip (ae_tools A) (ae_manager A) (ae_sleep A)"
    and "\<forall>w. head (snd (run_cmd (ae_tools A) (cmd_shortstat base branch) (affected_path a) w)) = head w"
    and "maybe_auto_apply cfg A tracks a (affected_path a) branch base w = Some (Inr (Some res), w')"
    and "applied res" "head w \<noteq> tip"
  shows "\<exists>w1. apply_and_report cfg (A\<lparr>ae_tools := lossy head tip (ae_tools A)\<rparr>) tracks a branch base txt w
      = Some (txt @ raised_note, w1) \<and> head w1 = tip"
proof -
  let ?T = "ae_tools A"
  obtain d w1 where d: "run_cmd ?T (cmd_shortstat base branch) (affected_path a) w = (Inr d, w1)" "exit_code d = 0"
      "\<not> parse_diff_shortstat_total (bash_stdout d) > AUTO_APPLY_MAX_DIFF_LINES"
    and r: "reversible_apply ?T (ae_supports A) (ae_manager A) (ae_sleep A) (live_health_check A (an_service a))
        HEALTH_GATE_TIMEOUT_S HEALTH_GATE_POLL_INTERVAL_S (affected_path a) branch (an_service a) w1 = Some (Inr res, w')"
    using assms(3) unfolding maybe_auto_apply_def by (auto split: if_splits prod.splits sum.splits option.splits)
  have open_gate: "autonomy_auto_apply_enabled cfg" "an_service a \<noteq> []"
    "graduated (get_track_record (RAWOS_ENTITY_USER_ID, affected_path a, an_domain a) tracks)"
    using auto_apply_needs [OF assms(3)] by auto
  have h1: "head w1 \<noteq> tip" using assms(2,5) d(1) by (metis snd_conv)
  obtain rm w2 where m: "apply_merge ?T (ae_supports A) (affected_path a) branch w1 = (Inr rm, w2)"
    using r by (auto simp: reversible_apply_def split: prod.splits sum.splits)
  have "\<not> isl rm" using apply_merge_head [OF assms(1) m] r m assms(4) by (auto simp: reversible_apply_def isl_def)
  then obtain ba where "rm = Inr ba" by (cases rm) auto
  from lossy_merge [OF assms(1) h1 m [unfolded this]] obtain w3 where
    "apply_merge (lossy head tip ?T) (ae_supports A) (affected_path a) branch w1 = (Inl SandboxError, w3)" "head w3 = tip" by blast
  then show ?thesis
    using d open_gate by (simp add: apply_and_report_def maybe_auto_apply_def reversible_apply_def)
qed

subsection \<open>A small machine\<close>

text \<open>The world is the commit of the live tree; the branch \<open>fix\<close> has the commit \<open>fix\<close>. \<open>well\<close> says at which commits the
  service is active, \<open>resets\<close> whether \<open>git reset\<close> works.\<close>

definition git_says :: "string \<Rightarrow> int \<Rightarrow> string \<Rightarrow> (exn + bash_result) \<times> string" where
  "git_says out c w = (Inr \<lparr>bash_stdout = out, bash_stderr = [], exit_code = c, bash_ms = 1, truncated = False\<rparr>, w)"

definition small_git :: "bool \<Rightarrow> string tool_env" where
  "small_git resets = \<lparr>run_cmd = (\<lambda>c d w. if c = REV_PARSE_HEAD then git_says w 0 w
       else if c = cmd_merge_ff ''fix'' then git_says [] 0 ''fix''
       else if startswith c ''git reset --hard '' then (if resets then git_says [] 0 (drop 17 c) else git_says [] 128 w)
       else if startswith c ''git diff'' then git_says '' 1 file changed, 2 insertions(+), 1 deletion(-)'' 0 w
       else git_says [] 128 w),
     guard_text = (\<lambda>a b. b), exn_text = (\<lambda>e. ''error''), tool_source_root = ''/anima''\<rparr>"

definition small_manager :: "(string \<Rightarrow> bool) \<Rightarrow> string service_manager" where
  "small_manager well = \<lparr>is_active = (\<lambda>s. well), svc_restart = (\<lambda>s. act_return True), svc_start = (\<lambda>s. act_return True),
     svc_stop = (\<lambda>s. act_return True)\<rparr>"

definition small_apply :: "bool \<Rightarrow> (string \<Rightarrow> bool) \<Rightarrow> string apply_env" where
  "small_apply resets well = \<lparr>ae_tools = small_git resets, ae_manager = small_manager well, ae_supports = True,
     ae_sleep = (\<lambda>t. act_return ())\<rparr>"

lemma small_simps [simp]:
  "run_cmd (small_git resets) REV_PARSE_HEAD d w = git_says w 0 w"
  "run_cmd (small_git resets) (cmd_merge_ff ''fix'') d w = git_says [] 0 ''fix''"
  "run_cmd (small_git resets) (cmd_reset_hard sha) d w = (if resets then git_says [] 0 sha else git_says [] 128 w)"
  "run_cmd (small_git resets) (cmd_shortstat b c) d w = git_says '' 1 file changed, 2 insertions(+), 1 deletion(-)'' 0 w"
  "is_anima_source_tree (small_git resets) d w = (Inr False, w)"
  "svc_restart (small_manager well) s w = (Inr True, w)" "is_active (small_manager well) s w = well w"
  by (simp_all add: small_git_def small_manager_def REV_PARSE_HEAD_def cmd_merge_ff_def cmd_reset_hard_def cmd_shortstat_def
      is_anima_source_tree_def git_common_dir_def act_bind_apply git_says_def startswith_def)

lemma small_apply_sel [simp]: "ae_tools (small_apply resets well) = small_git resets"
  "ae_manager (small_apply resets well) = small_manager well" "ae_supports (small_apply resets well)"
  "ae_sleep (small_apply resets well) t = act_return ()"
  by (simp_all add: small_apply_def)

lemma small_laws: "live_laws py_strip repo ''fix'' ''fix'' (small_git resets) (small_manager well) (\<lambda>t. act_return ())"
proof -
  have "py_strip ''fix'' = ''fix''" by code_simp
  then show ?thesis unfolding live_laws_def by (auto simp: git_says_def)
qed

lemma polls_never:
  "\<forall>w. sleep poll w = (Inr (), w) \<Longrightarrow> \<forall>w. health w = (Inr False, w) \<Longrightarrow> health_polls n poll sleep health elapsed w = (Inr None, w)"
  by (induction n arbitrary: elapsed) simp_all

lemma small_words: "py_strip ''fix'' = ''fix''" "py_strip ''old'' = ''old''"
  "parse_diff_shortstat_total '' 1 file changed, 2 insertions(+), 1 deletion(-)'' = 3"
  by code_simp+

definition unhealthy_result :: ApplyResult where
  "unhealthy_result = \<lparr>applied = True, healthy = False, rolled_back = True, before_sha = Some ''old'', after_sha = Some ''fix'',
     apply_detail = applied_text ''fix'' ''old'' ''fix'' @ '' but '' @ ''app'' @ '' not healthy within ''
       @ show_int HEALTH_GATE_TIMEOUT_S @ ''s - rolled back to '' @ ''old''\<rparr>"

lemma small_unhealthy:
  "reversible_apply (small_git resets) True (small_manager well) (\<lambda>t. act_return ()) (act_return False)
     HEALTH_GATE_TIMEOUT_S HEALTH_GATE_POLL_INTERVAL_S ''/repo'' ''fix'' ''app'' ''old''
   = Some (Inr unhealthy_result, if resets then ''old'' else ''fix'')"
  by (simp add: reversible_apply_def apply_merge_def apply_gate_def default_wait polls_never act_simps attempt_sandbox_apply
      git_says_def small_words rollback_def unhealthy_result_def Let_def)


theorem rollback_claimed_witness:
  "rolled_back unhealthy_result \<and> py_strip (if False then ''old'' else ''fix'') = ''fix''"
proof -
  have "hard_reset_fails (small_git False) ''/repo''" by (simp add: hard_reset_fails_def git_says_def)
  from rollback_claimed [OF small_laws _ _ this small_unhealthy [where resets = False]] show ?thesis
    by (simp add: unhealthy_result_def HEALTH_GATE_POLL_INTERVAL_S_def)
qed

definition small_anomaly :: ServerAnomaly where
  "small_anomaly = \<lparr>an_kind = ''service_failed'', affected_path = ''/repo'', an_service = ''app'', an_detail = ''down'',
     last_log = [], severity = 8\<rparr>"

definition small_tracks :: track_table where
  "small_tracks k = Some (state_to_row (fresh_track\<lparr>graduated := True\<rparr>) 0)"

definition auto_settings :: Settings where
  "auto_settings = default_settings\<lparr>autonomy_auto_apply_enabled := True\<rparr>"

definition healthy_result :: ApplyResult where
  "healthy_result = \<lparr>applied = True, healthy = True, rolled_back = False, before_sha = Some ''old'', after_sha = Some ''fix'',
     apply_detail = applied_text ''fix'' ''old'' ''fix'' @ '', '' @ ''app'' @ '' healthy after '' @ show_int HEALTH_GATE_POLL_INTERVAL_S @ ''s''\<rparr>"

lemma polls_at_once: "0 < n \<Longrightarrow> \<forall>w. sleep poll w = (Inr (), w) \<Longrightarrow> \<forall>w. health w = (Inr True, w) \<Longrightarrow>
    health_polls n poll sleep health elapsed w = (Inr (Some (elapsed + poll)), w)"
  by (cases n) simp_all

lemma small_healthy:
  "reversible_apply (small_git True) True (small_manager (\<lambda>w. True)) (ae_sleep (small_apply True (\<lambda>w. True)))
     (live_health_check (small_apply True (\<lambda>w. True)) ''app'')
     HEALTH_GATE_TIMEOUT_S HEALTH_GATE_POLL_INTERVAL_S ''/repo'' ''fix'' ''app'' ''old'' = Some (Inr healthy_result, ''fix'')"
  by (simp add: reversible_apply_def apply_merge_def apply_gate_def default_wait polls_at_once act_simps attempt_sandbox_apply
      git_says_def small_words healthy_result_def Let_def live_health_check_def)

lemma small_decision:
  "maybe_auto_apply auto_settings (small_apply True (\<lambda>w. True)) small_tracks small_anomaly ''/repo'' ''fix'' base ''old''
   = Some (Inr (Some healthy_result), ''fix'')"
  using small_healthy small_words(3)
  by (simp add: maybe_auto_apply_def auto_settings_def small_anomaly_def small_tracks_def get_track_record_def
      git_says_def AUTO_APPLY_MAX_DIFF_LINES_def)

theorem merge_left_behind_witness:
  "\<exists>w1. apply_and_report auto_settings (small_apply True (\<lambda>w. True)\<lparr>ae_tools := lossy py_strip ''fix'' (small_git True)\<rparr>)
     small_tracks small_anomaly ''fix'' ''old'' ''done'' ''old'' = Some (''done'' @ raised_note, w1) \<and> py_strip w1 = ''fix''"
proof -
  have laws: "live_laws py_strip (affected_path small_anomaly) ''fix'' ''fix'' (ae_tools (small_apply True (\<lambda>w. True)))
      (ae_manager (small_apply True (\<lambda>w. True))) (ae_sleep (small_apply True (\<lambda>w. True)))"
    using small_laws [of "''/repo''" True "\<lambda>w. True"] by (simp add: small_anomaly_def small_apply_def)
  have quiet: "\<forall>w. py_strip (snd (run_cmd (ae_tools (small_apply True (\<lambda>w. True))) (cmd_shortstat ''old'' ''fix'')
      (affected_path small_anomaly) w)) = py_strip w"
    by (simp add: git_says_def)
  have run: "maybe_auto_apply auto_settings (small_apply True (\<lambda>w. True)) small_tracks small_anomaly (affected_path small_anomaly)
      ''fix'' ''old'' ''old'' = Some (Inr (Some healthy_result), ''fix'')"
    using small_decision by (simp add: small_anomaly_def)
  from merge_left_behind [OF laws quiet run, of "''done''"] show ?thesis by (simp add: healthy_result_def small_words)
qed

text \<open>The verification runs in a copy of the world: it cannot move the live tree.\<close>

definition small_wait :: "int \<Rightarrow> (string, VerificationResult) act \<Rightarrow> (string, VerificationResult) act" where
  "small_wait t m w = (fst (m w), w)"

definition small_events :: "agent_event list" where
  "small_events = [ToolAnswered ''c'' ''git_commit'' ''[fix abc1234] repair'' True 5]"

lemma small_events_branch: "committed_branch None small_events = Some ''fix''"
  by code_simp


subsection \<open>Counting lines\<close>

lemma total_stop: "list_all (\<lambda>c. \<not> is_digit c) s \<Longrightarrow> parse_diff_shortstat_total s = 0"
  by (subst parse_diff_shortstat_total.simps) (auto simp: list_all_iff dropWhile_eq_Nil_conv[THEN iffD2])

lemma total_step:
  assumes "list_all (\<lambda>c. \<not> is_digit c) pre" "\<not> is_digit c"
  shows "parse_diff_shortstat_total (pre @ show_nat n @ c # rest) =
    (if counts_lines (c # rest) then n else 0) + parse_diff_shortstat_total (c # rest)"
proof -
  have d: "list_all is_digit (show_nat n)" "show_nat n \<noteq> []" "digits_value (show_nat n) = n"
    using show_nat_digits [of n] unfolding list_all_iff by auto
  then obtain x xs where x: "show_nat n = x # xs" "is_digit x" by (cases "show_nat n") auto
  have drop: "dropWhile (\<lambda>c. \<not> is_digit c) (pre @ show_nat n @ c # rest) = show_nat n @ c # rest"
    using assms(1) x by (simp add: list_all_iff)
  have "takeWhile is_digit (show_nat n @ c # rest) = show_nat n" "dropWhile is_digit (show_nat n @ c # rest) = c # rest"
    using d(1) assms(2) by (simp_all add: list_all_iff)
  note td = this [unfolded x append_Cons]
  show ?thesis
    by (subst parse_diff_shortstat_total.simps) (simp only: drop [unfolded x(1) append_Cons] x(1) append_Cons list.case Let_def td d(3) [unfolded x(1)])
qed

text \<open>The size of a diff is read exactly: from a summary as \<open>git diff --shortstat\<close> prints it, for any numbers of files,
  insertions and deletions, the sum of the last two. A change of a binary file of any size is printed with two zeros,
  and counts as nothing.\<close>

theorem shortstat_exact:
  "parse_diff_shortstat_total ('' '' @ show_nat f @ '' files changed, '' @ show_nat n @ '' insertions(+), ''
     @ show_nat m @ '' deletions(-)'') = n + m"
proof -
  have "parse_diff_shortstat_total ('' '' @ show_nat f @ '' files changed, '' @ show_nat n @ '' insertions(+), ''
     @ show_nat m @ '' deletions(-)'')
    = parse_diff_shortstat_total ('' files changed, '' @ show_nat n @ '' insertions(+), '' @ show_nat m @ '' deletions(-)'')"
    using total_step [of "'' ''" "CHR '' ''" f] by (simp add: is_digit_def counts_lines_def startswith_def)
  also have "\<dots> = n + parse_diff_shortstat_total ('' insertions(+), '' @ show_nat m @ '' deletions(-)'')"
    using total_step [of "'' files changed, ''" "CHR '' ''" n] by (simp add: is_digit_def counts_lines_def startswith_def)
  also have "\<dots> = n + (m + parse_diff_shortstat_total '' deletions(-)'')"
    using total_step [of "'' insertions(+), ''" "CHR '' ''" m] by (simp add: is_digit_def counts_lines_def startswith_def)
  also have "\<dots> = n + m" using total_stop [of "'' deletions(-)''"] by (simp add: is_digit_def)
  finally show ?thesis .
qed

end
