(* ===== verification/Trust_Ladder.thy ===== *)
theory Trust_Ladder
  imports Anima_Prelude Py_Paths
begin

text \<open>
  The trust a user grants the assistant: ratings of artifacts (\<open>anima/evaluation/feedback.py\<close>), the levels they earn and
  lose (\<open>anima/api/trust_routes.py\<close>), and the tools a level gives to a proactive run
  (\<open>_get_tools_for_autonomy_level\<close> and its siblings in \<open>anima/scheduler/proactive.py\<close>). Tables are maps or lists of rows;
  the metrics are not modelled. \<open>resolve\<close> expands the home directory and the symbolic links of a path.
\<close>

subsection \<open>Tables\<close>

record grant_row =
  g_level :: int
  g_good :: int
  g_bad :: int
  g_granted_at :: "int option"
  g_last_action :: "int option"

record artifact_row =
  pa_id :: string
  pa_user :: string
  pa_path :: string
  pa_artifact :: "string option"

record rating_row =
  rt_id :: string
  rt_user :: string
  rt_proactive :: "string option"
  rt_artifact :: "string option"
  rt_path :: string
  rt_rating :: int
  rt_comment :: "string option"
  rt_ts :: int

record inference_row =
  inf_artifact :: "string option"
  inf_correct :: "int option"

record trust_db =
  td_grants :: "(string \<times> string) \<Rightarrow> grant_row option"
  td_artifacts :: "artifact_row list"
  td_ratings :: "rating_row list"
  td_inferences :: "inference_row list"

subsection \<open>Ratings\<close>

definition fresh_grant :: "int \<Rightarrow> grant_row" where
  "fresh_grant now = \<lparr>g_level = 0, g_good = 0, g_bad = 0, g_granted_at = Some now, g_last_action = None\<rparr>"

definition rate_grant :: "int \<Rightarrow> int \<Rightarrow> grant_row \<Rightarrow> grant_row" where
  "rate_grant rating now g =
     (if rating \<ge> 3 then g\<lparr>g_good := g_good g + 1, g_last_action := Some now\<rparr>
      else let new_bad = g_bad g + 1 in
        if new_bad \<ge> 2 \<and> g_level g > 0
        then g\<lparr>g_level := g_level g - 1, g_bad := 0, g_last_action := Some now\<rparr>
        else g\<lparr>g_bad := new_bad, g_last_action := Some now\<rparr>)"

definition update_autonomy_on_rating :: "string \<Rightarrow> int \<Rightarrow> int \<Rightarrow> trust_db \<Rightarrow> trust_db" where
  "update_autonomy_on_rating user rating now d =
     (let k = (user, ''analysis''); g = (case td_grants d k of None \<Rightarrow> fresh_grant now | Some g \<Rightarrow> g)
      in d\<lparr>td_grants := (td_grants d)(k \<mapsto> rate_grant rating now g)\<rparr>)"

definition mark_inference_correct :: "string \<Rightarrow> int \<Rightarrow> trust_db \<Rightarrow> trust_db" where
  "mark_inference_correct pid correct d = d\<lparr>td_inferences := map (\<lambda>r. if inf_artifact r = Some pid
     then r\<lparr>inf_correct := Some correct\<rparr> else r) (td_inferences d)\<rparr>"

definition find_artifact :: "string \<Rightarrow> string \<Rightarrow> trust_db \<Rightarrow> artifact_row option" where
  "find_artifact user abs_path d = (case find (\<lambda>r. pa_user r = user \<and> pa_path r = abs_path) (td_artifacts d) of
       Some r \<Rightarrow> Some r
     | None \<Rightarrow> find (\<lambda>r. pa_user r = user \<and> sql_like (CHR ''%'' # path_name abs_path) (pa_path r)) (td_artifacts d))"

definition store_rating ::
    "string \<Rightarrow> string \<Rightarrow> artifact_row option \<Rightarrow> int \<Rightarrow> string option \<Rightarrow> string \<Rightarrow> int \<Rightarrow> trust_db \<Rightarrow> string \<times> trust_db" where
  "store_rating user abs_path row rating comment new_id now d =
     (case find (\<lambda>r. rt_user r = user \<and> rt_path r = abs_path) (td_ratings d) of
        Some old \<Rightarrow> (rt_id old, d\<lparr>td_ratings := map (\<lambda>r. if rt_id r = rt_id old
            then r\<lparr>rt_rating := rating, rt_comment := comment, rt_ts := now\<rparr> else r) (td_ratings d)\<rparr>)
      | None \<Rightarrow> (new_id, d\<lparr>td_ratings := td_ratings d @ [\<lparr>rt_id = new_id, rt_user = user,
            rt_proactive = map_option pa_id row, rt_artifact = Option.bind row pa_artifact, rt_path = abs_path,
            rt_rating = rating, rt_comment = comment, rt_ts = now\<rparr>]\<rparr>))"

definition submit_rating ::
    "(string \<Rightarrow> string) \<Rightarrow> string \<Rightarrow> string \<Rightarrow> int \<Rightarrow> string option \<Rightarrow> string \<Rightarrow> int \<Rightarrow> (trust_db, string \<times> int \<times> string) act" where
  "submit_rating resolve user file_path rating comment new_id now =
     (if \<not> (1 \<le> rating \<and> rating \<le> 5) then act_raise PyValueError
      else let abs_path = resolve file_path in
      act_bind (act_get (find_artifact user abs_path)) (\<lambda>row.
      act_bind (\<lambda>d. case store_rating user abs_path row rating comment new_id now d of (i, d') \<Rightarrow> (Inr i, d')) (\<lambda>rating_id.
      act_then (case row of None \<Rightarrow> act_return ()
          | Some r \<Rightarrow> if pa_id r = [] then act_return () else act_modify (mark_inference_correct (pa_id r) (if rating \<ge> 3 then 1 else 0)))
      (act_then (act_modify (update_autonomy_on_rating user rating now))
        (act_return (rating_id, rating, abs_path))))))"

subsection \<open>Levels\<close>

definition upgrade_threshold :: "int \<Rightarrow> int option" where
  "upgrade_threshold level = (if level = 1 then Some 10 else if level = 2 then Some 15 else if level = 3 then Some 20
     else if level = 4 then Some 25 else None)"

definition MAX_BAD_FOR_UPGRADE :: int where "MAX_BAD_FOR_UPGRADE = 2"

definition http_error :: "int \<Rightarrow> exn" where "http_error status = ExternalError (''HTTP '' @ show_int status)"

text \<open>One entry of \<open>GET /trust/status\<close>: the level, the next threshold and whether an upgrade is open.\<close>

definition status_entry :: "grant_row \<Rightarrow> int \<times> int option \<times> bool" where
  "status_entry g = (let next_threshold = upgrade_threshold (g_level g + 1) in
     (g_level g, next_threshold, (case next_threshold of None \<Rightarrow> False
        | Some n \<Rightarrow> g_good g \<ge> n \<and> g_bad g < MAX_BAD_FOR_UPGRADE)))"

definition trust_grant :: "string \<Rightarrow> string \<Rightarrow> int \<Rightarrow> (trust_db, int \<times> int) act" where
  "trust_grant user action_type now = act_bind (act_get (\<lambda>d. td_grants d (user, action_type))) (\<lambda>row. case row of
       None \<Rightarrow> act_raise (http_error 404)
     | Some g \<Rightarrow> (case upgrade_threshold (g_level g + 1) of
         None \<Rightarrow> act_raise (http_error 400)
       | Some threshold \<Rightarrow>
           if g_good g < threshold then act_raise (http_error 400)
           else if g_bad g \<ge> MAX_BAD_FOR_UPGRADE then act_raise (http_error 400)
           else act_then (act_modify (\<lambda>d. d\<lparr>td_grants := (td_grants d)((user, action_type) \<mapsto>
                  g\<lparr>g_level := g_level g + 1, g_granted_at := Some now\<rparr>)\<rparr>))
             (act_return (g_level g, g_level g + 1))))"

definition trust_revoke :: "string \<Rightarrow> string \<Rightarrow> (trust_db, int \<times> int) act" where
  "trust_revoke user action_type = act_bind (act_get (\<lambda>d. td_grants d (user, action_type))) (\<lambda>row. case row of
       None \<Rightarrow> act_raise (http_error 404)
     | Some g \<Rightarrow> act_then (act_modify (\<lambda>d. d\<lparr>td_grants := (td_grants d)((user, action_type) \<mapsto> g\<lparr>g_level := 0, g_bad := 0\<rparr>)\<rparr>))
         (act_return (g_level g, 0)))"

definition get_user_autonomy_level :: "string \<Rightarrow> string \<Rightarrow> trust_db \<Rightarrow> int" where
  "get_user_autonomy_level user action_type d = (case td_grants d (user, action_type) of None \<Rightarrow> 0 | Some g \<Rightarrow> g_level g)"

subsection \<open>Tools\<close>

definition TOOL_LEVEL_MAP :: "(string \<times> int) list" where
  "TOOL_LEVEL_MAP = [(''bash_readonly'', 0), (''list_files'', 0), (''read_file'', 0), (''write_file'', 1), (''bash'', 2),
     (''git_branch'', 2), (''git_commit'', 2), (''fetch_url'', 3), (''deploy'', 4)]"

definition tools_status :: "string \<Rightarrow> trust_db \<Rightarrow> (string \<times> bool) list" where
  "tools_status user d = map (\<lambda>(t, l). (t, l \<le> get_user_autonomy_level user ''analysis'' d)) TOOL_LEVEL_MAP"

definition level_tools :: "int \<Rightarrow> string list option" where
  "level_tools level =
     (if level = 0 then Some [''bash_readonly'', ''read_file'', ''list_files'']
      else if level = 1 then Some [''bash_readonly'', ''read_file'', ''list_files'', ''write_file'']
      else if level = 2 then Some [''bash'', ''read_file'', ''list_files'', ''write_file'', ''git_branch'', ''git_commit'']
      else if level = 3 then Some [''bash'', ''read_file'', ''list_files'', ''write_file'', ''git_branch'', ''git_commit'', ''fetch_url'']
      else if level = 4 then Some [''bash'', ''read_file'', ''list_files'', ''write_file'', ''git_branch'', ''git_commit'', ''fetch_url'',
        ''deploy'']
      else None)"

text \<open>The names in \<open>TOOL_DEFINITIONS\<close>, in its order; the tools offered are those of the level.\<close>

definition TOOL_NAMES :: "string list" where
  "TOOL_NAMES = [''bash'', ''bash_readonly'', ''write_file'', ''read_file'', ''list_files'', ''fetch_url'', ''deploy'', ''git_branch'',
     ''git_commit'', ''manage_file'', ''manage_service'', ''manage_pam'', ''manage_owned_resource'', ''manage_venv'']"

definition tools_for_autonomy_level :: "int \<Rightarrow> string list" where
  "tools_for_autonomy_level level = (let allowed = (case level_tools (min level 4) of Some ts \<Rightarrow> ts | None \<Rightarrow> the (level_tools 4))
     in filter (\<lambda>t. t \<in> set allowed) TOOL_NAMES)"

definition SERVER_SCAN_TOOLS :: "string list" where
  "SERVER_SCAN_TOOLS = [''bash_readonly'', ''read_file'', ''list_files'', ''write_file'', ''git_branch'', ''git_commit'']"

definition SELF_PROBE_TOOLS :: "string list" where
  "SELF_PROBE_TOOLS = [''bash_readonly'', ''read_file'', ''list_files'', ''write_file'', ''git_commit'']"

definition tools_for_server_scan :: "string list" where
  "tools_for_server_scan = filter (\<lambda>t. t \<in> set SERVER_SCAN_TOOLS) TOOL_NAMES"

definition tools_for_self_probe :: "string list" where
  "tools_for_self_probe = filter (\<lambda>t. t \<in> set SELF_PROBE_TOOLS) TOOL_NAMES"

subsection \<open>Histories\<close>

datatype trust_op =
    Rate string string int "string option" string int
  | Grant string string int
  | Revoke string string

fun trust_step :: "(string \<Rightarrow> string) \<Rightarrow> trust_op \<Rightarrow> trust_db \<Rightarrow> trust_db" where
  "trust_step resolve (Rate u p r c i now) d = snd (submit_rating resolve u p r c i now d)"
| "trust_step resolve (Grant u a now) d = snd (trust_grant u a now d)"
| "trust_step resolve (Revoke u a) d = snd (trust_revoke u a d)"

text \<open>The seeded table: every grant is at level 0 without counts.\<close>

definition seeded :: "trust_db \<Rightarrow> bool" where
  "seeded d \<longleftrightarrow> (\<forall>k g. td_grants d k = Some g \<longrightarrow> g_level g = 0 \<and> g_good g = 0 \<and> g_bad g = 0)"

inductive trust_reachable :: "(string \<Rightarrow> string) \<Rightarrow> trust_db \<Rightarrow> bool" for resolve where
  start: "seeded d \<Longrightarrow> trust_reachable resolve d"
| step: "trust_reachable resolve d \<Longrightarrow> trust_reachable resolve (trust_step resolve op d)"

subsection \<open>What a rating does to the grants\<close>

lemma store_grants: "td_grants (snd (store_rating u p row r c i now d)) = td_grants d"
  by (simp add: store_rating_def split: option.split)

lemma mark_grants [simp]: "td_grants (mark_inference_correct pid v d) = td_grants d"
  by (simp add: mark_inference_correct_def)

lemma rating_grants: "td_grants (snd (submit_rating resolve u p r c i now d)) =
    (if 1 \<le> r \<and> r \<le> 5 then (td_grants d)((u, ''analysis'') \<mapsto>
       rate_grant r now (case td_grants d (u, ''analysis'') of None \<Rightarrow> fresh_grant now | Some g \<Rightarrow> g))
     else td_grants d)"
  using store_grants [of u "resolve p" "find_artifact u (resolve p) d" r c i now d]
  by (auto simp: submit_rating_def act_simps Let_def update_autonomy_on_rating_def split: prod.split option.split)

lemma rating_accepted: "1 \<le> r \<Longrightarrow> r \<le> 5 \<Longrightarrow> \<exists>x. fst (submit_rating resolve u p r c i now d) = Inr x"
  by (auto simp: submit_rating_def act_simps Let_def split: prod.split option.split)

lemma grant_cases:
  obtains (refused) e where "trust_grant u a now d = (Inl e, d)"
    | (granted) g n where "td_grants d (u, a) = Some g" "upgrade_threshold (g_level g + 1) = Some n" "n \<le> g_good g" "g_bad g < 2"
        "trust_grant u a now d = (Inr (g_level g, g_level g + 1),
           d\<lparr>td_grants := (td_grants d)((u, a) \<mapsto> g\<lparr>g_level := g_level g + 1, g_granted_at := Some now\<rparr>)\<rparr>)"
proof (cases "fst (trust_grant u a now d)")
  case (Inl e)
  then have "trust_grant u a now d = (Inl e, d)"
    by (auto simp: trust_grant_def act_simps split: option.splits if_splits)
  then show thesis by (rule refused)
next
  case (Inr x)
  then obtain g n where "td_grants d (u, a) = Some g" "upgrade_threshold (g_level g + 1) = Some n" "\<not> g_good g < n" "\<not> g_bad g \<ge> 2"
    by (auto simp: trust_grant_def act_simps MAX_BAD_FOR_UPGRADE_def split: option.splits if_splits)
  then show thesis by (intro granted [of g n]) (simp_all add: trust_grant_def act_simps MAX_BAD_FOR_UPGRADE_def)
qed

subsection \<open>The ladder\<close>

text \<open>The good ratings a level stands for.\<close>

definition earned :: "int \<Rightarrow> int" where
  "earned level = (case upgrade_threshold level of None \<Rightarrow> 0 | Some n \<Rightarrow> n)"

definition grant_ok :: "grant_row \<Rightarrow> bool" where
  "grant_ok g \<longleftrightarrow> 0 \<le> g_level g \<and> g_level g \<le> 4 \<and> 0 \<le> g_bad g \<and> earned (g_level g) \<le> g_good g"

lemma earned_simps: "earned 0 = 0" "earned 1 = 10" "earned 2 = 15" "earned 3 = 20" "earned 4 = 25"
  by (simp_all add: earned_def upgrade_threshold_def)

lemma level_cases: "0 \<le> (l::int) \<Longrightarrow> l \<le> 4 \<Longrightarrow> l = 0 \<or> l = 1 \<or> l = 2 \<or> l = 3 \<or> l = 4"
  by arith

lemma rate_grant_ok: "grant_ok g \<Longrightarrow> grant_ok (rate_grant r now g)"
  unfolding grant_ok_def rate_grant_def Let_def
  using level_cases [of "g_level g"] by (auto simp: earned_simps)

lemma trust_step_ok:
  assumes "\<forall>k g. td_grants d k = Some g \<longrightarrow> grant_ok g"
  shows "\<forall>k g. td_grants (trust_step resolve op d) k = Some g \<longrightarrow> grant_ok g"
proof (cases op)
  case (Rate u p r c i now)
  have "grant_ok (fresh_grant now)" by (simp add: grant_ok_def fresh_grant_def earned_simps)
  with assms Rate show ?thesis by (auto simp: rating_grants rate_grant_ok split: option.split if_splits)
next
  case (Grant u a now)
  show ?thesis
  proof (cases rule: grant_cases [of u a now d])
    case (granted g n)
    then have "g_level g + 1 \<le> 4" "earned (g_level g + 1) \<le> g_good g"
      by (auto simp: upgrade_threshold_def earned_def split: if_splits)
    with granted assms Grant show ?thesis by (auto simp: grant_ok_def)
  qed (use assms Grant in simp)
next
  case (Revoke u a)
  have "0 \<le> earned l" for l by (simp add: earned_def upgrade_threshold_def)
  then have "grant_ok (g\<lparr>g_level := 0, g_bad := 0\<rparr>)" if "grant_ok g" for g
    using that order_trans [of 0 "earned (g_level g)" "g_good g"] by (simp add: grant_ok_def earned_simps)
  with assms Revoke show ?thesis by (auto simp: trust_revoke_def act_simps split: option.split if_splits)
qed

lemma reachable_ok: "trust_reachable resolve d \<Longrightarrow> \<forall>k g. td_grants d k = Some g \<longrightarrow> grant_ok g"
proof (induction rule: trust_reachable.induct)
  case (start d)
  then show ?case by (auto simp: seeded_def grant_ok_def earned_simps)
next
  case (step d op)
  then show ?case by (intro trust_step_ok) auto
qed

definition required_level :: "string \<Rightarrow> int" where
  "required_level t = (case map_of TOOL_LEVEL_MAP t of None \<Rightarrow> 0 | Some l \<Rightarrow> l)"

lemma tools_of_levels:
  "set (tools_for_autonomy_level 0) = {''bash_readonly'', ''read_file'', ''list_files''}"
  "set (tools_for_autonomy_level 1) = {''bash_readonly'', ''read_file'', ''list_files'', ''write_file''}"
  "set (tools_for_autonomy_level 2) = {''bash'', ''read_file'', ''list_files'', ''write_file'', ''git_branch'', ''git_commit''}"
  "set (tools_for_autonomy_level 3) = {''bash'', ''read_file'', ''list_files'', ''write_file'', ''git_branch'', ''git_commit'', ''fetch_url''}"
  "set (tools_for_autonomy_level 4) = {''bash'', ''read_file'', ''list_files'', ''write_file'', ''git_branch'', ''git_commit'', ''fetch_url'', ''deploy''}"
  by (auto simp: tools_for_autonomy_level_def level_tools_def TOOL_NAMES_def)

lemma required_levels:
  "required_level ''bash_readonly'' = 0" "required_level ''list_files'' = 0" "required_level ''read_file'' = 0"
  "required_level ''write_file'' = 1" "required_level ''bash'' = 2" "required_level ''git_branch'' = 2"
  "required_level ''git_commit'' = 2" "required_level ''fetch_url'' = 3" "required_level ''deploy'' = 4"
  by (simp_all add: required_level_def TOOL_LEVEL_MAP_def)


definition reported_tools :: "int \<Rightarrow> string list" where
  "reported_tools level = map fst (filter (\<lambda>(t, l). l \<le> level) TOOL_LEVEL_MAP)"

lemma reported: "{t. (t, True) \<in> set (tools_status user d)} =
    set (reported_tools (get_user_autonomy_level user ''analysis'' d))"
  unfolding tools_status_def reported_tools_def by force

lemma level_split: "0 \<le> (l::int) \<Longrightarrow> l = 0 \<or> l = 1 \<or> l = 2 \<or> l = 3 \<or> 4 \<le> l"
  by arith

lemma reported_below:
  "set (tools_for_autonomy_level 0) = set (reported_tools 0)" "set (tools_for_autonomy_level 1) = set (reported_tools 1)"
  "set (tools_for_autonomy_level 2) = set (reported_tools 2) - {''bash_readonly''}"
  "set (tools_for_autonomy_level 3) = set (reported_tools 3) - {''bash_readonly''}"
  "set (tools_for_autonomy_level 4) = set (reported_tools 4) - {''bash_readonly''}"
  by code_simp+

lemma reported_above: "4 \<le> l \<Longrightarrow> reported_tools l = reported_tools 4"
  by (simp add: reported_tools_def TOOL_LEVEL_MAP_def)

lemma tools_above: "4 \<le> l \<Longrightarrow> tools_for_autonomy_level l = tools_for_autonomy_level 4"
  by (simp add: tools_for_autonomy_level_def min_def)

text \<open>What a user is shown is what a run gets, but for one tool: at every level of the ladder the tools offered are
  those \<open>/trust/tools/status\<close> reports as available, except that \<open>bash_readonly\<close> is reported and no longer offered from
  level 2 on.\<close>

theorem status_matches_tools:
  assumes "0 \<le> get_user_autonomy_level user ''analysis'' d"
  shows "set (tools_for_autonomy_level (get_user_autonomy_level user ''analysis'' d))
    = {t. (t, True) \<in> set (tools_status user d)}
      - (if get_user_autonomy_level user ''analysis'' d \<ge> 2 then {''bash_readonly''} else {})"
proof -
  define l where "l = get_user_autonomy_level user ''analysis'' d"
  consider "l = 0" | "l = 1" | "l = 2" | "l = 3" | "4 \<le> l" using level_split [of l] assms l_def by auto
  then show ?thesis
    unfolding reported l_def [symmetric]
    using tools_above [of l] reported_above [of l] by cases (simp_all add: reported_below)
qed

subsection \<open>Ratings that should not count\<close>

lemma grant_up: "td_grants d (u, a) = Some g \<Longrightarrow> upgrade_threshold (g_level g + 1) = Some n \<Longrightarrow> n \<le> g_good g \<Longrightarrow> g_bad g < 2 \<Longrightarrow>
    td_grants (trust_step resolve (Grant u a now) d) (u, a) = Some (g\<lparr>g_level := g_level g + 1, g_granted_at := Some now\<rparr>)"
  by (simp add: trust_grant_def act_simps MAX_BAD_FOR_UPGRADE_def)

definition good_ratings :: "string \<Rightarrow> string \<Rightarrow> nat \<Rightarrow> trust_op list" where
  "good_ratings u p n = replicate n (Rate u p 5 None ''r'' 0)"

lemma good_ratings_count:
  assumes "td_grants d (u, ''analysis'') = Some g"
  shows "\<exists>t. td_grants (fold (trust_step resolve) (good_ratings u p n) d) (u, ''analysis'')
    = Some (g\<lparr>g_good := g_good g + int n, g_last_action := t\<rparr>)"
  using assms
proof (induction n arbitrary: d g)
  case 0
  then show ?case by (intro exI [of _ "g_last_action g"]) (simp add: good_ratings_def)
next
  case (Suc n)
  have "td_grants (trust_step resolve (Rate u p 5 None ''r'' 0) d) (u, ''analysis'')
      = Some (g\<lparr>g_good := g_good g + 1, g_last_action := Some 0\<rparr>)"
    using Suc.prems by (simp add: rating_grants rate_grant_def)
  from Suc.IH [OF this] show ?case by (auto simp: good_ratings_def add.assoc intro!: exI)
qed

lemma four_grants:
  assumes "td_grants d (u, a) = Some g" "g_level g = 0" "25 \<le> g_good g" "g_bad g < 2"
  shows "get_user_autonomy_level u a (fold (trust_step resolve) (replicate 4 (Grant u a now)) d) = 4"
proof -
  let ?s = "trust_step resolve (Grant u a now)"
  have t: "upgrade_threshold 1 = Some 10" "upgrade_threshold 2 = Some 15" "upgrade_threshold 3 = Some 20" "upgrade_threshold 4 = Some 25"
    by (simp_all add: upgrade_threshold_def)
  have up: "\<exists>g'. td_grants (?s e) (u, a) = Some g' \<and> g_level g' = g_level x + 1 \<and> g_good g' = g_good x \<and> g_bad g' = g_bad x"
    if "td_grants e (u, a) = Some x" "upgrade_threshold (g_level x + 1) = Some n" "n \<le> g_good x" "g_bad x < 2" for e x n
    using grant_up [OF that, of resolve now] by simp
  obtain g1 where 1: "td_grants (?s d) (u, a) = Some g1" "g_level g1 = 1" "g_good g1 = g_good g" "g_bad g1 = g_bad g"
    using up [OF assms(1), of 10] assms t by auto
  obtain g2 where 2: "td_grants (?s (?s d)) (u, a) = Some g2" "g_level g2 = 2" "g_good g2 = g_good g" "g_bad g2 = g_bad g"
    using up [OF 1(1), of 15] 1 assms t by auto
  obtain g3 where 3: "td_grants (?s (?s (?s d))) (u, a) = Some g3" "g_level g3 = 3" "g_good g3 = g_good g" "g_bad g3 = g_bad g"
    using up [OF 2(1), of 20] 2 assms t by auto
  obtain g4 where 4: "td_grants (?s (?s (?s (?s d)))) (u, a) = Some g4" "g_level g4 = 4"
    using up [OF 3(1), of 25] 3 assms t by auto
  have "fold (trust_step resolve) (replicate 4 (Grant u a now)) d = ?s (?s (?s (?s d)))" by (simp add: numeral_eq_Suc)
  with 4 show ?thesis by (simp add: get_user_autonomy_level_def)
qed

text \<open>C29: Trust can be had for nothing. Whatever the tables of artifacts and ratings hold, and so also when the path names
  no artifact at all or was rated before: a user with a seeded grant who rates one and the same path 25 times and then
  asks for an upgrade four times stands at level 4, and a proactive run is offered the full shell and \<open>deploy\<close>.\<close>

theorem trust_for_nothing:
  assumes "td_grants d (u, ''analysis'') = Some g" "g_level g = 0" "0 \<le> g_good g" "g_bad g < 2"
  shows "get_user_autonomy_level u ''analysis''
      (fold (trust_step resolve) (good_ratings u p 25 @ replicate 4 (Grant u ''analysis'' now)) d) = 4
    \<and> {''bash'', ''deploy''} \<subseteq> set (tools_for_autonomy_level (get_user_autonomy_level u ''analysis''
      (fold (trust_step resolve) (good_ratings u p 25 @ replicate 4 (Grant u ''analysis'' now)) d)))"
proof -
  obtain t where "td_grants (fold (trust_step resolve) (good_ratings u p 25) d) (u, ''analysis'')
      = Some (g\<lparr>g_good := g_good g + 25, g_last_action := t\<rparr>)"
    using good_ratings_count [OF assms(1), of resolve p 25] by auto
  from four_grants [OF this, of resolve now] assms(2-4) show ?thesis by (simp add: tools_of_levels)
qed

definition empty_trust :: trust_db where
  "empty_trust = \<lparr>td_grants = [(''u'', ''analysis'') \<mapsto> fresh_grant 0], td_artifacts = [], td_ratings = [], td_inferences = []\<rparr>"

theorem trust_for_nothing_witness:
  "get_user_autonomy_level ''u'' ''analysis''
     (fold (trust_step (\<lambda>p. p)) (good_ratings ''u'' ''/no/such/file'' 25 @ replicate 4 (Grant ''u'' ''analysis'' 9)) empty_trust) = 4"
  using trust_for_nothing [where d = empty_trust and u = "''u''" and g = "fresh_grant 0" and resolve = "\<lambda>p. p"
      and p = "''/no/such/file''" and now = 9]
  by (simp add: empty_trust_def fresh_grant_def)

text \<open>Bad ratings at level 0 lock a user out for good. Once a user at level 0 has two bad ratings, no further ratings
  by anyone open an upgrade again, good ones included, although the refusal asks for exactly that; only a revocation
  clears the count.\<close>

theorem bad_ratings_lock_out:
  assumes "td_grants d (u, ''analysis'') = Some g" "g_level g = 0" "2 \<le> g_bad g"
  shows "fst (trust_grant u ''analysis'' now (fold (\<lambda>(v, p, r, c, i, t). trust_step resolve (Rate v p r c i t)) ratings d))
    = Inl (http_error 400)"
  using assms
proof (induction ratings arbitrary: d g)
  case Nil
  then show ?case by (simp add: trust_grant_def act_simps MAX_BAD_FOR_UPGRADE_def upgrade_threshold_def)
next
  case (Cons x ratings)
  obtain v p r c i t where x: "x = (v, p, r, c, i, t)" by (metis prod.collapse)
  have "\<exists>g'. td_grants (trust_step resolve (Rate v p r c i t) d) (u, ''analysis'') = Some g' \<and> g_level g' = 0 \<and> 2 \<le> g_bad g'"
    using Cons.prems by (auto simp: rating_grants rate_grant_def Let_def)
  with Cons.IH x show ?case by auto
qed

definition locked_trust :: trust_db where
  "locked_trust = empty_trust\<lparr>td_grants := [(''u'', ''analysis'') \<mapsto> (fresh_grant 0)\<lparr>g_bad := 2\<rparr>]\<rparr>"

theorem bad_ratings_lock_out_witness:
  "fst (trust_grant ''u'' ''analysis'' 9 (fold (\<lambda>(v, p, r, c, i, t). trust_step (\<lambda>p. p) (Rate v p r c i t))
     (replicate 100 (''u'', ''/a'', 5, None, ''r'', 1)) locked_trust)) = Inl (http_error 400)"
  by (rule bad_ratings_lock_out [where g = "(fresh_grant 0)\<lparr>g_bad := 2\<rparr>"]) (simp_all add: locked_trust_def empty_trust_def fresh_grant_def)

lemma reachable_fold: "trust_reachable resolve d \<Longrightarrow> trust_reachable resolve (fold (trust_step resolve) ops d)"
  by (induction ops arbitrary: d) (auto intro: trust_reachable.step)

lemma climbed: "get_user_autonomy_level ''u'' ''analysis''
    (fold (trust_step (\<lambda>p. p)) (good_ratings ''u'' ''/a'' 25 @ replicate 4 (Grant ''u'' ''analysis'' 9)) empty_trust) = 4"
proof -
  have "td_grants empty_trust (''u'', ''analysis'') = Some (fresh_grant 0)" by (simp add: empty_trust_def)
  from good_ratings_count [OF this, of "\<lambda>p. p" "''/a''" 25] obtain t where
    "td_grants (fold (trust_step (\<lambda>p. p)) (good_ratings ''u'' ''/a'' 25) empty_trust) (''u'', ''analysis'')
      = Some ((fresh_grant 0)\<lparr>g_good := 25, g_last_action := t\<rparr>)" by (auto simp: fresh_grant_def)
  from four_grants [OF this, of "\<lambda>p. p" 9] show ?thesis by (simp add: fresh_grant_def)
qed


theorem status_matches_tools_witness:
  "set (tools_for_autonomy_level (get_user_autonomy_level ''u'' ''analysis'' empty_trust)) = {t. (t, True) \<in> set (tools_status ''u'' empty_trust)}"
proof -
  have "get_user_autonomy_level ''u'' ''analysis'' empty_trust = 0"
    by (simp add: get_user_autonomy_level_def empty_trust_def fresh_grant_def)
  with status_matches_tools [of "''u''" empty_trust] show ?thesis by simp
qed

end
