(* ===== verification/Operator_Scan.thy ===== *)
theory Operator_Scan
  imports Anomaly_Verifier Managed_Tools Autonomous_Scan Accounts
begin

text \<open>
  The autonomous operator loop at the end of \<open>anima/scheduler/proactive.py\<close>: it runs the validators of the owner's
  managed files, asks a language model for a repair of those that fail, and hands the repair to the gate
  \<open>operate_on_file\<close>. Its state is the kernel state with the accounts, the rows of \<open>episodic_memory\<close> and
  \<open>proactive_artifacts\<close> that it writes, and the number of calls made to the model, which is a parameter. \<open>now\<close> is the
  second of a cycle. Confidences are in percent and dashes in messages are ASCII.
\<close>

subsection \<open>Text\<close>

definition ascii_letter :: "char \<Rightarrow> bool" where
  "ascii_letter c \<longleftrightarrow> (let n = (of_char c :: nat) in 65 \<le> n \<and> n \<le> 90 \<or> 97 \<le> n \<and> n \<le> 122)"

text \<open>\<open>^```[a-zA-Z]*\n(.*?)\n?```$\<close> on the stripped text: the group ends at the first place from which at most one line
  break and the closing fence are left.\<close>

definition strip_code_fences :: "string \<Rightarrow> string" where
  "strip_code_fences text = (let t = py_strip text; r = dropWhile ascii_letter (drop 3 t) in
     if \<not> startswith t ''```'' \<or> \<not> startswith r eol then text
     else let body = tl r in
       if ends_with body (eol @ ''```'') then take (length body - 4) body
       else if ends_with body ''```'' then take (length body - 3) body
       else text)"

subsection \<open>The state\<close>

record operator_episode = episode +
  ep_goal :: string
  ep_decision :: string
  ep_summary :: string

record proactive_artifact =
  pa_user :: string
  pa_goal :: string
  pa_confidence :: int
  pa_path :: string
  pa_action_type :: string
  pa_cooldown_key :: string
  pa_created_at :: int

record 'w scan_state =
  sc_kernel :: "'w kernel_state"
  sc_accounts :: accounts
  sc_episodes :: "operator_episode list"
  sc_artifacts :: "proactive_artifact list"
  sc_calls :: nat

text \<open>The operating system, and the model: the number of the call, the two messages, and an answer.\<close>

record 'w scan_env =
  sc_shell :: "'w shell"
  sc_llm :: "nat \<Rightarrow> string \<Rightarrow> string \<Rightarrow> exn + string option"

definition on_kernel :: "('w kernel_state, 'a) act \<Rightarrow> ('w scan_state, 'a) act" where
  "on_kernel m = (\<lambda>s. case m (sc_kernel s) of (r, k) \<Rightarrow> (r, s\<lparr>sc_kernel := k\<rparr>))"

definition on_accounts :: "(accounts, 'a) act \<Rightarrow> ('w scan_state, 'a) act" where
  "on_accounts m = (\<lambda>s. case m (sc_accounts s) of (r, a) \<Rightarrow> (r, s\<lparr>sc_accounts := a\<rparr>))"

lemma on_kernel_apply [act_simps]: "on_kernel m s = (case m (sc_kernel s) of (r, k) \<Rightarrow> (r, s\<lparr>sc_kernel := k\<rparr>))"
  by (simp add: on_kernel_def)

lemma on_accounts_apply [act_simps]: "on_accounts m s = (case m (sc_accounts s) of (r, a) \<Rightarrow> (r, s\<lparr>sc_accounts := a\<rparr>))"
  by (simp add: on_accounts_def)

subsection \<open>Asking for a repair\<close>

definition MAX_COMPLETION_INPUT :: nat where "MAX_COMPLETION_INPUT = 12000"

text \<open>\<open>summarizer._complete\<close>: the beginning of the text is sent, and every failure is an empty answer.\<close>

definition summarizer_complete :: "'w scan_env \<Rightarrow> string \<Rightarrow> string \<Rightarrow> ('w scan_state, string) act" where
  "summarizer_complete E system_prompt user_text = (\<lambda>s.
     (Inr (case sc_llm E (sc_calls s) system_prompt (take MAX_COMPLETION_INPUT user_text) of
        Inl e \<Rightarrow> [] | Inr None \<Rightarrow> [] | Inr (Some txt) \<Rightarrow> txt), s\<lparr>sc_calls := sc_calls s + 1\<rparr>))"

definition CONFIG_FIX_SYSTEM_PROMPT :: string where
  "CONFIG_FIX_SYSTEM_PROMPT = ''You are Anima, an autonomous machine operator repairing a broken managed configuration file on the host you run on.''
     @ eol @ eol @ ''You will be given the file's path, its current content, and the error output from the file's validator command (the command that proves the file is broken).''
     @ eol @ eol @ ''Respond with ONLY the complete corrected file content - no explanation, no commentary, no markdown code fences. Make the minimal change needed to make the validator pass while preserving the file's existing structure, style, and intent.''"

definition fix_request :: "string \<Rightarrow> string \<Rightarrow> string \<Rightarrow> string" where
  "fix_request tpath validator_error current_text =
     ''File path: '' @ tpath @ eol @ eol @ ''Validator error output:'' @ eol @ validator_error @ eol @ eol
     @ ''Current file content:'' @ eol @ current_text"

definition generate_config_fix :: "'w scan_env \<Rightarrow> string \<Rightarrow> string \<Rightarrow> string \<Rightarrow> ('w scan_state, string option) act" where
  "generate_config_fix E tpath current_content validator_error =
     (let current_text = utf8_decode current_content in
      act_catch (act_bind (summarizer_complete E CONFIG_FIX_SYSTEM_PROMPT (fix_request tpath validator_error current_text))
        (\<lambda>raw_result. let corrected = strip_code_fences (py_strip raw_result) in act_return
           (if py_strip corrected = [] then None
            else if py_strip corrected = py_strip current_text then None
            else Some (utf8_bytes corrected))))
        (\<lambda>e. act_return None))"

subsection \<open>One cycle\<close>

definition OPERATOR_SCAN_COOLDOWN_S :: int where "OPERATOR_SCAN_COOLDOWN_S = 1800"

definition is_operator_cooldown :: "operator_episode list \<Rightarrow> int \<Rightarrow> string \<Rightarrow> bool" where
  "is_operator_cooldown es now tpath \<longleftrightarrow> list_ex (\<lambda>e. ep_trigger e = ''OPERATOR_SCAN'' \<and> ep_domain e = tpath
     \<and> ep_ts e \<ge> now - OPERATOR_SCAN_COOLDOWN_S) es"

definition log_episodic :: "int \<Rightarrow> string \<Rightarrow> string \<Rightarrow> string \<Rightarrow> string \<Rightarrow> string \<Rightarrow> string \<Rightarrow> ('w scan_state, unit) act" where
  "log_episodic now user trigger domain goal decision summary = act_modify (\<lambda>s. s\<lparr>sc_episodes := sc_episodes s @
     [\<lparr>ep_user = user, ep_trigger = trigger, ep_domain = domain, ep_ts = now, ep_goal = goal, ep_decision = decision,
       ep_summary = summary\<rparr>]\<rparr>)"

definition record_proactive_artifact ::
    "int \<Rightarrow> string \<Rightarrow> string \<Rightarrow> int \<Rightarrow> string \<Rightarrow> string \<Rightarrow> string \<Rightarrow> ('w scan_state, unit) act" where
  "record_proactive_artifact now user goal confidence path action_type cooldown_key = act_modify (\<lambda>s. s\<lparr>sc_artifacts := sc_artifacts s @
     [\<lparr>pa_user = user, pa_goal = goal, pa_confidence = confidence, pa_path = path, pa_action_type = action_type,
       pa_cooldown_key = cooldown_key, pa_created_at = now\<rparr>]\<rparr>)"

definition route_operator_outcome :: "int \<Rightarrow> string \<Rightarrow> string \<Rightarrow> OperateOutcome \<Rightarrow> ('w scan_state, unit) act" where
  "route_operator_outcome now owner tpath out =
     (let goal = ''repair managed file '' @ tpath in
      if auto_applied out then
        (let summary = (case operation_result out of
             None \<Rightarrow> ''auto-applied fix to '' @ tpath @ '': '' @ reason out
           | Some result \<Rightarrow>
               if verified result then ''auto-applied fix to '' @ tpath @ '' (validator passed)''
               else if restored result then ''applied fix to '' @ tpath @ '' failed validation - rolled back to original''
               else ''auto-applied fix to '' @ tpath @ '': '' @ reason out) in
         act_then (log_episodic now owner ''OPERATOR_SCAN'' tpath goal ''contribute'' summary)
           (record_proactive_artifact now owner goal 100 tpath ''operator_apply'' tpath))
      else if OperateOutcome.proposed out then
        act_then (log_episodic now owner ''OPERATOR_SCAN'' tpath goal ''signal''
             (''proposed fix for '' @ tpath @ '' ('' @ reason out @ '')''))
           (record_proactive_artifact now owner goal 50 tpath ''operator_proposal'' tpath)
      else act_return ())"

text \<open>The guarded part of the loop body; \<open>None\<close> is a \<open>continue\<close>.\<close>

definition propose_repair ::
    "('m host_scheme) scan_env \<Rightarrow> Settings \<Rightarrow> int \<Rightarrow> string \<Rightarrow> string \<Rightarrow> string
      \<Rightarrow> (('m host_scheme) scan_state, OperateOutcome option) act" where
  "propose_repair E cfg now owner tpath validator_error =
     act_catch
       (act_bind (on_kernel (on_world (file_read tpath))) (\<lambda>current_content. case current_content of
          None \<Rightarrow> act_return None
        | Some txt \<Rightarrow>
            act_bind (generate_config_fix E tpath txt validator_error) (\<lambda>fix_content. case fix_content of
              None \<Rightarrow> act_return None
            | Some c \<Rightarrow> act_bind (on_kernel (operate_on_file cfg (sc_shell E) owner tpath c ''file_edit'' now))
                (\<lambda>out. act_return (Some out)))))
       (\<lambda>e. act_return None)"

definition scan_target ::
    "('m host_scheme) scan_env \<Rightarrow> Settings \<Rightarrow> int \<Rightarrow> string \<Rightarrow> string \<times> command_target
      \<Rightarrow> (('m host_scheme) scan_state, unit) act" where
  "scan_target E cfg now owner = (\<lambda>(tpath, target).
     act_bind (on_kernel (on_world (run_validator (sc_shell E) (validator_cmd target)))) (\<lambda>v.
     if passed v then act_return ()
     else act_bind (act_get sc_episodes) (\<lambda>es.
     if is_operator_cooldown es now tpath then act_return ()
     else act_bind (propose_repair E cfg now owner tpath (validator_output v)) (\<lambda>res. case res of
       None \<Rightarrow> act_return ()
     | Some out \<Rightarrow> route_operator_outcome now owner tpath out))))"

fun scan_targets ::
    "('m host_scheme) scan_env \<Rightarrow> Settings \<Rightarrow> int \<Rightarrow> string \<Rightarrow> (string \<times> command_target) list
      \<Rightarrow> (('m host_scheme) scan_state, unit) act" where
  "scan_targets E cfg now owner [] = act_return ()"
| "scan_targets E cfg now owner (t # ts) = act_then (scan_target E cfg now owner t) (scan_targets E cfg now owner ts)"

definition run_operator_scan_cycle ::
    "('m host_scheme) scan_env \<Rightarrow> Settings \<Rightarrow> int \<Rightarrow> (('m host_scheme) scan_state, unit) act" where
  "run_operator_scan_cycle E cfg now =
     (if telegram_owner_email cfg = [] then act_return ()
      else act_bind (on_accounts (get_user_by_email (telegram_owner_email cfg))) (\<lambda>owner. case owner of
        None \<Rightarrow> act_return ()
      | Some u \<Rightarrow> act_bind (act_get (\<lambda>s. list_managed_file_targets (User.id u) (db (sc_kernel s))))
          (scan_targets E cfg now (User.id u))))"

text \<open>\<open>anima_operator_scan_loop\<close>, as far as it has come: one cycle for each of the given seconds.\<close>

fun operator_scan_rounds ::
    "('m host_scheme) scan_env \<Rightarrow> Settings \<Rightarrow> int list \<Rightarrow> (('m host_scheme) scan_state, unit) act" where
  "operator_scan_rounds E cfg [] = act_return ()"
| "operator_scan_rounds E cfg (now # nows) =
     act_then (act_catch (run_operator_scan_cycle E cfg now) (\<lambda>e. act_return ())) (operator_scan_rounds E cfg nows)"

definition anima_operator_scan_loop ::
    "('m host_scheme) scan_env \<Rightarrow> Settings \<Rightarrow> int list \<Rightarrow> (('m host_scheme) scan_state, unit) act" where
  "anima_operator_scan_loop E cfg nows =
     (if \<not> operator_scan_enabled cfg then act_return () else operator_scan_rounds E cfg nows)"

subsection \<open>The frame of a cycle\<close>

lemma generate_effect:
  "generate_config_fix E p c err s = (r, s') \<Longrightarrow> (\<exists>x. r = Inr x) \<and> s' = s\<lparr>sc_calls := sc_calls s + 1\<rparr>"
  by (auto simp: generate_config_fix_def summarizer_complete_def act_simps Let_def)

lemma file_read_state [simp]: "snd (file_read p h) = h"
  by (auto simp: file_read_eq split: option.split node.split)

lemma propose_effect:
  assumes "propose_repair E cfg now owner p err s = (r, s')"
  shows "(\<exists>x. r = Inr x) \<and> sc_episodes s' = sc_episodes s \<and> sc_artifacts s' = sc_artifacts s \<and> sc_accounts s' = sc_accounts s
    \<and> (sc_kernel s' = sc_kernel s
       \<or> (\<exists>c. sc_kernel s' = snd (operate_on_file cfg (sc_shell E) owner p c ''file_edit'' now (sc_kernel s))))"
proof -
  obtain rd h where rd: "file_read p (world (sc_kernel s)) = (rd, h)" by (cases "file_read p (world (sc_kernel s))")
  then have h: "h = world (sc_kernel s)" using file_read_state [of p "world (sc_kernel s)"] by simp
  show ?thesis
  proof (cases "\<exists>c. rd = Inr (Some c)")
    case False
    then consider e where "rd = Inl e" | "rd = Inr None" by (cases rd) auto
    then show ?thesis using assms rd h by cases (auto simp: propose_repair_def act_simps)
  next
    case True
    then obtain c where c: "rd = Inr (Some c)" by blast
    obtain g s1 where g: "generate_config_fix E p c err s = (g, s1)" by (cases "generate_config_fix E p c err s")
    from generate_effect [OF g] obtain x where x: "g = Inr x" "s1 = s\<lparr>sc_calls := sc_calls s + 1\<rparr>" by blast
    show ?thesis
    proof (cases x)
      case None
      with assms rd h c g x show ?thesis by (auto simp: propose_repair_def act_simps)
    next
      case (Some y)
      obtain o1 k where op: "operate_on_file cfg (sc_shell E) owner p y ''file_edit'' now (sc_kernel s) = (o1, k)"
        by (cases "operate_on_file cfg (sc_shell E) owner p y ''file_edit'' now (sc_kernel s)")
      have "(\<exists>x. r = Inr x) \<and> s' = s1\<lparr>sc_kernel := k\<rparr>"
        using Some assms rd h c g x op by (cases o1) (auto simp: propose_repair_def act_simps)
      moreover have "\<exists>c. k = snd (operate_on_file cfg (sc_shell E) owner p c ''file_edit'' now (sc_kernel s))"
        by (rule exI [of _ y]) (simp add: op)
      ultimately show ?thesis using x by auto
    qed
  qed
qed

lemma route_effect:
  "route_operator_outcome now owner p out s = (r, s') \<Longrightarrow> r = Inr () \<and> sc_kernel s' = sc_kernel s \<and> sc_accounts s' = sc_accounts s
    \<and> sc_calls s' = sc_calls s
    \<and> (sc_episodes s' = sc_episodes s
       \<or> (\<exists>e. sc_episodes s' = sc_episodes s @ [e] \<and> ep_trigger e = ''OPERATOR_SCAN'' \<and> ep_domain e = p \<and> ep_ts e = now))"
  by (auto simp: route_operator_outcome_def log_episodic_def record_proactive_artifact_def act_simps Let_def split: if_splits)

text \<open>One target: its validator, then perhaps the model and the gate, then perhaps a row, and this only off cooldown.\<close>

lemma scan_target_effect:
  assumes "scan_target E cfg now owner (p, t) s = (r, s')"
  defines "k1 \<equiv> (sc_kernel s)\<lparr>world := snd (sc_shell E [''/bin/sh'', ''-c'', validator_cmd t] (world (sc_kernel s)))\<rparr>"
  shows "sc_accounts s' = sc_accounts s
    \<and> (sc_kernel s' = k1 \<or> (\<exists>c. sc_kernel s' = snd (operate_on_file cfg (sc_shell E) owner p c ''file_edit'' now k1)))
    \<and> (sc_episodes s' = sc_episodes s
       \<or> \<not> is_operator_cooldown (sc_episodes s) now p
         \<and> (\<exists>e. sc_episodes s' = sc_episodes s @ [e] \<and> ep_trigger e = ''OPERATOR_SCAN'' \<and> ep_domain e = p \<and> ep_ts e = now))"
proof -
  obtain v w where v: "run_validator (sc_shell E) (validator_cmd t) (world (sc_kernel s)) = (v, w)"
    by (cases "run_validator (sc_shell E) (validator_cmd t) (world (sc_kernel s))")
  have w: "(sc_kernel s)\<lparr>world := w\<rparr> = k1" using run_validator_world [OF v] by (simp add: k1_def)
  let ?s1 = "s\<lparr>sc_kernel := k1\<rparr>"
  show ?thesis
  proof (cases "\<exists>x. v = Inr x \<and> \<not> passed x \<and> \<not> is_operator_cooldown (sc_episodes s) now p")
    case False
    with assms(1) v w show ?thesis by (auto simp: scan_target_def act_simps split: sum.splits if_splits)
  next
    case True
    then obtain x where x: "v = Inr x" "\<not> passed x" "\<not> is_operator_cooldown (sc_episodes s) now p" by blast
    obtain res s2 where res: "propose_repair E cfg now owner p (validator_output x) ?s1 = (res, s2)"
      by (cases "propose_repair E cfg now owner p (validator_output x) ?s1")
    from propose_effect [OF res] obtain y where y: "res = Inr y" and s2: "sc_episodes s2 = sc_episodes s"
        "sc_accounts s2 = sc_accounts s"
        "sc_kernel s2 = k1 \<or> (\<exists>c. sc_kernel s2 = snd (operate_on_file cfg (sc_shell E) owner p c ''file_edit'' now k1))"
      by auto
    show ?thesis
    proof (cases y)
      case None
      with assms(1) v w x res y s2 show ?thesis by (auto simp: scan_target_def act_simps)
    next
      case (Some out)
      with assms(1) v w x res y have "route_operator_outcome now owner p out s2 = (r, s')"
        by (simp add: scan_target_def act_simps)
      from route_effect [OF this] s2 x(3) show ?thesis by auto
    qed
  qed
qed

text \<open>A predicate of the kernel state that validators and gated edits keep is kept by every number of rounds.\<close>

lemma rounds_kept:
  assumes "\<And>now owner t. kept P (scan_target E cfg now owner t)"
    and "\<And>s a. P (s\<lparr>sc_accounts := a\<rparr>) = P s"
  shows "kept P (anima_operator_scan_loop E cfg nows)"
proof -
  have targets: "kept P (scan_targets E cfg now owner ts)" for now owner ts
  proof (induction ts)
    case Nil
    then show ?case by (simp add: kept_def)
  next
    case (Cons t ts)
    then show ?case by (simp only: scan_targets.simps) (intro kept_then assms(1))
  qed
  have acc: "kept P (on_accounts m)" for m
    by (rule keptI) (auto simp: on_accounts_apply assms(2) split: prod.splits)
  have cycle: "kept P (run_operator_scan_cycle E cfg now)" for now
    unfolding run_operator_scan_cycle_def
    by (intro kept_if kept_return kept_bind acc kept_get targets | (rule kept_bind) | (split option.split))+
       (auto intro!: kept_bind targets)
  have "kept P (operator_scan_rounds E cfg nows)"
  proof (induction nows)
    case Nil
    then show ?case by (simp add: kept_def)
  next
    case (Cons now nows)
    then show ?case using cycle by (auto intro!: kept_then kept_catch kept_return)
  qed
  then show ?thesis unfolding anima_operator_scan_loop_def by (intro kept_if kept_return)
qed

subsection \<open>Gates do not open by themselves\<close>

lemma operate_file_cases:
  obtains (closed) "snd (operate_on_file cfg sh u p c cls now st) = st"
    | (ran) m w r ok where "operator_enabled cfg" "get_managed_file_target u p (db st) = Some m"
        "graduated (db_get_operator_track_record (u, cls, p) (db st))"
        "run_reversible_operation (file_edit cfg sh p c (validator_cmd m)) (world st) = (r, w)" "world (snd (operate_on_file cfg sh u p c cls now st)) = w"
        "db (snd (operate_on_file cfg sh u p c cls now st)) = db st
         \<or> db (snd (operate_on_file cfg sh u p c cls now st)) = (db st)\<lparr>operator_tracks :=
           snd (update_operator_track_record (u, cls, p) (ok, now) (operator_tracks (db st)))\<rparr>"
proof (cases "snd (operate_on_file cfg sh u p c cls now st) = st")
  case False
  then obtain m where m: "get_managed_file_target u p (db st) = Some m" "operator_enabled cfg"
      "graduated (db_get_operator_track_record (u, cls, p) (db st))" "validator_cmd m \<noteq> []"
    and st': "snd (operate_on_file cfg sh u p c cls now st) = snd (run_and_record (file_edit cfg sh p c (validator_cmd m)) (u, cls, p) now st)"
    by (auto simp: operate_on_file_unfold execute_approved_file_edit_def ReversibleFileEdit_def act_bind_snd
        split: option.splits if_splits)
  show thesis
  proof (cases "run_reversible_operation (file_edit cfg sh p c (validator_cmd m)) (world st)")
    case (Pair r w)
    with st' show thesis
      by (cases r) (auto simp: run_and_record_Inr run_and_record_Inl intro!: ran [OF m(2,1,3) Pair])
  qed
qed (use closed in blast)

lemma operate_file_gates:
  "file_gate_open cfg v x (db (snd (operate_on_file cfg sh u p c ''file_edit'' now st))) = file_gate_open cfg v x (db st)"
proof (cases rule: operate_file_cases [of cfg sh u p c "''file_edit''" now st])
  case (ran m w r ok)
  let ?k = "(u, ''file_edit'', p)"
  have grad: "graduated (get_operator_track_record ?k (operator_tracks (db st)))"
    using ran(3) by (simp add: db_get_operator_track_record_def)
  have "graduated (get_operator_track_record j (snd (update_operator_track_record ?k (ok, now) (operator_tracks (db st)))))
      = graduated (get_operator_track_record j (operator_tracks (db st)))" for j
    using grad by (cases "j = ?k") (simp_all add: operator_ledger.graduated_kept operator_ledger.get_upd_other)
  with ran(6) show ?thesis
    by (auto simp: file_gate_open_def db_get_operator_track_record_def get_managed_file_target_def)
qed simp

lemma operate_file_node:
  assumes sh: "\<And>argv w. node_safe q w (snd (sh argv w))"
    and q: "file_gate_open cfg u p (db st) \<Longrightarrow> q \<noteq> fs_key p \<or> protected_path cfg p"
  shows "node_safe q (world st) (world (snd (operate_on_file cfg sh u p c ''file_edit'' now st)))"
proof (cases rule: operate_file_cases [of cfg sh u p c "''file_edit''" now st])
  case (ran m w r ok)
  then have "file_gate_open cfg u p (db st)" by (simp add: file_gate_open_def)
  from file_edit_node [OF q [OF this] sh ran(4)] ran(5) show ?thesis by simp
qed simp

text \<open>C30: The autonomous loop earns nothing for itself. In any number of cycles, whatever the model answers and whatever
  the validators say, no gate opens that was closed, and a file that is not the target of a gate that was open in the
  beginning keeps its content (a missing ancestor of a target may be created). Only approvals of the owner graduate.\<close>

theorem operator_scan_gated:
  assumes "\<forall>argv w. node_safe q w (snd (sc_shell E argv w))"
    and "\<forall>u p. file_gate_open cfg u p (db (sc_kernel s)) \<longrightarrow> q \<noteq> fs_key p \<or> protected_path cfg p"
  shows "let s' = snd (anima_operator_scan_loop E cfg nows s) in
    node_safe q (world (sc_kernel s)) (world (sc_kernel s'))
    \<and> (\<forall>u p. file_gate_open cfg u p (db (sc_kernel s')) = file_gate_open cfg u p (db (sc_kernel s)))"
proof -
  define P where "P t \<longleftrightarrow> node_safe q (world (sc_kernel s)) (world (sc_kernel t))
    \<and> (\<forall>u p. file_gate_open cfg u p (db (sc_kernel t)) = file_gate_open cfg u p (db (sc_kernel s)))" for t :: "'a host_scheme scan_state"
  have "kept P (scan_target E cfg now owner (p, t))" for now owner p t
  proof (rule keptI)
    fix s1 r s2
    assume P: "P s1" and run: "scan_target E cfg now owner (p, t) s1 = (r, s2)"
    define k1 where "k1 = (sc_kernel s1)\<lparr>world := snd (sc_shell E [''/bin/sh'', ''-c'', validator_cmd t] (world (sc_kernel s1)))\<rparr>"
    have k1: "node_safe q (world (sc_kernel s)) (world k1)" "db k1 = db (sc_kernel s1)"
      using P assms(1) by (auto simp: P_def k1_def intro: node_safe_trans)
    have gate: "file_gate_open cfg owner p (db k1) \<Longrightarrow> q \<noteq> fs_key p \<or> protected_path cfg p"
      using P k1(2) assms(2) by (simp add: P_def)
    from scan_target_effect [OF run] k1_def consider "sc_kernel s2 = k1"
      | c where "sc_kernel s2 = snd (operate_on_file cfg (sc_shell E) owner p c ''file_edit'' now k1)" by auto
    then show "P s2"
    proof cases
      case 1
      with P k1 show ?thesis by (simp add: P_def)
    next
      case (2 c)
      have "node_safe q (world k1) (world (sc_kernel s2))"
        unfolding 2 using operate_file_node [OF _ gate] assms(1) by blast
      with P k1 2 show ?thesis by (auto simp: P_def operate_file_gates intro: node_safe_trans)
    qed
  qed
  then have "kept P (scan_target E cfg now owner t)" for now owner t by (cases t) simp
  then have "kept P (anima_operator_scan_loop E cfg nows)" by (rule rounds_kept) (simp add: P_def)
  then show ?thesis by (simp add: kept_def P_def Let_def)
qed

subsection \<open>Cooldowns\<close>

definition spaced :: "operator_episode list \<Rightarrow> bool" where
  "spaced es = sorted_wrt (\<lambda>e f. ep_domain e = ep_domain f \<longrightarrow> ep_ts e + OPERATOR_SCAN_COOLDOWN_S < ep_ts f)
     (filter (\<lambda>e. ep_trigger e = ''OPERATOR_SCAN'') es)"

lemma spaced_append:
  "spaced es \<Longrightarrow> \<not> is_operator_cooldown es now p \<Longrightarrow> ep_trigger e = ''OPERATOR_SCAN'' \<Longrightarrow> ep_domain e = p \<Longrightarrow> ep_ts e = now
     \<Longrightarrow> spaced (es @ [e])"
  by (auto simp: spaced_def sorted_wrt_append is_operator_cooldown_def list_ex_iff not_le)


subsection \<open>What a cycle achieves and what stops it\<close>

definition read_only :: "'w shell \<Rightarrow> (string list \<Rightarrow> 'w \<Rightarrow> exn + proc) \<Rightarrow> bool" where
  "read_only sh ans \<longleftrightarrow> (\<forall>argv w. sh argv w = (ans argv w, w))"

definition accepts :: "(string list \<Rightarrow> 'w \<Rightarrow> exn + proc) \<Rightarrow> string \<Rightarrow> 'w \<Rightarrow> bool" where
  "accepts ans cmd w \<longleftrightarrow> (case ans [''/bin/sh'', ''-c'', cmd] w of Inr q \<Rightarrow> returncode q = 0 | Inl e \<Rightarrow> False)"

lemma rejecting_validator:
  assumes "read_only sh ans" "ans [''/bin/sh'', ''-c'', cmd] w = Inr q" "returncode q \<noteq> 0"
  shows "run_validator sh cmd w = (Inr \<lparr>passed = False, validator_output = stdout q @ stderr q\<rparr>, w)"
  using assms by (simp add: run_validator_def read_only_def)

text \<open>C32: A cycle repairs. When the validator of a graduated target fails and the model proposes another text, then the
  file holds that text if the validator accepts it there, and its old content otherwise; one call was made and one
  row recorded, whether the repair held or not.\<close>

theorem scan_repairs:
  assumes shell: "read_only (sc_shell E) ans" "ans [''/bin/sh'', ''-c'', validator_cmd t] (world (sc_kernel s)) = Inr q" "returncode q \<noteq> 0"
    and gate: "file_gate_open cfg owner p (db (sc_kernel s))" "get_managed_file_target owner p (db (sc_kernel s)) = Some t" "validator_cmd t \<noteq> []"
    and host: "writable cfg p (world (sc_kernel s))" "files (world (sc_kernel s)) (fs_key p) = Some (Regular c)"
    and free: "\<not> is_operator_cooldown (sc_episodes s) now p"
    and model: "fst (generate_config_fix E p c (stdout q @ stderr q) s) = Inr (Some f)"
  shows "let s' = snd (scan_target E cfg now owner (p, t) s); w = world (sc_kernel s) in
    fst (scan_target E cfg now owner (p, t) s) = Inr ()
    \<and> files (world (sc_kernel s')) (fs_key p)
        = Some (Regular (if accepts ans (validator_cmd t) (w\<lparr>files := (files w)(fs_key p \<mapsto> Regular f)\<rparr>) then f else c))
    \<and> sc_calls s' = sc_calls s + 1 \<and> length (sc_episodes s') = length (sc_episodes s) + 1
    \<and> ep_decision (last (sc_episodes s')) = ''contribute''"
proof -
  let ?w = "world (sc_kernel s)" and ?err = "stdout q @ stderr q"
  have val: "run_validator (sc_shell E) (validator_cmd t) ?w = (Inr \<lparr>passed = False, validator_output = ?err\<rparr>, ?w)"
    by (rule rejecting_validator [where ans = ans, OF shell])
  have rd: "file_read p ?w = (Inr (Some c), ?w)"
    using host by (simp add: file_read_eq writable_def)
  obtain s1 where gen: "generate_config_fix E p c ?err s = (Inr (Some f), s1)" "s1 = s\<lparr>sc_calls := sc_calls s + 1\<rparr>"
    using model generate_effect [of E p c ?err s] by (metis prod.collapse)
  have keep: "writable cfg p w \<Longrightarrow> writable cfg p (snd (sc_shell E argv w)) \<and> files (snd (sc_shell E argv w)) (fs_key p) = files w (fs_key p)"
    for argv w using shell(1) by (simp add: read_only_def)
  obtain res k where ex: "execute_approved_file_edit cfg (sc_shell E) owner p f ''file_edit'' now (sc_kernel s) = (Inr res, k)"
    and fk: "files (world k) (fs_key p) = (if verified res then Some (Regular f) else files ?w (fs_key p))"
    and ver: "verified res = accepts ans (validator_cmd t) (?w\<lparr>files := (files ?w)(fs_key p \<mapsto> Regular f)\<rparr>)"
    using file_edit_total [where sh = "sc_shell E" and c = f and cls = "''file_edit''" and now = now, OF gate(2,3) host(1) keep] shell(1)
    by (auto simp: accepts_def read_only_def)
  obtain out where op: "operate_on_file cfg (sc_shell E) owner p f ''file_edit'' now (sc_kernel s) = (Inr out, k)"
    and out: "auto_applied out" "operation_result out = Some res"
    using gate ex by (auto simp: operate_on_file_unfold file_gate_open_def act_simps)
  have rep: "propose_repair E cfg now owner p ?err s = (Inr (Some out), s1\<lparr>sc_kernel := k\<rparr>)"
    using rd gen op by (simp add: propose_repair_def act_simps)
  have "scan_target E cfg now owner (p, t) s = route_operator_outcome now owner p out (s1\<lparr>sc_kernel := k\<rparr>)"
    using val free rep by (simp add: scan_target_def act_simps)
  moreover obtain ep art where "route_operator_outcome now owner p out (s1\<lparr>sc_kernel := k\<rparr>)
      = (Inr (), s1\<lparr>sc_kernel := k, sc_episodes := sc_episodes s1 @ [ep], sc_artifacts := sc_artifacts s1 @ [art]\<rparr>)"
      "ep_decision ep = ''contribute''"
    using out by (force simp: route_operator_outcome_def log_episodic_def record_proactive_artifact_def act_simps Let_def)
  ultimately show ?thesis using gen(2) fk ver host(2) by (simp add: Let_def)
qed

lemma empty_answer: "py_strip (strip_code_fences (py_strip [])) = []"
  by code_simp

lemma owner_cycle:
  assumes "telegram_owner_email cfg \<noteq> []" "fst (get_user_by_email (telegram_owner_email cfg) (sc_accounts s)) = Inr (Some u)"
  shows "run_operator_scan_cycle E cfg now s
    = scan_targets E cfg now (User.id u) (list_managed_file_targets (User.id u) (db (sc_kernel s))) s"
proof -
  obtain x where x: "get_user_by_email (telegram_owner_email cfg) (sc_accounts s) = (Inr (Some u), x)"
    using assms(2) by (metis prod.collapse)
  have "x = sc_accounts s" using x by (auto simp: get_user_by_email_def fetch_user_def split: option.splits sum.splits)
  with x assms(1) show ?thesis by (simp add: run_operator_scan_cycle_def act_simps)
qed

text \<open>One target can stop the loop for all that follow it. The validator runs outside the guarded part, so when running
  it raises (a command with a NUL character, say, which the registration accepts), the cycle ends there; no later
  target is ever looked at, in any number of cycles.\<close>

theorem validator_error_stops_scan:
  assumes "telegram_owner_email cfg \<noteq> []" "fst (get_user_by_email (telegram_owner_email cfg) (sc_accounts s)) = Inr (Some u)"
    and "list_managed_file_targets (User.id u) (db (sc_kernel s)) = (p, t) # ts"
    and "read_only (sc_shell E) ans" "\<forall>w. ans [''/bin/sh'', ''-c'', validator_cmd t] w = Inl PyValueError"
  shows "anima_operator_scan_loop E cfg nows s = (Inr (), s)"
proof -
  have val: "run_validator (sc_shell E) (validator_cmd t) w = (Inl PyValueError, w)" for w
    using assms(4,5) by (simp add: run_validator_def read_only_def)
  have cycle: "run_operator_scan_cycle E cfg now s = (Inl PyValueError, s)" for now
    unfolding owner_cycle [OF assms(1,2)] by (simp add: assms(3) scan_target_def act_simps val)
  have "operator_scan_rounds E cfg nows s = (Inr (), s)"
    by (induction nows) (simp_all add: act_simps cycle)
  then show ?thesis by (simp add: anima_operator_scan_loop_def)
qed

text \<open>The cooldown does not cover the useless answers. For a broken target for which the model gives nothing, the model
  is called again in every cycle, and nothing is recorded.\<close>

theorem model_asked_every_cycle:
  assumes "operator_scan_enabled cfg" "telegram_owner_email cfg \<noteq> []"
    and "fst (get_user_by_email (telegram_owner_email cfg) (sc_accounts s)) = Inr (Some u)"
    and "list_managed_file_targets (User.id u) (db (sc_kernel s)) = [(p, t)]" "\<not> list_ex (\<lambda>e. ep_domain e = p) (sc_episodes s)"
    and "read_only (sc_shell E) ans" "ans [''/bin/sh'', ''-c'', validator_cmd t] (world (sc_kernel s)) = Inr q" "returncode q \<noteq> 0"
    and "fst (file_read p (world (sc_kernel s))) = Inr (Some c)"
    and "\<forall>n a b. sc_llm E n a b = Inr None"
  shows "anima_operator_scan_loop E cfg nows s = (Inr (), s\<lparr>sc_calls := sc_calls s + length nows\<rparr>)"
proof -
  have cold: "\<not> is_operator_cooldown (sc_episodes s) now p" for now
    using assms(5) by (auto simp: is_operator_cooldown_def list_ex_iff)
  have rd: "file_read p (world (sc_kernel s)) = (Inr (Some c), world (sc_kernel s))"
    using assms(9) file_read_state by (metis prod.collapse)
  have gen: "generate_config_fix E p c err s1 = (Inr None, s1\<lparr>sc_calls := sc_calls s1 + 1\<rparr>)" for err s1
    using assms(10) by (simp add: generate_config_fix_def summarizer_complete_def act_simps Let_def) (simp only: empty_answer, simp)
  have cycle: "run_operator_scan_cycle E cfg now (s\<lparr>sc_calls := n\<rparr>) = (Inr (), s\<lparr>sc_calls := Suc n\<rparr>)" for now n
    using assms(3,4) cold rejecting_validator [where ans = ans, OF assms(6-8)]
    by (simp add: owner_cycle [OF assms(2), of "s\<lparr>sc_calls := n\<rparr>" u] scan_target_def propose_repair_def act_simps rd gen)
  have "operator_scan_rounds E cfg nows (s\<lparr>sc_calls := n\<rparr>) = (Inr (), s\<lparr>sc_calls := n + length nows\<rparr>)" for n
    by (induction nows arbitrary: n) (simp_all add: act_simps cycle)
  from this [of "sc_calls s"] show ?thesis using assms(1) by (simp add: anima_operator_scan_loop_def)
qed

text \<open>The end of a long file is never shown to the model: two files that agree up to the limit of the request get the
  same proposal or none, so the proposal for a longer file does not know the text it replaces.\<close>

theorem long_file_tail_unseen:
  assumes "MAX_COMPLETION_INPUT \<le> length (fix_request p err t)"
  shows "fst (generate_config_fix E p (utf8_bytes (t @ x)) err s) = fst (generate_config_fix E p (utf8_bytes (t @ y)) err s)
    \<or> fst (generate_config_fix E p (utf8_bytes (t @ x)) err s) = Inr None
    \<or> fst (generate_config_fix E p (utf8_bytes (t @ y)) err s) = Inr None"
proof -
  have "fix_request p err (t @ z) = fix_request p err t @ z" for z by (simp add: fix_request_def)
  then have "take MAX_COMPLETION_INPUT (fix_request p err (t @ z)) = take MAX_COMPLETION_INPUT (fix_request p err t)" for z
    using assms by simp
  then show ?thesis by (simp add: generate_config_fix_def summarizer_complete_def utf8_roundtrip act_simps Let_def)
qed

subsection \<open>A small host\<close>

text \<open>\<open>/etc/nginx/nginx.conf\<close> holds \<open>old\<close> and is accepted when it holds \<open>new\<close>; the model always answers the same.\<close>

definition sample_answers :: "string list \<Rightarrow> host \<Rightarrow> exn + proc" where
  "sample_answers argv h = (if CHR 0x00 \<in> set (last argv) then Inl PyValueError
     else Inr \<lparr>returncode = (if files h ''/etc/nginx/nginx.conf'' = Some (Regular ''new'') then 0 else 1), stdout = [], stderr = ''bad''\<rparr>)"

definition sample_scan :: "string option \<Rightarrow> host scan_env" where
  "sample_scan ans = \<lparr>sc_shell = (\<lambda>argv w. (sample_answers argv w, w)), sc_llm = (\<lambda>_ _ _. Inr ans)\<rparr>"

definition sample_owner :: accounts where
  "sample_owner = empty_accounts\<lparr>users := [\<lparr>u_id = ''u'', u_email = ''o@x.org'', u_password_hash = [], u_tier = ''free'', u_budget = 0,
     u_used = 0, u_reset_date = [], u_admin = False, u_stripe = None, u_created = 0, u_updated = 0\<rparr>]\<rparr>"

definition sample_scan_settings :: Settings where
  "sample_scan_settings = default_settings\<lparr>operator_enabled := True, operator_scan_enabled := True, telegram_owner_email := ''o@x.org''\<rparr>"

definition sample_state :: "host scan_state" where
  "sample_state = \<lparr>sc_kernel = sample_file_state, sc_accounts = sample_owner, sc_episodes = [], sc_artifacts = [], sc_calls = 0\<rparr>"

lemmas sample_scan_defs = sample_scan_def sample_answers_def sample_owner_def sample_scan_settings_def sample_state_def

lemma sample_read_only: "read_only (sc_shell (sample_scan ans)) sample_answers"
  by (simp add: read_only_def sample_scan_def)

lemma sample_known: "fst (get_user_by_email (telegram_owner_email sample_scan_settings) (sc_accounts sample_state)) =
    Inr (Some \<lparr>id = ''u'', email = ''o@x.org'', password_hash = [], tier = FREE, token_budget_daily = 0, tokens_used_today = 0,
      is_admin = False, stripe_customer_id = None, created_at = 0, updated_at = 0\<rparr>)"
  by code_simp

lemma sample_key: "fs_key ''/etc/nginx/nginx.conf'' = ''/etc/nginx/nginx.conf''"
  by code_simp

theorem operator_scan_gated_witness:
  "node_safe ''/etc/passwd'' (world (sc_kernel sample_state))
     (world (sc_kernel (snd (anima_operator_scan_loop (sample_scan (Some ''new'')) sample_scan_settings [0, 600] sample_state))))"
proof -
  have gates: "q \<noteq> fs_key p" if "file_gate_open sample_scan_settings u p (db (sc_kernel sample_state))" "q = ''/etc/passwd''" for u p q
  proof -
    have "p = ''/etc/nginx/nginx.conf''"
      using that by (auto simp: file_gate_open_def sample_state_def sample_file_state_def get_managed_file_target_def split: if_splits)
    with that sample_key show ?thesis by simp
  qed
  show ?thesis
    using operator_scan_gated [of "''/etc/passwd''" "sample_scan (Some ''new'')" sample_scan_settings sample_state "[0, 600]"] gates
    by (simp add: sample_scan_def Let_def)
qed


theorem scan_repairs_witness:
  "files (world (sc_kernel (snd (scan_target (sample_scan (Some ''new'')) sample_scan_settings 7 ''u''
      (''/etc/nginx/nginx.conf'', \<lparr>validator_cmd = ''nginx -t'', created_at = 0\<rparr>) sample_state)))) ''/etc/nginx/nginx.conf''
    = Some (Regular ''new'')"
proof -
  let ?p = "''/etc/nginx/nginx.conf''" and ?t = "\<lparr>validator_cmd = ''nginx -t'', created_at = 0\<rparr>"
  have a: "sample_answers [''/bin/sh'', ''-c'', validator_cmd ?t] (world (sc_kernel sample_state))
      = Inr \<lparr>returncode = 1, stdout = [], stderr = ''bad''\<rparr>"
    by code_simp
  have b: "file_gate_open sample_scan_settings ''u'' ?p (db (sc_kernel sample_state))"
    "get_managed_file_target ''u'' ?p (db (sc_kernel sample_state)) = Some ?t" "validator_cmd ?t \<noteq> []"
    by code_simp+
  have c: "writable sample_scan_settings ?p (world (sc_kernel sample_state))"
    "files (world (sc_kernel sample_state)) (fs_key ?p) = Some (Regular ''old'')"
    "\<not> is_operator_cooldown (sc_episodes sample_state) 7 ?p"
    by code_simp+
  have new: "strip_code_fences ''new'' = ''new''" "py_strip ''new'' = ''new''" "py_strip ''old'' = ''old''" "utf8_bytes ''new'' = ''new''"
    by code_simp+
  have f: "fst (generate_config_fix (sample_scan (Some ''new'')) ?p ''old'' ''bad'' sample_state) = Inr (Some ''new'')"
    unfolding generate_config_fix_def summarizer_complete_def sample_scan_def by (simp add: act_simps Let_def new)
  have d: "accepts sample_answers (validator_cmd ?t) ((world (sc_kernel sample_state))\<lparr>files := (files (world (sc_kernel sample_state)))
      (fs_key ?p \<mapsto> Regular ''new'')\<rparr>)"
    by (simp add: accepts_def sample_answers_def sample_key)
  show ?thesis
    using scan_repairs [OF sample_read_only a _ b c] f d by (simp add: Let_def sample_key)
qed

text \<open>The first target's command has a NUL character; the second target is broken, graduated and repairable.\<close>

definition nul_state :: "host scan_state" where
  "nul_state = sample_state\<lparr>sc_kernel := (sc_kernel sample_state)\<lparr>db := (db (sc_kernel sample_state))\<lparr>managed_file_targets :=
     ((''u'', ''/etc/x''), \<lparr>validator_cmd = [CHR 0x00], created_at = 0\<rparr>) # managed_file_targets (db (sc_kernel sample_state))\<rparr>\<rparr>\<rparr>"

theorem validator_error_stops_scan_witness:
  "anima_operator_scan_loop (sample_scan (Some ''new'')) sample_scan_settings [0, 600] nul_state = (Inr (), nul_state)"
proof -
  let ?u = "\<lparr>id = ''u'', email = ''o@x.org'', password_hash = [], tier = FREE, token_budget_daily = 0, tokens_used_today = 0,
      is_admin = False, stripe_customer_id = None, created_at = 0, updated_at = 0\<rparr>"
  have "telegram_owner_email sample_scan_settings \<noteq> []"
    "fst (get_user_by_email (telegram_owner_email sample_scan_settings) (sc_accounts nul_state)) = Inr (Some ?u)"
    "list_managed_file_targets (User.id ?u) (db (sc_kernel nul_state)) = (''/etc/x'', \<lparr>validator_cmd = [CHR 0x00], created_at = 0\<rparr>)
       # [(''/etc/nginx/nginx.conf'', \<lparr>validator_cmd = ''nginx -t'', created_at = 0\<rparr>)]"
    by code_simp+
  from validator_error_stops_scan [OF this sample_read_only] show ?thesis by (simp add: sample_answers_def)
qed

theorem model_asked_every_cycle_witness:
  "sc_calls (snd (anima_operator_scan_loop (sample_scan None) sample_scan_settings [0, 1, 2] sample_state)) = 3"
proof -
  let ?u = "\<lparr>id = ''u'', email = ''o@x.org'', password_hash = [], tier = FREE, token_budget_daily = 0, tokens_used_today = 0,
      is_admin = False, stripe_customer_id = None, created_at = 0, updated_at = 0\<rparr>"
  let ?t = "\<lparr>validator_cmd = ''nginx -t'', created_at = 0\<rparr>"
  have a: "operator_scan_enabled sample_scan_settings" "telegram_owner_email sample_scan_settings \<noteq> []"
    "list_managed_file_targets (User.id ?u) (db (sc_kernel sample_state)) = [(''/etc/nginx/nginx.conf'', ?t)]"
    "\<not> list_ex (\<lambda>e. ep_domain e = ''/etc/nginx/nginx.conf'') (sc_episodes sample_state)"
    "sample_answers [''/bin/sh'', ''-c'', validator_cmd ?t] (world (sc_kernel sample_state)) = Inr \<lparr>returncode = 1, stdout = [], stderr = ''bad''\<rparr>"
    "fst (file_read ''/etc/nginx/nginx.conf'' (world (sc_kernel sample_state))) = Inr (Some ''old'')"
    by code_simp+
  have calls: "sc_calls sample_state = 0" by (simp add: sample_state_def)
  show ?thesis
    using model_asked_every_cycle [OF a(1,2) sample_known a(3,4) sample_read_only a(5) _ a(6), of None "[0, 1, 2]"] calls
    by (simp add: sample_scan_def)
qed

theorem long_file_tail_unseen_witness:
  "fst (generate_config_fix (sample_scan (Some ''new'')) ''/f'' (utf8_bytes (replicate 12000 CHR ''a'' @ ''x'')) [] sample_state)
     = fst (generate_config_fix (sample_scan (Some ''new'')) ''/f'' (utf8_bytes (replicate 12000 CHR ''a'' @ ''y'')) [] sample_state)
   \<or> fst (generate_config_fix (sample_scan (Some ''new'')) ''/f'' (utf8_bytes (replicate 12000 CHR ''a'' @ ''x'')) [] sample_state) = Inr None
   \<or> fst (generate_config_fix (sample_scan (Some ''new'')) ''/f'' (utf8_bytes (replicate 12000 CHR ''a'' @ ''y'')) [] sample_state) = Inr None"
  by (rule long_file_tail_unseen) (simp add: fix_request_def MAX_COMPLETION_INPUT_def)


end
