(* ===== verification/Bpf_Lsm.thy ===== *)
theory Bpf_Lsm
  imports Py_Paths
begin

text \<open>
  The machine-wide access control of \<open>anima/kernel/bpf_lsm.py\<close>: detection, the boot check, the kernel command line and
  the GRUB entry, the integrity check of artifacts, policies over process names and the floor, and the supervisor of
  the holder daemon. The host is a file system with a cache beside it; SHA-256 and the socket are parameters. Relation
  signs and dots in messages are ASCII; messages of exceptions are not modelled.
\<close>

subsection \<open>Detection\<close>

definition LSM_ACTIVE_PATH :: string where "LSM_ACTIVE_PATH = ''/sys/kernel/security/lsm''"
definition BPFFS_PATH :: string where "BPFFS_PATH = ''/sys/fs/bpf''"
definition BTF_PATH :: string where "BTF_PATH = ''/sys/kernel/btf/vmlinux''"

record 'w bpf_state =
  support_cache :: "bool option"
  bpf_host :: 'w

definition modules_of :: "string \<Rightarrow> string list" where
  "modules_of active = map py_strip (split_on CHR '','' (py_strip active))"

definition file_size :: "string \<Rightarrow> 'm host_scheme \<Rightarrow> nat" where
  "file_size p h = (case files h (fs_key p) of Some (Regular c) \<Rightarrow> length c | _ \<Rightarrow> 0)"

definition probe_support :: "'m host_scheme \<Rightarrow> bool" where
  "probe_support h = (case fst (fs_read LSM_ACTIVE_PATH h) of
     Inl e \<Rightarrow> False
   | Inr t \<Rightarrow> if ''bpf'' \<notin> set (modules_of t) then False
       else if file_size BTF_PATH h = 0 then False
       else files h (fs_key BPFFS_PATH) = Some Directory)"

definition bpf_supported :: "(('m host_scheme) bpf_state, bool) act" where
  "bpf_supported = (\<lambda>s. case support_cache s of
       Some v \<Rightarrow> (Inr v, s)
     | None \<Rightarrow> let v = probe_support (bpf_host s) in (Inr v, s\<lparr>support_cache := Some v\<rparr>))"

definition VALID_MODES :: "string set" where "VALID_MODES = {''audit'', ''enforce''}"

definition bpf_validate_boot_config :: "bool \<Rightarrow> string \<Rightarrow> (('m host_scheme) bpf_state, unit) act" where
  "bpf_validate_boot_config enabled mode =
     (if \<not> enabled then act_return ()
      else if mode \<notin> VALID_MODES then act_raise BpfLsmError
      else act_bind bpf_supported (\<lambda>ok. if ok then act_return () else act_raise BpfLsmUnsupportedError))"

subsection \<open>The boot entry\<close>

definition compose_lsm_cmdline :: "string \<Rightarrow> exn + string" where
  "compose_lsm_cmdline active_list =
     (if py_strip active_list = [] then Inl BpfLsmError
      else let modules = modules_of active_list in
        if ''bpf'' \<in> set modules then Inl BpfLsmError
        else Inr (py_join '','' (modules @ [''bpf''])))"

definition uuid_char :: "char \<Rightarrow> bool" where
  "uuid_char c \<longleftrightarrow> py_lower_char c \<in> set ''0123456789abcdef-''"

text \<open>The group of the first match of \<open>root=UUID=([0-9a-f-]+)\<close>, in either case.\<close>

fun root_uuid_of :: "string \<Rightarrow> string option" where
  "root_uuid_of [] = None"
| "root_uuid_of (c # s) = (let found = takeWhile uuid_char (drop 10 (c # s)) in
     if startswith (py_lower (c # s)) ''root=uuid='' \<and> found \<noteq> [] then Some found else root_uuid_of s)"

definition line_end :: string where "line_end = [CHR 0x0A]"

definition compose_grub_custom_entry :: "string \<Rightarrow> string \<Rightarrow> string \<Rightarrow> exn + string" where
  "compose_grub_custom_entry base_cmdline lsm_cmdline kernel_ver = (case root_uuid_of base_cmdline of
     None \<Rightarrow> Inl BpfLsmError
   | Some root_uuid \<Rightarrow> Inr (
       ''menuentry '' @ [CHR 0x22] @ ''anima BPF LSM (experimental, one-shot)'' @ [CHR 0x22] @ '' --id rawos-bpf-lsm {'' @ line_end
       @ ''    search --no-floppy --fs-uuid --set=root '' @ root_uuid @ line_end
       @ ''    linux   /boot/vmlinuz-'' @ kernel_ver @ '' '' @ base_cmdline @ '' '' @ lsm_cmdline @ line_end
       @ ''    initrd  /boot/initrd.img-'' @ kernel_ver @ line_end
       @ ''}'' @ line_end))"

subsection \<open>Artifacts and policies\<close>

definition verify_artifact :: "(string \<Rightarrow> string) \<Rightarrow> string \<Rightarrow> string \<Rightarrow> ('m host_scheme, unit) act" where
  "verify_artifact sha256_hex path expected_sha256 =
     act_bind (act_catch (fs_read path) (\<lambda>e. if e = PyFileNotFoundError then act_raise e else act_raise BpfLsmError))
       (\<lambda>content. if sha256_hex content \<noteq> expected_sha256 then act_raise BpfLsmIntegrityError else act_return ())"

definition FLOOR_COMM :: "string set" where
  "FLOOR_COMM = {''sshd'', ''systemd'', ''login'', ''getty'', ''agetty'', ''su'', ''sudo'', ''unix_chkpwd'', ''rawos-bpf-lsm-h'',
     ''anima'', ''git'', ''git-remote-http'', ''git-remote-htt''}"

definition is_protected :: "string \<Rightarrow> bool" where
  "is_protected comm \<longleftrightarrow> comm \<in> FLOOR_COMM"

record bpf_policy =
  deny_comm :: "string list"
  protected_comm :: "string list"
  policy_mode :: string

definition build_policy :: "string list \<Rightarrow> string list \<Rightarrow> string \<Rightarrow> exn + bpf_policy" where
  "build_policy deny protect mode =
     (if mode \<notin> VALID_MODES then Inl BpfLsmError
      else if set deny \<inter> FLOOR_COMM \<noteq> {} then Inl BpfLsmError
      else Inr \<lparr>deny_comm = deny, protected_comm = protect, policy_mode = mode\<rparr>)"

subsection \<open>The holder and its supervisor\<close>

text \<open>A client of the holder, the null client or one of a socket, whose \<open>send\<close> transmits a line and reads a response.\<close>

datatype 'w holder_client = NullHolderClient | SocketHolderClient "string \<Rightarrow> ('w, unit) act"

fun holder_heartbeat :: "'w holder_client \<Rightarrow> ('w, unit) act" where
  "holder_heartbeat NullHolderClient = act_return ()"
| "holder_heartbeat (SocketHolderClient send) = send ''heartbeat''"

fun holder_flip_mode :: "'w holder_client \<Rightarrow> string \<Rightarrow> ('w, unit) act" where
  "holder_flip_mode NullHolderClient mode = act_return ()"
| "holder_flip_mode (SocketHolderClient send) mode = send (''mode '' @ mode)"

fun holder_update_policy :: "'w holder_client \<Rightarrow> bpf_policy \<Rightarrow> ('w, unit) act" where
  "holder_update_policy NullHolderClient policy = act_return ()"
| "holder_update_policy (SocketHolderClient send) policy = act_return ()"

fun holder_detach :: "'w holder_client \<Rightarrow> ('w, unit) act" where
  "holder_detach NullHolderClient = act_return ()"
| "holder_detach (SocketHolderClient send) = send ''detach''"

text \<open>The first \<open>n\<close> rounds of \<open>BpfLsmSupervisor.run\<close>; \<open>sleep\<close> is the pause between two heartbeats.\<close>

fun supervisor_rounds :: "'w holder_client \<Rightarrow> ('w, unit) act \<Rightarrow> nat \<Rightarrow> ('w, unit) act" where
  "supervisor_rounds client sleep 0 = act_return ()"
| "supervisor_rounds client sleep (Suc n) =
     act_then (act_catch (holder_heartbeat client) (\<lambda>e. act_return ())) (act_then sleep (supervisor_rounds client sleep n))"

definition supervisor_run :: "'w holder_client \<Rightarrow> ('w, unit) act \<Rightarrow> bool \<Rightarrow> nat \<Rightarrow> ('w, unit) act" where
  "supervisor_run client sleep enabled n = (if \<not> enabled then act_return () else supervisor_rounds client sleep n)"

text \<open>\<open>_start_bpf_lsm_heartbeat_loop\<close> in \<open>api/app.py\<close>: the mode is sent once, then the heartbeats.\<close>

definition start_bpf_heartbeat ::
    "bool \<Rightarrow> string \<Rightarrow> (string \<Rightarrow> ('w, unit) act) \<Rightarrow> ('w, unit) act \<Rightarrow> nat \<Rightarrow> ('w, unit) act" where
  "start_bpf_heartbeat enabled mode send sleep n =
     (if enabled then act_then (act_catch (holder_flip_mode (SocketHolderClient send) mode) (\<lambda>e. act_return ()))
        (supervisor_run (SocketHolderClient send) sleep enabled n)
      else supervisor_run NullHolderClient sleep enabled n)"

subsection \<open>Properties\<close>

lemma no_comma_strip: "CHR '','' \<notin> set w \<Longrightarrow> CHR '','' \<notin> set (py_strip w)"
  by (auto simp: py_strip_def py_lstrip_def py_rstrip_def dest!: set_dropWhileD)

lemma modules_no_comma: "m \<in> set (modules_of s) \<Longrightarrow> CHR '','' \<notin> set m"
  by (auto simp: modules_of_def dest!: no_comma_strip split_on_no_sep)

lemma modules_stripped: "map py_strip (modules_of s) = modules_of s"
  by (simp add: modules_of_def)

text \<open>The command line for the kernel is the list of active modules with \<open>bpf\<close> at its end: read back, it gives the
  modules of the observed list in their order, and it cannot be composed a second time.\<close>

theorem lsm_cmdline_roundtrip:
  assumes "compose_lsm_cmdline active = Inr c"
  shows "map py_strip (split_on CHR '','' c) = modules_of active @ [''bpf''] \<and> ''bpf'' \<notin> set (modules_of active)"
proof -
  have c: "c = py_join [CHR '',''] (modules_of active @ [''bpf''])" "''bpf'' \<notin> set (modules_of active)"
    using assms by (auto simp: compose_lsm_cmdline_def Let_def split: if_splits)
  have "split_on CHR '','' c = modules_of active @ [''bpf'']"
    unfolding c(1) by (rule split_on_join) (auto dest: modules_no_comma)
  moreover have "py_strip ''bpf'' = ''bpf''" by code_simp
  ultimately show ?thesis using c(2) by (simp add: modules_stripped)
qed

theorem lsm_cmdline_roundtrip_witness:
  "compose_lsm_cmdline ''capability, yama\<newline>'' = Inr ''capability,yama,bpf''
   \<and> map py_strip (split_on CHR '','' ''capability,yama,bpf'') = modules_of ''capability, yama\<newline>'' @ [''bpf'']"
proof -
  have "compose_lsm_cmdline ''capability, yama\<newline>'' = Inr ''capability,yama,bpf''" by code_simp
  with lsm_cmdline_roundtrip [OF this] show ?thesis by simp
qed

text \<open>The floor is kept by name and not by what the kernel compares. A policy is built exactly when its mode is known and
  no denied name is on the floor; but a process name in the kernel has at most 15 characters, and the full name of the
  holder, whose truncation is on the floor, is accepted for denial.\<close>

theorem floor_compares_full_names:
  "(case build_policy deny protect mode of
      Inl e \<Rightarrow> e = BpfLsmError \<and> (mode \<notin> VALID_MODES \<or> list_ex is_protected deny)
    | Inr p \<Rightarrow> p = \<lparr>deny_comm = deny, protected_comm = protect, policy_mode = mode\<rparr> \<and> mode \<in> VALID_MODES
        \<and> \<not> list_ex is_protected deny)
   \<and> (\<exists>p. build_policy [''rawos-bpf-lsm-holder''] [] ''enforce'' = Inr p)
   \<and> is_protected (take 15 ''rawos-bpf-lsm-holder'')"
  by (auto simp: build_policy_def is_protected_def list_ex_iff VALID_MODES_def FLOOR_COMM_def)

text \<open>The answer of the first probe is kept for the life of the process: whatever happens to the host afterwards, the
  boot check gives the same answer, which is the probe of the host when it was first asked.\<close>

theorem boot_check_sticky:
  assumes "support_cache s = None" "mode \<in> VALID_MODES"
  shows "let s1 = snd (bpf_validate_boot_config True mode s) in
    fst (bpf_validate_boot_config True mode s) = (if probe_support (bpf_host s) then Inr () else Inl BpfLsmUnsupportedError)
    \<and> fst (bpf_validate_boot_config True mode (s1\<lparr>bpf_host := h\<rparr>)) = fst (bpf_validate_boot_config True mode s)"
  using assms by (simp add: bpf_validate_boot_config_def bpf_supported_def act_simps Let_def)

theorem boot_check_sticky_witness:
  "fst (bpf_validate_boot_config True ''audit'' \<lparr>support_cache = None, bpf_host = \<lparr>files = Map.empty, io_fault = (\<lambda>_. False)\<rparr>\<rparr>)
     = Inl BpfLsmUnsupportedError"
proof -
  have "\<not> probe_support \<lparr>files = Map.empty, io_fault = (\<lambda>_. False)\<rparr>" by code_simp
  then show ?thesis
    using boot_check_sticky [of "\<lparr>support_cache = None, bpf_host = \<lparr>files = Map.empty, io_fault = (\<lambda>_. False)\<rparr>\<rparr>" "''audit''"]
    by (simp add: VALID_MODES_def Let_def)
qed

text \<open>A heartbeat that fails does not end the supervisor: when pausing does not raise, every number of rounds returns.\<close>

theorem supervisor_survives:
  assumes "\<And>w. fst (sleep w) = Inr ()"
  shows "fst (supervisor_run client sleep enabled n w) = Inr ()"
proof -
  have "fst (supervisor_rounds client sleep n w) = Inr ()" for w
  proof (induction n arbitrary: w)
    case (Suc n)
    obtain r w1 where h: "holder_heartbeat client w = (r, w1)" by (cases "holder_heartbeat client w")
    obtain w2 where "sleep w1 = (Inr (), w2)" using assms by (metis prod.collapse)
    with Suc h show ?case by (cases r) (simp_all add: act_simps)
  qed simp
  then show ?thesis by (simp add: supervisor_run_def)
qed

theorem supervisor_survives_witness:
  "fst (supervisor_run (SocketHolderClient (\<lambda>_. act_raise PyOSError)) (act_return ()) True 3 ()) = Inr ()"
  by (rule supervisor_survives) simp

text \<open>The mode is sent once. Over a socket that keeps what it is sent, whether sending succeeds or raises, the lines of a
  process are the mode and then heartbeats only: a mode that did not arrive at the start is not sent again.\<close>

theorem mode_sent_once:
  "snd (start_bpf_heartbeat True mode (\<lambda>l sent. (answers (length sent), sent @ [l])) (act_return ()) n [])
     = (''mode '' @ mode) # replicate n ''heartbeat''"
proof -
  let ?send = "\<lambda>l sent. (answers (length sent), sent @ [l])"
  have rounds: "supervisor_rounds (SocketHolderClient ?send) (act_return ()) n sent = (Inr (), sent @ replicate n ''heartbeat'')" for sent
  proof (induction n arbitrary: sent)
    case (Suc n)
    then show ?case
      by (cases "answers (length sent)") (simp_all add: act_simps)
  qed simp
  show ?thesis
    by (cases "answers 0") (simp_all add: start_bpf_heartbeat_def supervisor_run_def act_simps rounds)
qed

end
