(* ===== verification/Dep_Lock.thy ===== *)
theory Dep_Lock
  imports Py_Paths "HOL-Library.AList" "HOL-Library.List_Lexorder" "HOL-Library.Char_ord"
begin

text \<open>
  The comparison of the installed packages with the lock file (\<open>anima/kernel/dep_lock.py\<close>): the parser of
  \<open>pip freeze\<close>, the drift and its summary. \<open>pip\<close> is a query of the host. A dictionary is an association list with
  unique keys in the order of insertion; the texts of errors are fixed strings.
\<close>

subsection \<open>The parser\<close>

definition normalise :: "string \<Rightarrow> string" where
  "normalise name = replace_char CHR ''-'' CHR ''_'' (py_lower (py_strip name))"

text \<open>The package of one line, if it has one.\<close>

definition freeze_line :: "string \<Rightarrow> (string \<times> string) option" where
  "freeze_line raw = (let line = py_strip raw in
     if line = [] \<or> startswith line ''#'' \<or> startswith line ''-'' then None
     else map_option (\<lambda>(name, version). (normalise name, py_strip version)) (py_partition ''=='' line))"

definition parse_freeze :: "string \<Rightarrow> (string \<times> string) list" where
  "parse_freeze txt = fold (\<lambda>line pkgs. case freeze_line line of None \<Rightarrow> pkgs | Some (n, v) \<Rightarrow> AList.update n v pkgs)
     (splitlines txt) []"

subsection \<open>The drift\<close>

record DepDriftResult =
  dd_ok :: bool
  added :: "string list"
  removed :: "string list"
  changed :: "string list"

definition dep_drift_summary :: "DepDriftResult \<Rightarrow> string" where
  "dep_drift_summary d = (if dd_ok d then ''dep lock OK''
     else let part = (\<lambda>what xs. if xs = [] then [] else [what @ ''('' @ show_nat (length xs) @ '')'']) in
       ''dep drift: '' @ py_join '', '' (part ''added'' (added d) @ part ''removed'' (removed d) @ part ''changed'' (changed d)))"

definition drift_error :: "string \<Rightarrow> DepDriftResult" where
  "drift_error why = \<lparr>dd_ok = False, added = [], removed = [], changed = [why]\<rparr>"

definition compare_packages :: "(string \<times> string) list \<Rightarrow> (string \<times> string) list \<Rightarrow> DepDriftResult" where
  "compare_packages lock_pkgs env_pkgs =
     (let a = sort (map (\<lambda>(n, v). n @ ''=='' @ v) (filter (\<lambda>(n, v). map_of lock_pkgs n = None) env_pkgs));
          r = sort (map (\<lambda>(n, v). n @ ''=='' @ v) (filter (\<lambda>(n, v). map_of env_pkgs n = None) lock_pkgs));
          c = sort (map (\<lambda>(n, v). n @ '': lock='' @ v @ '' env='' @ the (map_of env_pkgs n))
                (filter (\<lambda>(n, v). map_of env_pkgs n \<noteq> None \<and> v \<noteq> the (map_of env_pkgs n)) lock_pkgs))
      in \<lparr>dd_ok = (a = [] \<and> r = [] \<and> c = []), added = a, removed = r, changed = c\<rparr>)"

definition PIP_FREEZE :: "string \<Rightarrow> string list" where
  "PIP_FREEZE python = [python, ''-m'', ''pip'', ''freeze'']"

definition verify_dep_lock :: "('m host_scheme) query \<Rightarrow> string \<Rightarrow> string \<Rightarrow> 'm host_scheme \<Rightarrow> DepDriftResult" where
  "verify_dep_lock ctl python lock_path h =
     (if \<not> fs_exists lock_path h then drift_error (''lock file missing: '' @ lock_path)
      else case fst (fs_read lock_path h) of
        Inl e \<Rightarrow> drift_error ''lock read error''
      | Inr lock_text \<Rightarrow> (case ctl (PIP_FREEZE python) h of
          Inl e \<Rightarrow> drift_error ''pip freeze error''
        | Inr p \<Rightarrow>
            if returncode p \<noteq> 0
            then drift_error (''pip freeze failed (rc='' @ show_int (returncode p) @ ''): '' @ take 200 (stderr p))
            else compare_packages (parse_freeze lock_text) (parse_freeze (stdout p))))"

subsection \<open>What is compared\<close>

lemma distinct_parse_freeze [simp]: "distinct (map fst (parse_freeze txt))"
proof -
  have "distinct (map fst (fold (\<lambda>line pkgs. case freeze_line line of None \<Rightarrow> pkgs | Some (n, v) \<Rightarrow> AList.update n v pkgs) ls acc))"
    if "distinct (map fst acc)" for ls acc
    using that by (induction ls arbitrary: acc) (auto simp: distinct_update split: option.split)
  then show ?thesis by (simp add: parse_freeze_def)
qed

text \<open>The last line of a package counts.\<close>

lemma map_of_parse_freeze:
  "map_of (parse_freeze txt) = map_of (rev (List.map_filter freeze_line (splitlines txt)))"
proof -
  have "map_of (fold (\<lambda>line pkgs. case freeze_line line of None \<Rightarrow> pkgs | Some (n, v) \<Rightarrow> AList.update n v pkgs) ls acc)
      = map_of acc ++ map_of (rev (List.map_filter freeze_line ls))" for ls acc
    by (induction ls arbitrary: acc)
      (auto simp: update_conv' map_filter_simps map_add_def fun_eq_iff split: option.split)
  from this [of "splitlines txt" "[]"] show ?thesis by (simp add: parse_freeze_def)
qed

lemma sort_Nil_iff [simp]: "sort xs = [] \<longleftrightarrow> xs = []"
  by (metis length_0_conv length_sort)

lemma compare_ok:
  assumes "distinct (map fst lock)" "distinct (map fst env)"
  shows "dd_ok (compare_packages lock env) \<longleftrightarrow> map_of lock = map_of env"
proof -
  have ok: "dd_ok (compare_packages lock env) \<longleftrightarrow>
      (\<forall>n v. (n, v) \<in> set env \<longrightarrow> map_of lock n \<noteq> None) \<and> (\<forall>n v. (n, v) \<in> set lock \<longrightarrow> map_of env n \<noteq> None)
      \<and> (\<forall>n v w. (n, v) \<in> set lock \<longrightarrow> map_of env n = Some w \<longrightarrow> v = w)"
    by (auto simp: compare_packages_def Let_def filter_empty_conv)
  show ?thesis
  proof
    assume same: "dd_ok (compare_packages lock env)"
    show "map_of lock = map_of env"
    proof (rule ext)
      fix n
      show "map_of lock n = map_of env n"
      proof (cases "map_of lock n")
        case None
        have "map_of env n = None"
        proof (rule ccontr)
          assume "map_of env n \<noteq> None"
          then obtain v where "(n, v) \<in> set env" by (auto dest: map_of_SomeD)
          with same ok None show False by blast
        qed
        with None show ?thesis by simp
      next
        case (Some v)
        then have "(n, v) \<in> set lock" by (rule map_of_SomeD)
        with same ok Some show ?thesis by force
      qed
    qed
  next
    assume eq: "map_of lock = map_of env"
    have "map_of lock n \<noteq> None" if "(n, v) \<in> set env" for n v using that assms(2) eq by simp
    moreover have "map_of env n = Some v" if "(n, v) \<in> set lock" for n v using that assms(1) eq by (metis map_of_is_SomeI)
    ultimately show "dd_ok (compare_packages lock env)" unfolding ok by force
  qed
qed

text \<open>The check is exact about what it reads: it is fine precisely when the lock file can be read, \<open>pip freeze\<close> returns,
  and the last version that the one text gives to each normalised name is the last one that the other gives it.\<close>

theorem dep_lock_exact:
  "dd_ok (verify_dep_lock ctl python p h) \<longleftrightarrow>
     (\<exists>lock q. fs_exists p h \<and> fst (fs_read p h) = Inr lock \<and> ctl (PIP_FREEZE python) h = Inr q \<and> returncode q = 0
        \<and> map_of (rev (List.map_filter freeze_line (splitlines lock))) = map_of (rev (List.map_filter freeze_line (splitlines (stdout q)))))"
  by (auto simp: verify_dep_lock_def drift_error_def compare_ok map_of_parse_freeze split: sum.splits)

text \<open>It reads only lines with \<open>==\<close>: a package installed from a URL or a path is no line of either text, so any of them
  may be added, removed or replaced without drift.\<close>

theorem url_packages_unseen:
  assumes "py_partition ''=='' (py_strip line) = None" "splitlines txt' = ls @ line # rs" "splitlines txt = ls @ rs"
  shows "map_of (parse_freeze txt') = map_of (parse_freeze txt)"
proof -
  have none: "freeze_line line = None" using assms(1) by (simp add: freeze_line_def Let_def)
  with assms(2,3) show ?thesis by (simp add: map_of_parse_freeze List.map_filter_def)
qed

theorem url_packages_unseen_witness:
  "dd_ok (compare_packages (parse_freeze ''a==1'') (parse_freeze ''evil @ git+https://x/y\<newline>a==1''))"
proof -
  have "map_of (parse_freeze ''evil @ git+https://x/y\<newline>a==1'') = map_of (parse_freeze ''a==1'')"
    by (rule url_packages_unseen [where line = "''evil @ git+https://x/y''" and ls = "[]" and rs = "[''a==1'']"]) code_simp+
  then show ?thesis by (simp add: compare_ok)
qed

end
