(* ===== verification/Lifespan.thy ===== *)
theory Lifespan
  imports Landlock Bpf_Lsm Unit_Topology Audit_Chain Dep_Lock
begin

text \<open>
  The start of the server (\<open>lifespan\<close> in \<open>anima/api/app.py\<close>), which puts the boot checks together: the secret, the
  Landlock, BPF and unit checks that may refuse the start, the background tasks, the Telegram gate, the intents left
  over from a crash, the verification of the audit log, the dependency lock, and the record of the start. The machine
  is the host of the audit log; the warm-up of the vector store with the watchers, and the Telegram library, are
  parameters. The database is opened before.
\<close>

subsection \<open>State and settings\<close>

record ('sk, 'pk, 'w, 'm) boot_state =
  bo_landlock :: "'w landlock_state"
  bo_bpf_cache :: "bool option"
  bo_unit_cache :: "bool option"
  bo_audit :: "('sk, 'pk, 'm) audit_state"
  bo_tasks :: "string list"
  bo_intents :: "(string \<times> int) list"

record boot_settings =
  bs_workspaces_root :: string
  bs_chroma_path :: string
  bs_jwt_secret :: string
  bs_landlock_enabled :: bool
  bs_bpf_enabled :: bool
  bs_bpf_mode :: string
  bs_unit_enabled :: bool
  bs_telegram_enabled :: bool
  bs_telegram_token :: string

record ('sk, 'pk, 'w, 'm) boot_env =
  be_landlock :: "'w landlock_kernel"
  be_ctl :: "('m host_scheme) query"
  be_crypto :: "('sk, 'pk) crypto"
  be_audit_path :: string
  be_python :: string
  be_lock_path :: string
  be_warmup :: "(('sk, 'pk, 'w, 'm) boot_state, unit) act"
  be_telegram :: "(('sk, 'pk, 'w, 'm) boot_state, unit) act"

text \<open>Code of one part, run in the whole.\<close>

definition zoom :: "('s \<Rightarrow> 'a) \<Rightarrow> ('a \<Rightarrow> 's \<Rightarrow> 's) \<Rightarrow> ('a, 'b) act \<Rightarrow> ('s, 'b) act" where
  "zoom get put m = (\<lambda>s. case m (get s) of (r, a) \<Rightarrow> (r, put a s))"

lemma zoom_apply [act_simps]: "zoom get put m s = (case m (get s) of (r, a) \<Rightarrow> (r, put a s))"
  by (simp add: zoom_def)

definition bo_host :: "('sk, 'pk, 'w, 'm) boot_state \<Rightarrow> 'm host_scheme" where
  "bo_host s = disk (bo_audit s)"

definition set_host :: "'m host_scheme \<Rightarrow> ('sk, 'pk, 'w, 'm) boot_state \<Rightarrow> ('sk, 'pk, 'w, 'm) boot_state" where
  "set_host h s = s\<lparr>bo_audit := (bo_audit s)\<lparr>disk := h\<rparr>\<rparr>"

subsection \<open>The checks\<close>

definition check_landlock :: "('sk, 'pk, 'w, 'm) boot_env \<Rightarrow> boot_settings \<Rightarrow> (('sk, 'pk, 'w, 'm) boot_state, unit) act" where
  "check_landlock E C = zoom bo_landlock (\<lambda>l s. s\<lparr>bo_landlock := l\<rparr>)
     (landlock_validate_boot_config (be_landlock E) (bs_landlock_enabled C))"

definition check_bpf :: "boot_settings \<Rightarrow> (('sk, 'pk, 'w, 'm) boot_state, unit) act" where
  "check_bpf C = zoom (\<lambda>s. \<lparr>support_cache = bo_bpf_cache s, bpf_host = bo_host s\<rparr>)
     (\<lambda>b s. set_host (bpf_host b) (s\<lparr>bo_bpf_cache := support_cache b\<rparr>))
     (bpf_validate_boot_config (bs_bpf_enabled C) (bs_bpf_mode C))"

definition check_units :: "('sk, 'pk, 'w, 'm) boot_env \<Rightarrow> boot_settings \<Rightarrow> (('sk, 'pk, 'w, 'm) boot_state, unit) act" where
  "check_units E C = zoom (\<lambda>s. (bo_unit_cache s, bo_host s)) (\<lambda>(c, h) s. set_host h (s\<lparr>bo_unit_cache := c\<rparr>))
     (validate_boot_config (be_ctl E) (bs_unit_enabled C))"

definition boot_checks :: "('sk, 'pk, 'w, 'm) boot_env \<Rightarrow> boot_settings \<Rightarrow> (('sk, 'pk, 'w, 'm) boot_state, unit) act" where
  "boot_checks E C =
     act_then (zoom bo_host set_host (fs_makedirs (bs_workspaces_root C)))
     (act_then (zoom bo_host set_host (fs_makedirs (bs_chroma_path C)))
     (if bs_jwt_secret C = ''CHANGE_ME_IN_PRODUCTION'' then act_raise (ExternalError ''RuntimeError'')
      else act_then (check_landlock E C) (act_then (check_bpf C) (check_units E C))))"

subsection \<open>The start\<close>

definition BOOT_TASKS :: "string list" where
  "BOOT_TASKS = [''context-db-sync'', ''proactive-scheduler'', ''personal-watcher-reload'', ''study-daily-snapshot'', ''calendar-sync'',
     ''autonomous-server-scan'', ''anima-self-probe'', ''narrative-consolidation'', ''operator-scan'', ''system-fs-reflex'',
     ''kernel-perception'', ''self-reload-boot-commit'', ''venv-boot-commit'', ''bpf-lsm-heartbeat'', ''audit-chain-mirror'']"

definition start_telegram_gate :: "('sk, 'pk, 'w, 'm) boot_env \<Rightarrow> boot_settings \<Rightarrow> (('sk, 'pk, 'w, 'm) boot_state, bool) act" where
  "start_telegram_gate E C =
     (if \<not> bs_telegram_enabled C then act_return False
      else if bs_telegram_token C = [] then act_return False
      else act_then (be_telegram E) (act_return True))"

definition fail_orphans :: "int \<Rightarrow> (string \<times> int) list \<Rightarrow> (string \<times> int) list" where
  "fail_orphans now = map (\<lambda>(st, t). if st = ''executing'' \<and> t < now - 360 then (''failed'', t) else (st, t))"

definition boot_verify :: "('sk, 'pk, 'w, 'm) boot_env \<Rightarrow> (('sk, 'pk, 'w, 'm) boot_state, VerifyResult) act" where
  "boot_verify E = (\<lambda>s. (audit_verify (be_crypto E) (be_audit_path E) (bo_audit s), s))"

definition startup_payload :: "VerifyResult \<Rightarrow> DepDriftResult \<Rightarrow> (string \<times> json) list" where
  "startup_payload v d = [(''chain_records_at_boot'', JInt (int (records_verified v))), (''chain_ok_at_boot'', JBool (ok v)),
     (''dep_lock_ok_at_boot'', JBool (dd_ok d)), (''dep_drift_summary'', JStr (dep_drift_summary d))]"

definition boot_report :: "('sk, 'pk, 'w, 'm) boot_env \<Rightarrow> nat \<Rightarrow> int \<Rightarrow> (('sk, 'pk, 'w, 'm) boot_state, unit) act" where
  "boot_report E rnd now =
     act_bind (boot_verify E) (\<lambda>v.
     act_bind (act_get (\<lambda>s. verify_dep_lock (be_ctl E) (be_python E) (be_lock_path E) (bo_host s))) (\<lambda>d.
     act_bind (zoom bo_audit (\<lambda>a s. s\<lparr>bo_audit := a\<rparr>)
       (audit_append (be_crypto E) (be_audit_path E) rnd (now * 1000) ''startup'' (startup_payload v d))) (\<lambda>_. act_return ())))"

definition lifespan_start ::
    "('sk, 'pk, 'w, 'm) boot_env \<Rightarrow> boot_settings \<Rightarrow> nat \<Rightarrow> int \<Rightarrow> (('sk, 'pk, 'w, 'm) boot_state, bool) act" where
  "lifespan_start E C rnd now =
     act_then (boot_checks E C)
     (act_then (be_warmup E)
     (act_then (act_modify (\<lambda>s. s\<lparr>bo_tasks := bo_tasks s @ BOOT_TASKS\<rparr>))
     (act_bind (start_telegram_gate E C) (\<lambda>gate.
     act_then (act_modify (\<lambda>s. s\<lparr>bo_intents := fail_orphans now (bo_intents s)\<rparr>))
     (act_then (boot_report E rnd now) (act_return gate))))))"

subsection \<open>Properties\<close>

lemma checks_frame:
  assumes "boot_checks E C s = (r, s')"
  shows "bo_tasks s' = bo_tasks s \<and> chain (bo_audit s') = chain (bo_audit s) \<and> bo_intents s' = bo_intents s"
  using assms by (auto simp: boot_checks_def check_landlock_def check_bpf_def check_units_def act_simps set_host_def
      split: prod.splits sum.splits if_splits)

lemma report_total:
  assumes "audit_verify (be_crypto E) (be_audit_path E) (bo_audit s) = Inr v"
  shows "boot_report E rnd now s = (Inr (), s\<lparr>bo_audit := snd (audit_append (be_crypto E) (be_audit_path E) rnd (now * 1000) ''startup''
    (startup_payload v (verify_dep_lock (be_ctl E) (be_python E) (be_lock_path E) (bo_host s))) (bo_audit s))\<rparr>)"
  using assms by (simp add: boot_report_def boot_verify_def audit_append_def act_simps split: prod.split sum.split)

text \<open>A start that is refused starts nothing: with the default secret, or when one of the three checks fails, no task is
  created, no intent is changed and nothing is appended to the audit log.\<close>

theorem refused_boot_starts_nothing:
  assumes "bs_jwt_secret C = ''CHANGE_ME_IN_PRODUCTION''
    \<or> fst (landlock_validate_boot_config (be_landlock E) (bs_landlock_enabled C) (bo_landlock s)) \<noteq> Inr ()
    \<or> bs_bpf_enabled C \<and> bs_bpf_mode C \<notin> VALID_MODES"
  shows "case lifespan_start E C rnd now s of (r, s') \<Rightarrow> (\<exists>e. r = Inl e) \<and> bo_tasks s' = bo_tasks s
    \<and> bo_intents s' = bo_intents s \<and> chain (bo_audit s') = chain (bo_audit s)"
proof -
  obtain r s' where run: "boot_checks E C s = (r, s')" by (cases "boot_checks E C s")
  have "\<exists>e. r = Inl e"
    using assms run by (auto simp: boot_checks_def check_landlock_def check_bpf_def bpf_validate_boot_config_def act_simps set_host_def
        split: prod.splits sum.splits if_splits)
  with run checks_frame [OF run] show ?thesis by (auto simp: lifespan_start_def act_simps)
qed

definition telegram_on :: "boot_settings \<Rightarrow> bool" where
  "telegram_on C \<longleftrightarrow> bs_telegram_enabled C \<and> bs_telegram_token C \<noteq> []"

lemma gate_cases: "be_telegram E = (\<lambda>x. (tg, x)) \<Longrightarrow>
    start_telegram_gate E C s = ((if telegram_on C then (case tg of Inl e \<Rightarrow> Inl e | Inr _ \<Rightarrow> Inr True) else Inr False), s)"
  by (auto simp: start_telegram_gate_def telegram_on_def act_simps split: sum.split)

text \<open>Integrity comes last. When the checks let the start pass, all tasks are created before the audit log is looked at; a
  log that does not verify is only a word in the new record, and when verifying it raises, or the Telegram service
  cannot be reached, the start fails with the tasks created and no record of it.\<close>

theorem integrity_checked_last:
  assumes "boot_checks E C s = (Inr (), s1)" "be_warmup E = act_return ()" "be_telegram E = (\<lambda>x. (tg, x))"
  shows "case lifespan_start E C rnd now s of (r, s') \<Rightarrow> bo_tasks s' = bo_tasks s @ BOOT_TASKS
    \<and> r = (case (if telegram_on C then tg else Inr ()) of Inl e \<Rightarrow> Inl e
        | Inr _ \<Rightarrow> (case audit_verify (be_crypto E) (be_audit_path E) (bo_audit s1) of Inl e \<Rightarrow> Inl e | Inr v \<Rightarrow> Inr (telegram_on C)))
    \<and> (r = Inr (telegram_on C) \<or> chain (bo_audit s') = chain (bo_audit s))"
proof -
  define s2 where "s2 = s1\<lparr>bo_tasks := bo_tasks s1 @ BOOT_TASKS\<rparr>"
  define s3 where "s3 = s2\<lparr>bo_intents := fail_orphans now (bo_intents s2)\<rparr>"
  note frame = checks_frame [OF assms(1)]
  have start: "lifespan_start E C rnd now s = act_bind (start_telegram_gate E C) (\<lambda>gate.
     act_then (act_modify (\<lambda>s. s\<lparr>bo_intents := fail_orphans now (bo_intents s)\<rparr>)) (act_then (boot_report E rnd now) (act_return gate))) s2"
    using assms(1,2) by (simp add: lifespan_start_def act_simps s2_def)
  show ?thesis
  proof (cases "\<exists>e. telegram_on C \<and> tg = Inl e")
    case True
    then obtain e where "telegram_on C" "tg = Inl e" by blast
    then have "lifespan_start E C rnd now s = (Inl e, s2)"
      unfolding start by (simp add: act_bind_apply gate_cases [OF assms(3)])
    with frame \<open>telegram_on C\<close> \<open>tg = Inl e\<close> show ?thesis by (simp add: s2_def)
  next
    case False
    then have gate: "start_telegram_gate E C s2 = (Inr (telegram_on C), s2)" "(if telegram_on C then tg else Inr ()) = Inr ()"
      by (cases tg; auto simp: gate_cases [OF assms(3)])+
    have run: "lifespan_start E C rnd now s = act_then (boot_report E rnd now) (act_return (telegram_on C)) s3"
      unfolding start by (simp add: act_bind_apply act_then_apply gate(1) s3_def)
    have audit: "bo_audit s3 = bo_audit s1" "bo_tasks s3 = bo_tasks s @ BOOT_TASKS" using frame by (simp_all add: s3_def s2_def)
    show ?thesis
    proof (cases "audit_verify (be_crypto E) (be_audit_path E) (bo_audit s1)")
      case (Inl e)
      then have "boot_report E rnd now s3 = (Inl e, s3)" by (simp add: boot_report_def boot_verify_def act_bind_apply audit)
      with run gate(2) audit frame Inl show ?thesis by (simp add: act_then_apply)
    next
      case (Inr v)
      then have "audit_verify (be_crypto E) (be_audit_path E) (bo_audit s3) = Inr v" by (simp add: audit)
      from report_total [OF this] run gate(2) audit Inr show ?thesis by (simp add: act_then_apply)
    qed
  qed
qed

text \<open>A start on a sound log keeps it sound: after any events and a start that passes, the log verifies with one record more,
  and the record says how many records it found.\<close>

theorem boot_record_verifies:
  assumes "boot_checks E C s = (Inr (), s1)" "be_warmup E = act_return ()" "\<not> telegram_on C"
    and "bo_audit s1 = run_appends (be_crypto E) (be_audit_path E) evs a"
    and "signatures_verify (be_crypto E)" "files (disk a) (fs_key (be_audit_path E)) = None" "\<not> io_fault (disk a) (fs_key (be_audit_path E))"
    and "parent_ok (be_audit_path E) (disk a)" "fs_key (path_parent (be_audit_path E)) \<noteq> fs_key (be_audit_path E)"
    and "chain a = new_chain sk (public_of (be_crypto E) sk)" "\<forall>e \<in> set evs. event_free e"
  shows "case lifespan_start E C rnd now s of (r, s') \<Rightarrow> r = Inr False
    \<and> audit_verify (be_crypto E) (be_audit_path E) (bo_audit s') = Inr \<lparr>ok = True, records_verified = length evs + 1, reason = NoReason\<rparr>"
proof -
  define s3 where "s3 = s1\<lparr>bo_tasks := bo_tasks s1 @ BOOT_TASKS, bo_intents := fail_orphans now (bo_intents s1)\<rparr>"
  define v where "v = \<lparr>ok = True, records_verified = length evs, reason = if evs = [] then EmptyChain else NoReason\<rparr>"
  define ev where "ev = (rnd, now * 1000, ''startup'', startup_payload v (verify_dep_lock (be_ctl E) (be_python E) (be_lock_path E) (bo_host s3)))"
  have before: "audit_verify (be_crypto E) (be_audit_path E) (bo_audit s3) = Inr v"
    using audit_signed_run [OF assms(5-11)] assms(4) by (simp add: s3_def v_def)
  have free: "\<forall>e \<in> set (evs @ [ev]). event_free e"
    using assms(11) by (auto simp: ev_def event_free_def startup_payload_def)
  have run: "lifespan_start E C rnd now s = act_then (boot_report E rnd now) (act_return False) s3"
    using assms(1-3) by (auto simp: lifespan_start_def start_telegram_gate_def telegram_on_def act_simps s3_def)
  have "bo_audit s3 = run_appends (be_crypto E) (be_audit_path E) evs a" using assms(4) by (simp add: s3_def)
  then have "snd (boot_report E rnd now s3) = s3\<lparr>bo_audit := run_appends (be_crypto E) (be_audit_path E) (evs @ [ev]) a\<rparr>"
    "fst (boot_report E rnd now s3) = Inr ()"
    using report_total [OF before, of rnd now] by (simp_all add: run_appends_def ev_def)
  moreover have "audit_verify (be_crypto E) (be_audit_path E) (run_appends (be_crypto E) (be_audit_path E) (evs @ [ev]) a)
      = Inr \<lparr>ok = True, records_verified = length evs + 1, reason = NoReason\<rparr>"
    using audit_signed_run [OF assms(5-10) free] by simp
  ultimately show ?thesis unfolding run by (cases "boot_report E rnd now s3") (simp add: act_then_apply)
qed

subsection \<open>A small machine\<close>

definition small_boot :: "exn + unit \<Rightarrow> (string, string, one_world, unit) boot_env" where
  "small_boot tg = \<lparr>be_landlock = one_kernel (\<lambda>_. True), be_ctl = (\<lambda>_ _. Inl PyFileNotFoundError), be_crypto = sample_crypto,
     be_audit_path = ''/a/log'', be_python = ''python3'', be_lock_path = ''/a/lock'', be_warmup = act_return (),
     be_telegram = (\<lambda>x. (tg, x))\<rparr>"

definition small_boot_settings :: boot_settings where
  "small_boot_settings = \<lparr>bs_workspaces_root = ''/a'', bs_chroma_path = ''/a'', bs_jwt_secret = ''secret'', bs_landlock_enabled = False,
     bs_bpf_enabled = False, bs_bpf_mode = ''audit'', bs_unit_enabled = False, bs_telegram_enabled = False, bs_telegram_token = []\<rparr>"

definition small_boot_state :: "(string, string, one_world, unit) boot_state" where
  "small_boot_state = \<lparr>bo_landlock = one_state, bo_bpf_cache = None, bo_unit_cache = None, bo_audit = sample_audit,
     bo_tasks = [], bo_intents = [(''executing'', 0)]\<rparr>"

lemma small_checks:
  assumes "bs_jwt_secret C = ''secret''" "C = small_boot_settings\<lparr>bs_telegram_enabled := t, bs_telegram_token := tok\<rparr>"
  shows "boot_checks (small_boot tg) C small_boot_state = (Inr (), small_boot_state)"
proof -
  have dirs: "dirs_exist ''/a'' (disk sample_audit)" by code_simp
  show ?thesis
    using fs_makedirs_exist [OF dirs] assms
    by (simp add: boot_checks_def check_landlock_def check_bpf_def check_units_def landlock_validate_boot_config_def
        bpf_validate_boot_config_def validate_boot_config_def act_simps bo_host_def set_host_def small_boot_state_def small_boot_settings_def)
qed

theorem refused_boot_starts_nothing_witness:
  "bo_tasks (snd (lifespan_start (small_boot (Inr ())) (small_boot_settings\<lparr>bs_jwt_secret := ''CHANGE_ME_IN_PRODUCTION''\<rparr>) 0 9 small_boot_state)) = []"
  using refused_boot_starts_nothing [of "small_boot_settings\<lparr>bs_jwt_secret := ''CHANGE_ME_IN_PRODUCTION''\<rparr>" "small_boot (Inr ())"
      small_boot_state 0 9]
  by (simp add: small_boot_state_def split: prod.splits)

theorem integrity_checked_last_witness:
  "case lifespan_start (small_boot (Inl PyOSError)) (small_boot_settings\<lparr>bs_telegram_enabled := True, bs_telegram_token := ''t''\<rparr>) 0 9
     small_boot_state of (r, s') \<Rightarrow> r = Inl PyOSError \<and> bo_tasks s' = BOOT_TASKS"
proof -
  let ?C = "small_boot_settings\<lparr>bs_telegram_enabled := True, bs_telegram_token := ''t''\<rparr>"
  have "boot_checks (small_boot (Inl PyOSError)) ?C small_boot_state = (Inr (), small_boot_state)"
    by (rule small_checks) (simp_all add: small_boot_settings_def)
  moreover have "be_warmup (small_boot (Inl PyOSError)) = act_return ()" "be_telegram (small_boot (Inl PyOSError)) = (\<lambda>x. (Inl PyOSError, x))"
    by (simp_all add: small_boot_def)
  ultimately show ?thesis
    using integrity_checked_last [of "small_boot (Inl PyOSError)" ?C small_boot_state small_boot_state "Inl PyOSError" 0 9]
    by (simp add: telegram_on_def small_boot_state_def split: prod.splits)
qed

theorem boot_record_verifies_witness:
  "audit_verify sample_crypto ''/a/log'' (bo_audit (snd (lifespan_start (small_boot (Inr ())) small_boot_settings 0 9 small_boot_state)))
     = Inr \<lparr>ok = True, records_verified = 1, reason = NoReason\<rparr>"
proof -
  have checks: "boot_checks (small_boot (Inr ())) small_boot_settings small_boot_state = (Inr (), small_boot_state)"
    by (rule small_checks [where t = False and tok = "[]"]) (simp_all add: small_boot_settings_def)
  have path: "fs_key ''/a/log'' = ''/a/log''" by code_simp
  have fresh: "files (disk sample_audit) (fs_key ''/a/log'') = None" unfolding path by code_simp
  have parent: "parent_ok ''/a/log'' (disk sample_audit)" by code_simp
  have apart: "fs_key (path_parent ''/a/log'') \<noteq> fs_key ''/a/log''" by code_simp
  have start: "chain sample_audit = new_chain ''k'' (public_of sample_crypto ''k'')" "\<not> io_fault (disk sample_audit) (fs_key ''/a/log'')"
    by (simp_all add: sample_audit_def sample_crypto_def)
  have env: "be_crypto (small_boot (Inr ())) = sample_crypto" "be_audit_path (small_boot (Inr ())) = ''/a/log''"
    "be_warmup (small_boot (Inr ())) = act_return ()"
    by (simp_all add: small_boot_def)
  have "case lifespan_start (small_boot (Inr ())) small_boot_settings 0 9 small_boot_state of (r, s') \<Rightarrow> r = Inr False
    \<and> audit_verify (be_crypto (small_boot (Inr ()))) (be_audit_path (small_boot (Inr ()))) (bo_audit s')
      = Inr \<lparr>ok = True, records_verified = length ([] :: event list) + 1, reason = NoReason\<rparr>"
    by (rule boot_record_verifies [OF checks env(3), where a = sample_audit and sk = "''k''"])
      (use fresh parent apart start sample_signatures in
        \<open>simp_all add: env telegram_on_def small_boot_settings_def small_boot_state_def run_appends_def\<close>)
  then show ?thesis by (simp add: env split: prod.splits)
qed

end
