(* ===== verification/Web_Tools.thy ===== *)
theory Web_Tools
  imports Tool_Executor Run_Registry "HOL-Library.Word" "HOL-Library.List_Lexorder" "HOL-Library.Char_ord"
begin

unbundle bit_operations_syntax

text \<open>
  The tools of \<open>anima/kernel/tools.py\<close> that list files, fetch URLs and publish a page. Addresses are words of 32 and
  128 bits, and the blocked networks are compared bit by bit, as the \<open>ipaddress\<close> library does. The resolver, the HTTP
  exchange of one request and the listing of a directory are parameters; that the HTTP client follows redirects, at
  most twenty, is its documented behaviour. A URL is taken apart as \<open>urllib.parse\<close> does.
\<close>

subsection \<open>Blocked networks\<close>

datatype ip_address = IPv4 "32 word" | IPv6 "128 word"
datatype ip_network = Net4 "32 word" nat | Net6 "128 word" nat

text \<open>\<open>addr in net\<close>: the same version, and the same bits under the netmask.\<close>

fun ip_in :: "ip_address \<Rightarrow> ip_network \<Rightarrow> bool" where
  "ip_in (IPv4 a) (Net4 n l) = (a AND NOT (mask (32 - l)) = n AND NOT (mask (32 - l)))"
| "ip_in (IPv6 a) (Net6 n l) = (a AND NOT (mask (128 - l)) = n AND NOT (mask (128 - l)))"
| "ip_in _ _ = False"

definition SSRF_BLOCKED_NETWORKS :: "(ip_network \<times> string) list" where
  "SSRF_BLOCKED_NETWORKS = [
     (Net4 0x0A000000 8, ''10.0.0.0/8''), (Net4 0xAC100000 12, ''172.16.0.0/12''), (Net4 0xC0A80000 16, ''192.168.0.0/16''),
     (Net4 0x7F000000 8, ''127.0.0.0/8''), (Net4 0xA9FE0000 16, ''169.254.0.0/16''), (Net4 0x64400000 10, ''100.64.0.0/10''),
     (Net4 0 8, ''0.0.0.0/8''), (Net6 1 128, ''::1/128''), (Net6 0xFC000000000000000000000000000000 7, ''fc00::/7''),
     (Net6 0xFE800000000000000000000000000000 10, ''fe80::/10''), (Net6 0x0064FF9B000000000000000000000000 96, ''64:ff9b::/96'')]"

definition blocked_range :: "ip_address \<Rightarrow> string option" where
  "blocked_range a = map_option snd (find (\<lambda>(net, text). ip_in a net) SSRF_BLOCKED_NETWORKS)"

subsection \<open>Taking a URL apart\<close>

record parsed_url =
  url_scheme :: string
  url_hostname :: "string option"
  url_port :: "string option"

definition partition_at :: "char \<Rightarrow> string \<Rightarrow> string \<times> bool \<times> string" where
  "partition_at c s = (takeWhile (\<lambda>x. x \<noteq> c) s, c \<in> set s, drop 1 (dropWhile (\<lambda>x. x \<noteq> c) s))"

text \<open>\<open>hostname\<close> and \<open>port\<close> of the network location; an empty host is \<open>None\<close>.\<close>

definition split_netloc :: "string \<Rightarrow> string option \<times> string option" where
  "split_netloc netloc = (let hostinfo = last (split_on CHR ''@'' netloc);
       (_, have_open, bracketed) = partition_at CHR ''['' hostinfo;
       (host, port) = (if have_open
          then (let (h, _, r) = partition_at CHR '']'' bracketed; (_, _, p) = partition_at CHR '':'' r in (h, p))
          else (let (h, _, p) = partition_at CHR '':'' hostinfo in (h, p)))
     in (if host = [] then None
         else Some (let (h, zoned, z) = partition_at CHR ''%'' host in py_lower h @ (if zoned then CHR ''%'' # z else [])), if port = [] then None else Some port))"

text \<open>\<open>urlparse\<close> raises for unbalanced brackets.\<close>

definition urlparse :: "string \<Rightarrow> exn + parsed_url" where
  "urlparse url = (case py_partition ''://'' url of
     None \<Rightarrow> Inr \<lparr>url_scheme = [], url_hostname = None, url_port = None\<rparr>
   | Some (scheme, rest) \<Rightarrow>
       let netloc = takeWhile (\<lambda>c. c \<notin> set ''/?#'') rest in
       if (CHR ''['' \<in> set netloc) \<noteq> (CHR '']'' \<in> set netloc) then Inl PyValueError
       else Inr (let (h, p) = split_netloc netloc in \<lparr>url_scheme = py_lower scheme, url_hostname = h, url_port = p\<rparr>))"

text \<open>The property \<open>port\<close>: ASCII digits of a value up to 65535, or it raises.\<close>

definition parsed_port :: "parsed_url \<Rightarrow> exn + int option" where
  "parsed_port u = (case url_port u of None \<Rightarrow> Inr None
     | Some t \<Rightarrow> if list_all is_digit t \<and> digits_value t \<le> 65535 then Inr (Some (int (digits_value t))) else Inl PyValueError)"

subsection \<open>The guard\<close>

definition gaierror :: exn where "gaierror = ExternalError ''gaierror''"

text \<open>The answers of the resolver: the text of an address and its value, if the text is one.\<close>

type_synonym 'w resolver = "string \<Rightarrow> int \<Rightarrow> 'w \<Rightarrow> exn + (string \<times> ip_address option) list"

fun check_addresses :: "(exn \<Rightarrow> string) \<Rightarrow> string \<Rightarrow> (string \<times> ip_address option) list \<Rightarrow> string option" where
  "check_addresses say hostname [] = None"
| "check_addresses say hostname ((ip_str, a) # infos) = (case a of
     None \<Rightarrow> Some (''SSRF-blocked: could not parse resolved IP: '' @ py_repr ip_str)
   | Some addr \<Rightarrow> (case blocked_range addr of
       Some net \<Rightarrow> Some (''SSRF-blocked: '' @ py_repr hostname @ '' resolves to '' @ ip_str @ '' which is in denied range '' @ net)
     | None \<Rightarrow> check_addresses say hostname infos))"

definition ssrf_blocked_url :: "'w resolver \<Rightarrow> (exn \<Rightarrow> string) \<Rightarrow> string \<Rightarrow> 'w \<Rightarrow> exn + string option" where
  "ssrf_blocked_url resolve say url w = (case urlparse url of Inl e \<Rightarrow> Inl e
   | Inr parsed \<Rightarrow>
     if url_scheme parsed \<notin> {''http'', ''https''}
     then Inr (Some (''SSRF-blocked: scheme '' @ py_repr (url_scheme parsed) @ '' not allowed (only http/https)''))
     else (case url_hostname parsed of
         None \<Rightarrow> Inr (Some ''SSRF-blocked: empty hostname'')
       | Some hostname \<Rightarrow> (case parsed_port parsed of Inl e \<Rightarrow> Inl e
         | Inr given \<Rightarrow>
           let port = (case given of Some n \<Rightarrow> if n = 0 then (if url_scheme parsed = ''https'' then 443 else 80) else n
                | None \<Rightarrow> if url_scheme parsed = ''https'' then 443 else 80) in
           (case resolve hostname port w of
              Inl e \<Rightarrow> if e = gaierror then Inr (Some (''SSRF-blocked: hostname resolution failed: '' @ say e)) else Inl e
            | Inr infos \<Rightarrow> Inr (if infos = [] then Some ''SSRF-blocked: hostname resolved to no addresses''
                else check_addresses say hostname infos)))))"

subsection \<open>\<open>_fetch_url\<close>\<close>

record http_response =
  status_code :: int
  content_type :: string
  http_body :: string

datatype hop = Redirected string | Answered http_response | Failed exn

record 'w web_env =
  we_resolve :: "'w resolver"
  we_request :: "string \<Rightarrow> 'w \<Rightarrow> hop \<times> 'w"
  we_say :: "exn \<Rightarrow> string"

definition http_timeout :: exn where "http_timeout = ExternalError ''httpx.TimeoutException''"
definition request_error :: exn where "request_error = ExternalError ''httpx.RequestError''"

text \<open>\<open>AsyncClient(follow_redirects=True).get\<close>: the first argument is the number of redirects that are left.\<close>

fun http_get :: "nat \<Rightarrow> 'w web_env \<Rightarrow> string \<Rightarrow> ('w, http_response) act" where
  "http_get 0 E url = (\<lambda>w. case we_request E url w of
     (Redirected loc, w') \<Rightarrow> (Inl request_error, w') | (Answered r, w') \<Rightarrow> (Inr r, w') | (Failed e, w') \<Rightarrow> (Inl e, w'))"
| "http_get (Suc n) E url = (\<lambda>w. case we_request E url w of
     (Redirected loc, w') \<Rightarrow> http_get n E loc w' | (Answered r, w') \<Rightarrow> (Inr r, w') | (Failed e, w') \<Rightarrow> (Inl e, w'))"

definition MAX_REDIRECTS :: nat where "MAX_REDIRECTS = 20"
definition FETCH_MAX_SIZE :: nat where "FETCH_MAX_SIZE = 200000"

text \<open>\<open>int(\<dots>)\<close> of a parameter; a float is not modelled.\<close>

definition param_int :: "string \<Rightarrow> int \<Rightarrow> (string \<times> json) list \<Rightarrow> exn + int" where
  "param_int k dflt params = (case obj_get k params of None \<Rightarrow> Inr dflt
     | Some (JInt n) \<Rightarrow> Inr n | Some (JBool b) \<Rightarrow> Inr (if b then 1 else 0)
     | Some (JStr s) \<Rightarrow> (case py_int_text s of None \<Rightarrow> Inl PyValueError | Some n \<Rightarrow> Inr n)
     | Some _ \<Rightarrow> Inl type_error)"

definition show_response :: "nat \<Rightarrow> http_response \<Rightarrow> string" where
  "show_response max_chars r = (let raw = take FETCH_MAX_SIZE (http_body r);
       txt = (if py_contains ''text'' (content_type r) \<or> py_contains ''json'' (content_type r) then utf8_decode raw
          else ''[binary content, '' @ show_nat (length raw) @ '' bytes, type: '' @ content_type r @ '']'');
       cut = (if length txt > max_chars
          then take max_chars txt @ CHR 0x0A # ''[truncated - fetched '' @ show_nat (length txt) @ '' chars total]'' else txt)
     in ''HTTP '' @ show_int (status_code r) @ CHR 0x0A # cut)"

definition fetch_guarded :: "'w web_env \<Rightarrow> int \<Rightarrow> string \<Rightarrow> nat \<Rightarrow> ('w, tool_result) act" where
  "fetch_guarded E ms url max_chars = (\<lambda>w. case ssrf_blocked_url (we_resolve E) (we_say E) url w of
     Inl e \<Rightarrow> (Inl e, w)
   | Inr (Some why) \<Rightarrow> (Inr (tool_error (''error: '' @ why)), w)
   | Inr None \<Rightarrow> act_catch
       (act_bind (http_get MAX_REDIRECTS E url) (\<lambda>r. act_return \<lparr>tool_text = show_response max_chars r,
          success = (200 \<le> status_code r \<and> status_code r < 300), duration_ms = ms\<rparr>))
       (\<lambda>e. if e = http_timeout then act_return (tool_error ''error: request timed out (15s)'')
            else if e = request_error then act_return (tool_error (''error: '' @ we_say E e)) else act_raise e) w)"

definition fetch_url :: "'w web_env \<Rightarrow> int \<Rightarrow> (string \<times> json) list \<Rightarrow> string \<Rightarrow> ('w, tool_result) act" where
  "fetch_url E ms params workdir = (case param_str ''url'' [] params of Inl e \<Rightarrow> act_raise e
   | Inr raw \<Rightarrow> (case param_int ''max_chars'' 5000 params of Inl e \<Rightarrow> act_raise e
     | Inr n \<Rightarrow> let url = py_strip raw in
         if url = [] then act_return (tool_error ''error: url is required'')
         else if \<not> startswith url ''http://'' \<and> \<not> startswith url ''https://''
         then act_return (tool_error ''error: url must start with http:// or https://'')
         else fetch_guarded E ms url (nat (max 100 (min n 20000)))))"

subsection \<open>\<open>_list_files\<close> and \<open>_deploy\<close>\<close>

text \<open>Directories come first; \<open>listdir\<close> gives the names in a directory, in any order. Sizes are those of UTF-8 text.\<close>

definition is_directory :: "string \<Rightarrow> 'm host_scheme \<Rightarrow> bool" where
  "is_directory p h \<longleftrightarrow> files h (fs_key p) = Some Directory"

definition is_regular :: "string \<Rightarrow> 'm host_scheme \<Rightarrow> bool" where
  "is_regular p h \<longleftrightarrow> (case files h (fs_key p) of Some (Regular _) \<Rightarrow> True | _ \<Rightarrow> False)"

definition list_line :: "string \<Rightarrow> string \<Rightarrow> 'm host_scheme \<Rightarrow> string" where
  "list_line root entry h = (let rel = py_join ''/'' (drop (length (path_parts root)) (path_parts entry)) in
     case files h (fs_key entry) of
       Some (Regular c) \<Rightarrow> ''f  '' @ rel @ ''  ('' @ show_nat (utf8_length c) @ '' bytes)''
     | _ \<Rightarrow> ''d  '' @ rel @ ''/'')"

definition list_files ::
    "(string \<Rightarrow> 'm host_scheme \<Rightarrow> exn + string list) \<Rightarrow> (exn \<Rightarrow> string) \<Rightarrow> int \<Rightarrow> (string \<times> json) list \<Rightarrow> string
      \<Rightarrow> ('m host_scheme, tool_result) act" where
  "list_files listdir msg ms params workdir = (\<lambda>h. case param_str ''path'' ''.'' params of
       Inl e \<Rightarrow> (Inl e, h)
     | Inr raw \<Rightarrow> (let path_arg = (if py_strip raw = [] then ''.'' else py_strip raw) in
         case validate_path path_arg workdir of
           None \<Rightarrow> (Inr (tool_error (traversal_message path_arg)), h)
         | Some full_path \<Rightarrow>
             if \<not> fs_exists full_path h then (Inr (tool_error (''error: path not found: '' @ path_arg)), h)
             else if \<not> is_directory full_path h then (Inr (tool_error (''error: not a directory: '' @ path_arg)), h)
             else (case listdir full_path h of
                 Inl e \<Rightarrow> (if os_error e then Inr (tool_error (''error listing files: '' @ msg e)) else Inl e, h)
               | Inr names \<Rightarrow>
                   let at = (\<lambda>n. path_div full_path n);
                       entries = sort (filter (\<lambda>n. is_directory (at n) h) names) @ sort (filter (\<lambda>n. \<not> is_directory (at n) h) names);
                       lines = map (\<lambda>n. list_line (fs_key workdir) (at n) h) (take 200 entries)
                   in (Inr \<lparr>tool_text = py_join [CHR 0x0A] (if lines = [] then [''(empty directory)''] else lines), success = True,
                         duration_ms = ms\<rparr>, h))))"

definition deploy :: "int \<Rightarrow> string \<Rightarrow> string \<Rightarrow> ('m host_scheme, tool_result) act" where
  "deploy ms entry_point workdir = (\<lambda>h.
     let entry_clean = path_name entry_point;
         url = (\<lambda>n. \<lparr>tool_text = ''https://downgrade.app/preview/'' @ path_name workdir @ ''/'' @ n, success = True, duration_ms = ms\<rparr>)
     in if entry_clean = [] then (Inr (tool_error ''error: invalid entry_point''), h)
        else if is_regular (path_div workdir entry_clean) h then (Inr (url entry_clean), h)
        else if is_regular (path_div workdir ''index.html'') h then (Inr (url ''index.html''), h)
        else (Inr \<lparr>tool_text = ''error: no deployable entry point found (expected index.html)'', success = False, duration_ms = ms\<rparr>, h))"

subsection \<open>The ranges\<close>

lemma same_network:
  fixes a b :: "'a::len word"
  shows "a AND NOT (mask k) = b AND NOT (mask k) \<longleftrightarrow> unat a div 2 ^ k = unat b div 2 ^ k"
proof -
  have cut: "drop_bit k (c AND NOT (mask k)) = drop_bit k c" for c :: "'a word"
    by (rule bit_word_eqI) (auto simp: bit_simps dest: bit_imp_le_length)
  have "a AND NOT (mask k) = b AND NOT (mask k) \<longleftrightarrow> drop_bit k a = drop_bit k b"
  proof
    assume "a AND NOT (mask k) = b AND NOT (mask k)"
    then show "drop_bit k a = drop_bit k b" by (metis cut)
  next
    assume eq: "drop_bit k a = drop_bit k b"
    show "a AND NOT (mask k) = b AND NOT (mask k)"
    proof (rule bit_word_eqI)
      fix n
      assume "n < LENGTH('a)"
      have "bit a n = bit b n" if "k \<le> n"
        using arg_cong [OF eq, of "\<lambda>x. bit x (n - k)"] that by (simp add: bit_drop_bit_eq)
      then show "bit (a AND NOT (mask k)) n = bit (b AND NOT (mask k)) n" by (auto simp: bit_simps)
    qed
  qed
  also have "\<dots> \<longleftrightarrow> unat (drop_bit k a) = unat (drop_bit k b)" by (simp add: word_unat_eq_iff)
  also have "\<dots> \<longleftrightarrow> unat a div 2 ^ k = unat b div 2 ^ k" by (simp only: unat_drop_bit_eq) (simp only: drop_bit_eq_div)
  finally show ?thesis .
qed

lemma zero_network:
  fixes a :: "'a::len word"
  shows "a AND NOT (mask k) = 0 \<longleftrightarrow> unat a div 2 ^ k = 0"
  using same_network [of a k 0] by simp

lemma blocked_iff: "blocked_range a = None \<longleftrightarrow> list_all (\<lambda>(net, text). \<not> ip_in a net) SSRF_BLOCKED_NETWORKS"
  by (auto simp: blocked_range_def find_None_iff list_all_iff)

lemma ranges4: "blocked_range (IPv4 a) \<noteq> None \<longleftrightarrow>
    unat a div 2 ^ 24 \<in> {0, 10, 127} \<or> unat a div 2 ^ 20 = 0xAC1 \<or> unat a div 2 ^ 16 \<in> {0xC0A8, 0xA9FE} \<or> unat a div 2 ^ 22 = 401"
  unfolding blocked_iff SSRF_BLOCKED_NETWORKS_def by (auto simp: same_network zero_network)

lemma ranges6: "blocked_range (IPv6 b) \<noteq> None \<longleftrightarrow>
    unat b = 1 \<or> unat b div 2 ^ 121 = 0x7E \<or> unat b div 2 ^ 118 = 0x3FA \<or> unat b div 2 ^ 32 = 0x0064FF9B0000000000000000"
  unfolding blocked_iff SSRF_BLOCKED_NETWORKS_def by (auto simp: same_network zero_network word_unat_eq_iff [of b 1])

text \<open>The guard blocks exactly the networks it lists: of the IPv4 addresses those whose leading 8, 12, 16 or 10 bits are
  the listed ones, of the IPv6 addresses the loopback, the unique local and link-local ones and the NAT64 prefix.\<close>

theorem blocked_ranges_exact:
  "(blocked_range (IPv4 a) \<noteq> None \<longleftrightarrow>
     unat a div 2 ^ 24 \<in> {0, 10, 127} \<or> unat a div 2 ^ 20 = 0xAC1 \<or> unat a div 2 ^ 16 \<in> {0xC0A8, 0xA9FE} \<or> unat a div 2 ^ 22 = 401)
   \<and> (blocked_range (IPv6 b) \<noteq> None \<longleftrightarrow>
     unat b = 1 \<or> unat b div 2 ^ 121 = 0x7E \<or> unat b div 2 ^ 118 = 0x3FA \<or> unat b div 2 ^ 32 = 0x0064FF9B0000000000000000)"
  using ranges4 ranges6 by blast

subsection \<open>Requests and the guard\<close>


lemma allowed_addresses:
  "check_addresses say host infos = None \<longleftrightarrow> list_all (\<lambda>(t, a). \<exists>addr. a = Some addr \<and> blocked_range addr = None) infos"
  by (induction say host infos rule: check_addresses.induct) (auto split: option.splits)

text \<open>What an allowed URL is: its host has addresses, and every one that the resolver gave is outside the networks.\<close>

lemma allowed_url:
  assumes "ssrf_blocked_url resolve say url w = Inr None"
  shows "\<exists>u h p infos. urlparse url = Inr u \<and> url_scheme u \<in> {''http'', ''https''} \<and> url_hostname u = Some h
    \<and> resolve h p w = Inr infos \<and> infos \<noteq> [] \<and> list_all (\<lambda>(t, a). \<exists>addr. a = Some addr \<and> blocked_range addr = None) infos"
  using assms by (auto simp: ssrf_blocked_url_def Let_def allowed_addresses split: sum.splits option.splits if_splits)

text \<open>The IPv6 address that stands for an IPv4 address (\<open>::ffff:a.b.c.d\<close>).\<close>

definition mapped :: "32 word \<Rightarrow> 128 word" where
  "mapped a = 0xFFFF00000000 + ucast a"

lemma unat_mapped: "unat (mapped a) = 0xFFFF00000000 + unat a"
proof -
  have "unat (ucast a :: 128 word) = unat a" using unsigned_less [of a, where ?'a = nat] by (simp add: unsigned_ucast_eq take_bit_nat_eq_self)
  moreover have "unat a < 2 ^ 32" using unsigned_less [of a, where ?'a = nat] by simp
  ultimately show ?thesis
    unfolding mapped_def by (simp add: unat_word_ariths)
qed

text \<open>Mapped addresses pass. No address \<open>::ffff:a.b.c.d\<close> is blocked, also for the IPv4 addresses that are (the loopback
  and the metadata service among them), nor is the unspecified address \<open>::\<close>, which reaches the loopback.\<close>

theorem mapped_addresses_pass:
  "blocked_range (IPv6 (mapped a)) = None \<and> blocked_range (IPv6 0) = None
   \<and> blocked_range (IPv4 0x7F000001) \<noteq> None \<and> blocked_range (IPv4 0xA9FEA9FE) \<noteq> None"
proof -
  have a: "unat a < 2 ^ 32" using unsigned_less [of a, where ?'a = nat] by simp
  have "unat (mapped a) div 2 ^ 32 = 0xFFFF" "unat (mapped a) div 2 ^ 121 = 0" "unat (mapped a) div 2 ^ 118 = 0" "unat (mapped a) \<noteq> 1"
    unfolding unat_mapped using a by simp_all
  moreover have "blocked_range (IPv6 (mapped a)) = None \<longleftrightarrow> \<not> (unat (mapped a) = 1 \<or> unat (mapped a) div 2 ^ 121 = 0x7E
      \<or> unat (mapped a) div 2 ^ 118 = 0x3FA \<or> unat (mapped a) div 2 ^ 32 = 0x0064FF9B0000000000000000)"
    using ranges6 [of "mapped a"] by blast
  ultimately have "blocked_range (IPv6 (mapped a)) = None" by simp
  moreover have "blocked_range (IPv6 0) = None" using ranges6 [of 0] by simp
  moreover have "blocked_range (IPv4 0x7F000001) \<noteq> None" "blocked_range (IPv4 0xA9FEA9FE) \<noteq> None"
    unfolding ranges4 by simp_all
  ultimately show ?thesis by blast
qed

text \<open>C35: Only the first request is guarded. When an allowed URL answers with a redirect, the page it points to is fetched and
  shown, whatever the guard would say of it.\<close>

theorem redirects_unguarded:
  assumes "ssrf_blocked_url (we_resolve E) (we_say E) url w = Inr None"
    and "we_request E url w = (Redirected loc, w1)" "we_request E loc w1 = (Answered r, w2)"
  shows "fetch_guarded E ms url n w = (Inr \<lparr>tool_text = show_response n r, success = (200 \<le> status_code r \<and> status_code r < 300),
    duration_ms = ms\<rparr>, w2)"
proof -
  have "http_get (Suc (Suc m)) E url w = (Inr r, w2)" for m using assms(2,3) by simp
  from this [of 18] have "http_get MAX_REDIRECTS E url w = (Inr r, w2)" by (simp add: MAX_REDIRECTS_def numeral_eq_Suc)
  with assms(1) show ?thesis by (simp add: fetch_guarded_def act_simps)
qed

text \<open>The name of the host decides what it resolves to; a public page redirects to the metadata service.\<close>

definition metadata_web :: "unit web_env" where
  "metadata_web = \<lparr>we_resolve = (\<lambda>h p w. Inr (if h = ''public.example'' then [(''93.184.216.34'', Some (IPv4 0x5DB8D822))]
       else [(''169.254.169.254'', Some (IPv4 0xA9FEA9FE))])),
     we_request = (\<lambda>url w. (if url = ''http://public.example/'' then Redirected ''http://169.254.169.254/latest''
       else Answered \<lparr>status_code = 200, content_type = ''text/plain'', http_body = ''credentials''\<rparr>, w)),
     we_say = (\<lambda>e. [])\<rparr>"

theorem redirects_unguarded_witness:
  "map_sum (\<lambda>e. e) tool_text (fst (fetch_guarded metadata_web 1 ''http://public.example/'' 5000 ())) = Inr ''HTTP 200\<newline>credentials''
   \<and> ssrf_blocked_url (we_resolve metadata_web) (we_say metadata_web) ''http://169.254.169.254/latest'' () \<noteq> Inr None"
proof -
  have a: "ssrf_blocked_url (we_resolve metadata_web) (we_say metadata_web) ''http://public.example/'' () = Inr None"
    "ssrf_blocked_url (we_resolve metadata_web) (we_say metadata_web) ''http://169.254.169.254/latest'' () \<noteq> Inr None"
    by code_simp+
  let ?r = "\<lparr>status_code = 200, content_type = ''text/plain'', http_body = ''credentials''\<rparr>"
  have b: "we_request metadata_web ''http://public.example/'' () = (Redirected ''http://169.254.169.254/latest'', ())"
    "we_request metadata_web ''http://169.254.169.254/latest'' () = (Answered ?r, ())"
    by code_simp+
  have s: "show_response 5000 ?r = ''HTTP 200\<newline>credentials''"
  proof -
    have "take FETCH_MAX_SIZE ''credentials'' = ''credentials''" by (simp add: FETCH_MAX_SIZE_def)
    moreover have "utf8_decode ''credentials'' = ''credentials''" "py_contains ''text'' ''text/plain''" "show_int 200 = ''200''" by code_simp+
    ultimately show ?thesis by (simp add: show_response_def Let_def)
  qed
  show ?thesis using redirects_unguarded [OF a(1) b] s a(2) by simp
qed

subsection \<open>Pages\<close>

lemma path_name_plain: "slash \<notin> set (path_name p)"
proof (cases "rev (path_comps p)")
  case (Cons c cs)
  then have "c \<in> set (path_comps p)" by (metis list.set_intros(1) set_rev)
  then have "slash \<notin> set c" by (auto simp: path_comps_def dest: split_on_no_sep)
  with Cons show ?thesis by (simp add: path_name_def)
qed (simp add: path_name_def)

text \<open>A page that is published is a regular file directly in the workspace, whatever entry point was asked for.\<close>

theorem deploy_stays_inside:
  "case deploy ms entry_point workdir h of (r, h') \<Rightarrow> h' = h \<and> (\<exists>res. r = Inr res \<and> (\<not> success res
    \<or> (\<exists>n. slash \<notin> set n \<and> is_regular (path_div workdir n) h
        \<and> tool_text res = ''https://downgrade.app/preview/'' @ path_name workdir @ ''/'' @ n)))"
proof -
  have "slash \<notin> set ''index.html''" by simp
  then show ?thesis using path_name_plain [of entry_point]
    by (auto simp: deploy_def Let_def tool_error_def)
qed

end
