(* ===== verification/Collector.thy ===== *)
theory Collector
  imports Py_Paths Py_Json Anima_Config "HOL-Library.AList"
begin

text \<open>
  The context collector (\<open>anima/context/collector.py\<close>): the watchers of files, the rows of \<open>context_events\<close> and
  \<open>work_sessions\<close> they write, and the loop that turns rows of the database into events. The state extends the host by
  the tables and the module's dictionaries; \<open>co_wall\<close> is the clock in seconds and git is a query. An insertion for a user
  who does not exist violates the foreign key and is dropped by the handlers. Other failures of the database, the
  extraction of text from documents and the threads of the watchdog library are not modelled.
\<close>

subsection \<open>Which files count\<close>

definition SEMANTIC_EXTENSIONS :: "string list" where
  "SEMANTIC_EXTENSIONS = [''.py'', ''.ts'', ''.tsx'', ''.js'', ''.jsx'', ''.go'', ''.rs'', ''.c'', ''.cpp'', ''.h'',
     ''.sql'', ''.md'', ''.txt'', ''.yaml'', ''.yml'', ''.toml'', ''.json'', ''.sh'', ''.html'', ''.css'', ''.env'']"

definition IGNORE_PREFIXES :: "string list" where
  "IGNORE_PREFIXES = [''.'', ''__pycache__'', ''node_modules'', ''.git'', ''dist'', ''build'', ''.next'', ''venv'']"

definition IGNORE_FILE_PREFIXES :: "string list" where "IGNORE_FILE_PREFIXES = [''RAWOS_'']"
definition DOCUMENT_EXTENSIONS_SET :: "string list" where "DOCUMENT_EXTENSIONS_SET = [''.pdf'', ''.docx'', ''.doc'']"

text \<open>\<open>Path(p).suffix\<close>\<close>

definition path_suffix :: "string \<Rightarrow> string" where
  "path_suffix p = (let name = path_name p; i = rfind_char (CHR ''.'') name in
     if 0 < i \<and> i < int (length name) - 1 then drop (nat i) name else [])"

definition starts_with_any :: "string list \<Rightarrow> string \<Rightarrow> bool" where
  "starts_with_any pfxs s = list_ex (startswith s) pfxs"

definition is_semantic :: "string \<Rightarrow> bool" where
  "is_semantic p = (if list_ex (starts_with_any IGNORE_PREFIXES) (path_parts p) then False
     else if starts_with_any IGNORE_FILE_PREFIXES (path_name p) then False
     else py_lower (path_suffix p) \<in> set SEMANTIC_EXTENSIONS)"

definition is_document :: "string \<Rightarrow> bool" where
  "is_document p = (if list_ex (starts_with_any IGNORE_PREFIXES) (path_parts p) then False
     else py_lower (path_suffix p) \<in> set DOCUMENT_EXTENSIONS_SET)"

text \<open>\<open>Path(p).relative_to(root).parts\<close>; \<open>None\<close> is the \<open>ValueError\<close>.\<close>

definition relative_parts :: "string \<Rightarrow> string \<Rightarrow> string list option" where
  "relative_parts root p = (let r = path_parts root; q = path_parts p in
     if take (length r) q = r then Some (drop (length r) q) else None)"

definition relative_str :: "string list \<Rightarrow> string" where
  "relative_str ps = (if ps = [] then ''.'' else py_join ''/'' ps)"

definition user_id_from_workdir :: "Settings \<Rightarrow> string \<Rightarrow> string option" where
  "user_id_from_workdir cfg p = (case relative_parts (workspaces_root cfg) p of
     Some (u # _) \<Rightarrow> Some u | _ \<Rightarrow> None)"

definition project_id_from_workdir :: "Settings \<Rightarrow> string \<Rightarrow> string option" where
  "project_id_from_workdir cfg p = (case relative_parts (workspaces_root cfg) p of
     Some (u # pr # _) \<Rightarrow> Some pr | _ \<Rightarrow> None)"

subsection \<open>The state\<close>

record context_event =
  ce_user :: string
  ce_type :: string
  ce_path :: "string option"
  ce_metadata :: string
  ce_diff_summary :: json
  ce_diff_hunk :: json
  ce_edit_count :: json
  ce_stuck :: json
  ce_source :: json
  ce_ts :: int

record work_session =
  ws_user :: string
  ws_started :: int
  ws_ended :: "int option"
  ws_files :: int
  ws_stuck :: int
  ws_rawos_actions :: int

record watched_path =
  wp_user :: string
  wp_path :: string
  wp_label :: string

record sent_intent =
  si_user :: string
  si_project :: string
  si_text :: string
  si_created :: int

record made_artifact =
  ma_user :: string
  ma_project :: string
  ma_name :: string
  ma_type :: string
  ma_created :: int

text \<open>The identifier of a work session is its position in the table. \<open>co_watches\<close> is \<open>_personal_watches\<close>, \<open>co_observer\<close>
  the directories a running observer was scheduled on.\<close>

record collector = host +
  co_users :: "string list"
  co_events :: "context_event list"
  co_sessions :: "work_session list"
  co_intents :: "sent_intent list"
  co_artifacts :: "made_artifact list"
  co_watched :: "watched_path list"
  co_edit_times :: "string \<Rightarrow> int list option"
  co_last_commit :: "string \<Rightarrow> string option"
  co_last_diff :: "string \<Rightarrow> int option"
  co_active :: "string \<Rightarrow> (nat \<times> int) option"
  co_watches :: "(string \<times> string) list"
  co_observer :: "watched_path list option"
  co_wall :: int

type_synonym metadata = "(string \<times> json) list"

subsection \<open>Events\<close>

definition meta_pop :: "string \<Rightarrow> json \<Rightarrow> metadata \<Rightarrow> json" where
  "meta_pop k d m = (case map_of m k of Some v \<Rightarrow> v | None \<Rightarrow> d)"

definition POPPED :: "string list" where
  "POPPED = [''diff_summary'', ''diff_hunk'', ''session_edit_count'', ''stuck_signal'', ''source_type'']"

definition json_dumps :: "json \<Rightarrow> string" where
  "json_dumps = dumps '', '' '': ''"

definition context_row :: "int \<Rightarrow> string \<Rightarrow> string \<Rightarrow> string option \<Rightarrow> metadata \<Rightarrow> context_event" where
  "context_row now user etype p m = \<lparr>ce_user = user, ce_type = etype, ce_path = p,
     ce_metadata = json_dumps (JObj (filter (\<lambda>kv. fst kv \<notin> set POPPED) m)),
     ce_diff_summary = meta_pop ''diff_summary'' JNull m, ce_diff_hunk = meta_pop ''diff_hunk'' JNull m,
     ce_edit_count = meta_pop ''session_edit_count'' (JInt 1) m, ce_stuck = meta_pop ''stuck_signal'' (JInt 0) m,
     ce_source = meta_pop ''source_type'' (JStr ''file'') m, ce_ts = now\<rparr>"

definition record_event ::
    "string \<Rightarrow> string \<Rightarrow> string option \<Rightarrow> metadata \<Rightarrow> ('m collector_scheme, unit) act" where
  "record_event user etype p m = act_modify (\<lambda>s. if user \<in> set (co_users s)
     then s\<lparr>co_events := co_events s @ [context_row (co_wall s) user etype p m]\<rparr> else s)"

subsection \<open>Git and sessions\<close>

definition SESSION_WINDOW_S :: int where "SESSION_WINDOW_S = 1800"
definition STUCK_THRESHOLD :: nat where "STUCK_THRESHOLD = 5"
definition DIFF_DEBOUNCE_S :: int where "DIFF_DEBOUNCE_S = 5"
definition SESSION_IDLE_CLOSE_S :: int where "SESSION_IDLE_CLOSE_S = 900"

definition is_dir :: "string \<Rightarrow> 'm host_scheme \<Rightarrow> bool" where
  "is_dir p h \<longleftrightarrow> fs_key p = ''/'' \<or> files h (fs_key p) = Some Directory"

fun repo_walk :: "nat \<Rightarrow> string \<Rightarrow> 'm host_scheme \<Rightarrow> string option" where
  "repo_walk 0 p h = None"
| "repo_walk (Suc n) p h = (if is_dir (path_div p ''.git'') h then Some p
     else let parent = path_parent p in if parent = p then None else repo_walk n parent h)"

definition detect_repo_root :: "string \<Rightarrow> 'm host_scheme \<Rightarrow> string option" where
  "detect_repo_root file_path h = (let r = fs_key file_path in
     repo_walk 12 (if is_dir r h then r else path_parent r) h)"

definition cut_stdout :: "nat \<Rightarrow> proc \<Rightarrow> string" where
  "cut_stdout n p = (if returncode p = 0 then take n (py_strip (stdout p)) else [])"

text \<open>The dictionary as it stands when the first command that raises is reached.\<close>

definition diff_context :: "(string list \<Rightarrow> exn + proc) \<Rightarrow> string \<Rightarrow> metadata" where
  "diff_context git rel = (case git [''diff'', ''--stat'', ''HEAD'', ''--'', rel] of Inl e \<Rightarrow> []
   | Inr r1 \<Rightarrow> (let summary = cut_stdout 200 r1 in
     case git [''diff'', ''--unified=3'', ''HEAD'', ''--'', rel] of Inl e \<Rightarrow> [(''diff_summary'', JStr summary)]
   | Inr r2 \<Rightarrow> (let hunk = cut_stdout 600 r2 in
     if summary \<noteq> [] then [(''diff_summary'', JStr summary), (''diff_hunk'', JStr hunk)]
     else (case git [''diff'', ''--stat'', ''HEAD~1'', ''HEAD'', ''--'', rel] of
         Inl e \<Rightarrow> [(''diff_summary'', JStr summary), (''diff_hunk'', JStr hunk)]
       | Inr r3 \<Rightarrow> [(''diff_summary'', JStr (cut_stdout 200 r3)), (''diff_hunk'', JStr hunk)]))))"

definition get_git_context ::
    "('m collector_scheme) query \<Rightarrow> string \<Rightarrow> string \<Rightarrow> ('m collector_scheme, metadata) act" where
  "get_git_context git repo_root file_path = (\<lambda>s. let now = co_wall s in
     if now - (case co_last_diff s file_path of None \<Rightarrow> 0 | Some t \<Rightarrow> t) < DIFF_DEBOUNCE_S then (Inr [], s)
     else let s1 = s\<lparr>co_last_diff := (co_last_diff s)(file_path \<mapsto> now)\<rparr> in
       (Inr (case relative_parts repo_root file_path of None \<Rightarrow> []
          | Some ps \<Rightarrow> diff_context (\<lambda>args. git ([''git'', ''-C'', repo_root] @ args) s1) (relative_str ps)), s1))"

definition update_session_edits :: "string \<Rightarrow> ('m collector_scheme, nat \<times> bool) act" where
  "update_session_edits file_path = (\<lambda>s. let now = co_wall s; cutoff = now - SESSION_WINDOW_S;
     times = filter (\<lambda>t. t > cutoff) (case co_edit_times s file_path of None \<Rightarrow> [] | Some ts \<Rightarrow> ts) @ [now];
     count = length times in
     (Inr (count, STUCK_THRESHOLD \<le> count), s\<lparr>co_edit_times := (co_edit_times s)(file_path \<mapsto> times)\<rparr>))"

definition commit_metadata :: "string \<Rightarrow> proc \<Rightarrow> proc \<Rightarrow> metadata" where
  "commit_metadata current r2 r3 = [(''commit_hash'', JStr (take 12 current)),
     (''recent_commits'', JStr (cut_stdout 300 r2)), (''files_changed'', JStr (cut_stdout 400 r3)),
     (''label'', JStr ''git_commit'')]"

definition check_emit_commit ::
    "('m collector_scheme) query \<Rightarrow> string \<Rightarrow> string \<Rightarrow> ('m collector_scheme, unit) act" where
  "check_emit_commit git repo_root user = (\<lambda>s. let run = (\<lambda>args. git ([''git'', ''-C'', repo_root] @ args)) in
     case run [''rev-parse'', ''HEAD''] s of
       Inl e \<Rightarrow> (Inr (), s)
     | Inr r \<Rightarrow> if returncode r \<noteq> 0 then (Inr (), s)
       else let current = py_strip (stdout r); last_seen = co_last_commit s repo_root;
                s1 = s\<lparr>co_last_commit := (co_last_commit s)(repo_root \<mapsto> current)\<rparr> in
         if last_seen \<in> {None, Some []} \<or> last_seen = Some current then (Inr (), s1)
         else case run [''log'', ''--oneline'', ''-3''] s1 of
             Inl e \<Rightarrow> (Inr (), s1)
           | Inr r2 \<Rightarrow> (case run [''diff'', ''--stat'', ''HEAD~1'', ''HEAD''] s1 of
               Inl e \<Rightarrow> (Inr (), s1)
             | Inr r3 \<Rightarrow> record_event user ''git_commit'' (Some repo_root) (commit_metadata current r2 r3) s1))"

text \<open>\<open>UPDATE work_sessions \<dots> WHERE id = ?\<close>\<close>

definition update_session :: "nat \<Rightarrow> (work_session \<Rightarrow> work_session) \<Rightarrow> work_session list \<Rightarrow> work_session list" where
  "update_session i f ss = (if i < length ss then ss[i := f (ss ! i)] else ss)"

definition close_idle :: "string \<Rightarrow> 'm collector_scheme \<Rightarrow> nat option \<times> 'm collector_scheme" where
  "close_idle user s = (case co_active s user of None \<Rightarrow> (None, s)
     | Some (sid, last_ts) \<Rightarrow>
         if co_wall s - last_ts > SESSION_IDLE_CLOSE_S
         then (None, s\<lparr>co_sessions := update_session sid
             (\<lambda>w. if ws_ended w = None then w\<lparr>ws_ended := Some last_ts\<rparr> else w) (co_sessions s)\<rparr>)
         else (Some sid, s))"

definition touch_work_session :: "string \<Rightarrow> int \<Rightarrow> ('m collector_scheme, nat option) act" where
  "touch_work_session user stuck_signal = (\<lambda>s. let now = co_wall s in case close_idle user s of
       (Some sid, s1) \<Rightarrow> (Inr (Some sid), s1\<lparr>co_sessions := update_session sid
           (\<lambda>w. w\<lparr>ws_files := ws_files w + 1, ws_stuck := ws_stuck w + stuck_signal\<rparr>) (co_sessions s1),
         co_active := (co_active s1)(user \<mapsto> (sid, now))\<rparr>)
     | (None, s1) \<Rightarrow> if user \<notin> set (co_users s1) then (Inr None, s1)
         else let sid = length (co_sessions s1) in
           (Inr (Some sid), s1\<lparr>co_sessions := co_sessions s1 @ [\<lparr>ws_user = user, ws_started = now, ws_ended = None,
               ws_files = 1, ws_stuck = stuck_signal, ws_rawos_actions = 0\<rparr>],
             co_active := (co_active s1)(user \<mapsto> (sid, now))\<rparr>))"

text \<open>The statement names a column \<open>anima_actions\<close>, which no migration creates (009 calls it \<open>rawos_actions\<close>): SQLite
  refuses it and the exception is logged.\<close>

definition increment_statement :: "nat \<Rightarrow> ('m collector_scheme, unit) act" where
  "increment_statement sid = act_raise (ExternalError ''sqlite3.OperationalError'')"

definition increment_anima_action :: "string \<Rightarrow> ('m collector_scheme, unit) act" where
  "increment_anima_action user = (\<lambda>s. case co_active s user of None \<Rightarrow> (Inr (), s)
     | Some (sid, _) \<Rightarrow> act_catch (increment_statement sid) (\<lambda>e. act_return ()) s)"

subsection \<open>The handlers\<close>

datatype watch_event = Created | Modified | Deleted

definition event_type_of :: "watch_event \<Rightarrow> string" where
  "event_type_of e = (if e = Deleted then ''file_delete'' else ''file_write'')"

definition opt_json :: "string option \<Rightarrow> json" where
  "opt_json x = (case x of None \<Rightarrow> JNull | Some t \<Rightarrow> JStr t)"

text \<open>\<open>_WorkspaceHandler\<close> calls a method \<open>_handle_document\<close> that only the other handler has.\<close>

definition workspace_handle :: "Settings \<Rightarrow> bool \<Rightarrow> string \<Rightarrow> watch_event \<Rightarrow> ('m collector_scheme, unit) act" where
  "workspace_handle cfg is_directory p e =
     (if is_directory then act_return ()
      else if event_type_of e = ''file_write'' \<and> is_document p then act_raise (ExternalError ''AttributeError'')
      else if \<not> is_semantic p then act_return ()
      else case user_id_from_workdir cfg p of None \<Rightarrow> act_return ()
        | Some user \<Rightarrow> record_event user (event_type_of e) (Some p)
            [(''project_id'', opt_json (project_id_from_workdir cfg p)), (''extension'', JStr (py_lower (path_suffix p))),
             (''filename'', JStr (path_name p))])"

definition personal_metadata :: "watched_path \<Rightarrow> string \<Rightarrow> metadata" where
  "personal_metadata W p = [(''extension'', JStr (py_lower (path_suffix p))), (''filename'', JStr (path_name p)),
     (''rel_path'', JStr (case relative_parts (wp_path W) p of None \<Rightarrow> p | Some ps \<Rightarrow> relative_str ps)),
     (''label'', JStr (wp_label W))]"

definition personal_handle ::
    "('m collector_scheme) query \<Rightarrow> watched_path \<Rightarrow> bool \<Rightarrow> string \<Rightarrow> watch_event \<Rightarrow> ('m collector_scheme, unit) act" where
  "personal_handle git W is_directory p e =
     (if is_directory \<or> \<not> is_semantic p then act_return ()
      else if event_type_of e = ''file_write'' then
        act_bind (update_session_edits p) (\<lambda>(edit_count, is_stuck).
        act_bind (\<lambda>s. case detect_repo_root p s of None \<Rightarrow> (Inr [], s)
            | Some repo \<Rightarrow> act_bind (get_git_context git repo p) (\<lambda>ctx.
                act_then (check_emit_commit git repo (wp_user W)) (act_return ctx)) s) (\<lambda>git_ctx.
        act_then (touch_work_session (wp_user W) (if is_stuck then 1 else 0))
          (record_event (wp_user W) ''file_write'' (Some p) (personal_metadata W p
             @ [(''session_edit_count'', JInt (int edit_count)), (''stuck_signal'', JInt (if is_stuck then 1 else 0))]
             @ git_ctx))))
      else record_event (wp_user W) ''file_delete'' (Some p) (personal_metadata W p))"

subsection \<open>Which directories are watched\<close>

definition dict_of :: "(string \<times> 'v) list \<Rightarrow> (string \<times> 'v) list" where
  "dict_of kvs = fold (\<lambda>(k, v) d. AList.update k v d) kvs []"

text \<open>The rows are the active rows of \<open>watched_paths\<close>.\<close>

definition reload_personal_watcher :: "('m collector_scheme, unit) act" where
  "reload_personal_watcher = act_modify (\<lambda>s.
     let current = dict_of (map (\<lambda>w. (wp_path w, (wp_user w, wp_label w))) (co_watched s));
         current_simple = map (\<lambda>(p, (u, l)). (p, u)) current in
     if set current_simple = set (co_watches s) then s
     else let s1 = s\<lparr>co_observer := None\<rparr> in
       if current = [] then s1\<lparr>co_watches := []\<rparr>
       else let started = filter (\<lambda>(p, (u, l)). is_dir p s1) current in
         if started \<noteq> [] then s1\<lparr>co_observer := Some (map (\<lambda>(p, (u, l)). \<lparr>wp_user = u, wp_path = p, wp_label = l\<rparr>) started),
           co_watches := current_simple\<rparr>
         else s1)"

subsection \<open>Events from the API and from the database\<close>

definition record_intent_event :: "string \<Rightarrow> string \<Rightarrow> string \<Rightarrow> ('m collector_scheme, unit) act" where
  "record_intent_event user project message = record_event user ''intent_sent'' None
     [(''project_id'', JStr project), (''message_length'', JInt (int (length message))),
      (''message_preview'', JStr (take 120 message))]"

definition record_artifact_event :: "string \<Rightarrow> string \<Rightarrow> string \<Rightarrow> string \<Rightarrow> ('m collector_scheme, unit) act" where
  "record_artifact_event user project name kind = record_event user ''artifact_created'' (Some name)
     [(''project_id'', JStr project), (''artifact_type'', JStr kind), (''extension'', JStr (py_lower (path_suffix name)))]"

definition has_event_since :: "string \<Rightarrow> string \<Rightarrow> int \<Rightarrow> context_event list \<Rightarrow> bool" where
  "has_event_since user etype cutoff es = list_ex (\<lambda>e. ce_user e = user \<and> ce_type e = etype \<and> ce_ts e \<ge> cutoff) es"

text \<open>\<open>ORDER BY \<dots> DESC LIMIT n\<close>; rows of the same second stay in the order of their insertion.\<close>

definition newest :: "nat \<Rightarrow> ('r \<Rightarrow> int) \<Rightarrow> 'r list \<Rightarrow> 'r list" where
  "newest n key rows = take n (sort_key (\<lambda>r. - key r) rows)"

fun act_each :: "('x \<Rightarrow> ('s, unit) act) \<Rightarrow> 'x list \<Rightarrow> ('s, unit) act" where
  "act_each f [] = act_return ()"
| "act_each f (x # xs) = act_then (f x) (act_each f xs)"

definition pending_intents :: "'m collector_scheme \<Rightarrow> sent_intent list" where
  "pending_intents s = (let cutoff = co_wall s - 300 in newest 50 si_created
     (filter (\<lambda>i. si_created i > cutoff \<and> \<not> has_event_since (si_user i) ''intent_sent'' cutoff (co_events s)) (co_intents s)))"

definition pending_artifacts :: "'m collector_scheme \<Rightarrow> made_artifact list" where
  "pending_artifacts s = (let cutoff = co_wall s - 300 in newest 50 ma_created
     (filter (\<lambda>a. ma_created a > cutoff \<and> \<not> has_event_since (ma_user a) ''artifact_created'' cutoff (co_events s)) (co_artifacts s)))"

definition sync_intent :: "sent_intent \<Rightarrow> ('m collector_scheme, unit) act" where
  "sync_intent i = record_event (si_user i) ''intent_sent'' None
     [(''project_id'', JStr (si_project i)), (''message_preview'', JStr (take 120 (si_text i))), (''source'', JStr ''db_sync'')]"

definition sync_artifact :: "made_artifact \<Rightarrow> ('m collector_scheme, unit) act" where
  "sync_artifact a = record_event (ma_user a) ''artifact_created'' (Some (ma_name a))
     [(''project_id'', JStr (ma_project a)), (''artifact_type'', JStr (ma_type a)),
      (''extension'', JStr (py_lower (path_suffix (ma_name a)))), (''source'', JStr ''db_sync'')]"

definition sync_db_activity :: "('m collector_scheme, unit) act" where
  "sync_db_activity = act_then (\<lambda>s. act_each sync_intent (pending_intents s) s)
     (\<lambda>s. act_each sync_artifact (pending_artifacts s) s)"

subsection \<open>What the operations leave alone\<close>

lemma record_event_simps [simp]:
  "co_edit_times (snd (record_event u k p m s)) = co_edit_times s" "co_users (snd (record_event u k p m s)) = co_users s"
  "co_wall (snd (record_event u k p m s)) = co_wall s" "co_sessions (snd (record_event u k p m s)) = co_sessions s"
  "co_active (snd (record_event u k p m s)) = co_active s" "fst (record_event u k p m s) = Inr ()"
  by (simp_all add: record_event_def)

lemma check_emit_commit_simps [simp]:
  "co_edit_times (snd (check_emit_commit g r u s)) = co_edit_times s" "co_users (snd (check_emit_commit g r u s)) = co_users s"
  "co_wall (snd (check_emit_commit g r u s)) = co_wall s" "co_sessions (snd (check_emit_commit g r u s)) = co_sessions s"
  "co_active (snd (check_emit_commit g r u s)) = co_active s" "fst (check_emit_commit g r u s) = Inr ()"
  by (auto simp: check_emit_commit_def Let_def split: sum.splits)

lemma get_git_context_simps [simp]:
  "co_edit_times (snd (get_git_context g r p s)) = co_edit_times s" "co_users (snd (get_git_context g r p s)) = co_users s"
  "co_wall (snd (get_git_context g r p s)) = co_wall s" "co_sessions (snd (get_git_context g r p s)) = co_sessions s"
  "co_active (snd (get_git_context g r p s)) = co_active s" "co_events (snd (get_git_context g r p s)) = co_events s"
  by (auto simp: get_git_context_def Let_def)

lemma touch_simps [simp]:
  "co_edit_times (snd (touch_work_session u k s)) = co_edit_times s" "co_users (snd (touch_work_session u k s)) = co_users s"
  "co_wall (snd (touch_work_session u k s)) = co_wall s" "co_events (snd (touch_work_session u k s)) = co_events s"
  by (auto simp: touch_work_session_def close_idle_def Let_def split: option.splits prod.splits if_splits)

text \<open>The keys of the diff are not the ones of the count.\<close>

lemma diff_context_keys: "fst ` set (diff_context run rel) \<subseteq> {''diff_summary'', ''diff_hunk''}"
  by (cases "run [''diff'', ''--stat'', ''HEAD'', ''--'', rel]"; cases "run [''diff'', ''--unified=3'', ''HEAD'', ''--'', rel]";
      cases "run [''diff'', ''--stat'', ''HEAD~1'', ''HEAD'', ''--'', rel]") (simp_all add: diff_context_def Let_def)

lemma git_context_returns: "\<exists>ctx. fst (get_git_context g r p s) = Inr ctx \<and> fst ` set ctx \<subseteq> {''diff_summary'', ''diff_hunk''}"
  using diff_context_keys by (fastforce simp: get_git_context_def Let_def split: option.splits)

subsection \<open>The handler of a file that is written\<close>

definition git_stage ::
    "('m collector_scheme) query \<Rightarrow> watched_path \<Rightarrow> string \<Rightarrow> ('m collector_scheme, metadata) act" where
  "git_stage git W p = (\<lambda>s. case detect_repo_root p s of None \<Rightarrow> (Inr [], s)
     | Some repo \<Rightarrow> act_bind (get_git_context git repo p) (\<lambda>ctx.
         act_then (check_emit_commit git repo (wp_user W)) (act_return ctx)) s)"

lemma git_stage_returns:
  obtains ctx s' where "git_stage git W p s = (Inr ctx, s')" "fst ` set ctx \<subseteq> {''diff_summary'', ''diff_hunk''}"
    "co_edit_times s' = co_edit_times s" "co_users s' = co_users s" "co_wall s' = co_wall s"
    "co_sessions s' = co_sessions s" "co_active s' = co_active s"
proof (cases "detect_repo_root p s")
  case None
  then show ?thesis by (intro that [of "[]" s]) (simp_all add: git_stage_def)
next
  case (Some repo)
  obtain ctx where c: "fst (get_git_context git repo p s) = Inr ctx" "fst ` set ctx \<subseteq> {''diff_summary'', ''diff_hunk''}"
    using git_context_returns by blast
  let ?s1 = "snd (get_git_context git repo p s)"
  have e: "check_emit_commit git repo (wp_user W) ?s1 = (Inr (), snd (check_emit_commit git repo (wp_user W) ?s1))"
    by (rule prod_eqI) simp_all
  have g: "get_git_context git repo p s = (Inr ctx, ?s1)" by (rule prod_eqI) (simp_all add: c)
  have "git_stage git W p s = (Inr ctx, snd (check_emit_commit git repo (wp_user W) ?s1))"
    unfolding git_stage_def Some option.case
    by (subst act_bind_Inr [where m = "get_git_context git repo p", OF g],
        subst act_then_Inr [where m = "check_emit_commit git repo (wp_user W)", OF e]) simp
  then show ?thesis by (rule that [OF _ c(2)]) simp_all
qed

lemma personal_write:
  assumes "is_semantic p" "e \<noteq> Deleted"
  obtains n ctx s3 where "personal_handle git W False p e s = record_event (wp_user W) ''file_write'' (Some p)
      (personal_metadata W p @ [(''session_edit_count'', JInt (int n)), (''stuck_signal'', JInt (if STUCK_THRESHOLD \<le> n then 1 else 0))] @ ctx) s3"
    "fst ` set ctx \<subseteq> {''diff_summary'', ''diff_hunk''}"
    "n = length (the (co_edit_times (snd (update_session_edits p s)) p))"
    "co_edit_times s3 = co_edit_times (snd (update_session_edits p s))" "co_users s3 = co_users s" "co_wall s3 = co_wall s"
proof -
  let ?n = "length (the (co_edit_times (snd (update_session_edits p s)) p))"
  let ?s1 = "snd (update_session_edits p s)"
  have u: "update_session_edits p s = (Inr (?n, STUCK_THRESHOLD \<le> ?n), ?s1)"
    by (simp add: update_session_edits_def Let_def)
  obtain ctx s2 where g: "git_stage git W p ?s1 = (Inr ctx, s2)" "fst ` set ctx \<subseteq> {''diff_summary'', ''diff_hunk''}"
    "co_edit_times s2 = co_edit_times ?s1" "co_users s2 = co_users ?s1" "co_wall s2 = co_wall ?s1"
    by (rule git_stage_returns [of git W p ?s1])
  let ?t = "touch_work_session (wp_user W) (if STUCK_THRESHOLD \<le> ?n then 1 else 0) s2"
  obtain r where t: "?t = (Inr r, snd ?t)"
    by (cases "fst ?t") (auto simp: touch_work_session_def Let_def split: prod.splits option.splits if_splits)
  have h: "personal_handle git W False p e s = record_event (wp_user W) ''file_write'' (Some p)
      (personal_metadata W p @ [(''session_edit_count'', JInt (int ?n)), (''stuck_signal'', JInt (if STUCK_THRESHOLD \<le> ?n then 1 else 0))] @ ctx) (snd ?t)"
    unfolding personal_handle_def git_stage_def [symmetric]
    using assms by (simp add: event_type_of_def act_bind_Inr [where m = "update_session_edits p", OF u]
        act_bind_Inr [where m = "git_stage git W p", OF g(1)] act_then_Inr [where m = "touch_work_session _ _", OF t])
  have "co_users ?s1 = co_users s" "co_wall ?s1 = co_wall s" by (simp_all add: update_session_edits_def Let_def)
  then show ?thesis by (intro that [OF h g(2) refl]) (simp_all add: g)
qed

subsection \<open>Counting edits\<close>

text \<open>A file that is reported: the second, the state of git, the watched directory, the path and what happened.\<close>

type_synonym 'm report = "int \<times> ('m collector_scheme) query \<times> watched_path \<times> string \<times> watch_event"

definition watch_step :: "'m report \<Rightarrow> 'm collector_scheme \<Rightarrow> 'm collector_scheme" where
  "watch_step x s = (case x of (t, git, W, p, e) \<Rightarrow> snd (personal_handle git W False p e (s\<lparr>co_wall := t\<rparr>)))"

definition report_time :: "'m report \<Rightarrow> int" where "report_time x = fst x"

definition edits_file :: "string \<Rightarrow> 'm report \<Rightarrow> bool" where
  "edits_file p x \<longleftrightarrow> (case x of (t, git, W, q, e) \<Rightarrow> q = p \<and> e \<noteq> Deleted)"

definition edit_times :: "string \<Rightarrow> 'm collector_scheme \<Rightarrow> int list" where
  "edit_times p s = (case co_edit_times s p of None \<Rightarrow> [] | Some ts \<Rightarrow> ts)"

lemma watch_step_edit:
  assumes "is_semantic p" "edits_file p x"
  shows "edit_times p (watch_step x s) = filter (\<lambda>t. t > report_time x - SESSION_WINDOW_S) (edit_times p s) @ [report_time x]"
proof -
  obtain t git W e where x: "x = (t, git, W, p, e)" "e \<noteq> Deleted" using assms(2) by (auto simp: edits_file_def split: prod.splits)
  let ?s = "s\<lparr>co_wall := t\<rparr>"
  have "co_edit_times (snd (personal_handle git W False p e ?s)) = co_edit_times (snd (update_session_edits p ?s))"
    by (rule personal_write [OF assms(1) x(2), of git W ?s]) simp
  then show ?thesis
    by (simp add: x watch_step_def edit_times_def report_time_def update_session_edits_def Let_def)
qed

lemma watch_step_other:
  assumes "\<not> edits_file p x"
  shows "edit_times p (watch_step x s) = edit_times p s"
proof -
  obtain t git W q e where x: "x = (t, git, W, q, e)" by (cases x) auto
  let ?s = "s\<lparr>co_wall := t\<rparr>"
  show ?thesis
  proof (cases "is_semantic q \<and> e \<noteq> Deleted")
    case True
    then have "q \<noteq> p" using assms by (auto simp: x edits_file_def)
    have "co_edit_times (snd (personal_handle git W False q e ?s)) = co_edit_times (snd (update_session_edits q ?s))"
      by (rule personal_write [of q e git W ?s]) (use True in simp_all)
    then show ?thesis using \<open>q \<noteq> p\<close>
      by (simp add: x watch_step_def edit_times_def update_session_edits_def Let_def)
  next
    case False
    then show ?thesis by (auto simp: x watch_step_def personal_handle_def event_type_of_def edit_times_def)
  qed
qed

lemma watch_step_users [simp]: "co_users (watch_step x s) = co_users s"
proof -
  obtain t git W q e where x: "x = (t, git, W, q, e)" by (cases x) auto
  let ?s = "s\<lparr>co_wall := t\<rparr>"
  show ?thesis
  proof (cases "is_semantic q \<and> e \<noteq> Deleted")
    case True
    have "co_users (snd (personal_handle git W False q e ?s)) = co_users ?s"
      by (rule personal_write [of q e git W ?s]) (use True in simp_all)
    then show ?thesis by (simp add: x watch_step_def)
  next
    case False
    then show ?thesis by (auto simp: x watch_step_def personal_handle_def event_type_of_def)
  qed
qed

lemma watch_run_users [simp]: "co_users (fold watch_step xs s) = co_users s"
  by (induction xs arbitrary: s) simp_all

lemma filter_later: "a \<le> b \<Longrightarrow> filter (\<lambda>t. t > b) (filter (\<lambda>t. t > a) ts) = filter (\<lambda>t. t > (b::int)) ts"
  by (induction ts) auto

lemma edit_times_run:
  assumes "is_semantic p" "edit_times p s = []" "sorted (map report_time xs)" "\<forall>x \<in> set xs. report_time x \<le> T"
  shows "filter (\<lambda>t. t > T - SESSION_WINDOW_S) (edit_times p (fold watch_step xs s))
       = filter (\<lambda>t. t > T - SESSION_WINDOW_S) (map report_time (filter (edits_file p) xs))"
  using assms(3,4)
proof (induction xs arbitrary: T rule: rev_induct)
  case Nil
  then show ?case by (simp add: assms(2))
next
  case (snoc x xs)
  let ?s = "fold watch_step xs s" and ?c = "\<lambda>T t. t > T - SESSION_WINDOW_S"
  have xs: "sorted (map report_time xs)" "\<forall>y \<in> set xs. report_time y \<le> report_time x" "report_time x \<le> T"
    using snoc.prems by (auto simp: sorted_append)
  have IH: "filter (?c T) (edit_times p ?s) = filter (?c T) (map report_time (filter (edits_file p) xs))"
    using snoc.IH [OF xs(1), of T] snoc.prems(2) by simp
  show ?case
  proof (cases "edits_file p x")
    case True
    have "edit_times p (watch_step x ?s) = filter (?c (report_time x)) (edit_times p ?s) @ [report_time x]"
      by (rule watch_step_edit [OF assms(1) True])
    then have "filter (?c T) (edit_times p (watch_step x ?s)) = filter (?c T) (edit_times p ?s) @ filter (?c T) [report_time x]"
      using filter_later [of "report_time x - SESSION_WINDOW_S" "T - SESSION_WINDOW_S" "edit_times p ?s"] xs(3) by simp
    then show ?thesis using True by (simp add: IH)
  next
    case False
    then show ?thesis by (simp add: IH watch_step_other)
  qed
qed

lemma record_event_last:
  "u \<in> set (co_users s) \<Longrightarrow> last (co_events (snd (record_event u k p m s))) = context_row (co_wall s) u k p m"
  by (simp add: record_event_def)

text \<open>after any history of reported files, the event of a further edit of a file carries the number of its edits in
  the last half hour, this one included and deletions left out, and the signal of being stuck from five on.\<close>

theorem edits_counted:
  assumes "is_semantic p" "e \<noteq> Deleted" "co_edit_times s p = None" "sorted (map report_time xs)"
    and "\<forall>x \<in> set xs. report_time x \<le> now" and "wp_user W \<in> set (co_users s)"
  shows "let n = Suc (length (filter (\<lambda>x. edits_file p x \<and> report_time x > now - 1800) xs));
             r = last (co_events (watch_step (now, git, W, p, e) (fold watch_step xs s)))
         in ce_user r = wp_user W \<and> ce_type r = ''file_write'' \<and> ce_path r = Some p \<and> ce_ts r = now
            \<and> ce_edit_count r = JInt (int n) \<and> ce_stuck r = JInt (if n \<ge> 5 then 1 else 0)"
proof -
  let ?s = "(fold watch_step xs s)\<lparr>co_wall := now\<rparr>"
  let ?n = "Suc (length (filter (\<lambda>x. edits_file p x \<and> report_time x > now - 1800) xs))"
  have old: "edit_times p s = []" using assms(3) by (simp add: edit_times_def)
  have times: "filter (\<lambda>t. t > now - 1800) (edit_times p ?s) = filter (\<lambda>t. t > now - 1800) (map report_time (filter (edits_file p) xs))"
    using edit_times_run [OF assms(1) old assms(4,5)] by (simp add: edit_times_def SESSION_WINDOW_S_def)
  obtain n ctx s3 where h: "personal_handle git W False p e ?s = record_event (wp_user W) ''file_write'' (Some p)
      (personal_metadata W p @ [(''session_edit_count'', JInt (int n)), (''stuck_signal'', JInt (if STUCK_THRESHOLD \<le> n then 1 else 0))] @ ctx) s3"
    "fst ` set ctx \<subseteq> {''diff_summary'', ''diff_hunk''}"
    "n = length (the (co_edit_times (snd (update_session_edits p ?s)) p))" "co_users s3 = co_users ?s" "co_wall s3 = co_wall ?s"
    by (rule personal_write [OF assms(1,2), of git W ?s])
  have "the (co_edit_times (snd (update_session_edits p ?s)) p) = filter (\<lambda>t. t > now - 1800) (edit_times p ?s) @ [now]"
    by (simp add: update_session_edits_def Let_def edit_times_def SESSION_WINDOW_S_def)
  then have n: "n = ?n" unfolding h(3) times by (simp add: filter_map conj_commute comp_def)
  have "watch_step (now, git, W, p, e) (fold watch_step xs s) = snd (record_event (wp_user W) ''file_write'' (Some p)
      (personal_metadata W p @ [(''session_edit_count'', JInt (int n)), (''stuck_signal'', JInt (if STUCK_THRESHOLD \<le> n then 1 else 0))] @ ctx) s3)"
    unfolding watch_step_def prod.case h(1) ..
  then have "last (co_events (watch_step (now, git, W, p, e) (fold watch_step xs s))) = context_row now (wp_user W) ''file_write'' (Some p)
      (personal_metadata W p @ [(''session_edit_count'', JInt (int n)), (''stuck_signal'', JInt (if STUCK_THRESHOLD \<le> n then 1 else 0))] @ ctx)"
    using record_event_last [of "wp_user W" s3] assms(6) h(4,5) by simp
  then show ?thesis
    by (simp add: n context_row_def meta_pop_def personal_metadata_def STUCK_THRESHOLD_def Let_def)
qed

subsection \<open>All operations\<close>

inductive collects :: "'m collector_scheme \<Rightarrow> 'm collector_scheme \<Rightarrow> bool" where
  "collects s (snd (workspace_handle cfg d p e s))"
| "collects s (snd (personal_handle git W d p e s))"
| "collects s (snd (reload_personal_watcher s))"
| "collects s (snd (record_intent_event u pr m s))"
| "collects s (snd (record_artifact_event u pr n k s))"
| "collects s (snd (sync_db_activity s))"
| "collects s (snd (increment_anima_action u s))"
| "collects s (snd (touch_work_session u k s))"
| "collects s (s\<lparr>co_wall := t, co_intents := is, co_artifacts := arts, co_watched := ws, files := fs\<rparr>)"

lemma kept_each: "(\<And>x. x \<in> set xs \<Longrightarrow> kept P (f x)) \<Longrightarrow> kept P (act_each f xs)"
  by (induction xs) auto

lemma kept_state: "(\<And>s. kept P (f s)) \<Longrightarrow> kept P (\<lambda>s. f s s)"
  by (simp add: kept_def)

lemma kept_git_stage:
  assumes "\<And>s s'. P s \<Longrightarrow> co_events s' = co_events s \<Longrightarrow> co_users s' = co_users s \<Longrightarrow> co_sessions s' = co_sessions s
      \<Longrightarrow> co_active s' = co_active s \<Longrightarrow> P s'"
    and "\<And>u r c r2 r3. kept P (record_event u ''git_commit'' (Some r) (commit_metadata c r2 r3))"
  shows "kept P (git_stage git W p)"
proof -
  have g: "kept P (get_git_context git repo p)" for repo
    by (rule keptI) (metis assms(1) get_git_context_simps snd_conv)
  have c: "kept P (check_emit_commit git repo u)" for repo u
  proof (rule keptI)
    fix s r s' assume P: "P s" and run: "check_emit_commit git repo u s = (r, s')"
    let ?s1 = "\<lambda>c. s\<lparr>co_last_commit := (co_last_commit s)(repo \<mapsto> c)\<rparr>"
    have "P (?s1 c)" for c by (rule assms(1) [OF P]) simp_all
    note known = this
    have "P (snd (record_event u ''git_commit'' (Some repo) (commit_metadata c r2 r3) (?s1 d)))" for c r2 r3 d
      using assms(2) known unfolding kept_def by blast
    then have "P (snd (check_emit_commit git repo u s))" using P known
      unfolding check_emit_commit_def Let_def by (simp split: sum.splits if_splits)
    then show "P s'" using run by simp
  qed
  show ?thesis unfolding git_stage_def
  proof (rule keptI)
    fix s r s' assume P: "P s"
      and run: "(case detect_repo_root p s of None \<Rightarrow> (Inr [], s)
        | Some repo \<Rightarrow> act_bind (get_git_context git repo p) (\<lambda>ctx.
            act_then (check_emit_commit git repo (wp_user W)) (act_return ctx)) s) = (r, s')"
    have "kept P (act_bind (get_git_context git repo p) (\<lambda>ctx. act_then (check_emit_commit git repo (wp_user W)) (act_return ctx)))" for repo
      using g c by blast
    from keptD [OF this P] show "P s'" using run P by (auto split: option.splits)
  qed
qed

text \<open>A predicate of the events, the users and the sessions is kept by a step when the rows that are added keep it.\<close>

lemma kept_personal:
  assumes frame: "\<And>s s'. P s \<Longrightarrow> co_events s' = co_events s \<Longrightarrow> co_users s' = co_users s \<Longrightarrow> co_sessions s' = co_sessions s
      \<Longrightarrow> co_active s' = co_active s \<Longrightarrow> P s'"
    and commit: "\<And>u r c r2 r3. kept P (record_event u ''git_commit'' (Some r) (commit_metadata c r2 r3))"
    and touch: "\<And>u k. kept P (touch_work_session u k)"
    and wr_row: "\<And>u p m. (\<forall>kv \<in> set m. atom (snd kv)) \<Longrightarrow> kept P (record_event u ''file_write'' (Some p) m)"
    and del_row: "\<And>u p m. (\<forall>kv \<in> set m. atom (snd kv)) \<Longrightarrow> kept P (record_event u ''file_delete'' (Some p) m)"
  shows "kept P (personal_handle git W d p e)"
proof (cases "is_semantic p \<and> \<not> d")
  case False
  then show ?thesis by (auto simp: personal_handle_def)
next
  case True
  have meta: "\<forall>kv \<in> set (personal_metadata W p). atom (snd kv)" by (simp add: personal_metadata_def)
  show ?thesis
  proof (cases "e = Deleted")
    case del: True
    then show ?thesis using True del_row [OF meta] by (simp add: personal_handle_def event_type_of_def)
  next
    case wr: False
    show ?thesis
    proof (rule keptI)
      fix s r s' assume P: "P s" and run: "personal_handle git W d p e s = (r, s')"
      let ?s1 = "snd (update_session_edits p s)" and ?n = "length (the (co_edit_times (snd (update_session_edits p s)) p))"
      let ?k = "if STUCK_THRESHOLD \<le> ?n then 1 else 0"
      have u: "update_session_edits p s = (Inr (?n, STUCK_THRESHOLD \<le> ?n), ?s1)" by (simp add: update_session_edits_def Let_def)
      have P1: "P ?s1" by (rule frame [OF P]) (simp_all add: update_session_edits_def Let_def)
      obtain ctx s2 where g: "git_stage git W p ?s1 = (Inr ctx, s2)" by (rule git_stage_returns [of git W p ?s1])
      have ctx: "\<forall>kv \<in> set ctx. atom (snd kv)" if "git_stage git W p ?s1 = (Inr ctx, s2)" for ctx s2
        using that by (auto simp: git_stage_def get_git_context_def diff_context_def act_bind_apply act_then_apply Let_def
            split: option.splits prod.splits sum.splits if_splits)
      have P2: "P s2" by (rule keptD [OF kept_git_stage [OF frame commit] P1 g])
      let ?t = "touch_work_session (wp_user W) ?k s2"
      have t: "?t = (Inr (projr (fst ?t)), snd ?t)"
        by (cases "fst ?t") (auto simp: touch_work_session_def Let_def split: prod.splits option.splits if_splits)
      have P3: "P (snd ?t)" by (rule keptD [OF touch P2 t])
      let ?m = "personal_metadata W p @ [(''session_edit_count'', JInt (int ?n)), (''stuck_signal'', JInt ?k)] @ ctx"
      have m: "\<forall>kv \<in> set ?m. atom (snd kv)" using meta ctx [OF g] by auto
      have "personal_handle git W d p e s = record_event (wp_user W) ''file_write'' (Some p) ?m (snd ?t)"
        unfolding personal_handle_def git_stage_def [symmetric]
        using True wr by (simp add: event_type_of_def act_bind_Inr [where m = "update_session_edits p", OF u]
            act_bind_Inr [where m = "git_stage git W p", OF g] act_then_Inr [where m = "touch_work_session _ _", OF t])
      then show "P s'" using keptD [OF wr_row [OF m] P3] run by metis
    qed
  qed
qed

subsection \<open>What every event looks like\<close>

definition only_rows :: "(context_event \<Rightarrow> bool) \<Rightarrow> 'm collector_scheme \<Rightarrow> bool" where
  "only_rows Q s \<longleftrightarrow> (\<forall>e \<in> set (co_events s). Q e)"

definition EVENT_TYPES :: "string list" where
  "EVENT_TYPES = [''file_write'', ''file_delete'', ''git_commit'', ''intent_sent'', ''artifact_created'']"

lemma kept_rows: "(\<And>t. Q (context_row t u k p m)) \<Longrightarrow> kept (only_rows Q) (record_event u k p m)"
  by (auto simp: kept_def only_rows_def record_event_def)

text \<open>What holds of every row of a known type with metadata of atoms holds of all rows that are ever recorded.\<close>

lemma collects_rows:
  fixes s :: "'m collector_scheme"
  assumes "collects s s'" "only_rows Q s"
    and Q: "\<And>t u k p m. k \<in> set EVENT_TYPES \<Longrightarrow> \<forall>kv \<in> set m. atom (snd kv) \<Longrightarrow> Q (context_row t u k p m)"
  shows "only_rows Q s'"
proof -
  let ?P = "only_rows Q :: 'm collector_scheme \<Rightarrow> bool"
  have row: "kept ?P (record_event u k p m)" if "k \<in> set EVENT_TYPES" "\<forall>kv \<in> set m. atom (snd kv)" for u k p m
    by (rule kept_rows) (rule Q [OF that])
  have opt: "atom (opt_json x)" for x by (cases x) (simp_all add: opt_json_def)
  have ws: "kept ?P (workspace_handle cfg d p e)" for cfg d p e
    unfolding workspace_handle_def
    by (auto intro!: row simp: EVENT_TYPES_def event_type_of_def opt split: option.splits)
  have pe: "kept ?P (personal_handle git W d p e)" for git W d p e
  proof (rule kept_personal)
    show "kept ?P (touch_work_session u k)" for u k by (simp add: kept_def only_rows_def)
    show "kept ?P (record_event u ''git_commit'' (Some r) (commit_metadata c r2 r3))" for u r c r2 r3
      by (rule row) (simp_all add: EVENT_TYPES_def commit_metadata_def)
    show "kept ?P (record_event u ''file_write'' (Some p) m)" if "\<forall>kv \<in> set m. atom (snd kv)" for u p m
      by (rule row [OF _ that]) (simp add: EVENT_TYPES_def)
    show "kept ?P (record_event u ''file_delete'' (Some p) m)" if "\<forall>kv \<in> set m. atom (snd kv)" for u p m
      by (rule row [OF _ that]) (simp add: EVENT_TYPES_def)
  qed (simp add: only_rows_def)
  have sy: "kept ?P sync_db_activity"
  proof -
    have "kept ?P (sync_intent i)" for i unfolding sync_intent_def by (rule row) (simp_all add: EVENT_TYPES_def)
    then have i: "kept ?P (\<lambda>s. act_each sync_intent (pending_intents s) s)"
      by (rule kept_state [where f = "\<lambda>s. act_each sync_intent (pending_intents s)", OF kept_each])
    have "kept ?P (sync_artifact a)" for a unfolding sync_artifact_def by (rule row) (simp_all add: EVENT_TYPES_def)
    then have "kept ?P (\<lambda>s. act_each sync_artifact (pending_artifacts s) s)"
      by (rule kept_state [where f = "\<lambda>s. act_each sync_artifact (pending_artifacts s)", OF kept_each])
    with i show ?thesis unfolding sync_db_activity_def by (rule kept_then)
  qed
  show ?thesis using assms(1,2)
  proof (cases rule: collects.cases)
    case (1 cfg d p e)
    then show ?thesis using ws assms(2) by (simp add: kept_def)
  next
    case (2 git W d p e)
    then show ?thesis using pe assms(2) by (simp add: kept_def)
  next
    case (4 u pr m)
    then show ?thesis using row [of "''intent_sent''" "[(''project_id'', JStr pr), (''message_length'', JInt (int (length m))), (''message_preview'', JStr (take 120 m))]" u None] assms(2)
      by (simp add: kept_def record_intent_event_def EVENT_TYPES_def)
  next
    case (5 u pr n k)
    then show ?thesis using row [of "''artifact_created''" "[(''project_id'', JStr pr), (''artifact_type'', JStr k), (''extension'', JStr (py_lower (path_suffix n)))]" u "Some n"] assms(2)
      by (simp add: kept_def record_artifact_event_def EVENT_TYPES_def)
  next
    case 6
    then show ?thesis using sy assms(2) by (simp add: kept_def)
  qed (auto simp: only_rows_def reload_personal_watcher_def increment_anima_action_def increment_statement_def act_catch_def
      Let_def split: option.splits)
qed

definition readable :: "context_event \<Rightarrow> bool" where
  "readable e \<longleftrightarrow> (\<exists>kvs. loads (ce_metadata e) = Some (JObj kvs))"

lemma atom_float_free: "atom j \<Longrightarrow> float_free j"
  by (cases j) simp_all

lemma context_row_readable: "\<forall>kv \<in> set m. atom (snd kv) \<Longrightarrow> readable (context_row t u k p m)"
proof -
  assume m: "\<forall>kv \<in> set m. atom (snd kv)"
  let ?j = "JObj (filter (\<lambda>kv. fst kv \<notin> set POPPED) m)"
  have "float_free ?j" using m atom_float_free by (auto simp: list_all_iff)
  from loads_dumps [OF this, of "'' ''" "'' ''"] have "loads (json_dumps ?j) = Some ?j"
    by (simp add: json_dumps_def blanks_def json_ws_def)
  then show ?thesis by (simp add: readable_def context_row_def)
qed

lemma collected_rows:
  assumes "collects\<^sup>*\<^sup>* s s'" "only_rows Q s"
    and Q: "\<And>t u k p m. k \<in> set EVENT_TYPES \<Longrightarrow> \<forall>kv \<in> set m. atom (snd kv) \<Longrightarrow> Q (context_row t u k p m)"
  shows "only_rows Q s'"
  using assms(1)
proof (induction rule: rtranclp_induct)
  case base
  show ?case by (rule assms(2))
next
  case (step a b)
  show ?case by (rule collects_rows [OF step.hyps(2) step.IH Q])
qed

lemma collected_readable:
  assumes "collects\<^sup>*\<^sup>* s s'" "only_rows readable s"
  shows "only_rows readable s'"
  by (rule collected_rows [OF assms]) (rule context_row_readable)

text \<open>no document is ever read: the handler of the workspaces raises on a document that is written (the method it calls
  belongs to the other class), and whatever the collector does, no event of a changed document is recorded.\<close>

theorem documents_never_read:
  assumes "is_document p" "e \<noteq> Deleted" "collects\<^sup>*\<^sup>* s s'" "co_events s = []"
  shows "workspace_handle cfg False p e s' = (Inl (ExternalError ''AttributeError''), s')
    \<and> (\<forall>r \<in> set (co_events s'). ce_type r \<noteq> ''document_change'')"
proof -
  have "only_rows (\<lambda>r. ce_type r \<noteq> ''document_change'') s'"
    by (rule collected_rows [OF assms(3)]) (auto simp: EVENT_TYPES_def context_row_def only_rows_def assms(4))
  then show ?thesis using assms(1,2) by (simp add: workspace_handle_def event_type_of_def only_rows_def)
qed

subsection \<open>Work sessions\<close>

definition session_open :: "'m collector_scheme \<Rightarrow> nat \<Rightarrow> bool" where
  "session_open s i \<longleftrightarrow> i < length (co_sessions s) \<and> ws_ended (co_sessions s ! i) = None"

definition sessions_ok :: "'m collector_scheme \<Rightarrow> bool" where
  "sessions_ok s \<longleftrightarrow>
     (\<forall>u sid t. co_active s u = Some (sid, t) \<longrightarrow> sid < length (co_sessions s) \<and> ws_user (co_sessions s ! sid) = u)
     \<and> (\<forall>i. session_open s i \<longrightarrow> (\<exists>t. co_active s (ws_user (co_sessions s ! i)) = Some (i, t)))"

lemma update_session_nth:
  "length (update_session i f ss) = length ss"
  "k < length ss \<Longrightarrow> update_session i f ss ! k = (if k = i then f (ss ! i) else ss ! k)"
  by (auto simp: update_session_def)

lemma sessions_okI:
  assumes "\<And>v x t. co_active s v = Some (x, t) \<Longrightarrow> x < length (co_sessions s) \<and> ws_user (co_sessions s ! x) = v"
    and "\<And>i. session_open s i \<Longrightarrow> \<exists>t. co_active s (ws_user (co_sessions s ! i)) = Some (i, t)"
  shows "sessions_ok s"
  using assms unfolding sessions_ok_def by blast

lemma sessions_okD: "sessions_ok s \<Longrightarrow> session_open s k \<Longrightarrow> \<exists>t. co_active s (ws_user (co_sessions s ! k)) = Some (k, t)"
  by (simp add: sessions_ok_def)

lemma kept_sessions_touch: "kept sessions_ok (touch_work_session u k)"
proof (rule keptI)
  fix s r s' assume ok: "sessions_ok s" and run: "touch_work_session u k s = (r, s')"
  have A: "co_active s v = Some (sid, t) \<Longrightarrow> sid < length (co_sessions s) \<and> ws_user (co_sessions s ! sid) = v" for v sid t
    using ok unfolding sessions_ok_def by blast
  have B: "session_open s i \<Longrightarrow> \<exists>t. co_active s (ws_user (co_sessions s ! i)) = Some (i, t)" for i
    using ok unfolding sessions_ok_def by blast
  show "sessions_ok s'"
  proof (cases "\<exists>sid t. co_active s u = Some (sid, t) \<and> \<not> co_wall s - t > SESSION_IDLE_CLOSE_S")
    case True
    then obtain sid t where a: "co_active s u = Some (sid, t)" "\<not> co_wall s - t > SESSION_IDLE_CLOSE_S" by blast
    let ?f = "\<lambda>w. w\<lparr>ws_files := ws_files w + 1, ws_stuck := ws_stuck w + k\<rparr>"
    have s': "s' = s\<lparr>co_sessions := update_session sid ?f (co_sessions s), co_active := (co_active s)(u \<mapsto> (sid, co_wall s))\<rparr>"
      using run a by (simp add: touch_work_session_def close_idle_def Let_def)
    have n: "ws_user (update_session sid ?f (co_sessions s) ! i) = ws_user (co_sessions s ! i)
        \<and> ws_ended (update_session sid ?f (co_sessions s) ! i) = ws_ended (co_sessions s ! i)" if "i < length (co_sessions s)" for i
      using that by (simp add: update_session_nth)
    show ?thesis
    proof (rule sessions_okI)
      show "x < length (co_sessions s') \<and> ws_user (co_sessions s' ! x) = v" if "co_active s' v = Some (x, t')" for v x t'
        using that A [of v x] A [OF a(1)] n by (auto simp: s' update_session_nth(1) split: if_splits)
      show "\<exists>t. co_active s' (ws_user (co_sessions s' ! i)) = Some (i, t)" if "session_open s' i" for i
      proof -
        have i: "i < length (co_sessions s)" using that by (simp add: s' session_open_def update_session_nth(1))
        have "session_open s i" using that n [OF i] i by (simp add: s' session_open_def)
        from B [OF this] show ?thesis using n [OF i] a(1) by (auto simp: s')
      qed
    qed
  next
    case False
    let ?close = "\<lambda>sid t. update_session sid (\<lambda>w. if ws_ended w = None then w\<lparr>ws_ended := Some t\<rparr> else w) (co_sessions s)"
    obtain ss where c: "close_idle u s = (None, s\<lparr>co_sessions := ss\<rparr>)" "length ss = length (co_sessions s)"
      "\<And>i. i < length ss \<Longrightarrow> ws_user (ss ! i) = ws_user (co_sessions s ! i)"
      "\<And>i. i < length ss \<Longrightarrow> ws_ended (ss ! i) = None \<Longrightarrow> session_open s i \<and> ws_user (co_sessions s ! i) \<noteq> u"
    proof (cases "co_active s u")
      case None
      show ?thesis
      proof (rule that [of "co_sessions s"])
        show "close_idle u s = (None, s\<lparr>co_sessions := co_sessions s\<rparr>)" using None by (simp add: close_idle_def)
        show "session_open s i \<and> ws_user (co_sessions s ! i) \<noteq> u"
          if "i < length (co_sessions s)" "ws_ended (co_sessions s ! i) = None" for i
          using B [of i] that None by (auto simp: session_open_def)
      qed simp_all
    next
      case (Some x)
      obtain sid t where x: "x = (sid, t)" by (cases x)
      have old: "co_wall s - t > SESSION_IDLE_CLOSE_S" using False Some x by auto
      show ?thesis
      proof (rule that [of "?close sid t"])
        show "close_idle u s = (None, s\<lparr>co_sessions := ?close sid t\<rparr>)" using Some x old by (simp add: close_idle_def)
        show "length (?close sid t) = length (co_sessions s)" by (simp add: update_session_nth)
        show "ws_user (?close sid t ! i) = ws_user (co_sessions s ! i)" if "i < length (?close sid t)" for i
          using that by (simp add: update_session_nth)
        show "session_open s i \<and> ws_user (co_sessions s ! i) \<noteq> u"
          if "i < length (?close sid t)" "ws_ended (?close sid t ! i) = None" for i
        proof -
          have i: "i < length (co_sessions s)" using that(1) by (simp add: update_session_nth)
          have "i \<noteq> sid" using that(2) i by (auto simp: update_session_nth split: if_splits)
          then have o: "session_open s i" using that(2) i by (simp add: update_session_nth session_open_def)
          then show ?thesis using B [OF o] \<open>i \<noteq> sid\<close> Some x by auto
        qed
      qed
    qed
    show ?thesis
    proof (cases "u \<in> set (co_users s)")
      case True
      have s': "s' = s\<lparr>co_sessions := ss @ [\<lparr>ws_user = u, ws_started = co_wall s, ws_ended = None, ws_files = 1, ws_stuck = k, ws_rawos_actions = 0\<rparr>],
          co_active := (co_active s)(u \<mapsto> (length ss, co_wall s))\<rparr>"
        using run c(1) True by (simp add: touch_work_session_def Let_def)
      show ?thesis
      proof (rule sessions_okI)
        show "x < length (co_sessions s') \<and> ws_user (co_sessions s' ! x) = v" if "co_active s' v = Some (x, t')" for v x t'
          using that A [of v x] c(2,3) by (auto simp: s' nth_append split: if_splits)
        show "\<exists>t. co_active s' (ws_user (co_sessions s' ! i)) = Some (i, t)" if "session_open s' i" for i
        proof (cases "i < length ss")
          case True
          then have o: "session_open s i \<and> ws_user (co_sessions s ! i) \<noteq> u" using that c(4) by (simp add: s' session_open_def nth_append)
          with B [of i] show ?thesis using True c(3) by (simp add: s' nth_append)
        next
          case False
          then have "i = length ss" using that by (simp add: s' session_open_def)
          then show ?thesis by (simp add: s')
        qed
      qed
    next
      case no_user: False
      have s': "s' = s\<lparr>co_sessions := ss\<rparr>" using run c(1) no_user by (simp add: touch_work_session_def Let_def)
      show ?thesis
      proof (rule sessions_okI)
        show "x < length (co_sessions s') \<and> ws_user (co_sessions s' ! x) = v" if "co_active s' v = Some (x, t')" for v x t'
          using that A [of v x] c(2,3) by (simp add: s')
        show "\<exists>t. co_active s' (ws_user (co_sessions s' ! i)) = Some (i, t)" if "session_open s' i" for i
        proof -
          have i: "i < length ss" using that by (simp add: s' session_open_def)
          then have o: "session_open s i" using that c(4) by (simp add: s' session_open_def)
          from B [OF o] show ?thesis using i c(3) by (simp add: s')
        qed
      qed
    qed
  qed
qed

text \<open>A predicate of the sessions is kept by every step when it is kept by the touch of a session.\<close>

lemma collects_sessions:
  fixes s :: "'m collector_scheme"
  assumes "collects s s'" "P s"
    and frame: "\<And>s s' :: 'm collector_scheme. P s \<Longrightarrow> co_sessions s' = co_sessions s \<Longrightarrow> co_active s' = co_active s \<Longrightarrow> P s'"
    and touch: "\<And>u k. kept P (touch_work_session u k)"
  shows "P s'"
proof -
  have row: "kept P (record_event u k p m)" for u k p m
    by (rule keptI) (metis frame record_event_simps(4,5) snd_conv)
  have each: "co_sessions (snd (act_each f xs t)) = co_sessions t \<and> co_active (snd (act_each f xs t)) = co_active t"
    if "\<And>x t. fst (f x t) = Inr () \<and> co_sessions (snd (f x t)) = co_sessions t \<and> co_active (snd (f x t)) = co_active t"
    for f :: "'x \<Rightarrow> ('m collector_scheme, unit) act" and xs t
  proof (induction xs arbitrary: t)
    case (Cons x xs)
    have "f x t = (Inr (), snd (f x t))" by (rule prod_eqI) (simp_all add: that)
    from act_then_Inr [where m = "f x" and k = "act_each f xs", OF this] show ?case using Cons.IH [of "snd (f x t)"] that [of x t] by simp
  qed simp
  have returns: "fst (act_each f xs t) = Inr ()" if "\<And>x t. fst (f x t) = Inr ()"
    for f :: "'x \<Rightarrow> ('m collector_scheme, unit) act" and xs t
  proof (induction xs arbitrary: t)
    case (Cons x xs)
    have "f x t = (Inr (), snd (f x t))" by (rule prod_eqI) (simp_all add: that)
    from act_then_Inr [where m = "f x" and k = "act_each f xs", OF this] show ?case using Cons.IH by simp
  qed simp
  have i: "fst (sync_intent x t) = Inr () \<and> co_sessions (snd (sync_intent x t)) = co_sessions t \<and> co_active (snd (sync_intent x t)) = co_active t"
    for x and t :: "'m collector_scheme" by (simp add: sync_intent_def)
  have a: "fst (sync_artifact x t) = Inr () \<and> co_sessions (snd (sync_artifact x t)) = co_sessions t \<and> co_active (snd (sync_artifact x t)) = co_active t"
    for x and t :: "'m collector_scheme" by (simp add: sync_artifact_def)
  have pe: "kept P (personal_handle git W d p e)" for git W d p e
    by (rule kept_personal) (auto intro: frame touch row)
  show ?thesis using assms(1)
  proof (cases rule: collects.cases)
    case (1 cfg d p e)
    have "co_sessions s' = co_sessions s \<and> co_active s' = co_active s" unfolding 1 by (simp add: workspace_handle_def split: option.splits)
    then show ?thesis using frame [OF assms(2)] by blast
  next
    case (2 git W d p e)
    then show ?thesis using pe assms(2) by (simp add: kept_def)
  next
    case 3
    show ?thesis by (rule frame [OF assms(2)]) (simp_all add: 3 reload_personal_watcher_def Let_def)
  next
    case 4
    show ?thesis by (rule frame [OF assms(2)]) (simp_all add: 4 record_intent_event_def)
  next
    case 5
    show ?thesis by (rule frame [OF assms(2)]) (simp_all add: 5 record_artifact_event_def)
  next
    case 6
    let ?t = "snd (act_each sync_intent (pending_intents s) s)"
    have "act_each sync_intent (pending_intents s) s = (Inr (), ?t)" by (rule prod_eqI) (simp_all add: returns i)
    then have "s' = snd (act_each sync_artifact (pending_artifacts ?t) ?t)"
      unfolding 6 sync_db_activity_def by (subst act_then_Inr [where x = "()" and s' = ?t]) simp_all
    then show ?thesis using each [of sync_intent "pending_intents s" s, OF i] each [of sync_artifact "pending_artifacts ?t" ?t, OF a]
      by (intro frame [OF assms(2)]) simp_all
  next
    case 7
    show ?thesis by (rule frame [OF assms(2)])
      (simp_all add: 7 increment_anima_action_def increment_statement_def act_catch_apply split: option.splits)
  next
    case (8 u k)
    then show ?thesis using touch assms(2) by (simp add: kept_def)
  next
    case 9
    show ?thesis by (rule frame [OF assms(2)]) (simp_all add: 9)
  qed
qed

lemma collected_sessions:
  assumes "collects\<^sup>*\<^sup>* s s'" "P s"
    and "\<And>s s'. P s \<Longrightarrow> co_sessions s' = co_sessions s \<Longrightarrow> co_active s' = co_active s \<Longrightarrow> P s'"
    and "\<And>u k. kept P (touch_work_session u k)"
  shows "P s'"
  using assms(1)
proof (induction rule: rtranclp_induct)
  case base
  show ?case by (rule assms(2))
next
  case (step a b)
  show ?case by (rule collects_sessions [OF step.hyps(2) step.IH assms(3,4)])
qed

lemma sessions_ok_frame:
  "sessions_ok s \<Longrightarrow> co_sessions s' = co_sessions s \<Longrightarrow> co_active s' = co_active s \<Longrightarrow> sessions_ok s'"
  by (simp add: sessions_ok_def session_open_def)

text \<open>since the start of the process a user never has two open work sessions.\<close>

theorem one_open_session:
  assumes "collects\<^sup>*\<^sup>* s s'" "co_sessions s = []" "co_active s = (\<lambda>_. None)"
    and "session_open s' i" "session_open s' j" "ws_user (co_sessions s' ! i) = ws_user (co_sessions s' ! j)"
  shows "i = j"
proof -
  have "sessions_ok s" by (simp add: sessions_ok_def session_open_def assms(2,3))
  then have ok: "sessions_ok s'"
    by (rule collected_sessions [where P = sessions_ok, OF assms(1) _ sessions_ok_frame kept_sessions_touch])
  obtain t where a: "co_active s' (ws_user (co_sessions s' ! i)) = Some (i, t)" using sessions_okD [OF ok assms(4)] by blast
  obtain u where b: "co_active s' (ws_user (co_sessions s' ! j)) = Some (j, u)" using sessions_okD [OF ok assms(5)] by blast
  have "Some (i, t) = Some (j, u)" by (simp only: a [symmetric] b [symmetric] assms(6))
  then show ?thesis by simp
qed

text \<open>a session that is open when the process restarts is never closed: the dictionary of the active sessions is not
  read back from the table.\<close>

theorem restart_leaves_session_open:
  assumes "session_open s i" "collects\<^sup>*\<^sup>* (s\<lparr>co_active := (\<lambda>_. None)\<rparr>) s'"
  shows "session_open s' i"
proof -
  let ?P = "\<lambda>s. session_open s i \<and> (\<forall>u t. co_active s u \<noteq> Some (i, t))"
  have "?P s'"
  proof (rule collected_sessions [OF assms(2)])
    show "?P (s\<lparr>co_active := (\<lambda>_. None)\<rparr>)" using assms(1) by (simp add: session_open_def)
    show "kept ?P (touch_work_session u k)" for u k
    proof (rule keptI)
      fix s r s' assume P: "?P s" and run: "touch_work_session u k s = (r, s')"
      have i: "i < length (co_sessions s)" "ws_ended (co_sessions s ! i) = None" using P by (simp_all add: session_open_def)
      let ?close = "\<lambda>sid t. update_session sid (\<lambda>w. if ws_ended w = None then w\<lparr>ws_ended := Some t\<rparr> else w) (co_sessions s)"
      show "?P s'"
      proof (cases "co_active s u")
        case None
        then show ?thesis using run P i
          by (auto simp: touch_work_session_def close_idle_def session_open_def nth_append Let_def split: if_splits)
      next
        case (Some x)
        obtain sid t where x: "x = (sid, t)" by (cases x)
        have sid: "sid \<noteq> i" using P Some x by auto
        have c: "?close sid t ! i = co_sessions s ! i" "length (?close sid t) = length (co_sessions s)"
          using sid i by (simp_all add: update_session_nth)
        show ?thesis
        proof (cases "co_wall s - t > SESSION_IDLE_CLOSE_S")
          case True
          then show ?thesis using run P i c Some x
            by (auto simp: touch_work_session_def close_idle_def session_open_def nth_append Let_def split: if_splits)
        next
          case False
          then show ?thesis using run P i sid Some x
            by (auto simp: touch_work_session_def close_idle_def session_open_def update_session_nth Let_def split: if_splits)
        qed
      qed
    qed
  qed (simp add: session_open_def)
  then show ?thesis by simp
qed

subsection \<open>Reloading the watcher\<close>

definition simple_watches :: "watched_path list \<Rightarrow> (string \<times> string) set" where
  "simple_watches ws = (\<lambda>(p, (u, l)). (p, u)) ` set (dict_of (map (\<lambda>w. (wp_path w, (wp_user w, wp_label w))) ws))"

lemma update_keys: "fst ` set (AList.update k v d) = insert k (fst ` set d)"
  by (induction d) auto

lemma dict_of_keys: "fst ` set (dict_of kvs) = fst ` set kvs"
proof -
  have "fst ` set (fold (\<lambda>(k, v) d. AList.update k v d) kvs d) = fst ` set kvs \<union> fst ` set d" for d
  proof (induction kvs arbitrary: d)
    case (Cons kv kvs)
    then show ?case by (cases kv) (simp add: update_keys Un_commute)
  qed simp
  then show ?thesis by (simp add: dict_of_def)
qed

lemma dict_of_empty: "dict_of kvs = [] \<longleftrightarrow> kvs = []"
  using dict_of_keys [of kvs] by (metis image_is_empty set_empty)

text \<open>a reload that finds none of the registered directories stops the observer and keeps the old dictionary; when the
  earlier registrations come back the next reload takes them for unchanged, and nothing is watched, whatever exists.\<close>

theorem reload_loses_watcher:
  assumes current: "set (co_watches s) = simple_watches (co_watched s)"
    and gone: "gone \<noteq> []" "\<forall>w \<in> set gone. \<not> is_dir (wp_path w) s" "simple_watches gone \<noteq> simple_watches (co_watched s)"
  shows "let s1 = snd (reload_personal_watcher (s\<lparr>co_watched := gone\<rparr>));
             s2 = snd (reload_personal_watcher (s1\<lparr>co_watched := co_watched s\<rparr>))
         in co_observer s1 = None \<and> co_observer s2 = None"
proof -
  let ?d = "\<lambda>ws. dict_of (map (\<lambda>w. (wp_path w, (wp_user w, wp_label w))) ws)"
  have simple: "set (map (\<lambda>(p, (u, l)). (p, u)) (?d ws)) = simple_watches ws" for ws
    by (simp add: simple_watches_def)
  have keys: "p \<in> wp_path ` set gone" if "(p, x) \<in> set (?d gone)" for p x
    using that dict_of_keys [of "map (\<lambda>w. (wp_path w, (wp_user w, wp_label w))) gone"] by (force simp: image_image)
  have none: "filter (\<lambda>(p, (u, l)). is_dir p t) (?d gone) = []" if "files t = files s" for t :: "'a collector_scheme"
    using keys gone(2) that by (auto simp: filter_empty_conv is_dir_def)
  have ne: "?d gone \<noteq> []" using gone(1) by (simp add: dict_of_empty)
  have s1: "snd (reload_personal_watcher (s\<lparr>co_watched := gone\<rparr>)) = s\<lparr>co_watched := gone, co_observer := None\<rparr>"
    using gone(3) current ne none [of "s\<lparr>co_watched := gone, co_observer := None\<rparr>"] simple [of gone]
    by (simp add: reload_personal_watcher_def Let_def)
  show ?thesis unfolding s1 Let_def
    using current simple [of "co_watched s"] by (simp add: reload_personal_watcher_def Let_def)
qed

text \<open>A reload that finds a directory watches exactly the registered directories that exist, for the user registered
  last.\<close>

lemma reload_watches:
  assumes "simple_watches (co_watched s) \<noteq> set (co_watches s)" "\<exists>w \<in> set (co_watched s). is_dir (wp_path w) s"
  shows "\<exists>ws. co_observer (snd (reload_personal_watcher s)) = Some ws
    \<and> wp_path ` set ws = {p \<in> wp_path ` set (co_watched s). is_dir p s}"
proof -
  let ?d = "dict_of (map (\<lambda>w. (wp_path w, (wp_user w, wp_label w))) (co_watched s))"
  let ?f = "filter (\<lambda>(p, (u, l)). is_dir p s) ?d"
  have keys: "fst ` set ?d = wp_path ` set (co_watched s)" by (simp add: dict_of_keys image_image)
  have dirs: "fst ` set ?f = {p \<in> wp_path ` set (co_watched s). is_dir p s}" unfolding keys [symmetric] by force
  have f: "?f \<noteq> []" using dirs assms(2) by (metis (mono_tags, lifting) empty_iff image_empty imageI list.set(1) mem_Collect_eq)
  then have ne: "?d \<noteq> []" by auto
  have simple: "set (map (\<lambda>(p, (u, l)). (p, u)) ?d) = simple_watches (co_watched s)" by (simp add: simple_watches_def)
  have idir: "is_dir p (s\<lparr>co_observer := None\<rparr>) = is_dir p s" for p by (simp add: is_dir_def)
  show ?thesis using assms(1) ne f simple dirs
    by (simp add: reload_personal_watcher_def Let_def idir image_image case_prod_unfold)
qed

subsection \<open>Witnesses\<close>

definition fresh_collector :: "string list \<Rightarrow> collector" where
  "fresh_collector us = \<lparr>files = (\<lambda>_. None), io_fault = (\<lambda>_. False), co_users = us, co_events = [], co_sessions = [],
     co_intents = [], co_artifacts = [], co_watched = [], co_edit_times = (\<lambda>_. None), co_last_commit = (\<lambda>_. None),
     co_last_diff = (\<lambda>_. None), co_active = (\<lambda>_. None), co_watches = [], co_observer = None, co_wall = 0\<rparr>"

definition no_git :: "collector query" where
  "no_git = (\<lambda>args s. Inl (ExternalError ''FileNotFoundError''))"

definition home_watch :: watched_path where
  "home_watch = \<lparr>wp_user = ''u'', wp_path = ''/srv'', wp_label = []\<rparr>"

definition edit_report :: "int \<Rightarrow> unit report" where
  "edit_report t = (t, no_git, home_watch, ''/srv/a.py'', Modified)"

lemma semantic_example: "is_semantic ''/srv/a.py''"
  by code_simp

theorem edits_counted_witness:
  "let r = last (co_events (watch_step (edit_report 2000)
       (fold watch_step (map edit_report [100, 300, 500, 700, 900]) (fresh_collector [''u'']))))
   in ce_edit_count r = JInt 5 \<and> ce_stuck r = JInt 1"
  using edits_counted [of "''/srv/a.py''" Modified "fresh_collector [''u'']" "map edit_report [100, 300, 500, 700, 900]" 2000 home_watch no_git]
    semantic_example
  by (simp add: fresh_collector_def home_watch_def edit_report_def report_time_def edits_file_def Let_def)

theorem documents_never_read_witness:
  "workspace_handle default_settings False ''/root/rawos/workspaces/u/p/a.pdf'' Created (fresh_collector [''u''])
   = (Inl (ExternalError ''AttributeError''), fresh_collector [''u''])"
proof -
  have "is_document ''/root/rawos/workspaces/u/p/a.pdf''" by code_simp
  from documents_never_read [OF this, of Created "fresh_collector [''u'']" "fresh_collector [''u'']" default_settings]
  show ?thesis by (simp add: fresh_collector_def)
qed

text \<open>Ten seconds after the start a file is written, and again when half an hour has passed.\<close>

definition touched :: "int \<Rightarrow> collector \<Rightarrow> collector" where
  "touched t s = snd (touch_work_session ''u'' 0 (s\<lparr>co_wall := t\<rparr>))"

lemma touched_collects: "collects\<^sup>*\<^sup>* s (touched t s)"
proof -
  let ?s = "s\<lparr>co_wall := t, co_intents := co_intents s, co_artifacts := co_artifacts s, co_watched := co_watched s, files := files s\<rparr>"
  have "collects s ?s" by (rule collects.intros)
  moreover have "collects ?s (snd (touch_work_session ''u'' 0 ?s))" by (rule collects.intros)
  ultimately show ?thesis unfolding touched_def by simp
qed

lemmas touched_defs = touched_def touch_work_session_def close_idle_def update_session_def SESSION_IDLE_CLOSE_S_def fresh_collector_def
  session_open_def Let_def

theorem one_open_session_witness:
  "session_open (touched 2000 (touched 10 (fresh_collector [''u'']))) 1
   \<and> \<not> session_open (touched 2000 (touched 10 (fresh_collector [''u'']))) 0"
proof -
  let ?s = "touched 2000 (touched 10 (fresh_collector [''u'']))"
  have r: "collects\<^sup>*\<^sup>* (fresh_collector [''u'']) ?s" by (rule rtranclp_trans [OF touched_collects touched_collects])
  have o: "session_open ?s 1" by (simp add: touched_defs)
  have "ws_user (co_sessions ?s ! 0) = ws_user (co_sessions ?s ! 1)" by (simp add: touched_defs)
  then have "session_open ?s 0 \<Longrightarrow> (0::nat) = 1"
    by (intro one_open_session [OF r _ _ _ o]) (simp_all add: fresh_collector_def)
  then show ?thesis using o by auto
qed

theorem restart_leaves_session_open_witness:
  "session_open (touched 2000 ((touched 10 (fresh_collector [''u'']))\<lparr>co_active := (\<lambda>_. None)\<rparr>)) 0
   \<and> session_open (touched 2000 ((touched 10 (fresh_collector [''u'']))\<lparr>co_active := (\<lambda>_. None)\<rparr>)) 1"
proof
  have "session_open (touched 10 (fresh_collector [''u''])) 0" by (simp add: touched_defs)
  then show "session_open (touched 2000 ((touched 10 (fresh_collector [''u'']))\<lparr>co_active := (\<lambda>_. None)\<rparr>)) 0"
    by (rule restart_leaves_session_open [OF _ touched_collects])
  show "session_open (touched 2000 ((touched 10 (fresh_collector [''u'']))\<lparr>co_active := (\<lambda>_. None)\<rparr>)) 1"
    by (simp add: touched_defs)
qed

definition watched_home :: collector where
  "watched_home = (fresh_collector [''u''])\<lparr>files := [''/srv'' \<mapsto> Directory], co_watched := [home_watch],
     co_watches := [(''/srv'', ''u'')], co_observer := Some [home_watch]\<rparr>"

theorem reload_loses_watcher_witness:
  "let s1 = snd (reload_personal_watcher (watched_home\<lparr>co_watched := [\<lparr>wp_user = ''u'', wp_path = ''/mnt'', wp_label = []\<rparr>]\<rparr>));
       s2 = snd (reload_personal_watcher (s1\<lparr>co_watched := [home_watch]\<rparr>))
   in is_dir ''/srv'' s2 \<and> co_observer s2 = None"
proof -
  have k: "fs_key ''/mnt'' = ''/mnt''" "fs_key ''/srv'' = ''/srv''" by code_simp+
  have "set (co_watches watched_home) = simple_watches (co_watched watched_home)"
    by (simp add: watched_home_def simple_watches_def dict_of_def home_watch_def)
  moreover have "\<forall>w \<in> set [\<lparr>wp_user = ''u'', wp_path = ''/mnt'', wp_label = []\<rparr>]. \<not> is_dir (wp_path w) watched_home"
    by (simp add: watched_home_def fresh_collector_def is_dir_def k)
  moreover have "simple_watches [\<lparr>wp_user = ''u'', wp_path = ''/mnt'', wp_label = []\<rparr>] \<noteq> simple_watches (co_watched watched_home)"
    by (simp add: watched_home_def simple_watches_def dict_of_def home_watch_def)
  ultimately have "let s1 = snd (reload_personal_watcher (watched_home\<lparr>co_watched := [\<lparr>wp_user = ''u'', wp_path = ''/mnt'', wp_label = []\<rparr>]\<rparr>));
       s2 = snd (reload_personal_watcher (s1\<lparr>co_watched := co_watched watched_home\<rparr>))
     in co_observer s1 = None \<and> co_observer s2 = None"
    using reload_loses_watcher [of watched_home "[\<lparr>wp_user = ''u'', wp_path = ''/mnt'', wp_label = []\<rparr>]"] by blast
  moreover have "files (snd (reload_personal_watcher s)) = files s" for s :: collector
    by (simp add: reload_personal_watcher_def Let_def)
  ultimately show ?thesis by (simp add: watched_home_def is_dir_def k Let_def)
qed

end
