(* ===== verification/Proactive_Triggers.thy ===== *)
theory Proactive_Triggers
  imports Collector Operator_Scan Auto_Apply
begin

text \<open>
  When the proactive scheduler acts (\<open>anima/scheduler/proactive.py\<close>, the queries of \<open>anima/context/calendar.py\<close>): the
  semantic triggers over the events of the collector, the users of a scan, the cooldown of a goal, the confidence earned
  in a domain, the reading of an agent's reply and the backoff after failures. The state extends the collector's by the
  tables of the calendar, of episodes and artifacts, and by the dictionary of backoffs. Confidences are in percent,
  rounded down, which decides every comparison with a threshold; \<open>pr_mono\<close> is the monotonic clock in hundredths of a
  second. The rounding of numbers that are only shown is not modelled.
\<close>

subsection \<open>The state\<close>

record calendar_row =
  ca_user :: string
  ca_uid :: string
  ca_title :: string
  ca_start :: int
  ca_end :: int
  ca_attendees :: string
  ca_location :: "string option"

record rated_episode = operator_episode +
  ep_repo_root :: string
  ep_confidence :: int
  ep_outcome :: string

record inference_entry =
  in_user :: string
  in_goal :: string
  in_domain :: string
  in_confidence :: int
  in_source :: string
  in_artifact :: "nat option"

record memory_row =
  mm_user :: string
  mm_project :: string
  mm_text :: string

record user_backoff =
  consecutive_failures :: nat
  next_allowed_at :: int

record proactive = collector +
  pr_calendar :: "calendar_row list"
  pr_credentials :: "string list"
  pr_episodes :: "rated_episode list"
  pr_artifacts :: "proactive_artifact list"
  pr_inferences :: "inference_entry list"
  pr_memories :: "memory_row list"
  pr_agents :: "(string \<times> string) list"
  pr_current_project :: "string \<Rightarrow> string option"
  pr_workdirs :: "string \<Rightarrow> string option"
  pr_levels :: "string \<Rightarrow> string \<Rightarrow> int"
  pr_backoff :: "string \<Rightarrow> user_backoff option"
  pr_mono :: int
  pr_calls :: nat

subsection \<open>The calendar\<close>

datatype calendar_entry = CalendarEntry (ev_uid: string) (ev_title: string) (ev_start: int) (ev_end: int)
  (ev_attendees: json) (ev_location: string) (ev_seconds_away: int)

definition get_upcoming_events :: "string \<Rightarrow> int \<Rightarrow> 'm proactive_scheme \<Rightarrow> calendar_entry list" where
  "get_upcoming_events user within s = (let now = co_wall s in
     map (\<lambda>r. CalendarEntry (ca_uid r) (ca_title r) (ca_start r) (ca_end r)
         (if ca_attendees r = [] then JList [] else case loads (ca_attendees r) of None \<Rightarrow> JList [] | Some j \<Rightarrow> j)
         (case ca_location r of None \<Rightarrow> [] | Some l \<Rightarrow> l) (ca_start r - now))
       (sort_key ca_start (filter (\<lambda>r. ca_user r = user \<and> ca_start r \<ge> now \<and> ca_start r \<le> now + within) (pr_calendar s))))"

definition has_attention_been_fired :: "string \<Rightarrow> string \<Rightarrow> 'm proactive_scheme \<Rightarrow> bool" where
  "has_attention_been_fired user event_uid s = (let day = co_wall s - co_wall s mod 86400 in
     list_ex (\<lambda>a. pa_user a = user \<and> pa_action_type a = ''attention'' \<and> pa_created_at a \<ge> day
       \<and> sql_like (''%'' @ event_uid @ ''%'') (pa_goal a)) (pr_artifacts s))"

subsection \<open>Triggers\<close>

definition STUCK_MIN_EDITS :: nat where "STUCK_MIN_EDITS = 5"
definition STUCK_WINDOW_S :: int where "STUCK_WINDOW_S = 1800"
definition COMMIT_WINDOW_S :: int where "COMMIT_WINDOW_S = 300"
definition IDLE_MIN_S :: int where "IDLE_MIN_S = 600"
definition IDLE_MAX_S :: int where "IDLE_MAX_S = 3600"

text \<open>The pair of a trigger type and its context. \<open>ServerScan\<close> is the context \<open>_run_autonomous_scan\<close> passes.\<close>

datatype trigger =
    NoTrigger
  | JustFinished (recent_commits: json) (files_changed: json) (commit_hash: json) (jf_repo: string)
  | Stuck (stuck_file: string) (edit_count: nat) (stuck_since: int) (stuck_summary: json) (stuck_hunk: json)
  | NeedsAttention calendar_entry
  | IdleOpportunity (idle_s: int) (edits_in_session: nat)
  | ServerScan ServerAnomaly

fun trigger_type :: "trigger \<Rightarrow> string option" where
  "trigger_type NoTrigger = None"
| "trigger_type (JustFinished a b c d) = Some ''JUST_FINISHED''"
| "trigger_type (Stuck a b c d e) = Some ''STUCK''"
| "trigger_type (NeedsAttention e) = Some ''NEEDS_ATTENTION''"
| "trigger_type (IdleOpportunity a b) = Some ''IDLE_OPPORTUNITY''"
| "trigger_type (ServerScan a) = Some ''SERVER_SCAN''"

fun json_true :: "json \<Rightarrow> bool" where
  "json_true (JStr t) = (t \<noteq> [])"
| "json_true (JInt i) = (i \<noteq> 0)"
| "json_true (JBool b) = b"
| "json_true (JList xs) = (xs \<noteq> [])"
| "json_true (JObj kvs) = (kvs \<noteq> [])"
| "json_true JNull = False"
| "json_true (JFloat t) = True"

definition meta_get :: "string \<Rightarrow> metadata \<Rightarrow> json" where
  "meta_get k kvs = (case obj_get k kvs of None \<Rightarrow> JStr [] | Some v \<Rightarrow> v)"

text \<open>\<open>json.loads(row["metadata"] or "{}")\<close> and the calls of \<open>get\<close> on it.\<close>

definition just_finished :: "context_event \<Rightarrow> exn + trigger" where
  "just_finished r = (case (if ce_metadata r = [] then Some (JObj []) else loads (ce_metadata r)) of
       None \<Rightarrow> Inl PyValueError
     | Some (JObj meta) \<Rightarrow> Inr (JustFinished (meta_get ''recent_commits'' meta) (meta_get ''files_changed'' meta)
         (meta_get ''commit_hash'' meta) (case ce_path r of None \<Rightarrow> [] | Some p \<Rightarrow> p))
     | Some _ \<Rightarrow> Inl (ExternalError ''AttributeError''))"

text \<open>\<open>Counter(xs).most_common(1)\<close>: of the most frequent elements the one that occurs first.\<close>

definition most_common :: "'x list \<Rightarrow> ('x \<times> nat) option" where
  "most_common xs = (if xs = [] then None
     else let m = Max (set (map (count_list xs) xs)); x = hd (filter (\<lambda>y. count_list xs y = m) xs) in Some (x, m))"

definition event_path :: "context_event \<Rightarrow> string" where
  "event_path r = (case ce_path r of None \<Rightarrow> [] | Some p \<Rightarrow> p)"

definition stuck_trigger :: "int \<Rightarrow> context_event list \<Rightarrow> trigger option" where
  "stuck_trigger now rows = (if list_ex (\<lambda>r. ce_type r = ''git_commit'') rows then None
     else let file_edits = filter (\<lambda>r. ce_type r = ''file_write'' \<and> event_path r \<noteq> []) rows in
       case most_common (map event_path file_edits) of
         None \<Rightarrow> None
       | Some (top_file, top_count) \<Rightarrow>
           if top_count \<ge> STUCK_MIN_EDITS then
             let diffs = filter (\<lambda>r. event_path r = top_file \<and> ce_type r = ''file_write'' \<and> json_true (ce_diff_summary r)) rows in
             Some (Stuck top_file top_count
               (now - Min (set (map ce_ts (filter (\<lambda>r. event_path r = top_file) file_edits))))
               (case diffs of [] \<Rightarrow> JStr [] | r # _ \<Rightarrow> ce_diff_summary r)
               (case diffs of [] \<Rightarrow> JStr []
                | r # _ \<Rightarrow> if json_true (ce_diff_hunk r) then ce_diff_hunk r else JStr []))
           else None)"

definition attention_trigger :: "string \<Rightarrow> 'm proactive_scheme \<Rightarrow> trigger option" where
  "attention_trigger user s = (case get_upcoming_events user 7200 s of [] \<Rightarrow> None
     | e # _ \<Rightarrow> if has_attention_been_fired user (ev_uid e) s then None else Some (NeedsAttention e))"

definition idle_trigger :: "int \<Rightarrow> context_event list \<Rightarrow> trigger" where
  "idle_trigger now rows = (let since = now - ce_ts (hd rows); active_count = length (filter (\<lambda>r. ce_type r = ''file_write'') rows) in
     if IDLE_MIN_S \<le> since \<and> since \<le> IDLE_MAX_S \<and> active_count \<ge> 3 then IdleOpportunity since active_count else NoTrigger)"

definition recent_rows :: "string \<Rightarrow> 'm proactive_scheme \<Rightarrow> context_event list" where
  "recent_rows user s = newest 150 ce_ts
     (filter (\<lambda>e. ce_user e = user \<and> ce_ts e \<ge> co_wall s - STUCK_WINDOW_S) (co_events s))"

definition detect_trigger :: "string \<Rightarrow> 'm proactive_scheme \<Rightarrow> exn + trigger" where
  "detect_trigger user s = (let now = co_wall s; rows = recent_rows user s in
     if rows = [] then Inr NoTrigger
     else case filter (\<lambda>r. ce_type r = ''git_commit'' \<and> ce_ts r \<ge> now - COMMIT_WINDOW_S) rows of
       commit # _ \<Rightarrow> just_finished commit
     | [] \<Rightarrow> Inr (case stuck_trigger now rows of Some t \<Rightarrow> t
         | None \<Rightarrow> (case attention_trigger user s of Some t \<Rightarrow> t | None \<Rightarrow> idle_trigger now rows)))"

subsection \<open>Users, cooldown, projects\<close>

fun first_seen :: "'x list \<Rightarrow> 'x list \<Rightarrow> 'x list" where
  "first_seen seen [] = []"
| "first_seen seen (x # xs) = (if x \<in> set seen then first_seen seen xs else x # first_seen (x # seen) xs)"

definition active_users :: "int \<Rightarrow> 'm proactive_scheme \<Rightarrow> string list" where
  "active_users since_s s = (let now = co_wall s in first_seen []
     (map ce_user (filter (\<lambda>e. ce_ts e \<ge> now - since_s) (co_events s))
      @ map ca_user (filter (\<lambda>c. ca_user c \<in> set (pr_credentials s) \<and> ca_start c \<ge> now \<and> ca_start c \<le> now + 7200) (pr_calendar s))))"

definition GOAL_COOLDOWN_S :: int where "GOAL_COOLDOWN_S = 900"

definition is_goal_on_cooldown :: "string \<Rightarrow> string \<Rightarrow> 'm proactive_scheme \<Rightarrow> bool" where
  "is_goal_on_cooldown user key s = list_ex (\<lambda>a. pa_user a = user \<and> pa_cooldown_key a = key
     \<and> pa_created_at a \<ge> co_wall s - GOAL_COOLDOWN_S) (pr_artifacts s)"

definition compute_cooldown_key :: "trigger \<Rightarrow> string \<Rightarrow> string" where
  "compute_cooldown_key t dmn = (case t of NeedsAttention e \<Rightarrow> ''calendar_attention:'' @ ev_uid e
     | _ \<Rightarrow> (case trigger_type t of None \<Rightarrow> ''unknown'' | Some k \<Rightarrow> k) @ '':'' @ dmn)"

definition get_user_project :: "string \<Rightarrow> 'm proactive_scheme \<Rightarrow> string option \<times> string option" where
  "get_user_project user s = (case pr_current_project s user of
       None \<Rightarrow> (None, None) | Some p \<Rightarrow> if p = [] then (None, None) else (Some p, pr_workdirs s p))"

subsection \<open>Reading an reply\<close>

text \<open>\<open>[Cc]onfidence:\s*([0-9]\.[0-9]+)\<close> at the beginning of a text, as a percentage.\<close>

definition digit_of :: "char \<Rightarrow> int" where "digit_of c = int (of_char c) - 48"

definition match_confidence :: "string \<Rightarrow> int option" where
  "match_confidence t = (if \<not> startswith (drop 1 t) ''onfidence:'' \<or> hd t \<notin> {CHR ''C'', CHR ''c''} then None
     else case dropWhile is_space (drop 11 t) of
       d # p # e # rest \<Rightarrow> if is_digit d \<and> p = CHR ''.'' \<and> is_digit e
         then Some (100 * digit_of d + 10 * digit_of e
           + (case rest of f # _ \<Rightarrow> if is_digit f then digit_of f else 0 | [] \<Rightarrow> 0)) else None
     | _ \<Rightarrow> None)"

fun find_confidence :: "string \<Rightarrow> int option" where
  "find_confidence [] = None"
| "find_confidence (c # t) = (case match_confidence (c # t) of Some v \<Rightarrow> Some v | None \<Rightarrow> find_confidence t)"

definition parse_confidence :: "string \<Rightarrow> int" where
  "parse_confidence text = (case find_confidence text of Some v \<Rightarrow> min (max v 0) 100 | None \<Rightarrow> 60)"

text \<open>\<open>str.upper\<close>: the sharp s becomes two letters; two letters whose capitals are outside Latin-1 stay.\<close>

definition py_upper_char :: "char \<Rightarrow> string" where
  "py_upper_char c = (let n = (of_char c :: nat) in
     if n = 223 then ''SS'' else if 97 \<le> n \<and> n \<le> 122 \<or> 224 \<le> n \<and> n \<le> 246 \<or> 248 \<le> n \<and> n \<le> 254 then [char_of (n - 32)] else [c])"

definition py_upper :: "string \<Rightarrow> string" where
  "py_upper s = concat (map py_upper_char s)"

definition GOOD_MARKERS :: "string list" where
  "GOOD_MARKERS = [''VERIFIED:'', ''TESTS PASSED'', ''ALL TESTS PASSED'', ''SERVICE ACTIVE'', ''HEALTH CHECK OK'',
     ''IS-ACTIVE: ACTIVE'', ''SYSTEMCTL IS-ACTIVE'', ''ACTIVE (RUNNING)'']"

text \<open>The marker with a dash that is not Latin-1 is left out: no modelled text contains it.\<close>

definition BAD_MARKERS :: "string list" where
  "BAD_MARKERS = [''REVERTED:'', ''TESTS FAILED'', ''ROLLBACK'', ''VERIFICATION FAILED'', ''IS-ACTIVE: FAILED'', ''FAILED TO START'']"

definition parse_verification_result :: "string \<Rightarrow> string option" where
  "parse_verification_result text = (let upper = py_upper text in
     if list_ex (\<lambda>m. py_contains m upper) GOOD_MARKERS then Some ''good''
     else if list_ex (\<lambda>m. py_contains m upper) BAD_MARKERS then Some ''bad'' else None)"

subsection \<open>Confidence in a domain\<close>

definition CONFIDENCE_THRESHOLD :: int where "CONFIDENCE_THRESHOLD = 65"
definition TIMELINESS_THRESHOLD :: int where "TIMELINESS_THRESHOLD = 35"

definition rated_rows :: "string \<Rightarrow> string \<Rightarrow> 'm proactive_scheme \<Rightarrow> rated_episode list" where
  "rated_rows user dmn s = newest 20 ep_ts (filter (\<lambda>e. ep_user e = user \<and> ep_domain e = dmn
     \<and> ep_ts e > co_wall s - 604800 \<and> ep_outcome e \<in> {''good'', ''bad''}) (pr_episodes s))"

definition evaluate_domain_confidence :: "string \<Rightarrow> string \<Rightarrow> 'm proactive_scheme \<Rightarrow> int" where
  "evaluate_domain_confidence user dmn s = (let rows = rated_rows user dmn s;
       bad_count = length (filter (\<lambda>e. ep_outcome e = ''bad'') rows) in
     if rows = [] then 70
     else if 10 * bad_count > 3 * length rows then 45
     else if 100 * bad_count > 15 * length rows then 60
     else 75)"

subsection \<open>Backoff\<close>

definition BACKOFF_BASE_S :: int where "BACKOFF_BASE_S = 120"
definition BACKOFF_MAX_S :: int where "BACKOFF_MAX_S = 1800"

definition is_proactive_in_backoff :: "string \<Rightarrow> 'm proactive_scheme \<Rightarrow> bool" where
  "is_proactive_in_backoff user s = (case pr_backoff s user of None \<Rightarrow> False | Some b \<Rightarrow> pr_mono s < next_allowed_at b)"

text \<open>\<open>2.0 ** k\<close> is exact below \<open>2\<^sup>1\<^sup>0\<^sup>2\<^sup>4\<close> and raises \<open>OverflowError\<close> from there; a product that overflows is infinite and
  the minimum takes the bound. \<open>jitter\<close> is the random factor in hundredths.\<close>

definition float_power :: "nat \<Rightarrow> exn + int" where
  "float_power k = (if k < 1024 then Inr (2 ^ k) else Inl (ExternalError ''OverflowError''))"

definition record_proactive_failure :: "int \<Rightarrow> string \<Rightarrow> ('m proactive_scheme, unit) act" where
  "record_proactive_failure jitter user = (\<lambda>s.
     let b = (case pr_backoff s user of None \<Rightarrow> \<lparr>consecutive_failures = 0, next_allowed_at = 0\<rparr> | Some b \<Rightarrow> b);
         b1 = b\<lparr>consecutive_failures := consecutive_failures b + 1\<rparr> in
     case float_power (consecutive_failures b1 - 1) of
       Inl e \<Rightarrow> (Inl e, s\<lparr>pr_backoff := (pr_backoff s)(user \<mapsto> b1)\<rparr>)
     | Inr m \<Rightarrow> (Inr (), s\<lparr>pr_backoff := (pr_backoff s)(user \<mapsto>
         b1\<lparr>next_allowed_at := pr_mono s + min (BACKOFF_BASE_S * m) BACKOFF_MAX_S * jitter\<rparr>)\<rparr>))"

definition record_proactive_success :: "string \<Rightarrow> ('m proactive_scheme, unit) act" where
  "record_proactive_success user = act_modify (\<lambda>s. s\<lparr>pr_backoff := (pr_backoff s)(user := None)\<rparr>)"

subsection \<open>Every trigger is computed\<close>

lemma newest_set: "set (newest n key rows) \<subseteq> set rows"
  by (auto simp: newest_def dest: in_set_takeD)

text \<open>C36: on events that only the collector has recorded the detection of a trigger never raises: the metadata of a commit
  always reads back as an object.\<close>

theorem trigger_total:
  assumes "collects\<^sup>*\<^sup>* s s'" "co_events s = []"
  shows "\<exists>t. detect_trigger user s' = Inr t"
proof -
  have "only_rows readable s" by (simp add: only_rows_def assms(2))
  from collected_readable [OF assms(1) this] have r: "\<And>e. e \<in> set (co_events s') \<Longrightarrow> readable e" by (simp add: only_rows_def)
  have "\<exists>t. just_finished e = Inr t" if "e \<in> set (recent_rows user s')" for e
  proof -
    have "e \<in> set (co_events s')" using that newest_set by (fastforce simp: recent_rows_def)
    from r [OF this] show ?thesis by (auto simp: readable_def just_finished_def)
  qed
  then have "\<exists>t. just_finished c = Inr t" if "filter Q (recent_rows user s') = c # cs" for Q c cs
    using that by (metis filter_is_subset list.set_intros(1) subsetD)
  then show ?thesis by (auto simp: detect_trigger_def Let_def split: list.splits)
qed

subsection \<open>Being stuck\<close>

lemma most_common_exact:
  assumes "most_common xs = Some (x, m)"
  shows "x \<in> set xs" "m = count_list xs x" "\<forall>y. count_list xs y \<le> m"
proof -
  have ne: "xs \<noteq> []" using assms by (auto simp: most_common_def)
  let ?M = "Max (set (map (count_list xs) xs))"
  have m: "m = ?M" "x = hd (filter (\<lambda>y. count_list xs y = ?M) xs)" using assms ne by (auto simp: most_common_def Let_def)
  have "?M \<in> set (map (count_list xs) xs)" using ne by (intro Max_in) auto
  then have "filter (\<lambda>y. count_list xs y = ?M) xs \<noteq> []" by (auto simp: filter_empty_conv)
  then have "x \<in> set (filter (\<lambda>y. count_list xs y = ?M) xs)" using m(2) by (metis hd_in_set)
  then show "x \<in> set xs" "m = count_list xs x" using m(1) by auto
  show "\<forall>y. count_list xs y \<le> m"
  proof
    fix y show "count_list xs y \<le> m"
    proof (cases "y \<in> set xs")
      case True
      then show ?thesis unfolding m(1) by (intro Max_ge) auto
    qed (simp add: count_notin)
  qed
qed

lemma count_list_map_filter: "count_list (map f xs) y = length (filter (\<lambda>x. f x = y) xs)"
  by (induction xs) auto

definition writes_of :: "string \<Rightarrow> context_event list \<Rightarrow> nat" where
  "writes_of p rows = length (filter (\<lambda>r. ce_type r = ''file_write'' \<and> event_path r = p) rows)"

lemma recent_rows_window:
  "r \<in> set (recent_rows user s) \<Longrightarrow> ce_user r = user \<and> co_wall s - 1800 \<le> ce_ts r"
  using newest_set unfolding recent_rows_def STUCK_WINDOW_S_def by fastforce

lemma detect_stuck:
  assumes "detect_trigger user s = Inr (Stuck f n since summary hunk)"
  shows "stuck_trigger (co_wall s) (recent_rows user s) = Some (Stuck f n since summary hunk)"
  using assms by (auto simp: detect_trigger_def just_finished_def attention_trigger_def idle_trigger_def Let_def
      split: list.splits option.splits json.splits if_splits)

text \<open>a user is found stuck on a file only when, among the newest 150 events of the last half hour, none is a commit
  and that file has at least five writes and no file has more; the trigger carries their number.\<close>

theorem stuck_exact:
  assumes "detect_trigger user s = Inr (Stuck f n since summary hunk)"
  shows "let rows = recent_rows user s in f \<noteq> [] \<and> n \<ge> 5 \<and> n = writes_of f rows
    \<and> (\<forall>p. p \<noteq> [] \<longrightarrow> writes_of p rows \<le> n) \<and> (\<forall>r \<in> set rows. ce_type r \<noteq> ''git_commit'')
    \<and> (\<forall>r \<in> set rows. ce_user r = user \<and> co_wall s - 1800 \<le> ce_ts r)"
proof -
  let ?rows = "recent_rows user s"
  let ?edits = "filter (\<lambda>r. ce_type r = ''file_write'' \<and> event_path r \<noteq> []) ?rows"
  from detect_stuck [OF assms] have nc: "\<not> list_ex (\<lambda>r. ce_type r = ''git_commit'') ?rows"
    and mc: "most_common (map event_path ?edits) = Some (f, n)" and n5: "n \<ge> 5"
    by (auto simp: stuck_trigger_def Let_def STUCK_MIN_EDITS_def split: if_splits option.splits prod.splits)
  have w: "count_list (map event_path ?edits) p = writes_of p ?rows" if "p \<noteq> []" for p
  proof -
    have "filter (\<lambda>r. event_path r = p) ?edits = filter (\<lambda>r. ce_type r = ''file_write'' \<and> event_path r = p) ?rows"
      unfolding filter_filter using that by (intro filter_cong) auto
    then show ?thesis by (simp add: count_list_map_filter writes_of_def)
  qed
  have "f \<in> event_path ` set ?edits" using most_common_exact(1) [OF mc] by (simp only: set_map)
  then obtain r where r: "f = event_path r" "r \<in> set ?edits" by (rule imageE)
  have f: "f \<noteq> []" using r(2) unfolding r(1) by (simp only: set_filter mem_Collect_eq simp_thms)
  have le: "writes_of p ?rows \<le> n" if "p \<noteq> []" for p using spec [OF most_common_exact(3) [OF mc], of p] unfolding w [OF that] .
  have win: "ce_user r = user \<and> co_wall s - 1800 \<le> ce_ts r" if "r \<in> set ?rows" for r
    by (rule recent_rows_window [OF that])
  have eq: "n = writes_of f ?rows" using most_common_exact(2) [OF mc] unfolding w [OF f] .
  have commits: "ce_type r \<noteq> ''git_commit''" if "r \<in> set ?rows" for r using nc that by (auto simp: list_ex_iff)
  show ?thesis unfolding Let_def using f n5 eq le commits win by blast
qed

text \<open>an idle opportunity is found only between ten and thirty minutes after the newest event: the events read go back
  half an hour, so the bound of an hour never decides.\<close>

theorem idle_within_window:
  assumes "detect_trigger user s = Inr (IdleOpportunity since edits)"
  shows "600 \<le> since \<and> since \<le> 1800 \<and> edits \<ge> 3"
proof -
  let ?rows = "recent_rows user s"
  have ne: "?rows \<noteq> []" using assms by (auto simp: detect_trigger_def Let_def)
  have "idle_trigger (co_wall s) ?rows = IdleOpportunity since edits"
    using assms by (auto simp: detect_trigger_def just_finished_def attention_trigger_def stuck_trigger_def Let_def
      split: list.splits option.splits json.splits if_splits)
  then have i: "since = co_wall s - ce_ts (hd ?rows)" "600 \<le> since" "edits \<ge> 3"
    by (auto simp: idle_trigger_def Let_def IDLE_MIN_S_def split: if_splits)
  have "co_wall s - 1800 \<le> ce_ts (hd ?rows)" using recent_rows_window [OF hd_in_set [OF ne]] by blast
  then show ?thesis using i by simp
qed

subsection \<open>An reply's own report\<close>

lemma contains_more: "py_contains m s \<Longrightarrow> py_contains m (s @ t)"
proof (cases "m = []")
  case False
  assume "py_contains m s"
  then obtain a b where "py_partition m s = Some (a, b)" using False by (auto simp: py_contains_def)
  then have "s @ t = a @ m @ (b @ t)" using py_partition_Some by fastforce
  then show ?thesis using py_contains_append by metis
qed (simp add: py_contains_def)

lemma py_upper_append: "py_upper (s @ t) = py_upper s @ py_upper t"
  by (simp add: py_upper_def)

text \<open>the rating of a contribution is the agent's own report: when its text says \<open>VERIFIED:\<close> anywhere, also as a part of
  \<open>UNVERIFIED:\<close>, the outcome is good, whatever the independent verification appended to it has found.\<close>

theorem self_report_wins:
  assumes "py_contains ''VERIFIED:'' (py_upper reply)"
  shows "parse_verification_result (reply @ verdict_note v @ rest) = Some ''good''"
proof -
  have "py_contains ''VERIFIED:'' (py_upper (reply @ verdict_note v @ rest))"
    unfolding py_upper_append [of reply] by (rule contains_more [OF assms])
  then show ?thesis by (simp add: parse_verification_result_def GOOD_MARKERS_def Let_def)
qed

theorem self_report_wins_witness:
  "parse_verification_result (''UNVERIFIED: the tests fail'' @ verdict_note (verdict (Some False) ''tests'' ''2 failed'') @ []) = Some ''good''"
proof -
  have "py_contains ''VERIFIED:'' (py_upper ''UNVERIFIED: the tests fail'')" by code_simp
  then show ?thesis by (rule self_report_wins)
qed

subsection \<open>Backoff\<close>

definition failures_of :: "string \<Rightarrow> 'm proactive_scheme \<Rightarrow> nat" where
  "failures_of user s = (case pr_backoff s user of None \<Rightarrow> 0 | Some b \<Rightarrow> consecutive_failures b)"

definition fail_at :: "string \<Rightarrow> int \<times> int \<Rightarrow> 'm proactive_scheme \<Rightarrow> 'm proactive_scheme" where
  "fail_at user x s = snd (record_proactive_failure (snd x) user (s\<lparr>pr_mono := fst x\<rparr>))"

lemma fail_at_count [simp]: "failures_of user (fail_at user x s) = Suc (failures_of user s)"
  by (auto simp: failures_of_def fail_at_def record_proactive_failure_def Let_def split: sum.splits option.splits)

lemma fail_run_count: "failures_of user (fold (fail_at user) xs s) = failures_of user s + length xs"
  by (induction xs arbitrary: s) simp_all

text \<open>up to 1024 failures in a row each keeps the user back for the doubled delay, between 102 seconds and 34.5 minutes,
  and a later failure never for less than an earlier one with the same random factor.\<close>

theorem backoff_exact:
  assumes "pr_backoff s user = None" "length xs < 1024"
  shows "let s' = fail_at user (now, jitter) (fold (fail_at user) xs s) in
     (\<forall>t. is_proactive_in_backoff user (s'\<lparr>pr_mono := t\<rparr>) \<longleftrightarrow> t < now + min (120 * 2 ^ length xs) 1800 * jitter)
     \<and> (85 \<le> jitter \<and> jitter \<le> 115 \<longrightarrow> 10200 \<le> min (120 * 2 ^ length xs) 1800 * jitter \<and> min (120 * 2 ^ length xs) 1800 * jitter \<le> 207000)"
proof -
  let ?s = "fold (fail_at user) xs s"
  have n: "failures_of user ?s = length xs" using fail_run_count [of user xs s] assms(1) by (simp add: failures_of_def)
  then have k: "consecutive_failures (case pr_backoff ?s user of None \<Rightarrow> \<lparr>consecutive_failures = 0, next_allowed_at = 0\<rparr> | Some b \<Rightarrow> b) = length xs"
    by (auto simp: failures_of_def split: option.splits)
  have b: "is_proactive_in_backoff user ((fail_at user (now, jitter) ?s)\<lparr>pr_mono := t\<rparr>)
      \<longleftrightarrow> t < now + min (120 * 2 ^ length xs) 1800 * jitter" for t
    using k assms(2) by (simp add: fail_at_def record_proactive_failure_def float_power_def is_proactive_in_backoff_def
        BACKOFF_BASE_S_def BACKOFF_MAX_S_def Let_def)
  have m: "120 \<le> min (120 * 2 ^ length xs) (1800::int)" "min (120 * 2 ^ length xs) (1800::int) \<le> 1800" by simp_all
  show ?thesis unfolding Let_def
  proof (intro conjI allI impI)
    show "is_proactive_in_backoff user ((fail_at user (now, jitter) ?s)\<lparr>pr_mono := t\<rparr>)
      \<longleftrightarrow> t < now + min (120 * 2 ^ length xs) 1800 * jitter" for t by (rule b)
    assume j: "85 \<le> jitter \<and> jitter \<le> 115"
    show "10200 \<le> min (120 * 2 ^ length xs) 1800 * jitter" using mult_mono [OF m(1), of 85 jitter] j by simp
    show "min (120 * 2 ^ length xs) 1800 * jitter \<le> 207000" using mult_mono [OF m(2), of jitter 115] j by simp
  qed
qed

text \<open>from the 1025th failure in a row on the computation of the delay overflows: the failure raises, and the user is
  not kept back at all.\<close>

theorem backoff_overflows:
  assumes "pr_backoff s user = None" "length xs \<ge> 1024" "\<not> is_proactive_in_backoff user ((fold (fail_at user) xs s)\<lparr>pr_mono := now\<rparr>)"
  shows "let (r, s') = record_proactive_failure jitter user ((fold (fail_at user) xs s)\<lparr>pr_mono := now\<rparr>)
     in r = Inl (ExternalError ''OverflowError'') \<and> \<not> is_proactive_in_backoff user s'"
proof -
  let ?s = "fold (fail_at user) xs s"
  have n: "failures_of user ?s = length xs" using fail_run_count [of user xs s] assms(1) by (simp add: failures_of_def)
  then obtain b where b: "pr_backoff ?s user = Some b" "consecutive_failures b = length xs"
    using assms(2) by (auto simp: failures_of_def split: option.splits)
  show ?thesis using assms(2,3) b
    by (simp add: record_proactive_failure_def float_power_def is_proactive_in_backoff_def Let_def)
qed

subsection \<open>Witnesses\<close>

definition fresh_proactive :: "string list \<Rightarrow> proactive" where
  "fresh_proactive us = \<lparr>files = (\<lambda>_. None), io_fault = (\<lambda>_. False), co_users = us, co_events = [], co_sessions = [],
     co_intents = [], co_artifacts = [], co_watched = [], co_edit_times = (\<lambda>_. None), co_last_commit = (\<lambda>_. None),
     co_last_diff = (\<lambda>_. None), co_active = (\<lambda>_. None), co_watches = [], co_observer = None, co_wall = 0,
     pr_calendar = [], pr_credentials = [], pr_episodes = [], pr_artifacts = [], pr_inferences = [], pr_memories = [],
     pr_agents = [], pr_current_project = (\<lambda>_. None), pr_workdirs = (\<lambda>_. None), pr_levels = (\<lambda>_ _. 0),
     pr_backoff = (\<lambda>_. None), pr_mono = 0, pr_calls = 0\<rparr>"

theorem trigger_total_witness:
  "\<exists>t. detect_trigger ''u'' (snd (record_intent_event ''u'' ''p'' ''hello'' (fresh_proactive [''u'']))) = Inr t"
proof (rule trigger_total [OF r_into_rtranclp])
  show "collects (fresh_proactive [''u'']) (snd (record_intent_event ''u'' ''p'' ''hello'' (fresh_proactive [''u''])))"
    by (rule collects.intros)
  show "co_events (fresh_proactive [''u'']) = []" by (simp add: fresh_proactive_def)
qed

text \<open>Five writes of one file.\<close>

definition busy_user :: proactive where
  "busy_user = (fresh_proactive [''u''])\<lparr>co_wall := 1000, co_events := map (\<lambda>t. context_row t ''u'' ''file_write'' (Some ''/srv/a.py'') [])
     [100, 200, 300, 400, 500]\<rparr>"

lemma busy_user_stuck: "detect_trigger ''u'' busy_user = Inr (Stuck ''/srv/a.py'' 5 900 (JStr []) (JStr []))"
  by code_simp

theorem stuck_exact_witness: "writes_of ''/srv/a.py'' (recent_rows ''u'' busy_user) = 5"
  using stuck_exact [OF busy_user_stuck] by (simp add: Let_def)

definition quiet_user :: proactive where
  "quiet_user = (fresh_proactive [''u''])\<lparr>co_wall := 1500, co_events := map (\<lambda>t. context_row t ''u'' ''file_write'' (Some ''/srv/a.py'') [])
     [100, 200, 300]\<rparr>"

theorem idle_within_window_witness: "detect_trigger ''u'' quiet_user = Inr (IdleOpportunity 1200 3) \<and> (1200::int) \<le> 1800"
proof -
  have t: "detect_trigger ''u'' quiet_user = Inr (IdleOpportunity 1200 3)" by code_simp
  then show ?thesis using idle_within_window [OF t] by simp
qed

theorem backoff_exact_witness:
  "is_proactive_in_backoff ''u'' ((fail_at ''u'' (5000, 100) (fold (fail_at ''u'') [(0, 100), (20000, 100)] (fresh_proactive [''u''])))\<lparr>pr_mono := 52999\<rparr>)"
  using backoff_exact [of "fresh_proactive [''u'']" "''u''" "[(0, 100), (20000, 100)]" 5000 100]
  by (simp add: fresh_proactive_def Let_def)

theorem backoff_overflows_witness:
  "let (r, s') = record_proactive_failure 100 ''u'' ((fold (fail_at ''u'') (replicate 1024 (0, 100)) (fresh_proactive [''u'']))\<lparr>pr_mono := 300000\<rparr>)
   in r = Inl (ExternalError ''OverflowError'') \<and> \<not> is_proactive_in_backoff ''u'' s'"
proof (rule backoff_overflows)
  show "pr_backoff (fresh_proactive [''u'']) ''u'' = None" by (simp add: fresh_proactive_def)
  have "replicate 1024 (0::int, 100::int) = replicate 1023 (0, 100) @ [(0, 100)]"
    using replicate_append_same [of 1023 "(0::int, 100::int)"] by (metis Suc_eq_plus1 numeral_plus_one replicate_Suc semiring_norm(2) semiring_norm(5) semiring_norm(8))
  then have "fold (fail_at ''u'') (replicate 1024 (0, 100)) (fresh_proactive [''u''])
      = fail_at ''u'' (0, 100) (fold (fail_at ''u'') (replicate 1023 (0, 100)) (fresh_proactive [''u'']))" by simp
  moreover have "\<not> is_proactive_in_backoff ''u'' ((fail_at ''u'' (0, 100) (fold (fail_at ''u'') (replicate 1023 (0, 100)) (fresh_proactive [''u''])))\<lparr>pr_mono := 300000\<rparr>)"
    using backoff_exact [of "fresh_proactive [''u'']" "''u''" "replicate 1023 (0, 100)" 0 100]
    by (simp add: fresh_proactive_def Let_def)
  ultimately show "\<not> is_proactive_in_backoff ''u'' ((fold (fail_at ''u'') (replicate 1024 (0, 100)) (fresh_proactive [''u'']))\<lparr>pr_mono := 300000\<rparr>)" by simp
qed simp

end
