(* ===== verification/Proactive_Agent.thy ===== *)
theory Proactive_Agent
  imports Proactive_Triggers Audit_Chain
begin

text \<open>
  A run of the proactive agent and the scan that starts runs (\<open>_run_proactive_agent\<close>, \<open>_scan_once\<close> and their helpers in
  \<open>anima/scheduler/proactive.py\<close>). What the model, the tests of a repository, the inference of an intent, the timing
  model and the writer of artifacts answer are parameters: \<open>pe_agent n\<close> is the result of \<open>_run_proactive_loop\<close> in the
  \<open>n\<close>th run, whose own end is modelled in \<open>Auto_Apply\<close>. The prompt of a run, the statuses of its rows, the log of its
  tool calls and the push message are not modelled, and the clock stands still during a run. The runs of one scan are
  concurrent tasks of different users; here
  they follow each other in the order of their creation. A dash that is not Latin-1 is \<open>-\<close> here.
\<close>

subsection \<open>Parameters\<close>

record inferred_intent =
  ii_goal :: string
  ii_domain :: string
  ii_confidence :: int
  ii_source :: string
  ii_actions :: "string list"

record timing_result =
  fallback_mode :: bool
  timeliness_score :: int

record 'w run_env =
  pe_git :: "'w query"
  pe_mtime :: "string \<Rightarrow> 'w \<Rightarrow> int option"
  pe_tests :: "string \<Rightarrow> 'w \<Rightarrow> exn + string"
  pe_infer :: "string \<Rightarrow> 'w \<Rightarrow> exn + inferred_intent"
  pe_timing :: "string \<Rightarrow> string \<Rightarrow> 'w \<Rightarrow> exn + timing_result"
  pe_agent :: "nat \<Rightarrow> string option"
  pe_manifest :: "nat \<Rightarrow> exn + string"
  pe_complete :: "string \<Rightarrow> string \<Rightarrow> exn + string"
  pe_manifest_fix :: "string \<Rightarrow> string \<Rightarrow> exn + string"
  pe_jitter :: "nat \<Rightarrow> int"

definition RAWOS_ENTITY_PROJECT_ID :: string where
  "RAWOS_ENTITY_PROJECT_ID = ''51c880d3-3576-4aca-8616-74cb51a6f727''"

subsection \<open>Rows\<close>

definition integrity_error :: exn where "integrity_error = SqlIntegrityError"

text \<open>The identifier of a row is its position.\<close>

definition log_inference ::
    "string \<Rightarrow> inferred_intent \<Rightarrow> ('m proactive_scheme, nat) act" where
  "log_inference user i = (\<lambda>s. if user \<notin> set (co_users s) then (Inl integrity_error, s)
     else (Inr (length (pr_inferences s)), s\<lparr>pr_inferences := pr_inferences s @ [\<lparr>in_user = user, in_goal = take 500 (ii_goal i),
       in_domain = take 64 (ii_domain i), in_confidence = ii_confidence i, in_source = take 16 (ii_source i), in_artifact = None\<rparr>]\<rparr>))"

definition link_inference_to_artifact :: "nat \<Rightarrow> nat \<Rightarrow> ('m proactive_scheme, unit) act" where
  "link_inference_to_artifact i a = act_modify (\<lambda>s. s\<lparr>pr_inferences :=
     (if i < length (pr_inferences s) then (pr_inferences s)[i := (pr_inferences s ! i)\<lparr>in_artifact := Some a\<rparr>] else pr_inferences s)\<rparr>)"

definition log_rated_episode ::
    "string \<Rightarrow> string \<Rightarrow> string \<Rightarrow> string \<Rightarrow> string \<Rightarrow> string \<Rightarrow> string \<Rightarrow> int \<Rightarrow> ('m proactive_scheme, nat option) act" where
  "log_rated_episode user ttype dmn goal decision summary repo conf = (\<lambda>s.
     if user \<notin> set (co_users s) \<or> decision \<notin> {''contribute'', ''signal'', ''silence''} then (Inr None, s)
     else (Inr (Some (length (pr_episodes s))), s\<lparr>pr_episodes := pr_episodes s @ [\<lparr>ep_user = user, ep_trigger = ttype, ep_domain = dmn,
       ep_ts = co_wall s, ep_goal = goal, ep_decision = decision, ep_summary = summary, ep_repo_root = repo, ep_confidence = conf,
       ep_outcome = ''unrated''\<rparr>]\<rparr>))"

definition update_episodic_outcome :: "nat \<Rightarrow> string \<Rightarrow> ('m proactive_scheme, unit) act" where
  "update_episodic_outcome i out = act_modify (\<lambda>s. s\<lparr>pr_episodes :=
     (if i < length (pr_episodes s) then (pr_episodes s)[i := (pr_episodes s ! i)\<lparr>ep_outcome := out\<rparr>] else pr_episodes s)\<rparr>)"

definition add_artifact ::
    "string \<Rightarrow> string \<Rightarrow> int \<Rightarrow> string \<Rightarrow> string \<Rightarrow> string \<Rightarrow> ('m proactive_scheme, nat) act" where
  "add_artifact user goal conf path kind key = (\<lambda>s. (Inr (length (pr_artifacts s)), s\<lparr>pr_artifacts := pr_artifacts s @
     [\<lparr>pa_user = user, pa_goal = goal, pa_confidence = conf, pa_path = path, pa_action_type = kind, pa_cooldown_key = key,
       pa_created_at = co_wall s\<rparr>]\<rparr>))"

definition save_memory :: "string \<Rightarrow> string \<Rightarrow> string \<Rightarrow> ('m proactive_scheme, unit) act" where
  "save_memory user project txt = act_modify (\<lambda>s. s\<lparr>pr_memories := pr_memories s @ [\<lparr>mm_user = user, mm_project = project, mm_text = txt\<rparr>]\<rparr>)"

text \<open>The task that rates a contribution by the tests; it is not awaited and here follows the run at once.\<close>

definition post_commit_self_rate :: "'m proactive_scheme run_env \<Rightarrow> nat \<Rightarrow> string \<Rightarrow> ('m proactive_scheme, unit) act" where
  "post_commit_self_rate E i wd = (\<lambda>s. case pe_tests E wd s of
       Inl e \<Rightarrow> (Inr (), s)
     | Inr [] \<Rightarrow> (Inr (), s)
     | Inr out \<Rightarrow> update_episodic_outcome i (if out = ''all tests passed'' then ''good'' else ''bad'') s)"

subsection \<open>The probe of the entity\<close>

record probe =
  po_workdir :: string
  po_commits :: string
  po_diff_stat :: string
  po_test_output :: string
  po_failures :: bool

definition probe_repo_for_issues :: "'m proactive_scheme run_env \<Rightarrow> string \<Rightarrow> 'm proactive_scheme \<Rightarrow> exn + probe" where
  "probe_repo_for_issues E wd s = (case pe_tests E wd s of
       Inl e \<Rightarrow> Inl e
     | Inr test_out \<Rightarrow> Inr \<lparr>po_workdir = wd,
         po_commits = (case pe_git E [''git'', ''-C'', wd, ''log'', ''--oneline'', ''-10''] s of Inl e \<Rightarrow> [] | Inr p \<Rightarrow> py_strip (stdout p)),
         po_diff_stat = (case pe_git E [''git'', ''-C'', wd, ''diff'', ''HEAD~1..HEAD'', ''--stat''] s of
             Inl e \<Rightarrow> [] | Inr p \<Rightarrow> take 400 (py_strip (stdout p))),
         po_test_output = (if test_out = ''all tests passed'' then test_out else take 800 test_out),
         po_failures = (test_out \<noteq> [] \<and> test_out \<noteq> ''all tests passed'')\<rparr>)"

definition select_entity_probe_target :: "'m proactive_scheme run_env \<Rightarrow> string \<Rightarrow> 'm proactive_scheme \<Rightarrow> exn + probe option" where
  "select_entity_probe_target E user s =
     (let last_commit = (\<lambda>p. case pe_mtime E (path_div (path_div p ''.git'') ''COMMIT_EDITMSG'') s of None \<Rightarrow> 0 | Some t \<Rightarrow> t);
          candidates = sort_key (\<lambda>p. - last_commit p)
            (filter (\<lambda>p. p \<noteq> ''/root/rawos'') (map wp_path (filter (\<lambda>w. wp_user w = user) (co_watched s)))) in
      case filter (\<lambda>p. last_commit p > co_wall s - 604800) candidates of
        [] \<Rightarrow> Inr None
      | p # _ \<Rightarrow> (case probe_repo_for_issues E p s of Inl e \<Rightarrow> Inl e
          | Inr pr \<Rightarrow> Inr (if po_commits pr \<noteq> [] then Some pr else None)))"

subsection \<open>A complete corrected file\<close>

definition CODE_FIX_MAX_FILE_BYTES :: nat where "CODE_FIX_MAX_FILE_BYTES = 60000"

definition CODE_FIX_SYSTEM_PROMPT :: string where
  "CODE_FIX_SYSTEM_PROMPT = ''You are Anima, a silent AI that generates corrected source files. A user is stuck on a file. You have the full file and a problem analysis. OUTPUT ONLY the complete corrected file content - no markdown fences, no prose, no backticks, no explanation before or after. Start with the very first line of the corrected file. Make the minimum correct change to resolve the issue.''"

text \<open>The hunk comes from a text column: a JSON value that is not a string does not occur.\<close>

definition json_text :: "json \<Rightarrow> string" where
  "json_text j = (case j of JStr t \<Rightarrow> t | _ \<Rightarrow> [])"

definition shown_file :: "string \<Rightarrow> string \<Rightarrow> string" where
  "shown_file raw hunk = (if length raw > CODE_FIX_MAX_FILE_BYTES
     then ''[File too large ('' @ show_nat (length raw) @ '' bytes). Relevant diff excerpt:'' @ eol @ hunk @ eol @ '']''
     else universal_newlines (utf8_decode raw))"

definition generate_code_fix ::
    "'m proactive_scheme run_env \<Rightarrow> string \<Rightarrow> inferred_intent \<Rightarrow> trigger \<Rightarrow> string \<Rightarrow> ('m proactive_scheme, unit) act" where
  "generate_code_fix E user i t analysis = (\<lambda>s. case t of
       Stuck target n since summary hunk \<Rightarrow>
         if target = [] \<or> \<not> fs_exists target s then (Inr (), s)
         else (case fst (fs_read target s) of
             Inl e \<Rightarrow> (Inr (), s)
           | Inr raw \<Rightarrow>
             (case pe_complete E CODE_FIX_SYSTEM_PROMPT (''File: '' @ target @ eol @ eol @ ''Analysis of the problem:'' @ eol @ analysis
                 @ eol @ eol @ ''Diff of recent changes:'' @ eol @ json_text hunk @ eol @ eol @ ''Current file content:'' @ eol
                 @ shown_file raw (json_text hunk) @ eol @ eol @ ''Write the COMPLETE corrected file. Start with the first line.'') of
               Inl e \<Rightarrow> (Inr (), s)
             | Inr txt \<Rightarrow> (let corrected = strip_code_fences (py_strip txt) in
                 if length corrected < 50 then (Inr (), s)
                 else (case pe_manifest_fix E target corrected of
                     Inl e \<Rightarrow> (Inr (), s)
                   | Inr path \<Rightarrow> act_then (add_artifact user (ii_goal i) (ii_confidence i) path ''draft'' []) (act_return ()) s))))
     | _ \<Rightarrow> (Inr (), s))"

subsection \<open>A run\<close>

definition first_word :: "string \<Rightarrow> string" where
  "first_word t = (case py_words t of [] \<Rightarrow> ''SILENCE'' | w # _ \<Rightarrow> py_upper w)"

definition decision_of :: "string \<Rightarrow> string" where
  "decision_of t = (let w = first_word t in if w \<in> {''CONTRIBUTE'', ''SIGNAL'', ''SILENCE''} then w else ''SILENCE'')"

definition run_message :: "inferred_intent \<Rightarrow> string" where
  "run_message i = ''[Proactive analysis - '' @ ii_domain i @ '']'' @ eol @ ''User goal inferred: '' @ ii_goal i @ eol @ eol
     @ ''Without waiting to be asked, perform: ''
     @ (if ii_actions i = [] then ''analyze and summarize'' else py_join ''; '' (ii_actions i))
     @ ''. Be precise and actionable. Write findings as structured analysis.''"

definition type_name :: "trigger \<Rightarrow> string" where
  "type_name t = (case trigger_type t of None \<Rightarrow> [] | Some k \<Rightarrow> k)"

definition lower_decision :: "string \<Rightarrow> string" where "lower_decision = py_lower"

text \<open>What follows an answer that decides to contribute.\<close>

definition after_contribution ::
    "'m proactive_scheme run_env \<Rightarrow> string \<Rightarrow> string \<Rightarrow> string \<Rightarrow> string \<Rightarrow> nat option \<Rightarrow> ('m proactive_scheme, unit) act" where
  "after_contribution E user project wd txt episode = act_then (save_memory user project txt)
     (case (parse_verification_result txt, episode) of
        (Some out, Some i) \<Rightarrow> update_episodic_outcome i out
      | (None, Some i) \<Rightarrow> if wd \<noteq> [] then post_commit_self_rate E i wd else act_return ()
      | _ \<Rightarrow> act_return ())"

text \<open>What follows an answer that decides to signal; every exception is caught.\<close>

definition after_signal ::
    "'m proactive_scheme run_env \<Rightarrow> string \<Rightarrow> string \<Rightarrow> inferred_intent \<Rightarrow> trigger \<Rightarrow> string \<Rightarrow> string \<Rightarrow> nat \<Rightarrow> ('m proactive_scheme, unit) act" where
  "after_signal E user project i t key txt inference = act_then (save_memory user project txt)
     (act_catch (\<lambda>s. case pe_manifest E (pr_calls s) of
          Inl e \<Rightarrow> (Inl e, s)
        | Inr path \<Rightarrow> act_bind (add_artifact user (ii_goal i) (ii_confidence i) path
              (case t of NeedsAttention e \<Rightarrow> ''attention'' | _ \<Rightarrow> ''analysis'') key) (\<lambda>pa.
            act_then (link_inference_to_artifact inference pa)
            (act_then (increment_anima_action user)
              (if trigger_type t = Some ''STUCK'' \<and> pr_levels s user ''analysis'' \<ge> 1
               then generate_code_fix E user i t txt else act_return ()))) s)
       (\<lambda>e. act_return ()))"

definition after_answer ::
    "'m proactive_scheme run_env \<Rightarrow> string \<Rightarrow> string \<Rightarrow> string \<Rightarrow> inferred_intent \<Rightarrow> trigger \<Rightarrow> nat \<Rightarrow> string \<Rightarrow> ('m proactive_scheme, unit) act" where
  "after_answer E user project wd i t inference txt =
     (if length txt < 80 then act_return ()
      else let decision = decision_of txt; conf = parse_confidence txt; key = compute_cooldown_key t (ii_domain i) in
        act_bind (log_rated_episode user (type_name t) (ii_domain i) (ii_goal i) (lower_decision decision)
            (if decision \<noteq> ''SILENCE'' then take 500 txt else []) wd conf) (\<lambda>episode.
          if decision = ''SILENCE'' then act_then (add_artifact user (ii_goal i) conf [] ''silence'' key) (act_return ())
          else if decision = ''CONTRIBUTE'' \<and> conf < CONFIDENCE_THRESHOLD then act_return ()
          else if decision = ''CONTRIBUTE'' then after_contribution E user project wd txt episode
          else after_signal E user project i t key txt inference))"

definition ask_agent ::
    "'m proactive_scheme run_env \<Rightarrow> string \<Rightarrow> string \<Rightarrow> string \<Rightarrow> inferred_intent \<Rightarrow> trigger \<Rightarrow> nat \<Rightarrow> ('m proactive_scheme, unit) act" where
  "ask_agent E user project wd i t inference = (\<lambda>s.
     let s1 = s\<lparr>co_intents := co_intents s @ [\<lparr>si_user = user, si_project = project, si_text = run_message i, si_created = co_wall s\<rparr>],
         pr_agents := pr_agents s @ [(user, ''[proactive] '' @ take 180 (ii_goal i))], pr_calls := pr_calls s + 1\<rparr> in
     case pe_agent E (pr_calls s) of
       None \<Rightarrow> record_proactive_failure (pe_jitter E (pr_calls s)) user s1
     | Some txt \<Rightarrow> act_then (record_proactive_success user) (after_answer E user project wd i t inference txt) s1)"

definition has_hunk :: "trigger \<Rightarrow> bool" where
  "has_hunk t = (case t of Stuck f n since summary hunk \<Rightarrow> json_true hunk | _ \<Rightarrow> False)"

definition probes_first :: "string \<Rightarrow> trigger \<Rightarrow> bool" where
  "probes_first user t \<longleftrightarrow> user = RAWOS_ENTITY_USER_ID \<and> type_name t \<notin> {''SERVER_SCAN'', ''NEEDS_ATTENTION''} \<and> \<not> has_hunk t"

text \<open>From the evaluation of the domain on: suppression, the probe of the entity, and the agent.\<close>

definition start_run ::
    "'m proactive_scheme run_env \<Rightarrow> string \<Rightarrow> inferred_intent \<Rightarrow> trigger \<Rightarrow> nat \<Rightarrow> string \<Rightarrow> string \<Rightarrow> ('m proactive_scheme, unit) act" where
  "start_run E user i t inference project wd = (\<lambda>s.
     if evaluate_domain_confidence user (ii_domain i) s < CONFIDENCE_THRESHOLD
     then act_then (log_rated_episode user (type_name t) (ii_domain i) (ii_goal i) ''silence''
       (''self-suppressed: domain_confidence=0.'' @ show_int (evaluate_domain_confidence user (ii_domain i) s)) wd 0) (act_return ()) s
     else if probes_first user t then
       (case select_entity_probe_target E user s of
          Inl e \<Rightarrow> (Inl e, s)
        | Inr None \<Rightarrow> act_then (log_rated_episode user (type_name t) (ii_domain i) (ii_goal i) ''silence''
            ''entity-probe: no watched repo with recent activity'' [] 0) (act_return ()) s
        | Inr (Some pr) \<Rightarrow> ask_agent E user project (po_workdir pr) i t inference s)
     else ask_agent E user project wd i t inference s)"

definition run_project :: "string \<Rightarrow> string option \<Rightarrow> 'm proactive_scheme \<Rightarrow> string option \<times> string option" where
  "run_project user workdir_override s = (case get_user_project user s of (project, wd) \<Rightarrow>
     (if project = None \<and> user = RAWOS_ENTITY_USER_ID then Some RAWOS_ENTITY_PROJECT_ID else project,
      if workdir_override = None \<or> workdir_override = Some [] then wd else workdir_override))"

definition run_proactive_agent ::
    "'m proactive_scheme run_env \<Rightarrow> string \<Rightarrow> inferred_intent \<Rightarrow> trigger \<Rightarrow> string option \<Rightarrow> ('m proactive_scheme, unit) act" where
  "run_proactive_agent E user i t workdir_override = (\<lambda>s. act_bind (log_inference user i) (\<lambda>inference.
     case run_project user workdir_override s of
       (Some project, Some wd) \<Rightarrow> if wd = [] then act_return () else start_run E user i t inference project wd
     | _ \<Rightarrow> act_return ()) s)"

subsection \<open>A scan\<close>

definition SCAN_WINDOW_S :: int where "SCAN_WINDOW_S = 7200"

text \<open>The loop body up to the creation of the task; \<open>None\<close> is a \<open>continue\<close>.\<close>

definition passes_gate ::
    "'m proactive_scheme run_env \<Rightarrow> string \<Rightarrow> inferred_intent \<Rightarrow> trigger \<Rightarrow> 'm proactive_scheme \<Rightarrow> exn + bool" where
  "passes_gate E user i t s = (let ty = type_name t in
     if ty = ''JUST_FINISHED'' \<or> ty = ''NEEDS_ATTENTION'' then Inr True
     else if ty = ''STUCK'' \<or> ty = ''IDLE_OPPORTUNITY'' then Inr (\<not> ii_confidence i < CONFIDENCE_THRESHOLD)
     else if ii_confidence i < CONFIDENCE_THRESHOLD then Inr False
     else (case pe_timing E user (ii_domain i) s of Inl e \<Rightarrow> Inl e
       | Inr r \<Rightarrow> Inr (fallback_mode r \<or> \<not> timeliness_score r < TIMELINESS_THRESHOLD)))"

definition decide_user ::
    "'m proactive_scheme run_env \<Rightarrow> string \<Rightarrow> 'm proactive_scheme \<Rightarrow> exn + (inferred_intent \<times> trigger) option" where
  "decide_user E user s = (case detect_trigger user s of Inl e \<Rightarrow> Inl e
     | Inr t \<Rightarrow> (case pe_infer E user s of Inl e \<Rightarrow> Inl e
       | Inr i \<Rightarrow> if ii_goal i = [] then Inr None
         else (case passes_gate E user i t s of Inl e \<Rightarrow> Inl e
           | Inr False \<Rightarrow> Inr None
           | Inr True \<Rightarrow> if is_goal_on_cooldown user (compute_cooldown_key t (ii_domain i)) s then Inr None
               else if is_proactive_in_backoff user s then Inr None else Inr (Some (i, t)))))"

type_synonym task = "string \<times> inferred_intent \<times> trigger"

fun decide_users ::
    "'m proactive_scheme run_env \<Rightarrow> string list \<Rightarrow> 'm proactive_scheme \<Rightarrow> task list \<times> exn option" where
  "decide_users E [] s = ([], None)"
| "decide_users E (u # us) s = (case decide_user E u s of Inl e \<Rightarrow> ([], Some e)
     | Inr None \<Rightarrow> decide_users E us s
     | Inr (Some (i, t)) \<Rightarrow> (case decide_users E us s of (ts, err) \<Rightarrow> ((u, i, t) # ts, err)))"

fun run_tasks :: "'m proactive_scheme run_env \<Rightarrow> task list \<Rightarrow> 'm proactive_scheme \<Rightarrow> 'm proactive_scheme" where
  "run_tasks E [] s = s"
| "run_tasks E ((u, i, t) # ts) s = run_tasks E ts (snd (run_proactive_agent E u i t None s))"

definition scan_once :: "'m proactive_scheme run_env \<Rightarrow> ('m proactive_scheme, unit) act" where
  "scan_once E = (\<lambda>s. case decide_users E (active_users SCAN_WINDOW_S s) s of (tasks, err) \<Rightarrow>
     (case err of None \<Rightarrow> Inr () | Some e \<Rightarrow> Inl e, run_tasks E tasks s))"

text \<open>The loop: before each scan the clocks have moved to the given times; every exception of a scan is logged.\<close>

definition scan_round :: "'m proactive_scheme run_env \<Rightarrow> int \<times> int \<Rightarrow> 'm proactive_scheme \<Rightarrow> 'm proactive_scheme" where
  "scan_round E x s = snd (scan_once E (s\<lparr>co_wall := fst x, pr_mono := snd x\<rparr>))"

definition proactive_scan_loop :: "'m proactive_scheme run_env \<Rightarrow> (int \<times> int) list \<Rightarrow> 'm proactive_scheme \<Rightarrow> 'm proactive_scheme" where
  "proactive_scan_loop E xs s = fold (scan_round E) xs s"

subsection \<open>What a run may change\<close>

text \<open>Compared with an earlier state: the clocks, the events, the calendar and the users are the same, rows were only added,
  all of them rows of one user, and no other backoff changed.\<close>

definition adds :: "string \<Rightarrow> 'm proactive_scheme \<Rightarrow> 'm proactive_scheme \<Rightarrow> bool" where
  "adds user s s' \<longleftrightarrow> co_wall s' = co_wall s \<and> pr_mono s' = pr_mono s \<and> co_events s' = co_events s \<and> co_users s' = co_users s
     \<and> pr_calendar s' = pr_calendar s \<and> pr_credentials s' = pr_credentials s
     \<and> (\<exists>as. pr_artifacts s' = pr_artifacts s @ as \<and> (\<forall>a \<in> set as. pa_user a = user))
     \<and> (\<exists>es. pr_episodes s' = pr_episodes s @ es \<and> (\<forall>e \<in> set es. ep_user e = user))
     \<and> (\<exists>js. co_intents s' = co_intents s @ js)
     \<and> (\<forall>v. v \<noteq> user \<longrightarrow> pr_backoff s' v = pr_backoff s v)"

lemma adds_refl [simp]: "adds user s s"
  by (simp add: adds_def)

lemma addsD:
  assumes "adds user s s'"
  shows "co_wall s' = co_wall s" "pr_mono s' = pr_mono s" "co_events s' = co_events s" "co_users s' = co_users s"
    "pr_calendar s' = pr_calendar s" "pr_credentials s' = pr_credentials s" "\<And>v. v \<noteq> user \<Longrightarrow> pr_backoff s' v = pr_backoff s v"
  using assms by (simp_all add: adds_def)

lemma adds_same:
  assumes "adds user s s1" "co_wall s' = co_wall s1" "pr_mono s' = pr_mono s1" "co_events s' = co_events s1" "co_users s' = co_users s1"
    "pr_calendar s' = pr_calendar s1" "pr_credentials s' = pr_credentials s1" "pr_artifacts s' = pr_artifacts s1"
    "pr_episodes s' = pr_episodes s1" "co_intents s' = co_intents s1" "\<And>v. v \<noteq> user \<Longrightarrow> pr_backoff s' v = pr_backoff s1 v"
  shows "adds user s s'"
  using assms unfolding adds_def by auto

lemma kept_adds_success: "kept (adds user s) (record_proactive_success user)"
  by (auto simp: kept_def record_proactive_success_def intro: adds_same)

lemma kept_adds_failure: "kept (adds user s) (record_proactive_failure j user)"
  by (auto simp: kept_def adds_def record_proactive_failure_def Let_def split: sum.splits)

lemma kept_adds_memory: "kept (adds user s) (save_memory u p t)"
  by (auto simp: kept_def save_memory_def intro: adds_same)

lemma kept_adds_link: "kept (adds user s) (link_inference_to_artifact i a)"
  by (auto simp: kept_def link_inference_to_artifact_def intro: adds_same)

lemma kept_adds_inference: "kept (adds user s) (log_inference u i)"
  by (auto simp: kept_def log_inference_def intro: adds_same)

lemma kept_adds_action: "kept (adds user s) (increment_anima_action u)"
  by (auto simp: kept_def increment_anima_action_def increment_statement_def act_catch_apply split: option.splits)

lemma kept_adds_artifact: "kept (adds user s) (add_artifact user g c p k key)"
proof (rule keptI)
  fix s1 r s' assume "adds user s s1" "add_artifact user g c p k key s1 = (r, s')"
  then show "adds user s s'" by (auto simp: adds_def add_artifact_def)
qed

lemma kept_adds_episode: "kept (adds user s) (log_rated_episode user ty d g dec sm repo c)"
proof (rule keptI)
  fix s1 r s' assume "adds user s s1" "log_rated_episode user ty d g dec sm repo c s1 = (r, s')"
  then show "adds user s s'" by (auto simp: adds_def log_rated_episode_def split: if_splits)
qed

lemma log_returns: "\<exists>x s'. log_rated_episode user ty d g dec sm repo c s = (Inr x, s')"
proof -
  let ?l = "log_rated_episode user ty d g dec sm repo c s"
  have "?l = (Inr (projr (fst ?l)), snd ?l)" by (simp add: log_rated_episode_def)
  then show ?thesis by blast
qed

lemma kept_adds_outcome:
  assumes "length (pr_episodes s) \<le> i"
  shows "kept (adds user s) (update_episodic_outcome i out)"
proof (rule keptI)
  fix s1 r s' assume a: "adds user s s1" and run: "update_episodic_outcome i out s1 = (r, s')"
  obtain es where es: "pr_episodes s1 = pr_episodes s @ es" "\<forall>e \<in> set es. ep_user e = user" using a by (auto simp: adds_def)
  let ?n = "length (pr_episodes s)"
  let ?es = "if i < ?n + length es then es[i - ?n := (es ! (i - ?n))\<lparr>ep_outcome := out\<rparr>] else es"
  have "pr_episodes s' = pr_episodes s @ ?es"
    using run es(1) assms by (auto simp: update_episodic_outcome_def list_update_append nth_append)
  moreover have "\<forall>e \<in> set ?es. ep_user e = user"
  proof (cases "i < ?n + length es")
    case True
    then have "es ! (i - ?n) \<in> set es" using assms by (intro nth_mem) simp
    then show ?thesis using True es(2) by (auto dest!: set_update_subset_insert [THEN subsetD])
  qed (simp add: es(2))
  ultimately show "adds user s s'" using a run unfolding adds_def by (auto simp: update_episodic_outcome_def)
qed

lemma kept_adds_rate:
  assumes "length (pr_episodes s) \<le> i"
  shows "kept (adds user s) (post_commit_self_rate E i wd)"
proof (rule keptI)
  fix s1 r s' assume a: "adds user s s1" and run: "post_commit_self_rate E i wd s1 = (r, s')"
  show "adds user s s'" using run a keptD [OF kept_adds_outcome [OF assms] a]
    unfolding post_commit_self_rate_def by (auto split: sum.splits list.splits)
qed

lemma kept_adds_code_fix: "kept (adds user s) (generate_code_fix E user i t txt)"
proof (rule keptI)
  fix s1 r s' assume a: "adds user s s1" and run: "generate_code_fix E user i t txt s1 = (r, s')"
  have "kept (adds user s) (act_then (add_artifact user g c p k key) (act_return ()))" for g c p k key
    by (rule kept_then [OF kept_adds_artifact kept_return])
  from keptD [OF this a] show "adds user s s'" using run a
    unfolding generate_code_fix_def by (auto simp: Let_def split: trigger.splits sum.splits if_splits)
qed

lemmas kept_adds = kept_adds_success kept_adds_failure kept_adds_memory kept_adds_link kept_adds_inference kept_adds_action
  kept_adds_artifact kept_adds_episode kept_adds_code_fix

lemma kept_adds_contribution:
  assumes "\<And>i. episode = Some i \<Longrightarrow> length (pr_episodes s) \<le> i"
  shows "kept (adds user s) (after_contribution E user project wd txt episode)"
  unfolding after_contribution_def using assms
  by (intro kept_then kept_adds) (auto intro: kept_adds_outcome kept_adds_rate split: option.splits)

lemma kept_adds_signal: "kept (adds user s) (after_signal E user project i t key txt inference)"
proof -
  have k: "kept (adds user s) (act_bind (add_artifact user (ii_goal i) (ii_confidence i) path kind key) (\<lambda>pa.
            act_then (link_inference_to_artifact inference pa)
            (act_then (increment_anima_action user)
              (if b then generate_code_fix E user i t txt else act_return ()))))" for path kind b
    by (intro kept_bind kept_then kept_if kept_adds kept_return)
  show ?thesis unfolding after_signal_def
  proof (intro kept_then kept_adds kept_catch kept_return)
    show "kept (adds user s) (\<lambda>s. case pe_manifest E (pr_calls s) of Inl e \<Rightarrow> (Inl e, s)
        | Inr path \<Rightarrow> act_bind (add_artifact user (ii_goal i) (ii_confidence i) path
              (case t of NeedsAttention e \<Rightarrow> ''attention'' | _ \<Rightarrow> ''analysis'') key) (\<lambda>pa.
            act_then (link_inference_to_artifact inference pa)
            (act_then (increment_anima_action user)
              (if trigger_type t = Some ''STUCK'' \<and> pr_levels s user ''analysis'' \<ge> 1
               then generate_code_fix E user i t txt else act_return ()))) s)"
    proof (rule keptI)
      fix s1 r s'
      assume a: "adds user s s1" and run: "(case pe_manifest E (pr_calls s1) of Inl e \<Rightarrow> (Inl e, s1)
        | Inr path \<Rightarrow> act_bind (add_artifact user (ii_goal i) (ii_confidence i) path
              (case t of NeedsAttention e \<Rightarrow> ''attention'' | _ \<Rightarrow> ''analysis'') key) (\<lambda>pa.
            act_then (link_inference_to_artifact inference pa)
            (act_then (increment_anima_action user)
              (if trigger_type t = Some ''STUCK'' \<and> pr_levels s1 user ''analysis'' \<ge> 1
               then generate_code_fix E user i t txt else act_return ()))) s1) = (r, s')"
      show "adds user s s'"
      proof (cases "pe_manifest E (pr_calls s1)")
        case (Inl e)
        then show ?thesis using run a by simp
      next
        case (Inr path)
        then show ?thesis using run keptD [OF k a] by simp
      qed
    qed
  qed
qed

lemma kept_adds_answer: "kept (adds user s) (after_answer E user project wd i t inference txt)"
proof (rule keptI)
  fix s1 r s' assume a: "adds user s s1" and run: "after_answer E user project wd i t inference txt s1 = (r, s')"
  show "adds user s s'"
  proof (cases "length txt < 80")
    case True
    then show ?thesis using run a by (simp add: after_answer_def)
  next
    case False
    let ?d = "decision_of txt" and ?key = "compute_cooldown_key t (ii_domain i)"
    let ?log = "log_rated_episode user (type_name t) (ii_domain i) (ii_goal i) (lower_decision ?d)
            (if ?d \<noteq> ''SILENCE'' then take 500 txt else []) wd (parse_confidence txt)"
    obtain episode s2 where l: "?log s1 = (Inr episode, s2)" using log_returns by blast
    have a2: "adds user s s2" by (rule keptD [OF kept_adds_episode a l])
    have len: "length (pr_episodes s) \<le> n" if "episode = Some n" for n
      using that l a by (auto simp: log_rated_episode_def adds_def split: if_splits)
    have silent: "kept (adds user s) (act_then (add_artifact user (ii_goal i) (parse_confidence txt) [] ''silence'' ?key) (act_return ()))"
      by (intro kept_then kept_adds kept_return)
    let ?rest = "if ?d = ''SILENCE'' then act_then (add_artifact user (ii_goal i) (parse_confidence txt) [] ''silence'' ?key) (act_return ())
          else if ?d = ''CONTRIBUTE'' \<and> parse_confidence txt < CONFIDENCE_THRESHOLD then act_return ()
          else if ?d = ''CONTRIBUTE'' then after_contribution E user project wd txt episode
          else after_signal E user project i t ?key txt inference"
    have k: "kept (adds user s) ?rest"
      by (intro kept_if kept_return silent kept_adds_contribution [OF len] kept_adds_signal)
    have "after_answer E user project wd i t inference txt s1 = ?rest s2"
      using False l by (simp add: after_answer_def Let_def act_bind_Inr [where m = ?log, OF l])
    then have "?rest s2 = (r, s')" using run by simp
    then show ?thesis by (rule keptD [OF k a2])
  qed
qed

lemma kept_adds_ask: "kept (adds user s) (ask_agent E user project wd i t inference)"
proof (rule keptI)
  fix s1 r s' assume a: "adds user s s1" and run: "ask_agent E user project wd i t inference s1 = (r, s')"
  let ?s = "s1\<lparr>co_intents := co_intents s1 @ [\<lparr>si_user = user, si_project = project, si_text = run_message i, si_created = co_wall s1\<rparr>],
         pr_agents := pr_agents s1 @ [(user, ''[proactive] '' @ take 180 (ii_goal i))], pr_calls := pr_calls s1 + 1\<rparr>"
  have a1: "adds user s ?s" using a by (auto simp: adds_def)
  have k: "kept (adds user s) (act_then (record_proactive_success user) (after_answer E user project wd i t inference x))" for x
    by (intro kept_then kept_adds kept_adds_answer)
  show "adds user s s'"
  proof (cases "pe_agent E (pr_calls s1)")
    case None
    have f: "kept (adds user s) (record_proactive_failure (pe_jitter E (pr_calls s1)) user)" by (rule kept_adds_failure)
    have "s' = snd (record_proactive_failure (pe_jitter E (pr_calls s1)) user ?s)"
      using arg_cong [where f = snd, OF run] None by (simp add: ask_agent_def)
    then show ?thesis using f a1 unfolding kept_def by blast
  next
    case (Some x)
    have "s' = snd (act_then (record_proactive_success user) (after_answer E user project wd i t inference x) ?s)"
      using arg_cong [where f = snd, OF run] Some by (simp add: ask_agent_def)
    then show ?thesis using k [of x] a1 unfolding kept_def by blast
  qed
qed

lemma kept_adds_start: "kept (adds user s) (start_run E user i t inference project wd)"
proof -
  have silent: "kept (adds user s) (act_then (log_rated_episode user ty d g dec sm repo c) (act_return ()))" for ty d g dec sm repo c
    by (intro kept_then kept_adds kept_return)
  have "adds user s (snd (start_run E user i t inference project wd s1))" if a: "adds user s s1" for s1
  proof -
    have k: "adds user s (snd (act_then (log_rated_episode user ty d g dec sm repo c) (act_return ()) s1))" for ty d g dec sm repo c
      using silent a unfolding kept_def by blast
    have "adds user s (snd (ask_agent E user project x i t inference s1))" for x
      using kept_adds_ask a unfolding kept_def by blast
    with k a show ?thesis by (simp add: start_run_def split: sum.splits option.splits)
  qed
  then show ?thesis unfolding kept_def by blast
qed

lemma run_adds: "adds user s (snd (run_proactive_agent E user i t ov s))"
proof -
  let ?rest = "\<lambda>inference. case run_project user ov s of
       (Some project, Some wd) \<Rightarrow> if wd = [] then act_return () else start_run E user i t inference project wd
     | _ \<Rightarrow> act_return ()"
  have "kept (adds user s) (?rest inference)" for inference
    using kept_adds_start by (auto split: prod.splits option.splits)
  then have "kept (adds user s) (act_bind (log_inference user i) ?rest)" by (rule kept_bind [OF kept_adds_inference])
  then show ?thesis unfolding run_proactive_agent_def kept_def using adds_refl by blast
qed

subsection \<open>The gates of a scan\<close>

lemma adds_others:
  assumes "adds user s s'" "v \<noteq> user"
  shows "detect_trigger v s' = detect_trigger v s" "is_goal_on_cooldown v k s' = is_goal_on_cooldown v k s"
    "is_proactive_in_backoff v s' = is_proactive_in_backoff v s"
    "evaluate_domain_confidence v d s' = evaluate_domain_confidence v d s"
proof -
  obtain as es where n: "pr_artifacts s' = pr_artifacts s @ as" "\<forall>a \<in> set as. pa_user a = user"
    "pr_episodes s' = pr_episodes s @ es" "\<forall>e \<in> set es. ep_user e = user" using assms(1) by (auto simp: adds_def)
  note same = addsD [OF assms(1)]
  have f: "has_attention_been_fired v x s' = has_attention_been_fired v x s" for x
    using n(2) assms(2) by (auto simp: has_attention_been_fired_def n(1) same list_ex_iff Let_def)
  have rows: "recent_rows v s' = recent_rows v s" by (simp add: recent_rows_def same)
  have at: "attention_trigger v s' = attention_trigger v s"
    unfolding attention_trigger_def get_upcoming_events_def same f ..
  show "detect_trigger v s' = detect_trigger v s" unfolding detect_trigger_def rows same at ..
  show "is_goal_on_cooldown v k s' = is_goal_on_cooldown v k s"
    using n(2) assms(2) by (auto simp: is_goal_on_cooldown_def n(1) same list_ex_iff)
  show "is_proactive_in_backoff v s' = is_proactive_in_backoff v s"
    unfolding is_proactive_in_backoff_def same(2) same(7) [OF assms(2)] ..
  have "filter (\<lambda>e. ep_user e = v \<and> Q e) es = []" for Q using n(4) assms(2) by (auto simp: filter_empty_conv)
  then have "rated_rows v d s' = rated_rows v d s" by (simp add: rated_rows_def n(3) same)
  then show "evaluate_domain_confidence v d s' = evaluate_domain_confidence v d s" by (simp add: evaluate_domain_confidence_def)
qed

lemma tasks_others:
  assumes "v \<notin> fst ` set ts"
  shows "detect_trigger v (run_tasks E ts s) = detect_trigger v s"
    "is_goal_on_cooldown v k (run_tasks E ts s) = is_goal_on_cooldown v k s"
    "is_proactive_in_backoff v (run_tasks E ts s) = is_proactive_in_backoff v s"
proof -
  have "detect_trigger v (run_tasks E ts s) = detect_trigger v s
      \<and> is_goal_on_cooldown v k (run_tasks E ts s) = is_goal_on_cooldown v k s
      \<and> is_proactive_in_backoff v (run_tasks E ts s) = is_proactive_in_backoff v s"
    using assms
  proof (induction ts arbitrary: s)
    case (Cons x ts)
    obtain u i t where x: "x = (u, i, t)" by (cases x)
    have "v \<noteq> u" "v \<notin> fst ` set ts" using Cons.prems x by auto
    have a: "adds u s (snd (run_proactive_agent E u i t None s))" by (rule run_adds)
    show ?case using Cons.IH [OF \<open>v \<notin> fst ` set ts\<close>] adds_others(1-3) [OF a \<open>v \<noteq> u\<close>] by (simp add: x)
  qed simp
  then show "detect_trigger v (run_tasks E ts s) = detect_trigger v s"
    "is_goal_on_cooldown v k (run_tasks E ts s) = is_goal_on_cooldown v k s"
    "is_proactive_in_backoff v (run_tasks E ts s) = is_proactive_in_backoff v s" by auto
qed

lemma first_seen_distinct: "distinct (first_seen seen xs) \<and> set (first_seen seen xs) \<inter> set seen = {}"
  by (induction seen xs rule: first_seen.induct) auto

lemma decide_users_sound:
  assumes "decide_users E us s = (tasks, err)" "distinct us"
  shows "\<forall>(u, i, t) \<in> set tasks. u \<in> set us \<and> decide_user E u s = Inr (Some (i, t))" "distinct (map fst tasks)"
proof -
  have "(\<forall>(u, i, t) \<in> set tasks. u \<in> set us \<and> decide_user E u s = Inr (Some (i, t))) \<and> distinct (map fst tasks)"
    using assms
  proof (induction us arbitrary: tasks)
    case (Cons u us)
    show ?case
    proof (cases "decide_user E u s")
      case (Inl e)
      then show ?thesis using Cons.prems by auto
    next
      case (Inr x)
      show ?thesis
      proof (cases x)
        case None
        then show ?thesis using Cons Inr by fastforce
      next
        case (Some y)
        obtain i t where y: "y = (i, t)" by (cases y)
        obtain ts where ts: "decide_users E us s = (ts, err)" "tasks = (u, i, t) # ts"
          using Cons.prems(1) Inr Some y by (auto split: prod.splits)
        have IH: "(\<forall>(u, i, t) \<in> set ts. u \<in> set us \<and> decide_user E u s = Inr (Some (i, t))) \<and> distinct (map fst ts)"
          using Cons.IH [OF ts(1)] Cons.prems(2) by simp
        then have "u \<notin> fst ` set ts" using Cons.prems(2) by auto
        then show ?thesis using IH Inr Some y ts(2) by auto
      qed
    qed
  qed simp
  then show "\<forall>(u, i, t) \<in> set tasks. u \<in> set us \<and> decide_user E u s = Inr (Some (i, t))" "distinct (map fst tasks)" by auto
qed

lemma decide_user_gates:
  assumes "decide_user E u s = Inr (Some (i, t))"
  shows "detect_trigger u s = Inr t" "ii_goal i \<noteq> []" "\<not> is_goal_on_cooldown u (compute_cooldown_key t (ii_domain i)) s"
    "\<not> is_proactive_in_backoff u s" "type_name t \<in> {''JUST_FINISHED'', ''NEEDS_ATTENTION''} \<or> ii_confidence i \<ge> 65"
  using assms unfolding decide_user_def passes_gate_def Let_def CONFIDENCE_THRESHOLD_def
  by (auto split: sum.splits if_splits bool.splits)


subsection \<open>What an answer leaves behind\<close>

definition agent_replies ::
    "'m proactive_scheme run_env \<Rightarrow> string \<Rightarrow> inferred_intent \<Rightarrow> trigger \<Rightarrow> 'm proactive_scheme \<Rightarrow> string \<Rightarrow> bool" where
  "agent_replies E user i t s txt \<longleftrightarrow> user \<in> set (co_users s) \<and> (\<exists>project wd. get_user_project user s = (Some project, Some wd) \<and> wd \<noteq> [])
     \<and> 65 \<le> evaluate_domain_confidence user (ii_domain i) s \<and> \<not> probes_first user t \<and> pe_agent E (pr_calls s) = Some txt"

lemma run_replies:
  assumes "agent_replies E user i t s txt"
  obtains project wd inference s1 where "snd (run_proactive_agent E user i t None s) = snd (after_answer E user project wd i t inference txt s1)"
    "pr_artifacts s1 = pr_artifacts s" "pr_episodes s1 = pr_episodes s" "co_wall s1 = co_wall s" "co_users s1 = co_users s"
    "pr_calls s1 = pr_calls s + 1" "pr_backoff s1 user = None" "co_events s1 = co_events s" "pr_calendar s1 = pr_calendar s"
    "\<exists>project txt. co_intents s1 = co_intents s @ [\<lparr>si_user = user, si_project = project, si_text = txt, si_created = co_wall s\<rparr>]"
proof -
  obtain project wd where p: "get_user_project user s = (Some project, Some wd)" "wd \<noteq> []" using assms by (auto simp: agent_replies_def)
  let ?inf = "\<lparr>in_user = user, in_goal = take 500 (ii_goal i), in_domain = take 64 (ii_domain i), in_confidence = ii_confidence i,
     in_source = take 16 (ii_source i), in_artifact = None\<rparr>"
  let ?s0 = "s\<lparr>pr_inferences := pr_inferences s @ [?inf]\<rparr>"
  let ?row = "\<lparr>si_user = user, si_project = project, si_text = run_message i, si_created = co_wall s\<rparr>"
  let ?s1 = "?s0\<lparr>co_intents := co_intents s @ [?row], pr_agents := pr_agents s @ [(user, ''[proactive] '' @ take 180 (ii_goal i))],
     pr_calls := pr_calls s + 1, pr_backoff := (pr_backoff s)(user := None)\<rparr>"
  have l: "log_inference user i s = (Inr (length (pr_inferences s)), ?s0)" using assms by (simp add: log_inference_def agent_replies_def)
  have c: "evaluate_domain_confidence user (ii_domain i) ?s0 = evaluate_domain_confidence user (ii_domain i) s"
    by (simp add: evaluate_domain_confidence_def rated_rows_def)
  have a: "run_proactive_agent E user i t None s = ask_agent E user project wd i t (length (pr_inferences s)) ?s0"
    using assms p c unfolding run_proactive_agent_def
    by (simp add: act_bind_Inr [where m = "log_inference user i", OF l] agent_replies_def CONFIDENCE_THRESHOLD_def
        run_project_def start_run_def)
  have "ask_agent E user project wd i t (length (pr_inferences s)) ?s0 = after_answer E user project wd i t (length (pr_inferences s)) txt ?s1"
    using assms by (simp add: ask_agent_def agent_replies_def record_proactive_success_def act_then_apply)
  then show ?thesis using a by (intro that [of project wd "length (pr_inferences s)" ?s1]) auto
qed

lemma after_answer_long:
  assumes "\<not> length txt < 80"
  obtains episode s2 where "pr_artifacts s2 = pr_artifacts s1" "co_wall s2 = co_wall s1" "pr_calls s2 = pr_calls s1" "pr_backoff s2 = pr_backoff s1"
    "co_events s2 = co_events s1" "pr_calendar s2 = pr_calendar s1" "co_intents s2 = co_intents s1"
    "after_answer E user project wd i t inference txt s1 =
      (if decision_of txt = ''SILENCE'' then act_then (add_artifact user (ii_goal i) (parse_confidence txt) [] ''silence'' (compute_cooldown_key t (ii_domain i))) (act_return ())
          else if decision_of txt = ''CONTRIBUTE'' \<and> parse_confidence txt < CONFIDENCE_THRESHOLD then act_return ()
          else if decision_of txt = ''CONTRIBUTE'' then after_contribution E user project wd txt episode
          else after_signal E user project i t (compute_cooldown_key t (ii_domain i)) txt inference) s2"
proof -
  let ?log = "log_rated_episode user (type_name t) (ii_domain i) (ii_goal i) (lower_decision (decision_of txt))
            (if decision_of txt \<noteq> ''SILENCE'' then take 500 txt else []) wd (parse_confidence txt)"
  obtain episode s2 where l: "?log s1 = (Inr episode, s2)" using log_returns by blast
  have "after_answer E user project wd i t inference txt s1 =
      (if decision_of txt = ''SILENCE'' then act_then (add_artifact user (ii_goal i) (parse_confidence txt) [] ''silence'' (compute_cooldown_key t (ii_domain i))) (act_return ())
          else if decision_of txt = ''CONTRIBUTE'' \<and> parse_confidence txt < CONFIDENCE_THRESHOLD then act_return ()
          else if decision_of txt = ''CONTRIBUTE'' then after_contribution E user project wd txt episode
          else after_signal E user project i t (compute_cooldown_key t (ii_domain i)) txt inference) s2"
    using assms l by (simp add: after_answer_def Let_def act_bind_Inr [where m = ?log, OF l])
  then show ?thesis by (intro that [of s2 episode]) (use l in \<open>auto simp: log_rated_episode_def split: if_splits\<close>)
qed

lemma signal_row:
  assumes "pe_manifest E (pr_calls s) = Inr path"
  shows "\<exists>a \<in> set (pr_artifacts (snd (after_signal E user project i t key txt inference s))).
    pa_user a = user \<and> pa_cooldown_key a = key \<and> pa_created_at a = co_wall s"
proof -
  let ?kind = "case t of NeedsAttention e \<Rightarrow> ''attention'' | _ \<Rightarrow> ''analysis''"
  let ?s1 = "snd (save_memory user project txt s)"
  let ?row = "\<lparr>pa_user = user, pa_goal = ii_goal i, pa_confidence = ii_confidence i, pa_path = path, pa_action_type = ?kind,
    pa_cooldown_key = key, pa_created_at = co_wall s\<rparr>"
  let ?s2 = "?s1\<lparr>pr_artifacts := pr_artifacts s @ [?row]\<rparr>"
  define rest where "rest = (\<lambda>pa. act_then (link_inference_to_artifact inference pa) (act_then (increment_anima_action user)
      (if trigger_type t = Some ''STUCK'' \<and> pr_levels ?s1 user ''analysis'' \<ge> 1 then generate_code_fix E user i t txt else act_return ())))"
  have m: "save_memory user project txt s = (Inr (), ?s1)" by (simp add: save_memory_def)
  have w: "pr_artifacts ?s1 = pr_artifacts s" "co_wall ?s1 = co_wall s" "pr_calls ?s1 = pr_calls s" by (simp_all add: save_memory_def)
  have b: "add_artifact user (ii_goal i) (ii_confidence i) path ?kind key ?s1 = (Inr (length (pr_artifacts s)), ?s2)"
    by (simp add: add_artifact_def w)
  have "kept (adds user ?s2) (rest (length (pr_artifacts s)))"
    unfolding rest_def by (intro kept_then kept_if kept_adds kept_return)
  then have "adds user ?s2 (snd (rest (length (pr_artifacts s)) ?s2))" unfolding kept_def using adds_refl by blast
  then obtain as where as: "pr_artifacts (snd (rest (length (pr_artifacts s)) ?s2)) = (pr_artifacts s @ [?row]) @ as"
    by (auto simp: adds_def)
  have "snd (after_signal E user project i t key txt inference s) = snd (rest (length (pr_artifacts s)) ?s2)"
    unfolding after_signal_def act_then_Inr [where m = "save_memory user project txt", OF m]
    using assms w(3) act_bind_Inr [where m = "add_artifact user (ii_goal i) (ii_confidence i) path ?kind key" and k = rest, OF b]
    by (simp add: act_catch_apply rest_def split: prod.splits sum.splits)
  then show ?thesis using as by auto
qed

text \<open>C38: an answer that chooses silence, or a signal whose artifact was written, puts its goal on cooldown: within a
  quarter of an hour no scan starts a run for the same user and the same cooldown key, whatever rows are added meanwhile.\<close>

theorem answer_cools_down:
  assumes "agent_replies E user i t s txt" "80 \<le> length txt"
    and "decision_of txt = ''SILENCE'' \<or> decision_of txt = ''SIGNAL'' \<and> pe_manifest E (pr_calls s + 1) = Inr path"
    and "set (pr_artifacts (snd (run_proactive_agent E user i t None s))) \<subseteq> set (pr_artifacts later)" "co_wall later \<le> co_wall s + 900"
    and "compute_cooldown_key t' (ii_domain j) = compute_cooldown_key t (ii_domain i)"
  shows "decide_user E' user later \<noteq> Inr (Some (j, t'))"
proof
  assume d: "decide_user E' user later = Inr (Some (j, t'))"
  let ?key = "compute_cooldown_key t (ii_domain i)"
  obtain project wd inference s1 where r: "snd (run_proactive_agent E user i t None s) = snd (after_answer E user project wd i t inference txt s1)"
    "co_wall s1 = co_wall s" "pr_calls s1 = pr_calls s + 1" by (rule run_replies [OF assms(1)])
  have "\<not> length txt < 80" using assms(2) by simp
  then obtain episode s2 where a: "co_wall s2 = co_wall s1" "pr_calls s2 = pr_calls s1" "after_answer E user project wd i t inference txt s1 =
      (if decision_of txt = ''SILENCE'' then act_then (add_artifact user (ii_goal i) (parse_confidence txt) [] ''silence'' ?key) (act_return ())
          else if decision_of txt = ''CONTRIBUTE'' \<and> parse_confidence txt < CONFIDENCE_THRESHOLD then act_return ()
          else if decision_of txt = ''CONTRIBUTE'' then after_contribution E user project wd txt episode
          else after_signal E user project i t ?key txt inference) s2"
    by (rule after_answer_long [of "txt" s1 E user project wd i t inference])
  have "\<exists>x \<in> set (pr_artifacts (snd (run_proactive_agent E user i t None s))). pa_user x = user \<and> pa_cooldown_key x = ?key \<and> pa_created_at x = co_wall s"
  proof (cases "decision_of txt = ''SILENCE''")
    case True
    then show ?thesis unfolding r(1) a(3) using a(1) r(2) by (simp add: act_then_apply add_artifact_def)
  next
    case False
    then have sig: "decision_of txt = ''SIGNAL''" "pe_manifest E (pr_calls s2) = Inr path" using assms(3) r(3) a(2) by auto
    show ?thesis unfolding r(1) a(3) using signal_row [OF sig(2), of user project i t ?key "txt" inference] sig(1) a(1) r(2) by simp
  qed
  then have "is_goal_on_cooldown user ?key later"
    using assms(4,5) by (auto simp: is_goal_on_cooldown_def GOAL_COOLDOWN_S_def list_ex_iff)
  then show False using decide_user_gates(3) [OF d] assms(6) by simp
qed

lemma contribution_same:
  "pr_artifacts (snd (after_contribution E user project wd txt episode s)) = pr_artifacts s"
  "pr_backoff (snd (after_contribution E user project wd txt episode s)) = pr_backoff s"
  "co_events (snd (after_contribution E user project wd txt episode s)) = co_events s"
  "pr_calendar (snd (after_contribution E user project wd txt episode s)) = pr_calendar s"
  by (auto simp: after_contribution_def act_then_apply save_memory_def update_episodic_outcome_def post_commit_self_rate_def
      split: option.splits sum.splits list.splits)


subsection \<open>Suppression\<close>

lemma suppressed_run:
  assumes "evaluate_domain_confidence user (ii_domain i) s < 65"
  shows "pr_calls (snd (run_proactive_agent E user i t ov s)) = pr_calls s"
    "\<exists>es. pr_episodes (snd (run_proactive_agent E user i t ov s)) = pr_episodes s @ es \<and> (\<forall>e \<in> set es. ep_outcome e = ''unrated'')"
proof -
  have "pr_calls (snd (run_proactive_agent E user i t ov s)) = pr_calls s
    \<and> (\<exists>es. pr_episodes (snd (run_proactive_agent E user i t ov s)) = pr_episodes s @ es \<and> (\<forall>e \<in> set es. ep_outcome e = ''unrated''))"
  proof (cases "user \<in> set (co_users s)")
    case False
    then show ?thesis by (simp add: run_proactive_agent_def act_bind_apply log_inference_def)
  next
    case True
    let ?s0 = "s\<lparr>pr_inferences := pr_inferences s @ [\<lparr>in_user = user, in_goal = take 500 (ii_goal i), in_domain = take 64 (ii_domain i),
      in_confidence = ii_confidence i, in_source = take 16 (ii_source i), in_artifact = None\<rparr>]\<rparr>"
    have l: "log_inference user i s = (Inr (length (pr_inferences s)), ?s0)" using True by (simp add: log_inference_def)
    have c: "evaluate_domain_confidence user (ii_domain i) ?s0 < CONFIDENCE_THRESHOLD"
      using assms by (simp add: evaluate_domain_confidence_def rated_rows_def CONFIDENCE_THRESHOLD_def)
    show ?thesis unfolding run_proactive_agent_def act_bind_Inr [where m = "log_inference user i", OF l]
      using c by (auto simp: start_run_def act_then_apply log_rated_episode_def split: prod.splits option.splits)
  qed
  then show "pr_calls (snd (run_proactive_agent E user i t ov s)) = pr_calls s"
    "\<exists>es. pr_episodes (snd (run_proactive_agent E user i t ov s)) = pr_episodes s @ es \<and> (\<forall>e \<in> set es. ep_outcome e = ''unrated'')"
    by blast+
qed

definition own_run :: "string \<Rightarrow> int \<times> 'm proactive_scheme run_env \<times> inferred_intent \<times> trigger \<Rightarrow> 'm proactive_scheme \<Rightarrow> 'm proactive_scheme" where
  "own_run user x s = (case x of (n, E, i, t) \<Rightarrow> snd (run_proactive_agent E user i t None (s\<lparr>co_wall := n\<rparr>)))"

definition rated_in :: "string \<Rightarrow> string \<Rightarrow> rated_episode \<Rightarrow> bool" where
  "rated_in user dmn e \<longleftrightarrow> ep_user e = user \<and> ep_domain e = dmn \<and> ep_outcome e \<in> {''good'', ''bad''}"

text \<open>While no rated row leaves the week, unrated rows do not change the confidence.\<close>

lemma confidence_kept:
  assumes "pr_episodes s' = pr_episodes s @ es" "\<forall>e \<in> set es. ep_outcome e = ''unrated''"
    and "\<forall>e \<in> set (pr_episodes s). rated_in user d e \<and> ep_ts e > co_wall s - 604800 \<longrightarrow> ep_ts e > until - 604800"
    and "co_wall s \<le> n" "n \<le> until"
  shows "evaluate_domain_confidence user d (s'\<lparr>co_wall := n\<rparr>) = evaluate_domain_confidence user d s"
proof -
  let ?P = "\<lambda>w e. ep_user e = user \<and> ep_domain e = d \<and> ep_ts e > w - 604800 \<and> ep_outcome e \<in> {''good'', ''bad''}"
  have "filter (?P n) es = []" using assms(2) by (auto simp: filter_empty_conv)
  moreover have "filter (?P n) (pr_episodes s) = filter (?P (co_wall s)) (pr_episodes s)"
  proof (rule filter_cong [OF refl])
    fix e assume "e \<in> set (pr_episodes s)"
    then show "?P n e = ?P (co_wall s) e" using assms(3-5) unfolding rated_in_def by fastforce
  qed
  ultimately have "rated_rows user d (s'\<lparr>co_wall := n\<rparr>) = rated_rows user d s" by (simp add: rated_rows_def assms(1))
  then show ?thesis by (simp add: evaluate_domain_confidence_def)
qed

text \<open>C40: a domain whose confidence has fallen below the threshold does not recover by anything the scheduler does: until one
  of the rated episodes is a week old, every run of it is suppressed and the agent is never asked, so no test can pass and
  no good outcome can be recorded.\<close>

theorem suppression_lasts:
  assumes "evaluate_domain_confidence user d s < 65"
    and "\<forall>e \<in> set (pr_episodes s). rated_in user d e \<and> ep_ts e > co_wall s - 604800 \<longrightarrow> ep_ts e > until - 604800"
    and "\<forall>(n, E, i, t) \<in> set xs. co_wall s \<le> n \<and> n \<le> until \<and> ii_domain i = d"
    and "co_wall s \<le> now" "now \<le> until"
  shows "pr_calls (fold (own_run user) xs s) = pr_calls s
    \<and> evaluate_domain_confidence user d ((fold (own_run user) xs s)\<lparr>co_wall := now\<rparr>) < 65"
proof -
  have "pr_calls (fold (own_run user) xs s) = pr_calls s
    \<and> (\<exists>es. pr_episodes (fold (own_run user) xs s) = pr_episodes s @ es \<and> (\<forall>e \<in> set es. ep_outcome e = ''unrated''))"
    using assms(3)
  proof (induction xs rule: rev_induct)
    case (snoc x xs)
    let ?s = "fold (own_run user) xs s"
    obtain n E i t where x: "x = (n, E, i, t)" by (cases x)
    obtain es where es: "pr_calls ?s = pr_calls s" "pr_episodes ?s = pr_episodes s @ es" "\<forall>e \<in> set es. ep_outcome e = ''unrated''"
      using snoc by auto
    have n: "co_wall s \<le> n" "n \<le> until" "ii_domain i = d" using snoc.prems x by auto
    have "evaluate_domain_confidence user (ii_domain i) (?s\<lparr>co_wall := n\<rparr>) < 65"
      using confidence_kept [OF es(2,3) assms(2) n(1,2)] assms(1) n(3) by simp
    note run = suppressed_run [OF this, of E t None]
    obtain fs where fs: "pr_episodes (own_run user x ?s) = pr_episodes ?s @ fs" "\<forall>e \<in> set fs. ep_outcome e = ''unrated''"
      using run(2) by (auto simp: own_run_def x)
    have "pr_episodes (own_run user x ?s) = pr_episodes s @ (es @ fs)" using fs(1) es(2) by simp
    moreover have "\<forall>e \<in> set (es @ fs). ep_outcome e = ''unrated''" using fs(2) es(3) by auto
    moreover have "pr_calls (own_run user x ?s) = pr_calls s" using run(1) es(1) by (simp add: own_run_def x)
    ultimately show ?case by auto
  qed simp
  then obtain es where "pr_calls (fold (own_run user) xs s) = pr_calls s" "pr_episodes (fold (own_run user) xs s) = pr_episodes s @ es"
    "\<forall>e \<in> set es. ep_outcome e = ''unrated''" by blast
  then show ?thesis using confidence_kept [OF _ _ assms(2,4,5), of "fold (own_run user) xs s" es] assms(1) by simp
qed

subsection \<open>Feedback\<close>

definition only_records :: "('m collector_scheme, unit) act \<Rightarrow> bool" where
  "only_records m \<longleftrightarrow> (\<forall>s. fst (m s) = Inr () \<and> set (co_events s) \<subseteq> set (co_events (snd (m s))) \<and> co_wall (snd (m s)) = co_wall s
     \<and> co_users (snd (m s)) = co_users s)"

lemma only_recordsD:
  assumes "only_records m"
  shows "m s = (Inr (), snd (m s))" "set (co_events s) \<subseteq> set (co_events (snd (m s)))" "co_wall (snd (m s)) = co_wall s"
    "co_users (snd (m s)) = co_users s"
  using assms by (auto simp: only_records_def prod_eq_iff)

lemma records_record: "only_records (record_event u k p m)"
  by (auto simp: only_records_def record_event_def)

lemma each_Cons:
  assumes "\<And>x. only_records (f x)"
  shows "act_each f (x # xs) t = act_each f xs (snd (f x t))"
  using act_then_Inr [where m = "f x" and k = "act_each f xs", OF only_recordsD(1) [OF assms [of x], of t]] by simp

lemma records_each:
  assumes "\<And>x. only_records (f x)"
  shows "only_records (act_each f xs)"
proof (induction xs)
  case (Cons x xs)
  show ?case unfolding only_records_def each_Cons [of f, OF assms]
    using only_recordsD [OF assms [of x]] only_recordsD [OF Cons.IH] by (metis fst_conv order_trans)
qed (simp add: only_records_def)

lemma records_sync: "only_records (sync_intent x)" "only_records (sync_artifact y)"
  unfolding sync_intent_def sync_artifact_def by (rule records_record)+

lemma sync_event:
  assumes "i \<in> set xs" "si_user i \<in> set (co_users s)"
  shows "\<exists>e \<in> set (co_events (snd (act_each sync_intent xs s))). ce_user e = si_user i \<and> ce_ts e = co_wall s"
  using assms
proof (induction xs arbitrary: s)
  case (Cons x xs)
  note c = each_Cons [of sync_intent, OF records_sync(1)]
  note same = only_recordsD [OF records_sync(1) [of x], of s]
  show ?case
  proof (cases "i = x")
    case True
    then have "\<exists>e \<in> set (co_events (snd (sync_intent x s))). ce_user e = si_user i \<and> ce_ts e = co_wall s"
      using Cons.prems by (auto simp: sync_intent_def record_event_def context_row_def)
    then show ?thesis unfolding c using only_recordsD(2) [OF records_each [of sync_intent, OF records_sync(1)], of "snd (sync_intent x s)" xs] by blast
  next
    case False
    then show ?thesis unfolding c using Cons.IH [of "snd (sync_intent x s)"] Cons.prems same(3,4) by simp
  qed
qed simp

lemma sync_stages:
  fixes s :: "'m collector_scheme"
  shows "set (co_events (snd (act_each sync_intent (pending_intents s) s))) \<subseteq> set (co_events (snd (sync_db_activity s)))"
    "set (co_events s) \<subseteq> set (co_events (snd (sync_db_activity s)))"
proof -
  let ?t = "snd (act_each sync_intent (pending_intents s) s)"
  have g: "only_records (act_each sync_intent (pending_intents s) :: ('m collector_scheme, unit) act)" by (rule records_each, rule records_sync)
  have h: "only_records (act_each sync_artifact (pending_artifacts ?t) :: ('m collector_scheme, unit) act)" by (rule records_each, rule records_sync)
  have "sync_db_activity s = act_each sync_artifact (pending_artifacts ?t) ?t"
    unfolding sync_db_activity_def
    by (subst act_then_Inr [where m = "\<lambda>s. act_each sync_intent (pending_intents s) s", OF only_recordsD(1) [OF g]]) simp
  then show "set (co_events ?t) \<subseteq> set (co_events (snd (sync_db_activity s)))"
    "set (co_events s) \<subseteq> set (co_events (snd (sync_db_activity s)))" using only_recordsD(2) [OF h, of ?t] only_recordsD(2) [OF g, of s] by auto
qed

lemma first_seen_set: "set (first_seen seen xs) = set xs - set seen"
  by (induction seen xs rule: first_seen.induct) auto

text \<open>a run makes its own user active: the intent it stores is turned into an event of the user by the next
  synchronisation, and that event keeps the user among those a scan looks at for almost two hours more, without any action
  of the user.\<close>

theorem own_run_keeps_user_active:
  assumes "agent_replies E user i t s txt" "co_wall s \<le> n" "n < co_wall s + 300" "m \<le> n + 6900"
    and "length (co_intents (snd (run_proactive_agent E user i t None s))) \<le> 50"
  shows "let s1 = snd (run_proactive_agent E user i t None s); s2 = snd (sync_db_activity (s1\<lparr>co_wall := n\<rparr>))
     in user \<in> set (active_users SCAN_WINDOW_S (s2\<lparr>co_wall := m\<rparr>))"
proof -
  let ?s1 = "(snd (run_proactive_agent E user i t None s))\<lparr>co_wall := n\<rparr>"
  let ?s2 = "snd (sync_db_activity ?s1)"
  have grew: "adds user s (snd (run_proactive_agent E user i t None s))" by (rule run_adds)
  have users: "user \<in> set (co_users ?s1)" using assms(1) addsD(4) [OF grew] by (simp add: agent_replies_def)
  obtain project wd inference s0 p x where r: "snd (run_proactive_agent E user i t None s) = snd (after_answer E user project wd i t inference txt s0)"
    "co_intents s0 = co_intents s @ [\<lparr>si_user = user, si_project = p, si_text = x, si_created = co_wall s\<rparr>]"
    by (rule run_replies [OF assms(1)]) blast
  let ?row = "\<lparr>si_user = user, si_project = p, si_text = x, si_created = co_wall s\<rparr>"
  have "adds user s0 (snd (after_answer E user project wd i t inference txt s0))"
    using kept_adds_answer adds_refl unfolding kept_def by blast
  then have row: "?row \<in> set (co_intents ?s1)" using r by (auto simp: adds_def)
  have "\<exists>e \<in> set (co_events ?s2). ce_user e = user \<and> ce_ts e \<ge> n - 300"
  proof (cases "has_event_since user ''intent_sent'' (n - 300) (co_events ?s1)")
    case True
    then show ?thesis using sync_stages(2) [of ?s1] by (auto simp: has_event_since_def list_ex_iff)
  next
    case False
    let ?Q = "\<lambda>i. si_created i > co_wall ?s1 - 300 \<and> \<not> has_event_since (si_user i) ''intent_sent'' (co_wall ?s1 - 300) (co_events ?s1)"
    have "length (filter ?Q (co_intents ?s1)) \<le> 50" by (rule le_trans [OF length_filter_le]) (use assms(5) in simp)
    then have "set (pending_intents ?s1) = set (filter ?Q (co_intents ?s1))" by (simp add: pending_intents_def newest_def Let_def)
    then have "?row \<in> set (pending_intents ?s1)" using row False assms(2,3) by simp
    from sync_event [OF this, of ?s1] users have "\<exists>e \<in> set (co_events (snd (act_each sync_intent (pending_intents ?s1) ?s1))). ce_user e = user \<and> ce_ts e = n"
      by simp
    then show ?thesis using sync_stages(1) [of ?s1] by fastforce
  qed
  then obtain e where "e \<in> set (co_events ?s2)" "ce_user e = user" "ce_ts e \<ge> m - 7200" using assms(4) by fastforce
  then have "user \<in> set (active_users SCAN_WINDOW_S (?s2\<lparr>co_wall := m\<rparr>))"
    by (auto simp: active_users_def SCAN_WINDOW_S_def first_seen_set Let_def)
  then show ?thesis by (simp add: Let_def)
qed

text \<open>an appointment is announced again and again: a run for it records its artifact under the inferred goal, and the
  check whether it was announced looks for the identifier of the appointment in that goal.\<close>

theorem attention_repeats:
  assumes "agent_replies E user i (NeedsAttention e) s txt" "80 \<le> length txt" "decision_of txt = ''SIGNAL''"
    and "pe_manifest E (pr_calls s + 1) = Inr path" "\<not> sql_like (''%'' @ ev_uid e @ ''%'') (ii_goal i)"
  shows "let s' = snd (run_proactive_agent E user i (NeedsAttention e) None s) in
     pa_action_type (last (pr_artifacts s')) = ''attention''
     \<and> has_attention_been_fired user (ev_uid e) (s'\<lparr>co_wall := n\<rparr>) = has_attention_been_fired user (ev_uid e) (s\<lparr>co_wall := n\<rparr>)"
proof -
  let ?t = "NeedsAttention e"
  obtain project wd inference s1 where r: "snd (run_proactive_agent E user i ?t None s) = snd (after_answer E user project wd i ?t inference txt s1)"
    "pr_artifacts s1 = pr_artifacts s" "pr_calls s1 = pr_calls s + 1" by (rule run_replies [OF assms(1)])
  have "\<not> length txt < 80" using assms(2) by simp
  then obtain episode s2 where a: "pr_artifacts s2 = pr_artifacts s1" "pr_calls s2 = pr_calls s1" "after_answer E user project wd i ?t inference txt s1 =
      (if decision_of txt = ''SILENCE'' then act_then (add_artifact user (ii_goal i) (parse_confidence txt) [] ''silence'' (compute_cooldown_key ?t (ii_domain i))) (act_return ())
          else if decision_of txt = ''CONTRIBUTE'' \<and> parse_confidence txt < CONFIDENCE_THRESHOLD then act_return ()
          else if decision_of txt = ''CONTRIBUTE'' then after_contribution E user project wd txt episode
          else after_signal E user project i ?t (compute_cooldown_key ?t (ii_domain i)) txt inference) s2"
    by (rule after_answer_long [of "txt" s1 E user project wd i ?t inference])
  let ?row = "\<lparr>pa_user = user, pa_goal = ii_goal i, pa_confidence = ii_confidence i, pa_path = path, pa_action_type = ''attention'',
    pa_cooldown_key = compute_cooldown_key ?t (ii_domain i), pa_created_at = co_wall s2\<rparr>"
  have "pr_artifacts (snd (after_signal E user project i ?t (compute_cooldown_key ?t (ii_domain i)) txt inference s2)) = pr_artifacts s2 @ [?row]"
    using assms(4) r(3) a(2) by (simp add: after_signal_def act_then_apply act_bind_apply act_catch_apply save_memory_def add_artifact_def
        link_inference_to_artifact_def increment_anima_action_def increment_statement_def split: option.splits)
  then have f: "pr_artifacts (snd (run_proactive_agent E user i ?t None s)) = pr_artifacts s @ [?row]"
    unfolding r(1) a(3) using assms(3) a(1) r(2) by simp
  show ?thesis using assms(5) by (simp add: f has_attention_been_fired_def Let_def)
qed


subsection \<open>Witnesses\<close>

text \<open>A user with five writes of one file, a project and a directory; a model that always gives the same answer.\<close>

definition agent_user :: proactive where
  "agent_user = busy_user\<lparr>pr_current_project := (\<lambda>_. Some ''p''), pr_workdirs := (\<lambda>_. Some ''/srv'')\<rparr>"

definition agent_intent :: inferred_intent where
  "agent_intent = \<lparr>ii_goal = ''repair the parser'', ii_domain = ''backend'', ii_confidence = 80, ii_source = ''rules'', ii_actions = []\<rparr>"

definition reply_env :: "string \<Rightarrow> proactive run_env" where
  "reply_env reply = \<lparr>pe_git = (\<lambda>_ _. Inl (ExternalError ''git'')), pe_mtime = (\<lambda>_ _. None), pe_tests = (\<lambda>_ _. Inr []), pe_infer = (\<lambda>_ _. Inr agent_intent),
     pe_timing = (\<lambda>_ _ _. Inr \<lparr>fallback_mode = True, timeliness_score = 0\<rparr>), pe_agent = (\<lambda>_. Some reply), pe_manifest = (\<lambda>_. Inr ''/m''),
     pe_complete = (\<lambda>_ _. Inr []), pe_manifest_fix = (\<lambda>_ _. Inr ''/f''), pe_jitter = (\<lambda>_. 100)\<rparr>"

definition long_reply :: "string \<Rightarrow> string" where
  "long_reply w = w @ '' '' @ replicate 80 CHR ''x''"

definition agent_stuck :: trigger where
  "agent_stuck = Stuck ''/srv/a.py'' 5 900 (JStr []) (JStr [])"

lemma long_reply: "80 \<le> length (long_reply w)"
  by (simp add: long_reply_def)

lemma reply_decisions: "decision_of (long_reply ''SILENCE'') = ''SILENCE''" "decision_of (long_reply ''CONTRIBUTE'') = ''CONTRIBUTE''"
  "decision_of (long_reply ''SIGNAL'') = ''SIGNAL''"
  by code_simp+

lemma agent_user_replies:
  assumes "type_name t \<in> {''STUCK'', ''NEEDS_ATTENTION''}"
  shows "agent_replies (reply_env r) ''u'' agent_intent t agent_user r"
proof -
  have "\<not> probes_first ''u'' t" using assms by (simp add: probes_first_def RAWOS_ENTITY_USER_ID_def)
  moreover have "evaluate_domain_confidence ''u'' (ii_domain agent_intent) agent_user = 70" by code_simp
  ultimately show ?thesis
    by (simp add: agent_replies_def reply_env_def agent_user_def busy_user_def fresh_proactive_def get_user_project_def)
qed

lemma agent_user_decided: "decide_users (reply_env r) (active_users SCAN_WINDOW_S agent_user) agent_user = ([(''u'', agent_intent, agent_stuck)], None)"
proof -
  have "active_users SCAN_WINDOW_S agent_user = [''u'']" by code_simp
  moreover have "detect_trigger ''u'' agent_user = Inr agent_stuck" by code_simp
  moreover have "\<not> is_goal_on_cooldown ''u'' (compute_cooldown_key agent_stuck (ii_domain agent_intent)) agent_user" by code_simp
  moreover have "\<not> is_proactive_in_backoff ''u'' agent_user" by code_simp
  moreover have "passes_gate (reply_env r) ''u'' agent_intent agent_stuck agent_user = Inr True" by (simp add: passes_gate_def type_name_def agent_stuck_def agent_intent_def CONFIDENCE_THRESHOLD_def)
  ultimately show ?thesis by (simp add: decide_user_def reply_env_def agent_intent_def)
qed


theorem answer_cools_down_witness:
  "decide_user (reply_env []) ''u'' (snd (run_proactive_agent (reply_env (long_reply ''SILENCE'')) ''u'' agent_intent agent_stuck None agent_user))
     \<noteq> Inr (Some (agent_intent, agent_stuck))"
proof (rule answer_cools_down)
  let ?E = "reply_env (long_reply ''SILENCE'')"
  show "agent_replies ?E ''u'' agent_intent agent_stuck agent_user (long_reply ''SILENCE'')"
    by (rule agent_user_replies) (simp add: type_name_def agent_stuck_def)
  have "adds ''u'' agent_user (snd (run_proactive_agent ?E ''u'' agent_intent agent_stuck None agent_user))" by (rule run_adds)
  from addsD(1) [OF this] show "co_wall (snd (run_proactive_agent ?E ''u'' agent_intent agent_stuck None agent_user)) \<le> co_wall agent_user + 900"
    by simp
qed (simp_all add: long_reply reply_decisions)


definition failed_user :: proactive where
  "failed_user = agent_user\<lparr>pr_episodes := [\<lparr>ep_user = ''u'', ep_trigger = ''STUCK'', ep_domain = ''backend'', ep_ts = 900, ep_goal = ''g'',
     ep_decision = ''contribute'', ep_summary = [], ep_repo_root = ''/srv'', ep_confidence = 90, ep_outcome = ''bad''\<rparr>]\<rparr>"

theorem suppression_lasts_witness:
  "pr_calls (fold (own_run ''u'') [(2000, reply_env [], agent_intent, agent_stuck)] failed_user) = 0"
proof -
  have "evaluate_domain_confidence ''u'' ''backend'' failed_user < 65" by code_simp
  then show ?thesis
    using suppression_lasts [of "''u''" "''backend''" failed_user 600000 "[(2000, reply_env [], agent_intent, agent_stuck)]" 600000]
    by (simp add: failed_user_def agent_user_def busy_user_def fresh_proactive_def agent_intent_def)
qed

theorem own_run_keeps_user_active_witness:
  "let s1 = snd (run_proactive_agent (reply_env []) ''u'' agent_intent agent_stuck None agent_user);
       s2 = snd (sync_db_activity (s1\<lparr>co_wall := 1100\<rparr>))
   in ''u'' \<in> set (active_users SCAN_WINDOW_S (s2\<lparr>co_wall := 8000\<rparr>))"
proof (rule own_run_keeps_user_active)
  show r: "agent_replies (reply_env []) ''u'' agent_intent agent_stuck agent_user []" by (rule agent_user_replies) (simp add: type_name_def agent_stuck_def)
  show "length (co_intents (snd (run_proactive_agent (reply_env []) ''u'' agent_intent agent_stuck None agent_user))) \<le> 50" by code_simp
qed (simp_all add: agent_user_def busy_user_def)

definition due_event :: calendar_entry where
  "due_event = CalendarEntry ''ev-1'' ''review'' 4000 5000 (JList []) [] 3000"

theorem attention_repeats_witness:
  "\<not> has_attention_been_fired ''u'' ''ev-1''
     ((snd (run_proactive_agent (reply_env (long_reply ''SIGNAL'')) ''u'' agent_intent (NeedsAttention due_event) None agent_user))\<lparr>co_wall := 2000\<rparr>)"
proof -
  have r: "agent_replies (reply_env (long_reply ''SIGNAL'')) ''u'' agent_intent (NeedsAttention due_event) agent_user (long_reply ''SIGNAL'')"
    by (rule agent_user_replies) (simp add: type_name_def agent_stuck_def)
  have m: "pe_manifest (reply_env (long_reply ''SIGNAL'')) (pr_calls agent_user + 1) = Inr ''/m''" by (simp add: reply_env_def)
  have l: "\<not> sql_like (''%'' @ ev_uid due_event @ ''%'') (ii_goal agent_intent)" by code_simp
  have "\<not> has_attention_been_fired ''u'' ''ev-1'' (agent_user\<lparr>co_wall := 2000\<rparr>)" by code_simp
  then show ?thesis using attention_repeats [OF r long_reply reply_decisions(3) m l, of 2000] by (simp add: Let_def due_event_def)
qed

end
