(* ===== verification/Spec2Isabelle.thy ===== *)
theory Spec2Isabelle
  imports Unit_Topology Pam_Operator Frontdoor Owned_Resource Audit_Chain Venv_Operator Landlock Run_Registry Rate_Limiter Accounts Tool_Executor Managed_Tools Agent_Loop
    Anomaly_Verifier Autonomous_Scan Auto_Apply Trust_Ladder
    Operator_Scan Bpf_Lsm Dep_Lock Lifespan Output_Guard Web_Tools Collector Proactive_Triggers Proactive_Agent
begin

text \<open>
  \<^bold>\<open>A verification development for anima.\<close> Anima is a self-hosted assistant that may act on its own host. Its
  kernel (\<open>src/anima/kernel\<close>) lets it edit files, services, units, PAM rules, its own source and its own Python
  environment, always behind four devices: a floor of targets it may never touch, an allowlist and a graduation
  ladder that decide whether a human has to approve, a snapshot that is restored when a verification fails, and a
  timer that undoes the change when the process does not come back. Around the kernel stand the accounts, the
  request limits, the event streams and the audit log of its API.

  \<^bold>\<open>Theories.\<close>
  \<^item> \<open>Py_Strings\<close>, \<open>Py_Paths\<close>, \<open>Py_Json\<close>: the parts of Python's \<open>str\<close>, \<open>os.path\<close>, \<open>pathlib\<close> and \<open>json\<close> that the sources
    use, and a host file system as a map from normalized paths to nodes with an error predicate. \<open>Anima_Prelude\<close>:
    exceptions as a datatype, effectful code as functions \<open>'s \<Rightarrow> (exn + 'a) \<times> 's\<close>, subprocess calls, and the collections
    \<open>act_simps\<close> and \<open>opdefs\<close>.
  \<^item> \<open>Anima_Config\<close> (\<open>config.py\<close>): the settings the components read.
  \<^item> \<open>Track_Record\<close> (\<open>kernel/track_record.py\<close>): the graduation ladder; its step is compared with a reference over the
    history of outcomes. \<open>Kernel_DB\<close> (\<open>db/__init__.py\<close>): allowlists, ledgers, track records and active workspaces.
  \<^item> \<open>Reversible_Operation\<close>, \<open>File_Operator\<close>, \<open>Service_Operator\<close> (\<open>kernel/operator.py\<close>, \<open>kernel/arch/base.py\<close>,
    \<open>kernel/arch/linux.py\<close>): the contract snapshot, apply, verify, restore as a locale, interpreted on file edits and
    service actions; totality, undoing, floors and gates.
  \<^item> \<open>Unit_Floor\<close>, \<open>Unit_Topology\<close> (\<open>kernel/unit_topology.py\<close>): authorship of units under the floor closure.
  \<^item> \<open>Deadman\<close>, \<open>Pam_Operator\<close>, \<open>Frontdoor\<close> (\<open>kernel/pam_operator.py\<close>, \<open>kernel/frontdoor.py\<close>): edits of the login path
    under a revert timer.
  \<^item> \<open>Owned_Resource\<close> (\<open>kernel/owned_resource.py\<close>): moves of owned files to a trash and back.
  \<^item> \<open>Self_Reload\<close>, \<open>Venv_Operator\<close> (\<open>kernel/self_reload.py\<close>, \<open>kernel/venv_operator.py\<close> and their boot tasks in
    \<open>api/app.py\<close>): preflight of a commit or of a dependency set, the exchange under a timer, and the check after the
    restart.
  \<^item> \<open>Audit_Chain\<close> (\<open>kernel/audit_chain.py\<close>): the signed hash chain, its file format and its verifier.
  \<^item> \<open>Landlock\<close> (\<open>kernel/landlock.py\<close>): access masks as machine words and the construction of a ruleset, refined against
    the policy.
  \<^item> \<open>Sandbox\<close> (\<open>kernel/sandbox.py\<close> and the file tools of \<open>kernel/tools.py\<close>): confinement of paths, bounded output.
  \<^item> \<open>Shell_Guard\<close> (\<open>kernel/tools.py\<close>, \<open>kernel/arch/linux.py\<close>): the tokenizer and the textual guards of the shell tools.
  \<^item> \<open>Capability_Gate\<close> (\<open>kernel/capability_gate.py\<close>): the tier of a call and its record in the audit chain.
  \<^item> \<open>Tool_Executor\<close> (\<open>kernel/tools.py\<close>): the dispatch of tool calls, the enforcement of the writable directories by
    comparing \<open>git status\<close> before and after, and the git tools; git is a parameter with the laws \<open>git_laws\<close>.
  \<^item> \<open>Managed_Tools\<close> (\<open>kernel/tools.py\<close>): the tools through which the agent reaches the operators: what a call may
    change while the gate is closed, what other users' calls may change, and what \<open>approved_apply\<close>, \<open>reap\<close> and
    \<open>restore\<close> let the caller do.
  \<^item> \<open>Agent_Loop\<close> (\<open>kernel/agent_loop.py\<close>): the rounds of model calls and tool calls, the events they emit and the
    compression of long conversations: every request is a well-formed conversation and the work is bounded.
  \<^item> \<open>Autonomous_Scan\<close> (\<open>context/server_scanner.py\<close>, the scan cycle of \<open>scheduler/proactive.py\<close>, the readers of
    \<open>kernel/arch/linux.py\<close>): the anomalies of the server, the one a cycle acts on, the credit of proposed fixes.
    \<open>Anomaly_Verifier\<close> (\<open>kernel/anomaly_verifier.py\<close>): the verdict on a proposed fix, from two runs of its test suite.
    \<open>Auto_Apply\<close> (\<open>kernel/reversible_apply.py\<close>, \<open>kernel/worktree.py\<close> and the end of a run in \<open>scheduler/proactive.py\<close>):
    the health-gated merge of a verified fix into the live tree and its undoing.
    \<open>Operator_Scan\<close> (the operator loop of \<open>scheduler/proactive.py\<close>, \<open>kernel/summarizer.py\<close>): the loop that runs the
    validators of the managed files, asks the model for a repair and sends it through the gated file edit.
  \<^item> \<open>Collector\<close> (\<open>context/collector.py\<close>): the watchers of files, the context events and the work sessions.
    \<open>Proactive_Triggers\<close> (\<open>scheduler/proactive.py\<close>, \<open>context/calendar.py\<close>): the triggers of a proactive run over these
    events, cooldown and backoff, and the rating of an answer. \<open>Proactive_Agent\<close> (\<open>scheduler/proactive.py\<close>,
    \<open>evaluation/metrics.py\<close>): the scan and its gates, a run and what its answer leaves behind.
  \<^item> \<open>Trust_Ladder\<close> (\<open>evaluation/feedback.py\<close>, \<open>api/trust_routes.py\<close>): the levels that ratings earn and the tools a
    level offers, as an invariant of all histories of ratings, grants and revocations.
  \<^item> \<open>Output_Guard\<close> (\<open>kernel/output_guard.py\<close>): the patterns of secrets with the matching of their regular expressions,
    and the redaction of the outputs of tools. \<open>Web_Tools\<close> (\<open>kernel/tools.py\<close>): the guard against requests into the own
    network, over addresses as words, the fetch with its redirects, the listing and the publication of pages.
  \<^item> \<open>Bpf_Lsm\<close> (\<open>kernel/bpf_lsm.py\<close>): the boot check, the policy and the supervisor of the holder of the access control.
    \<open>Dep_Lock\<close> (\<open>kernel/dep_lock.py\<close>): the comparison of the installed packages with the lock. \<open>Lifespan\<close>
    (\<open>api/app.py\<close>): the start of the server, which composes the boot checks of Landlock, the access control, the units,
    the audit log and the lock.
  \<^item> \<open>Run_Registry\<close> (\<open>api/run_registry.py\<close>, \<open>api/intent_routes.py\<close>): publishers and subscribers of event streams as an
    interleaving step relation.
  \<^item> \<open>Rate_Limiter\<close> (\<open>middleware/rate_limiter.py\<close>): the request counter, refined against a fixed-window specification.
  \<^item> \<open>Accounts\<close> (\<open>auth.py\<close>, \<open>billing.py\<close>, \<open>db/__init__.py\<close>, \<open>models/__init__.py\<close>, \<open>api/deps.py\<close>): users, sessions, quotas and
    webhooks.

  \<^bold>\<open>Conventions.\<close> A definition has the name of the function it models; records carry the state of an object, and every
  raise, early return and refusal is a branch. Python integers are \<open>int\<close>, masks of the kernel interface and network addresses
  are words.
  Two loops need not end by themselves and are \<open>partial_function\<close>s on options: \<open>probe_until\<close>, the probe after a
  restart, is shown to return under the law that the clock advances while sleeping; \<open>health_wait\<close>, the health gate of
  an applied fix, is shown to be at most as many rounds as polls fit into its time. Parsers of JSON take a fuel that is
  the length of their input, which bounds the nesting.

  \<^bold>\<open>What is assumed.\<close> Code outside the repository is a parameter: systemd and its timers (\<open>deadman_laws\<close>), git and pip
  (\<open>reads_only\<close> and the laws of the preflights), the Landlock system calls, Redis, JSON web tokens, password hashes,
  the signature scheme (\<open>signatures_verify\<close>), Stripe, the test suite of a repository (\<open>suite_laws\<close>), the live tree and
  its service manager (\<open>live_laws\<close>), the language model, the name resolver and one HTTP exchange. Each law states documented behaviour and is instantiated by a
  concrete function in the witness of the property that uses it.

  \<^bold>\<open>Not modelled.\<close> Strings are Latin-1 and paths have no symbolic links; file modes, the messages of exceptions, logging,
  metrics and floating-point JSON numbers are left out. The prompts of the scheduler, the other context collectors,
  the statistics, the command line, the remaining API routes and the other operating systems' backends are listed in the
  manifest with the reason.
\<close>

end
